(* ===== verification/Soto_Prelude.thy ===== *)
theory Soto_Prelude
  imports Main "HOL-Library.Word"
begin

text \<open>
  Shared material of the development: the fixed-width integer types of the sources
  (\<open>uint8\<close> \dots \<open>uint64\<close>, \<open>bigtime_t\<close>), the Haiku status codes that the modelled
  functions return, buffer slices (\<open>memcpy(dst, buf + off, n)\<close>), and the word and
  list lemmas that the codec proofs of the components rest on.  The collection
  \<open>byte_simps\<close> holds the facts that take a word apart into bytes and put it back
  together; \<open>slice_simps\<close> those that read fields out of a concatenation.
\<close>

unbundle bit_operations_syntax

named_theorems byte_simps \<open>byte-wise decomposition of words\<close>
named_theorems slice_simps \<open>fields of concatenated buffers\<close>

type_synonym u8 = "8 word"
type_synonym u16 = "16 word"
type_synonym u32 = "32 word"
type_synonym u64 = "64 word"
type_synonym bytes = "u8 list"

text \<open>The status codes of \<open>SupportDefs.h\<close> that the modelled code returns.\<close>

datatype status =
    B_OK | B_ERROR | B_BAD_VALUE | B_BAD_DATA | B_NO_INIT | B_IO_ERROR | B_WOULD_BLOCK
  | B_ENTRY_NOT_FOUND | B_CANCELED | B_NOT_ALLOWED | B_TIMED_OUT | B_NAME_NOT_FOUND
  | B_NOT_SUPPORTED | B_BAD_TYPE

subsection \<open>Buffers\<close>

definition slice :: "nat \<Rightarrow> nat \<Rightarrow> 'a list \<Rightarrow> 'a list" where
  "slice off n xs = take n (drop off xs)"

lemma length_slice [simp]: "off + n \<le> length xs \<Longrightarrow> length (slice off n xs) = n"
  by (simp add: slice_def)

lemma slice_0_append [slice_simps]: "length xs = n \<Longrightarrow> slice 0 n (xs @ ys) = xs"
  by (simp add: slice_def)

lemma slice_0_all [slice_simps]: "length xs = n \<Longrightarrow> slice 0 n xs = xs"
  by (simp add: slice_def)

lemma slice_skip [slice_simps]:
  "length xs \<le> off \<Longrightarrow> slice off n (xs @ ys) = slice (off - length xs) n ys"
  by (simp add: slice_def)

lemma slice_Cons_skip [slice_simps]: "0 < off \<Longrightarrow> slice off n (x # ys) = slice (off - 1) n ys"
  by (simp add: slice_def drop_Cons')

lemma nth_append_skip [slice_simps]: "length xs \<le> i \<Longrightarrow> (xs @ ys) ! i = ys ! (i - length xs)"
  by (simp add: nth_append)

lemma drop_append_skip [slice_simps]: "length xs \<le> i \<Longrightarrow> drop i (xs @ ys) = drop (i - length xs) ys"
  by simp

text \<open>Cutting a field off a buffer.\<close>

lemma slice_cut: "drop i xs = slice i n xs @ drop (i + n) xs"
  by (metis append_take_drop_id drop_drop add.commute slice_def)

subsection \<open>Words as bytes\<close>

text \<open>One more byte of a word: the loop invariant of every load routine.\<close>

lemma take_bit_8_step [byte_simps]:
  fixes v :: "'a::len word"
  shows "take_bit k v OR push_bit k (take_bit 8 (drop_bit k v)) = take_bit (k + 8) v"
proof (rule bit_word_eqI)
  fix n assume n: "n < LENGTH('a)"
  show "bit (take_bit k v OR push_bit k (take_bit 8 (drop_bit k v))) n = bit (take_bit (k + 8) v) n"
  proof (cases "n < k")
    case True then show ?thesis by (simp add: bit_simps)
  next
    case False
    then obtain j where "n = k + j" using le_Suc_ex not_less by blast
    then show ?thesis using n by (auto simp: bit_simps)
  qed
qed

lemma ucast_byte [byte_simps]: "ucast (ucast v :: u8) = take_bit 8 (v :: 'a::len word)"
  by (rule bit_word_eqI) (auto simp: bit_simps)

lemma take_bit_full_word [byte_simps]: "LENGTH('a) \<le> k \<Longrightarrow> take_bit k (v :: 'a::len word) = v"
  by (simp add: take_bit_word_eq_self)

lemma upt_8: "[0..<8] = [0, 1, 2, 3, 4, 5, 6, 7::nat]"
  by code_simp

lemma unat_drop_bit_div: "unat (drop_bit k (w :: 'a::len word)) = unat w div 2 ^ k"
proof -
  have "take_bit LENGTH('a) (unat w) = unat w" for w :: "'a word"
    by (simp add: take_bit_nat_eq_self_iff)
  then show ?thesis
    unfolding unsigned_drop_bit_eq by (simp add: drop_bit_eq_div)
qed

lemma unat_take_bit_mod: "unat (take_bit k (w :: 'a::len word)) = unat w mod 2 ^ k"
  by (simp only: unsigned_take_bit_eq) (simp add: take_bit_eq_mod)

lemma unat_inj: "unat v = unat w \<Longrightarrow> v = w"
  by (rule unsigned_word_eqI)

lemma unat_u64_less: "unat (x :: u64) < 18446744073709551616"
  using unsigned_less [of x, where ?'a = nat] by simp

lemma unat_ucast_u8 [byte_simps]: "unat (ucast (w :: 'a::len word) :: u8) = unat w mod 256"
  by (simp add: unsigned_ucast_eq take_bit_eq_mod)

lemma unat_ucast_up:
  assumes "LENGTH('a) \<le> LENGTH('b)"
  shows "unat (ucast (w :: 'a::len word) :: 'b::len word) = unat w"
proof -
  have "unat w < 2 ^ LENGTH('a)" by (rule unsigned_less)
  also have "\<dots> \<le> 2 ^ LENGTH('b)" using assms by simp
  finally show ?thesis by (simp add: unsigned_ucast_eq take_bit_nat_eq_self_iff)
qed

lemma unat_u8_less [simp]: "unat (b :: u8) < 256"
  using unsigned_less [of b] by simp

lemma and255: "unat (u AND 255 :: u32) = unat u mod 256"
proof -
  have "(255 :: u32) = mask 8" by (simp add: mask_eq_exp_minus_1)
  then have "u AND 255 = take_bit 8 u" by (simp add: take_bit_eq_mask)
  then show ?thesis by (simp add: unat_take_bit_mod)
qed

subsection \<open>Big-endian 16-bit fields\<close>

definition be16 :: "u16 \<Rightarrow> bytes" where
  "be16 w = [ucast (drop_bit 8 w), ucast (w AND 0xFF)]"

lemma length_be16 [simp]: "length (be16 w) = 2"
  by (simp add: be16_def)

lemma u16_bytes: "(push_bit 8 (ucast (ucast (drop_bit 8 p) :: u8)) OR ucast (ucast (p AND 0xFF) :: u8) :: u16) = p"
proof (rule bit_word_eqI)
  fix n assume n: "n < LENGTH(16)"
  have m: "(0xFF :: u16) = mask 8" by (simp add: mask_eq_exp_minus_1)
  show "bit (push_bit 8 (ucast (ucast (drop_bit 8 p) :: u8)) OR ucast (ucast (p AND 0xFF) :: u8) :: u16) n = bit p n"
    using n unfolding m by (cases "n < 8") (auto simp: bit_simps)
qed

end
