(* ===== verification/Backoff.thy ===== *)
theory Backoff
  imports Soto_Prelude
begin

text \<open>
  \<open>ts::ReconnectBackoff\<close> (\<open>src/src/backend/tailscale/TSBackoff.cpp\<close>): the reconnect
  policy of the control map long-poll.  \<open>bigtime_t\<close> is a signed 64-bit integer; the
  state keeps mathematical integers and the one operation that can leave the range, the
  doubling of the current delay, is written with its 64-bit wrap-around.  The main
  result is the closed form of the delay sequence: after \<open>k\<close> failures in a row the
  delay is \<open>min fMax (fMin * 2^k)\<close>, a healthy drop starts again at \<open>fMin\<close>.
\<close>

record backoff =
  fMin :: int
  fMax :: int
  fHealthy :: int
  fCurrent :: int

text \<open>A product of \<open>bigtime_t\<close> values, reduced to 64 signed bits.\<close>

definition wrap64 :: "int \<Rightarrow> int" where
  "wrap64 x = sint (word_of_int x :: 64 word)"

definition ReconnectBackoff :: "int \<Rightarrow> int \<Rightarrow> int \<Rightarrow> backoff" where
  "ReconnectBackoff minDelay maxDelay healthyThreshold =
     \<lparr> fMin = (if minDelay > 0 then minDelay else 1),
       fMax = (if maxDelay \<ge> minDelay then maxDelay else minDelay),
       fHealthy = healthyThreshold,
       fCurrent = (if minDelay > 0 then minDelay else 1) \<rparr>"

definition NextDelay :: "backoff \<Rightarrow> bool \<Rightarrow> int \<Rightarrow> backoff \<times> int" where
  "NextDelay b established lasted =
     (if established \<and> lasted \<ge> fHealthy b
      then (b\<lparr>fCurrent := fMin b\<rparr>, fMin b)
      else (let delay = fCurrent b;
                next = wrap64 (fCurrent b * 2);
                next = (if next > fMax b then fMax b else next)
            in (b\<lparr>fCurrent := next\<rparr>, delay)))"

definition Reset :: "backoff \<Rightarrow> backoff" where
  "Reset b = b\<lparr>fCurrent := fMin b\<rparr>"

text \<open>A sequence of finished attempts, each as \<open>(established, lasted)\<close>.\<close>

fun delays :: "backoff \<Rightarrow> (bool \<times> int) list \<Rightarrow> int list" where
  "delays b [] = []"
| "delays b ((e, l) # as) = (let (b', d) = NextDelay b e l in d # delays b' as)"

text \<open>Whether an attempt counts as healthy, and the length of a final run of failures.\<close>

definition healthy :: "int \<Rightarrow> bool \<times> int \<Rightarrow> bool" where
  "healthy h a \<longleftrightarrow> fst a \<and> snd a \<ge> h"

definition streak :: "int \<Rightarrow> (bool \<times> int) list \<Rightarrow> nat" where
  "streak h as = length (takeWhile (\<lambda>a. \<not> healthy h a) (rev as))"

lemma wrap64_id: "- (2 ^ 63) \<le> x \<Longrightarrow> x < 2 ^ 63 \<Longrightarrow> wrap64 x = x"
  by (simp add: wrap64_def signed_of_int signed_take_bit_int_eq_self)

lemma streak_snoc: "streak h (as @ [a]) = (if healthy h a then 0 else Suc (streak h as))"
  by (simp add: streak_def)

text \<open>The state after a prefix of the attempts, in closed form.\<close>

fun backoff_run :: "backoff \<Rightarrow> (bool \<times> int) list \<Rightarrow> backoff" where
  "backoff_run b [] = b"
| "backoff_run b ((e, l) # as) = backoff_run (fst (NextDelay b e l)) as"

lemma run_snoc: "backoff_run b (as @ [(e, l)]) = fst (NextDelay (backoff_run b as) e l)"
  by (induction b as rule: backoff_run.induct) auto

lemma delays_nth: "i < length as \<Longrightarrow>
    delays b as ! i = snd (NextDelay (backoff_run b (take i as)) (fst (as ! i)) (snd (as ! i)))"
proof (induction as arbitrary: b i)
  case (Cons a as)
  then show ?case by (cases a; cases i) (auto simp: split_beta)
qed simp

lemma NextDelay_frame [simp]:
  "fMin (fst (NextDelay b e l)) = fMin b" "fMax (fst (NextDelay b e l)) = fMax b"
  "fHealthy (fst (NextDelay b e l)) = fHealthy b"
  by (simp_all add: NextDelay_def Let_def)

lemma run_frame [simp]:
  "fMin (backoff_run b as) = fMin b" "fMax (backoff_run b as) = fMax b" "fHealthy (backoff_run b as) = fHealthy b"
  by (induction b as rule: backoff_run.induct) auto

lemma min_double:
  fixes m M :: int
  assumes "0 < m" "m \<le> M"
  shows "min M (2 * min M (m * 2 ^ k)) = min M (m * 2 ^ Suc k)"
  using assms by (auto simp: min_def)

lemma run_current:
  assumes "0 < m" "m \<le> M" "M < 2 ^ 62" "b = ReconnectBackoff m M h"
  shows "fCurrent (backoff_run b as) = min M (m * 2 ^ streak h as)"
proof (induction as rule: rev_induct)
  case Nil
  then show ?case using assms by (simp add: ReconnectBackoff_def streak_def)
next
  case (snoc a as)
  obtain e l where a: "a = (e, l)" by force
  let ?c = "fCurrent (backoff_run b as)"
  have pos: "0 \<le> m * 2 ^ streak h as" using assms by simp
  then have "0 \<le> ?c" "?c < 2 ^ 62" using snoc assms by auto
  then have w: "wrap64 (?c * 2) = 2 * ?c" by (simp add: wrap64_id)
  have hb: "fHealthy b = h" "fMin b = m" "fMax b = M" using assms by (auto simp: ReconnectBackoff_def)
  show ?case
  proof (cases "healthy h a")
    case True
    then show ?thesis using assms(1-3)
      by (simp add: a run_snoc NextDelay_def healthy_def hb streak_snoc)
  next
    case False
    then have "fCurrent (backoff_run b (as @ [a])) = min M (2 * ?c)"
      by (auto simp: a run_snoc NextDelay_def healthy_def hb w Let_def)
    also have "\<dots> = min M (m * 2 ^ Suc (streak h as))"
      using assms(1,2) min_double [of m M "streak h as"] by (simp add: snoc)
    finally show ?thesis using False by (simp add: streak_snoc)
  qed
qed

text \<open>
  C40. Reconnect backoff: for a policy with \<open>0 < minDelay \<le> maxDelay < 2^62\<close> the
  delay returned for the \<open>i\<close>-th attempt is exactly \<open>minDelay\<close> after a healthy session
  and otherwise \<open>min maxDelay (minDelay * 2^k)\<close>, where \<open>k\<close> counts the failures since
  the last healthy session; hence it never leaves \<open>[minDelay, maxDelay]\<close>.
\<close>

theorem backoff_delay_closed_form:
  assumes "0 < m" "m \<le> M" "M < 2 ^ 62" "i < length as"
  shows "delays (ReconnectBackoff m M h) as ! i =
           (if healthy h (as ! i) then m else min M (m * 2 ^ streak h (take i as)))
       \<and> m \<le> delays (ReconnectBackoff m M h) as ! i
       \<and> delays (ReconnectBackoff m M h) as ! i \<le> M"
proof -
  let ?b = "ReconnectBackoff m M h"
  have hb: "fHealthy ?b = h" "fMin ?b = m" using assms by (auto simp: ReconnectBackoff_def)
  have "delays ?b as ! i = (if healthy h (as ! i) then m else fCurrent (backoff_run ?b (take i as)))"
    using assms(4) by (auto simp: delays_nth NextDelay_def healthy_def hb Let_def)
  then have eq: "delays ?b as ! i = (if healthy h (as ! i) then m else min M (m * 2 ^ streak h (take i as)))"
    by (simp add: run_current [OF assms(1-3) refl])
  moreover have "m \<le> m * 2 ^ k" for k using assms(1) by simp
  ultimately show ?thesis using assms by auto
qed

theorem backoff_delay_closed_form_witness:
  "delays (ReconnectBackoff 1000 5000 60) [(False, 0), (True, 3), (False, 0), (False, 9)] ! 3 = 5000"
  using backoff_delay_closed_form [of 1000 5000 3 "[(False, 0), (True, 3), (False, 0), (False, 9)]" 60]
  by (simp add: healthy_def streak_def numeral_3_eq_3)

end
