(* ===== verification/PeerPath.thy ===== *)
theory PeerPath
  imports Soto_Prelude
begin

text \<open>
  \<open>ts::PeerPath\<close> (\<open>src/src/backend/tailscale/PeerPath.cpp\<close>): the per-peer choice between
  the DERP relay and a direct UDP endpoint.  The state is the class's three fields, the
  operations are its four methods, and a run is a list of method calls.  The path machine
  is also given as an \<open>inductive\<close> step relation, and its reachable states satisfy the
  "DERP-then-upgrade" policy of the class comment.  Times are system times in
  microseconds (\<open>bigtime_t\<close>), whose differences stay far inside 64 bits.
\<close>

datatype PathMode = PATH_NONE | PATH_DERP | PATH_DIRECT

record peer_path =
  fMode :: PathMode
  fEndpoint :: string
  fLastDirectActivity :: int

definition PeerPath :: peer_path where
  "PeerPath = \<lparr> fMode = PATH_NONE, fEndpoint = '''', fLastDirectActivity = 0 \<rparr>"

definition UseDerp :: "peer_path \<Rightarrow> peer_path" where
  "UseDerp p = (if fMode p = PATH_NONE then p\<lparr>fMode := PATH_DERP\<rparr> else p)"

text \<open>The endpoint argument is \<open>None\<close> for a NULL pointer.\<close>

definition UpgradeToDirect :: "peer_path \<Rightarrow> string option \<Rightarrow> int \<Rightarrow> peer_path" where
  "UpgradeToDirect p endpoint now =
     p\<lparr> fMode := PATH_DIRECT,
        fEndpoint := (case endpoint of Some e \<Rightarrow> e | None \<Rightarrow> ''''),
        fLastDirectActivity := now \<rparr>"

definition NoteDirectActivity :: "peer_path \<Rightarrow> int \<Rightarrow> peer_path" where
  "NoteDirectActivity p now =
     (if fMode p = PATH_DIRECT then p\<lparr>fLastDirectActivity := now\<rparr> else p)"

definition Evaluate :: "peer_path \<Rightarrow> int \<Rightarrow> int \<Rightarrow> peer_path \<times> PathMode" where
  "Evaluate p now staleAfterUs =
     (let p' = (if fMode p = PATH_DIRECT \<and> now - fLastDirectActivity p > staleAfterUs
                then p\<lparr>fMode := PATH_DERP\<rparr> else p)
      in (p', fMode p'))"

subsection \<open>The path machine\<close>

datatype path_event =
    Ev_UseDerp
  | Ev_Pong "string option" int
  | Ev_Activity int
  | Ev_Evaluate int int

fun path_step :: "peer_path \<Rightarrow> path_event \<Rightarrow> peer_path" where
  "path_step p Ev_UseDerp = UseDerp p"
| "path_step p (Ev_Pong e now) = UpgradeToDirect p e now"
| "path_step p (Ev_Activity now) = NoteDirectActivity p now"
| "path_step p (Ev_Evaluate now stale) = fst (Evaluate p now stale)"

inductive path_reach :: "path_event list \<Rightarrow> peer_path \<Rightarrow> bool" where
  path_init: "path_reach [] PeerPath"
| path_next: "path_reach es p \<Longrightarrow> path_reach (es @ [e]) (path_step p e)"

code_pred path_reach .

lemmas path_defs = PeerPath_def UseDerp_def UpgradeToDirect_def NoteDirectActivity_def Evaluate_def

text \<open>The last endpoint that a pong confirmed, \<open>None\<close> before the first pong.\<close>

fun pong_endpoint :: "path_event \<Rightarrow> string option" where
  "pong_endpoint (Ev_Pong e _) = Some (case e of Some x \<Rightarrow> x | None \<Rightarrow> '''')"
| "pong_endpoint _ = None"

fun last_pong :: "path_event list \<Rightarrow> string option" where
  "last_pong [] = None"
| "last_pong (e # es) = (case last_pong es of Some x \<Rightarrow> Some x | None \<Rightarrow> pong_endpoint e)"

lemma last_pong_snoc:
  "last_pong (es @ [e]) = (case pong_endpoint e of Some x \<Rightarrow> Some x | None \<Rightarrow> last_pong es)"
  by (induction es) (auto split: option.splits)

lemma path_reach_inv:
  "path_reach es p \<Longrightarrow>
     (fMode p = PATH_NONE \<longleftrightarrow> Ev_UseDerp \<notin> set es \<and> last_pong es = None)
   \<and> fEndpoint p = (case last_pong es of Some e \<Rightarrow> e | None \<Rightarrow> '''')
   \<and> (fMode p = PATH_DIRECT \<longrightarrow> last_pong es \<noteq> None)"
proof (induction rule: path_reach.induct)
  case path_init
  then show ?case by (simp add: PeerPath_def)
next
  case (path_next es p e)
  then show ?case
    by (cases e) (auto simp: path_defs last_pong_snoc Let_def split: option.splits)
qed

text \<open>
  Path policy: in every reachable state the path is \<open>PATH_NONE\<close> exactly as long as
  neither a home relay nor a pong was reported; a direct path was always confirmed by a
  pong, and the endpoint is that of the last pong, also after a fall-back to DERP.
\<close>

theorem path_policy:
  assumes "path_reach es p"
  shows "(fMode p = PATH_NONE \<longleftrightarrow> Ev_UseDerp \<notin> set es \<and> last_pong es = None)
       \<and> (fMode p = PATH_DIRECT \<longrightarrow> last_pong es = Some (fEndpoint p))
       \<and> (last_pong es \<noteq> None \<longrightarrow> last_pong es = Some (fEndpoint p))"
  using path_reach_inv [OF assms] by auto

theorem path_policy_witness:
  "fMode (path_step (path_step PeerPath (Ev_Pong (Some ''1.2.3.4:5'') 10)) (Ev_Evaluate 99 5)) \<noteq> PATH_NONE"
proof -
  have "path_reach (([] @ [Ev_Pong (Some ''1.2.3.4:5'') 10]) @ [Ev_Evaluate 99 5])
      (path_step (path_step PeerPath (Ev_Pong (Some ''1.2.3.4:5'') 10)) (Ev_Evaluate 99 5))"
    by (intro path_next path_init)
  from path_policy [OF this] show ?thesis by simp
qed

text \<open>
  Send decision: \<open>Evaluate\<close> answers DIRECT only when the direct path was active within
  the staleness bound; it answers DERP for a direct path that went quiet and keeps its
  endpoint; and it never changes a path that is not direct.  A re-advertised peer
  (\<open>UseDerp\<close>) never loses its direct path.
\<close>

theorem evaluate_decision:
  "snd (Evaluate p now stale) =
     (if fMode p = PATH_DIRECT \<and> now - fLastDirectActivity p > stale then PATH_DERP else fMode p)
   \<and> (snd (Evaluate p now stale) = PATH_DIRECT \<longleftrightarrow>
        fMode p = PATH_DIRECT \<and> now - fLastDirectActivity p \<le> stale)
   \<and> fEndpoint (fst (Evaluate p now stale)) = fEndpoint p
   \<and> fMode (fst (Evaluate p now stale)) = snd (Evaluate p now stale)
   \<and> Evaluate (UseDerp (UpgradeToDirect p e t)) now stale = Evaluate (UpgradeToDirect p e t) now stale"
  by (auto simp: path_defs Let_def)

end
