(* ===== verification/CLib.thy ===== *)
theory CLib
  imports Soto_Prelude
begin

text \<open>
  The C and Haiku library routines that the parsers of the repository call, on
  strings modelled as \<open>char list\<close> (bytes): the C-locale character classes,
  \<open>strtol\<close> and \<open>atoi\<close> with the saturation and truncation of the 64-bit targets,
  \<open>sscanf("%u.%u.%u.%u")\<close> and its inverse \<open>snprintf\<close>, and the \<open>BString\<close> /
  \<open>std::string\<close> operations (\<open>FindFirst\<close>, \<open>Trim\<close>, splitting a text at a delimiter).
  \<open>sscanf_ipv4_fmt_ipv4\<close> is the round trip on which the address codecs rest.
\<close>

subsection \<open>Characters\<close>

abbreviation code :: "char \<Rightarrow> nat" where
  "code c \<equiv> of_char c"

definition isspace :: "char \<Rightarrow> bool" where
  "isspace c \<longleftrightarrow> code c = 32 \<or> (9 \<le> code c \<and> code c \<le> 13)"

definition isdigit :: "char \<Rightarrow> bool" where
  "isdigit c \<longleftrightarrow> 48 \<le> code c \<and> code c \<le> 57"

definition isupper :: "char \<Rightarrow> bool" where
  "isupper c \<longleftrightarrow> 65 \<le> code c \<and> code c \<le> 90"

definition islower :: "char \<Rightarrow> bool" where
  "islower c \<longleftrightarrow> 97 \<le> code c \<and> code c \<le> 122"

definition isalnum :: "char \<Rightarrow> bool" where
  "isalnum c \<longleftrightarrow> isdigit c \<or> isupper c \<or> islower c"

definition tolower :: "char \<Rightarrow> char" where
  "tolower c = (if isupper c then char_of (code c + 32) else c)"

lemma tolower_idem [simp]: "tolower (tolower c) = tolower c"
  by (auto simp: tolower_def isupper_def)

text \<open>A byte of a buffer as a character and back (\<open>(char)b\<close>, \<open>(uint8)c\<close>).\<close>

definition chr_of_byte :: "u8 \<Rightarrow> char" where
  "chr_of_byte b = char_of (unat b)"

definition byte_of_chr :: "char \<Rightarrow> u8" where
  "byte_of_chr c = of_nat (code c)"

lemma chr_of_byte_of_chr [simp]: "chr_of_byte (byte_of_chr c) = c"
  by (simp add: chr_of_byte_def byte_of_chr_def unat_of_nat)

lemma byte_of_chr_of_byte [simp]: "byte_of_chr (chr_of_byte b) = b"
  by (simp add: chr_of_byte_def byte_of_chr_def)

subsection \<open>Strings\<close>

text \<open>\<open>s.c_str()\<close> as a C string: it ends at the first NUL.\<close>

definition c_str :: "string \<Rightarrow> string" where
  "c_str s = takeWhile (\<lambda>c. code c \<noteq> 0) s"

text \<open>\<open>FindFirst(c)\<close>, \<open>find(c)\<close>, \<open>strchr\<close>: \<open>None\<close> for \<open>-1\<close>/\<open>npos\<close>/NULL.\<close>

fun find_first :: "'a \<Rightarrow> 'a list \<Rightarrow> nat option" where
  "find_first c [] = None"
| "find_first c (x # xs) = (if x = c then Some 0 else map_option Suc (find_first c xs))"

text \<open>\<open>FindLast(c)\<close>, \<open>rfind(c)\<close>, \<open>strrchr\<close>.\<close>

definition find_last :: "'a \<Rightarrow> 'a list \<Rightarrow> nat option" where
  "find_last c xs = map_option (\<lambda>i. length xs - 1 - i) (find_first c (rev xs))"

lemma find_first_None [simp]: "find_first c xs = None \<longleftrightarrow> c \<notin> set xs"
  by (induction xs) auto

lemma find_first_Some:
  "find_first c xs = Some i \<Longrightarrow> i < length xs \<and> xs ! i = c \<and> c \<notin> set (take i xs)"
  by (induction xs arbitrary: i) (auto split: if_splits)

lemma find_first_append_notin: "c \<notin> set xs \<Longrightarrow> find_first c (xs @ c # ys) = Some (length xs)"
  by (induction xs) auto

text \<open>The first hit of a search loop.\<close>

fun first_some :: "('a \<Rightarrow> 'b option) \<Rightarrow> 'a list \<Rightarrow> 'b option" where
  "first_some f [] = None"
| "first_some f (x # xs) = (case f x of Some y \<Rightarrow> Some y | None \<Rightarrow> first_some f xs)"

lemma first_some_Some: "first_some f xs = Some y \<Longrightarrow> \<exists>x \<in> set xs. f x = Some y"
  by (induction xs) (auto split: option.splits)

text \<open>\<open>FindFirst("...")\<close>, \<open>strstr\<close>, \<open>memmem\<close>: the first occurrence of a pattern, and from an offset.\<close>

fun find_sub :: "'a list \<Rightarrow> 'a list \<Rightarrow> nat option" where
  "find_sub pat [] = (if pat = [] then Some 0 else None)"
| "find_sub pat (x # xs) =
     (if take (length pat) (x # xs) = pat then Some 0 else map_option Suc (find_sub pat xs))"

definition find_sub_from :: "'a list \<Rightarrow> 'a list \<Rightarrow> nat \<Rightarrow> nat option" where
  "find_sub_from pat xs from = map_option (\<lambda>i. from + i) (find_sub pat (drop from xs))"

lemma find_sub_hit: "find_sub pat (pat @ xs) = Some 0"
proof (cases "pat @ xs")
  case (Cons y ys)
  have "take (length pat) (pat @ xs) = pat" by simp
  then show ?thesis by (simp add: Cons)
qed simp

lemma find_sub_Some:
  "find_sub pat xs = Some i \<Longrightarrow> i + length pat \<le> length xs \<and> slice i (length pat) xs = pat"
proof (induction xs arbitrary: i)
  case Nil
  then show ?case by (auto simp: slice_def split: if_splits)
next
  case (Cons x xs)
  show ?case
  proof (cases "take (length pat) (x # xs) = pat")
    case True
    then have "length pat \<le> length (x # xs)" by (metis length_take min.cobounded1)
    then show ?thesis using True Cons.prems by (simp add: slice_def)
  next
    case False
    then show ?thesis using Cons by (auto simp: slice_def)
  qed
qed

text \<open>More text behind does not move an occurrence.\<close>

lemma find_sub_append: "find_sub pat xs = Some i \<Longrightarrow> find_sub pat (xs @ ys) = Some i"
proof (induction xs arbitrary: i)
  case Nil
  then show ?case using find_sub_hit [of "[]" ys] by (auto split: if_splits)
next
  case (Cons x xs)
  show ?case
  proof (cases "take (length pat) (x # xs) = pat")
    case True
    then have "length pat \<le> length (x # xs)" by (metis length_take min.cobounded1)
    then have "take (length pat) (x # xs @ ys) = pat" using True by (metis append_Cons take_append diff_is_0_eq take0 append_Nil2)
    then show ?thesis using True Cons.prems by auto
  next
    case False
    then obtain j where j: "find_sub pat xs = Some j" "i = Suc j" using Cons.prems by auto
    then have "length pat \<le> length (x # xs)" using find_sub_Some [OF j(1)] by simp
    then have "take (length pat) (x # xs @ ys) \<noteq> pat" using False by (metis append_Cons take_append diff_is_0_eq take0 append_Nil2)
    then show ?thesis using Cons.IH [OF j(1)] j(2) by auto
  qed
qed

text \<open>Text in front that the first character of the pattern does not occur in is skipped.\<close>

lemma find_sub_skip: "c \<notin> set xs \<Longrightarrow> find_sub (c # pat) (xs @ c # pat @ ys) = Some (length xs)"
  by (induction xs) (auto simp: find_sub_hit [of "c # pat", simplified])

text \<open>
  The fields between occurrences of a delimiter.  The scanning loops of the sources
  (\<open>while (start <= length) { end = find(d, start); ... start = end + 1; }\<close>) visit
  exactly these fields, in this order; the text after the last delimiter is a field
  too, also when it is empty.
\<close>

fun split_on :: "'a \<Rightarrow> 'a list \<Rightarrow> 'a list list" where
  "split_on d [] = [[]]"
| "split_on d (x # xs) =
     (if x = d then [] # split_on d xs
      else case split_on d xs of [] \<Rightarrow> [[x]] | f # fs \<Rightarrow> (x # f) # fs)"

lemma split_on_ne [simp]: "split_on d xs \<noteq> []"
  by (induction xs) (auto split: list.splits)

lemma split_on_notin: "d \<notin> set xs \<Longrightarrow> split_on d xs = [xs]"
  by (induction xs) auto

lemma split_on_append_delim: "d \<notin> set xs \<Longrightarrow> split_on d (xs @ d # ys) = xs # split_on d ys"
  by (induction xs) auto

text \<open>\<open>trim\<close> with a predicate for each end.\<close>

definition trim_ends :: "(char \<Rightarrow> bool) \<Rightarrow> (char \<Rightarrow> bool) \<Rightarrow> string \<Rightarrow> string" where
  "trim_ends p q s = rev (dropWhile q (rev (dropWhile p s)))"

subsection \<open>Decimal numbers\<close>

definition digit_val :: "char \<Rightarrow> nat" where
  "digit_val c = code c - 48"

definition dec_value :: "string \<Rightarrow> nat" where
  "dec_value ds = foldl (\<lambda>a c. 10 * a + digit_val c) 0 ds"

text \<open>The sign of a number: \<open>(negative, rest)\<close>.\<close>

fun scan_sign :: "string \<Rightarrow> bool \<times> string" where
  "scan_sign [] = (False, [])"
| "scan_sign (c # cs) =
     (if c = CHR ''-'' then (True, cs) else if c = CHR ''+'' then (False, cs) else (False, c # cs))"

text \<open>
  \<open>strtol(s, &end, 10)\<close> on a 64-bit \<open>long\<close>: leading white space and a sign are
  skipped, the value saturates, and \<open>end\<close> (here: the text from \<open>end\<close> on) is the
  whole input when there is no digit.
\<close>

definition strtol :: "string \<Rightarrow> int \<times> string" where
  "strtol s =
     (let (neg, u) = scan_sign (dropWhile isspace s); ds = takeWhile isdigit u in
      if ds = [] then (0, s)
      else (let v = (if neg then - int (dec_value ds) else int (dec_value ds))
            in (max (- (2 ^ 63)) (min (2 ^ 63 - 1) v), dropWhile isdigit u)))"

text \<open>\<open>atoi(s)\<close> is \<open>(int)strtol(s, NULL, 10)\<close>.\<close>

definition atoi :: "string \<Rightarrow> int" where
  "atoi s = sint (word_of_int (fst (strtol (c_str s))) :: 32 word)"

text \<open>\<open>strtoull(s, NULL, 10)\<close>: saturating, and a minus sign negates modulo \<open>2^64\<close>.\<close>

definition strtoull_digits :: "bool \<Rightarrow> string \<Rightarrow> u64" where
  "strtoull_digits neg ds =
     (if dec_value ds < 2 ^ 64 then (let v = of_nat (dec_value ds) in if neg then - v else v)
      else - 1)"

definition strtoull :: "string \<Rightarrow> u64" where
  "strtoull s =
     (let (neg, u) = scan_sign (dropWhile isspace s); ds = takeWhile isdigit u in
      if ds = [] then 0 else strtoull_digits neg ds)"

text \<open>One \<open>%u\<close> of \<open>sscanf\<close>: the converted \<open>unsigned int\<close> and the unread input.\<close>

definition scan_u :: "string \<Rightarrow> (u32 \<times> string) option" where
  "scan_u s =
     (let (neg, u) = scan_sign (dropWhile isspace s); ds = takeWhile isdigit u in
      if ds = [] then None else Some (ucast (strtoull_digits neg ds), dropWhile isdigit u))"

text \<open>A literal character of the format.\<close>

fun scan_lit :: "char \<Rightarrow> string \<Rightarrow> string option" where
  "scan_lit c [] = None"
| "scan_lit c (x # xs) = (if x = c then Some xs else None)"

text \<open>\<open>sscanf(s, "%u.%u.%u.%u", ...) == 4\<close> with the four values.\<close>

definition sscanf_ipv4 :: "string \<Rightarrow> (u32 \<times> u32 \<times> u32 \<times> u32) option" where
  "sscanf_ipv4 s =
     (case scan_u (c_str s) of None \<Rightarrow> None | Some (a, s1) \<Rightarrow>
      case scan_lit (CHR ''.'') s1 of None \<Rightarrow> None | Some s2 \<Rightarrow>
      case scan_u s2 of None \<Rightarrow> None | Some (b, s3) \<Rightarrow>
      case scan_lit (CHR ''.'') s3 of None \<Rightarrow> None | Some s4 \<Rightarrow>
      case scan_u s4 of None \<Rightarrow> None | Some (c, s5) \<Rightarrow>
      case scan_lit (CHR ''.'') s5 of None \<Rightarrow> None | Some s6 \<Rightarrow>
      case scan_u s6 of None \<Rightarrow> None | Some (d, _) \<Rightarrow> Some (a, b, c, d))"

text \<open>\<open>%u\<close> / \<open>%d\<close> of \<open>snprintf\<close> on a natural number.\<close>

fun show_nat :: "nat \<Rightarrow> string" where
  "show_nat n = (if n < 10 then [char_of (48 + n)] else show_nat (n div 10) @ [char_of (48 + n mod 10)])"

declare show_nat.simps [simp del]

definition fmt_ipv4 :: "nat \<Rightarrow> nat \<Rightarrow> nat \<Rightarrow> nat \<Rightarrow> string" where
  "fmt_ipv4 a b c d =
     show_nat a @ ''.'' @ show_nat b @ ''.'' @ show_nat c @ ''.'' @ show_nat d"

lemma show_nat_digits: "list_all isdigit (show_nat n)"
proof (induction n rule: show_nat.induct)
  case (1 n)
  have d: "isdigit (char_of (48 + k))" if "k < 10" for k :: nat
    using that by (simp add: isdigit_def)
  show ?case
    by (cases "n < 10") (use 1 d in \<open>auto simp: show_nat.simps [of n]\<close>)
qed

lemma show_nat_ne [simp]: "show_nat n \<noteq> []"
  by (subst show_nat.simps) simp

lemma dec_value_snoc: "dec_value (ds @ [c]) = 10 * dec_value ds + digit_val c"
  by (simp add: dec_value_def)

lemma dec_value_show_nat [simp]: "dec_value (show_nat n) = n"
proof (induction n rule: show_nat.induct)
  case (1 n)
  have d: "digit_val (char_of (48 + k)) = k" if "k < 10" for k :: nat
    using that by (simp add: digit_val_def)
  show ?case
  proof (cases "n < 10")
    case True
    then show ?thesis by (simp add: show_nat.simps [of n] dec_value_def d)
  next
    case False
    with 1 have "dec_value (show_nat n) = 10 * (n div 10) + digit_val (char_of (48 + n mod 10))"
      by (simp add: show_nat.simps [of n] dec_value_snoc)
    then show ?thesis by (simp add: d)
  qed
qed

lemma not_digit_facts [simp]:
  "\<not> isdigit (CHR ''.'')" "\<not> isdigit (CHR ''-'')" "\<not> isdigit (CHR ''+'')" "\<not> isdigit (CHR 0x00)"
  by (simp_all add: isdigit_def)

lemma isdigit_not_space: "isdigit c \<Longrightarrow> \<not> isspace c"
  by (auto simp: isdigit_def isspace_def)

lemma show_nat_hd: "\<exists>c cs. show_nat n = c # cs \<and> isdigit c"
  using show_nat_digits [of n] by (cases "show_nat n") auto

text \<open>Reading back a printed number that a non-digit follows.\<close>

lemma scan_u_show_nat:
  assumes "n < 2 ^ 32" "rest = [] \<or> \<not> isdigit (hd rest)"
  shows "scan_u (show_nat n @ rest) = Some (of_nat n, rest)"
proof -
  obtain c cs where c: "show_nat n = c # cs" "isdigit c" using show_nat_hd by blast
  have tw: "takeWhile isdigit (show_nat n @ rest) = show_nat n"
    using show_nat_digits [of n] assms(2)
    by (cases rest) (auto simp: takeWhile_append list_all_iff)
  have dw: "dropWhile isdigit (show_nat n @ rest) = rest"
    using show_nat_digits [of n] assms(2)
    by (cases rest) (auto simp: dropWhile_append list_all_iff)
  have ws: "dropWhile isspace (show_nat n @ rest) = show_nat n @ rest"
    using c isdigit_not_space by simp
  have sg: "scan_sign (show_nat n @ rest) = (False, show_nat n @ rest)"
    using c by auto
  have "unat (of_nat n :: u64) = n" using assms(1) by (simp add: unat_of_nat)
  then have uc: "(ucast (of_nat n :: u64) :: u32) = of_nat n"
    by (metis of_nat_unat)
  then show ?thesis
    using assms(1) by (simp add: scan_u_def ws sg tw dw strtoull_digits_def uc)
qed

lemma c_str_no_nul [simp]: "list_all (\<lambda>c. code c \<noteq> 0) s \<Longrightarrow> c_str s = s"
  by (auto simp: c_str_def list_all_iff takeWhile_eq_all_conv)

lemma fmt_ipv4_no_nul: "list_all (\<lambda>c. code c \<noteq> 0) (fmt_ipv4 a b c d)"
proof -
  have "list_all (\<lambda>c. code c \<noteq> 0) (show_nat n)" for n
    using show_nat_digits [of n] by (auto simp: list_all_iff isdigit_def)
  then show ?thesis by (simp add: fmt_ipv4_def)
qed

theorem sscanf_ipv4_fmt_ipv4:
  assumes "a < 2 ^ 32" "b < 2 ^ 32" "c < 2 ^ 32" "d < 2 ^ 32"
  shows "sscanf_ipv4 (fmt_ipv4 a b c d) = Some (of_nat a, of_nat b, of_nat c, of_nat d)"
proof -
  have "c_str (fmt_ipv4 a b c d) = fmt_ipv4 a b c d"
    by (rule c_str_no_nul) (rule fmt_ipv4_no_nul)
  then show ?thesis
    using assms scan_u_show_nat [of d "[]"]
    by (simp add: sscanf_ipv4_def fmt_ipv4_def scan_u_show_nat)
qed

lemma atoi_show_nat: "n < 2 ^ 31 \<Longrightarrow> atoi (show_nat n) = int n"
proof -
  assume n: "n < 2 ^ 31"
  obtain c cs where c: "show_nat n = c # cs" "isdigit c" using show_nat_hd by blast
  have d: "\<forall>x\<in>set (show_nat n). isdigit x" using show_nat_digits [of n] by (simp add: list_all_iff)
  have nul: "c_str (show_nat n) = show_nat n"
    by (rule c_str_no_nul) (use d in \<open>auto simp: list_all_iff isdigit_def\<close>)
  have ws: "dropWhile isspace (show_nat n) = show_nat n" "scan_sign (show_nat n) = (False, show_nat n)"
    using c isdigit_not_space by auto
  have tw: "takeWhile isdigit (show_nat n) = show_nat n" using d by (simp add: takeWhile_eq_all_conv)
  have "fst (strtol (c_str (show_nat n))) = int n"
    using n by (simp add: strtol_def nul ws tw Let_def)
  then show ?thesis using n by (simp add: atoi_def signed_of_nat signed_take_bit_int_eq_self)
qed

end
