(* ===== verification/Replay.thy ===== *)
theory Replay
  imports Soto_Prelude
begin

text \<open>
  The RFC 6479 anti-replay window of \<open>ts::WGPeer\<close>
  (\<open>src/src/backend/tailscale/WGPeer.cpp\<close>, \<open>_ReplayValidate\<close> and \<open>ResetReplay\<close>): a
  64-bit high-water mark and a ring of 128 64-bit blocks.  The two fields form a record
  of their own, which the peer record of theory \<open>WGPeer\<close> extends.

  The specification is the mathematical window: the set of accepted counters and the
  highest one.  The locale \<open>replay_filter\<close> is the contract a filter offers its client
  (a simulation of the specification); in it, the properties of whole runs are proved
  once.  Its interpretation \<open>wg\<close> discharges the simulation for the ring of blocks.
\<close>

subsection \<open>The code\<close>

definition kReplayBits :: u64 where "kReplayBits = 64"
definition kReplayBlocks :: u64 where "kReplayBlocks = 128"
definition kReplayWindow :: u64 where "kReplayWindow = kReplayBits * (kReplayBlocks - 1)"
definition kRejectAfterMessages :: u64 where
  "kRejectAfterMessages = 0xFFFFFFFFFFFFFFFF - push_bit 13 1 - 1"

record replay =
  fReplayCounter :: u64
  fReplayBitmap :: "u64 list"

definition ResetReplay :: "'a replay_scheme \<Rightarrow> 'a replay_scheme" where
  "ResetReplay s = s\<lparr> fReplayCounter := 0, fReplayBitmap := replicate 128 0 \<rparr>"

text \<open>The loop \<open>for (i = 1; i <= top; i++) fReplayBitmap[(i + indexCurrent) & 127] = 0\<close>.\<close>

definition clear_blocks :: "u64 \<Rightarrow> u64 \<Rightarrow> u64 list \<Rightarrow> u64 list" where
  "clear_blocks topv indexCurrent bm =
     fold (\<lambda>i b. b[unat ((of_nat i + indexCurrent) AND (kReplayBlocks - 1)) := 0])
       [1..<Suc (unat topv)] bm"

definition ReplayValidate :: "'a replay_scheme \<Rightarrow> u64 \<Rightarrow> 'a replay_scheme \<times> bool" where
  "ReplayValidate s counter0 =
     (if counter0 \<ge> kRejectAfterMessages then (s, False)
      else let counter = counter0 + 1 in
        if kReplayWindow + counter < fReplayCounter s then (s, False)
        else let
          index = drop_bit 6 counter;
          s1 = (if counter > fReplayCounter s
                then let indexCurrent = drop_bit 6 (fReplayCounter s);
                         topv = index - indexCurrent;
                         topv = (if topv > kReplayBlocks then kReplayBlocks else topv)
                     in s\<lparr> fReplayBitmap := clear_blocks topv indexCurrent (fReplayBitmap s),
                           fReplayCounter := counter \<rparr>
                else s);
          index = index AND (kReplayBlocks - 1);
          bitv = push_bit (unat (counter AND (kReplayBits - 1))) 1
        in if fReplayBitmap s1 ! unat index AND bitv \<noteq> 0 then (s1, False)
           else (s1\<lparr> fReplayBitmap := (fReplayBitmap s1)
                       [unat index := fReplayBitmap s1 ! unat index OR bitv] \<rparr>, True))"

subsection \<open>The window specification\<close>

text \<open>
  \<open>hi\<close> is one more than the highest counter admitted to the window so far (0 at the
  start), \<open>seen\<close> holds the successors of the accepted counters.
\<close>

definition win_limit :: nat where "win_limit = 2 ^ 64 - 8194"
definition win_size :: nat where "win_size = 8128"

definition win_inside :: "nat \<Rightarrow> nat \<Rightarrow> bool" where
  "win_inside hi c \<longleftrightarrow> c < win_limit \<and> hi \<le> win_size + Suc c"

definition win_accept :: "nat \<Rightarrow> nat set \<Rightarrow> nat \<Rightarrow> bool" where
  "win_accept hi seen c \<longleftrightarrow> win_inside hi c \<and> Suc c \<notin> seen"

definition win_hi :: "nat \<Rightarrow> nat \<Rightarrow> nat" where
  "win_hi hi c = (if win_inside hi c then max hi (Suc c) else hi)"

definition win_seen :: "nat \<Rightarrow> nat set \<Rightarrow> nat \<Rightarrow> nat set" where
  "win_seen hi seen c = (if win_accept hi seen c then insert (Suc c) seen else seen)"

locale replay_filter =
  fixes validate :: "'s \<Rightarrow> u64 \<Rightarrow> 's \<times> bool"
    and rel :: "'s \<Rightarrow> nat \<Rightarrow> nat set \<Rightarrow> bool"
  assumes validate_result: "rel s hi seen \<Longrightarrow> snd (validate s c) = win_accept hi seen (unat c)"
    and validate_rel: "rel s hi seen \<Longrightarrow>
      rel (fst (validate s c)) (win_hi hi (unat c)) (win_seen hi seen (unat c))"
begin

fun filter_run :: "'s \<Rightarrow> u64 list \<Rightarrow> bool list" where
  "filter_run s [] = []"
| "filter_run s (c # cs) = snd (validate s c) # filter_run (fst (validate s c)) cs"

fun spec_run :: "nat \<Rightarrow> nat set \<Rightarrow> u64 list \<Rightarrow> bool list" where
  "spec_run hi seen [] = []"
| "spec_run hi seen (c # cs) =
     win_accept hi seen (unat c) # spec_run (win_hi hi (unat c)) (win_seen hi seen (unat c)) cs"

lemma filter_run_eq_spec: "rel s hi seen \<Longrightarrow> filter_run s cs = spec_run hi seen cs"
  by (induction cs arbitrary: s hi seen) (auto simp: validate_result dest: validate_rel)

lemma length_spec_run [simp]: "length (spec_run hi seen cs) = length cs"
  by (induction cs arbitrary: hi seen) auto

lemma spec_run_seen_rejected:
  "Suc (unat (cs ! i)) \<in> seen \<Longrightarrow> i < length cs \<Longrightarrow> \<not> spec_run hi seen cs ! i"
proof (induction cs arbitrary: hi seen i)
  case (Cons c cs)
  have "Suc (unat (cs ! k)) \<in> win_seen hi seen (unat c)" if "Suc (unat (cs ! k)) \<in> seen" for k
    using that by (auto simp: win_seen_def)
  with Cons show ?case by (cases i) (auto simp: win_accept_def)
qed simp

lemma spec_run_no_replay:
  "\<lbrakk> i < j; j < length cs; spec_run hi seen cs ! i; spec_run hi seen cs ! j \<rbrakk> \<Longrightarrow> cs ! i \<noteq> cs ! j"
proof (induction cs arbitrary: hi seen i j)
  case (Cons c cs)
  then obtain j' where j: "j = Suc j'" by (cases j) auto
  show ?case
  proof (cases i)
    case 0
    then have acc: "win_accept hi seen (unat c)" using Cons.prems by simp
    show ?thesis
    proof
      assume "(c # cs) ! i = (c # cs) ! j"
      then have "Suc (unat (cs ! j')) \<in> win_seen hi seen (unat c)"
        using acc 0 j by (auto simp: win_seen_def)
      with Cons.prems(2,4) j show False
        using spec_run_seen_rejected [of cs j' "win_seen hi seen (unat c)" "win_hi hi (unat c)"] by simp
    qed
  next
    case (Suc i')
    with j Cons show ?thesis by simp
  qed
qed simp

text \<open>The state of the specification after a run.\<close>

fun spec_state :: "nat \<Rightarrow> nat set \<Rightarrow> u64 list \<Rightarrow> nat \<times> nat set" where
  "spec_state hi seen [] = (hi, seen)"
| "spec_state hi seen (c # cs) =
     spec_state (win_hi hi (unat c)) (win_seen hi seen (unat c)) cs"

lemma spec_run_snoc:
  "spec_run hi seen (cs @ [c]) = spec_run hi seen cs
     @ [win_accept (fst (spec_state hi seen cs)) (snd (spec_state hi seen cs)) (unat c)]"
  by (induction cs arbitrary: hi seen) auto

lemma spec_state_bounds:
  "\<lbrakk> hi \<le> m; \<forall>c \<in> set cs. Suc (unat c) \<le> m \<rbrakk> \<Longrightarrow>
     fst (spec_state hi seen cs) \<le> m \<and> snd (spec_state hi seen cs) \<subseteq> seen \<union> (\<lambda>c. Suc (unat c)) ` set cs"
proof (induction cs arbitrary: hi seen)
  case (Cons c cs)
  have "win_hi hi (unat c) \<le> m" using Cons.prems by (auto simp: win_hi_def)
  with Cons have "fst (spec_state hi seen (c # cs)) \<le> m"
    and sub: "snd (spec_state hi seen (c # cs)) \<subseteq> win_seen hi seen (unat c) \<union> (\<lambda>c. Suc (unat c)) ` set cs"
    by auto
  moreover have "win_seen hi seen (unat c) \<subseteq> insert (Suc (unat c)) seen"
    by (auto simp: win_seen_def)
  ultimately show ?case by auto
qed simp

lemma no_replay:
  assumes "rel s 0 {}" "i < j" "j < length cs" "filter_run s cs ! i" "filter_run s cs ! j"
  shows "cs ! i \<noteq> cs ! j"
  using assms spec_run_no_replay [of i j cs 0 "{}"] filter_run_eq_spec [of s 0 "{}" cs] by simp

text \<open>A fresh counter less than a window behind everything received is accepted.\<close>

lemma fresh_accepted:
  assumes "rel s 0 {}" "c \<notin> set cs" "unat c < win_limit"
    and "\<forall>d \<in> set cs. unat d \<le> win_size + unat c"
  shows "last (filter_run s (cs @ [c]))"
proof -
  let ?st = "spec_state 0 {} cs"
  have "fst ?st \<le> Suc (win_size + unat c)"
    and "snd ?st \<subseteq> (\<lambda>c. Suc (unat c)) ` set cs"
    using spec_state_bounds [of 0 "Suc (win_size + unat c)" cs "{}"] assms(4) by auto
  moreover have "Suc (unat c) \<notin> (\<lambda>c. Suc (unat c)) ` set cs"
    using assms(2) by (auto dest: unat_inj)
  ultimately have "win_accept (fst ?st) (snd ?st) (unat c)"
    using assms(3) by (auto simp: win_accept_def win_inside_def)
  then show ?thesis
    by (simp add: filter_run_eq_spec [OF assms(1)] spec_run_snoc)
qed

end

subsection \<open>The ring of blocks implements the window\<close>

definition replay_rel :: "'a replay_scheme \<Rightarrow> nat \<Rightarrow> nat set \<Rightarrow> bool" where
  "replay_rel s hi seen \<longleftrightarrow>
     length (fReplayBitmap s) = 128 \<and> unat (fReplayCounter s) = hi \<and> seen \<subseteq> {..hi}
   \<and> (\<forall>c. hi div 64 < c div 64 + 128 \<and> c div 64 \<le> hi div 64 \<longrightarrow>
        bit (fReplayBitmap s ! (c div 64 mod 128)) (c mod 64) = (c \<in> seen))"

lemma replay_rel_reset: "replay_rel (ResetReplay s) 0 {}"
  by (auto simp: replay_rel_def ResetReplay_def)

lemma unat_and_127: "unat ((x :: u64) AND (kReplayBlocks - 1)) = unat x mod 128"
proof -
  have "x AND (kReplayBlocks - 1) = take_bit 7 x"
    by (simp add: kReplayBlocks_def take_bit_eq_mask mask_eq_exp_minus_1)
  then show ?thesis by (simp only: unat_take_bit_mod) simp
qed

lemma unat_and_63: "unat ((x :: u64) AND (kReplayBits - 1)) = unat x mod 64"
proof -
  have "x AND (kReplayBits - 1) = take_bit 6 x"
    by (simp add: kReplayBits_def take_bit_eq_mask mask_eq_exp_minus_1)
  then show ?thesis by (simp only: unat_take_bit_mod) simp
qed

lemma clear_loop_nth:
  assumes "ic + n < 2 ^ 64" "length bm = 128" "j < 128"
  shows "fold (\<lambda>i b. b[unat ((of_nat i + (of_nat ic :: u64)) AND (kReplayBlocks - 1)) := 0]) [1..<Suc n] bm ! j
         = (if \<exists>i \<in> {1..n}. (i + ic) mod 128 = j then 0 else bm ! j)"
    (is "fold ?f _ _ ! _ = _")
  using assms
proof (induction n)
  case (Suc n)
  have len: "length (fold ?f xs bm) = 128" for xs
    using Suc.prems(2) by (induction xs arbitrary: bm) auto
  have "unat (of_nat (Suc n + ic) :: u64) = Suc n + ic"
    using Suc.prems(1) by (simp only: unat_of_nat) simp
  then have "unat ((of_nat (Suc n) :: u64) + of_nat ic) = Suc n + ic"
    by (simp only: of_nat_add)
  then have "unat ((of_nat (Suc n) + (of_nat ic :: u64)) AND (kReplayBlocks - 1)) = (Suc n + ic) mod 128"
    by (simp only: unat_and_127)
  then have step: "fold ?f [1..<Suc (Suc n)] bm = (fold ?f [1..<Suc n] bm)[(Suc n + ic) mod 128 := 0]"
    by simp
  have ex: "(\<exists>i\<in>{1..Suc n}. (i + ic) mod 128 = j) \<longleftrightarrow>
      (Suc n + ic) mod 128 = j \<or> (\<exists>i\<in>{1..n}. (i + ic) mod 128 = j)"
    by (auto simp: atLeastAtMostSuc_conv)
  show ?case
    unfolding step ex using Suc len [of "[1..<Suc n]"] by (auto simp: nth_list_update)
qed simp

lemma clear_blocks_nth:
  assumes "length bm = 128" "j < 128" "unat topv \<le> 128" "unat ic < 2 ^ 58"
  shows "clear_blocks topv ic bm ! j =
           (if \<exists>i \<in> {1..unat topv}. (i + unat ic) mod 128 = j then 0 else bm ! j)"
  using clear_loop_nth [of "unat ic" "unat topv" bm j] assms
  by (simp add: clear_blocks_def)

lemma length_clear_blocks [simp]: "length (clear_blocks topv ic bm) = length bm"
proof -
  have "length (fold (\<lambda>i b. b[f i := 0]) xs bm) = length bm" for f :: "nat \<Rightarrow> nat" and xs
    by (induction xs arbitrary: bm) auto
  then show ?thesis by (simp add: clear_blocks_def)
qed

lemma kReject_unat: "(counter0 \<ge> kRejectAfterMessages) \<longleftrightarrow> \<not> unat counter0 < win_limit"
  by (simp add: kRejectAfterMessages_def win_limit_def word_le_nat_alt not_less)

text \<open>Arithmetic of the ring: two blocks of one window never share a slot.\<close>

lemma same_slot: "(a :: nat) mod 128 = b mod 128 \<Longrightarrow> a < b + 128 \<Longrightarrow> b < a + 128 \<Longrightarrow> a = b"
proof (induction a b rule: linorder_wlog)
  case (le a b)
  then have "128 dvd b - a" by (metis mod_eq_dvd_iff_nat)
  with le show ?case by (auto dest: dvd_imp_le)
next
  case (sym a b)
  then show ?case by simp
qed

lemma ring_step:
  assumes "h < (x :: nat)"
  shows "\<exists>i \<in> {1..min 128 (x - h)}. (i + h) mod 128 = x mod 128"
proof -
  define j where "j = x - h - 1"
  have x: "x = j + h + 1" using assms by (simp add: j_def)
  have "(j mod 128 + 1 + h) mod 128 = (j + h + 1) mod 128"
    by (metis add.assoc add.commute mod_add_right_eq)
  moreover have "j mod 128 \<le> j" by simp
  moreover have "j mod 128 < 128" by simp
  ultimately show ?thesis
    unfolding x by (intro bexI [of _ "j mod 128 + 1"]) auto
qed

text \<open>Advancing the high-water mark to \<open>c\<close> clears exactly the blocks that enter the window.\<close>

lemma advance_rel:
  assumes rel: "replay_rel s hi seen" and c: "hi < unat c"
  shows "replay_rel (s\<lparr> fReplayBitmap := clear_blocks
             (let t = drop_bit 6 c - drop_bit 6 (fReplayCounter s)
              in if t > kReplayBlocks then kReplayBlocks else t)
             (drop_bit 6 (fReplayCounter s)) (fReplayBitmap s),
           fReplayCounter := c \<rparr>) (unat c) seen"
proof -
  let ?ic = "drop_bit 6 (fReplayCounter s)"
  let ?t = "let t = drop_bit 6 c - ?ic in if t > kReplayBlocks then kReplayBlocks else t"
  let ?bm = "clear_blocks ?t ?ic (fReplayBitmap s)"
  have hi: "unat (fReplayCounter s) = hi" and len: "length (fReplayBitmap s) = 128"
    and sub: "seen \<subseteq> {..hi}" using rel by (auto simp: replay_rel_def)
  have ic: "unat ?ic = hi div 64" using hi by (simp add: unat_drop_bit_div del: drop_bit_eq_div)
  have cb: "unat (drop_bit 6 c) = unat c div 64" by (simp add: unat_drop_bit_div)
  have le: "hi div 64 \<le> unat c div 64" using c by (simp add: div_le_mono)
  have "unat (drop_bit 6 c - ?ic) = unat c div 64 - hi div 64"
    using le by (simp add: unat_sub_if' ic cb)
  then have t: "unat ?t = min 128 (unat c div 64 - hi div 64)"
    by (auto simp: Let_def kReplayBlocks_def word_less_nat_alt min_def)
  have small: "unat ?ic < 2 ^ 58"
    using unat_u64_less [of "fReplayCounter s"] by (simp add: ic hi)
  have bits: "bit (?bm ! (d div 64 mod 128)) (d mod 64) = (d \<in> seen)"
    if d: "unat c div 64 < d div 64 + 128" "d div 64 \<le> unat c div 64" for d
  proof (cases "d div 64 \<le> hi div 64")
    case True
    have "\<not> (\<exists>i \<in> {1..unat ?t}. (i + unat ?ic) mod 128 = d div 64 mod 128)"
    proof
      assume "\<exists>i \<in> {1..unat ?t}. (i + unat ?ic) mod 128 = d div 64 mod 128"
      then obtain i where i: "1 \<le> i" "i \<le> 128" "i \<le> unat c div 64 - hi div 64"
        "(i + hi div 64) mod 128 = d div 64 mod 128" by (auto simp: t ic)
      have "i + hi div 64 - d div 64 < 128" using i(3) d(1) True le by linarith
      moreover have "(i + hi div 64 - d div 64) mod 128 = 0"
        using i(4) True by (subst (asm) mod_eq_dvd_iff_nat) auto
      ultimately show False using i(1) True by auto
    qed
    moreover have "hi div 64 < d div 64 + 128" using d(1) le by linarith
    ultimately show ?thesis
      using clear_blocks_nth [OF len, of "d div 64 mod 128" ?t ?ic] True rel small t
      by (simp add: replay_rel_def)
  next
    case False
    let ?i = "d div 64 - hi div 64"
    have "d \<notin> seen" using False sub by (meson atMost_iff div_le_mono in_mono)
    moreover have "?bm ! (d div 64 mod 128) = 0"
    proof -
      obtain i where "i \<in> {1..min 128 ?i}" "(i + hi div 64) mod 128 = d div 64 mod 128"
        using ring_step [of "hi div 64" "d div 64"] False by auto
      moreover have "?i \<le> unat c div 64 - hi div 64" using d(2) by (rule diff_le_mono)
      ultimately have "\<exists>i \<in> {1..unat ?t}. (i + unat ?ic) mod 128 = d div 64 mod 128"
        by (intro bexI [of _ i]) (auto simp: t ic)
      then show ?thesis
        using clear_blocks_nth [OF len, of "d div 64 mod 128" ?t ?ic] small t by simp
    qed
    ultimately show ?thesis by simp
  qed
  show ?thesis using bits sub c len by (auto simp: replay_rel_def)
qed

text \<open>Testing and setting the bit of \<open>c\<close> inside the window.\<close>

lemma bit_test: "(w AND push_bit k 1 \<noteq> (0 :: u64)) \<longleftrightarrow> k < 64 \<and> bit w k"
proof -
  have "bit (w AND push_bit k 1) n \<longleftrightarrow> n = k \<and> k < 64 \<and> bit w k" for n
    by (auto simp: bit_simps dest: bit_imp_le_length)
  then show ?thesis by (metis bit_0_eq bot_apply bot_bool_def bit_eqI)
qed

lemma mark_rel:
  assumes rel: "replay_rel s hi seen" and c: "unat c \<le> hi" "hi \<le> win_size + unat c"
  defines "k \<equiv> unat (drop_bit 6 c AND (kReplayBlocks - 1))"
    and "b \<equiv> push_bit (unat (c AND (kReplayBits - 1))) 1"
  shows "(fReplayBitmap s ! k AND b \<noteq> 0) = (unat c \<in> seen)"
    and "replay_rel (s\<lparr> fReplayBitmap := (fReplayBitmap s)[k := fReplayBitmap s ! k OR b] \<rparr>)
           hi (insert (unat c) seen)"
proof -
  let ?w = "fReplayBitmap s ! k"
  have len: "length (fReplayBitmap s) = 128" using rel by (simp add: replay_rel_def)
  have k: "k = unat c div 64 mod 128"
    unfolding k_def unat_and_127 unat_drop_bit_div by simp
  have b: "b = push_bit (unat c mod 64) 1"
    unfolding b_def unat_and_63 ..
  have win: "hi div 64 < unat c div 64 + 128" "unat c div 64 \<le> hi div 64"
    using c by (auto simp: win_size_def)
  have bits: "bit (fReplayBitmap s ! (d div 64 mod 128)) (d mod 64) = (d \<in> seen)"
    if "hi div 64 < d div 64 + 128" "d div 64 \<le> hi div 64" for d
    using rel that by (simp add: replay_rel_def)
  show "(?w AND b \<noteq> 0) = (unat c \<in> seen)"
    unfolding b bit_test using bits [OF win] k by simp
  have "bit ((fReplayBitmap s)[k := ?w OR b] ! (d div 64 mod 128)) (d mod 64) = (d = unat c \<or> d \<in> seen)"
    if d: "hi div 64 < d div 64 + 128" "d div 64 \<le> hi div 64" for d
  proof (cases "d div 64 = unat c div 64")
    case True
    then have "d = unat c \<longleftrightarrow> d mod 64 = unat c mod 64" by (metis div_mult_mod_eq)
    then show ?thesis
      using True bits [OF d] len k by (auto simp: b bit_simps)
  next
    case False
    then have "d div 64 mod 128 \<noteq> k"
      using same_slot [of "d div 64" "unat c div 64"] d win k by auto
    then show ?thesis using bits [OF d] False by auto
  qed
  then show "replay_rel (s\<lparr> fReplayBitmap := (fReplayBitmap s)[k := ?w OR b] \<rparr>) hi (insert (unat c) seen)"
    using rel c len by (auto simp: replay_rel_def)
qed

lemma ReplayValidate_sim:
  assumes rel: "replay_rel s hi seen"
  shows "snd (ReplayValidate s c0) = win_accept hi seen (unat c0)
       \<and> replay_rel (fst (ReplayValidate s c0)) (win_hi hi (unat c0)) (win_seen hi seen (unat c0))"
proof (cases "unat c0 < win_limit")
  case False
  then show ?thesis using rel
    by (simp add: ReplayValidate_def kReject_unat win_accept_def win_inside_def win_hi_def win_seen_def)
next
  case lim: True
  let ?c = "c0 + 1"
  have c: "unat ?c = Suc (unat c0)"
    using lim by (simp add: unat_word_ariths win_limit_def)
  have "unat (kReplayWindow + ?c) = win_size + Suc (unat c0)"
    using lim by (simp add: unat_word_ariths kReplayWindow_def kReplayBits_def
        kReplayBlocks_def win_size_def win_limit_def)
  moreover have hi: "unat (fReplayCounter s) = hi" using rel by (simp add: replay_rel_def)
  ultimately have low: "kReplayWindow + ?c < fReplayCounter s \<longleftrightarrow> \<not> hi \<le> win_size + Suc (unat c0)"
    by (simp add: word_less_nat_alt not_le)
  show ?thesis
  proof (cases "hi \<le> win_size + Suc (unat c0)")
    case False
    then show ?thesis using rel lim low
      by (simp add: ReplayValidate_def kReject_unat win_accept_def win_inside_def win_hi_def win_seen_def Let_def)
  next
    case win: True
    define s1 where "s1 = (if ?c > fReplayCounter s
        then s\<lparr> fReplayBitmap := clear_blocks
                 (let t = drop_bit 6 ?c - drop_bit 6 (fReplayCounter s)
                  in if t > kReplayBlocks then kReplayBlocks else t)
                 (drop_bit 6 (fReplayCounter s)) (fReplayBitmap s),
               fReplayCounter := ?c \<rparr> else s)"
    have rel1: "replay_rel s1 (max hi (unat ?c)) seen"
      using advance_rel [OF rel, of ?c] rel by (auto simp: s1_def word_less_nat_alt hi max_def)
    let ?k = "unat (drop_bit 6 ?c AND (kReplayBlocks - 1))"
    let ?b = "push_bit (unat (?c AND (kReplayBits - 1))) 1 :: u64"
    have eq: "ReplayValidate s c0 = (if fReplayBitmap s1 ! ?k AND ?b \<noteq> 0 then (s1, False)
        else (s1\<lparr> fReplayBitmap := (fReplayBitmap s1)[?k := fReplayBitmap s1 ! ?k OR ?b] \<rparr>, True))"
      using lim low win unfolding ReplayValidate_def s1_def Let_def kReject_unat by simp
    have "max hi (unat ?c) \<le> win_size + unat ?c" using win c by simp
    note mark = mark_rel [OF rel1 max.cobounded2 this]
    show ?thesis
      unfolding eq using mark lim win rel1 c
      by (auto simp: win_accept_def win_inside_def win_hi_def win_seen_def)
  qed
qed

interpretation wg: replay_filter ReplayValidate replay_rel
  by unfold_locales (simp_all add: ReplayValidate_sim)

text \<open>The verdicts of the filter on a sequence of received counters.\<close>

fun validate_all :: "'a replay_scheme \<Rightarrow> u64 list \<Rightarrow> bool list" where
  "validate_all s [] = []"
| "validate_all s (c # cs) = snd (ReplayValidate s c) # validate_all (fst (ReplayValidate s c)) cs"

lemma validate_all_run: "validate_all s cs = wg.filter_run s cs"
  by (induction cs arbitrary: s) auto

text \<open>
  C25. Anti-replay safety: on any sequence of counters presented to a freshly reset window,
  the same counter is never accepted twice.
\<close>

theorem replay_never_accepted_twice:
  assumes "i < j" "j < length cs"
    and "validate_all (ResetReplay s) cs ! i" "validate_all (ResetReplay s) cs ! j"
  shows "cs ! i \<noteq> cs ! j"
  using wg.no_replay [OF replay_rel_reset assms(1,2)] assms(3,4) by (simp add: validate_all_run)

theorem replay_never_accepted_twice_witness:
  "validate_all (ResetReplay \<lparr> fReplayCounter = 9, fReplayBitmap = [] \<rparr>) [5, 5, 3] = [True, False, True]
   \<and> [5, 5, 3] ! 0 \<noteq> ([5, 5, 3] :: u64 list) ! 2"
proof -
  have v: "validate_all (ResetReplay \<lparr> fReplayCounter = 9, fReplayBitmap = [] \<rparr>) [5, 5, 3] = [True, False, True]"
    by code_simp
  show ?thesis
    using v replay_never_accepted_twice [of 0 2 "[5, 5, 3]" "\<lparr> fReplayCounter = 9, fReplayBitmap = [] \<rparr>"]
    by simp
qed

text \<open>
  Anti-replay completeness: after any received sequence, a counter that was not
  received before, is below \<open>REJECT_AFTER_MESSAGES\<close> and is at most 8128 behind every
  received counter is accepted; in particular packets that arrive in order or are
  reordered within the window are never lost.
\<close>

theorem replay_fresh_accepted:
  assumes "c \<notin> set cs" "c < kRejectAfterMessages"
    and "\<forall>d \<in> set cs. unat d \<le> 8128 + unat c"
  shows "last (validate_all (ResetReplay s) (cs @ [c]))"
proof -
  have "unat c < win_limit" using assms(2) kReject_unat [of c] by (simp add: not_le [symmetric])
  then show ?thesis
    using wg.fresh_accepted [OF replay_rel_reset assms(1)] assms(3)
    by (simp add: validate_all_run win_size_def)
qed

theorem replay_fresh_accepted_witness:
  "last (validate_all (ResetReplay \<lparr> fReplayCounter = 0, fReplayBitmap = [] \<rparr>) ([9000, 2] @ [1000]))"
  by (rule replay_fresh_accepted) (simp_all add: kRejectAfterMessages_def)

text \<open>
  C26. Window refinement: each call of \<open>_ReplayValidate\<close> on the ring of 128 blocks decides and
  updates exactly as the mathematical window of 8128 counters below the highest one does.
\<close>

theorem replay_refines_window:
  assumes "replay_rel s hi seen"
  shows "snd (ReplayValidate s c) = win_accept hi seen (unat c)
       \<and> replay_rel (fst (ReplayValidate s c)) (win_hi hi (unat c)) (win_seen hi seen (unat c))"
  using ReplayValidate_sim [OF assms] .

theorem replay_refines_window_witness:
  "snd (ReplayValidate (ResetReplay \<lparr> fReplayCounter = 0, fReplayBitmap = [] \<rparr>) 7) = win_accept 0 {} 7"
  using replay_refines_window [OF replay_rel_reset [of "\<lparr> fReplayCounter = 0, fReplayBitmap = [] \<rparr>"], of 7] by simp

end
