(* ===== verification/WGCrypto.thy ===== *)
theory WGCrypto
  imports Soto_Prelude
begin

text \<open>
  \<open>src/src/backend/WireGuardCrypto.cpp\<close>: the repository's own BLAKE2s (compression,
  incremental update and finalisation), the keyed MAC, HMAC and the HKDF chains of the
  Noise handshakes, and the wrappers around OpenSSL.  OpenSSL itself (X25519 and
  ChaCha20-Poly1305) is the parameter record \<open>openssl\<close>; \<open>aead_laws\<close> and \<open>dh_laws\<close>
  state the documented behaviour of RFC 8439 and RFC 7748 that the protocols rely on.
  The central result is that incremental hashing does not depend on how the input is cut
  into pieces, so that the streamed transcript hashes of both handshake sides agree.
\<close>

subsection \<open>Byte order\<close>

definition load32_le :: "bytes \<Rightarrow> u32" where
  "load32_le p = ((ucast (p ! 0) OR push_bit 8 (ucast (p ! 1))) OR push_bit 16 (ucast (p ! 2)))
     OR push_bit 24 (ucast (p ! 3))"

definition store32_le :: "u32 \<Rightarrow> bytes" where
  "store32_le v = [ucast v, ucast (drop_bit 8 v), ucast (drop_bit 16 v), ucast (drop_bit 24 v)]"

definition store64_le :: "u64 \<Rightarrow> bytes" where
  "store64_le v = map (\<lambda>i. ucast (drop_bit (8 * i) v)) [0..<8]"

definition rotr32 :: "u32 \<Rightarrow> nat \<Rightarrow> u32" where
  "rotr32 x c = drop_bit c x OR push_bit (32 - c) x"

subsection \<open>BLAKE2s\<close>

definition kIV :: "u32 list" where
  "kIV = [0x6A09E667, 0xBB67AE85, 0x3C6EF372, 0xA54FF53A,
          0x510E527F, 0x9B05688C, 0x1F83D9AB, 0x5BE0CD19]"

definition kSigma :: "nat list list" where
  "kSigma =
   [[0, 1, 2, 3, 4, 5, 6, 7, 8, 9, 10, 11, 12, 13, 14, 15],
    [14, 10, 4, 8, 9, 15, 13, 6, 1, 12, 0, 2, 11, 7, 5, 3],
    [11, 8, 12, 0, 5, 2, 15, 13, 10, 14, 3, 6, 7, 1, 9, 4],
    [7, 9, 3, 1, 13, 12, 11, 14, 2, 6, 5, 10, 4, 0, 15, 8],
    [9, 0, 5, 7, 2, 4, 10, 15, 14, 1, 11, 12, 6, 8, 3, 13],
    [2, 12, 6, 10, 0, 11, 8, 3, 4, 13, 7, 5, 15, 14, 1, 9],
    [12, 5, 1, 15, 14, 13, 4, 10, 0, 7, 6, 3, 9, 2, 8, 11],
    [13, 11, 7, 14, 12, 1, 3, 9, 5, 0, 15, 4, 8, 6, 2, 10],
    [6, 15, 14, 9, 11, 3, 0, 8, 12, 2, 13, 7, 1, 4, 10, 5],
    [10, 2, 8, 4, 7, 6, 1, 5, 15, 11, 9, 14, 3, 12, 13, 0]]"

record blake2s =
  b_h :: "u32 list"
  b_t0 :: u32
  b_t1 :: u32
  b_f0 :: u32
  b_f1 :: u32
  b_buf :: bytes
  b_buflen :: nat
  b_outlen :: nat

definition blake2s_increment :: "blake2s \<Rightarrow> u32 \<Rightarrow> blake2s" where
  "blake2s_increment s inc =
     (let t0 = b_t0 s + inc
      in s\<lparr> b_t0 := t0, b_t1 := b_t1 s + (if t0 < inc then 1 else 0) \<rparr>)"

text \<open>The macro \<open>G(r, i, v[ia], v[ib], v[ic], v[ie])\<close>.\<close>

definition G_mix :: "u32 list \<Rightarrow> nat \<Rightarrow> nat \<Rightarrow> nat \<Rightarrow> nat \<Rightarrow> nat \<Rightarrow> nat \<Rightarrow> u32 list \<Rightarrow> u32 list" where
  "G_mix m r i ia ib ic ie v =
     (let a = v ! ia + v ! ib + m ! (kSigma ! r ! (2 * i + 0));
          d = rotr32 (v ! ie XOR a) 16;
          c = v ! ic + d;
          b = rotr32 (v ! ib XOR c) 12;
          a = a + b + m ! (kSigma ! r ! (2 * i + 1));
          d = rotr32 (d XOR a) 8;
          c = c + d;
          b = rotr32 (b XOR c) 7
      in v[ia := a, ib := b, ic := c, ie := d])"

definition blake2s_round :: "u32 list \<Rightarrow> nat \<Rightarrow> u32 list \<Rightarrow> u32 list" where
  "blake2s_round m r v =
     (let v = G_mix m r 0 0 4 8 12 v;
          v = G_mix m r 1 1 5 9 13 v;
          v = G_mix m r 2 2 6 10 14 v;
          v = G_mix m r 3 3 7 11 15 v;
          v = G_mix m r 4 0 5 10 15 v;
          v = G_mix m r 5 1 6 11 12 v;
          v = G_mix m r 6 2 7 8 13 v
      in G_mix m r 7 3 4 9 14 v)"

definition blake2s_compress :: "blake2s \<Rightarrow> bytes \<Rightarrow> blake2s" where
  "blake2s_compress s block =
     (let m = map (\<lambda>i. load32_le (drop (4 * i) block)) [0..<16];
          v = map (\<lambda>i. b_h s ! i) [0..<8] @ map (\<lambda>i. kIV ! i) [0..<8];
          v = v[12 := v ! 12 XOR b_t0 s];
          v = v[13 := v ! 13 XOR b_t1 s];
          v = v[14 := v ! 14 XOR b_f0 s];
          v = v[15 := v ! 15 XOR b_f1 s];
          v = fold (blake2s_round m) [0..<10] v
      in s\<lparr> b_h := map (\<lambda>i. b_h s ! i XOR v ! i XOR v ! (8 + i)) [0..<8] \<rparr>)"

text \<open>The inner loop \<open>while (inLen > 64)\<close> of \<open>HashUpdate\<close>, and the rest it leaves.\<close>

function update_blocks :: "blake2s \<Rightarrow> bytes \<Rightarrow> blake2s \<times> bytes" where
  "update_blocks s p =
     (if length p > 64
      then update_blocks (blake2s_compress (blake2s_increment s 64) (take 64 p)) (drop 64 p)
      else (s, p))"
  by pat_completeness auto
termination
  by (relation "measure (\<lambda>(s, p). length p)") auto

declare update_blocks.simps [simp del]

definition HashUpdate :: "blake2s \<Rightarrow> bytes \<Rightarrow> blake2s" where
  "HashUpdate s p =
     (if length p = 0 then s
      else let left = b_buflen s; fill = 64 - left;
        (s, p) = (if length p > fill
          then let s = s\<lparr> b_buflen := 0, b_buf := take left (b_buf s) @ take fill p \<rparr>;
                   s = blake2s_compress (blake2s_increment s 64) (b_buf s)
               in update_blocks s (drop fill p)
          else (s, p))
        in s\<lparr> b_buf := take (b_buflen s) (b_buf s) @ p @ drop (b_buflen s + length p) (b_buf s),
              b_buflen := b_buflen s + length p \<rparr>)"

definition blake2s_init_key :: "nat \<Rightarrow> bytes \<Rightarrow> blake2s" where
  "blake2s_init_key outLen key =
     (let h = kIV[0 := kIV ! 0 XOR (0x01010000 XOR push_bit 8 (of_nat (length key)) XOR of_nat outLen)];
          s = \<lparr> b_h = h, b_t0 = 0, b_t1 = 0, b_f0 = 0, b_f1 = 0,
                b_buf = replicate 64 0, b_buflen = 0, b_outlen = outLen \<rparr>
      in if length key > 0 then HashUpdate s (key @ replicate (64 - length key) 0) else s)"

definition HashInit :: blake2s where
  "HashInit = blake2s_init_key 32 []"

definition HashFinal :: "blake2s \<Rightarrow> bytes" where
  "HashFinal s =
     (let s = blake2s_increment s (of_nat (b_buflen s));
          s = s\<lparr> b_f0 := 0xFFFFFFFF,
                 b_buf := take (b_buflen s) (b_buf s) @ replicate (64 - b_buflen s) 0 \<rparr>;
          s = blake2s_compress s (b_buf s)
      in take (b_outlen s) (concat (map (\<lambda>i. store32_le (b_h s ! i)) [0..<8])))"

definition Hash :: "bytes \<Rightarrow> bytes" where
  "Hash input = HashFinal (HashUpdate HashInit input)"

definition Mac16 :: "bytes \<Rightarrow> bytes \<Rightarrow> bytes" where
  "Mac16 key input = HashFinal (HashUpdate (blake2s_init_key 16 key) input)"

definition Hmac :: "bytes \<Rightarrow> bytes \<Rightarrow> bytes" where
  "Hmac key input =
     (let block = (if length key > 64 then Hash key @ replicate 32 0
                   else key @ replicate (64 - length key) 0);
          ipad = map (\<lambda>b. b XOR 0x36) block;
          opad = map (\<lambda>b. b XOR 0x5C) block;
          inner = HashFinal (HashUpdate (HashUpdate HashInit ipad) input)
      in HashFinal (HashUpdate (HashUpdate HashInit opad) inner))"

subsection \<open>HKDF\<close>

definition Kdf1 :: "bytes \<Rightarrow> bytes \<Rightarrow> bytes" where
  "Kdf1 ck input = (let tau0 = Hmac ck input in Hmac tau0 [1])"

definition Kdf2 :: "bytes \<Rightarrow> bytes \<Rightarrow> bytes \<times> bytes" where
  "Kdf2 ck input =
     (let tau0 = Hmac ck input; out1 = Hmac tau0 [1]; out2 = Hmac tau0 (out1 @ [2])
      in (out1, out2))"

definition Kdf3 :: "bytes \<Rightarrow> bytes \<Rightarrow> bytes \<times> bytes \<times> bytes" where
  "Kdf3 ck input =
     (let tau0 = Hmac ck input; out1 = Hmac tau0 [1]; out2 = Hmac tau0 (out1 @ [2]);
          out3 = Hmac tau0 (out2 @ [3])
      in (out1, out2, out3))"

subsection \<open>OpenSSL\<close>

text \<open>
  The OpenSSL calls: sealing and opening with key, 12-byte nonce, associated data (the
  tag is separate), the public key of a raw X25519 private key, and the shared secret.
  \<open>None\<close> stands for any failure result of the EVP call sequence.
\<close>

record openssl =
  evp_seal :: "bytes \<Rightarrow> bytes \<Rightarrow> bytes \<Rightarrow> bytes \<Rightarrow> (bytes \<times> bytes) option"
  evp_open :: "bytes \<Rightarrow> bytes \<Rightarrow> bytes \<Rightarrow> bytes \<Rightarrow> bytes \<Rightarrow> bytes option"
  x25519_public :: "bytes \<Rightarrow> bytes option"
  x25519_derive :: "bytes \<Rightarrow> bytes \<Rightarrow> bytes option"

definition DhPublic :: "openssl \<Rightarrow> bytes \<Rightarrow> bytes option" where
  "DhPublic os priv =
     (case x25519_public os priv of None \<Rightarrow> None
      | Some pub \<Rightarrow> if length pub = 32 then Some pub else None)"

definition Dh :: "openssl \<Rightarrow> bytes \<Rightarrow> bytes \<Rightarrow> bytes option" where
  "Dh os priv peerPub =
     (case x25519_derive os priv peerPub of None \<Rightarrow> None
      | Some shared \<Rightarrow> if length shared = 32 then Some shared else None)"

text \<open>The key generated by \<open>EVP_PKEY_keygen\<close> (as raw private and public bytes) is an input.\<close>

definition DhGenerate :: "(bytes \<times> bytes) option \<Rightarrow> (bytes \<times> bytes) option" where
  "DhGenerate keygen =
     (case keygen of None \<Rightarrow> None
      | Some (priv, pub) \<Rightarrow> if length priv = 32 \<and> length pub = 32 then Some (priv, pub) else None)"

definition aead_nonce :: "u64 \<Rightarrow> bytes" where
  "aead_nonce counter = replicate 4 0 @ store64_le counter"

definition AeadEncrypt :: "openssl \<Rightarrow> bytes \<Rightarrow> u64 \<Rightarrow> bytes \<Rightarrow> bytes \<Rightarrow> bytes option" where
  "AeadEncrypt os key counter plain aad =
     (case evp_seal os key (aead_nonce counter) aad plain of None \<Rightarrow> None
      | Some (ct, tag) \<Rightarrow> Some (ct @ tag))"

definition AeadDecrypt :: "openssl \<Rightarrow> bytes \<Rightarrow> u64 \<Rightarrow> bytes \<Rightarrow> bytes \<Rightarrow> bytes option" where
  "AeadDecrypt os key counter cipher aad =
     (if length cipher < 16 then None
      else let ctLen = length cipher - 16
           in evp_open os key (aead_nonce counter) aad (take ctLen cipher) (drop ctLen cipher))"

text \<open>\<open>Tai64n\<close> for the UNIX time \<open>now\<close>.\<close>

definition Tai64n :: "u64 \<Rightarrow> bytes" where
  "Tai64n now =
     (let seconds = 0x400000000000000A + now
      in map (\<lambda>i. ucast (drop_bit (8 * (7 - i)) seconds)) [0..<8] @ [0, 0, 0, 0])"

definition aead_laws :: "openssl \<Rightarrow> bool" where
  "aead_laws os \<longleftrightarrow> (\<forall>k n a p. length k = 32 \<longrightarrow> length n = 12 \<longrightarrow>
     (\<exists>ct tag. evp_seal os k n a p = Some (ct, tag) \<and> length ct = length p \<and> length tag = 16
             \<and> evp_open os k n a ct tag = Some p))"

definition dh_laws :: "openssl \<Rightarrow> bool" where
  "dh_laws os \<longleftrightarrow>
     (\<forall>a. length a = 32 \<longrightarrow> (\<exists>A. x25519_public os a = Some A \<and> length A = 32))
   \<and> (\<forall>a b A B. length a = 32 \<longrightarrow> length b = 32 \<longrightarrow>
        x25519_public os a = Some A \<longrightarrow> x25519_public os b = Some B \<longrightarrow>
        (\<exists>s. x25519_derive os a B = Some s \<and> x25519_derive os b A = Some s \<and> length s = 32))"

subsection \<open>Incremental hashing is independent of the cutting\<close>

text \<open>
  Two hash states are equivalent when they agree on everything but the stale bytes of the
  buffer behind \<open>buflen\<close>.  \<open>absorb\<close> is the reference: it holds the pending bytes and the
  new ones in one list and compresses while more than a block is left.
\<close>

definition live :: "blake2s \<Rightarrow> bytes" where
  "live s = take (b_buflen s) (b_buf s)"

definition core :: "blake2s \<Rightarrow> blake2s" where
  "core s = s\<lparr> b_buf := [], b_buflen := 0 \<rparr>"

definition hash_ok :: "blake2s \<Rightarrow> bool" where
  "hash_ok s \<longleftrightarrow> length (b_buf s) = 64 \<and> b_buflen s \<le> 64 \<and> length (b_h s) = 8"

function absorb :: "blake2s \<Rightarrow> bytes \<Rightarrow> blake2s \<times> bytes" where
  "absorb s p =
     (if length p > 64
      then absorb (blake2s_compress (blake2s_increment s 64) (take 64 p)) (drop 64 p)
      else (s, p))"
  by pat_completeness auto
termination
  by (relation "measure (\<lambda>(s, p). length p)") auto

declare absorb.simps [simp del]

lemma absorb_small: "length p \<le> 64 \<Longrightarrow> absorb s p = (s, p)"
  by (simp add: absorb.simps)

lemma absorb_append: "absorb s (xs @ ys) = (let (s', r) = absorb s xs in absorb s' (r @ ys))"
proof (induction s xs rule: absorb.induct)
  case (1 s p)
  show ?case
  proof (cases "length p > 64")
    case True
    then show ?thesis using 1
      by (simp add: absorb.simps [of s "p @ ys"] absorb.simps [of s p])
  next
    case False
    then show ?thesis by (simp add: absorb_small)
  qed
qed

lemma update_blocks_absorb: "update_blocks s p = absorb s p"
  by (induction s p rule: update_blocks.induct) (simp add: update_blocks.simps absorb.simps)

lemma core_compress: "core (blake2s_compress s blk) = blake2s_compress (core s) blk"
  by (simp add: core_def blake2s_compress_def Let_def)

lemma core_increment: "core (blake2s_increment s n) = blake2s_increment (core s) n"
  by (simp add: core_def blake2s_increment_def Let_def)

lemma core_buf [simp]: "core (s\<lparr> b_buf := x, b_buflen := n \<rparr>) = core s" "core (s\<lparr> b_buflen := n, b_buf := x \<rparr>) = core s"
  by (simp_all add: core_def)

lemma absorb_core: "absorb (core s) p = (core (fst (absorb s p)), snd (absorb s p))"
  by (induction s p rule: absorb.induct)
    (simp add: absorb.simps [of "core _"] absorb.simps core_compress [symmetric] core_increment [symmetric])

lemma compress_frame [simp]:
  "b_buf (blake2s_compress s blk) = b_buf s" "b_buflen (blake2s_compress s blk) = b_buflen s"
  "b_outlen (blake2s_compress s blk) = b_outlen s" "length (b_h (blake2s_compress s blk)) = 8"
  by (simp_all add: blake2s_compress_def Let_def)

lemma increment_frame [simp]:
  "b_buf (blake2s_increment s n) = b_buf s" "b_buflen (blake2s_increment s n) = b_buflen s"
  "b_outlen (blake2s_increment s n) = b_outlen s" "b_h (blake2s_increment s n) = b_h s"
  by (simp_all add: blake2s_increment_def Let_def)

lemma absorb_frame [simp]:
  "b_buf (fst (absorb s p)) = b_buf s" "b_buflen (fst (absorb s p)) = b_buflen s"
  "b_outlen (fst (absorb s p)) = b_outlen s"
  by (induction s p rule: absorb.induct; subst absorb.simps; simp)+

lemma absorb_h: "length (b_h s) = 8 \<Longrightarrow> length (b_h (fst (absorb s p))) = 8"
  by (induction s p rule: absorb.induct) (subst absorb.simps, simp)

lemma absorb_rest: "length (snd (absorb s p)) \<le> 64"
  by (induction s p rule: absorb.induct) (subst absorb.simps, simp)

lemma HashUpdate_absorb:
  assumes ok: "hash_ok s"
  shows "core (HashUpdate s p) = core (fst (absorb s (live s @ p)))
       \<and> live (HashUpdate s p) = snd (absorb s (live s @ p)) \<and> hash_ok (HashUpdate s p)"
proof (cases "p = []")
  case True
  with ok show ?thesis by (simp add: HashUpdate_def absorb_small live_def hash_ok_def)
next
  case ne: False
  have len: "length (live s) = b_buflen s" using ok by (simp add: live_def hash_ok_def)
  show ?thesis
  proof (cases "length p > 64 - b_buflen s")
    case False
    then have "absorb s (live s @ p) = (s, live s @ p)" using ok len
      by (intro absorb_small) (auto simp: hash_ok_def)
    with ne False ok show ?thesis
      by (auto simp: HashUpdate_def Let_def live_def hash_ok_def)
  next
    case True
    let ?fill = "64 - b_buflen s"
    let ?blk = "live s @ take ?fill p"
    let ?s1 = "s\<lparr> b_buflen := 0, b_buf := ?blk \<rparr>"
    let ?s2 = "blake2s_compress (blake2s_increment ?s1 64) ?blk"
    let ?s3 = "fst (absorb ?s2 (drop ?fill p))" and ?r = "snd (absorb ?s2 (drop ?fill p))"
    have upd: "HashUpdate s p = ?s3\<lparr> b_buf := ?r @ drop (length ?r) ?blk, b_buflen := length ?r \<rparr>"
      using ne True by (simp add: HashUpdate_def Let_def live_def update_blocks_absorb split_beta)
    have r: "length ?r \<le> 64" by (rule absorb_rest)
    have blk: "length ?blk = 64" using True ok len by (simp add: hash_ok_def)
    have step: "absorb s (live s @ p) = absorb (blake2s_compress (blake2s_increment s 64) ?blk) (drop ?fill p)"
    proof -
      have "64 < b_buflen s + length p" using True ok by (auto simp: hash_ok_def)
      moreover have "b_buflen s \<le> 64" using ok by (simp add: hash_ok_def)
      ultimately show ?thesis using len by (subst absorb.simps) simp
    qed
    have "core ?s2 = core (blake2s_compress (blake2s_increment s 64) ?blk)"
      by (simp add: core_compress core_increment)
    then have "absorb (core ?s2) (drop ?fill p) = absorb (core (blake2s_compress (blake2s_increment s 64) ?blk)) (drop ?fill p)"
      by simp
    then have "core ?s3 = core (fst (absorb s (live s @ p)))" "?r = snd (absorb s (live s @ p))"
      by (simp_all add: absorb_core step)
    moreover have "length (?r @ drop (length ?r) ?blk) = 64"
      using r unfolding length_append [of ?r] length_drop blk by simp
    then have "hash_ok (HashUpdate s p)"
      using r absorb_h [of ?s2 "drop ?fill p"] by (simp add: upd hash_ok_def del: length_append length_drop)
    ultimately show ?thesis by (simp add: upd live_def)
  qed
qed

lemma core_eq_absorb:
  assumes "core s = core s'"
  shows "core (fst (absorb s p)) = core (fst (absorb s' p)) \<and> snd (absorb s p) = snd (absorb s' p)"
  using absorb_core [of s p] absorb_core [of s' p] assms by simp

lemma core_fields [simp]: "b_h (core s) = b_h s" "b_outlen (core s) = b_outlen s"
  by (simp_all add: core_def)

lemma core_flag: "core (s\<lparr> b_f0 := f, b_buf := x \<rparr>) = (core s)\<lparr> b_f0 := f \<rparr>"
  by (simp add: core_def)

lemma HashFinal_cong:
  assumes "core s = core s'" "live s = live s'" "hash_ok s" "hash_ok s'"
  shows "HashFinal s = HashFinal s'"
proof -
  have bl: "b_buflen s = b_buflen s'"
    using assms(2-4) by (metis hash_ok_def length_take live_def min.absorb2)
  define fin where "fin t = blake2s_compress
      ((blake2s_increment t (of_nat (b_buflen t)))\<lparr> b_f0 := 0xFFFFFFFF,
         b_buf := take (b_buflen t) (b_buf t) @ replicate (64 - b_buflen t) 0 \<rparr>)
      (live t @ replicate (64 - b_buflen t) 0)" for t
  have "core (fin s) = core (fin s')"
    by (simp add: fin_def core_compress core_flag core_increment assms(1,2) bl)
  then have "b_h (fin s) = b_h (fin s')" "b_outlen (fin s) = b_outlen (fin s')"
    by (metis core_fields)+
  moreover have "HashFinal t = take (b_outlen (fin t)) (concat (map (\<lambda>i. store32_le (b_h (fin t) ! i)) [0..<8]))" for t
    by (simp add: HashFinal_def fin_def live_def Let_def)
  ultimately show ?thesis by simp
qed

lemma HashUpdate_append:
  assumes "hash_ok s"
  shows "HashFinal (HashUpdate (HashUpdate s xs) ys) = HashFinal (HashUpdate s (xs @ ys))"
proof (rule HashFinal_cong)
  let ?s1 = "HashUpdate s xs"
  note one = HashUpdate_absorb [OF assms, of xs]
  note two = HashUpdate_absorb [of ?s1 ys]
  note both = HashUpdate_absorb [OF assms, of "xs @ ys"]
  have app: "absorb s (live s @ xs @ ys) =
      absorb (fst (absorb s (live s @ xs))) (snd (absorb s (live s @ xs)) @ ys)"
    using absorb_append [of s "live s @ xs" ys] by (simp add: split_beta)
  have cc: "core ?s1 = core (fst (absorb s (live s @ xs)))" using one by blast
  have lv: "live ?s1 = snd (absorb s (live s @ xs))" using one by blast
  show "core (HashUpdate ?s1 ys) = core (HashUpdate s (xs @ ys))"
    using two one both core_eq_absorb [OF cc, of "live ?s1 @ ys"] by (simp add: app lv)
  show "live (HashUpdate ?s1 ys) = live (HashUpdate s (xs @ ys))"
    using two one both core_eq_absorb [OF cc, of "live ?s1 @ ys"] by (simp add: app lv)
  show "hash_ok (HashUpdate ?s1 ys)" using one two by blast
  show "hash_ok (HashUpdate s (xs @ ys))" using both by blast
qed

lemma hash_ok_HashInit [simp]: "hash_ok HashInit"
  by (simp add: HashInit_def blake2s_init_key_def hash_ok_def kIV_def Let_def)

text \<open>
  C34. Incremental BLAKE2s: feeding a message in any list of pieces gives the digest of the
  concatenation; the deferred last block and the block boundaries never show.
\<close>

theorem hash_incremental: "HashFinal (fold (\<lambda>p s. HashUpdate s p) ps HashInit) = Hash (concat ps)"
proof -
  have "hash_ok s \<Longrightarrow> HashFinal (fold (\<lambda>p s. HashUpdate s p) ps s) = HashFinal (HashUpdate s (concat ps))" for s
  proof (induction ps arbitrary: s)
    case (Cons p ps)
    then have "hash_ok (HashUpdate s p)" by (simp add: HashUpdate_absorb)
    with Cons show ?case by (simp add: HashUpdate_append)
  qed (simp add: HashUpdate_def)
  then show ?thesis by (simp add: Hash_def)
qed

lemma Hash_two: "HashFinal (HashUpdate (HashUpdate HashInit xs) ys) = Hash (xs @ ys)"
  by (simp add: Hash_def HashUpdate_append)

lemma length_store32_le [simp]: "length (store32_le v) = 4"
  by (simp add: store32_le_def)

lemma length_store64_le [simp]: "length (store64_le v) = 8"
  by (simp add: store64_le_def)

lemma length_HashFinal: "b_outlen s \<le> 32 \<Longrightarrow> length (HashFinal s) = b_outlen s"
proof -
  have "length (concat (map (\<lambda>i. store32_le (h ! i)) [0..<8])) = 32" for h
    by (simp add: upt_8)
  then show "b_outlen s \<le> 32 \<Longrightarrow> length (HashFinal s) = b_outlen s"
    by (simp add: HashFinal_def Let_def)
qed

lemma HashUpdate_outlen [simp]: "b_outlen (HashUpdate s p) = b_outlen s"
  by (simp add: HashUpdate_def Let_def update_blocks_absorb split_beta)

lemma length_Hash [simp]: "length (Hash x) = 32"
  by (simp add: Hash_def length_HashFinal HashInit_def blake2s_init_key_def Let_def)

lemma length_Mac16 [simp]: "length (Mac16 k x) = 16"
  by (simp add: Mac16_def length_HashFinal blake2s_init_key_def Let_def)

text \<open>
  HMAC: the streamed computation is RFC 2104's \<open>H((K xor opad) || H((K xor ipad) || m))\<close>
  over the one-shot hash, with long keys hashed first.
\<close>

theorem hmac_rfc2104:
  "Hmac key m =
     (let k = (if length key > 64 then Hash key else key);
          k0 = k @ replicate (64 - length k) 0
      in Hash (map (\<lambda>b. b XOR 0x5C) k0 @ Hash (map (\<lambda>b. b XOR 0x36) k0 @ m)))"
  by (simp add: Hmac_def Let_def Hash_two)

lemma length_Hmac [simp]: "length (Hmac k m) = 32"
  by (simp add: Hmac_def Let_def Hash_two)

lemma length_Kdf1 [simp]: "length (Kdf1 ck x) = 32"
  by (simp add: Kdf1_def Let_def)

lemma length_Kdf2 [simp]: "length (fst (Kdf2 ck x)) = 32" "length (snd (Kdf2 ck x)) = 32"
  by (simp_all add: Kdf2_def Let_def)

lemma length_Kdf3 [simp]:
  "length (fst (Kdf3 ck x)) = 32" "length (fst (snd (Kdf3 ck x))) = 32" "length (snd (snd (Kdf3 ck x))) = 32"
  by (simp_all add: Kdf3_def Let_def)

subsection \<open>The wrappers\<close>

lemma load32_store32 [simp]: "load32_le (store32_le v @ xs) = v"
  by (simp add: load32_le_def store32_le_def byte_simps)

lemma length_Tai64n [simp]: "length (Tai64n now) = 12"
  by (simp add: Tai64n_def Let_def)

lemma length_aead_nonce [simp]: "length (aead_nonce c) = 12"
  by (simp add: aead_nonce_def)

lemma AeadEncrypt_ok:
  assumes "aead_laws os" "length k = 32"
  shows "\<exists>c. AeadEncrypt os k n p a = Some c \<and> length c = length p + 16 \<and> AeadDecrypt os k n c a = Some p"
proof -
  obtain ct tag where "evp_seal os k (aead_nonce n) a p = Some (ct, tag)" "length ct = length p"
    "length tag = 16" "evp_open os k (aead_nonce n) a ct tag = Some p"
    using assms by (auto simp: aead_laws_def) (metis length_aead_nonce)
  then show ?thesis by (auto simp: AeadEncrypt_def AeadDecrypt_def)
qed

lemma Dh_ok:
  assumes "dh_laws os" "length a = 32" "length b = 32" "DhPublic os a = Some A" "DhPublic os b = Some B"
  shows "\<exists>s. Dh os a B = Some s \<and> Dh os b A = Some s \<and> length s = 32"
  using assms unfolding dh_laws_def DhPublic_def Dh_def by (force split: option.splits if_splits)

lemma DhPublic_ok: "dh_laws os \<Longrightarrow> length a = 32 \<Longrightarrow> \<exists>A. DhPublic os a = Some A \<and> length A = 32"
  unfolding dh_laws_def DhPublic_def by force

text \<open>A concrete instance of the parameter, used where a theorem with these laws is applied.\<close>

definition toy_openssl :: openssl where
  "toy_openssl =
     \<lparr> evp_seal = (\<lambda>k n a p. Some (p, replicate 16 0)),
       evp_open = (\<lambda>k n a c t. if t = replicate 16 0 then Some c else None),
       x25519_public = (\<lambda>a. Some a),
       x25519_derive = (\<lambda>a B. Some (map2 (XOR) a B)) \<rparr>"

lemma toy_aead_laws: "aead_laws toy_openssl"
  by (simp add: aead_laws_def toy_openssl_def)

lemma toy_dh_laws: "dh_laws toy_openssl"
proof -
  have "map2 (XOR) a b = map2 (XOR) b (a :: bytes)" if "length a = length b" for a b
    using that by (induction a b rule: list_induct2) (simp_all add: xor.commute)
  then show ?thesis by (auto simp: dh_laws_def toy_openssl_def)
qed

end
