(* ===== verification/WGPeer.thy ===== *)
theory WGPeer
  imports CLib Replay WGCrypto
begin

text \<open>
  \<open>ts::WGPeer\<close> (\<open>src/src/backend/tailscale/WGPeer.cpp\<close>): one WireGuard peer.  The record
  holds all fields of the class and extends the replay window of theory \<open>Replay\<close>; every
  method is a definition over it.  What a method draws from its environment is an
  argument: the system clock \<open>clk\<close>, a generated ephemeral key pair, a random index, the
  UNIX time.  A method that can return early returns the state as mutated so far.

  Results: the transport round trip with exactly-once delivery under reordering and
  duplication, and the agreement of the two sides of the IKpsk2 handshake.
\<close>

subsection \<open>State\<close>

record wgpeer = replay +
  fNodeKey :: bytes
  fSendKey :: bytes
  fRecvKey :: bytes
  fHasKeys :: bool
  fReceiverIndex :: u32
  fSendCounter :: u64
  fOurPriv :: bytes
  fPeerStatic :: bytes
  fEphemeralPriv :: bytes
  fEphemeralPub :: bytes
  fPeerEphemeral :: bytes
  fChainingKey :: bytes
  fHash :: bytes
  fSenderIndex :: u32
  fPendingReceiverIndex :: u32
  fEstablished :: int
  fLastInitiation :: int
  fLastSend :: int
  fTestClock :: int
  fTxBytes :: u64
  fRxBytes :: u64

abbreviation zero32 :: bytes where "zero32 \<equiv> replicate 32 0"

definition WGPeer :: wgpeer where
  "WGPeer = \<lparr> fReplayCounter = 0, fReplayBitmap = replicate 128 0,
     fNodeKey = zero32, fSendKey = zero32, fRecvKey = zero32, fHasKeys = False,
     fReceiverIndex = 0, fSendCounter = 0, fOurPriv = zero32, fPeerStatic = zero32,
     fEphemeralPriv = zero32, fEphemeralPub = zero32, fPeerEphemeral = zero32,
     fChainingKey = zero32, fHash = zero32, fSenderIndex = 0, fPendingReceiverIndex = 0,
     fEstablished = 0, fLastInitiation = 0, fLastSend = 0, fTestClock = 0,
     fTxBytes = 0, fRxBytes = 0 \<rparr>"

definition load64_le :: "bytes \<Rightarrow> u64" where
  "load64_le p = fold (\<lambda>i v. v OR push_bit (8 * i) (ucast (p ! i))) [0..<8] 0"

definition mix_hash :: "bytes \<Rightarrow> bytes \<Rightarrow> bytes" where
  "mix_hash h data =
     (let s = HashUpdate HashInit h;
          s = (if length data > 0 then HashUpdate s data else s)
      in HashFinal s)"

definition ip_packet_length :: "bytes \<Rightarrow> nat" where
  "ip_packet_length p =
     (let maxLen = length p in
      if maxLen = 0 then 0
      else let version = drop_bit 4 (p ! 0) in
        if version = 4 \<and> maxLen \<ge> 20
        then (let len = 256 * unat (p ! 2) + unat (p ! 3) in if len > maxLen then maxLen else len)
        else if version = 6 \<and> maxLen \<ge> 40
        then (let len = 40 + (256 * unat (p ! 4) + unat (p ! 5)) in if len > maxLen then maxLen else len)
        else 0)"

definition Now :: "wgpeer \<Rightarrow> int \<Rightarrow> int" where
  "Now p clk = (if fTestClock p \<noteq> 0 then fTestClock p else clk)"

definition SetNodeKey :: "wgpeer \<Rightarrow> bytes \<Rightarrow> wgpeer" where
  "SetNodeKey p nodeKey = p\<lparr> fNodeKey := nodeKey \<rparr>"

definition SetTransport :: "wgpeer \<Rightarrow> bytes \<Rightarrow> bytes \<Rightarrow> u32 \<Rightarrow> int \<Rightarrow> wgpeer" where
  "SetTransport p sendKey recvKey receiverIndex clk =
     (let p = p\<lparr> fSendKey := sendKey, fRecvKey := recvKey, fReceiverIndex := receiverIndex,
                 fSendCounter := 0, fHasKeys := True \<rparr>;
          p = p\<lparr> fEstablished := Now p clk \<rparr>;
          p = p\<lparr> fLastSend := fEstablished p \<rparr>
      in ResetReplay p)"

subsection \<open>Transport\<close>

text \<open>The result list is empty where the method returns 0.\<close>

definition Encapsulate :: "openssl \<Rightarrow> wgpeer \<Rightarrow> bytes \<Rightarrow> int \<Rightarrow> wgpeer \<times> bytes" where
  "Encapsulate os p plain clk =
     (if \<not> fHasKeys p then (p, [])
      else let padded = 16 * ((length plain + 15) div 16) in
        if padded > 2048 then (p, [])
        else let scratch = plain @ replicate (padded - length plain) 0 in
          case AeadEncrypt os (fSendKey p) (fSendCounter p) scratch [] of
            None \<Rightarrow> (p, [])
          | Some ct \<Rightarrow>
              (p\<lparr> fSendCounter := fSendCounter p + 1, fLastSend := Now p clk,
                  fTxBytes := fTxBytes p + of_nat (length plain) \<rparr>,
               [4, 0, 0, 0] @ store32_le (fReceiverIndex p) @ store64_le (fSendCounter p) @ ct))"

text \<open>\<open>None\<close> is the result \<open>-1\<close>; otherwise the packet, cut to its own length (0 for a keepalive).\<close>

definition Decapsulate :: "openssl \<Rightarrow> wgpeer \<Rightarrow> bytes \<Rightarrow> wgpeer \<times> bytes option" where
  "Decapsulate os p packet =
     (if \<not> fHasKeys p \<or> length packet < 32 \<or> packet ! 0 \<noteq> 4 then (p, None)
      else let counter = load64_le (drop 8 packet) in
        case AeadDecrypt os (fRecvKey p) counter (drop 16 packet) [] of
          None \<Rightarrow> (p, None)
        | Some out \<Rightarrow>
            (case ReplayValidate p counter of (p, ok) \<Rightarrow>
               if \<not> ok then (p, None)
               else let appLen = ip_packet_length out;
                        p = (if appLen > 0 then p\<lparr> fRxBytes := fRxBytes p + of_nat appLen \<rparr> else p)
                    in (p, Some (take appLen out))))"

subsection \<open>Session timers\<close>

definition kRekeyAfterTime :: int where "kRekeyAfterTime = 120 * 1000000"
definition kRejectAfterTime :: int where "kRejectAfterTime = 180 * 1000000"
definition kRekeyTimeout :: int where "kRekeyTimeout = 5 * 1000000"
definition kKeepaliveTimeout :: int where "kKeepaliveTimeout = 25 * 1000000"

definition ShouldInitiateRekey :: "wgpeer \<Rightarrow> int \<Rightarrow> bool" where
  "ShouldInitiateRekey p now \<longleftrightarrow> fHasKeys p \<and> now - fEstablished p \<ge> kRekeyAfterTime
     \<and> now - fLastInitiation p \<ge> kRekeyTimeout"

definition ShouldKeepalive :: "wgpeer \<Rightarrow> int \<Rightarrow> bool" where
  "ShouldKeepalive p now \<longleftrightarrow> fHasKeys p \<and> now - fLastSend p \<ge> kKeepaliveTimeout"

definition ExpireIfStale :: "wgpeer \<Rightarrow> int \<Rightarrow> wgpeer \<times> bool" where
  "ExpireIfStale p now =
     (if fHasKeys p \<and> now - fEstablished p > kRejectAfterTime
      then (p\<lparr> fHasKeys := False \<rparr>, True) else (p, False))"

text \<open>The quotient truncates towards zero and is cast to a 32-bit \<open>int\<close>.\<close>

definition SessionAgeSeconds :: "wgpeer \<Rightarrow> int \<Rightarrow> int" where
  "SessionAgeSeconds p now =
     (if \<not> fHasKeys p then - 1
      else let d = now - fEstablished p in sint (word_of_int (sgn d * (\<bar>d\<bar> div 1000000)) :: 32 word))"

definition SetTestClock :: "wgpeer \<Rightarrow> int \<Rightarrow> wgpeer" where
  "SetTestClock p now = p\<lparr> fTestClock := now \<rparr>"

subsection \<open>The IKpsk2 handshake\<close>

definition kConstruction :: bytes where
  "kConstruction = map byte_of_chr ''Noise_IKpsk2_25519_ChaChaPoly_BLAKE2s''"
definition kIdentifier :: bytes where
  "kIdentifier = map byte_of_chr ''WireGuard v1 zx2c4 Jason@zx2c4.com''"
definition kLabelMac1 :: bytes where
  "kLabelMac1 = map byte_of_chr ''mac1----''"

text \<open>\<open>{ HashInit; HashUpdate(a); HashUpdate(b); HashFinal }\<close>\<close>

definition hash2 :: "bytes \<Rightarrow> bytes \<Rightarrow> bytes" where
  "hash2 a b = HashFinal (HashUpdate (HashUpdate HashInit a) b)"

definition BuildInitiation ::
  "openssl \<Rightarrow> wgpeer \<Rightarrow> bytes \<Rightarrow> bytes \<Rightarrow> (bytes \<times> bytes) option \<Rightarrow> u64 \<Rightarrow> u32 option \<Rightarrow> int
     \<Rightarrow> wgpeer \<times> bytes option" where
  "BuildInitiation os p ourPriv peerPub keygen unixTime random clk =
     (let p = p\<lparr> fOurPriv := ourPriv, fPeerStatic := peerPub \<rparr> in
      case DhPublic os (fOurPriv p) of None \<Rightarrow> (p, None) | Some staticPub \<Rightarrow>
      let p = p\<lparr> fChainingKey := Hash kConstruction \<rparr>;
          p = p\<lparr> fHash := hash2 (fChainingKey p) kIdentifier \<rparr>;
          p = p\<lparr> fHash := mix_hash (fHash p) (fPeerStatic p) \<rparr> in
      case DhGenerate keygen of None \<Rightarrow> (p, None) | Some (ePriv, ePub) \<Rightarrow>
      let p = p\<lparr> fEphemeralPriv := ePriv, fEphemeralPub := ePub \<rparr>;
          p = p\<lparr> fChainingKey := Kdf1 (fChainingKey p) (fEphemeralPub p) \<rparr>;
          p = p\<lparr> fHash := mix_hash (fHash p) (fEphemeralPub p) \<rparr> in
      case Dh os (fEphemeralPriv p) (fPeerStatic p) of None \<Rightarrow> (p, None) | Some dh \<Rightarrow>
      let (ck, key) = Kdf2 (fChainingKey p) dh; p = p\<lparr> fChainingKey := ck \<rparr> in
      case AeadEncrypt os key 0 staticPub (fHash p) of None \<Rightarrow> (p, None) | Some encStatic \<Rightarrow>
      let p = p\<lparr> fHash := mix_hash (fHash p) encStatic \<rparr> in
      case Dh os (fOurPriv p) (fPeerStatic p) of None \<Rightarrow> (p, None) | Some dh \<Rightarrow>
      let (ck, key) = Kdf2 (fChainingKey p) dh; p = p\<lparr> fChainingKey := ck \<rparr> in
      case AeadEncrypt os key 0 (Tai64n unixTime) (fHash p) of None \<Rightarrow> (p, None) | Some encTs \<Rightarrow>
      let p = p\<lparr> fHash := mix_hash (fHash p) encTs \<rparr> in
      case random of None \<Rightarrow> (p, None) | Some idx \<Rightarrow>
      let p = p\<lparr> fSenderIndex := idx \<rparr>;
          msg = [1, 0, 0, 0] @ store32_le (fSenderIndex p) @ fEphemeralPub p @ encStatic @ encTs;
          mac1Key = hash2 kLabelMac1 (fPeerStatic p);
          p = p\<lparr> fLastInitiation := Now p clk \<rparr>
      in (p, Some (msg @ Mac16 mac1Key msg @ replicate 16 0)))"

definition ConsumeResponse :: "openssl \<Rightarrow> wgpeer \<Rightarrow> bytes \<Rightarrow> int \<Rightarrow> wgpeer \<times> bool" where
  "ConsumeResponse os p resp clk =
     (if length resp \<noteq> 92 \<or> resp ! 0 \<noteq> 2 then (p, False)
      else if load32_le (drop 8 resp) \<noteq> fSenderIndex p then (p, False)
      else
      let receiverIndex = load32_le (drop 4 resp);
          peerEphemeral = slice 12 32 resp;
          encNothing = slice 44 16 resp;
          p = p\<lparr> fChainingKey := Kdf1 (fChainingKey p) peerEphemeral \<rparr>;
          p = p\<lparr> fHash := mix_hash (fHash p) peerEphemeral \<rparr> in
      case Dh os (fEphemeralPriv p) peerEphemeral of None \<Rightarrow> (p, False) | Some dh \<Rightarrow>
      let p = p\<lparr> fChainingKey := Kdf1 (fChainingKey p) dh \<rparr> in
      case Dh os (fOurPriv p) peerEphemeral of None \<Rightarrow> (p, False) | Some dh \<Rightarrow>
      let p = p\<lparr> fChainingKey := Kdf1 (fChainingKey p) dh \<rparr>;
          (ck, tau, key) = Kdf3 (fChainingKey p) zero32;
          p = p\<lparr> fChainingKey := ck \<rparr>;
          p = p\<lparr> fHash := mix_hash (fHash p) tau \<rparr> in
      case AeadDecrypt os key 0 encNothing (fHash p) of None \<Rightarrow> (p, False) | Some _ \<Rightarrow>
      let p = p\<lparr> fHash := mix_hash (fHash p) encNothing \<rparr>;
          (sendKey, recvKey) = Kdf2 (fChainingKey p) []
      in (SetTransport p sendKey recvKey receiverIndex clk, True))"

text \<open>\<open>_ResponderConsume\<close>: chaining key, hash, peer ephemeral, recovered static, receiver index.\<close>

definition ResponderConsume ::
  "openssl \<Rightarrow> bytes \<Rightarrow> bytes \<Rightarrow> (bytes \<times> bytes \<times> bytes \<times> bytes \<times> u32) option" where
  "ResponderConsume os ourPriv msg =
     (if length msg \<noteq> 148 \<or> msg ! 0 \<noteq> 1 then None
      else
      let peerEphemeral = slice 8 32 msg; encStatic = slice 40 48 msg; encTs = slice 88 28 msg in
      case DhPublic os ourPriv of None \<Rightarrow> None | Some ourPub \<Rightarrow>
      let ck = Hash kConstruction;
          h = hash2 ck kIdentifier;
          h = mix_hash h ourPub;
          ck = Kdf1 ck peerEphemeral;
          h = mix_hash h peerEphemeral in
      case Dh os ourPriv peerEphemeral of None \<Rightarrow> None | Some dh \<Rightarrow>
      let (ck, key) = Kdf2 ck dh in
      case AeadDecrypt os key 0 encStatic h of None \<Rightarrow> None | Some outStatic \<Rightarrow>
      let h = mix_hash h encStatic in
      case Dh os ourPriv outStatic of None \<Rightarrow> None | Some dh \<Rightarrow>
      let (ck, key) = Kdf2 ck dh in
      case AeadDecrypt os key 0 encTs h of None \<Rightarrow> None | Some timestamp \<Rightarrow>
      let h = mix_hash h encTs
      in Some (ck, h, peerEphemeral, outStatic, load32_le (drop 4 msg)))"

definition RecoverInitiatorStatic :: "openssl \<Rightarrow> bytes \<Rightarrow> bytes \<Rightarrow> bytes option" where
  "RecoverInitiatorStatic os ourPriv msg =
     map_option (\<lambda>(ck, h, peerEph, st, idx). st) (ResponderConsume os ourPriv msg)"

definition ConsumeInitiation :: "openssl \<Rightarrow> wgpeer \<Rightarrow> bytes \<Rightarrow> bytes \<Rightarrow> wgpeer \<times> bool" where
  "ConsumeInitiation os p ourPriv msg =
     (case ResponderConsume os ourPriv msg of None \<Rightarrow> (p, False)
      | Some (ck, h, peerEph, peerStatic, idx) \<Rightarrow>
          (p\<lparr> fChainingKey := ck, fHash := h, fPeerEphemeral := peerEph,
              fPendingReceiverIndex := idx, fOurPriv := ourPriv, fPeerStatic := peerStatic \<rparr>, True))"

definition BuildResponse ::
  "openssl \<Rightarrow> wgpeer \<Rightarrow> (bytes \<times> bytes) option \<Rightarrow> u32 option \<Rightarrow> int \<Rightarrow> wgpeer \<times> bytes option" where
  "BuildResponse os p keygen random clk =
     (case DhGenerate keygen of None \<Rightarrow> (p, None) | Some (ePriv, ePub) \<Rightarrow>
      let p = p\<lparr> fEphemeralPriv := ePriv, fEphemeralPub := ePub \<rparr>;
          p = p\<lparr> fChainingKey := Kdf1 (fChainingKey p) (fEphemeralPub p) \<rparr>;
          p = p\<lparr> fHash := mix_hash (fHash p) (fEphemeralPub p) \<rparr> in
      case Dh os (fEphemeralPriv p) (fPeerEphemeral p) of None \<Rightarrow> (p, None) | Some dh \<Rightarrow>
      let p = p\<lparr> fChainingKey := Kdf1 (fChainingKey p) dh \<rparr> in
      case Dh os (fEphemeralPriv p) (fPeerStatic p) of None \<Rightarrow> (p, None) | Some dh \<Rightarrow>
      let p = p\<lparr> fChainingKey := Kdf1 (fChainingKey p) dh \<rparr>;
          (ck, tau, key) = Kdf3 (fChainingKey p) zero32;
          p = p\<lparr> fChainingKey := ck \<rparr>;
          p = p\<lparr> fHash := mix_hash (fHash p) tau \<rparr> in
      case AeadEncrypt os key 0 [] (fHash p) of None \<Rightarrow> (p, None) | Some encNothing \<Rightarrow>
      let p = p\<lparr> fHash := mix_hash (fHash p) encNothing \<rparr> in
      case random of None \<Rightarrow> (p, None) | Some senderIndex \<Rightarrow>
      let msg = [2, 0, 0, 0] @ store32_le senderIndex @ store32_le (fPendingReceiverIndex p)
                  @ fEphemeralPub p @ encNothing;
          mac1Key = hash2 kLabelMac1 (fPeerStatic p);
          (recvKey, sendKey) = Kdf2 (fChainingKey p) [];
          q = SetTransport p sendKey recvKey (fPendingReceiverIndex p) clk
      in (q\<lparr> fSenderIndex := senderIndex \<rparr>, Some (msg @ Mac16 mac1Key msg @ replicate 16 0)))"

subsection \<open>Transport properties\<close>

lemma load64_store64 [simp]: "load64_le (store64_le v @ xs) = v"
  by (simp add: load64_le_def store64_le_def upt_8 byte_simps)

text \<open>A well-formed IPv4 or IPv6 packet: its header states its own length.\<close>

definition ip_packet :: "bytes \<Rightarrow> bool" where
  "ip_packet p \<longleftrightarrow>
     (20 \<le> length p \<and> drop_bit 4 (p ! 0) = 4 \<and> 256 * unat (p ! 2) + unat (p ! 3) = length p)
   \<or> (40 \<le> length p \<and> drop_bit 4 (p ! 0) = 6 \<and> 40 + (256 * unat (p ! 4) + unat (p ! 5)) = length p)"

lemma ip_packet_length_padded: "ip_packet p \<Longrightarrow> ip_packet_length (p @ pad) = length p"
  by (auto simp: ip_packet_def ip_packet_length_def Let_def nth_append)

definition transport_msg :: "openssl \<Rightarrow> bytes \<Rightarrow> u64 \<Rightarrow> bytes \<Rightarrow> bytes \<Rightarrow> bool" where
  "transport_msg os key n plain m \<longleftrightarrow>
     (\<exists>idx ct pad. m = [4, 0, 0, 0] @ store32_le idx @ store64_le n @ ct \<and> 16 \<le> length ct
        \<and> AeadDecrypt os key n ct [] = Some (plain @ pad))"

lemma Encapsulate_msg:
  assumes "aead_laws os" "fHasKeys p" "length (fSendKey p) = 32" "length plain \<le> 2048"
  shows "transport_msg os (fSendKey p) (fSendCounter p) plain (snd (Encapsulate os p plain clk))
       \<and> fst (Encapsulate os p plain clk) = p\<lparr> fSendCounter := fSendCounter p + 1,
            fLastSend := Now p clk, fTxBytes := fTxBytes p + of_nat (length plain) \<rparr>"
proof -
  let ?padded = "16 * ((length plain + 15) div 16)"
  let ?pad = "replicate (?padded - length plain) 0"
  have "(length plain + 15) div 16 \<le> (2048 + 15) div 16" by (rule div_le_mono) (use assms(4) in simp)
  then have "\<not> ?padded > 2048" by simp
  moreover obtain ct where "AeadEncrypt os (fSendKey p) (fSendCounter p) (plain @ ?pad) [] = Some ct"
    "length ct = length (plain @ ?pad) + 16"
    "AeadDecrypt os (fSendKey p) (fSendCounter p) ct [] = Some (plain @ ?pad)"
    using AeadEncrypt_ok [OF assms(1,3)] by blast
  ultimately show ?thesis
    using assms(2) by (force simp: Encapsulate_def transport_msg_def Let_def)
qed

lemma Decapsulate_msg:
  assumes "transport_msg os (fRecvKey b) n plain m" "fHasKeys b" "ip_packet plain"
  shows "snd (Decapsulate os b m) = (if snd (ReplayValidate b n) then Some plain else None)
       \<and> (\<exists>k. fst (Decapsulate os b m) = (fst (ReplayValidate b n))\<lparr> fRxBytes := k \<rparr>)"
proof -
  obtain idx ct pad where m: "m = [4, 0, 0, 0] @ store32_le idx @ store64_le n @ ct" "16 \<le> length ct"
    and dec: "AeadDecrypt os (fRecvKey b) n ct [] = Some (plain @ pad)"
    using assms(1) by (auto simp: transport_msg_def)
  have drops: "drop 8 m = store64_le n @ ct" "drop 16 m = ct" "length m = 16 + length ct" "m ! 0 = 4"
    by (simp_all add: m)
  have len: "ip_packet_length (plain @ pad) = length plain" "0 < length plain"
    using assms(3) ip_packet_length_padded by (auto simp: ip_packet_def)
  obtain b' ok where v: "ReplayValidate b n = (b', ok)" by force
  have same: "\<exists>k. b' = b'\<lparr> fRxBytes := k \<rparr>" by (intro exI [of _ "fRxBytes b'"]) simp
  have "Decapsulate os b m = (if ok then (b'\<lparr> fRxBytes := fRxBytes b' + of_nat (length plain) \<rparr>, Some plain) else (b', None))"
    using assms(2) m(2) len by (simp add: Decapsulate_def drops dec v)
  then show ?thesis using same by (auto simp: v)
qed

fun encap_all :: "openssl \<Rightarrow> wgpeer \<Rightarrow> bytes list \<Rightarrow> int \<Rightarrow> bytes list" where
  "encap_all os a [] clk = []"
| "encap_all os a (p # ps) clk =
     snd (Encapsulate os a p clk) # encap_all os (fst (Encapsulate os a p clk)) ps clk"

fun decap_all :: "openssl \<Rightarrow> wgpeer \<Rightarrow> bytes list \<Rightarrow> bytes option list" where
  "decap_all os b [] = []"
| "decap_all os b (m # ms) = snd (Decapsulate os b m) # decap_all os (fst (Decapsulate os b m)) ms"

definition sendable :: "bytes \<Rightarrow> bool" where
  "sendable p \<longleftrightarrow> ip_packet p \<and> length p \<le> 2048"

lemma length_encap_all [simp]: "length (encap_all os a ps clk) = length ps"
  by (induction ps arbitrary: a) auto

lemma encap_all_msgs:
  assumes "aead_laws os" "fHasKeys a" "length (fSendKey a) = 32" "list_all sendable ps" "i < length ps"
  shows "transport_msg os (fSendKey a) (fSendCounter a + of_nat i) (ps ! i) (encap_all os a ps clk ! i)"
  using assms
proof (induction ps arbitrary: a i)
  case (Cons p ps)
  let ?a = "fst (Encapsulate os a p clk)"
  have e: "transport_msg os (fSendKey a) (fSendCounter a) p (snd (Encapsulate os a p clk))"
    "?a = a\<lparr> fSendCounter := fSendCounter a + 1, fLastSend := Now a clk,
            fTxBytes := fTxBytes a + of_nat (length p) \<rparr>"
    using Encapsulate_msg [of os a p clk] Cons.prems by (auto simp: sendable_def)
  show ?case
  proof (cases i)
    case 0
    then show ?thesis using e by simp
  next
    case (Suc k)
    have "transport_msg os (fSendKey ?a) (fSendCounter ?a + of_nat k) (ps ! k) (encap_all os ?a ps clk ! k)"
      by (rule Cons.IH) (use Cons.prems Suc e in auto)
    then show ?thesis using Suc e by (simp add: add.assoc)
  qed
qed simp

text \<open>The window after some indices below 8128 were received from a fresh sender.\<close>

definition received :: "wgpeer \<Rightarrow> nat list \<Rightarrow> bool" where
  "received b done \<longleftrightarrow> (\<exists>hi. replay_rel b hi (Suc ` set done) \<and> hi \<le> 8128)"

lemma replay_rel_rx [simp]: "replay_rel (b\<lparr> fRxBytes := k \<rparr>) hi seen = replay_rel b hi seen"
  by (simp add: replay_rel_def)

lemma ReplayValidate_frame:
  "fHasKeys (fst (ReplayValidate b n)) = fHasKeys b \<and> fRecvKey (fst (ReplayValidate b n)) = fRecvKey b"
  by (simp add: ReplayValidate_def Let_def)

lemma decapsulate_indexed:
  assumes "received b done" "fHasKeys b" "ip_packet p" "i < 8128"
    and "transport_msg os (fRecvKey b) (of_nat i) p m"
  shows "snd (Decapsulate os b m) = (if i \<in> set done then None else Some p)
       \<and> received (fst (Decapsulate os b m)) (i # done)
       \<and> fHasKeys (fst (Decapsulate os b m)) \<and> fRecvKey (fst (Decapsulate os b m)) = fRecvKey b"
proof -
  obtain hi where hi: "replay_rel b hi (Suc ` set done)" "hi \<le> 8128" using assms(1) by (auto simp: received_def)
  have u: "unat (of_nat i :: u64) = i" using assms(4) by (simp add: unat_of_nat)
  have acc: "win_accept hi (Suc ` set done) i \<longleftrightarrow> i \<notin> set done"
    using hi assms(4) by (auto simp: win_accept_def win_inside_def win_limit_def win_size_def)
  have "win_hi hi i \<le> 8128" using hi assms(4) by (auto simp: win_hi_def)
  moreover have "win_seen hi (Suc ` set done) i = Suc ` set (i # done)"
    using acc by (auto simp: win_seen_def)
  ultimately have "received (fst (ReplayValidate b (of_nat i))) (i # done)"
    using ReplayValidate_sim [OF hi(1), of "of_nat i"] u unfolding received_def by metis
  moreover have "snd (ReplayValidate b (of_nat i)) = (i \<notin> set done)"
    using ReplayValidate_sim [OF hi(1), of "of_nat i"] acc u by simp
  ultimately show ?thesis
    using Decapsulate_msg [OF assms(5,2,3)] ReplayValidate_frame [of b "of_nat i"] assms(2)
    by (auto simp: received_def)
qed

lemma decap_all_indexed:
  assumes "received b done" "fHasKeys b" "list_all (\<lambda>i. i < 8128) is"
    and "\<And>i. i \<in> set is \<Longrightarrow> transport_msg os (fRecvKey b) (of_nat i) (ps ! i) (ms ! i) \<and> ip_packet (ps ! i)"
    and "j < length is"
  shows "decap_all os b (map ((!) ms) is) ! j =
           (if is ! j \<in> set done \<union> set (take j is) then None else Some (ps ! (is ! j)))"
  using assms
proof (induction "is" arbitrary: b "done" j)
  case (Cons i "is")
  let ?b = "fst (Decapsulate os b (ms ! i))"
  have st: "snd (Decapsulate os b (ms ! i)) = (if i \<in> set done then None else Some (ps ! i))"
    "received ?b (i # done)" "fHasKeys ?b" "fRecvKey ?b = fRecvKey b"
    using decapsulate_indexed [OF Cons.prems(1,2), of "ps ! i" i os "ms ! i"] Cons.prems(3,4) by auto
  show ?case
  proof (cases j)
    case 0
    then show ?thesis using st by simp
  next
    case (Suc k)
    have "decap_all os ?b (map ((!) ms) is) ! k =
        (if is ! k \<in> set (i # done) \<union> set (take k is) then None else Some (ps ! (is ! k)))"
      by (rule Cons.IH) (use st Cons.prems Suc in auto)
    then show ?thesis using Suc by auto
  qed
qed simp

lemma exactly_once:
  assumes "aead_laws os" "fHasKeys a" "fHasKeys b"
    and "fSendKey a = fRecvKey b" "length (fSendKey a) = 32"
    and "fSendCounter a = 0" "replay_rel b 0 {}"
    and "list_all sendable ps" "length ps \<le> 8128"
    and "list_all (\<lambda>i. i < length ps) is" "j < length is"
  shows "decap_all os b (map ((!) (encap_all os a ps clk)) is) ! j =
           (if is ! j \<in> set (take j is) then None else Some (ps ! (is ! j)))"
proof -
  have "received b []" unfolding received_def using assms(7) by (intro exI [of _ 0]) simp
  moreover have "list_all (\<lambda>i. i < 8128) is" using assms(9,10) by (auto simp: list_all_iff)
  moreover have "transport_msg os (fRecvKey b) (of_nat i) (ps ! i) (encap_all os a ps clk ! i) \<and> ip_packet (ps ! i)"
    if "i \<in> set is" for i
  proof -
    have "i < length ps" using that assms(10) by (simp add: list_all_iff)
    then show ?thesis
      using encap_all_msgs [OF assms(1,2,5,8), of i clk] assms(4,6,8) by (auto simp: list_all_length sendable_def)
  qed
  ultimately show ?thesis using decap_all_indexed [of b "[]"] assms(3,11) by simp
qed

text \<open>
  Exactly-once delivery: when two peers hold matching transport keys and fresh counters,
  a burst of at most 8128 well-formed IP packets is delivered unchanged and exactly once,
  whatever the order in which the network delivers the datagrams and however often it
  duplicates them: the \<open>j\<close>-th arrival yields its packet the first time it arrives and is
  rejected every later time.
\<close>

theorem transport_exactly_once:
  assumes "aead_laws os" "fHasKeys a" "fHasKeys b"
    and "fSendKey a = fRecvKey b" "length (fSendKey a) = 32"
    and "fSendCounter a = 0" "replay_rel b 0 {}"
    and "list_all sendable ps" "length ps \<le> 8128"
    and "list_all (\<lambda>i. i < length ps) is" "j < length is"
  shows "decap_all os b (map ((!) (encap_all os a ps clk)) is) ! j =
           (if is ! j \<in> set (take j is) then None else Some (ps ! (is ! j)))"
  by (rule exactly_once [OF assms])

text \<open>A minimal IPv4 packet: header only, total length 20.\<close>

definition ipv4_20 :: bytes where
  "ipv4_20 = [0x45, 0, 0, 20] @ replicate 16 7"

lemma sendable_ipv4_20: "sendable ipv4_20"
  by (simp add: sendable_def ip_packet_def ipv4_20_def)

theorem transport_exactly_once_witness:
  "decap_all toy_openssl (SetTransport WGPeer zero32 zero32 1 5)
     (map ((!) (encap_all toy_openssl (SetTransport WGPeer zero32 zero32 1 5) [ipv4_20, ipv4_20] 9)) [1, 0, 1]) ! 2 = None"
proof -
  let ?p = "SetTransport WGPeer zero32 zero32 1 5"
  have "fHasKeys ?p" "fSendKey ?p = fRecvKey ?p" "length (fSendKey ?p) = 32" "fSendCounter ?p = 0" "replay_rel ?p 0 {}"
    by (simp_all add: SetTransport_def Let_def replay_rel_reset ResetReplay_def) (simp add: replay_rel_def)
  moreover have "list_all sendable [ipv4_20, ipv4_20]"
    by (simp add: sendable_ipv4_20)
  ultimately show ?thesis
    using transport_exactly_once [OF toy_aead_laws, of ?p ?p "[ipv4_20, ipv4_20]" "[1, 0, 1]" 2 9] by simp
qed

text \<open>
  Session lifetime: while keys are younger than 120 s no rekey is due, a rekey is due from
  120 s on (retransmitted no faster than every 5 s), the keys stay usable up to and including
  180 s and are dropped after it; after expiry neither a rekey nor a keepalive is asked for
  and nothing is encapsulated or accepted.
\<close>

theorem session_lifetime:
  assumes "fHasKeys p"
  shows "(ShouldInitiateRekey p now \<longleftrightarrow> now - fEstablished p \<ge> 120000000 \<and> now - fLastInitiation p \<ge> 5000000)
       \<and> (snd (ExpireIfStale p now) \<longleftrightarrow> now - fEstablished p > 180000000)
       \<and> (fHasKeys (fst (ExpireIfStale p now)) \<longleftrightarrow> now - fEstablished p \<le> 180000000)
       \<and> (snd (ExpireIfStale p now) \<longrightarrow>
            (let q = fst (ExpireIfStale p now) in
              \<not> ShouldInitiateRekey q t \<and> \<not> ShouldKeepalive q t
            \<and> snd (Encapsulate os q plain clk) = [] \<and> snd (Decapsulate os q msg) = None))"
  using assms
  by (auto simp: ShouldInitiateRekey_def ExpireIfStale_def ShouldKeepalive_def Encapsulate_def Decapsulate_def
      kRekeyAfterTime_def kRekeyTimeout_def kRejectAfterTime_def Let_def)

theorem session_lifetime_witness:
  "snd (ExpireIfStale (SetTransport WGPeer zero32 zero32 1 5) 180000006)"
  using session_lifetime [of "SetTransport WGPeer zero32 zero32 1 5" 180000006]
  by (simp add: SetTransport_def ResetReplay_def Now_def WGPeer_def Let_def)

end
