(* ===== verification/Handshake.thy ===== *)
theory Handshake
  imports WGPeer
begin

text \<open>
  The two sides of the WireGuard IKpsk2 handshake of \<open>ts::WGPeer\<close> agree: an initiation
  built by one peer is accepted by the other, which recovers the initiator's static key,
  and its response is accepted by the initiator; the transport keys then match crosswise,
  so that the delivery theorem of theory \<open>WGPeer\<close> applies in both directions.
\<close>

text \<open>A static or ephemeral key pair.\<close>

definition keypair :: "openssl \<Rightarrow> bytes \<Rightarrow> bytes \<Rightarrow> bool" where
  "keypair os k K \<longleftrightarrow> length k = 32 \<and> length K = 32 \<and> DhPublic os k = Some K"

lemma keypair_DhGenerate: "keypair os k K \<Longrightarrow> DhGenerate (Some (k, K)) = Some (k, K)"
  by (simp add: keypair_def DhGenerate_def)

lemma keypair_dh:
  assumes "dh_laws os" "keypair os a A" "keypair os b B"
  obtains s where "Dh os a B = Some s" "Dh os b A = Some s" "length s = 32"
  using assms Dh_ok [of os a b A B] by (auto simp: keypair_def)

lemma aead_obtain:
  assumes "aead_laws os" "length k = 32"
  obtains c where "AeadEncrypt os k n p a = Some c" "length c = length p + 16" "AeadDecrypt os k n c a = Some p"
  using AeadEncrypt_ok [OF assms] by blast

text \<open>What the initiator keeps after its message, against what the responder derives from it.\<close>

lemma initiation_agree:
  assumes laws: "aead_laws os" "dh_laws os"
    and si: "keypair os si SI" and sr: "keypair os sr SR" and ei: "keypair os ei EI"
  shows "\<exists>a' m. BuildInitiation os a si SR (Some (ei, EI)) t (Some idx) clk = (a', Some m) \<and> length m = 148
     \<and> ResponderConsume os sr m = Some (fChainingKey a', fHash a', EI, SI, idx)
     \<and> fEphemeralPriv a' = ei \<and> fOurPriv a' = si \<and> fSenderIndex a' = idx"
proof -
  let ?c0 = "Hash kConstruction"
  let ?h0 = "mix_hash (mix_hash (hash2 ?c0 kIdentifier) SR) EI"
  obtain es where es: "Dh os ei SR = Some es" "Dh os sr EI = Some es" using keypair_dh [OF laws(2) ei sr] .
  obtain ss where ss: "Dh os si SR = Some ss" "Dh os sr SI = Some ss" using keypair_dh [OF laws(2) si sr] .
  let ?k1 = "Kdf2 (Kdf1 ?c0 EI) es"
  obtain encS where encS: "AeadEncrypt os (snd ?k1) 0 SI ?h0 = Some encS" "length encS = length SI + 16"
    "AeadDecrypt os (snd ?k1) 0 encS ?h0 = Some SI"
    by (rule aead_obtain [OF laws(1), of "snd ?k1"]) simp
  let ?h1 = "mix_hash ?h0 encS"
  let ?k2 = "Kdf2 (fst ?k1) ss"
  obtain encT where encT: "AeadEncrypt os (snd ?k2) 0 (Tai64n t) ?h1 = Some encT"
    "length encT = length (Tai64n t) + 16" "AeadDecrypt os (snd ?k2) 0 encT ?h1 = Some (Tai64n t)"
    by (rule aead_obtain [OF laws(1), of "snd ?k2"]) simp
  have lens: "length encS = 48" "length encT = 28" "length EI = 32"
    using encS(2) encT(2) si ei by (auto simp: keypair_def)
  let ?a = "a\<lparr> fOurPriv := si, fPeerStatic := SR, fEphemeralPriv := ei, fEphemeralPub := EI,
               fChainingKey := fst ?k2, fHash := mix_hash ?h1 encT, fSenderIndex := idx \<rparr>"
  let ?body = "[1, 0, 0, 0] @ store32_le idx @ EI @ encS @ encT"
  let ?m = "?body @ Mac16 (hash2 kLabelMac1 SR) ?body @ replicate 16 0"
  have "BuildInitiation os a si SR (Some (ei, EI)) t (Some idx) clk = (?a\<lparr> fLastInitiation := Now ?a clk \<rparr>, Some ?m)"
    using si ei es ss encS encT
    by (simp add: BuildInitiation_def keypair_def DhGenerate_def Let_def split_beta)
  moreover have "length ?m = 148" using lens by simp
  moreover have "ResponderConsume os sr ?m = Some (fst ?k2, mix_hash ?h1 encT, EI, SI, idx)"
    using lens sr es ss encS encT
    by (simp add: ResponderConsume_def keypair_def Let_def split_beta slice_simps)
  ultimately show ?thesis by force
qed

lemma response_agree:
  assumes laws: "aead_laws os" "dh_laws os"
    and si: "keypair os si SI" and ei: "keypair os ei EI" and er: "keypair os er ER"
    and a: "fEphemeralPriv a = ei" "fOurPriv a = si"
    and b: "fPeerEphemeral b = EI" "fPeerStatic b = SI" "fPendingReceiverIndex b = fSenderIndex a"
    and same: "fChainingKey a = fChainingKey b" "fHash a = fHash b"
  shows "\<exists>a' b' m ck h send recv. BuildResponse os b (Some (er, ER)) (Some idx) clk = (b', Some m) \<and> length m = 92
     \<and> ConsumeResponse os a m clk' = (a', True)
     \<and> a' = SetTransport (a\<lparr> fChainingKey := ck, fHash := h \<rparr>) send recv idx clk'
     \<and> b' = (SetTransport (b\<lparr> fEphemeralPriv := er, fEphemeralPub := ER, fChainingKey := ck, fHash := h \<rparr>)
              recv send (fSenderIndex a) clk)\<lparr> fSenderIndex := idx \<rparr>
     \<and> length send = 32 \<and> length recv = 32"
proof -
  obtain ee where ee: "Dh os ei ER = Some ee" "Dh os er EI = Some ee" using keypair_dh [OF laws(2) ei er] .
  obtain se where se: "Dh os si ER = Some se" "Dh os er SI = Some se" using keypair_dh [OF laws(2) si er] .
  let ?c = "Kdf1 (Kdf1 (Kdf1 (fChainingKey b) ER) ee) se"
  let ?k = "Kdf3 ?c zero32"
  let ?h = "mix_hash (mix_hash (fHash b) ER) (fst (snd ?k))"
  obtain enc where enc: "AeadEncrypt os (snd (snd ?k)) 0 [] ?h = Some enc" "length enc = length ([] :: bytes) + 16"
    "AeadDecrypt os (snd (snd ?k)) 0 enc ?h = Some []"
    by (rule aead_obtain [OF laws(1), of "snd (snd ?k)"]) simp
  have lens: "length enc = 16" "length ER = 32" using enc(2) er by (auto simp: keypair_def)
  let ?body = "[2, 0, 0, 0] @ store32_le idx @ store32_le (fSenderIndex a) @ ER @ enc"
  let ?m = "?body @ Mac16 (hash2 kLabelMac1 SI) ?body @ replicate 16 0"
  let ?T = "Kdf2 (fst ?k) []"
  have "BuildResponse os b (Some (er, ER)) (Some idx) clk =
      ((SetTransport (b\<lparr> fEphemeralPriv := er, fEphemeralPub := ER, fChainingKey := fst ?k, fHash := mix_hash ?h enc \<rparr>)
              (snd ?T) (fst ?T) (fSenderIndex a) clk)\<lparr> fSenderIndex := idx \<rparr>, Some ?m)"
    using ee se enc b keypair_DhGenerate [OF er] by (simp add: BuildResponse_def Let_def split_beta)
  moreover have "length ?m = 92" using lens by simp
  moreover have "ConsumeResponse os a ?m clk' =
      (SetTransport (a\<lparr> fChainingKey := fst ?k, fHash := mix_hash ?h enc \<rparr>) (fst ?T) (snd ?T) idx clk', True)"
    using lens ee se enc a same by (simp add: ConsumeResponse_def Let_def split_beta slice_simps)
  ultimately show ?thesis by (metis length_Kdf2)
qed

text \<open>A run of the handshake: initiator state, responder state, the two messages and verdicts.\<close>

definition run_handshake ::
  "openssl \<Rightarrow> wgpeer \<Rightarrow> wgpeer \<Rightarrow> bytes \<Rightarrow> bytes \<Rightarrow> bytes \<Rightarrow> bytes \<times> bytes \<Rightarrow> bytes \<times> bytes
     \<Rightarrow> u32 \<Rightarrow> u32 \<Rightarrow> u64 \<Rightarrow> int \<Rightarrow> (wgpeer \<times> wgpeer \<times> bytes \<times> bytes) option" where
  "run_handshake os a b si sr SR ei er i r t clk =
     (case BuildInitiation os a si SR (Some ei) t (Some i) clk of
        (_, None) \<Rightarrow> None
      | (a1, Some m1) \<Rightarrow>
          (case ConsumeInitiation os b sr m1 of
             (_, False) \<Rightarrow> None
           | (b1, True) \<Rightarrow>
               (case BuildResponse os b1 (Some er) (Some r) clk of
                  (_, None) \<Rightarrow> None
                | (b2, Some m2) \<Rightarrow>
                    (case ConsumeResponse os a1 m2 clk of
                       (_, False) \<Rightarrow> None
                     | (a2, True) \<Rightarrow> Some (a2, b2, m1, m2)))))"

text \<open>Two peers ready to exchange transport messages, in both directions.\<close>

definition session :: "wgpeer \<Rightarrow> wgpeer \<Rightarrow> bool" where
  "session a b \<longleftrightarrow> fHasKeys a \<and> fHasKeys b \<and> fSendKey a = fRecvKey b \<and> fRecvKey a = fSendKey b
     \<and> length (fSendKey a) = 32 \<and> length (fRecvKey a) = 32
     \<and> fReceiverIndex a = fSenderIndex b \<and> fReceiverIndex b = fSenderIndex a
     \<and> fSendCounter a = 0 \<and> fSendCounter b = 0 \<and> replay_rel a 0 {} \<and> replay_rel b 0 {}"

lemma session_sym: "session a b \<longleftrightarrow> session b a"
  by (auto simp: session_def)

lemma session_delivery:
  assumes "aead_laws os" "session a b" "list_all sendable ps" "length ps \<le> 8128"
    and "list_all (\<lambda>i. i < length ps) is" "j < length is"
  shows "decap_all os b (map ((!) (encap_all os a ps c)) is) ! j =
           (if is ! j \<in> set (take j is) then None else Some (ps ! (is ! j)))"
  by (rule exactly_once [OF assms(1) _ _ _ _ _ _ assms(3-6)]) (use assms(2) in \<open>auto simp: session_def\<close>)

lemma replay_rel_index [simp]: "replay_rel (b\<lparr> fSenderIndex := k \<rparr>) hi seen = replay_rel b hi seen"
  by (simp add: replay_rel_def)

lemma SetTransport_fields [simp]:
  "fHasKeys (SetTransport p s r i clk)" "fSendKey (SetTransport p s r i clk) = s"
  "fRecvKey (SetTransport p s r i clk) = r" "fReceiverIndex (SetTransport p s r i clk) = i"
  "fSendCounter (SetTransport p s r i clk) = 0" "fSenderIndex (SetTransport p s r i clk) = fSenderIndex p"
  "replay_rel (SetTransport p s r i clk) 0 {}"
  by (simp_all add: SetTransport_def Let_def ResetReplay_def) (simp add: replay_rel_def)

lemma run_handshake_ok:
  assumes laws: "aead_laws os" "dh_laws os"
    and keys: "keypair os si SI" "keypair os sr SR" "keypair os ei EI" "keypair os er ER"
  shows "\<exists>a' b' m1 m2. run_handshake os a b si sr SR (ei, EI) (er, ER) i r t clk = Some (a', b', m1, m2)
     \<and> length m1 = 148 \<and> length m2 = 92 \<and> RecoverInitiatorStatic os sr m1 = Some SI
     \<and> session a' b' \<and> fHash a' = fHash b' \<and> fPeerStatic b' = SI"
proof -
  obtain a1 m1 where i: "BuildInitiation os a si SR (Some (ei, EI)) t (Some i) clk = (a1, Some m1)" "length m1 = 148"
    "ResponderConsume os sr m1 = Some (fChainingKey a1, fHash a1, EI, SI, i)"
    "fEphemeralPriv a1 = ei" "fOurPriv a1 = si" "fSenderIndex a1 = i"
    using initiation_agree [OF laws keys(1-3), of a t i clk] by blast
  let ?b1 = "b\<lparr> fChainingKey := fChainingKey a1, fHash := fHash a1, fPeerEphemeral := EI,
              fPendingReceiverIndex := i, fOurPriv := sr, fPeerStatic := SI \<rparr>"
  have c: "ConsumeInitiation os b sr m1 = (?b1, True)" by (simp add: ConsumeInitiation_def i)
  obtain a' b' m2 ck h send recv where
    r: "BuildResponse os ?b1 (Some (er, ER)) (Some r) clk = (b', Some m2)" "length m2 = 92"
    "ConsumeResponse os a1 m2 clk = (a', True)"
    "a' = SetTransport (a1\<lparr> fChainingKey := ck, fHash := h \<rparr>) send recv r clk"
    "b' = (SetTransport (?b1\<lparr> fEphemeralPriv := er, fEphemeralPub := ER, fChainingKey := ck, fHash := h \<rparr>)
              recv send (fSenderIndex a1) clk)\<lparr> fSenderIndex := r \<rparr>"
    "length send = 32" "length recv = 32"
    using response_agree [OF laws keys(1,3,4), of a1 ?b1 r clk clk] i(4-6) by auto
  have "run_handshake os a b si sr SR (ei, EI) (er, ER) i r t clk = Some (a', b', m1, m2)"
    by (simp add: run_handshake_def i(1) c r(1,3))
  moreover have "session a' b'" using r i(6) by (simp add: session_def)
  moreover have "fHash a' = fHash b'" "fPeerStatic b' = SI"
    by (simp_all add: r(4,5) SetTransport_def ResetReplay_def Let_def)
  ultimately show ?thesis using i(2,3) r(2) by (auto simp: RecoverInitiatorStatic_def)
qed

text \<open>
  C1. Handshake agreement: for any four key pairs, indices, time and peer states, the run
  initiation, response succeeds; the messages have their fixed sizes 148 and 92, the
  responder recovers exactly the initiator's static key, both sides end with the same
  transcript hash, crosswise equal 32-byte transport keys, each other's indices and fresh
  counters and replay windows.
\<close>

theorem handshake_agreement:
  assumes "aead_laws os" "dh_laws os"
    and "keypair os si SI" "keypair os sr SR" "keypair os ei EI" "keypair os er ER"
  shows "\<exists>a' b' m1 m2. run_handshake os a b si sr SR (ei, EI) (er, ER) i r t clk = Some (a', b', m1, m2)
     \<and> length m1 = 148 \<and> length m2 = 92 \<and> RecoverInitiatorStatic os sr m1 = Some SI
     \<and> session a' b' \<and> fHash a' = fHash b' \<and> fPeerStatic b' = SI"
  by (rule run_handshake_ok [OF assms])

lemma toy_keypair: "length k = 32 \<Longrightarrow> keypair toy_openssl k k"
  by (simp add: keypair_def DhPublic_def toy_openssl_def)

theorem handshake_agreement_witness:
  "run_handshake toy_openssl WGPeer WGPeer (replicate 32 1) (replicate 32 2) (replicate 32 2)
     (replicate 32 3, replicate 32 3) (replicate 32 4, replicate 32 4) 11 12 13 14 \<noteq> None"
  using handshake_agreement [OF toy_aead_laws toy_dh_laws toy_keypair [of "replicate 32 1"]
      toy_keypair [of "replicate 32 2"] toy_keypair [of "replicate 32 3"] toy_keypair [of "replicate 32 4"],
      of WGPeer WGPeer 11 12 13 14] by auto

text \<open>
  C2. End to end: after the handshake, a burst of at most 8128 well-formed IP packets sent by
  either side is received by the other unchanged and exactly once, under any reordering
  and duplication by the network.
\<close>

theorem handshake_then_delivery:
  assumes "aead_laws os" "dh_laws os"
    and "keypair os si SI" "keypair os sr SR" "keypair os ei EI" "keypair os er ER"
    and "run_handshake os a b si sr SR (ei, EI) (er, ER) i r t clk = Some (a', b', m1, m2)"
    and "list_all sendable ps" "length ps \<le> 8128"
    and "list_all (\<lambda>i. i < length ps) is" "j < length is"
  shows "decap_all os b' (map ((!) (encap_all os a' ps c)) is) ! j =
           (if is ! j \<in> set (take j is) then None else Some (ps ! (is ! j)))
       \<and> decap_all os a' (map ((!) (encap_all os b' ps c)) is) ! j =
           (if is ! j \<in> set (take j is) then None else Some (ps ! (is ! j)))"
proof -
  have "session a' b'" using run_handshake_ok [OF assms(1-6), of a b i r t clk] assms(7) by auto
  then show ?thesis
    by (intro conjI session_delivery [OF assms(1) _ assms(8-11)]) (simp_all add: session_sym)
qed

theorem handshake_then_delivery_witness:
  "\<exists>a' b' m1 m2. run_handshake toy_openssl WGPeer WGPeer (replicate 32 1) (replicate 32 2) (replicate 32 2)
       (replicate 32 3, replicate 32 3) (replicate 32 4, replicate 32 4) 11 12 13 14 = Some (a', b', m1, m2)
   \<and> decap_all toy_openssl b' (map ((!) (encap_all toy_openssl a' [ipv4_20, ipv4_20] 9)) [1, 0, 1]) ! 0 = Some ipv4_20"
proof -
  note keys = toy_aead_laws toy_dh_laws toy_keypair [of "replicate 32 1"]
      toy_keypair [of "replicate 32 2"] toy_keypair [of "replicate 32 3"] toy_keypair [of "replicate 32 4"]
  obtain a' b' m1 m2 where "run_handshake toy_openssl WGPeer WGPeer (replicate 32 1) (replicate 32 2) (replicate 32 2)
     (replicate 32 3, replicate 32 3) (replicate 32 4, replicate 32 4) 11 12 13 14 = Some (a', b', m1, m2)"
    using run_handshake_ok [OF keys, of WGPeer WGPeer 11 12 13 14] by auto
  then show ?thesis
    using handshake_then_delivery [OF keys, of WGPeer WGPeer 11 12 13 14 a' b' m1 m2 "[ipv4_20, ipv4_20]" "[1, 0, 1]" 0 9]
      sendable_ipv4_20 by auto
qed

end
