(* ===== verification/Config.thy ===== *)
theory Config
  imports CLib
begin

text \<open>
  \<open>ts::TSConfig\<close> (\<open>src/src/common/TSConfig.cpp\<close>): the non-secret settings of a profile and
  the directory layout.  Files are a map from paths to flattened messages (a message is a
  map from field names to strings); what the operating system may answer differently from
  run to run (directory lookup, creation, opening, writing, renaming) is the record \<open>fs_env\<close>.
  A write goes to the temporary sibling and reaches the real path only by the rename.
\<close>

definition kDefaultControlURL :: string where
  "kDefaultControlURL = ''https://controlplane.tailscale.com''"

definition kFieldControlURL :: string where "kFieldControlURL = ''control_url''"
definition kConfigLeaf :: string where "kConfigLeaf = ''config''"
definition kSettingsDir :: string where "kSettingsDir = ''Sotoportego''"
definition kTailscaleDir :: string where "kTailscaleDir = ''tailscale''"

record tsconfig =
  fControlURL :: string
  fAuthKey :: string
  fProfileName :: string

definition MakeDefault :: "tsconfig \<Rightarrow> tsconfig" where
  "MakeDefault c = c\<lparr> fControlURL := kDefaultControlURL, fAuthKey := [], fProfileName := [] \<rparr>"

definition TSConfig :: tsconfig where
  "TSConfig = MakeDefault \<lparr> fControlURL = [], fAuthKey = [], fProfileName = [] \<rparr>"

text \<open>The empty list stands for NULL and for the empty string alike.\<close>

definition SetControlURL :: "tsconfig \<Rightarrow> string \<Rightarrow> tsconfig" where
  "SetControlURL c url =
     (if url = [] then c\<lparr> fControlURL := kDefaultControlURL \<rparr>
      else let c = c\<lparr> fControlURL := url \<rparr> in
        if fControlURL c \<noteq> [] \<and> last (fControlURL c) = CHR ''/'' then c\<lparr> fControlURL := butlast (fControlURL c) \<rparr>
        else c)"

definition SanitizeComponent :: "string \<Rightarrow> string" where
  "SanitizeComponent name =
     (let out = map (\<lambda>c. if isalnum c \<or> c = CHR ''.'' \<or> c = CHR ''_'' \<or> c = CHR ''-'' then c else CHR ''_'') (c_str name);
          out = dropWhile (\<lambda>c. c = CHR ''.'') out
      in if out = [] then ''_'' else out)"

type_synonym message = "string \<rightharpoonup> string"
type_synonym files = "string \<rightharpoonup> message"

record fs_env =
  settings_dir :: "status \<times> string"
  mkdir_result :: "string \<Rightarrow> status"
  open_result :: "string \<Rightarrow> status"
  unflatten_result :: status
  flatten_result :: status
  rename_result :: status

definition path_append :: "string \<Rightarrow> string \<Rightarrow> string" where
  "path_append p leaf = p @ ''/'' @ leaf"

definition BaseDir :: "fs_env \<Rightarrow> bool \<Rightarrow> status + string" where
  "BaseDir env createDir =
     (case settings_dir env of (r, dir) \<Rightarrow>
      if r \<noteq> B_OK then Inl r
      else let out = path_append (path_append dir kSettingsDir) kTailscaleDir in
        if createDir \<and> mkdir_result env out \<noteq> B_OK then Inl (mkdir_result env out) else Inr out)"

definition IdentityDir :: "fs_env \<Rightarrow> string \<Rightarrow> bool \<Rightarrow> status + string" where
  "IdentityDir env profileName createDir =
     (if profileName = [] then Inl B_BAD_VALUE
      else case BaseDir env createDir of
        Inl r \<Rightarrow> Inl r
      | Inr base \<Rightarrow>
          let out = path_append base (SanitizeComponent profileName) in
          if createDir \<and> mkdir_result env out \<noteq> B_OK then Inl (mkdir_result env out) else Inr out)"

definition ConfigFilePath :: "fs_env \<Rightarrow> string \<Rightarrow> bool \<Rightarrow> status + string" where
  "ConfigFilePath env profileName createDir =
     (case IdentityDir env profileName createDir of
        Inl r \<Rightarrow> Inl r | Inr dir \<Rightarrow> Inr (path_append dir kConfigLeaf))"

text \<open>\<open>BFile(path, B_READ_ONLY).InitCheck()\<close>: a missing file is \<open>B_ENTRY_NOT_FOUND\<close>.\<close>

definition open_read :: "fs_env \<Rightarrow> files \<Rightarrow> string \<Rightarrow> status" where
  "open_read env fs path = (if fs path = None then B_ENTRY_NOT_FOUND else open_result env path)"

definition Load :: "fs_env \<Rightarrow> files \<Rightarrow> tsconfig \<Rightarrow> string \<Rightarrow> status \<times> tsconfig" where
  "Load env fs c profileName =
     (if profileName = [] then (B_BAD_VALUE, c)
      else let c = MakeDefault c; c = c\<lparr> fProfileName := profileName \<rparr> in
        case ConfigFilePath env profileName False of
          Inl r \<Rightarrow> (r, c)
        | Inr path \<Rightarrow>
            if open_read env fs path = B_ENTRY_NOT_FOUND then (B_OK, c)
            else if open_read env fs path \<noteq> B_OK then (open_read env fs path, c)
            else if unflatten_result env \<noteq> B_OK then (unflatten_result env, c)
            else case the (fs path) kFieldControlURL of
              Some url \<Rightarrow> (B_OK, SetControlURL c url)
            | None \<Rightarrow> (B_OK, c))"

definition Save :: "fs_env \<Rightarrow> files \<Rightarrow> tsconfig \<Rightarrow> status \<times> files" where
  "Save env fs c =
     (if fProfileName c = [] then (B_BAD_VALUE, fs)
      else case ConfigFilePath env (fProfileName c) True of
        Inl r \<Rightarrow> (r, fs)
      | Inr path \<Rightarrow>
          let stored = [kFieldControlURL \<mapsto> fControlURL c]; tempPath = path @ ''.tmp'' in
          if open_result env tempPath \<noteq> B_OK then (open_result env tempPath, fs)
          else if flatten_result env \<noteq> B_OK then (flatten_result env, fs(tempPath := None))
          else let fs = fs(tempPath \<mapsto> stored) in
            if rename_result env \<noteq> B_OK then (rename_result env, fs(tempPath := None))
            else (B_OK, fs(path \<mapsto> stored, tempPath := None)))"

subsection \<open>Path safety\<close>

definition safe_char :: "char \<Rightarrow> bool" where
  "safe_char c \<longleftrightarrow> isalnum c \<or> c = CHR ''.'' \<or> c = CHR ''_'' \<or> c = CHR ''-''"

text \<open>
  Path safety: whatever the profile name, the identity component is non-empty, made of
  \<open>[A-Za-z0-9._-]\<close> only and does not start with a dot; it is therefore neither \<open>"."\<close> nor
  \<open>".."\<close>, contains no separator, and the directory is an immediate child of the base directory.
\<close>

theorem identity_dir_safe:
  "let comp = SanitizeComponent name in
     comp \<noteq> [] \<and> list_all safe_char comp \<and> hd comp \<noteq> CHR ''.'' \<and> comp \<noteq> ''.'' \<and> comp \<noteq> ''..''
   \<and> CHR ''/'' \<notin> set comp \<and> code (hd comp) \<noteq> 0 \<and> SanitizeComponent comp = comp"
proof -
  let ?f = "\<lambda>c. if isalnum c \<or> c = CHR ''.'' \<or> c = CHR ''_'' \<or> c = CHR ''-'' then c else CHR ''_''"
  define out where "out = dropWhile (\<lambda>c. c = CHR ''.'') (map ?f (c_str name))"
  have safe: "list_all safe_char out"
    by (auto simp: out_def list_all_iff safe_char_def dest!: set_dropWhileD)
  have hd: "out \<noteq> [] \<Longrightarrow> hd out \<noteq> CHR ''.''" using hd_dropWhile [of "\<lambda>c. c = CHR ''.''"] by (auto simp: out_def)
  define comp where "comp = (if out = [] then ''_'' else out)"
  have comp: "comp \<noteq> []" "list_all safe_char comp" "hd comp \<noteq> CHR ''.''"
    using safe hd by (auto simp: comp_def safe_char_def)
  have nz: "safe_char c \<Longrightarrow> code c \<noteq> 0 \<and> c \<noteq> CHR ''/''" for c
    by (auto simp: safe_char_def isalnum_def isdigit_def isupper_def islower_def)
  have "c_str comp = comp" using comp(2) nz by (intro c_str_no_nul) (auto simp: list_all_iff)
  moreover have "map ?f comp = comp" using comp(2) by (intro map_idI) (auto simp: list_all_iff safe_char_def)
  moreover have "dropWhile (\<lambda>c. c = CHR ''.'') comp = comp" using comp(1,3) by (cases comp) auto
  ultimately have "SanitizeComponent comp = comp" using comp(1) by (simp add: SanitizeComponent_def del: dropWhile_eq_Nil_conv)
  moreover have "SanitizeComponent name = comp" unfolding SanitizeComponent_def comp_def out_def Let_def by (rule refl)
  moreover have "CHR ''/'' \<notin> set comp" "code (hd comp) \<noteq> 0"
    using comp nz by (cases comp; auto simp: list_all_iff)+
  ultimately show ?thesis using comp by auto
qed

subsection \<open>Saving and loading\<close>

lemma ConfigFilePath_mode: "ConfigFilePath env p True = Inr path \<Longrightarrow> ConfigFilePath env p False = Inr path"
  by (auto simp: ConfigFilePath_def IdentityDir_def BaseDir_def Let_def split: sum.splits prod.splits if_splits)

text \<open>
  Settings survive a restart: after a successful \<open>Save\<close>, \<open>Load\<close> of the same profile in a
  system that can read the file restores the control URL, provided it does not end in a slash
  (and is not empty); a \<open>Save\<close> that fails leaves the real file untouched; the pre-auth key is
  never written, and loading clears it.
\<close>

theorem config_save_load:
  assumes "fControlURL c \<noteq> []" "last (fControlURL c) \<noteq> CHR ''/''"
    and "Save env fs c = (B_OK, fs')" "ConfigFilePath env (fProfileName c) True = Inr path"
    and "open_result env path = B_OK" "unflatten_result env = B_OK"
  shows "Load env fs' c' (fProfileName c) = (B_OK, c\<lparr> fAuthKey := [] \<rparr>)
       \<and> (\<forall>env2 c2 path2. fst (Save env2 fs' c2) \<noteq> B_OK \<longrightarrow> ConfigFilePath env2 (fProfileName c2) True = Inr path2
            \<longrightarrow> snd (Save env2 fs' c2) path2 = fs' path2)"
proof -
  have ne: "fProfileName c \<noteq> []" using assms(3) by (auto simp: Save_def)
  have fs': "fs' path = Some [kFieldControlURL \<mapsto> fControlURL c]"
    using assms(3,4) ne by (auto simp: Save_def Let_def split: if_splits)
  have "Load env fs' c' (fProfileName c) = (B_OK, c\<lparr> fAuthKey := [] \<rparr>)"
    using ne ConfigFilePath_mode [OF assms(4)] assms(1,2,5,6) fs'
    by (simp add: Load_def open_read_def Let_def SetControlURL_def MakeDefault_def)
  moreover have "snd (Save env2 fs' c2) path2 = fs' path2"
    if "fst (Save env2 fs' c2) \<noteq> B_OK" "ConfigFilePath env2 (fProfileName c2) True = Inr path2" for env2 c2 path2
    using that by (auto simp: Save_def Let_def)
  ultimately show ?thesis by blast
qed

definition ok_env :: fs_env where
  "ok_env = \<lparr> settings_dir = (B_OK, ''/boot/home/config/settings''), mkdir_result = (\<lambda>p. B_OK), open_result = (\<lambda>p. B_OK),
     unflatten_result = B_OK, flatten_result = B_OK, rename_result = B_OK \<rparr>"

theorem config_save_load_witness:
  "\<exists>fs'. Load ok_env fs' TSConfig ''work'' =
     (B_OK, \<lparr> fControlURL = ''https://hs.example'', fAuthKey = [], fProfileName = ''work'' \<rparr>)"
proof -
  let ?c = "\<lparr> fControlURL = ''https://hs.example'', fAuthKey = ''k'', fProfileName = ''work'' \<rparr>"
  obtain path where p: "ConfigFilePath ok_env ''work'' True = Inr path"
    by (simp add: ConfigFilePath_def IdentityDir_def BaseDir_def ok_env_def Let_def)
  obtain fs' where s: "Save ok_env Map.empty ?c = (B_OK, fs')"
    using p by (simp add: Save_def Let_def) (simp add: ok_env_def)
  have "Load ok_env fs' TSConfig (fProfileName ?c) = (B_OK, ?c\<lparr> fAuthKey := [] \<rparr>)"
    using config_save_load [of ?c ok_env Map.empty fs' path TSConfig] s p by (simp add: ok_env_def)
  then show ?thesis by (intro exI [of _ fs']) simp
qed

text \<open>
  A URL with two trailing slashes does not survive: \<open>SetControlURL\<close> strips only one, so
  the stored URL still ends in a slash, and loading it strips another.
\<close>

theorem double_slash_changes_on_reload:
  "\<exists>fs'. (let c = (SetControlURL TSConfig ''https://h//'')\<lparr> fProfileName := ''p'' \<rparr> in
     last (fControlURL c) = CHR ''/'' \<and> Save ok_env Map.empty c = (B_OK, fs')
   \<and> fControlURL (snd (Load ok_env fs' TSConfig ''p'')) \<noteq> fControlURL c)"
proof -
  let ?c = "(SetControlURL TSConfig ''https://h//'')\<lparr> fProfileName := ''p'' \<rparr>"
  have "fst (Save ok_env Map.empty ?c) = B_OK"
    by (simp add: Save_def ConfigFilePath_def IdentityDir_def BaseDir_def ok_env_def Let_def)
  moreover have "fControlURL ?c = ''https://h/''" by (simp add: SetControlURL_def)
  moreover have "fControlURL (snd (Load ok_env (snd (Save ok_env Map.empty ?c)) TSConfig ''p'')) = ''https://h''"
    by (simp add: Load_def Save_def ConfigFilePath_def IdentityDir_def BaseDir_def ok_env_def Let_def open_read_def SetControlURL_def)
  ultimately show ?thesis by (intro exI [of _ "snd (Save ok_env Map.empty ?c)"]) (auto simp: Let_def prod_eq_iff)
qed

end
