(* ===== verification/Huffman.thy ===== *)
theory Huffman
  imports CLib
begin

text \<open>
  The HPACK Huffman code of \<open>src/src/backend/tailscale/TSHpack.cpp\<close>: the two tables as they
  stand in the source and the bit-by-bit decoder.  The tables are checked to form a
  prefix-free code that does not clash with the all-ones padding; from that it follows that the
  decoder inverts the encoder of RFC 7541, Appendix B, on every byte string.
\<close>

definition kHuffCode :: "u32 list" where
  "kHuffCode = [
    0x1ff8, 0x7fffd8, 0xfffffe2, 0xfffffe3, 0xfffffe4, 0xfffffe5, 0xfffffe6, 0xfffffe7, 0xfffffe8,
    0xffffea, 0x3ffffffc, 0xfffffe9, 0xfffffea, 0x3ffffffd, 0xfffffeb, 0xfffffec, 0xfffffed, 0xfffffee,
    0xfffffef, 0xffffff0, 0xffffff1, 0xffffff2, 0x3ffffffe, 0xffffff3, 0xffffff4, 0xffffff5, 0xffffff6,
    0xffffff7, 0xffffff8, 0xffffff9, 0xffffffa, 0xffffffb, 0x14, 0x3f8, 0x3f9, 0xffa,
    0x1ff9, 0x15, 0xf8, 0x7fa, 0x3fa, 0x3fb, 0xf9, 0x7fb, 0xfa,
    0x16, 0x17, 0x18, 0x0, 0x1, 0x2, 0x19, 0x1a, 0x1b,
    0x1c, 0x1d, 0x1e, 0x1f, 0x5c, 0xfb, 0x7ffc, 0x20, 0xffb,
    0x3fc, 0x1ffa, 0x21, 0x5d, 0x5e, 0x5f, 0x60, 0x61, 0x62,
    0x63, 0x64, 0x65, 0x66, 0x67, 0x68, 0x69, 0x6a, 0x6b,
    0x6c, 0x6d, 0x6e, 0x6f, 0x70, 0x71, 0x72, 0xfc, 0x73,
    0xfd, 0x1ffb, 0x7fff0, 0x1ffc, 0x3ffc, 0x22, 0x7ffd, 0x3, 0x23,
    0x4, 0x24, 0x5, 0x25, 0x26, 0x27, 0x6, 0x74, 0x75,
    0x28, 0x29, 0x2a, 0x7, 0x2b, 0x76, 0x2c, 0x8, 0x9,
    0x2d, 0x77, 0x78, 0x79, 0x7a, 0x7b, 0x7ffe, 0x7fc, 0x3ffd,
    0x1ffd, 0xffffffc, 0xfffe6, 0x3fffd2, 0xfffe7, 0xfffe8, 0x3fffd3, 0x3fffd4, 0x3fffd5,
    0x7fffd9, 0x3fffd6, 0x7fffda, 0x7fffdb, 0x7fffdc, 0x7fffdd, 0x7fffde, 0xffffeb, 0x7fffdf,
    0xffffec, 0xffffed, 0x3fffd7, 0x7fffe0, 0xffffee, 0x7fffe1, 0x7fffe2, 0x7fffe3, 0x7fffe4,
    0x1fffdc, 0x3fffd8, 0x7fffe5, 0x3fffd9, 0x7fffe6, 0x7fffe7, 0xffffef, 0x3fffda, 0x1fffdd,
    0xfffe9, 0x3fffdb, 0x3fffdc, 0x7fffe8, 0x7fffe9, 0x1fffde, 0x7fffea, 0x3fffdd, 0x3fffde,
    0xfffff0, 0x1fffdf, 0x3fffdf, 0x7fffeb, 0x7fffec, 0x1fffe0, 0x1fffe1, 0x3fffe0, 0x1fffe2,
    0x7fffed, 0x3fffe1, 0x7fffee, 0x7fffef, 0xfffea, 0x3fffe2, 0x3fffe3, 0x3fffe4, 0x7ffff0,
    0x3fffe5, 0x3fffe6, 0x7ffff1, 0x3ffffe0, 0x3ffffe1, 0xfffeb, 0x7fff1, 0x3fffe7, 0x7ffff2,
    0x3fffe8, 0x1ffffec, 0x3ffffe2, 0x3ffffe3, 0x3ffffe4, 0x7ffffde, 0x7ffffdf, 0x3ffffe5, 0xfffff1,
    0x1ffffed, 0x7fff2, 0x1fffe3, 0x3ffffe6, 0x7ffffe0, 0x7ffffe1, 0x3ffffe7, 0x7ffffe2, 0xfffff2,
    0x1fffe4, 0x1fffe5, 0x3ffffe8, 0x3ffffe9, 0xffffffd, 0x7ffffe3, 0x7ffffe4, 0x7ffffe5, 0xfffec,
    0xfffff3, 0xfffed, 0x1fffe6, 0x3fffe9, 0x1fffe7, 0x1fffe8, 0x7ffff3, 0x3fffea, 0x3fffeb,
    0x1ffffee, 0x1ffffef, 0xfffff4, 0xfffff5, 0x3ffffea, 0x7ffff4, 0x3ffffeb, 0x7ffffe6, 0x3ffffec,
    0x3ffffed, 0x7ffffe7, 0x7ffffe8, 0x7ffffe9, 0x7ffffea, 0x7ffffeb, 0xffffffe, 0x7ffffec, 0x7ffffed,
    0x7ffffee, 0x7ffffef, 0x7fffff0, 0x3ffffee]"

definition kHuffLen :: "nat list" where
  "kHuffLen = [
    13, 23, 28, 28, 28, 28, 28, 28, 28, 24, 30, 28, 28, 30, 28, 28, 28, 28, 28, 28, 28, 28, 30, 28,
    28, 28, 28, 28, 28, 28, 28, 28, 6, 10, 10, 12, 13, 6, 8, 11, 10, 10, 8, 11, 8, 6, 6, 6,
    5, 5, 5, 6, 6, 6, 6, 6, 6, 6, 7, 8, 15, 6, 12, 10, 13, 6, 7, 7, 7, 7, 7, 7,
    7, 7, 7, 7, 7, 7, 7, 7, 7, 7, 7, 7, 7, 7, 7, 7, 8, 7, 8, 13, 19, 13, 14, 6,
    15, 5, 6, 5, 6, 5, 6, 6, 6, 5, 7, 7, 6, 6, 6, 5, 6, 7, 6, 5, 5, 6, 7, 7,
    7, 7, 7, 15, 11, 14, 13, 28, 20, 22, 20, 20, 22, 22, 22, 23, 22, 23, 23, 23, 23, 23, 24, 23,
    24, 24, 22, 23, 24, 23, 23, 23, 23, 21, 22, 23, 22, 23, 23, 24, 22, 21, 20, 22, 22, 23, 23, 21,
    23, 22, 22, 24, 21, 22, 23, 23, 21, 21, 22, 21, 23, 22, 23, 23, 20, 22, 22, 22, 23, 22, 22, 23,
    26, 26, 20, 19, 22, 23, 22, 25, 26, 26, 26, 27, 27, 26, 24, 25, 19, 21, 26, 27, 27, 26, 27, 24,
    21, 21, 26, 26, 28, 27, 27, 27, 20, 24, 20, 21, 22, 21, 21, 23, 22, 22, 25, 25, 24, 24, 26, 23,
    26, 27, 26, 26, 27, 27, 27, 27, 27, 28, 27, 27, 27, 27, 27, 26]"

text \<open>\<open>for (bit = 7; bit >= 0; bit--) (in[i] >> bit) & 1\<close>\<close>

definition byte_bits :: "u8 \<Rightarrow> bool list" where
  "byte_bits b = map (\<lambda>k. drop_bit k b AND 1 \<noteq> 0) (rev [0..<8])"

text \<open>The search loop over the 256 symbols.\<close>

definition find_sym :: "u32 \<Rightarrow> nat \<Rightarrow> nat option" where
  "find_sym acc accLen = find (\<lambda>s. kHuffLen ! s = accLen \<and> kHuffCode ! s = acc) [0..<256]"

definition push_acc :: "'a::len word \<Rightarrow> bool \<Rightarrow> 'a word" where
  "push_acc acc b = push_bit 1 acc OR (if b then 1 else 0)"

fun huff_bits :: "bool list \<Rightarrow> u32 \<Rightarrow> nat \<Rightarrow> string \<Rightarrow> (u32 \<times> nat \<times> string) option" where
  "huff_bits [] acc accLen out = Some (acc, accLen, out)"
| "huff_bits (b # bs) acc accLen out =
     (let acc = push_acc acc b; accLen = accLen + 1 in
      if accLen > 30 then None
      else case find_sym acc accLen of
        Some s \<Rightarrow> huff_bits bs 0 0 (out @ [char_of s])
      | None \<Rightarrow> huff_bits bs acc accLen out)"

definition huffman_decode :: "bytes \<Rightarrow> status + string" where
  "huffman_decode xs =
     (case huff_bits (concat (map byte_bits xs)) 0 0 [] of
        None \<Rightarrow> Inl B_BAD_DATA
      | Some (acc, accLen, out) \<Rightarrow>
          if accLen \<ge> 8 then Inl B_BAD_DATA
          else if accLen > 0 \<and> (let padMask = push_bit accLen 1 - 1 in acc AND padMask \<noteq> padMask) then Inl B_BAD_DATA
          else Inr out)"

subsection \<open>The code as bit strings\<close>

definition code_word :: "u32 \<Rightarrow> nat \<Rightarrow> bool list" where
  "code_word c l = map (bit c) (rev [0..<l])"

definition code_bits :: "nat \<Rightarrow> bool list" where
  "code_bits s = code_word (kHuffCode ! s) (kHuffLen ! s)"

definition huff_table :: "bool list list" where
  "huff_table = map2 code_word kHuffCode kHuffLen"

definition acc_of :: "bool list \<Rightarrow> 'a::len word" where
  "acc_of bs = foldl push_acc 0 bs"

lemma bit_push_acc:
  "n < LENGTH('a) \<Longrightarrow> bit (push_acc (a :: 'a::len word) b) n = (if n = 0 then b else bit a (n - 1))"
  unfolding push_acc_def bit_or_iff bit_push_bit_iff by (cases n) (auto simp: bit_1_iff)

lemma bit_acc_of: "n < LENGTH('a) \<Longrightarrow> bit (acc_of bs :: 'a::len word) n = (n < length bs \<and> rev bs ! n)"
proof (induction bs arbitrary: n rule: rev_induct)
  case (snoc b bs)
  then show ?case by (cases n) (auto simp: acc_of_def bit_push_acc)
qed (simp add: acc_of_def)

lemma acc_of_inj:
  assumes "(acc_of xs :: 'a::len word) = acc_of ys" "length xs = length ys" "length xs \<le> LENGTH('a)"
  shows "xs = ys"
proof -
  have "rev xs ! n = rev ys ! n" if "n < length xs" for n
    using that assms bit_acc_of [of n xs, where 'a = 'a] bit_acc_of [of n ys, where 'a = 'a] by auto
  then have "rev xs = rev ys" using assms(2) by (intro nth_equalityI) auto
  then show ?thesis by simp
qed

text \<open>The facts about the tables: prefix-free, of at most 30 bits, and no short all-ones word.\<close>

function prefix_free :: "bool list list \<Rightarrow> bool" where
  "prefix_free xs =
     (if length xs \<le> 1 then True
      else if [] \<in> set xs then False
      else prefix_free (map tl (filter hd xs)) \<and> prefix_free (map tl (filter (\<lambda>x. \<not> hd x) xs)))"
  by pat_completeness auto
termination
proof (relation "measure (\<lambda>xs. sum_list (map length xs))")
  have less: "sum_list (map length (map tl (filter P xs))) < sum_list (map length xs)"
    if "\<not> length xs \<le> 1" "[] \<notin> set xs" for xs :: "bool list list" and P
  proof -
    have "sum_list (map length (map tl (filter P ys))) + length ys \<le> sum_list (map length ys)"
      if "[] \<notin> set ys" for ys :: "bool list list"
      using that
    proof (induction ys)
      case (Cons y ys)
      then have "length (tl y) + 1 = length y" by (cases y) auto
      with Cons show ?case by (auto simp del: length_tl)
    qed simp
    from this [OF \<open>[] \<notin> set xs\<close>] show ?thesis using \<open>\<not> length xs \<le> 1\<close> by auto
  qed
  show "\<And>xs. \<not> length xs \<le> 1 \<Longrightarrow> [] \<notin> set xs \<Longrightarrow> (map tl (filter hd xs), xs) \<in> measure (\<lambda>xs. sum_list (map length xs))"
    "\<And>xs. \<not> length xs \<le> 1 \<Longrightarrow> [] \<notin> set xs \<Longrightarrow> (map tl (filter (\<lambda>x. \<not> hd x) xs), xs) \<in> measure (\<lambda>xs. sum_list (map length xs))"
    using less by auto
qed simp

declare prefix_free.simps [simp del]


lemma distinct_parts: "distinct (filter P xs) \<Longrightarrow> distinct (filter (\<lambda>x. \<not> P x) xs) \<Longrightarrow> distinct xs"
  by (induction xs) (auto split: if_splits)

lemma prefix_free_sound:
  "prefix_free xs \<Longrightarrow> distinct xs \<and> (\<forall>x\<in>set xs. \<forall>y\<in>set xs. \<forall>z. y = x @ z \<longrightarrow> z = [])"
proof (induction xs rule: prefix_free.induct)
  case (1 xs)
  show ?case
  proof (cases "length xs \<le> 1")
    case True
    then show ?thesis by (cases xs) auto
  next
    case False
    let ?T = "filter hd xs" and ?F = "filter (\<lambda>x. \<not> hd x) xs"
    have ne: "[] \<notin> set xs" and pf: "prefix_free (map tl ?T)" "prefix_free (map tl ?F)"
      using "1.prems" False by (subst (asm) prefix_free.simps, simp split: if_splits)+
    have T: "distinct (map tl ?T)" "\<forall>x\<in>set (map tl ?T). \<forall>y\<in>set (map tl ?T). \<forall>z. y = x @ z \<longrightarrow> z = []"
      using "1.IH"(1) [OF False ne pf(1)] by auto
    have F: "distinct (map tl ?F)" "\<forall>x\<in>set (map tl ?F). \<forall>y\<in>set (map tl ?F). \<forall>z. y = x @ z \<longrightarrow> z = []"
      using "1.IH"(2) [OF False ne pf(2)] by auto
    have "distinct ?T" "distinct ?F" using T(1) F(1) unfolding distinct_map by blast+
    then have "distinct xs" by (rule distinct_parts)
    moreover have "z = []" if "x \<in> set xs" "y \<in> set xs" "y = x @ z" for x y z
    proof -
      have "x \<noteq> []" using that ne by auto
      then have "hd y = hd x" "tl y = tl x @ z" using that by auto
      moreover have "tl x \<in> set (map tl ?T) \<and> tl y \<in> set (map tl ?T)" if "hd x"
        using that \<open>hd y = hd x\<close> \<open>x \<in> set xs\<close> \<open>y \<in> set xs\<close> by simp
      moreover have "tl x \<in> set (map tl ?F) \<and> tl y \<in> set (map tl ?F)" if "\<not> hd x"
        using that \<open>hd y = hd x\<close> \<open>x \<in> set xs\<close> \<open>y \<in> set xs\<close> by simp
      ultimately show ?thesis using T(2) F(2) by blast
    qed
    ultimately show ?thesis by blast
  qed
qed

text \<open>The bit strings once more, computed on integers for the check of the tables.\<close>

fun int_bits :: "nat \<Rightarrow> int \<Rightarrow> bool list \<Rightarrow> bool list" where
  "int_bits 0 n acc = acc"
| "int_bits (Suc l) n acc = int_bits l (n div 2) (odd n # acc)"

lemma int_bits_map: "int_bits l n acc = map (bit n) (rev [0..<l]) @ acc"
proof (induction l arbitrary: n acc)
  case (Suc l)
  have "map (bit (n div 2)) (rev [0..<l]) @ [odd n] = map (bit n) (rev (map Suc [0..<l]) @ [0])"
    by (simp add: rev_map bit_Suc comp_def bit_0)
  also have "rev (map Suc [0..<l]) @ [0] = rev [0..<Suc l]"
    using map_Suc_upt [of 0 l] upt_conv_Cons [of 0 "Suc l"] by (simp del: upt_Suc)
  finally show ?case using Suc by simp
qed simp

lemma code_word_int_bits: "code_word c l = int_bits l (uint c) []"
  by (auto simp: code_word_def int_bits_map bit_uint_iff dest: bit_imp_le_length)

definition huff_int_table :: "bool list list" where
  "huff_int_table = map2 (\<lambda>c l. int_bits l (uint c) []) kHuffCode kHuffLen"

lemma huff_table_int: "huff_table = huff_int_table"
  by (simp add: huff_table_def huff_int_table_def code_word_int_bits)

lemma huff_prefix_free: "prefix_free huff_table"
  unfolding huff_table_int by code_simp

lemma huff_words: "list_all (\<lambda>c. length c \<le> 30 \<and> c \<noteq> [] \<and> (8 \<le> length c \<or> \<not> list_all id c)) huff_table"
  unfolding huff_table_int by code_simp

lemma huff_fits: "list_all2 (\<lambda>c l. uint c < 2 ^ l) kHuffCode kHuffLen"
  by code_simp

lemma length_tables [simp]: "length kHuffCode = 256" "length kHuffLen = 256"
  by (simp_all add: kHuffCode_def kHuffLen_def)

lemma huff_table_nth: "s < 256 \<Longrightarrow> huff_table ! s = code_bits s"
  by (simp add: huff_table_def code_bits_def)

lemma length_huff_table [simp]: "length huff_table = 256"
  by (simp add: huff_table_def)

lemma code_bits_facts:
  assumes "s < 256"
  shows "length (code_bits s) = kHuffLen ! s" "length (code_bits s) \<le> 30" "code_bits s \<noteq> []"
    "length (code_bits s) < 8 \<Longrightarrow> \<not> list_all id (code_bits s)" "acc_of (code_bits s) = kHuffCode ! s"
proof -
  show l: "length (code_bits s) = kHuffLen ! s" by (simp add: code_bits_def code_word_def)
  have w: "length (huff_table ! s) \<le> 30 \<and> huff_table ! s \<noteq> [] \<and> (8 \<le> length (huff_table ! s) \<or> \<not> list_all id (huff_table ! s))"
    using huff_words assms by (auto simp: list_all_length)
  then show "length (code_bits s) \<le> 30" "code_bits s \<noteq> []" "length (code_bits s) < 8 \<Longrightarrow> \<not> list_all id (code_bits s)"
    using assms by (auto simp: huff_table_nth)
  have fit: "uint (kHuffCode ! s) < 2 ^ (kHuffLen ! s)" using huff_fits assms by (simp add: list_all2_conv_all_nth)
  show "acc_of (code_bits s) = kHuffCode ! s"
  proof (rule bit_word_eqI)
    fix n assume n: "n < LENGTH(32)"
    have "\<not> bit (kHuffCode ! s) n" if "kHuffLen ! s \<le> n"
    proof -
      have "(2 :: int) ^ (kHuffLen ! s) \<le> 2 ^ n" using that by simp
      then have "uint (kHuffCode ! s) < 2 ^ n" using fit by linarith
      then have "take_bit n (uint (kHuffCode ! s)) = uint (kHuffCode ! s)" by (simp add: take_bit_int_eq_self_iff)
      then have "\<not> bit (uint (kHuffCode ! s)) n" by (metis bit_take_bit_iff less_irrefl)
      then show ?thesis using n by (simp add: bit_uint_iff)
    qed
    then show "bit (acc_of (code_bits s) :: u32) n = bit (kHuffCode ! s) n"
      using n l bit_acc_of [OF n, of "code_bits s"] 
      by (cases "kHuffLen ! s \<le> n") (auto simp: code_bits_def code_word_def rev_map)
  qed
qed

lemma code_bits_inj: "s < 256 \<Longrightarrow> t < 256 \<Longrightarrow> code_bits s = code_bits t \<Longrightarrow> s = t"
  using prefix_free_sound [OF huff_prefix_free] nth_eq_iff_index_eq [of huff_table s t] by (simp add: huff_table_nth)

lemma code_bits_prefix: "s < 256 \<Longrightarrow> t < 256 \<Longrightarrow> code_bits s = code_bits t @ z \<Longrightarrow> z = []"
  using prefix_free_sound [OF huff_prefix_free] nth_mem [of s huff_table] nth_mem [of t huff_table]
  by (metis huff_table_nth length_huff_table)

subsection \<open>Decoding a code word\<close>

lemma find_sym_Some:
  assumes "length p \<le> 30" "find_sym (acc_of p) (length p) = Some t"
  shows "t < 256 \<and> code_bits t = p"
proof -
  have t: "t < 256" "kHuffLen ! t = length p" "kHuffCode ! t = acc_of p"
    using assms(2) by (auto simp: find_sym_def find_Some_iff)
  then have "code_bits t = p" using code_bits_facts(1,5) [OF t(1)] assms(1) by (intro acc_of_inj) auto
  with t(1) show ?thesis by simp
qed

lemma find_sym_code:
  assumes "s < 256" shows "find_sym (acc_of (code_bits s)) (length (code_bits s)) = Some s"
proof -
  have "find_sym (acc_of (code_bits s)) (length (code_bits s)) \<noteq> None"
    using assms code_bits_facts(1,5) [OF assms] by (auto simp: find_sym_def find_None_iff)
  then obtain t where t: "find_sym (acc_of (code_bits s)) (length (code_bits s)) = Some t" by blast
  then have "t < 256" "code_bits t = code_bits s" using find_sym_Some [OF code_bits_facts(2) [OF assms] t] by blast+
  then show ?thesis using t code_bits_inj assms by blast
qed

lemma find_sym_proper:
  assumes "s < 256" "code_bits s = p @ z" "z \<noteq> []"
  shows "find_sym (acc_of p) (length p) = None"
proof (rule ccontr)
  assume "find_sym (acc_of p) (length p) \<noteq> None"
  then obtain t where t: "find_sym (acc_of p) (length p) = Some t" by auto
  have "length p \<le> 30" using code_bits_facts(2) [OF assms(1)] assms(2) by simp
  then have "t < 256" "code_bits t = p" using find_sym_Some t by auto
  then show False using code_bits_prefix [OF assms(1)] assms(2,3) by metis
qed

lemma acc_of_snoc: "push_acc (acc_of p) b = acc_of (p @ [b])"
  by (simp add: acc_of_def)

lemma huff_code_word:
  assumes "s < 256" "code_bits s = p @ z" "z \<noteq> []"
  shows "huff_bits (z @ rest) (acc_of p) (length p) out = huff_bits rest 0 0 (out @ [char_of s])"
  using assms(2,3)
proof (induction z arbitrary: p)
  case (Cons b z)
  have len: "Suc (length p) \<le> 30" using code_bits_facts(2) [OF assms(1)] Cons.prems(1) by simp
  show ?case
  proof (cases "z = []")
    case True
    then have "code_bits s = p @ [b]" using Cons.prems by simp
    then have "find_sym (push_acc (acc_of p) b) (Suc (length p)) = Some s"
      using find_sym_code [OF assms(1)] by (simp add: acc_of_snoc)
    then show ?thesis using True len by (simp add: Let_def)
  next
    case False
    then have "find_sym (push_acc (acc_of p) b) (Suc (length p)) = None"
      using find_sym_proper [OF assms(1), of "p @ [b]" z] Cons.prems by (simp add: acc_of_snoc)
    then show ?thesis using Cons.IH [of "p @ [b]"] Cons.prems False len by (simp add: Let_def acc_of_snoc)
  qed
qed simp

lemma huff_symbols:
  "list_all (\<lambda>s. s < 256) syms \<Longrightarrow>
   huff_bits (concat (map code_bits syms) @ rest) 0 0 out = huff_bits rest 0 0 (out @ map char_of syms)"
proof (induction syms arbitrary: out)
  case (Cons s syms)
  then have "s < 256" by simp
  then have "huff_bits (code_bits s @ concat (map code_bits syms) @ rest) (acc_of []) (length ([] :: bool list)) out
      = huff_bits (concat (map code_bits syms) @ rest) 0 0 (out @ [char_of s])"
    by (rule huff_code_word) (use code_bits_facts(3) \<open>s < 256\<close> in auto)
  then show ?case using Cons by (simp add: acc_of_def)
qed simp

lemma huff_padding:
  assumes "n + k < 8"
  shows "huff_bits (replicate n True) (acc_of (replicate k True)) k out = Some (acc_of (replicate (k + n) True), k + n, out)"
  using assms
proof (induction n arbitrary: k)
  case (Suc n)
  have rep: "push_acc (acc_of (replicate k True)) True = (acc_of (replicate (Suc k) True) :: u32)"
    by (simp only: acc_of_snoc) (simp add: replicate_append_same)
  have "find_sym (acc_of (replicate (Suc k) True)) (length (replicate (Suc k) True)) = None"
  proof (rule ccontr)
    assume "find_sym (acc_of (replicate (Suc k) True)) (length (replicate (Suc k) True)) \<noteq> None"
    then obtain t where "t < 256" "code_bits t = replicate (Suc k) True"
      using find_sym_Some [of "replicate (Suc k) True"] Suc.prems by auto
    then show False using code_bits_facts(4) [of t] Suc.prems by (auto simp: list_all_iff)
  qed
  then have "huff_bits (replicate (Suc n) True) (acc_of (replicate k True)) k out =
      huff_bits (replicate n True) (acc_of (replicate (Suc k) True)) (Suc k) out"
    using Suc.prems by (simp only: replicate_Suc [of n] huff_bits.simps rep Let_def) simp
  then show ?case using Suc.IH [of "Suc k"] Suc.prems by simp
qed simp

subsection \<open>The reference encoder and the round trip\<close>

text \<open>Packing bits into bytes, most significant first, the last byte filled with ones.\<close>

function pack_bits :: "bool list \<Rightarrow> bytes" where
  "pack_bits bs =
     (if bs = [] then []
      else acc_of (take 8 (bs @ replicate 7 True)) # pack_bits (drop 8 bs))"
  by pat_completeness auto
termination
  by (relation "measure length") auto

declare pack_bits.simps [simp del]

definition huff_encode :: "string \<Rightarrow> bytes" where
  "huff_encode s = pack_bits (concat (map (\<lambda>c. code_bits (of_char c)) s))"

lemma byte_bits_inverse: "length bs = 8 \<Longrightarrow> byte_bits (acc_of bs) = bs"
proof -
  assume len: "length bs = 8"
  have bit: "(drop_bit k b AND 1 \<noteq> 0) = bit b k" for b :: u8 and k
    by (simp add: bit_iff_odd_drop_bit and_one_eq odd_iff_mod_2_eq_one)
  have "byte_bits (acc_of bs) = rev (map (bit (acc_of bs :: u8)) [0..<8])"
    by (simp only: byte_bits_def bit rev_map)
  also have "map (bit (acc_of bs :: u8)) [0..<8] = map ((!) (rev bs)) [0..<length (rev bs)]"
    using len by (intro map_cong) (auto simp: bit_acc_of)
  finally show ?thesis by (simp only: map_nth rev_rev_ident)
qed

lemma pack_bits_bits: "\<exists>n < 8. concat (map byte_bits (pack_bits bs)) = bs @ replicate n True"
proof (induction bs rule: pack_bits.induct)
  case (1 bs)
  show ?case
  proof (cases "length bs \<ge> 8")
    case True
    then have "bs \<noteq> []" by auto
    then obtain n where n: "n < 8" "concat (map byte_bits (pack_bits (drop 8 bs))) = drop 8 bs @ replicate n True"
      using 1 by blast
    have "byte_bits (acc_of (take 8 (bs @ replicate 7 True))) = take 8 bs"
      using byte_bits_inverse [of "take 8 bs"] True by simp
    then have "concat (map byte_bits (pack_bits bs)) = take 8 bs @ drop 8 bs @ replicate n True"
      using n \<open>bs \<noteq> []\<close> by (subst pack_bits.simps) simp
    then show ?thesis using n(1) by auto
  next
    case False
    show ?thesis
    proof (cases "bs = []")
      case True
      then show ?thesis by (simp add: pack_bits.simps)
    next
      case ne: False
      then have "take 8 (bs @ replicate 7 True) = bs @ replicate (8 - length bs) True"
        using False by (cases bs) auto
      then have "concat (map byte_bits (pack_bits bs)) = bs @ replicate (8 - length bs) True"
        using ne False byte_bits_inverse [of "bs @ replicate (8 - length bs) True"]
        by (subst pack_bits.simps) (simp add: pack_bits.simps [of "[]"])
      moreover have "8 - length bs < 8" using ne by simp
      ultimately show ?thesis by blast
    qed
  qed
qed

text \<open>
  Huffman round trip: the decoder gives back every byte string that was encoded with the
  code of the tables and padded with ones as RFC 7541 prescribes; in particular the tables
  form a prefix-free code.
\<close>

theorem huffman_roundtrip: "huffman_decode (huff_encode s) = Inr s"
proof -
  let ?syms = "map (\<lambda>c. of_char c :: nat) s"
  obtain n where n: "n < 8" "concat (map byte_bits (huff_encode s)) = concat (map code_bits ?syms) @ replicate n True"
    using pack_bits_bits [of "concat (map (\<lambda>c. code_bits (of_char c)) s)"] by (auto simp: huff_encode_def comp_def)
  have "list_all (\<lambda>s. s < 256) ?syms" by (simp add: list_all_iff)
  then have "huff_bits (concat (map byte_bits (huff_encode s))) 0 0 [] = huff_bits (replicate n True) 0 0 s"
    using huff_symbols [of ?syms "replicate n True" "[]"] n(2) by (simp add: comp_def)
  also have "\<dots> = Some (acc_of (replicate n True), n, s)" using huff_padding [of n 0 s] n(1) by (simp add: acc_of_def)
  finally have r: "huff_bits (concat (map byte_bits (huff_encode s))) 0 0 [] = Some (acc_of (replicate n True), n, s)" .
  have "(acc_of (replicate n True) :: u32) = mask n"
    by (rule bit_word_eqI) (auto simp: bit_acc_of bit_simps)
  then have "(acc_of (replicate n True) :: u32) AND (push_bit n 1 - 1) = push_bit n 1 - 1" by (simp add: mask_eq_exp_minus_1 push_bit_eq_mult)
  then show ?thesis using r n(1) by (simp add: huffman_decode_def Let_def)
qed

end
