(* ===== verification/Hpack.thy ===== *)
theory Hpack
  imports Huffman
begin

text \<open>
  HPACK (\<open>src/src/backend/tailscale/TSHpack.cpp\<close>): the static table, the integer and string
  codecs, the decoder with its dynamic table and the encoder.  A read position in a buffer is
  the unread rest of the buffer; a decoding function returns the value and the rest.  A
  \<open>BString\<close> set from a buffer ends at the first NUL (\<open>BString::SetTo\<close>), hence \<open>c_str\<close>.

  Results: what the encoder emits for any list of headers is decoded to that list without
  touching the dynamic table, and on every input, well-formed or not, the decoder keeps the
  size of the dynamic table equal to the sum of its entries and within its bound.
\<close>

record hpack_header =
  name :: string
  val :: string

definition kStatic :: "(string \<times> string) list" where
  "kStatic = [
    ('''', ''''),
    ('':authority'', ''''),
    ('':method'', ''GET''),
    ('':method'', ''POST''),
    ('':path'', ''/''),
    ('':path'', ''/index.html''),
    ('':scheme'', ''http''),
    ('':scheme'', ''https''),
    ('':status'', ''200''),
    ('':status'', ''204''),
    ('':status'', ''206''),
    ('':status'', ''304''),
    ('':status'', ''400''),
    ('':status'', ''404''),
    ('':status'', ''500''),
    (''accept-charset'', ''''),
    (''accept-encoding'', ''gzip, deflate''),
    (''accept-language'', ''''),
    (''accept-ranges'', ''''),
    (''accept'', ''''),
    (''access-control-allow-origin'', ''''),
    (''age'', ''''),
    (''allow'', ''''),
    (''authorization'', ''''),
    (''cache-control'', ''''),
    (''content-disposition'', ''''),
    (''content-encoding'', ''''),
    (''content-language'', ''''),
    (''content-length'', ''''),
    (''content-location'', ''''),
    (''content-range'', ''''),
    (''content-type'', ''''),
    (''cookie'', ''''),
    (''date'', ''''),
    (''etag'', ''''),
    (''expect'', ''''),
    (''expires'', ''''),
    (''from'', ''''),
    (''host'', ''''),
    (''if-match'', ''''),
    (''if-modified-since'', ''''),
    (''if-none-match'', ''''),
    (''if-range'', ''''),
    (''if-unmodified-since'', ''''),
    (''last-modified'', ''''),
    (''link'', ''''),
    (''location'', ''''),
    (''max-forwards'', ''''),
    (''proxy-authenticate'', ''''),
    (''proxy-authorization'', ''''),
    (''range'', ''''),
    (''referer'', ''''),
    (''refresh'', ''''),
    (''retry-after'', ''''),
    (''server'', ''''),
    (''set-cookie'', ''''),
    (''strict-transport-security'', ''''),
    (''transfer-encoding'', ''''),
    (''user-agent'', ''''),
    (''vary'', ''''),
    (''via'', ''''),
    (''www-authenticate'', '''')]"

definition kStaticCount :: u32 where "kStaticCount = 61"

subsection \<open>Decoder\<close>

record hpack_decoder =
  fDynamic :: "hpack_header list"
  fDynamicSize :: nat
  fMaxDynamicSize :: nat

definition HpackDecoder :: hpack_decoder where
  "HpackDecoder = \<lparr> fDynamic = [], fDynamicSize = 0, fMaxDynamicSize = 4096 \<rparr>"

definition entry_size :: "hpack_header \<Rightarrow> nat" where
  "entry_size h = length (name h) + length (val h) + 32"

text \<open>The loop of \<open>_Evict\<close>; the newest entry is at the front.\<close>

function evict_loop :: "hpack_header list \<Rightarrow> nat \<Rightarrow> nat \<Rightarrow> hpack_header list \<times> nat" where
  "evict_loop dyn sz maxSize =
     (if sz > maxSize \<and> dyn \<noteq> []
      then evict_loop (butlast dyn) (sz - entry_size (last dyn)) maxSize
      else (dyn, sz))"
  by pat_completeness auto
termination
  by (relation "measure (\<lambda>(dyn, sz, maxSize). length dyn)") auto

declare evict_loop.simps [simp del]

definition Evict :: "hpack_decoder \<Rightarrow> hpack_decoder" where
  "Evict d =
     (case evict_loop (fDynamic d) (fDynamicSize d) (fMaxDynamicSize d) of (dyn, sz) \<Rightarrow>
        d\<lparr> fDynamic := dyn, fDynamicSize := sz \<rparr>)"

definition SetMaxDynamicSize :: "hpack_decoder \<Rightarrow> nat \<Rightarrow> hpack_decoder" where
  "SetMaxDynamicSize d maxSize = Evict (d\<lparr> fMaxDynamicSize := maxSize \<rparr>)"

definition AddDynamic :: "hpack_decoder \<Rightarrow> hpack_header \<Rightarrow> hpack_decoder" where
  "AddDynamic d h = Evict (d\<lparr> fDynamic := h # fDynamic d, fDynamicSize := fDynamicSize d + entry_size h \<rparr>)"

fun decode_cont :: "bytes \<Rightarrow> u32 \<Rightarrow> nat \<Rightarrow> (u32 \<times> bytes) option" where
  "decode_cont [] v shift = None"
| "decode_cont (b # bs) v shift =
     (let v = v + push_bit shift (ucast (b AND 0x7F)) in
      if b AND 0x80 = 0 then Some (v, bs)
      else let shift = shift + 7 in if shift > 28 then None else decode_cont bs v shift)"

fun DecodeInteger :: "bytes \<Rightarrow> nat \<Rightarrow> (u32 \<times> bytes) option" where
  "DecodeInteger [] prefixBits = None"
| "DecodeInteger (b # bs) prefixBits =
     (let m = push_bit prefixBits 1 - 1; v = ucast b AND m in
      if v < m then Some (v, bs) else decode_cont bs v 0)"

definition DecodeString :: "bytes \<Rightarrow> status + string \<times> bytes" where
  "DecodeString buf =
     (if buf = [] then Inl B_BAD_DATA
      else let huffman = hd buf AND 0x80 \<noteq> 0 in
        case DecodeInteger buf 7 of None \<Rightarrow> Inl B_BAD_DATA
        | Some (strLen, rest) \<Rightarrow>
            if unat strLen > length rest then Inl B_BAD_DATA
            else if huffman then
              (case huffman_decode (take (unat strLen) rest) of
                 Inl r \<Rightarrow> Inl r | Inr s \<Rightarrow> Inr (s, drop (unat strLen) rest))
            else Inr (c_str (map chr_of_byte (take (unat strLen) rest)), drop (unat strLen) rest))"

definition Lookup :: "hpack_decoder \<Rightarrow> u32 \<Rightarrow> hpack_header option" where
  "Lookup d index =
     (if index = 0 then None
      else if index \<le> kStaticCount then (case kStatic ! unat index of (n, v) \<Rightarrow> Some \<lparr> name = n, val = v \<rparr>)
      else let dynIndex = index - kStaticCount - 1 in
        if unat dynIndex \<ge> length (fDynamic d) then None else Some (fDynamic d ! unat dynIndex))"

text \<open>The name and value of a literal field: an indexed or a literal name, then a literal value.\<close>

definition decode_literal :: "hpack_decoder \<Rightarrow> bytes \<Rightarrow> nat \<Rightarrow> status + hpack_header \<times> bytes" where
  "decode_literal d buf prefixBits =
     (case DecodeInteger buf prefixBits of None \<Rightarrow> Inl B_BAD_DATA
      | Some (nameIndex, rest) \<Rightarrow>
          (case (if nameIndex \<noteq> 0
                 then (case Lookup d nameIndex of None \<Rightarrow> Inl B_BAD_DATA | Some named \<Rightarrow> Inr (name named, rest))
                 else DecodeString rest) of
             Inl r \<Rightarrow> Inl r
           | Inr (n, rest) \<Rightarrow>
               (case DecodeString rest of Inl r \<Rightarrow> Inl r
                | Inr (v, rest) \<Rightarrow> Inr (\<lparr> name = n, val = v \<rparr>, rest))))"

lemma decode_cont_shorter: "decode_cont bs v s = Some (x, rest) \<Longrightarrow> length rest < length bs"
proof (induction bs arbitrary: v s)
  case (Cons b bs)
  then show ?case by (fastforce simp: Let_def split: if_splits)
qed simp

lemma DecodeInteger_shorter: "DecodeInteger bs p = Some (x, rest) \<Longrightarrow> length rest < length bs"
  by (cases bs) (auto simp: Let_def split: if_splits dest!: decode_cont_shorter)

lemma DecodeString_shorter: "DecodeString bs = Inr (x, rest) \<Longrightarrow> length rest < length bs"
  by (auto simp: DecodeString_def Let_def split: if_splits option.splits sum.splits dest!: DecodeInteger_shorter)

lemma decode_literal_shorter: "decode_literal d bs p = Inr (h, rest) \<Longrightarrow> length rest < length bs"
  by (fastforce simp: decode_literal_def split: if_splits option.splits sum.splits
      dest!: DecodeInteger_shorter DecodeString_shorter)

text \<open>\<open>Decode\<close>: the headers appended to \<open>out\<close>; on an error those decoded before it.\<close>

function Decode :: "hpack_decoder \<Rightarrow> bytes \<Rightarrow> hpack_header list \<Rightarrow> status \<times> hpack_decoder \<times> hpack_header list" where
  "Decode d buf out =
     (if buf = [] then (B_OK, d, out)
      else let b = hd buf in
        if b AND 0x80 \<noteq> 0 then
          (case DecodeInteger buf 7 of None \<Rightarrow> (B_BAD_DATA, d, out)
           | Some (index, rest) \<Rightarrow>
               (case Lookup d index of None \<Rightarrow> (B_BAD_DATA, d, out)
                | Some h \<Rightarrow> Decode d rest (out @ [h])))
        else if b AND 0x40 \<noteq> 0 then
          (case decode_literal d buf 6 of Inl r \<Rightarrow> (r, d, out)
           | Inr (h, rest) \<Rightarrow> Decode (AddDynamic d h) rest (out @ [h]))
        else if b AND 0x20 \<noteq> 0 then
          (case DecodeInteger buf 5 of None \<Rightarrow> (B_BAD_DATA, d, out)
           | Some (newSize, rest) \<Rightarrow> Decode (SetMaxDynamicSize d (unat newSize)) rest out)
        else
          (case decode_literal d buf 4 of Inl r \<Rightarrow> (r, d, out)
           | Inr (h, rest) \<Rightarrow> Decode d rest (out @ [h])))"
  by pat_completeness auto
termination
  by (relation "measure (\<lambda>(d, buf, out). length buf)")
    (auto dest!: DecodeInteger_shorter decode_literal_shorter)

declare Decode.simps [simp del]

subsection \<open>Encoder\<close>

function encode_cont :: "u32 \<Rightarrow> bytes" where
  "encode_cont v = (if v \<ge> 128 then ucast ((v AND 0x7F) OR 0x80) # encode_cont (drop_bit 7 v) else [ucast v])"
  by pat_completeness auto
termination
proof (relation "measure unat")
  fix v :: u32 assume "128 \<le> v"
  then have "0 < unat v" by (simp add: word_le_nat_alt)
  then show "(drop_bit 7 v, v) \<in> measure unat" by (simp only: in_measure unat_drop_bit_div) simp
qed simp

declare encode_cont.simps [simp del]

definition EncodeInteger :: "nat \<Rightarrow> u8 \<Rightarrow> u32 \<Rightarrow> bytes" where
  "EncodeInteger prefixBits prefixMask v =
     (let m = push_bit prefixBits 1 - 1 in
      if v < m then [prefixMask OR ucast v]
      else (prefixMask OR ucast m) # encode_cont (v - m))"

definition EncodeRawString :: "string \<Rightarrow> bytes" where
  "EncodeRawString s = EncodeInteger 7 0x00 (of_nat (length s)) @ map byte_of_chr s"

text \<open>The search loop of \<open>AddHeader\<close> over the entries from index \<open>i\<close> on: full and name match.\<close>

fun static_search :: "(string \<times> string) list \<Rightarrow> nat \<Rightarrow> string \<Rightarrow> string \<Rightarrow> nat option \<Rightarrow> nat option \<times> nat option" where
  "static_search [] i n v nameMatch = (None, nameMatch)"
| "static_search ((sn, sv) # es) i n v nameMatch =
     (if sn \<noteq> n then static_search es (Suc i) n v nameMatch
      else let nameMatch = (case nameMatch of None \<Rightarrow> Some i | Some k \<Rightarrow> Some k) in
        if sv = v then (Some i, nameMatch) else static_search es (Suc i) n v nameMatch)"

definition AddHeader :: "string \<Rightarrow> string \<Rightarrow> bytes" where
  "AddHeader n v =
     (case static_search (tl kStatic) 1 n v None of
        (Some fullMatch, _) \<Rightarrow> EncodeInteger 7 0x80 (of_nat fullMatch)
      | (None, Some nameMatch) \<Rightarrow> EncodeInteger 4 0x00 (of_nat nameMatch) @ EncodeRawString v
      | (None, None) \<Rightarrow> 0x00 # EncodeRawString n @ EncodeRawString v)"

subsection \<open>Integers and strings\<close>

lemma split_7: "(v AND 0x7F) + push_bit 7 (drop_bit 7 v) = (v :: u32)"
proof -
  have "v AND 0x7F = take_bit 7 v" by (simp add: take_bit_eq_mask mask_eq_exp_minus_1)
  then show ?thesis using bits_ident [of 7 v] by (simp add: add.commute del: bits_ident)
qed

lemma bit_0x80: "bit (0x80 :: int) n \<longleftrightarrow> n = 7"
proof -
  have "(0x80 :: int) = 2 ^ 7" by simp
  then show ?thesis by (simp only: bit_exp_iff) auto
qed

lemma low_7_byte:
  "(ucast (ucast ((v AND 0x7F) OR 0x80 :: u32) AND 0x7F :: u8) :: u32) = v AND 0x7F"
  "ucast ((v AND 0x7F) OR 0x80 :: u32) AND (0x80 :: u8) \<noteq> 0"
proof -
  have m: "(0x7F :: u32) = mask 7" "(0x7F :: u8) = mask 7" by (simp_all add: mask_eq_exp_minus_1)
  show "(ucast (ucast ((v AND 0x7F) OR 0x80 :: u32) AND 0x7F :: u8) :: u32) = v AND 0x7F"
    unfolding m by (rule bit_word_eqI) (auto simp: bit_simps bit_0x80)
  have "bit (ucast ((v AND 0x7F) OR 0x80 :: u32) AND (0x80 :: u8)) 7"
    by (simp add: bit_simps bit_0x80)
  then show "ucast ((v AND 0x7F) OR 0x80 :: u32) AND (0x80 :: u8) \<noteq> 0" by force
qed

lemma small_byte:
  assumes "\<not> 128 \<le> (v :: u32)"
  shows "(ucast (ucast v AND 0x7F :: u8) :: u32) = v" "ucast v AND (0x80 :: u8) = 0"
proof -
  have lt: "unat v < 2 ^ 7" using assms by (simp add: word_le_nat_alt)
  then have "take_bit 7 v = v" by (intro unat_inj) (simp add: unat_take_bit_mod)
  then have b: "bit v n \<Longrightarrow> n < 7" for n by (metis bit_take_bit_iff)
  then have b8: "bit v n \<Longrightarrow> n < 8" for n by fastforce
  have m: "(0x7F :: u8) = mask 7" by (simp add: mask_eq_exp_minus_1)
  show "(ucast (ucast v AND 0x7F :: u8) :: u32) = v"
    unfolding m by (rule bit_word_eqI) (use b b8 in \<open>auto simp: bit_simps\<close>)
  show "ucast v AND (0x80 :: u8) = 0"
    by (rule bit_word_eqI) (use b in \<open>force simp: bit_simps bit_0x80\<close>)
qed

lemma decode_encode_cont:
  assumes "unat v < 2 ^ (32 - s)" "s \<in> {0, 7, 14, 21, 28}"
  shows "decode_cont (encode_cont v @ rest) acc s = Some (acc + push_bit s v, rest)"
  using assms
proof (induction v arbitrary: acc s rule: encode_cont.induct)
  case (1 v)
  show ?case
  proof (cases "128 \<le> v")
    case False
    then show ?thesis by (simp add: encode_cont.simps [of v] Let_def small_byte)
  next
    case True
    then have big: "128 \<le> unat v" by (simp add: word_le_nat_alt)
    have s: "s \<in> {0, 7, 14, 21}" using big "1.prems" by auto
    have "unat (drop_bit 7 v) < 2 ^ (32 - (s + 7))"
      using "1.prems"(1) s by (simp only: unat_drop_bit_div) (auto simp: less_mult_imp_div_less)
    moreover have "s + 7 \<in> {0, 7, 14, 21, 28}" using s by auto
    ultimately have rec: "decode_cont (encode_cont (drop_bit 7 v) @ rest) a (s + 7) = Some (a + push_bit (s + 7) (drop_bit 7 v), rest)" for a
      using "1.IH" [OF True] by blast
    have sum: "push_bit s (v AND 0x7F) + push_bit (s + 7) (drop_bit 7 v) = push_bit s v"
    proof -
      have "push_bit (s + 7) (drop_bit 7 v) = push_bit s (push_bit 7 (drop_bit 7 v))" by (simp only: push_bit_push_bit)
      then show ?thesis by (metis push_bit_add split_7)
    qed
    have "decode_cont (encode_cont v @ rest) acc s =
        decode_cont (encode_cont (drop_bit 7 v) @ rest) (acc + push_bit s (v AND 0x7F)) (s + 7)"
      using True s by (subst encode_cont.simps) (auto simp: Let_def low_7_byte)
    then show ?thesis using rec sum by (simp add: add.assoc)
  qed
qed

text \<open>A prefix of \<open>k\<close> bits whose flag bits do not overlap it.\<close>

lemma prefix_byte:
  assumes "k \<le> 8" "unat (v :: u32) < 2 ^ k" "\<And>i. i < k \<Longrightarrow> \<not> bit (pm :: u8) i"
  shows "ucast (pm OR ucast v) AND (push_bit k 1 - 1) = v"
proof -
  have "take_bit k v = v" using assms(2) by (intro unat_inj) (simp add: unat_take_bit_mod)
  then have b: "bit v n \<Longrightarrow> n < k" for n by (metis bit_take_bit_iff)
  have m: "push_bit k 1 - 1 = (mask k :: u32)" by (simp add: mask_eq_exp_minus_1 push_bit_eq_mult)
  show ?thesis unfolding m
    by (rule bit_word_eqI) (use b assms in \<open>force simp: bit_simps\<close>)
qed

lemma DecodeInteger_Encode:
  assumes "k \<in> {4, 5, 6, 7}" "\<And>i. i < k \<Longrightarrow> \<not> bit (pm :: u8) i"
  shows "DecodeInteger (EncodeInteger k pm v @ rest) k = Some (v, rest)"
proof -
  let ?m = "push_bit k 1 - 1 :: u32"
  have um: "unat ?m = 2 ^ k - 1" using assms(1) by auto
  show ?thesis
  proof (cases "v < ?m")
    case True
    then have "unat v < 2 ^ k" using um by (simp add: word_less_nat_alt)
    then have "ucast (pm OR ucast v) AND ?m = v" using assms by (intro prefix_byte) auto
    then show ?thesis using True by (simp add: EncodeInteger_def Let_def)
  next
    case False
    have "unat ?m < 2 ^ k" using um by simp
    then have "ucast (pm OR ucast ?m) AND ?m = ?m" using assms by (intro prefix_byte) auto
    moreover have "unat (v - ?m) < 2 ^ (32 - 0)" using unsigned_less [of "v - ?m", where ?'a = nat] by simp
    then have "decode_cont (encode_cont (v - ?m) @ rest) ?m 0 = Some (?m + push_bit 0 (v - ?m), rest)"
      by (rule decode_encode_cont) simp
    ultimately show ?thesis using False by (simp add: EncodeInteger_def Let_def)
  qed
qed

lemma EncodeInteger_flag: "hd (EncodeInteger 7 0 v) AND 0x80 = 0" "EncodeInteger k pm v \<noteq> []"
  "hd (EncodeInteger 7 0x80 v) AND 0x80 \<noteq> 0"
proof -
  show "EncodeInteger k pm v \<noteq> []" by (simp add: EncodeInteger_def Let_def)
  have "\<not> 128 \<le> v" if "v < 127" using that by (simp add: word_le_nat_alt word_less_nat_alt)
  then show "hd (EncodeInteger 7 0 v) AND 0x80 = 0" by (auto simp: EncodeInteger_def Let_def small_byte)
  have "(0x80 OR b) AND 0x80 \<noteq> (0 :: u8)" for b
  proof -
    have "bit ((0x80 OR b) AND 0x80) 7" by (simp add: bit_simps bit_0x80)
    then show ?thesis by force
  qed
  then show "hd (EncodeInteger 7 0x80 v) AND 0x80 \<noteq> 0" by (simp add: EncodeInteger_def Let_def)
qed

definition sendable_text :: "string \<Rightarrow> bool" where
  "sendable_text s \<longleftrightarrow> list_all (\<lambda>c. code c \<noteq> 0) s \<and> length s < 2 ^ 32"

lemma DecodeString_Encode:
  assumes "sendable_text s"
  shows "DecodeString (EncodeRawString s @ rest) = Inr (s, rest)"
proof -
  have int: "DecodeInteger (EncodeInteger 7 0 (of_nat (length s)) @ map byte_of_chr s @ rest) 7
      = Some (of_nat (length s), map byte_of_chr s @ rest)"
    by (rule DecodeInteger_Encode) auto
  have len: "unat (of_nat (length s) :: u32) = length s" using assms by (simp add: sendable_text_def unat_of_nat)
  have hd: "hd (EncodeInteger 7 0 (of_nat (length s)) @ map byte_of_chr s @ rest) AND 0x80 = 0"
    using EncodeInteger_flag(1,2) by simp
  have "map (chr_of_byte \<circ> byte_of_chr) s = s" by (simp add: map_idI)
  moreover have "c_str s = s" using assms by (simp add: sendable_text_def)
  ultimately show ?thesis
    unfolding EncodeRawString_def append_assoc DecodeString_def int using hd len EncodeInteger_flag(2) by (simp add: int)
qed

subsection \<open>Header round trip\<close>

text \<open>What the static search reports really is in the table.\<close>

lemma static_search_sound:
  assumes "static_search es i n v m = (f, nm)"
    and "\<And>j. j < length es \<Longrightarrow> tab ! (i + j) = es ! j" "\<And>k. m = Some k \<Longrightarrow> 1 \<le> k \<and> k < i \<and> fst (tab ! k) = n" "1 \<le> i"
  shows "(\<forall>k. f = Some k \<longrightarrow> 1 \<le> k \<and> k < i + length es \<and> tab ! k = (n, v))
       \<and> (\<forall>k. nm = Some k \<longrightarrow> 1 \<le> k \<and> k < i + length es \<and> fst (tab ! k) = n)"
  using assms
proof (induction es i n v m rule: static_search.induct)
  case (1 i n v m)
  then show ?case by auto
next
  case (2 sn sv es i n v m)
  have e: "tab ! i = (sn, sv)" using "2.prems"(2) [of 0] by simp
  have tl: "tab ! (Suc i + j) = es ! j" if "j < length es" for j
    using "2.prems"(2) [of "Suc j"] that by simp
  let ?m = "case m of None \<Rightarrow> Some i | Some k \<Rightarrow> Some k"
  have m: "1 \<le> k \<and> k < Suc i \<and> fst (tab ! k) = n" if "?m = Some k" "sn = n" for k
    using that "2.prems"(3,4) e by (cases m) (auto simp: less_Suc_eq)
  show ?case
  proof (cases "sn = n")
    case False
    then have "static_search es (Suc i) n v m = (f, nm)" using "2.prems"(1) by simp
    moreover have "1 \<le> k \<and> k < Suc i \<and> fst (tab ! k) = n" if "m = Some k" for k using "2.prems"(3) [OF that] by simp
    ultimately show ?thesis using "2.IH"(1) [OF False _ tl] by simp
  next
    case True
    show ?thesis
    proof (cases "sv = v")
      case vT: True
      then have "f = Some i" "nm = ?m" using "2.prems"(1) True by (auto simp: Let_def)
      moreover have "1 \<le> k \<and> k < i + length ((sn, sv) # es) \<and> fst (tab ! k) = n" if "nm = Some k" for k
        using m [of k] that \<open>nm = ?m\<close> True by auto
      ultimately show ?thesis using e True vT "2.prems"(4) by simp
    next
      case vF: False
      then have "static_search es (Suc i) n v ?m = (f, nm)" using "2.prems"(1) True by (simp add: Let_def)
      then have "(\<forall>k. f = Some k \<longrightarrow> 1 \<le> k \<and> k < Suc i + length es \<and> tab ! k = (n, v))
          \<and> (\<forall>k. nm = Some k \<longrightarrow> 1 \<le> k \<and> k < Suc i + length es \<and> fst (tab ! k) = n)"
      proof (intro "2.IH"(2) [OF _ refl vF])
        show "1 \<le> k \<and> k < Suc i \<and> fst (tab ! k) = n" if "?m = Some k" for k by (rule m [OF that True])
      qed (use True tl in auto)
      then show ?thesis by simp
    qed
  qed
qed

lemma length_kStatic: "length kStatic = 62"
  by (simp add: kStatic_def)

lemma search_kStatic:
  assumes "static_search (tl kStatic) 1 n v None = (f, nm)"
  shows "(\<forall>k. f = Some k \<longrightarrow> 1 \<le> k \<and> k < 62 \<and> kStatic ! k = (n, v))
       \<and> (\<forall>k. nm = Some k \<longrightarrow> 1 \<le> k \<and> k < 62 \<and> fst (kStatic ! k) = n)"
proof -
  have "kStatic ! (1 + j) = tl kStatic ! j" if "j < length (tl kStatic)" for j
    using that by (simp add: nth_tl)
  then show ?thesis using static_search_sound [OF assms, of kStatic] length_kStatic by auto
qed

lemma Lookup_static:
  assumes "1 \<le> k" "k < 62"
  shows "Lookup d (of_nat k) = Some \<lparr> name = fst (kStatic ! k), val = snd (kStatic ! k) \<rparr>" "(of_nat k :: u32) \<noteq> 0"
proof -
  have u: "unat (of_nat k :: u32) = k" using assms by (simp add: unat_of_nat)
  then show ne: "(of_nat k :: u32) \<noteq> 0" using assms by auto
  have "(of_nat k :: u32) \<le> 61" using u assms by (simp add: word_le_nat_alt)
  then show "Lookup d (of_nat k) = Some \<lparr> name = fst (kStatic ! k), val = snd (kStatic ! k) \<rparr>"
    using ne u by (simp add: Lookup_def kStaticCount_def split_beta)
qed

lemma literal_prefix:
  assumes "k < 62"
  shows "hd (EncodeInteger 4 0 (of_nat k)) AND 0x80 = 0" "hd (EncodeInteger 4 0 (of_nat k)) AND 0x40 = 0"
    "hd (EncodeInteger 4 0 (of_nat k)) AND 0x20 = 0"
proof -
  have "\<forall>j\<in>set [0..<62]. hd (EncodeInteger 4 0 (of_nat j)) AND 0x80 = 0 \<and> hd (EncodeInteger 4 0 (of_nat j)) AND 0x40 = 0
      \<and> hd (EncodeInteger 4 0 (of_nat j)) AND 0x20 = 0" by code_simp
  then show "hd (EncodeInteger 4 0 (of_nat k)) AND 0x80 = 0" "hd (EncodeInteger 4 0 (of_nat k)) AND 0x40 = 0"
    "hd (EncodeInteger 4 0 (of_nat k)) AND 0x20 = 0" using assms by auto
qed

lemma Decode_AddHeader:
  assumes "sendable_text n" "sendable_text v"
  shows "Decode d (AddHeader n v @ rest) out = Decode d rest (out @ [\<lparr> name = n, val = v \<rparr>])"
proof -
  obtain f nm where s: "static_search (tl kStatic) 1 n v None = (f, nm)" by force
  note found = search_kStatic [OF s]
  show ?thesis
  proof (cases f)
    case (Some k)
    then have k: "1 \<le> k" "k < 62" "kStatic ! k = (n, v)" using found by auto
    let ?e = "EncodeInteger 7 0x80 (of_nat k)"
    have "DecodeInteger (?e @ rest) 7 = Some (of_nat k, rest)" by (rule DecodeInteger_Encode) (auto simp: bit_0x80)
    then have "Decode d (?e @ rest) out = Decode d rest (out @ [\<lparr> name = n, val = v \<rparr>])"
      using Lookup_static(1) [OF k(1,2), of d] Lookup_static(2) [OF k(1,2)] k(3) EncodeInteger_flag(2,3)
      by (subst Decode.simps) (simp add: Let_def)
    then show ?thesis unfolding AddHeader_def s by (simp add: Some)
  next
    case f: None
    show ?thesis
    proof (cases nm)
      case (Some k)
      then have k: "1 \<le> k" "k < 62" "fst (kStatic ! k) = n" using found by auto
      let ?e = "EncodeInteger 4 0 (of_nat k)"
      have "DecodeInteger (?e @ EncodeRawString v @ rest) 4 = Some (of_nat k, EncodeRawString v @ rest)"
        by (rule DecodeInteger_Encode) auto
      then have "decode_literal d (?e @ EncodeRawString v @ rest) 4 = Inr (\<lparr> name = n, val = v \<rparr>, rest)"
        using Lookup_static(1) [OF k(1,2), of d] Lookup_static(2) [OF k(1,2)] k(3) DecodeString_Encode [OF assms(2)] by (simp add: decode_literal_def)
      then have "Decode d (?e @ EncodeRawString v @ rest) out = Decode d rest (out @ [\<lparr> name = n, val = v \<rparr>])"
        using literal_prefix [OF k(2)] EncodeInteger_flag(2) by (subst Decode.simps) (simp add: Let_def)
      then show ?thesis unfolding AddHeader_def s by (simp add: f Some)
    next
      case None
      let ?b = "0 # EncodeRawString n @ EncodeRawString v @ rest"
      have "DecodeInteger ?b 4 = Some (0, EncodeRawString n @ EncodeRawString v @ rest)" by simp
      then have "decode_literal d ?b 4 = Inr (\<lparr> name = n, val = v \<rparr>, rest)"
        using DecodeString_Encode [OF assms(1)] DecodeString_Encode [OF assms(2)] by (simp add: decode_literal_def)
      then have "Decode d ?b out = Decode d rest (out @ [\<lparr> name = n, val = v \<rparr>])"
        by (subst Decode.simps) (simp add: Let_def)
      then show ?thesis unfolding AddHeader_def s by (simp add: f None)
    qed
  qed
qed

text \<open>
  C35. Request headers survive HPACK: whatever list of headers is encoded (any NUL-free
  names and values), a decoder in any state decodes the block to exactly that list, in order,
  and its dynamic table is unchanged.
\<close>

theorem hpack_roundtrip:
  assumes "list_all (\<lambda>(n, v). sendable_text n \<and> sendable_text v) hs"
  shows "Decode d (concat (map (\<lambda>(n, v). AddHeader n v) hs)) out =
     (B_OK, d, out @ map (\<lambda>(n, v). \<lparr> name = n, val = v \<rparr>) hs)"
  using assms
proof (induction hs arbitrary: out)
  case Nil
  then show ?case by (simp add: Decode.simps)
next
  case (Cons h hs)
  then show ?case by (cases h) (simp add: Decode_AddHeader)
qed

theorem hpack_roundtrip_witness:
  "Decode HpackDecoder (AddHeader '':method'' ''POST'' @ AddHeader '':path'' ''/machine/register'' @ AddHeader ''x-a'' ''b'') []
     = (B_OK, HpackDecoder, [\<lparr> name = '':method'', val = ''POST'' \<rparr>, \<lparr> name = '':path'', val = ''/machine/register'' \<rparr>,
          \<lparr> name = ''x-a'', val = ''b'' \<rparr>])"
  using hpack_roundtrip [of "[('':method'', ''POST''), ('':path'', ''/machine/register''), (''x-a'', ''b'')]" HpackDecoder "[]"]
  by (simp add: sendable_text_def)

subsection \<open>The dynamic table\<close>

definition table_ok :: "hpack_decoder \<Rightarrow> bool" where
  "table_ok d \<longleftrightarrow> fDynamicSize d = sum_list (map entry_size (fDynamic d)) \<and> fDynamicSize d \<le> fMaxDynamicSize d"

lemma evict_loop_ok:
  assumes "evict_loop dyn sz m = (dyn', sz')" "sz = sum_list (map entry_size dyn)"
  shows "sz' = sum_list (map entry_size dyn') \<and> sz' \<le> m \<and> (\<exists>gone. dyn = dyn' @ gone)"
  using assms
proof (induction dyn sz m rule: evict_loop.induct)
  case (1 dyn sz m)
  show ?case
  proof (cases "sz > m \<and> dyn \<noteq> []")
    case True
    then obtain xs x where dyn: "dyn = xs @ [x]" by (cases dyn rule: rev_cases) auto
    then have "sum_list (map entry_size dyn) = sum_list (map entry_size (butlast dyn)) + entry_size (last dyn)"
      by simp
    moreover have "evict_loop (butlast dyn) (sz - entry_size (last dyn)) m = (dyn', sz')"
      using "1.prems"(1) True by (subst (asm) evict_loop.simps) simp
    ultimately have "sz' = sum_list (map entry_size dyn') \<and> sz' \<le> m \<and> (\<exists>gone. butlast dyn = dyn' @ gone)"
      using "1.IH" [OF True] "1.prems"(2) by simp
    then show ?thesis using dyn by auto
  next
    case False
    then show ?thesis using "1.prems" by (subst (asm) evict_loop.simps) (auto split: if_splits)
  qed
qed

lemma Evict_ok:
  "fDynamicSize d = sum_list (map entry_size (fDynamic d)) \<Longrightarrow>
   table_ok (Evict d) \<and> fMaxDynamicSize (Evict d) = fMaxDynamicSize d"
  using evict_loop_ok by (fastforce simp: Evict_def table_ok_def split: prod.splits)

lemma SetMaxDynamicSize_ok: "table_ok d \<Longrightarrow> table_ok (SetMaxDynamicSize d n)"
  using Evict_ok [of "d\<lparr> fMaxDynamicSize := n \<rparr>"] by (simp add: SetMaxDynamicSize_def table_ok_def)

lemma AddDynamic_ok: "table_ok d \<Longrightarrow> table_ok (AddDynamic d h)"
  using Evict_ok [of "d\<lparr> fDynamic := h # fDynamic d, fDynamicSize := fDynamicSize d + entry_size h \<rparr>"]
  by (simp add: AddDynamic_def table_ok_def add.commute)

text \<open>
  Bounded decoder memory: on every input, also a malformed one, the accounted size of the
  dynamic table stays the exact sum of its entries (plus 32 each) and never exceeds the
  current maximum.
\<close>

theorem hpack_table_bounded:
  assumes "table_ok d"
  shows "table_ok (fst (snd (Decode d buf out)))"
  using assms
proof (induction d buf out rule: Decode.induct)
  case (1 d buf out)
  show ?case
    by (subst Decode.simps)
      (use 1 SetMaxDynamicSize_ok AddDynamic_ok in \<open>auto simp: Let_def split: option.split sum.split prod.split\<close>)
qed

theorem hpack_table_bounded_witness: "table_ok (fst (snd (Decode HpackDecoder [0x40, 1, 97, 1, 98, 0x3F] [])))"
proof -
  have "table_ok HpackDecoder" by (simp add: table_ok_def HpackDecoder_def)
  then show ?thesis by (rule hpack_table_bounded)
qed

end
