(* ===== verification/TlsStream.thy ===== *)
theory TlsStream
  imports Soto_Prelude
begin

text \<open>
  The byte stream under the protocols: \<open>ts::TlsClient\<close> (\<open>src/src/backend/tailscale/TSTls.cpp\<close>)
  as its callers see it.  What \<open>SSL_read\<close> and \<open>SSL_write\<close> will do is a script of events: a
  read returns at most the requested number of bytes of the next piece of data, or reports
  the end of the stream (0), a receive timeout (-2) or an error (-1); a write may take only
  part of the buffer or fail.  An exhausted read script is a closed peer, an exhausted write
  script accepts everything.

  \<open>read_loop\<close> is the \<open>while (got < len)\<close> loop around \<open>Read\<close>; its correctness does not
  depend on how the network cut the data into pieces (\<open>read_loop_ok\<close>).
\<close>

datatype tls_event = Data bytes | Eof | Timeout | Failure

datatype tls_result = Got bytes | Closed | TimedOut | Failed

record tls =
  rx :: "tls_event list"
  tx :: bytes
  wr :: "int list"

fun tls_read :: "tls_event list \<Rightarrow> nat \<Rightarrow> tls_result \<times> tls_event list" where
  "tls_read [] n = (Closed, [])"
| "tls_read (Data xs # evs) n =
     (if xs = [] then (Closed, evs)
      else if length xs \<le> n then (Got xs, evs)
      else (Got (take n xs), Data (drop n xs) # evs))"
| "tls_read (Eof # evs) n = (Closed, evs)"
| "tls_read (Timeout # evs) n = (TimedOut, evs)"
| "tls_read (Failure # evs) n = (Failed, evs)"

text \<open>The number of bytes written, or \<open>None\<close> for a result \<open><= 0\<close>.\<close>

definition tls_write :: "tls \<Rightarrow> bytes \<Rightarrow> nat option \<times> tls" where
  "tls_write t buf =
     (case wr t of
        [] \<Rightarrow> (Some (length buf), t\<lparr> tx := tx t @ buf \<rparr>)
      | n # ns \<Rightarrow>
          if n \<le> 0 then (None, t\<lparr> wr := ns \<rparr>)
          else let k = min (nat n) (length buf)
               in (Some k, t\<lparr> wr := ns, tx := tx t @ take k buf \<rparr>))"

lemma tls_read_Got:
  "tls_read evs n = (Got xs, evs') \<Longrightarrow> 0 < n \<Longrightarrow> 0 < length xs \<and> length xs \<le> n"
  by (cases "(evs, n)" rule: tls_read.cases) (auto split: if_splits)

lemma tls_read_progress:
  assumes "(Got xs, evs') = tls_read evs (len - length got)" "length got < len"
  shows "len - (length got + length xs) < len - length got"
proof -
  have "0 < length xs" using tls_read_Got [of evs "len - length got" xs evs'] assms by auto
  then show ?thesis using assms(2) by (simp del: length_greater_0_conv)
qed

subsection \<open>Reading a fixed number of bytes\<close>

function read_loop :: "tls_event list \<Rightarrow> bytes \<Rightarrow> nat \<Rightarrow> status \<times> bytes \<times> tls_event list" where
  "read_loop evs got len =
     (if length got < len then
        (case tls_read evs (len - length got) of
           (TimedOut, evs') \<Rightarrow> (if got = [] then B_WOULD_BLOCK else B_IO_ERROR, got, evs')
         | (Closed, evs') \<Rightarrow> (if got = [] then B_ENTRY_NOT_FOUND else B_IO_ERROR, got, evs')
         | (Failed, evs') \<Rightarrow> (B_IO_ERROR, got, evs')
         | (Got xs, evs') \<Rightarrow> read_loop evs' (got @ xs) len)
      else (B_OK, got, evs))"
  by pat_completeness auto
termination
  by (relation "measure (\<lambda>(evs, got, len). len - length got)") (auto intro: tls_read_progress)

declare read_loop.simps [simp del]

text \<open>A script that only delivers data, and the bytes it delivers.\<close>

fun only_data :: "tls_event list \<Rightarrow> bool" where
  "only_data [] = True"
| "only_data (Data xs # evs) = (xs \<noteq> [] \<and> only_data evs)"
| "only_data (_ # evs) = False"

fun data_of :: "tls_event list \<Rightarrow> bytes" where
  "data_of [] = []"
| "data_of (Data xs # evs) = xs @ data_of evs"
| "data_of (_ # evs) = data_of evs"

lemma tls_read_data:
  assumes "only_data evs" "data_of evs \<noteq> []" "0 < n"
  shows "\<exists>xs evs'. tls_read evs n = (Got xs, evs') \<and> only_data evs' \<and> data_of evs = xs @ data_of evs'
           \<and> 0 < length xs \<and> length xs \<le> n"
proof -
  obtain ys evs0 where e: "evs = Data ys # evs0" using assms(1,2) by (cases evs rule: only_data.cases) auto
  show ?thesis
  proof (cases "length ys \<le> n")
    case True
    then show ?thesis using e assms(1) by auto
  next
    case False
    then have "tls_read evs n = (Got (take n ys), Data (drop n ys) # evs0)" using e assms(1) by auto
    moreover have "only_data (Data (drop n ys) # evs0)" "data_of evs = take n ys @ data_of (Data (drop n ys) # evs0)"
      using e assms(1) False by auto
    moreover have "0 < length (take n ys)" "length (take n ys) \<le> n" using assms(3) False by auto
    ultimately show ?thesis by blast
  qed
qed

lemma tls_read_append: "tls_read evs n = (Got xs, evs') \<Longrightarrow> tls_read (evs @ post) n = (Got xs, evs' @ post)"
  by (cases "(evs, n)" rule: tls_read.cases) (auto split: if_splits)

lemma only_data_append [simp]: "only_data (evs @ evs') \<longleftrightarrow> only_data evs \<and> only_data evs'"
  by (induction evs rule: only_data.induct) auto

lemma data_of_append [simp]: "data_of (evs @ evs') = data_of evs @ data_of evs'"
  by (induction evs rule: data_of.induct) auto

lemma read_loop_ok:
  assumes "only_data evs" "data_of evs = xs @ rest" "length got + length xs = len"
  shows "\<exists>evs'. read_loop evs got len = (B_OK, got @ xs, evs') \<and> only_data evs' \<and> data_of evs' = rest"
  using assms
proof (induction "length xs" arbitrary: evs got xs rule: less_induct)
  case less
  show ?case
  proof (cases "xs = []")
    case True
    then show ?thesis using less.prems by (simp add: read_loop.simps)
  next
    case False
    then have need: "0 < len - length got" "length got < len" using less.prems(3) by auto
    obtain ys evs1 where r: "tls_read evs (len - length got) = (Got ys, evs1)" "only_data evs1"
      "data_of evs = ys @ data_of evs1" "0 < length ys" "length ys \<le> len - length got"
      using tls_read_data [OF less.prems(1) _ need(1)] less.prems(2) False by auto
    have le: "length ys \<le> length xs" using r(5) less.prems(3) by simp
    have pre: "take (length ys) xs = ys" "data_of evs1 = drop (length ys) xs @ rest"
      using r(3) less.prems(2) le by (simp_all add: append_eq_append_conv_if split: if_splits)
    have "\<exists>evs'. read_loop evs1 (got @ ys) len = (B_OK, (got @ ys) @ drop (length ys) xs, evs') \<and> only_data evs' \<and> data_of evs' = rest"
      by (rule less.hyps) (use r pre le less.prems(3) False in auto)
    moreover have "(got @ ys) @ drop (length ys) xs = got @ xs" using pre(1) by (metis append.assoc append_take_drop_id)
    moreover have "read_loop evs got len = read_loop evs1 (got @ ys) len"
      using need r(1) by (subst read_loop.simps) simp
    ultimately show ?thesis by metis
  qed
qed

lemma read_loop_status:
  "read_loop evs got len = (st, out, evs') \<Longrightarrow> got \<noteq> [] \<Longrightarrow> st = B_OK \<or> st = B_IO_ERROR"
proof (induction evs got len rule: read_loop.induct)
  case (1 evs got len)
  show ?case
  proof (cases "length got < len")
    case True
    then show ?thesis using 1 by (auto simp: read_loop.simps [of evs got len] split: tls_result.splits prod.splits)
  next
    case False
    then show ?thesis using 1 by (simp add: read_loop.simps [of evs got len])
  qed
qed

subsection \<open>Writing a whole buffer\<close>

function write_loop :: "tls \<Rightarrow> bytes \<Rightarrow> status \<times> tls" where
  "write_loop t buf =
     (if buf \<noteq> [] then
        (case tls_write t buf of
           (None, t') \<Rightarrow> (B_IO_ERROR, t')
         | (Some n, t') \<Rightarrow> write_loop t' (drop n buf))
      else (B_OK, t))"
  by pat_completeness auto
termination
  by (relation "measure (\<lambda>(t, buf). length buf)")
    (auto simp: tls_write_def Let_def split: list.splits if_splits)

declare write_loop.simps [simp del]

text \<open>On success exactly the buffer was written, however the writes were split.\<close>

lemma write_loop_ok: "write_loop t buf = (B_OK, t') \<Longrightarrow> tx t' = tx t @ buf \<and> rx t' = rx t"
proof (induction t buf rule: write_loop.induct)
  case (1 t buf)
  show ?case
  proof (cases "buf = []")
    case True
    then show ?thesis using 1 by (simp add: write_loop.simps)
  next
    case False
    then obtain n t1 where w: "tls_write t buf = (Some n, t1)" "write_loop t1 (drop n buf) = (B_OK, t')"
      using "1.prems" by (subst (asm) write_loop.simps) (auto split: prod.splits option.splits)
    then have "tx t' = tx t1 @ drop n buf \<and> rx t' = rx t1" using "1.IH" [OF False] by auto
    moreover have "tx t1 = tx t @ take n buf \<and> rx t1 = rx t"
      using w(1) by (auto simp: tls_write_def Let_def split: list.splits if_splits)
    ultimately show ?thesis by simp
  qed
qed

text \<open>A write never touches what will be read, also when it fails.\<close>

lemma write_loop_rx: "rx (snd (write_loop t buf)) = rx t"
proof (induction t buf rule: write_loop.induct)
  case (1 t buf)
  have "rx (snd (tls_write t buf)) = rx t" by (auto simp: tls_write_def Let_def split: list.splits)
  then show ?case using 1 by (subst write_loop.simps) (auto split: prod.splits option.splits)
qed

lemma write_loop_accepting: "wr t = [] \<Longrightarrow> write_loop t buf = (B_OK, t\<lparr> tx := tx t @ buf \<rparr>)"
  by (cases "buf = []") (simp_all add: write_loop.simps [of t] write_loop.simps [of "t\<lparr> tx := x \<rparr>" for x] tls_write_def)

end
