(* ===== verification/ControlConn.thy ===== *)
theory ControlConn
  imports WGCrypto TlsStream
begin

text \<open>
  \<open>ts::ControlConn\<close> (\<open>src/src/backend/tailscale/TSControlConn.cpp\<close>): the encrypted record
  stream over TLS.  \<open>WriteMessage\<close> cuts a message into records of at most 4077 bytes of
  plaintext, \<open>ReadRecord\<close> reads one record after first draining the bytes that the handshake
  left in the pending buffer.

  The result is that the receiver reads back the message, however TLS cut the byte stream.
\<close>

definition kTagLen :: nat where "kTagLen = 16"
definition kMaxPlaintextPerRecord :: nat where "kMaxPlaintextPerRecord = 4077"
definition kRecordHeaderLen :: nat where "kRecordHeaderLen = 3"
definition CONTROL_MSG_RECORD :: u8 where "CONTROL_MSG_RECORD = 4"
definition kPendingCap :: nat where "kPendingCap = 8192"

definition build_nonce :: "u64 \<Rightarrow> bytes" where
  "build_nonce counter = replicate 4 0 @ map (\<lambda>i. ucast (drop_bit (8 * (7 - i)) counter)) [0..<8]"

definition aead_seal :: "openssl \<Rightarrow> bytes \<Rightarrow> u64 \<Rightarrow> bytes \<Rightarrow> bytes option" where
  "aead_seal os key counter plain =
     (case evp_seal os key (build_nonce counter) [] plain of None \<Rightarrow> None
      | Some (ct, tag) \<Rightarrow> Some (ct @ tag))"

definition aead_open :: "openssl \<Rightarrow> bytes \<Rightarrow> u64 \<Rightarrow> bytes \<Rightarrow> bytes option" where
  "aead_open os key counter cipher =
     (if length cipher < kTagLen then None
      else let plainLen = length cipher - kTagLen
           in evp_open os key (build_nonce counter) [] (take plainLen cipher) (drop plainLen cipher))"

record control_conn =
  fTls :: "tls option"
  fTxKey :: bytes
  fRxKey :: bytes
  fTxCounter :: u64
  fRxCounter :: u64
  fPending :: bytes
  fPendingLen :: nat
  fPendingOff :: nat

definition ControlConn :: control_conn where
  "ControlConn = \<lparr> fTls = None, fTxKey = replicate 32 0, fRxKey = replicate 32 0, fTxCounter = 0, fRxCounter = 0,
     fPending = replicate kPendingCap 0, fPendingLen = 0, fPendingOff = 0 \<rparr>"

text \<open>\<open>sendKey\<close> and \<open>recvKey\<close> are the two fields of the \<open>NoiseTransportKeys\<close> argument.\<close>

definition Init :: "control_conn \<Rightarrow> tls \<Rightarrow> bytes \<Rightarrow> bytes \<Rightarrow> bytes \<Rightarrow> control_conn" where
  "Init c t sendKey recvKey pending =
     (let c = c\<lparr> fTls := Some t, fTxKey := sendKey, fRxKey := recvKey, fTxCounter := 0, fRxCounter := 0,
                 fPendingLen := 0, fPendingOff := 0 \<rparr>
      in if length pending > 0 \<and> length pending \<le> kPendingCap
         then c\<lparr> fPending := pending @ drop (length pending) (fPending c), fPendingLen := length pending \<rparr>
         else c)"

subsection \<open>Writing\<close>

definition record_frame :: "bytes \<Rightarrow> bytes" where
  "record_frame cipher =
     [CONTROL_MSG_RECORD, of_nat (length cipher div 256), of_nat (length cipher mod 256)] @ cipher"

text \<open>The \<open>do ... while (remaining > 0)\<close> loop, for a bound stream \<open>t\<close>.\<close>

function write_records :: "openssl \<Rightarrow> bytes \<Rightarrow> u64 \<Rightarrow> tls \<Rightarrow> bytes \<Rightarrow> status \<times> u64 \<times> tls" where
  "write_records os key counter t p =
     (let chunk = (if length p < kMaxPlaintextPerRecord then length p else kMaxPlaintextPerRecord) in
      case aead_seal os key counter (take chunk p) of None \<Rightarrow> (B_ERROR, counter, t)
      | Some cipher \<Rightarrow>
          let counter = counter + 1 in
          (case write_loop t (record_frame cipher) of (st, t) \<Rightarrow>
             if st \<noteq> B_OK then (st, counter, t)
             else let rest = drop chunk p in
               if length rest > 0 then write_records os key counter t rest
               else (B_OK, counter, t)))"
  by pat_completeness auto
termination
  by (relation "measure (\<lambda>(os, key, counter, t, p). length p)") (auto simp: kMaxPlaintextPerRecord_def)

declare write_records.simps [simp del]

definition WriteMessage :: "openssl \<Rightarrow> control_conn \<Rightarrow> bytes \<Rightarrow> status \<times> control_conn" where
  "WriteMessage os c data =
     (case fTls c of None \<Rightarrow> (B_NO_INIT, c)
      | Some t \<Rightarrow>
          (case write_records os (fTxKey c) (fTxCounter c) t data of (st, counter, t) \<Rightarrow>
             (st, c\<lparr> fTls := Some t, fTxCounter := counter \<rparr>)))"

subsection \<open>Reading\<close>

text \<open>\<open>_ReadFull\<close> on a bound stream: first the pending bytes, then TLS.\<close>

definition ReadFull :: "control_conn \<Rightarrow> tls \<Rightarrow> nat \<Rightarrow> status \<times> bytes \<times> control_conn" where
  "ReadFull c t len =
     (let (got, c) =
        (if fPendingOff c < fPendingLen c
         then let avail = fPendingLen c - fPendingOff c; n = (if avail < len then avail else len)
              in (slice (fPendingOff c) n (fPending c), c\<lparr> fPendingOff := fPendingOff c + n \<rparr>)
         else ([], c))
      in case read_loop (rx t) got len of (st, out, evs) \<Rightarrow>
           (st, out, c\<lparr> fTls := Some (t\<lparr> rx := evs \<rparr>) \<rparr>))"

datatype record_result = Plain bytes | CleanEof | RetryTimeout | ReadError

definition ReadRecord :: "openssl \<Rightarrow> control_conn \<Rightarrow> nat \<Rightarrow> record_result \<times> control_conn" where
  "ReadRecord os c cap =
     (case fTls c of None \<Rightarrow> (ReadError, c)
      | Some t \<Rightarrow>
      case ReadFull c t kRecordHeaderLen of (result, header, c) \<Rightarrow>
      if result = B_ENTRY_NOT_FOUND then (CleanEof, c)
      else if result = B_WOULD_BLOCK then (RetryTimeout, c)
      else if result \<noteq> B_OK then (ReadError, c)
      else
      let cipherLen = 256 * unat (header ! 1) + unat (header ! 2) in
      if header ! 0 \<noteq> CONTROL_MSG_RECORD \<or> cipherLen < kTagLen then (ReadError, c)
      else if cipherLen - kTagLen > cap then (ReadError, c)
      else if cipherLen > kMaxPlaintextPerRecord + kTagLen then (ReadError, c)
      else case ReadFull c (the (fTls c)) cipherLen of (result, cipher, c) \<Rightarrow>
      if result \<noteq> B_OK then (ReadError, c)
      else case aead_open os (fRxKey c) (fRxCounter c) cipher of None \<Rightarrow> (ReadError, c)
      | Some buf \<Rightarrow> (Plain buf, c\<lparr> fRxCounter := fRxCounter c + 1 \<rparr>))"

subsection \<open>Stream equivalence\<close>

text \<open>The bytes a connection has still to read, when its stream only delivers data.\<close>

definition incoming :: "control_conn \<Rightarrow> bytes" where
  "incoming c = slice (fPendingOff c) (fPendingLen c - fPendingOff c) (fPending c)
     @ (case fTls c of None \<Rightarrow> [] | Some t \<Rightarrow> data_of (rx t))"

definition readable :: "control_conn \<Rightarrow> bool" where
  "readable c \<longleftrightarrow> fPendingOff c \<le> fPendingLen c \<and> fPendingLen c \<le> length (fPending c)
     \<and> (case fTls c of None \<Rightarrow> False | Some t \<Rightarrow> only_data (rx t))"

lemma ReadFull_ok:
  assumes "readable c" "fTls c = Some t" "incoming c = xs @ rest" "length xs = len"
  shows "\<exists>c'. ReadFull c t len = (B_OK, xs, c') \<and> readable c' \<and> incoming c' = rest
     \<and> fRxKey c' = fRxKey c \<and> fRxCounter c' = fRxCounter c"
proof -
  let ?avail = "fPendingLen c - fPendingOff c"
  let ?n = "min ?avail len"
  let ?pend = "slice (fPendingOff c) ?avail (fPending c)"
  have lp: "length ?pend = ?avail" using assms(1) by (auto simp: readable_def slice_def min_def)
  have split: "?pend @ data_of (rx t) = xs @ rest" using assms(2,3) by (simp add: incoming_def)
  have got: "slice (fPendingOff c) ?n (fPending c) = take ?n ?pend" by (simp add: slice_def)
  have n: "take ?n xs = take ?n ?pend"
  proof -
    have "take ?n (xs @ rest) = take ?n (?pend @ data_of (rx t))" by (simp only: split)
    then show ?thesis using lp assms(4) by simp
  qed
  have data: "drop ?n ?pend @ data_of (rx t) = drop ?n xs @ rest"
  proof -
    have "drop ?n (xs @ rest) = drop ?n (?pend @ data_of (rx t))" by (simp only: split)
    then show ?thesis using lp assms(4) by simp
  qed
  let ?c1 = "c\<lparr> fPendingOff := fPendingOff c + ?n \<rparr>"
  have pend': "drop ?n ?pend = slice (fPendingOff ?c1) (fPendingLen c - fPendingOff ?c1) (fPending c)"
    by (simp add: slice_def drop_take add.commute)
  show ?thesis
  proof (cases "len \<le> ?avail")
    case True
    then have nl: "?n = len" by simp
    have xs: "take ?n ?pend = xs" using n assms(4) nl by simp
    have "read_loop (rx t) xs len = (B_OK, xs, rx t)" using assms(4) by (simp add: read_loop.simps)
    then have "ReadFull c t len = (B_OK, xs, ?c1\<lparr> fTls := Some t \<rparr>)"
      using True xs got nl assms(4) by (cases "len = ?avail") (auto simp: ReadFull_def Let_def slice_def min_def)
    moreover have "incoming (?c1\<lparr> fTls := Some t \<rparr>) = rest"
      using data pend' assms(4) nl by (simp add: incoming_def)
    moreover have "readable (?c1\<lparr> fTls := Some t \<rparr>)" using assms(1,2) True by (auto simp: readable_def)
    ultimately show ?thesis by force
  next
    case False
    then have nl: "?n = ?avail" by simp
    have all: "drop ?n ?pend = []" using lp nl by simp
    have "data_of (rx t) = drop ?n xs @ rest" using data all by simp
    moreover have "length (take ?n xs) + length (drop ?n xs) = len" using assms(4) by simp
    ultimately obtain evs where r: "read_loop (rx t) (take ?n xs) len = (B_OK, xs, evs)" "only_data evs" "data_of evs = rest"
      using read_loop_ok [of "rx t" "drop ?n xs" rest "take ?n xs" len] assms(1,2,4) by (auto simp: readable_def)
    have "ReadFull c t len = (B_OK, xs, ?c1\<lparr> fTls := Some (t\<lparr> rx := evs \<rparr>) \<rparr>)"
    proof (cases "fPendingOff c < fPendingLen c")
      case True
      then show ?thesis using r(1) False n got nl by (simp add: ReadFull_def Let_def)
    next
      case False
      then show ?thesis using r(1) nl by (simp add: ReadFull_def Let_def)
    qed
    moreover have "incoming (?c1\<lparr> fTls := Some (t\<lparr> rx := evs \<rparr>) \<rparr>) = rest"
      using all pend' r(3) by (simp add: incoming_def)
    moreover have "readable (?c1\<lparr> fTls := Some (t\<lparr> rx := evs \<rparr>) \<rparr>)" using assms(1) r(2) nl by (auto simp: readable_def)
    ultimately show ?thesis by force
  qed
qed

lemma length_build_nonce [simp]: "length (build_nonce n) = 12"
  by (simp add: build_nonce_def)

lemma aead_seal_ok:
  assumes "aead_laws os" "length k = 32"
  shows "\<exists>c. aead_seal os k n p = Some c \<and> length c = length p + 16 \<and> aead_open os k n c = Some p"
proof -
  obtain ct tag where "evp_seal os k (build_nonce n) [] p = Some (ct, tag)" "length ct = length p"
    "length tag = 16" "evp_open os k (build_nonce n) [] ct tag = Some p"
    using assms by (auto simp: aead_laws_def) (metis length_build_nonce)
  then show ?thesis by (auto simp: aead_seal_def aead_open_def kTagLen_def)
qed

lemma ReadRecord_ok:
  assumes "readable c" "incoming c = record_frame cipher @ rest"
    and "length cipher = length p + 16" "length p \<le> 4077" "length p \<le> cap"
    and "aead_open os (fRxKey c) (fRxCounter c) cipher = Some p"
  shows "\<exists>c'. ReadRecord os c cap = (Plain p, c') \<and> readable c' \<and> incoming c' = rest
     \<and> fRxKey c' = fRxKey c \<and> fRxCounter c' = fRxCounter c + 1"
proof -
  obtain t where t: "fTls c = Some t" using assms(1) by (auto simp: readable_def split: option.splits)
  let ?hdr = "[CONTROL_MSG_RECORD, of_nat (length cipher div 256), of_nat (length cipher mod 256)] :: bytes"
  have "length cipher div 256 < 256" using assms(3,4) by (intro less_mult_imp_div_less) simp
  then have len: "256 * unat (?hdr ! 1) + unat (?hdr ! 2) = length cipher"
    by (simp add: unat_of_nat)
  obtain c1 where c1: "ReadFull c t 3 = (B_OK, ?hdr, c1)" "readable c1" "incoming c1 = cipher @ rest"
    "fRxKey c1 = fRxKey c" "fRxCounter c1 = fRxCounter c"
    using ReadFull_ok [OF assms(1) t, of ?hdr "cipher @ rest" 3] assms(2) by (auto simp: record_frame_def)
  obtain t1 where t1: "fTls c1 = Some t1" using c1(2) by (auto simp: readable_def split: option.splits)
  obtain c2 where c2: "ReadFull c1 t1 (length cipher) = (B_OK, cipher, c2)" "readable c2" "incoming c2 = rest"
    "fRxKey c2 = fRxKey c" "fRxCounter c2 = fRxCounter c"
    using ReadFull_ok [OF c1(2) t1 c1(3) refl] c1(4,5) by auto
  have "ReadRecord os c cap = (Plain p, c2\<lparr> fRxCounter := fRxCounter c2 + 1 \<rparr>)"
    using t c1(1) t1 c2(1,4,5) assms(3-6) len
    by (simp add: ReadRecord_def kRecordHeaderLen_def kTagLen_def kMaxPlaintextPerRecord_def Let_def)
  moreover have "readable (c2\<lparr> fRxCounter := fRxCounter c2 + 1 \<rparr>)" "incoming (c2\<lparr> fRxCounter := fRxCounter c2 + 1 \<rparr>) = rest"
    using c2(2,3) by (auto simp: readable_def incoming_def)
  ultimately show ?thesis using c2 by force
qed

text \<open>Reading \<open>n\<close> records one after the other.\<close>

fun read_records :: "openssl \<Rightarrow> control_conn \<Rightarrow> nat \<Rightarrow> nat \<Rightarrow> bytes list option \<times> control_conn" where
  "read_records os c cap 0 = (Some [], c)"
| "read_records os c cap (Suc n) =
     (case ReadRecord os c cap of
        (Plain p, c) \<Rightarrow> (case read_records os c cap n of (ps, c) \<Rightarrow> (map_option (\<lambda>ps. p # ps) ps, c))
      | (_, c) \<Rightarrow> (None, c))"

text \<open>The number of records of a message: at least one, also for an empty message.\<close>

definition record_count :: "bytes \<Rightarrow> nat" where
  "record_count data = (if data = [] then 1 else (length data + 4076) div 4077)"

lemma record_count_step:
  "4077 < length data \<Longrightarrow> record_count data = Suc (record_count (drop 4077 data))"
proof -
  assume a: "4077 < length data"
  then have "length data + 4076 = (length (drop 4077 data) + 4076) + 4077" by simp
  then have "(length data + 4076) div 4077 = Suc ((length (drop 4077 data) + 4076) div 4077)" by simp
  then show ?thesis using a by (auto simp: record_count_def)
qed

lemma record_count_last: "length data \<le> 4077 \<Longrightarrow> record_count data = 1"
proof -
  assume "length data \<le> 4077"
  then show ?thesis
    by (cases "data = []") (auto simp: record_count_def Suc_le_eq intro!: div_nat_eqI)
qed

text \<open>The loop body in terms of the first 4077 bytes.\<close>

lemma write_records_unfold:
  "write_records os k n t p =
     (case aead_seal os k n (take 4077 p) of None \<Rightarrow> (B_ERROR, n, t)
      | Some c \<Rightarrow>
          (case write_loop t (record_frame c) of (st, t) \<Rightarrow>
             if st \<noteq> B_OK then (st, n + 1, t)
             else if 4077 < length p then write_records os k (n + 1) t (drop 4077 p)
             else (B_OK, n + 1, t)))"
  by (subst write_records.simps)
    (cases "length p < 4077"; simp add: kMaxPlaintextPerRecord_def Let_def split: option.split prod.split)

lemma write_records_step:
  assumes "write_records os k n t p = (B_OK, m, t')"
  obtains c t1 where "aead_seal os k n (take 4077 p) = Some c" "tx t1 = tx t @ record_frame c"
    "(if 4077 < length p then write_records os k (n + 1) t1 (drop 4077 p) else (B_OK, n + 1, t1)) = (B_OK, m, t')"
proof -
  obtain c where c: "aead_seal os k n (take 4077 p) = Some c"
    using assms by (subst (asm) write_records_unfold) (auto split: option.splits)
  obtain st t1 where w: "write_loop t (record_frame c) = (st, t1)" by force
  have ok: "st = B_OK" using assms c w by (subst (asm) write_records_unfold) (auto split: if_splits)
  show thesis
    by (rule that [OF c, of t1])
      (use assms c w ok write_loop_ok in \<open>auto simp: write_records_unfold [of os k n t p]\<close>)
qed

lemma write_records_tx: "write_records os k n t data = (B_OK, m, t') \<Longrightarrow> \<exists>sent. tx t' = tx t @ sent"
proof (induction "length data" arbitrary: data n t rule: less_induct)
  case less
  obtain c t1 where c: "tx t1 = tx t @ record_frame c"
    "(if 4077 < length data then write_records os k (n + 1) t1 (drop 4077 data) else (B_OK, n + 1, t1)) = (B_OK, m, t')"
    using write_records_step [OF less.prems] by metis
  show ?case
  proof (cases "4077 < length data")
    case True
    then have "length (drop 4077 data) < length data" by simp
    then obtain sent where "tx t' = tx t1 @ sent" using less.hyps c(2) True by (metis (full_types))
    then show ?thesis using c(1) by simp
  qed (use c in auto)
qed

lemma write_then_read:
  assumes "aead_laws os" "length (fRxKey b) = 32"
    and "write_records os (fRxKey b) (fRxCounter b) t data = (B_OK, counter, t')"
    and "tx t' = tx t @ sent" "readable b" "incoming b = sent @ rest" "4077 \<le> cap"
  shows "\<exists>parts b'. read_records os b cap (record_count data) = (Some parts, b') \<and> concat parts = data
     \<and> readable b' \<and> incoming b' = rest \<and> fRxKey b' = fRxKey b \<and> fRxCounter b' = counter"
  using assms
proof (induction "length data" arbitrary: data t b sent rule: less_induct)
  case less
  obtain c t1 where c: "aead_seal os (fRxKey b) (fRxCounter b) (take 4077 data) = Some c" and tx1: "tx t1 = tx t @ record_frame c"
    and step: "(if 4077 < length data then write_records os (fRxKey b) (fRxCounter b + 1) t1 (drop 4077 data)
       else (B_OK, fRxCounter b + 1, t1)) = (B_OK, counter, t')"
    using write_records_step [OF less.prems(3)] by metis
  have o: "length c = length (take 4077 data) + 16" "aead_open os (fRxKey b) (fRxCounter b) c = Some (take 4077 data)"
    using aead_seal_ok [OF less.prems(1,2), of "fRxCounter b" "take 4077 data"] c by auto
  show ?case
  proof (cases "4077 < length data")
    case False
    then have d: "take 4077 data = data" by simp
    have "sent = record_frame c" "counter = fRxCounter b + 1" using step tx1 less.prems(4) False by auto
    then obtain b' where "ReadRecord os b cap = (Plain data, b')" "readable b'" "incoming b' = rest"
      "fRxKey b' = fRxKey b" "fRxCounter b' = counter"
      using ReadRecord_ok [of b c rest data cap os] less.prems(5-7) o d False by auto
    then show ?thesis using record_count_last [of data] False by auto
  next
    case True
    then have d: "length (drop 4077 data) < length data" by auto
    have rec: "write_records os (fRxKey b) (fRxCounter b + 1) t1 (drop 4077 data) = (B_OK, counter, t')"
      using step True by simp
    obtain sent2 where s2: "tx t' = tx t1 @ sent2" using write_records_tx [OF rec] by blast
    then have sent: "sent = record_frame c @ sent2" using tx1 less.prems(4) by simp
    obtain b1 where b1: "ReadRecord os b cap = (Plain (take 4077 data), b1)" "readable b1" "incoming b1 = sent2 @ rest"
      "fRxKey b1 = fRxKey b" "fRxCounter b1 = fRxCounter b + 1"
      using ReadRecord_ok [of b c "sent2 @ rest" "take 4077 data" cap os] less.prems(5-7) o sent by (auto simp: min_def split: if_splits)
    obtain parts b' where p: "read_records os b1 cap (record_count (drop 4077 data)) = (Some parts, b')"
      "concat parts = drop 4077 data" "readable b'" "incoming b' = rest" "fRxKey b' = fRxKey b1" "fRxCounter b' = counter"
      using less.hyps [OF d, of b1 t1 sent2] less.prems(1,2,7) rec b1 s2 by auto
    then show ?thesis using record_count_step [OF True] b1 by auto
  qed
qed

text \<open>
  C18. Control stream round trip: what \<open>WriteMessage\<close> put on the wire is read back by
  \<open>ReadRecord\<close> at the other end as exactly the message, in
  \<open>max 1 (ceil (length / 4077))\<close> records, whatever part of it was already in the pending
  buffer, however TLS split its reads and writes, and with whatever data following; both
  counters have moved by the number of records.
\<close>

theorem control_stream_roundtrip:
  assumes "aead_laws os" "WriteMessage os a data = (B_OK, a')"
    and "fTls a = Some t" "fTls a' = Some t'" "tx t' = tx t @ sent"
    and "fRxKey b = fTxKey a" "length (fTxKey a) = 32" "fRxCounter b = fTxCounter a"
    and "readable b" "incoming b = sent @ rest" "4077 \<le> cap"
  shows "\<exists>parts b'. read_records os b cap (record_count data) = (Some parts, b') \<and> concat parts = data
     \<and> readable b' \<and> incoming b' = rest \<and> fRxKey b' = fTxKey a' \<and> fRxCounter b' = fTxCounter a'"
proof -
  obtain counter where "write_records os (fTxKey a) (fTxCounter a) t data = (B_OK, counter, t')"
    "fTxKey a' = fTxKey a" "fTxCounter a' = counter"
    using assms(2-4) by (auto simp: WriteMessage_def split: prod.splits)
  then show ?thesis using write_then_read [of os b t data counter t' sent rest cap] assms by auto
qed

lemma write_records_accepting:
  assumes "aead_laws os" "length k = 32" "wr t = []"
  shows "\<exists>m t'. write_records os k n t data = (B_OK, m, t') \<and> wr t' = []"
  using assms(3)
proof (induction "length data" arbitrary: data n t rule: less_induct)
  case less
  obtain c where c: "aead_seal os k n (take 4077 data) = Some c" using aead_seal_ok [OF assms(1,2)] by blast
  have w: "write_loop t (record_frame c) = (B_OK, t\<lparr> tx := tx t @ record_frame c \<rparr>)"
    using write_loop_accepting [OF less.prems] .
  show ?case
  proof (cases "4077 < length data")
    case True
    then have "\<exists>m t'. write_records os k (n + 1) (t\<lparr> tx := tx t @ record_frame c \<rparr>) (drop 4077 data) = (B_OK, m, t') \<and> wr t' = []"
      by (intro less.hyps) (use less.prems in auto)
    then show ?thesis using c w True by (subst write_records_unfold) simp
  next
    case False
    then show ?thesis using c w less.prems by (subst write_records_unfold) simp
  qed
qed

lemma write_records_rx: "rx (snd (snd (write_records os k n t data))) = rx t"
proof (induction "length data" arbitrary: data n t rule: less_induct)
  case less
  show ?case
  proof (cases "aead_seal os k n (take 4077 data)")
    case None
    then show ?thesis by (simp add: write_records_unfold)
  next
    case (Some c)
    obtain st t1 where w: "write_loop t (record_frame c) = (st, t1)" by force
    then have "rx t1 = rx t" using write_loop_rx [of t "record_frame c"] by simp
    then show ?thesis using less.hyps [of "drop 4077 data" "n + 1" t1]
      by (simp add: write_records_unfold [of os k n t data] Some w)
  qed
qed

text \<open>A message is accepted and does not disturb the incoming side; reading keeps the outgoing side.\<close>

definition writable :: "openssl \<Rightarrow> control_conn \<Rightarrow> bool" where
  "writable os c \<longleftrightarrow> aead_laws os \<and> length (fTxKey c) = 32 \<and> (\<exists>t. fTls c = Some t \<and> wr t = [])"

lemma WriteMessage_writable:
  assumes "writable os c"
  shows "fst (WriteMessage os c d) = B_OK \<and> writable os (snd (WriteMessage os c d))"
proof -
  obtain t where t: "fTls c = Some t" "wr t = []" using assms by (auto simp: writable_def)
  obtain m t' where w: "write_records os (fTxKey c) (fTxCounter c) t d = (B_OK, m, t')" "wr t' = []"
    using write_records_accepting [of os "fTxKey c" t "fTxCounter c" d] assms t(2) by (auto simp: writable_def)
  then show ?thesis using assms t by (auto simp: writable_def WriteMessage_def)
qed

lemma WriteMessage_incoming:
  "readable (snd (WriteMessage os c d)) = readable c \<and> incoming (snd (WriteMessage os c d)) = incoming c
     \<and> fRxKey (snd (WriteMessage os c d)) = fRxKey c \<and> fRxCounter (snd (WriteMessage os c d)) = fRxCounter c"
proof (cases "fTls c")
  case None
  then show ?thesis by (simp add: WriteMessage_def)
next
  case (Some t)
  obtain st m t' where w: "write_records os (fTxKey c) (fTxCounter c) t d = (st, m, t')" by (metis prod_cases3)
  have "rx t' = rx t" using write_records_rx [of os "fTxKey c" "fTxCounter c" t d] w by simp
  then show ?thesis using Some w by (auto simp: WriteMessage_def readable_def incoming_def)
qed

lemma ReadFull_keeps:
  "ReadFull c t len = (st, out, c') \<Longrightarrow> fTxKey c' = fTxKey c \<and> (\<exists>evs. fTls c' = Some (t\<lparr> rx := evs \<rparr>))"
  by (auto simp: ReadFull_def Let_def split: if_splits prod.splits)

lemma ReadRecord_writable:
  assumes "writable os c"
  shows "writable os (snd (ReadRecord os c cap))"
proof -
  obtain t where t: "fTls c = Some t" "wr t = []" using assms by (auto simp: writable_def)
  obtain st header c1 where r1: "ReadFull c t kRecordHeaderLen = (st, header, c1)" by (metis prod_cases3)
  obtain evs where e1: "fTxKey c1 = fTxKey c" "fTls c1 = Some (t\<lparr> rx := evs \<rparr>)" using ReadFull_keeps [OF r1] by auto
  define n where "n = 256 * unat (header ! 1) + unat (header ! 2)"
  obtain st2 cipher c2 where r2: "ReadFull c1 (t\<lparr> rx := evs \<rparr>) n = (st2, cipher, c2)" by (metis prod_cases3)
  have k: "writable os c1" "writable os c2" "\<And>k. writable os (c2\<lparr> fRxCounter := k \<rparr>)"
    using assms t(2) e1 ReadFull_keeps [OF r2] by (auto simp: writable_def)
  show ?thesis
    unfolding ReadRecord_def using k r2 unfolding n_def by (simp add: t(1) r1 e1(2) Let_def split: option.split)
qed

subsection \<open>What a peer has sealed\<close>

text \<open>The wire form of a sequence of plaintexts, one record each, from counter \<open>n\<close> on.\<close>

fun sealed :: "openssl \<Rightarrow> bytes \<Rightarrow> u64 \<Rightarrow> bytes list \<Rightarrow> bytes" where
  "sealed os k n [] = []"
| "sealed os k n (p # ps) = record_frame (the (aead_seal os k n p)) @ sealed os k (n + 1) ps"

definition conn_delivers :: "openssl \<Rightarrow> control_conn \<Rightarrow> bytes list \<Rightarrow> bool" where
  "conn_delivers os c ps \<longleftrightarrow> aead_laws os \<and> length (fRxKey c) = 32 \<and> readable c
     \<and> incoming c = sealed os (fRxKey c) (fRxCounter c) ps \<and> (\<forall>p\<in>set ps. p \<noteq> [] \<and> length p \<le> 4077)"

lemma delivers_ReadRecord:
  assumes "conn_delivers os c (p # ps)" "length p \<le> cap"
  shows "\<exists>c'. ReadRecord os c cap = (Plain p, c') \<and> conn_delivers os c' ps"
proof -
  obtain ct where ct: "aead_seal os (fRxKey c) (fRxCounter c) p = Some ct" "length ct = length p + 16"
    "aead_open os (fRxKey c) (fRxCounter c) ct = Some p"
    using aead_seal_ok [of os "fRxKey c" "fRxCounter c" p] assms(1) unfolding conn_delivers_def by blast
  have "incoming c = record_frame ct @ sealed os (fRxKey c) (fRxCounter c + 1) ps" "readable c" "length p \<le> 4077"
    using assms(1) ct(1) by (auto simp: conn_delivers_def)
  then obtain c' where "ReadRecord os c cap = (Plain p, c')" "readable c'" "incoming c' = sealed os (fRxKey c) (fRxCounter c + 1) ps"
    "fRxKey c' = fRxKey c" "fRxCounter c' = fRxCounter c + 1"
    using ReadRecord_ok [of c ct "sealed os (fRxKey c) (fRxCounter c + 1) ps" p cap os] ct(2,3) assms(2) by blast
  then show ?thesis using assms(1) by (auto simp: conn_delivers_def)
qed

theorem control_stream_roundtrip_witness:
  "\<exists>sent parts b'. read_records toy_openssl
       (Init ControlConn \<lparr> rx = [Data (take 2 sent), Data (drop 2 sent)], tx = [], wr = [] \<rparr> (replicate 32 1) (replicate 32 2) [])
       4077 1 = (Some parts, b') \<and> concat parts = [7, 8, 9] \<and> sent \<noteq> []"
proof -
  let ?t = "\<lparr> rx = [], tx = [], wr = [] \<rparr> :: tls"
  let ?a = "Init ControlConn ?t (replicate 32 2) (replicate 32 1) []"
  have t: "fTls ?a = Some ?t" "fTxKey ?a = replicate 32 2" "fTxCounter ?a = 0" by (simp_all add: Init_def)
  obtain m t' where w: "write_records toy_openssl (replicate 32 2) 0 ?t [7, 8, 9] = (B_OK, m, t')"
    using write_records_accepting [OF toy_aead_laws, of "replicate 32 2" ?t 0 "[7, 8, 9]"] by auto
  then obtain a' where a': "WriteMessage toy_openssl ?a [7, 8, 9] = (B_OK, a')" "fTls a' = Some t'"
    by (simp add: WriteMessage_def t)
  obtain c where c: "aead_seal toy_openssl (replicate 32 2) 0 [7, 8, 9] = Some c" "tx t' = record_frame c"
    using write_records_step [OF w] by auto
  let ?b = "Init ControlConn \<lparr> rx = [Data (take 2 (tx t')), Data (drop 2 (tx t'))], tx = [], wr = [] \<rparr> (replicate 32 1) (replicate 32 2) []"
  have "readable ?b" "incoming ?b = tx t'"
    by (simp_all add: readable_def incoming_def Init_def ControlConn_def c(2) record_frame_def slice_def)
  then obtain parts b' where "read_records toy_openssl ?b 4077 (record_count [7, 8, 9]) = (Some parts, b')" "concat parts = [7, 8, 9]"
    using control_stream_roundtrip [OF toy_aead_laws a'(1) t(1) a'(2), of "tx t'" ?b "[]" 4077] t(2,3)
    by (auto simp: Init_def)
  then show ?thesis using c(2) by (intro exI [of _ "tx t'"]) (auto simp: record_count_def record_frame_def)
qed

end
