(* ===== verification/Http2.thy ===== *)
theory Http2
  imports Hpack ControlConn
begin

text \<open>
  \<open>ts::Http2Conn\<close> (\<open>src/src/backend/tailscale/TSHttp2.cpp\<close>): HTTP/2 frames over the record
  stream.  The record connection is used through two operations only, \<open>recv\<close>
  (\<open>ControlConn::ReadRecord\<close>) and \<open>send\<close> (\<open>ControlConn::WriteMessage\<close>), which are arguments of
  the definitions; locale \<open>record_link\<close> states what the client relies on, and it is
  interpreted on the operations of theory \<open>ControlConn\<close>.

  The reassembly buffer is its offset and the valid bytes \<open>[fBufOff, fBufLen)\<close> (\<open>fLive\<close>).  \<open>ReadBody\<close> copies with an unchecked length when a padded frame states more
  padding than it has bytes; that undefined behaviour is the result \<open>None\<close>.

  Results: frames are read back as they were written wherever the record boundaries fall,
  the reassembly never offers a record less room than a record needs, and a request
  collects exactly the status and the body that the server sent, also with control frames
  in between.
\<close>

definition kH2Preface :: string where
  "kH2Preface = ''PRI * HTTP/2.0'' @ [CHR 0x0D, CHR 0x0A, CHR 0x0D, CHR 0x0A] @ ''SM'' @ [CHR 0x0D, CHR 0x0A, CHR 0x0D, CHR 0x0A]"

definition kEarlyMagic :: bytes where "kEarlyMagic = [0xFF, 0xFF, 0xFF, 0x54, 0x53]"

definition kH2FrameHeaderLen :: nat where "kH2FrameHeaderLen = 9"
definition kH2MaxFramePayload :: nat where "kH2MaxFramePayload = 16384"
definition kH2BufSize :: nat where "kH2BufSize = 65536"

named_theorems h2_consts \<open>frame types, flags and sizes\<close>

definition H2_DATA :: u8 where [h2_consts]: "H2_DATA = 0x0"
definition H2_HEADERS :: u8 where [h2_consts]: "H2_HEADERS = 0x1"
definition H2_RST_STREAM :: u8 where [h2_consts]: "H2_RST_STREAM = 0x3"
definition H2_SETTINGS :: u8 where [h2_consts]: "H2_SETTINGS = 0x4"
definition H2_PING :: u8 where [h2_consts]: "H2_PING = 0x6"
definition H2_GOAWAY :: u8 where [h2_consts]: "H2_GOAWAY = 0x7"
definition H2_WINDOW_UPDATE :: u8 where [h2_consts]: "H2_WINDOW_UPDATE = 0x8"
definition H2_CONTINUATION :: u8 where [h2_consts]: "H2_CONTINUATION = 0x9"
definition H2_FLAG_ACK :: u8 where [h2_consts]: "H2_FLAG_ACK = 0x01"
definition H2_FLAG_END_STREAM :: u8 where [h2_consts]: "H2_FLAG_END_STREAM = 0x01"
definition H2_FLAG_END_HEADERS :: u8 where [h2_consts]: "H2_FLAG_END_HEADERS = 0x04"

record 'c http2_conn =
  fConn :: "'c option"
  fNextStreamId :: u32
  fReqStream :: u32
  fReqEnded :: bool
  fDecoder :: hpack_decoder
  fBufOff :: nat
  fLive :: bytes

definition Http2Conn :: "'c http2_conn" where
  "Http2Conn = \<lparr> fConn = None, fNextStreamId = 1, fReqStream = 0, fReqEnded = True, fDecoder = HpackDecoder,
     fBufOff = 0, fLive = [] \<rparr>"

text \<open>\<open>Init\<close> leaves the HPACK decoder as it is.\<close>

definition Init :: "'c http2_conn \<Rightarrow> 'c \<Rightarrow> 'c http2_conn" where
  "Init h conn = h\<lparr> fConn := Some conn, fNextStreamId := 1, fReqStream := 0, fReqEnded := True, fBufOff := 0, fLive := [] \<rparr>"

type_synonym 'c recv = "'c \<Rightarrow> nat \<Rightarrow> record_result \<times> 'c"
type_synonym 'c send = "'c \<Rightarrow> bytes \<Rightarrow> status \<times> 'c"

subsection \<open>Reassembly\<close>

function fill_loop :: "'c recv \<Rightarrow> 'c \<Rightarrow> nat \<Rightarrow> bytes \<Rightarrow> nat \<Rightarrow> status \<times> 'c \<times> nat \<times> bytes" where
  "fill_loop recv c off lv need =
     (if length lv < need then
        let off = (if off > 0 \<and> (off + length lv) + kH2MaxFramePayload > kH2BufSize then 0 else off) in
        (case recv c (kH2BufSize - (off + length lv)) of
           (RetryTimeout, c) \<Rightarrow> (B_WOULD_BLOCK, c, off, lv)
         | (CleanEof, c) \<Rightarrow> (B_IO_ERROR, c, off, lv)
         | (ReadError, c) \<Rightarrow> (B_IO_ERROR, c, off, lv)
         | (Plain p, c) \<Rightarrow> if p = [] then (B_IO_ERROR, c, off, lv) else fill_loop recv c off (lv @ p) need)
      else (B_OK, c, off, lv))"
  by pat_completeness auto
termination
  by (relation "measure (\<lambda>(recv, c, off, lv, need). need - length lv)") (auto simp: diff_less_mono2 length_greater_0_conv [symmetric] simp del: length_greater_0_conv)

declare fill_loop.simps [simp del]

text \<open>\<open>_Fill\<close> on the bound connection.\<close>

definition Fill :: "'c recv \<Rightarrow> 'c http2_conn \<Rightarrow> nat \<Rightarrow> status \<times> 'c http2_conn" where
  "Fill recv h need =
     (if need > kH2BufSize then (B_BAD_VALUE, h)
      else case fill_loop recv (the (fConn h)) (fBufOff h) (fLive h) need of (st, c, off, lv) \<Rightarrow>
        (st, h\<lparr> fConn := Some c, fBufOff := off, fLive := lv \<rparr>))"

definition ReadRaw :: "'c recv \<Rightarrow> 'c http2_conn \<Rightarrow> nat \<Rightarrow> status \<times> bytes \<times> 'c http2_conn" where
  "ReadRaw recv h n =
     (case Fill recv h n of (result, h) \<Rightarrow>
        if result \<noteq> B_OK then (result, [], h)
        else (B_OK, take n (fLive h), h\<lparr> fBufOff := fBufOff h + n, fLive := drop n (fLive h) \<rparr>))"

subsection \<open>Frames\<close>

record h2_frame =
  f_type :: u8
  f_flags :: u8
  f_stream :: u32
  f_payload :: bytes

definition frame_bytes :: "u8 \<Rightarrow> u8 \<Rightarrow> u32 \<Rightarrow> bytes \<Rightarrow> bytes" where
  "frame_bytes ty flags streamId payload =
     [of_nat (length payload div 65536), of_nat (length payload div 256), of_nat (length payload),
      ty, flags, ucast (drop_bit 24 streamId AND 0x7F), ucast (drop_bit 16 streamId), ucast (drop_bit 8 streamId),
      ucast (streamId AND 0xFF)] @ payload"

definition WriteFrame :: "'c send \<Rightarrow> 'c http2_conn \<Rightarrow> u8 \<Rightarrow> u8 \<Rightarrow> u32 \<Rightarrow> bytes \<Rightarrow> status \<times> 'c http2_conn" where
  "WriteFrame send h ty flags streamId payload =
     (case fConn h of None \<Rightarrow> (B_NO_INIT, h)
      | Some c \<Rightarrow>
          if length payload > 0xFFFFFF then (B_BAD_VALUE, h)
          else if length payload > kH2MaxFramePayload then (B_BAD_VALUE, h)
          else case send c (frame_bytes ty flags streamId payload) of (st, c) \<Rightarrow> (st, h\<lparr> fConn := Some c \<rparr>))"

definition ReadFrame :: "'c recv \<Rightarrow> 'c http2_conn \<Rightarrow> nat \<Rightarrow> (status + h2_frame) \<times> 'c http2_conn" where
  "ReadFrame recv h payloadCap =
     (case ReadRaw recv h kH2FrameHeaderLen of (result, hdr, h) \<Rightarrow>
      if result \<noteq> B_OK then (Inl result, h)
      else
      let len = 65536 * unat (hdr ! 0) + 256 * unat (hdr ! 1) + unat (hdr ! 2);
          streamId = (((push_bit 24 (ucast (hdr ! 5)) OR push_bit 16 (ucast (hdr ! 6)))
            OR push_bit 8 (ucast (hdr ! 7))) OR ucast (hdr ! 8)) AND 0x7FFFFFFF in
      if len > payloadCap then (Inl B_ERROR, h)
      else if len > 0 then
        (case ReadRaw recv h len of (result, payload, h) \<Rightarrow>
           let result = (if result = B_WOULD_BLOCK then B_IO_ERROR else result) in
           if result \<noteq> B_OK then (Inl result, h)
           else (Inr \<lparr> f_type = hdr ! 3, f_flags = hdr ! 4, f_stream = streamId, f_payload = payload \<rparr>, h))
      else (Inr \<lparr> f_type = hdr ! 3, f_flags = hdr ! 4, f_stream = streamId, f_payload = [] \<rparr>, h))"

subsection \<open>Requests\<close>

text \<open>
  The answer to a control frame: a SETTINGS or PING that is no ACK is acknowledged; the
  result of the write is not looked at.
\<close>

definition ack_control :: "'c send \<Rightarrow> 'c http2_conn \<Rightarrow> h2_frame \<Rightarrow> 'c http2_conn" where
  "ack_control send h f =
     (if f_flags f AND H2_FLAG_ACK = 0
      then snd (WriteFrame send h (f_type f) H2_FLAG_ACK 0 (if f_type f = H2_PING then f_payload f else []))
      else h)"

text \<open>The header block fragment of a HEADERS or CONTINUATION frame.\<close>

definition header_fragment :: "h2_frame \<Rightarrow> bytes" where
  "header_fragment f =
     (let len = of_nat (length (f_payload f)) :: u64;
          (off, stop) = (if f_type f = H2_HEADERS \<and> f_flags f AND 0x08 \<noteq> 0 \<and> 0 < len
                         then (1, len - ucast (f_payload f ! 0)) else (0, len));
          off = (if f_type f = H2_HEADERS \<and> f_flags f AND 0x20 \<noteq> 0 then off + 5 else off)
      in if off \<le> stop \<and> stop \<le> len then slice (unat off) (unat stop - unat off) (f_payload f) else [])"

definition status_of :: "hpack_header list \<Rightarrow> int" where
  "status_of hdrs = foldl (\<lambda>st h. if name h = '':status'' then atoi (val h) else st) 0 hdrs"

fun begin_loop :: "'c recv \<Rightarrow> 'c send \<Rightarrow> nat \<Rightarrow> 'c http2_conn \<Rightarrow> u32 \<Rightarrow> bytes \<Rightarrow> (status + int) \<times> 'c http2_conn" where
  "begin_loop recv send 0 h streamId block = (Inl B_ERROR, h)"
| "begin_loop recv send (Suc n) h streamId block =
     (case ReadFrame recv h kH2MaxFramePayload of
        (Inl r, h) \<Rightarrow> (Inl r, h)
      | (Inr f, h) \<Rightarrow>
          if f_type f = H2_SETTINGS \<or> f_type f = H2_PING then begin_loop recv send n (ack_control send h f) streamId block
          else if f_type f = H2_GOAWAY then (Inl B_ERROR, h)
          else if f_type f = H2_RST_STREAM \<and> f_stream f = streamId then (Inl B_ERROR, h)
          else if (f_type f = H2_HEADERS \<or> f_type f = H2_CONTINUATION) \<and> f_stream f = streamId then
            (let block = block @ header_fragment f;
                 h = (if f_flags f AND H2_FLAG_END_STREAM \<noteq> 0 then h\<lparr> fReqEnded := True \<rparr> else h)
             in if f_flags f AND H2_FLAG_END_HEADERS \<noteq> 0
                then (case Decode (fDecoder h) block [] of (st, d, hdrs) \<Rightarrow>
                        (Inr (if st = B_OK then status_of hdrs else 0), h\<lparr> fDecoder := d \<rparr>))
                else begin_loop recv send n h streamId block)
          else begin_loop recv send n h streamId block)"

declare begin_loop.simps [simp del]

text \<open>\<open>contentType\<close> is \<open>None\<close> for NULL.\<close>

definition request_headers :: "string \<Rightarrow> string \<Rightarrow> string \<Rightarrow> string \<Rightarrow> string option \<Rightarrow> bytes \<Rightarrow> (string \<times> string) list" where
  "request_headers meth scheme authority path contentType body =
     [('':method'', meth), ('':scheme'', scheme), ('':path'', path), ('':authority'', authority)]
     @ (if length body > 0
        then (case contentType of None \<Rightarrow> [] | Some ct \<Rightarrow> [(''content-type'', ct)])
             @ [(''content-length'', show_nat (length body))]
        else [])"

definition BeginRequest ::
  "'c recv \<Rightarrow> 'c send \<Rightarrow> 'c http2_conn \<Rightarrow> string \<Rightarrow> string \<Rightarrow> string \<Rightarrow> string \<Rightarrow> string option \<Rightarrow> bytes
     \<Rightarrow> (status + int) \<times> 'c http2_conn" where
  "BeginRequest recv send h meth scheme authority path contentType body =
     (if fConn h = None then (Inl B_NO_INIT, h)
      else
      let streamId = fNextStreamId h;
          h = h\<lparr> fNextStreamId := fNextStreamId h + 2, fReqStream := streamId, fReqEnded := False \<rparr>;
          headers = concat (map (\<lambda>(n, v). AddHeader n v) (request_headers meth scheme authority path contentType body));
          headersFlags = H2_FLAG_END_HEADERS OR (if length body > 0 then 0 else H2_FLAG_END_STREAM) in
      case WriteFrame send h H2_HEADERS headersFlags streamId headers of (r, h) \<Rightarrow>
      if r \<noteq> B_OK then (Inl r, h)
      else case (if length body > 0 then WriteFrame send h H2_DATA H2_FLAG_END_STREAM streamId body else (B_OK, h)) of (r, h) \<Rightarrow>
      if r \<noteq> B_OK then (Inl r, h)
      else begin_loop recv send 100000 h streamId [])"

text \<open>The application bytes of a DATA frame; \<open>None\<close> when the copy length wraps.\<close>

definition data_fragment :: "h2_frame \<Rightarrow> bytes option" where
  "data_fragment f =
     (let len = length (f_payload f) in
      if f_flags f AND 0x08 \<noteq> 0 \<and> 0 < len
      then (let pad = unat (f_payload f ! 0) in
            if pad > len then None else Some (slice 1 (len - pad - 1) (f_payload f)))
      else Some (f_payload f))"

definition be32 :: "nat \<Rightarrow> bytes" where
  "be32 n = [of_nat (n div 16777216), of_nat (n div 65536), of_nat (n div 256), of_nat n]"

text \<open>The window updates for the stream and the connection; the results are not looked at.\<close>

definition replenish :: "'c send \<Rightarrow> 'c http2_conn \<Rightarrow> nat \<Rightarrow> 'c http2_conn" where
  "replenish send h len =
     (if len > 0
      then let h = snd (WriteFrame send h H2_WINDOW_UPDATE 0 (fReqStream h) (be32 len))
           in snd (WriteFrame send h H2_WINDOW_UPDATE 0 0 (be32 len))
      else h)"

fun body_loop :: "'c recv \<Rightarrow> 'c send \<Rightarrow> nat \<Rightarrow> 'c http2_conn \<Rightarrow> ((status + bytes) \<times> 'c http2_conn) option" where
  "body_loop recv send 0 h = Some (Inl B_ERROR, h)"
| "body_loop recv send (Suc n) h =
     (case ReadFrame recv h kH2MaxFramePayload of
        (Inl r, h) \<Rightarrow> Some (Inl r, h)
      | (Inr f, h) \<Rightarrow>
          if f_type f = H2_SETTINGS \<or> f_type f = H2_PING then body_loop recv send n (ack_control send h f)
          else if f_type f = H2_GOAWAY then Some (Inl B_ERROR, h)
          else if f_type f = H2_RST_STREAM \<and> f_stream f = fReqStream h then Some (Inl B_ERROR, h)
          else if f_type f = H2_DATA \<and> f_stream f = fReqStream h then
            (case data_fragment f of None \<Rightarrow> None
             | Some d \<Rightarrow>
                 let h = replenish send h (length (f_payload f));
                     h = (if f_flags f AND H2_FLAG_END_STREAM \<noteq> 0 then h\<lparr> fReqEnded := True \<rparr> else h)
                 in Some (Inr d, h))
          else if f_type f = H2_HEADERS \<and> f_stream f = fReqStream h \<and> f_flags f AND H2_FLAG_END_STREAM \<noteq> 0
          then Some (Inr [], h\<lparr> fReqEnded := True \<rparr>)
          else body_loop recv send n h)"

declare body_loop.simps [simp del]

definition ReadBody :: "'c recv \<Rightarrow> 'c send \<Rightarrow> 'c http2_conn \<Rightarrow> nat \<Rightarrow> ((status + bytes) \<times> 'c http2_conn) option" where
  "ReadBody recv send h cap =
     (if fReqEnded h then Some (Inr [], h)
      else if cap < kH2MaxFramePayload then Some (Inl B_BAD_VALUE, h)
      else body_loop recv send 100000 h)"

text \<open>
  The \<open>for (;;)\<close> loop of \<open>Request\<close>: \<open>fuel\<close> bounds the number of \<open>ReadBody\<close> calls; running
  out of it is the outer \<open>None\<close>, undefined behaviour the inner one.  \<open>BString::Append\<close>
  takes a piece up to its first NUL byte.
\<close>

definition until_nul :: "bytes \<Rightarrow> bytes" where
  "until_nul d = takeWhile (\<lambda>b. b \<noteq> 0) d"

fun request_loop :: "'c recv \<Rightarrow> 'c send \<Rightarrow> nat \<Rightarrow> 'c http2_conn \<Rightarrow> bytes \<Rightarrow> ((status + bytes) \<times> 'c http2_conn) option option" where
  "request_loop recv send 0 h acc = None"
| "request_loop recv send (Suc n) h acc =
     (case ReadBody recv send h kH2MaxFramePayload of
        None \<Rightarrow> Some None
      | Some (Inl r, h) \<Rightarrow> Some (Some (Inl r, h))
      | Some (Inr d, h) \<Rightarrow>
          let acc = acc @ until_nul d in
          if fReqEnded h then Some (Some (Inr acc, h)) else request_loop recv send n h acc)"

definition Request ::
  "'c recv \<Rightarrow> 'c send \<Rightarrow> nat \<Rightarrow> 'c http2_conn \<Rightarrow> string \<Rightarrow> string \<Rightarrow> string \<Rightarrow> string \<Rightarrow> string option \<Rightarrow> bytes
     \<Rightarrow> ((status + int \<times> bytes) \<times> 'c http2_conn) option option" where
  "Request recv send fuel h meth scheme authority path contentType body =
     (case BeginRequest recv send h meth scheme authority path contentType body of
        (Inl r, h) \<Rightarrow> Some (Some (Inl r, h))
      | (Inr st, h) \<Rightarrow>
          (case request_loop recv send fuel h [] of
             None \<Rightarrow> None
           | Some None \<Rightarrow> Some None
           | Some (Some (Inl r, h)) \<Rightarrow> Some (Some (Inl r, h))
           | Some (Some (Inr b, h)) \<Rightarrow> Some (Some (Inr (st, b), h))))"

subsection \<open>Bootstrap\<close>

fun settings_loop :: "'c recv \<Rightarrow> 'c send \<Rightarrow> nat \<Rightarrow> 'c http2_conn \<Rightarrow> bool \<Rightarrow> bool \<Rightarrow> status \<times> 'c http2_conn" where
  "settings_loop recv send 0 h ours theirs = (if ours \<and> theirs then B_OK else B_ERROR, h)"
| "settings_loop recv send (Suc n) h ours theirs =
     (if ours \<and> theirs then (B_OK, h)
      else case ReadFrame recv h kH2MaxFramePayload of
        (Inl r, h) \<Rightarrow> (r, h)
      | (Inr f, h) \<Rightarrow>
          if f_type f = H2_SETTINGS then
            (if f_flags f AND H2_FLAG_ACK \<noteq> 0 then settings_loop recv send n h True theirs
             else case WriteFrame send h H2_SETTINGS H2_FLAG_ACK 0 [] of (r, h) \<Rightarrow>
               if r \<noteq> B_OK then (r, h) else settings_loop recv send n h ours True)
          else if f_type f = H2_GOAWAY then (B_ERROR, h)
          else settings_loop recv send n h ours theirs)"

definition Bootstrap :: "'c recv \<Rightarrow> 'c send \<Rightarrow> 'c http2_conn \<Rightarrow> status \<times> string option \<times> 'c http2_conn" where
  "Bootstrap recv send h =
     (if fConn h = None then (B_NO_INIT, None, h)
      else case ReadRaw recv h 5 of (result, magic, h) \<Rightarrow>
      if result \<noteq> B_OK then (result, None, h)
      else if magic \<noteq> kEarlyMagic then (B_ERROR, None, h)
      else case ReadRaw recv h 4 of (result, lenBuf, h) \<Rightarrow>
      if result \<noteq> B_OK then (result, None, h)
      else let jsonLen = 16777216 * unat (lenBuf ! 0) + 65536 * unat (lenBuf ! 1) + 256 * unat (lenBuf ! 2) + unat (lenBuf ! 3) in
      if jsonLen > 8192 then (B_ERROR, None, h)
      else case ReadRaw recv h jsonLen of (result, json, h) \<Rightarrow>
      if result \<noteq> B_OK then (result, None, h)
      else let early = c_str (map chr_of_byte json) in
      case send (the (fConn h)) (map byte_of_chr kH2Preface) of (result, c) \<Rightarrow>
      let h = h\<lparr> fConn := Some c \<rparr> in
      if result \<noteq> B_OK then (result, Some early, h)
      else case WriteFrame send h H2_SETTINGS 0 0 [] of (result, h) \<Rightarrow>
      if result \<noteq> B_OK then (result, Some early, h)
      else case settings_loop recv send 32 h False False of (result, h) \<Rightarrow> (result, Some early, h))"

subsection \<open>The record connection as an interface\<close>

text \<open>
  \<open>delivers c ps\<close>: reading will give the plaintexts \<open>ps\<close>; \<open>accepts c\<close>: writing succeeds.
  Writing does not disturb what will be read, and reading keeps the connection writable.
\<close>

locale record_link =
  fixes recv :: "'c recv" and send :: "'c send" and delivers :: "'c \<Rightarrow> bytes list \<Rightarrow> bool" and accepts :: "'c \<Rightarrow> bool"
  assumes delivers_recv: "delivers c (p # ps) \<Longrightarrow> length p \<le> cap \<Longrightarrow> \<exists>c'. recv c cap = (Plain p, c') \<and> delivers c' ps"
    and delivers_size: "delivers c (p # ps) \<Longrightarrow> p \<noteq> [] \<and> length p \<le> 4077"
    and send_delivers: "delivers c ps \<Longrightarrow> delivers (snd (send c d)) ps"
    and send_accepts: "accepts c \<Longrightarrow> fst (send c d) = B_OK \<and> accepts (snd (send c d))"
    and recv_accepts: "accepts c \<Longrightarrow> accepts (snd (recv c cap))"

text \<open>The bytes an HTTP/2 connection has still to read, and that it may write.\<close>

definition h2_stream :: "('c \<Rightarrow> bytes list \<Rightarrow> bool) \<Rightarrow> ('c \<Rightarrow> bool) \<Rightarrow> 'c http2_conn \<Rightarrow> bytes \<Rightarrow> bool" where
  "h2_stream delivers accepts h bs \<longleftrightarrow>
     (\<exists>c ps. fConn h = Some c \<and> delivers c ps \<and> accepts c \<and> fLive h @ concat ps = bs
        \<and> fBufOff h + length (fLive h) \<le> kH2BufSize)"

definition h2_same :: "'c http2_conn \<Rightarrow> 'c http2_conn \<Rightarrow> bool" where
  "h2_same h h' \<longleftrightarrow> fNextStreamId h' = fNextStreamId h \<and> fReqStream h' = fReqStream h
     \<and> fReqEnded h' = fReqEnded h \<and> fDecoder h' = fDecoder h"

lemma h2_same_refl [simp]: "h2_same h h"
  and h2_same_trans: "h2_same a b \<Longrightarrow> h2_same b c \<Longrightarrow> h2_same a c"
  by (simp_all add: h2_same_def)

definition enc :: "h2_frame \<Rightarrow> bytes" where
  "enc f = frame_bytes (f_type f) (f_flags f) (f_stream f) (f_payload f)"

definition frame_ok :: "h2_frame \<Rightarrow> bool" where
  "frame_ok f \<longleftrightarrow> length (f_payload f) \<le> 16384 \<and> f_stream f < 0x80000000"

text \<open>The 31-bit stream identifier from its four bytes.\<close>

lemma stream_bytes:
  assumes "(s :: u32) < 0x80000000"
  shows "((((push_bit 24 (ucast (ucast (drop_bit 24 s AND 0x7F) :: u8)) OR push_bit 16 (ucast (ucast (drop_bit 16 s) :: u8)))
        OR push_bit 8 (ucast (ucast (drop_bit 8 s) :: u8))) OR ucast (ucast (s AND 0xFF) :: u8)) AND 0x7FFFFFFF :: u32) = s"
proof -
  have m: "(0x7F :: u32) = mask 7" "(0xFF :: u32) = mask 8" "(0x7FFFFFFF :: u32) = mask 31" by (simp_all add: mask_eq_exp_minus_1)
  have "unat s < 2 ^ 31" using assms by (simp add: word_less_nat_alt)
  then have "take_bit 31 s = s" by (intro unat_inj) (simp add: unat_take_bit_mod)
  then have top: "bit s k \<Longrightarrow> k < 31" for k by (metis bit_take_bit_iff)
  show ?thesis unfolding m
  proof (rule bit_word_eqI)
    fix n assume "n < LENGTH(32)"
    then consider "n < 8" | "8 \<le> n" "n < 16" | "16 \<le> n" "n < 24" | "24 \<le> n" "n < 31" | "n = 31" by fastforce
    then show "bit ((((push_bit 24 (ucast (ucast (drop_bit 24 s AND mask 7) :: u8)) OR push_bit 16 (ucast (ucast (drop_bit 16 s) :: u8)))
        OR push_bit 8 (ucast (ucast (drop_bit 8 s) :: u8))) OR ucast (ucast (s AND mask 8) :: u8)) AND mask 31 :: u32) n = bit s n"
      using top [of n] by cases (auto simp: bit_simps)
  qed
qed

lemma frame_header:
  assumes "length (f_payload f) \<le> 16384" "f_stream f < 0x80000000"
  shows "65536 * unat (enc f ! 0) + 256 * unat (enc f ! 1) + unat (enc f ! 2) = length (f_payload f)"
    "((((push_bit 24 (ucast (enc f ! 5)) OR push_bit 16 (ucast (enc f ! 6))) OR push_bit 8 (ucast (enc f ! 7)))
        OR ucast (enc f ! 8)) AND 0x7FFFFFFF :: u32) = f_stream f"
proof -
  let ?n = "length (f_payload f)"
  have "?n div 65536 = 0" "?n div 256 < 256" using assms(1) by (simp, intro less_mult_imp_div_less) simp_all
  then show "65536 * unat (enc f ! 0) + 256 * unat (enc f ! 1) + unat (enc f ! 2) = ?n"
    by (simp add: enc_def frame_bytes_def unat_of_nat)
  have "enc f ! 5 = ucast (drop_bit 24 (f_stream f) AND 0x7F)" "enc f ! 6 = ucast (drop_bit 16 (f_stream f))"
    "enc f ! 7 = ucast (drop_bit 8 (f_stream f))" "enc f ! 8 = ucast (f_stream f AND 0xFF)"
    by (simp_all add: enc_def frame_bytes_def)
  then show "((((push_bit 24 (ucast (enc f ! 5)) OR push_bit 16 (ucast (enc f ! 6))) OR push_bit 8 (ucast (enc f ! 7)))
        OR ucast (enc f ! 8)) AND 0x7FFFFFFF :: u32) = f_stream f"
    by (simp only: stream_bytes [OF assms(2)])
qed

context record_link
begin

lemma fill_ok:
  assumes "delivers c ps" "accepts c" "need \<le> length (lv @ concat ps)" "need \<le> 16384" "off + length lv \<le> kH2BufSize"
  shows "\<exists>c' off' lv' ps'. fill_loop recv c off lv need = (B_OK, c', off', lv') \<and> delivers c' ps' \<and> accepts c'
     \<and> lv' @ concat ps' = lv @ concat ps \<and> need \<le> length lv' \<and> off' + length lv' \<le> kH2BufSize"
  using assms
proof (induction ps arbitrary: c off lv)
  case Nil
  then have "fill_loop recv c off lv need = (B_OK, c, off, lv)" by (subst fill_loop.simps) simp
  then show ?case using Nil by auto
next
  case (Cons p ps)
  show ?case
  proof (cases "length lv < need")
    case False
    then have "fill_loop recv c off lv need = (B_OK, c, off, lv)" by (subst fill_loop.simps) simp
    then show ?thesis using Cons.prems False by (intro exI [of _ c] exI [of _ off] exI [of _ lv] exI [of _ "p # ps"]) simp
  next
    case True
    define o' where "o' = (if off > 0 \<and> (off + length lv) + kH2MaxFramePayload > kH2BufSize then 0 else off)"
    note sz = delivers_size [OF Cons.prems(1)]
    have room: "o' + length lv + 4077 \<le> kH2BufSize"
      using True Cons.prems(4) by (auto simp: o'_def kH2MaxFramePayload_def kH2BufSize_def)
    then have "length p \<le> kH2BufSize - (o' + length lv)" using sz by linarith
    then obtain c' where c': "recv c (kH2BufSize - (o' + length lv)) = (Plain p, c')" "delivers c' ps"
      using delivers_recv [OF Cons.prems(1)] by blast
    have acc: "accepts c'" using recv_accepts [OF Cons.prems(2), of "kH2BufSize - (o' + length lv)"] c'(1) by simp
    have "fill_loop recv c off lv need = fill_loop recv c' o' (lv @ p) need"
      using True c'(1) sz by (subst fill_loop.simps) (simp add: Let_def o'_def)
    moreover have "o' + length (lv @ p) \<le> kH2BufSize" using room sz by simp
    ultimately show ?thesis using Cons.IH [OF c'(2) acc, of "lv @ p" o'] Cons.prems(3,4) by simp
  qed
qed

lemma raw_ok:
  assumes "h2_stream delivers accepts h (xs @ rest)" "length xs = n" "n \<le> 16384"
  shows "\<exists>h'. ReadRaw recv h n = (B_OK, xs, h') \<and> h2_stream delivers accepts h' rest \<and> h2_same h h'"
proof -
  obtain c ps where c: "fConn h = Some c" "delivers c ps" "accepts c" "fLive h @ concat ps = xs @ rest"
    "fBufOff h + length (fLive h) \<le> kH2BufSize"
    using assms(1) by (auto simp: h2_stream_def)
  have len: "n \<le> length (fLive h @ concat ps)" unfolding c(4) using assms(2) by simp
  obtain c' off' lv' ps' where f: "fill_loop recv c (fBufOff h) (fLive h) n = (B_OK, c', off', lv')" "delivers c' ps'" "accepts c'"
    "lv' @ concat ps' = xs @ rest" "n \<le> length lv'" "off' + length lv' \<le> kH2BufSize"
    using fill_ok [OF c(2,3) len assms(3) c(5)] c(4) by auto
  let ?h = "h\<lparr> fConn := Some c', fBufOff := off' + n, fLive := drop n lv' \<rparr>"
  have xs: "take n lv' = xs" "drop n lv' @ concat ps' = rest"
    using arg_cong [OF f(4), of "take n"] arg_cong [OF f(4), of "drop n"] f(5) assms(2) by auto
  have "ReadRaw recv h n = (B_OK, xs, ?h)"
    using c(1) f(1) assms(3) xs(1) by (simp add: ReadRaw_def Fill_def kH2BufSize_def)
  moreover have "h2_stream delivers accepts ?h rest"
    using f(2,3,5,6) xs(2) by (simp add: h2_stream_def) blast
  ultimately show ?thesis by (auto simp: h2_same_def)
qed

lemma frame_ok_read:
  assumes "h2_stream delivers accepts h (enc f @ rest)" "frame_ok f"
  shows "\<exists>h'. ReadFrame recv h kH2MaxFramePayload = (Inr f, h') \<and> h2_stream delivers accepts h' rest \<and> h2_same h h'"
proof -
  let ?hdr = "take 9 (enc f)"
  have e: "enc f = ?hdr @ f_payload f" "length ?hdr = 9" by (simp_all add: enc_def frame_bytes_def)
  have nth: "?hdr ! i = enc f ! i" if "i < 9" for i using that by simp
  have "h2_stream delivers accepts h (?hdr @ f_payload f @ rest)" using assms(1) e(1) by (metis append.assoc)
  then obtain h1 where h1: "ReadRaw recv h 9 = (B_OK, ?hdr, h1)" "h2_stream delivers accepts h1 (f_payload f @ rest)" "h2_same h h1"
    using raw_ok [of h ?hdr "f_payload f @ rest" 9] e(2) by auto
  obtain h2 where h2: "ReadRaw recv h1 (length (f_payload f)) = (B_OK, f_payload f, h2)" "h2_stream delivers accepts h2 rest" "h2_same h1 h2"
    using raw_ok [OF h1(2) refl] assms(2) by (auto simp: frame_ok_def)
  have hd: "65536 * unat (?hdr ! 0) + 256 * unat (?hdr ! 1) + unat (?hdr ! 2) = length (f_payload f)"
    "((((push_bit 24 (ucast (?hdr ! 5)) OR push_bit 16 (ucast (?hdr ! 6))) OR push_bit 8 (ucast (?hdr ! 7)))
        OR ucast (?hdr ! 8)) AND 0x7FFFFFFF :: u32) = f_stream f" "?hdr ! 3 = f_type f" "?hdr ! 4 = f_flags f"
    using frame_header [of f] assms(2) by (simp_all add: frame_ok_def nth) (simp_all add: enc_def frame_bytes_def)
  show ?thesis
  proof (cases "f_payload f = []")
    case True
    then have "ReadFrame recv h kH2MaxFramePayload = (Inr f, h1)"
      using h1(1) hd by (simp add: ReadFrame_def kH2FrameHeaderLen_def Let_def)
    then show ?thesis using h1 True by auto
  next
    case False
    then have "ReadFrame recv h kH2MaxFramePayload = (Inr f, h2)"
      using h1(1) h2(1) hd assms(2) by (simp add: ReadFrame_def kH2FrameHeaderLen_def kH2MaxFramePayload_def frame_ok_def Let_def)
    then show ?thesis using h1 h2 h2_same_trans by blast
  qed
qed

lemma write_ok:
  assumes "h2_stream delivers accepts h bs"
  shows "h2_stream delivers accepts (snd (WriteFrame send h ty fl sid pl)) bs \<and> h2_same h (snd (WriteFrame send h ty fl sid pl))
     \<and> (length pl \<le> 16384 \<longrightarrow> fst (WriteFrame send h ty fl sid pl) = B_OK)"
proof -
  obtain c ps where c: "fConn h = Some c" "delivers c ps" "accepts c" "fLive h @ concat ps = bs"
    "fBufOff h + length (fLive h) \<le> kH2BufSize"
    using assms by (auto simp: h2_stream_def)
  show ?thesis
  proof (cases "length pl \<le> 16384")
    case True
    let ?c = "snd (send c (frame_bytes ty fl sid pl))"
    have "WriteFrame send h ty fl sid pl = (B_OK, h\<lparr> fConn := Some ?c \<rparr>)"
      using True c(1) send_accepts [OF c(3), of "frame_bytes ty fl sid pl"]
      by (simp add: WriteFrame_def kH2MaxFramePayload_def split_beta)
    moreover have "h2_stream delivers accepts (h\<lparr> fConn := Some ?c \<rparr>) bs"
      using send_delivers [OF c(2)] send_accepts [OF c(3)] c(4,5) by (auto simp: h2_stream_def)
    ultimately show ?thesis by (simp add: h2_same_def)
  next
    case False
    then have "snd (WriteFrame send h ty fl sid pl) = h" using c(1) by (simp add: WriteFrame_def kH2MaxFramePayload_def)
    then show ?thesis using assms False by simp
  qed
qed

lemma write_step:
  assumes "h2_stream delivers accepts h bs" "length pl \<le> 16384"
  shows "\<exists>h'. WriteFrame send h ty fl sid pl = (B_OK, h') \<and> h2_stream delivers accepts h' bs \<and> h2_same h h'"
  using write_ok [OF assms(1), of ty fl sid pl] assms(2) by (cases "WriteFrame send h ty fl sid pl") auto

lemma ack_ok:
  assumes "h2_stream delivers accepts h bs"
  shows "h2_stream delivers accepts (ack_control send h f) bs \<and> h2_same h (ack_control send h f)"
  using write_ok [OF assms] assms by (simp add: ack_control_def)

end

text \<open>
  Frames that a request on stream \<open>sid\<close> passes over, header frames before the last one, and
  the frames that end a \<open>ReadBody\<close> call with the bytes they carry.
\<close>

definition ignorable :: "u32 \<Rightarrow> h2_frame \<Rightarrow> bool" where
  "ignorable sid f \<longleftrightarrow> frame_ok f \<and> f_type f \<noteq> H2_GOAWAY
     \<and> (f_type f = H2_SETTINGS \<or> f_type f = H2_PING \<or> f_stream f \<noteq> sid
        \<or> f_type f \<notin> {H2_RST_STREAM, H2_HEADERS, H2_CONTINUATION, H2_DATA})"

definition header_frame :: "u32 \<Rightarrow> h2_frame \<Rightarrow> bool" where
  "header_frame sid f \<longleftrightarrow> frame_ok f \<and> f_type f \<in> {H2_HEADERS, H2_CONTINUATION} \<and> f_stream f = sid
     \<and> f_flags f AND H2_FLAG_END_STREAM = 0"

definition body_frame :: "u32 \<Rightarrow> h2_frame \<Rightarrow> bool" where
  "body_frame sid f \<longleftrightarrow> frame_ok f \<and> f_type f = H2_DATA \<and> f_stream f = sid \<and> data_fragment f \<noteq> None"

lemma header_frame_type:
  assumes "header_frame sid f"
  shows "(f_type f = H2_SETTINGS \<or> f_type f = H2_PING) = False" "(f_type f = H2_GOAWAY) = False" "(f_type f = H2_RST_STREAM) = False"
    "(f_type f = H2_HEADERS \<or> f_type f = H2_CONTINUATION) = True" "f_stream f = sid" "f_flags f AND H2_FLAG_END_STREAM = 0" "frame_ok f"
  using assms by (auto simp: header_frame_def) (auto simp: h2_consts)

lemma body_frame_type:
  assumes "body_frame sid f"
  shows "(f_type f = H2_SETTINGS \<or> f_type f = H2_PING) = False" "(f_type f = H2_GOAWAY) = False" "(f_type f = H2_RST_STREAM) = False"
    "f_type f = H2_DATA" "f_stream f = sid" "frame_ok f"
  using assms by (auto simp: body_frame_def) (auto simp: h2_consts)

text \<open>
  What RFC 7540 says these frames carry (sections 6.1, 6.2 and 6.10), written out on the payload: a
  DATA frame the piece \<open>p\<close> of the body, with its pad length before and its padding behind it when the
  flag PADDED is set; a HEADERS frame the piece \<open>b\<close> of the header block, also behind five bytes of
  priority when that flag is set; a CONTINUATION frame nothing else.
\<close>

definition padded :: "u8 \<Rightarrow> bytes \<Rightarrow> bytes \<Rightarrow> bool" where
  "padded flags inner payload \<longleftrightarrow>
     (if flags AND 0x08 = 0 then payload = inner
      else \<exists>padding. length padding < 256 \<and> payload = of_nat (length padding) # inner @ padding)"

definition data_frame :: "u32 \<Rightarrow> h2_frame \<Rightarrow> bytes \<Rightarrow> bool" where
  "data_frame sid f p \<longleftrightarrow> frame_ok f \<and> f_type f = H2_DATA \<and> f_stream f = sid \<and> padded (f_flags f) p (f_payload f)"

definition block_frame :: "u32 \<Rightarrow> h2_frame \<Rightarrow> bytes \<Rightarrow> bool" where
  "block_frame sid f b \<longleftrightarrow> frame_ok f \<and> f_stream f = sid \<and> f_flags f AND H2_FLAG_END_STREAM = 0
     \<and> (f_type f = H2_CONTINUATION \<and> f_payload f = b
        \<or> f_type f = H2_HEADERS
          \<and> (\<exists>priority. length priority = (if f_flags f AND 0x20 = 0 then 0 else 5) \<and> padded (f_flags f) (priority @ b) (f_payload f)))"

lemma pad_length: "length xs < 256 \<Longrightarrow> unat (of_nat (length xs) :: u8) = length xs"
  by (simp add: unat_of_nat)

lemma data_frame_fragment:
  assumes "data_frame sid f p"
  shows "body_frame sid f" "data_fragment f = Some p"
proof -
  show "data_fragment f = Some p"
  proof (cases "f_flags f AND 0x08 = 0")
    case True
    then show ?thesis using assms by (simp add: data_frame_def padded_def data_fragment_def)
  next
    case False
    then obtain xs where "length xs < 256" "f_payload f = of_nat (length xs) # p @ xs"
      using assms by (auto simp: data_frame_def padded_def)
    then show ?thesis using False by (simp add: data_fragment_def pad_length slice_def)
  qed
  then show "body_frame sid f" using assms by (simp add: body_frame_def data_frame_def)
qed

lemma slice_inner: "slice (Suc (length a)) (length b) (x # a @ b @ c) = b"
  by (simp add: slice_def)

lemma block_frame_fragment:
  assumes "block_frame sid f b"
  shows "header_frame sid f" "header_fragment f = b"
proof -
  have size: "length (f_payload f) \<le> 16384" using assms by (simp add: block_frame_def frame_ok_def)
  have ne: "H2_CONTINUATION \<noteq> H2_HEADERS" by (simp add: h2_consts)
  show "header_frame sid f" using assms by (auto simp: block_frame_def header_frame_def)
  have len: "unat (of_nat n :: u64) = n" "(of_nat m :: u64) \<le> of_nat n \<longleftrightarrow> m \<le> n" if "n \<le> 17000" "m \<le> 17000" for m n
    using that by (simp_all add: unat_of_nat word_le_nat_alt)
  consider "f_type f = H2_CONTINUATION" "f_payload f = b"
    | q where "f_type f = H2_HEADERS" "length q = (if f_flags f AND 0x20 = 0 then 0 else 5)" "padded (f_flags f) (q @ b) (f_payload f)"
    using assms by (auto simp: block_frame_def)
  then show "header_fragment f = b"
  proof cases
    case 1
    then show ?thesis using size ne len [of "length b" 0] by (simp add: header_fragment_def slice_def)
  next
    case 2
    define off where "off = length q"
    have off: "(if f_flags f AND 0x20 \<noteq> 0 then x + 5 else x) = x + of_nat off" for x :: u64
      using 2(2) by (simp add: off_def)
    show ?thesis
    proof (cases "f_flags f AND 0x08 = 0")
      case True
      then have p: "f_payload f = q @ b" using 2(3) by (simp add: padded_def)
      then have "off \<le> length (f_payload f)" by (simp add: off_def)
      then show ?thesis
        using size 2(1) True len [of "length (f_payload f)" off] len [of off 0] off [of 0] p
        by (simp add: header_fragment_def Let_def slice_def off_def)
    next
      case False
      then obtain xs where xs: "length xs < 256" "f_payload f = of_nat (length xs) # (q @ b) @ xs"
        using 2(3) by (auto simp: padded_def)
      define n where "n = Suc (off + length b)"
      have n: "length (f_payload f) = n + length xs" "n \<le> 17000" "Suc off \<le> n" "length (f_payload f) \<le> 17000"
        using xs(2) size by (simp_all add: n_def off_def)
      have "ucast (of_nat (length xs) :: u8) = (of_nat (length xs) :: u64)"
        by (rule unat_inj) (use xs(1) in \<open>simp add: unat_ucast_up pad_length unat_of_nat\<close>)
      then have "of_nat (length (f_payload f)) - ucast (f_payload f ! 0) = (of_nat n :: u64)"
        using xs(2) unfolding n(1) by (simp add: n_def off_def)
      moreover have "(1 :: u64) + of_nat off = of_nat (Suc off)" by simp
      moreover have "0 < (of_nat (length (f_payload f)) :: u64)"
        using n len [of "length (f_payload f)" 0] by (simp add: word_less_nat_alt)
      ultimately show ?thesis
        using 2(1) False off [of 1] n len [of n "Suc off"] len [of "length (f_payload f)" n] len [of "Suc off" 0] xs(2)
          slice_inner [of q b "of_nat (length xs)" xs]
        by (simp add: header_fragment_def Let_def off_def n_def del: of_nat_Suc)
    qed
  qed
qed

definition encs :: "h2_frame list \<Rightarrow> bytes" where
  "encs fs = concat (map enc fs)"

lemma encs_simps [simp]: "encs [] = []" "encs (f # fs) = enc f @ encs fs" "encs (fs @ gs) = encs fs @ encs gs"
  by (simp_all add: encs_def)

context record_link
begin

lemma begin_skip:
  assumes "ignorable sid f" "h2_stream delivers accepts h (enc f @ bs)"
  shows "\<exists>h'. (\<forall>n block. begin_loop recv send (Suc n) h sid block = begin_loop recv send n h' sid block)
     \<and> (\<forall>n. fReqStream h = sid \<longrightarrow> body_loop recv send (Suc n) h = body_loop recv send n h')
     \<and> h2_stream delivers accepts h' bs \<and> h2_same h h'"
proof -
  obtain h1 where h1: "ReadFrame recv h kH2MaxFramePayload = (Inr f, h1)" "h2_stream delivers accepts h1 bs" "h2_same h h1"
    using frame_ok_read [OF assms(2)] assms(1) by (auto simp: ignorable_def)
  have sid: "fReqStream h1 = fReqStream h" using h1(3) by (simp add: h2_same_def)
  show ?thesis
  proof (cases "f_type f = H2_SETTINGS \<or> f_type f = H2_PING")
    case True
    have "begin_loop recv send (Suc n) h sid block = begin_loop recv send n (ack_control send h1 f) sid block" for n block
      unfolding begin_loop.simps h1(1) prod.case sum.case using True by (simp only: if_True)
    moreover have "body_loop recv send (Suc n) h = body_loop recv send n (ack_control send h1 f)" for n
      unfolding body_loop.simps h1(1) prod.case sum.case using True by (simp only: if_True)
    ultimately show ?thesis using h1(3) ack_ok [OF h1(2), of f] h2_same_trans by blast
  next
    case False
    then have t: "(f_type f = H2_GOAWAY) = False" "(f_type f = H2_RST_STREAM \<and> f_stream f = sid) = False"
      "((f_type f = H2_HEADERS \<or> f_type f = H2_CONTINUATION) \<and> f_stream f = sid) = False"
      "(f_type f = H2_DATA \<and> f_stream f = sid) = False"
      "(f_type f = H2_HEADERS \<and> f_stream f = sid \<and> f_flags f AND H2_FLAG_END_STREAM \<noteq> 0) = False"
      using assms(1) unfolding ignorable_def by blast+
    have "begin_loop recv send (Suc n) h sid block = begin_loop recv send n h1 sid block" for n block
      unfolding begin_loop.simps h1(1) prod.case sum.case t if_False using False by (simp only: if_False)
    moreover have "body_loop recv send (Suc n) h = body_loop recv send n h1" if "fReqStream h = sid" for n
      unfolding body_loop.simps h1(1) prod.case sum.case sid that t if_False using False by (simp only: if_False)
    ultimately show ?thesis using h1 by blast
  qed
qed

lemma begin_header:
  assumes "header_frame sid f" "f_flags f AND H2_FLAG_END_HEADERS = 0" "h2_stream delivers accepts h (enc f @ bs)"
  shows "\<exists>h'. (\<forall>n block. begin_loop recv send (Suc n) h sid block = begin_loop recv send n h' sid (block @ header_fragment f))
     \<and> h2_stream delivers accepts h' bs \<and> h2_same h h'"
proof -
  obtain h1 where "ReadFrame recv h kH2MaxFramePayload = (Inr f, h1)" "h2_stream delivers accepts h1 bs" "h2_same h h1"
    using frame_ok_read [OF assms(3)] header_frame_type(7) [OF assms(1)] by blast
  then show ?thesis using assms(2)
    by (intro exI [of _ h1]) (simp add: begin_loop.simps header_frame_type [OF assms(1)] Let_def)
qed

lemma begin_last:
  assumes "header_frame sid f" "f_flags f AND H2_FLAG_END_HEADERS \<noteq> 0" "h2_stream delivers accepts h (enc f @ bs)"
    and "Decode (fDecoder h) (block @ header_fragment f) [] = (B_OK, d, hdrs)"
  shows "\<exists>h'. begin_loop recv send (Suc n) h sid block = (Inr (status_of hdrs), h'\<lparr> fDecoder := d \<rparr>)
     \<and> h2_stream delivers accepts h' bs \<and> h2_same h h'"
proof -
  obtain h1 where "ReadFrame recv h kH2MaxFramePayload = (Inr f, h1)" "h2_stream delivers accepts h1 bs" "h2_same h h1"
    using frame_ok_read [OF assms(3)] header_frame_type(7) [OF assms(1)] by blast
  then show ?thesis using assms(2,4)
    by (intro exI [of _ h1]) (simp add: begin_loop.simps header_frame_type [OF assms(1)] Let_def h2_same_def)
qed

text \<open>Everything up to the end of the response header block.\<close>

lemma begin_ok:
  assumes "\<forall>g\<in>set fs. ignorable sid g \<or> header_frame sid g \<and> f_flags g AND H2_FLAG_END_HEADERS = 0"
    and "header_frame sid f" "f_flags f AND H2_FLAG_END_HEADERS \<noteq> 0"
    and "h2_stream delivers accepts h (encs fs @ enc f @ bs)" "length fs < n"
    and "Decode (fDecoder h) (block @ concat (map (\<lambda>g. if ignorable sid g then [] else header_fragment g) fs) @ header_fragment f) []
           = (B_OK, d, hdrs)"
  shows "\<exists>h'. begin_loop recv send n h sid block = (Inr (status_of hdrs), h'\<lparr> fDecoder := d \<rparr>)
     \<and> h2_stream delivers accepts h' bs \<and> h2_same h h'"
  using assms
proof (induction fs arbitrary: h n block)
  case Nil
  then obtain m where "n = Suc m" by (cases n) auto
  then show ?case using begin_last [of sid f h bs block d hdrs m] Nil.prems by simp
next
  case (Cons g fs)
  obtain m where m: "n = Suc m" "length fs < m" using Cons.prems(5) by (cases n) auto
  have s: "h2_stream delivers accepts h (enc g @ encs fs @ enc f @ bs)" using Cons.prems(4) by simp
  let ?b = "if ignorable sid g then block else block @ header_fragment g"
  have "\<exists>h'. begin_loop recv send (Suc m) h sid block = begin_loop recv send m h' sid ?b
     \<and> h2_stream delivers accepts h' (encs fs @ enc f @ bs) \<and> h2_same h h'"
  proof (cases "ignorable sid g")
    case True
    then show ?thesis using begin_skip [OF True s] by auto
  next
    case False
    then show ?thesis using begin_header [OF _ _ s, of sid] Cons.prems(1) by auto
  qed
  then obtain h1 where h1: "begin_loop recv send n h sid block = begin_loop recv send m h1 sid ?b"
    "h2_stream delivers accepts h1 (encs fs @ enc f @ bs)" "h2_same h h1"
    unfolding m by blast
  have "\<exists>h'. begin_loop recv send m h1 sid ?b = (Inr (status_of hdrs), h'\<lparr> fDecoder := d \<rparr>)
     \<and> h2_stream delivers accepts h' bs \<and> h2_same h1 h'"
    by (rule Cons.IH) (use Cons.prems(1-3,6) m h1 in \<open>auto simp: h2_same_def\<close>)
  then show ?case using h1(1,3) h2_same_trans by metis
qed

lemma replenish_ok:
  assumes "h2_stream delivers accepts h bs"
  shows "h2_stream delivers accepts (replenish send h n) bs \<and> h2_same h (replenish send h n)"
proof -
  define h1 where "h1 = snd (WriteFrame send h H2_WINDOW_UPDATE 0 (fReqStream h) (be32 n))"
  have h1: "h2_stream delivers accepts h1 bs" "h2_same h h1" using write_ok [OF assms] unfolding h1_def by blast+
  show ?thesis
    using assms h1(2) write_ok [OF h1(1), of H2_WINDOW_UPDATE 0 0 "be32 n"]
    unfolding replenish_def Let_def h1_def [symmetric] by (cases "n = 0") (simp_all add: h2_same_def)
qed

lemma stream_ended [simp]: "h2_stream delivers accepts (h\<lparr> fReqEnded := b \<rparr>) bs = h2_stream delivers accepts h bs"
  and stream_decoder [simp]: "h2_stream delivers accepts (h\<lparr> fDecoder := d \<rparr>) bs = h2_stream delivers accepts h bs"
  by (simp_all add: h2_stream_def)

lemma body_ok:
  assumes "\<forall>g\<in>set ctl. ignorable (fReqStream h) g" "body_frame (fReqStream h) f"
    and "h2_stream delivers accepts h (encs ctl @ enc f @ bs)" "length ctl < n"
  shows "\<exists>h'. body_loop recv send n h = Some (Inr (the (data_fragment f)), h') \<and> h2_stream delivers accepts h' bs
     \<and> fReqStream h' = fReqStream h \<and> fNextStreamId h' = fNextStreamId h \<and> fDecoder h' = fDecoder h
     \<and> fReqEnded h' = (if f_flags f AND H2_FLAG_END_STREAM = 0 then fReqEnded h else True)"
  using assms
proof (induction ctl arbitrary: h n)
  case Nil
  then obtain m where m: "n = Suc m" by (cases n) auto
  obtain h1 where h1: "ReadFrame recv h kH2MaxFramePayload = (Inr f, h1)" "h2_stream delivers accepts h1 bs" "h2_same h h1"
    using frame_ok_read [of h f bs] Nil.prems(3) body_frame_type(6) [OF Nil.prems(2)] by auto
  obtain d where d: "data_fragment f = Some d" using Nil.prems(2) by (auto simp: body_frame_def)
  let ?h = "replenish send h1 (length (f_payload f))"
  note r = replenish_ok [OF h1(2), of "length (f_payload f)"]
  have sid: "fReqStream h1 = fReqStream h" using h1(3) by (simp add: h2_same_def)
  have "body_loop recv send n h = Some (Inr d, if f_flags f AND H2_FLAG_END_STREAM = 0 then ?h else ?h\<lparr> fReqEnded := True \<rparr>)"
    unfolding m body_loop.simps h1(1) prod.case sum.case body_frame_type(1-3) [OF Nil.prems(2)] if_False
    by (simp add: body_frame_type(4,5) [OF Nil.prems(2)] sid d Let_def)
  then show ?case using d r h1(3) by (auto simp: h2_same_def)
next
  case (Cons g ctl)
  obtain m where m: "n = Suc m" "length ctl < m" using Cons.prems(4) by (cases n) auto
  have s: "h2_stream delivers accepts h (enc g @ encs ctl @ enc f @ bs)" using Cons.prems(3) by simp
  obtain h1 where h1: "body_loop recv send (Suc m) h = body_loop recv send m h1"
    "h2_stream delivers accepts h1 (encs ctl @ enc f @ bs)" "h2_same h h1"
    using begin_skip [OF _ s] Cons.prems(1) by force
  then show ?case using Cons.IH [of h1 m] Cons.prems(1,2) m by (auto simp: h2_same_def)
qed

lemma request_loop_ok:
  assumes "segs \<noteq> []"
    and "\<forall>(ctl, f)\<in>set segs. (\<forall>g\<in>set ctl. ignorable (fReqStream h) g) \<and> length ctl < 100000 \<and> body_frame (fReqStream h) f"
    and "\<forall>(ctl, f)\<in>set (butlast segs). f_flags f AND H2_FLAG_END_STREAM = 0" "f_flags (snd (last segs)) AND H2_FLAG_END_STREAM \<noteq> 0"
    and "h2_stream delivers accepts h (concat (map (\<lambda>(ctl, f). encs ctl @ enc f) segs) @ bs)" "\<not> fReqEnded h" "length segs \<le> fuel"
  shows "\<exists>h'. request_loop recv send fuel h acc
         = Some (Some (Inr (acc @ concat (map (\<lambda>(ctl, f). until_nul (the (data_fragment f))) segs)), h'))
     \<and> h2_stream delivers accepts h' bs \<and> fReqEnded h' \<and> fReqStream h' = fReqStream h \<and> fNextStreamId h' = fNextStreamId h \<and> fDecoder h' = fDecoder h"
  using assms
proof (induction segs arbitrary: h acc fuel)
  case (Cons cf segs)
  obtain ctl f where cf: "cf = (ctl, f)" by (cases cf)
  obtain k where k: "fuel = Suc k" "length segs \<le> k" using Cons.prems(7) by (cases fuel) auto
  have s: "h2_stream delivers accepts h (encs ctl @ enc f @ concat (map (\<lambda>(ctl, f). encs ctl @ enc f) segs) @ bs)"
    using Cons.prems(5) cf by simp
  have c: "\<forall>g\<in>set ctl. ignorable (fReqStream h) g" "body_frame (fReqStream h) f" "length ctl < 100000"
    using Cons.prems(2) cf by auto
  obtain h1 where h1: "body_loop recv send 100000 h = Some (Inr (the (data_fragment f)), h1)"
    "h2_stream delivers accepts h1 (concat (map (\<lambda>(ctl, f). encs ctl @ enc f) segs) @ bs)"
    "fReqStream h1 = fReqStream h" "fNextStreamId h1 = fNextStreamId h" "fDecoder h1 = fDecoder h"
    "fReqEnded h1 = (f_flags f AND H2_FLAG_END_STREAM \<noteq> 0)"
    using body_ok [OF c(1,2) s c(3)] Cons.prems(6) by (auto split: if_splits)
  have rb: "ReadBody recv send h kH2MaxFramePayload = Some (Inr (the (data_fragment f)), h1)"
    using h1(1) Cons.prems(6) by (simp add: ReadBody_def)
  show ?case
  proof (cases "segs = []")
    case True
    then show ?thesis using k cf rb h1 Cons.prems(4) by (auto simp: Let_def)
  next
    case False
    then have "f_flags f AND H2_FLAG_END_STREAM = 0" using Cons.prems(3) cf by auto
    then show ?thesis
      using Cons.IH [of h1 k "acc @ until_nul (the (data_fragment f))"] False k cf rb h1 Cons.prems(2-4)
      by (auto simp: Let_def)
  qed
qed simp

lemma Request_ok:
  assumes "h2_stream delivers accepts h (encs fs @ enc f @ concat (map (\<lambda>(ctl, g). encs ctl @ enc g) segs) @ bs)"
    and sid: "sid = fNextStreamId h"
    and fs: "\<forall>g\<in>set fs. ignorable sid g \<or> header_frame sid g \<and> f_flags g AND H2_FLAG_END_HEADERS = 0" "length fs < 100000"
    and f: "header_frame sid f" "f_flags f AND H2_FLAG_END_HEADERS \<noteq> 0"
    and d: "Decode (fDecoder h) (concat (map (\<lambda>g. if ignorable sid g then [] else header_fragment g) fs) @ header_fragment f) [] = (B_OK, d, hdrs)"
    and segs: "segs \<noteq> []" "\<forall>(ctl, g)\<in>set segs. (\<forall>g\<in>set ctl. ignorable sid g) \<and> length ctl < 100000 \<and> body_frame sid g"
      "\<forall>(ctl, g)\<in>set (butlast segs). f_flags g AND H2_FLAG_END_STREAM = 0" "f_flags (snd (last segs)) AND H2_FLAG_END_STREAM \<noteq> 0"
    and sz: "length (concat (map (\<lambda>(n, v). AddHeader n v) (request_headers meth scheme authority path contentType body))) \<le> 16384"
      "length body \<le> 16384"
    and fuel: "length segs \<le> fuel"
  shows "\<exists>h'. Request recv send fuel h meth scheme authority path contentType body
       = Some (Some (Inr (status_of hdrs, concat (map (\<lambda>(ctl, g). until_nul (the (data_fragment g))) segs)), h'))
     \<and> h2_stream delivers accepts h' bs \<and> fNextStreamId h' = sid + 2 \<and> fDecoder h' = d"
proof -
  let ?all = "encs fs @ enc f @ concat (map (\<lambda>(ctl, g). encs ctl @ enc g) segs) @ bs"
  define hs where "hs = concat (map (\<lambda>(n, v). AddHeader n v) (request_headers meth scheme authority path contentType body))"
  define fl where "fl = H2_FLAG_END_HEADERS OR (if length body > 0 then 0 else H2_FLAG_END_STREAM)"
  define h0 where "h0 = h\<lparr> fNextStreamId := sid + 2, fReqStream := sid, fReqEnded := False \<rparr>"
  have conn: "fConn h \<noteq> None" and h0: "h2_stream delivers accepts h0 ?all" using assms(1) by (auto simp: h2_stream_def h0_def)
  obtain h1 where h1: "WriteFrame send h0 H2_HEADERS fl sid hs = (B_OK, h1)" "h2_stream delivers accepts h1 ?all" "h2_same h0 h1"
    using write_step [OF h0] sz(1) unfolding hs_def [symmetric] by blast
  obtain h2 where h2: "(if length body > 0 then WriteFrame send h1 H2_DATA H2_FLAG_END_STREAM sid body else (B_OK, h1)) = (B_OK, h2)"
    "h2_stream delivers accepts h2 ?all" "h2_same h0 h2"
  proof (cases "length body > 0")
    case True
    obtain h2 where w: "WriteFrame send h1 H2_DATA H2_FLAG_END_STREAM sid body = (B_OK, h2)" "h2_stream delivers accepts h2 ?all" "h2_same h1 h2"
      using write_step [OF h1(2) sz(2)] by blast
    show ?thesis using that [of h2] True w(1,2) h2_same_trans [OF h1(3) w(3)] by (simp only: if_True)
  next
    case False
    then show ?thesis using that h1 by simp
  qed
  have "BeginRequest recv send h meth scheme authority path contentType body = begin_loop recv send 100000 h2 sid []"
    using h1(1) h2(1) unfolding BeginRequest_def if_not_P [OF conn] Let_def hs_def [symmetric] fl_def [symmetric] sid [symmetric] h0_def [symmetric]
    by simp
  moreover have "fDecoder h2 = fDecoder h" using h2(3) by (simp add: h2_same_def h0_def)
  ultimately obtain h3 where h3: "BeginRequest recv send h meth scheme authority path contentType body = (Inr (status_of hdrs), h3\<lparr> fDecoder := d \<rparr>)"
    "h2_stream delivers accepts h3 (concat (map (\<lambda>(ctl, g). encs ctl @ enc g) segs) @ bs)" "h2_same h2 h3"
    using begin_ok [OF fs(1) f h2(2) fs(2), of "[]" d hdrs] d by auto
  have "fReqStream h3 = sid" "\<not> fReqEnded h3" "fNextStreamId h3 = sid + 2" using h3(3) h2(3) by (simp_all add: h2_same_def h0_def)
  then show ?thesis
    using request_loop_ok [of segs "h3\<lparr> fDecoder := d \<rparr>" bs fuel "[]"] segs fuel h3 by (auto simp: Request_def)
qed

text \<open>The SETTINGS exchange ends with the frame that completes it.\<close>

lemma settings_loop_ok:
  assumes "\<forall>f\<in>set fs. frame_ok f \<and> f_type f \<noteq> H2_GOAWAY" "length fs \<le> n"
    and "ours \<or> (\<exists>f\<in>set fs. f_type f = H2_SETTINGS \<and> f_flags f AND H2_FLAG_ACK \<noteq> 0)"
    and "theirs \<or> (\<exists>f\<in>set fs. f_type f = H2_SETTINGS \<and> f_flags f AND H2_FLAG_ACK = 0)"
    and "fs \<noteq> [] \<longrightarrow> \<not> ((ours \<or> (\<exists>f\<in>set (butlast fs). f_type f = H2_SETTINGS \<and> f_flags f AND H2_FLAG_ACK \<noteq> 0))
       \<and> (theirs \<or> (\<exists>f\<in>set (butlast fs). f_type f = H2_SETTINGS \<and> f_flags f AND H2_FLAG_ACK = 0)))"
    and "h2_stream delivers accepts h (encs fs @ bs)"
  shows "\<exists>h'. settings_loop recv send n h ours theirs = (B_OK, h') \<and> h2_stream delivers accepts h' bs \<and> h2_same h h'"
  using assms
proof (induction fs arbitrary: h n ours theirs)
  case Nil
  then show ?case by (cases n) auto
next
  case (Cons f fs)
  obtain m where m: "n = Suc m" "length fs \<le> m" using Cons.prems(2) by (cases n) auto
  have open': "\<not> (ours \<and> theirs)" using Cons.prems(5) by auto
  obtain h1 where h1: "ReadFrame recv h kH2MaxFramePayload = (Inr f, h1)" "h2_stream delivers accepts h1 (encs fs @ bs)" "h2_same h h1"
    using frame_ok_read [of h f "encs fs @ bs"] Cons.prems(1,6) by auto
  let ?a = "ours \<or> f_type f = H2_SETTINGS \<and> f_flags f AND H2_FLAG_ACK \<noteq> 0"
  let ?b = "theirs \<or> f_type f = H2_SETTINGS \<and> f_flags f AND H2_FLAG_ACK = 0"
  define h2 where "h2 = (if f_type f = H2_SETTINGS \<and> f_flags f AND H2_FLAG_ACK = 0
    then snd (WriteFrame send h1 H2_SETTINGS H2_FLAG_ACK 0 []) else h1)"
  have w: "h2_stream delivers accepts h2 (encs fs @ bs)" "h2_same h h2" "fst (WriteFrame send h1 H2_SETTINGS H2_FLAG_ACK 0 []) = B_OK"
    using write_ok [OF h1(2), of H2_SETTINGS H2_FLAG_ACK 0 "[]"] h1(2,3) h2_same_trans by (auto simp: h2_def)
  have "settings_loop recv send n h ours theirs = settings_loop recv send m h2 ?a ?b"
    using Cons.prems(1) w(3) unfolding m h2_def settings_loop.simps if_not_P [OF open']
    by (cases "f_type f = H2_SETTINGS"; cases "f_flags f AND H2_FLAG_ACK = 0") (simp_all add: h1(1) split_beta)
  moreover have "\<exists>h'. settings_loop recv send m h2 ?a ?b = (B_OK, h') \<and> h2_stream delivers accepts h' bs \<and> h2_same h2 h'"
    by (rule Cons.IH) (use Cons.prems(1,3-5) m(2) w(1) in auto)
  ultimately show ?case using w(2) h2_same_trans by metis
qed

lemma Bootstrap_ok:
  assumes "h2_stream delivers accepts h (kEarlyMagic @ be32 (length json) @ json @ encs fs @ bs)" "length json \<le> 8192"
    and fs: "\<forall>f\<in>set fs. frame_ok f \<and> f_type f \<noteq> H2_GOAWAY" "length fs \<le> 32"
      "\<exists>f\<in>set fs. f_type f = H2_SETTINGS \<and> f_flags f AND H2_FLAG_ACK \<noteq> 0"
      "\<exists>f\<in>set fs. f_type f = H2_SETTINGS \<and> f_flags f AND H2_FLAG_ACK = 0"
      "\<not> ((\<exists>f\<in>set (butlast fs). f_type f = H2_SETTINGS \<and> f_flags f AND H2_FLAG_ACK \<noteq> 0)
        \<and> (\<exists>f\<in>set (butlast fs). f_type f = H2_SETTINGS \<and> f_flags f AND H2_FLAG_ACK = 0))"
  shows "\<exists>h'. Bootstrap recv send h = (B_OK, Some (c_str (map chr_of_byte json)), h') \<and> h2_stream delivers accepts h' bs \<and> h2_same h h'"
proof -
  have conn: "fConn h \<noteq> None" using assms(1) by (auto simp: h2_stream_def)
  obtain h1 where h1: "ReadRaw recv h 5 = (B_OK, kEarlyMagic, h1)"
    "h2_stream delivers accepts h1 (be32 (length json) @ json @ encs fs @ bs)" "h2_same h h1"
    using raw_ok [OF assms(1), of 5] by (auto simp: kEarlyMagic_def)
  obtain h2 where h2: "ReadRaw recv h1 4 = (B_OK, be32 (length json), h2)"
    "h2_stream delivers accepts h2 (json @ encs fs @ bs)" "h2_same h1 h2"
    using raw_ok [OF h1(2), of 4] by (auto simp: be32_def)
  obtain h3 where h3: "ReadRaw recv h2 (length json) = (B_OK, json, h3)" "h2_stream delivers accepts h3 (encs fs @ bs)" "h2_same h2 h3"
    using raw_ok [OF h2(2) refl] assms(2) by auto
  obtain c ps where c: "fConn h3 = Some c" "delivers c ps" "accepts c" "fLive h3 @ concat ps = encs fs @ bs"
    "fBufOff h3 + length (fLive h3) \<le> kH2BufSize"
    using h3(2) by (auto simp: h2_stream_def)
  obtain c4 where c4: "send c (map byte_of_chr kH2Preface) = (B_OK, c4)" "delivers c4 ps" "accepts c4"
    using send_delivers [OF c(2), of "map byte_of_chr kH2Preface"] send_accepts [OF c(3), of "map byte_of_chr kH2Preface"]
    by (cases "send c (map byte_of_chr kH2Preface)") auto
  define h4 where "h4 = h3\<lparr> fConn := Some c4 \<rparr>"
  have h4: "h2_stream delivers accepts h4 (encs fs @ bs)" "h2_same h3 h4"
    using c4 c(4,5) by (auto simp: h2_stream_def h2_same_def h4_def)
  obtain h5 where h5: "WriteFrame send h4 H2_SETTINGS 0 0 [] = (B_OK, h5)" "h2_stream delivers accepts h5 (encs fs @ bs)" "h2_same h4 h5"
    using write_step [OF h4(1), of "[]" H2_SETTINGS 0 0] by auto
  obtain h6 where h6: "settings_loop recv send 32 h5 False False = (B_OK, h6)" "h2_stream delivers accepts h6 bs" "h2_same h5 h6"
    using settings_loop_ok [OF fs(1,2), of False False h5 bs] fs(3-5) h5(2) by auto
  let ?b = "be32 (length json)"
  have "length json div 16777216 = 0" "length json div 65536 = 0" "length json div 256 < 256"
    using assms(2) by (simp, simp, intro less_mult_imp_div_less) simp
  then have len: "16777216 * unat (?b ! 0) + 65536 * unat (?b ! 1) + 256 * unat (?b ! 2) + unat (?b ! 3) = length json"
    by (simp add: be32_def unat_of_nat)
  have "Bootstrap recv send h = (B_OK, Some (c_str (map chr_of_byte json)), h6)"
    unfolding Bootstrap_def if_not_P [OF conn] h1(1) h2(1) prod.case Let_def len
    using assms(2) c(1) c4(1) h3(1) h5(1) h6(1) by (simp add: h4_def)
  then show ?thesis using h6 h5(3) h4(2) h3(3) h2(3) h1(3) by (simp add: h2_same_def)
qed

end

text \<open>The record connection of theory \<open>ControlConn\<close> is such a link.\<close>

interpretation cc: record_link "ReadRecord os" "WriteMessage os" "conn_delivers os" "writable os" for os
proof
  show "conn_delivers os c (p # ps) \<Longrightarrow> length p \<le> cap \<Longrightarrow> \<exists>c'. ReadRecord os c cap = (Plain p, c') \<and> conn_delivers os c' ps" for c p ps cap
    by (rule delivers_ReadRecord)
  show "conn_delivers os c (p # ps) \<Longrightarrow> p \<noteq> [] \<and> length p \<le> 4077" for c p ps
    by (simp add: conn_delivers_def)
  show "conn_delivers os c ps \<Longrightarrow> conn_delivers os (snd (WriteMessage os c d)) ps" for c ps d
    by (simp add: conn_delivers_def WriteMessage_incoming)
  show "writable os c \<Longrightarrow> fst (WriteMessage os c d) = B_OK \<and> writable os (snd (WriteMessage os c d))" for c d
    by (rule WriteMessage_writable)
  show "writable os c \<Longrightarrow> writable os (snd (ReadRecord os c cap))" for c cap
    by (rule ReadRecord_writable)
qed

text \<open>The bytes that an HTTP/2 connection over a record connection has still to read.\<close>

definition http2_incoming :: "openssl \<Rightarrow> control_conn http2_conn \<Rightarrow> bytes \<Rightarrow> bool" where
  "http2_incoming os = h2_stream (conn_delivers os) (writable os)"

text \<open>A fresh connection with given bytes sealed by its peer, for the examples.\<close>

definition toy_http2 :: "bytes list \<Rightarrow> control_conn http2_conn" where
  "toy_http2 ps = Http2.Init Http2Conn (ControlConn.Init ControlConn
     \<lparr> rx = [Data (sealed toy_openssl (replicate 32 2) 0 ps)], tx = [], wr = [] \<rparr> (replicate 32 1) (replicate 32 2) [])"

lemma toy_http2_incoming:
  assumes "ps \<noteq> []" "\<forall>p\<in>set ps. p \<noteq> [] \<and> length p \<le> 4077"
  shows "http2_incoming toy_openssl (toy_http2 ps) (concat ps)"
proof -
  have "sealed toy_openssl (replicate 32 2) 0 ps \<noteq> []" using assms(1) by (cases ps) (auto simp: record_frame_def)
  then show ?thesis unfolding http2_incoming_def h2_stream_def
    by (intro exI [of _ "the (fConn (toy_http2 ps))"] exI [of _ ps])
      (use assms(2) in \<open>simp add: toy_http2_def Http2.Init_def ControlConn.Init_def conn_delivers_def writable_def toy_aead_laws
        readable_def incoming_def ControlConn_def slice_def\<close>)
qed

lemma toy_http2_state [simp]: "fNextStreamId (toy_http2 ps) = 1" "fReqEnded (toy_http2 ps) = True" "fDecoder (toy_http2 ps) = HpackDecoder"
  by (simp_all add: toy_http2_def Http2.Init_def Http2Conn_def)

text \<open>
  HTTP/2 frame transport: a frame of at most 16384 payload bytes is read back with its
  type, flags, stream and payload, wherever the 4077-byte records of the control connection
  cut it and whatever follows; the bytes behind it stay unread, and the connection can read
  and write on.
\<close>

theorem http2_frame_roundtrip:
  assumes "http2_incoming os h (frame_bytes ty fl sid payload @ rest)" "length payload \<le> 16384" "sid < 0x80000000"
  shows "\<exists>h'. ReadFrame (ReadRecord os) h kH2MaxFramePayload
         = (Inr \<lparr> f_type = ty, f_flags = fl, f_stream = sid, f_payload = payload \<rparr>, h')
     \<and> http2_incoming os h' rest"
proof -
  let ?f = "\<lparr> f_type = ty, f_flags = fl, f_stream = sid, f_payload = payload \<rparr>"
  have "frame_ok ?f" "enc ?f = frame_bytes ty fl sid payload" using assms(2,3) by (simp_all add: frame_ok_def enc_def)
  then show ?thesis using cc.frame_ok_read [of os h ?f rest] assms(1) by (auto simp: http2_incoming_def)
qed

theorem http2_frame_roundtrip_witness:
  "\<exists>h'. ReadFrame (ReadRecord toy_openssl) (toy_http2 [[0, 0, 3, 0, 1], [0, 0, 0, 5, 9, 8], [7, 6]]) kH2MaxFramePayload
     = (Inr \<lparr> f_type = H2_DATA, f_flags = 1, f_stream = 5, f_payload = [9, 8, 7] \<rparr>, h') \<and> http2_incoming toy_openssl h' [6]"
proof (rule http2_frame_roundtrip)
  have "http2_incoming toy_openssl (toy_http2 [[0, 0, 3, 0, 1], [0, 0, 0, 5, 9, 8], [7, 6]]) (concat [[0, 0, 3, 0, 1], [0, 0, 0, 5, 9, 8], [7, 6]])"
    by (rule toy_http2_incoming) simp_all
  then show "http2_incoming toy_openssl (toy_http2 [[0, 0, 3, 0, 1], [0, 0, 0, 5, 9, 8], [7, 6]])
      (frame_bytes H2_DATA 1 5 [9, 8, 7] @ [6])"
    by (simp add: frame_bytes_def H2_DATA_def)
qed simp_all

text \<open>The status of a header block that names it once.\<close>

lemma status_of_unique:
  assumes "filter (\<lambda>x. name x = '':status'') hdrs = [\<lparr> name = '':status'', val = show_nat st \<rparr>]" "st < 1000"
  shows "status_of hdrs = int st"
proof -
  have "foldl (\<lambda>st h. if name h = '':status'' then atoi (val h) else st) s0 hs
      = (case filter (\<lambda>x. name x = '':status'') hs of [] \<Rightarrow> s0 | xs \<Rightarrow> atoi (val (last xs)))" for s0 hs
    by (induction hs arbitrary: s0) (auto split: list.splits)
  then have "status_of hdrs = (case filter (\<lambda>x. name x = '':status'') hdrs of [] \<Rightarrow> 0 | xs \<Rightarrow> atoi (val (last xs)))"
    unfolding status_of_def .
  then show ?thesis using assms(2) unfolding assms(1) by (simp add: atoi_show_nat)
qed

text \<open>A piece of text, as the bytes that \<open>BString::Append\<close> takes whole.\<close>

lemma until_nul_text: "0 \<notin> set p \<Longrightarrow> until_nul p = p"
  unfolding until_nul_def by (rule takeWhile_eq_all_conv [THEN iffD2]) auto

lemma segment_pieces:
  assumes "\<forall>(ctl, g, p)\<in>set segs. (\<forall>g\<in>set ctl. ignorable sid g) \<and> length ctl < 100000 \<and> data_frame sid g p \<and> 0 \<notin> set p"
  shows "\<forall>(ctl, g)\<in>set (map (\<lambda>(ctl, g, p). (ctl, g)) segs). (\<forall>g\<in>set ctl. ignorable sid g) \<and> length ctl < 100000 \<and> body_frame sid g"
    "concat (map (\<lambda>(ctl, g). until_nul (the (data_fragment g))) (map (\<lambda>(ctl, g, p). (ctl, g)) segs)) = concat (map (\<lambda>(ctl, g, p). p) segs)"
    "concat (map (\<lambda>(ctl, g). encs ctl @ enc g) (map (\<lambda>(ctl, g, p). (ctl, g)) segs)) = concat (map (\<lambda>(ctl, g, p). encs ctl @ enc g) segs)"
  using assms by (induction segs) (auto simp: data_frame_fragment until_nul_text)

lemma block_pieces:
  assumes "\<forall>(g, c)\<in>set fs. ignorable sid g \<and> c = [] \<or> block_frame sid g c \<and> f_flags g AND H2_FLAG_END_HEADERS = 0"
  shows "\<forall>g\<in>set (map fst fs). ignorable sid g \<or> header_frame sid g \<and> f_flags g AND H2_FLAG_END_HEADERS = 0"
    "concat (map (\<lambda>g. if ignorable sid g then [] else header_fragment g) (map fst fs)) = concat (map snd fs)"
proof -
  have "\<not> ignorable sid g" if "block_frame sid g c" for g c
    using that by (auto simp: ignorable_def block_frame_def) (auto simp: h2_consts)
  then show "\<forall>g\<in>set (map fst fs). ignorable sid g \<or> header_frame sid g \<and> f_flags g AND H2_FLAG_END_HEADERS = 0"
    "concat (map (\<lambda>g. if ignorable sid g then [] else header_fragment g) (map fst fs)) = concat (map snd fs)"
    using assms by (induction fs) (auto simp: block_frame_fragment)
qed

text \<open>
  A response on stream \<open>sid\<close> that starts with the decoder \<open>d\<close> and ends with \<open>d'\<close>: frames of the header
  block (\<open>fs\<close>, then the last one \<open>f\<close>) with their pieces, then DATA frames with theirs, and other frames
  in between everywhere; \<open>st\<close> is the one status its headers give, the pieces of the body are text.
\<close>

definition response_frames ::
  "hpack_decoder \<Rightarrow> u32 \<Rightarrow> (h2_frame \<times> bytes) list \<Rightarrow> h2_frame \<times> bytes \<Rightarrow> (h2_frame list \<times> h2_frame \<times> bytes) list \<Rightarrow> nat \<Rightarrow> hpack_decoder \<Rightarrow> bool" where
  "response_frames d sid fs fb segs st d' \<longleftrightarrow>
     (\<forall>(g, c)\<in>set fs. ignorable sid g \<and> c = [] \<or> block_frame sid g c \<and> f_flags g AND H2_FLAG_END_HEADERS = 0) \<and> length fs < 100000
   \<and> block_frame sid (fst fb) (snd fb) \<and> f_flags (fst fb) AND H2_FLAG_END_HEADERS \<noteq> 0
   \<and> (\<exists>hdrs. Decode d (concat (map snd fs) @ snd fb) [] = (B_OK, d', hdrs)
        \<and> filter (\<lambda>x. name x = '':status'') hdrs = [\<lparr> name = '':status'', val = show_nat st \<rparr>]) \<and> st < 1000
   \<and> segs \<noteq> [] \<and> (\<forall>(ctl, g, p)\<in>set segs. (\<forall>g\<in>set ctl. ignorable sid g) \<and> length ctl < 100000 \<and> data_frame sid g p \<and> 0 \<notin> set p)
   \<and> (\<forall>(ctl, g, p)\<in>set (butlast segs). f_flags g AND H2_FLAG_END_STREAM = 0)
   \<and> f_flags (fst (snd (last segs))) AND H2_FLAG_END_STREAM \<noteq> 0"

definition response_bytes :: "(h2_frame \<times> bytes) list \<Rightarrow> h2_frame \<times> bytes \<Rightarrow> (h2_frame list \<times> h2_frame \<times> bytes) list \<Rightarrow> bytes" where
  "response_bytes fs fb segs = encs (map fst fs) @ enc (fst fb) @ concat (map (\<lambda>(ctl, g, p). encs ctl @ enc g) segs)"

lemma Request_response_frames:
  assumes "http2_incoming os h (response_bytes fs fb segs @ rest)"
    and r: "response_frames (fDecoder h) (fNextStreamId h) fs fb segs st d'"
    and sz: "length (concat (map (\<lambda>(n, v). AddHeader n v) (request_headers meth scheme authority path contentType body))) \<le> 16384"
      "length body \<le> 16384" "length segs \<le> fuel"
  shows "\<exists>h'. Request (ReadRecord os) (WriteMessage os) fuel h meth scheme authority path contentType body
       = Some (Some (Inr (int st, concat (map (\<lambda>(ctl, g, p). p) segs)), h'))
     \<and> http2_incoming os h' rest \<and> fNextStreamId h' = fNextStreamId h + 2 \<and> fDecoder h' = d'"
proof -
  let ?sid = "fNextStreamId h" and ?segs = "map (\<lambda>(ctl, g, p). (ctl, g)) segs"
  obtain hdrs where fs: "\<forall>(g, c)\<in>set fs. ignorable ?sid g \<and> c = [] \<or> block_frame ?sid g c \<and> f_flags g AND H2_FLAG_END_HEADERS = 0" "length fs < 100000"
    and f: "block_frame ?sid (fst fb) (snd fb)" "f_flags (fst fb) AND H2_FLAG_END_HEADERS \<noteq> 0"
    and d: "Decode (fDecoder h) (concat (map snd fs) @ snd fb) [] = (B_OK, d', hdrs)"
    and st: "filter (\<lambda>x. name x = '':status'') hdrs = [\<lparr> name = '':status'', val = show_nat st \<rparr>]" "st < 1000"
    and segs: "segs \<noteq> []" "\<forall>(ctl, g, p)\<in>set segs. (\<forall>g\<in>set ctl. ignorable ?sid g) \<and> length ctl < 100000 \<and> data_frame ?sid g p \<and> 0 \<notin> set p"
    and ends: "\<forall>(ctl, g, p)\<in>set (butlast segs). f_flags g AND H2_FLAG_END_STREAM = 0"
      "f_flags (fst (snd (last segs))) AND H2_FLAG_END_STREAM \<noteq> 0"
    using r unfolding response_frames_def by blast
  note p = segment_pieces [OF segs(2)] and q = block_pieces [OF fs(1)] and fr = block_frame_fragment [OF f(1)]
  have inc: "h2_stream (conn_delivers os) (writable os) h
      (encs (map fst fs) @ enc (fst fb) @ concat (map (\<lambda>(ctl, g). encs ctl @ enc g) ?segs) @ rest)"
    unfolding p(3) using assms(1) by (simp add: http2_incoming_def response_bytes_def)
  have e: "\<forall>(ctl, g)\<in>set (butlast ?segs). f_flags g AND H2_FLAG_END_STREAM = 0"
    "f_flags (snd (last ?segs)) AND H2_FLAG_END_STREAM \<noteq> 0"
    using ends segs(1) by (auto simp: map_butlast [symmetric] last_map split_beta)
  have dec: "Decode (fDecoder h) (concat (map (\<lambda>g. if ignorable ?sid g then [] else header_fragment g) (map fst fs)) @ header_fragment (fst fb)) []
      = (B_OK, d', hdrs)" unfolding q(2) fr(2) by (rule d)
  have "length (map fst fs) < 100000" "?segs \<noteq> []" "length ?segs \<le> fuel" using fs(2) segs(1) sz(3) by simp_all
  from cc.Request_ok [OF inc refl q(1) this(1) fr(1) f(2) dec this(2) p(1) e sz(1,2) this(3)]
  show ?thesis unfolding p(2) status_of_unique [OF st] http2_incoming_def .
qed

text \<open>
  C21. A request over the control connection returns the status of the response and its whole
  body, a text without NUL bytes: the header block may be split over HEADERS and CONTINUATION
  frames, with padding and priority, the body over any number of DATA frames, padded or not, with
  SETTINGS, PING, WINDOW_UPDATE and frames of other streams in between (fewer than 100000 before
  each); exactly the response is consumed, the HPACK decoder has moved on, and the next request uses
  the next odd stream.
\<close>

theorem http2_request:
  assumes "http2_incoming os h (response_bytes fs fb segs @ rest)"
    and "response_frames (fDecoder h) (fNextStreamId h) fs fb segs st d'"
    and "length (concat (map (\<lambda>(n, v). AddHeader n v) (request_headers meth scheme authority path contentType body))) \<le> 16384"
    and "length body \<le> 16384" "length segs \<le> fuel"
  shows "\<exists>h'. Request (ReadRecord os) (WriteMessage os) fuel h meth scheme authority path contentType body
       = Some (Some (Inr (int st, concat (map (\<lambda>(ctl, g, p). p) segs)), h'))
     \<and> http2_incoming os h' rest \<and> fNextStreamId h' = fNextStreamId h + 2 \<and> fDecoder h' = d'"
  by (rule Request_response_frames [OF assms])

theorem http2_request_witness:
  "\<exists>h'. Request (ReadRecord toy_openssl) (WriteMessage toy_openssl) 2
       (toy_http2 [encs [\<lparr> f_type = H2_PING, f_flags = 0, f_stream = 0, f_payload = [1, 2] \<rparr>,
         \<lparr> f_type = H2_HEADERS, f_flags = 0x2C, f_stream = 1, f_payload = [2, 0, 0, 0, 3, 16, 0x88, 0, 0] \<rparr>,
         \<lparr> f_type = H2_DATA, f_flags = 8, f_stream = 1, f_payload = [1, 65, 66, 0] \<rparr>,
         \<lparr> f_type = H2_DATA, f_flags = 1, f_stream = 1, f_payload = [67] \<rparr>]])
       ''GET'' ''https'' ''h'' ''/'' None [] = Some (Some (Inr (200, [65, 66, 67]), h'))"
proof -
  let ?ping = "\<lparr> f_type = H2_PING, f_flags = 0, f_stream = 0, f_payload = [1, 2] \<rparr>"
  let ?hd = "\<lparr> f_type = H2_HEADERS, f_flags = 0x2C, f_stream = 1, f_payload = [2, 0, 0, 0, 3, 16, 0x88, 0, 0] \<rparr>"
  let ?d1 = "\<lparr> f_type = H2_DATA, f_flags = 8, f_stream = 1, f_payload = [1, 65, 66, 0] \<rparr>"
  let ?d2 = "\<lparr> f_type = H2_DATA, f_flags = 1, f_stream = 1, f_payload = [67] \<rparr>"
  let ?segs = "[([], ?d1, [65, 66]), ([], ?d2, [67])]" and ?fs = "[(?ping, [])]" and ?fb = "(?hd, [0x88])"
  let ?h = "toy_http2 [encs [?ping, ?hd, ?d1, ?d2]]"
  have inc: "http2_incoming toy_openssl ?h (response_bytes ?fs ?fb ?segs @ [])"
    using toy_http2_incoming [of "[encs [?ping, ?hd, ?d1, ?d2]]"] by (simp add: enc_def frame_bytes_def response_bytes_def)
  have "fst (Decode HpackDecoder [0x88] []) = B_OK \<and> snd (snd (Decode HpackDecoder [0x88] [])) = [\<lparr> name = '':status'', val = ''200'' \<rparr>]"
    by code_simp
  then obtain d where dec: "Decode HpackDecoder [0x88] [] = (B_OK, d, [\<lparr> name = '':status'', val = ''200'' \<rparr>])"
    by (metis prod.collapse)
  have st: "show_nat 200 = ''200''" by code_simp
  have pri: "block_frame 1 ?hd [0x88]" unfolding block_frame_def
    by (simp add: frame_ok_def h2_consts padded_def) (intro exI [of _ "[0, 0, 0, 3, 16]"] exI [of _ "[0, 0]"], simp)
  have dat: "data_frame 1 ?d1 [65, 66]" "data_frame 1 ?d2 [67]" unfolding data_frame_def
    by (simp_all add: frame_ok_def padded_def)
  have "response_frames HpackDecoder 1 ?fs ?fb ?segs 200 d"
    using dec st pri dat by (simp add: response_frames_def ignorable_def frame_ok_def) (simp add: h2_consts)
  then have r: "response_frames (fDecoder ?h) (fNextStreamId ?h) ?fs ?fb ?segs 200 d" by simp
  have sz: "length (concat (map (\<lambda>(n, v). AddHeader n v) (request_headers ''GET'' ''https'' ''h'' ''/'' None []))) \<le> 16384"
    by code_simp
  show ?thesis using http2_request [OF inc r sz, of 2] by auto
qed

text \<open>
  Padding larger than its frame: a DATA frame with the PADDED flag whose pad length
  exceeds the frame makes the unsigned length of the copy wrap, so that \<open>ReadBody\<close> has no
  defined result, whatever the peer sent before.
\<close>

theorem padded_data_undefined:
  assumes "http2_incoming os h (enc f @ rest)" "frame_ok f" "f_type f = H2_DATA" "f_stream f = fReqStream h" "\<not> fReqEnded h"
    and "f_flags f AND 0x08 \<noteq> 0" "f_payload f = pad # xs" "Suc (length xs) < unat pad"
  shows "ReadBody (ReadRecord os) (WriteMessage os) h kH2MaxFramePayload = None"
proof -
  obtain h1 where h1: "ReadFrame (ReadRecord os) h kH2MaxFramePayload = (Inr f, h1)" "h2_same h h1"
    using cc.frame_ok_read [of os h f rest] assms(1,2) by (auto simp: http2_incoming_def)
  have d: "data_fragment f = None" using assms(6-8) by (simp add: data_fragment_def)
  have t: "f_type f \<noteq> H2_SETTINGS" "f_type f \<noteq> H2_PING" "f_type f \<noteq> H2_GOAWAY" "f_type f \<noteq> H2_RST_STREAM"
    using assms(3) by (simp_all add: h2_consts)
  have "body_loop (ReadRecord os) (WriteMessage os) (Suc 99999) h = None"
    unfolding body_loop.simps h1(1) prod.case sum.case using t d h1(2) assms(3,4) by (simp add: h2_same_def)
  then show ?thesis using assms(5) by (simp add: ReadBody_def)
qed

theorem padded_data_undefined_witness:
  "ReadBody (ReadRecord toy_openssl) (WriteMessage toy_openssl)
     ((toy_http2 [enc \<lparr> f_type = H2_DATA, f_flags = 8, f_stream = 1, f_payload = [200, 1] \<rparr>])\<lparr> fReqStream := 1, fReqEnded := False \<rparr>)
     kH2MaxFramePayload = None"
proof -
  let ?f = "\<lparr> f_type = H2_DATA, f_flags = 8, f_stream = 1, f_payload = [200, 1] \<rparr>"
  have "http2_incoming toy_openssl (toy_http2 [enc ?f]) (concat [enc ?f])"
    by (rule toy_http2_incoming) (simp_all add: enc_def frame_bytes_def)
  then have "http2_incoming toy_openssl ((toy_http2 [enc ?f])\<lparr> fReqStream := 1, fReqEnded := False \<rparr>) (enc ?f @ [])"
    by (simp add: http2_incoming_def h2_stream_def)
  then show ?thesis
    by (rule padded_data_undefined [where pad = 200 and xs = "[1]"]) (simp_all add: frame_ok_def)
qed

text \<open>
  Bootstrap: on a stream that starts with the early payload and the SETTINGS exchange
  (with other frames in between, at most 32 in all), \<open>Bootstrap\<close> succeeds with the early
  JSON text and leaves the stream right behind the frame that completed the exchange.
\<close>

theorem http2_bootstrap:
  assumes "http2_incoming os h (kEarlyMagic @ be32 (length json) @ json @ encs fs @ rest)" "length json \<le> 8192"
    and "\<forall>f\<in>set fs. frame_ok f \<and> f_type f \<noteq> H2_GOAWAY" "length fs \<le> 32"
    and "\<exists>f\<in>set fs. f_type f = H2_SETTINGS \<and> f_flags f AND H2_FLAG_ACK \<noteq> 0"
    and "\<exists>f\<in>set fs. f_type f = H2_SETTINGS \<and> f_flags f AND H2_FLAG_ACK = 0"
    and "\<not> ((\<exists>f\<in>set (butlast fs). f_type f = H2_SETTINGS \<and> f_flags f AND H2_FLAG_ACK \<noteq> 0)
      \<and> (\<exists>f\<in>set (butlast fs). f_type f = H2_SETTINGS \<and> f_flags f AND H2_FLAG_ACK = 0))"
  shows "\<exists>h'. Bootstrap (ReadRecord os) (WriteMessage os) h = (B_OK, Some (c_str (map chr_of_byte json)), h')
     \<and> http2_incoming os h' rest"
  using cc.Bootstrap_ok [OF assms(1) [unfolded http2_incoming_def] assms(2-7)] unfolding http2_incoming_def by blast

theorem http2_bootstrap_witness:
  "\<exists>h'. Bootstrap (ReadRecord toy_openssl) (WriteMessage toy_openssl)
       (toy_http2 [[0xFF, 0xFF, 0xFF, 0x54, 0x53, 0, 0, 0, 2, 0x7B, 0x7D] @ encs
         [\<lparr> f_type = H2_SETTINGS, f_flags = 0, f_stream = 0, f_payload = [] \<rparr>, \<lparr> f_type = H2_SETTINGS, f_flags = 1, f_stream = 0, f_payload = [] \<rparr>]])
     = (B_OK, Some [CHR 0x7B, CHR 0x7D], h')"
proof -
  let ?fs = "[\<lparr> f_type = H2_SETTINGS, f_flags = 0, f_stream = 0, f_payload = [] \<rparr>, \<lparr> f_type = H2_SETTINGS, f_flags = 1, f_stream = 0, f_payload = [] \<rparr>]"
  let ?ps = "[[0xFF, 0xFF, 0xFF, 0x54, 0x53, 0, 0, 0, 2, 0x7B, 0x7D] @ encs ?fs]"
  have "http2_incoming toy_openssl (toy_http2 ?ps) (concat ?ps)"
    by (rule toy_http2_incoming) (simp_all add: enc_def frame_bytes_def)
  then have "http2_incoming toy_openssl (toy_http2 ?ps) (kEarlyMagic @ be32 (length [0x7B, 0x7D :: u8]) @ [0x7B, 0x7D] @ encs ?fs @ [])"
    by (simp add: kEarlyMagic_def be32_def)
  moreover have "c_str (map chr_of_byte [0x7B, 0x7D]) = [CHR 0x7B, CHR 0x7D]" by code_simp
  ultimately show ?thesis
    using http2_bootstrap [of toy_openssl "toy_http2 ?ps" "[0x7B, 0x7D]" ?fs "[]"] by (auto simp: frame_ok_def H2_FLAG_ACK_def H2_GOAWAY_def H2_SETTINGS_def)
qed

end
