(* ===== verification/Poly1305.thy ===== *)
theory Poly1305
  imports Soto_Prelude
begin

text \<open>
  The Poly1305 authenticator of \<open>src/src/backend/tailscale/NaClBox.cpp\<close> (\<open>add1305\<close>,
  \<open>onetimeauth\<close>): arithmetic on 17 limbs of 8 bits, held in 32-bit words with delayed carries.
  The specification is the number-theoretic one: the message blocks are the coefficients of a
  polynomial that is evaluated at the clamped key modulo \<open>2 ^ 130 - 5\<close>, and the second half of
  the key is added modulo \<open>2 ^ 128\<close>.  The refinement shows that no 32-bit operation of the
  limb code overflows in a way that matters and that its result is the specified tag.
\<close>

subsection \<open>The limb code\<close>

text \<open>The carry loop of \<open>add1305\<close>.\<close>

fun add_carry :: "u32 \<Rightarrow> u32 list \<Rightarrow> u32 list \<Rightarrow> u32 list" where
  "add_carry u (h # hs) (c # cs) = (let u = u + (h + c) in (u AND 255) # add_carry (drop_bit 8 u) hs cs)"
| "add_carry u _ _ = []"

definition add1305 :: "u32 list \<Rightarrow> u32 list \<Rightarrow> u32 list" where
  "add1305 h c = add_carry 0 h c"

definition kMinusP :: "u32 list" where
  "kMinusP = [5, 0, 0, 0, 0, 0, 0, 0, 0, 0, 0, 0, 0, 0, 0, 0, 252]"

text \<open>The clamped multiplier \<open>r\<close>.\<close>

definition clamp :: "bytes \<Rightarrow> u32 list" where
  "clamp k =
     (let r = map ucast (take 16 k) @ [0];
          r = r[3 := r ! 3 AND 15]; r = r[4 := r ! 4 AND 252]; r = r[7 := r ! 7 AND 15]; r = r[8 := r ! 8 AND 252];
          r = r[11 := r ! 11 AND 15]; r = r[12 := r ! 12 AND 252]
      in r[15 := r ! 15 AND 15])"

definition block_limbs :: "bytes \<Rightarrow> u32 list" where
  "block_limbs b = map ucast b @ [1] @ replicate (16 - length b) 0"

definition mul_limbs :: "u32 list \<Rightarrow> u32 list \<Rightarrow> u32 list" where
  "mul_limbs h r =
     map (\<lambda>i. foldl (\<lambda>x j. x + h ! j * (if j \<le> i then r ! (i - j) else 320 * r ! (i + 17 - j))) 0 [0..<17]) [0..<17]"

fun carry_limbs :: "u32 \<Rightarrow> u32 list \<Rightarrow> u32 list \<times> u32" where
  "carry_limbs u [] = ([], u)"
| "carry_limbs u (h # hs) =
     (let u = u + h in case carry_limbs (drop_bit 8 u) hs of (out, u') \<Rightarrow> ((u AND 255) # out, u'))"

definition squeeze :: "u32 list \<Rightarrow> u32 list" where
  "squeeze h =
     (case carry_limbs 0 (take 16 h) of (hs, u) \<Rightarrow>
        let u = u + h ! 16; h16 = u AND 3; u = 5 * drop_bit 2 u
        in case carry_limbs u hs of (hs, u) \<Rightarrow> hs @ [u + h16])"

function poly_loop :: "u32 list \<Rightarrow> u32 list \<Rightarrow> bytes \<Rightarrow> u32 list" where
  "poly_loop r h m =
     (if length m > 0
      then poly_loop r (squeeze (mul_limbs (add1305 h (block_limbs (take 16 m))) r)) (drop 16 m)
      else h)"
  by pat_completeness auto
termination
  by (relation "measure (\<lambda>(r, h, m). length m)") auto

declare poly_loop.simps [simp del]

text \<open>The constant-time choice between \<open>h\<close> and \<open>h - p\<close>.\<close>

definition freeze :: "u32 list \<Rightarrow> u32 list" where
  "freeze g =
     (let h = add1305 g kMinusP; s = - drop_bit 7 (h ! 16)
      in map2 (\<lambda>hj gj. hj XOR (s AND (gj XOR hj))) h g)"

definition onetimeauth :: "bytes \<Rightarrow> bytes \<Rightarrow> bytes" where
  "onetimeauth m k =
     (let h = poly_loop (clamp k) (replicate 17 0) m;
          h = freeze h;
          h = add1305 h (map ucast (slice 16 16 k) @ [0])
      in map ucast (take 16 h))"

subsection \<open>Specification\<close>

definition p1305 :: nat where "p1305 = 2 ^ 130 - 5"

text \<open>Little-endian value of a byte string and of a list of limbs.\<close>

fun le_val :: "'a::len word list \<Rightarrow> nat" where
  "le_val [] = 0"
| "le_val (x # xs) = unat x + 256 * le_val xs"

function poly_eval :: "nat \<Rightarrow> nat \<Rightarrow> bytes \<Rightarrow> nat" where
  "poly_eval r acc m =
     (if m = [] then acc
      else poly_eval r ((acc + le_val (take 16 m) + 256 ^ min 16 (length m)) * r mod p1305) (drop 16 m))"
  by pat_completeness auto
termination
  by (relation "measure (\<lambda>(r, acc, m). length m)") auto

declare poly_eval.simps [simp del]

text \<open>The clamped key: 22 of its 128 bits are cleared.\<close>

definition clamp_spec :: "bytes \<Rightarrow> nat" where
  "clamp_spec k = le_val (map2 (AND) (take 16 k)
     [255, 255, 255, 15, 252, 255, 255, 15, 252, 255, 255, 15, 252, 255, 255, 15])"

definition poly1305_spec :: "bytes \<Rightarrow> bytes \<Rightarrow> nat" where
  "poly1305_spec m k = (poly_eval (clamp_spec k) 0 m mod p1305 + le_val (slice 16 16 k)) mod 2 ^ 128"

subsection \<open>Word arithmetic without overflow\<close>

lemma and3: "unat (u AND 3 :: u32) = unat u mod 4"
proof -
  have "(3 :: u32) = mask 2" by (simp add: mask_eq_exp_minus_1)
  then have "u AND 3 = take_bit 2 u" by (simp add: take_bit_eq_mask)
  then show ?thesis by (simp add: unat_take_bit_mod)
qed

lemma drop8: "unat (drop_bit 8 u :: u32) = unat u div 256"
  by (simp add: unat_drop_bit_div)

lemma unat_add32: "unat a + unat b < 4294967296 \<Longrightarrow> unat (a + b :: u32) = unat a + unat b"
  by (simp add: unat_add_lem [symmetric])

lemma unat_mul32: "unat a * unat b < 4294967296 \<Longrightarrow> unat (a * b :: u32) = unat a * unat b"
  by (simp add: unat_mult_lem [symmetric])

lemma le_val_append: "le_val (xs @ ys) = le_val xs + 256 ^ length xs * le_val ys"
  by (induction xs) (simp_all add: algebra_simps)

lemma le_val_zeros [simp]: "le_val (replicate n 0) = 0"
  by (induction n) simp_all

lemma le_val_less: "\<forall>x\<in>set xs. unat x \<le> 255 \<Longrightarrow> le_val xs < 256 ^ length xs"
proof (induction xs)
  case (Cons x xs)
  then have "unat x \<le> 255" "Suc (le_val xs) \<le> 256 ^ length xs" by auto
  then have "unat x + 256 * le_val xs < 256 * 256 ^ length xs" by linarith
  then show ?case by simp
qed simp

lemma le_val_sum: "le_val xs = (\<Sum>i<length xs. unat (xs ! i) * 256 ^ i)"
  by (induction xs) (simp_all add: sum.lessThan_Suc_shift sum_distrib_left algebra_simps del: sum.lessThan_Suc)

lemma le_val_ucast: "le_val (map (ucast :: u8 \<Rightarrow> u32) xs) = le_val xs"
  by (induction xs) (simp_all add: unat_ucast_up)

lemma mod_256_step: "r < 256 \<Longrightarrow> (256 * q + r) mod (256 * n) = r + 256 * (q mod n)" for r q n :: nat
  by (simp add: mod_mult2_eq)

lemma add_carry_val:
  assumes "length hs = length cs" "\<forall>h\<in>set hs. unat h < 65536" "\<forall>c\<in>set cs. unat c < 65536" "unat u < 65536"
  shows "le_val (add_carry u hs cs) = (le_val hs + le_val cs + unat u) mod 256 ^ length hs
     \<and> (\<forall>x\<in>set (add_carry u hs cs). unat x \<le> 255) \<and> length (add_carry u hs cs) = length hs"
  using assms
proof (induction u hs cs rule: add_carry.induct)
  case (1 u h hs c cs)
  have s1: "unat (h + c) = unat h + unat c" using "1.prems" by (intro unat_add32) auto
  have s: "unat (u + (h + c)) = unat u + unat h + unat c"
    using "1.prems" unfolding s1 [symmetric] add.assoc by (subst unat_add32) (auto simp: s1)
  define v where "v = u + (h + c)"
  have v: "unat v = unat u + unat h + unat c" using s by (simp add: v_def)
  then have "unat (drop_bit 8 v) < 65536" using "1.prems" by (auto simp: drop8 intro!: less_mult_imp_div_less)
  then have ih: "le_val (add_carry (drop_bit 8 v) hs cs) = (le_val hs + le_val cs + unat v div 256) mod 256 ^ length hs"
    "\<forall>x\<in>set (add_carry (drop_bit 8 v) hs cs). unat x \<le> 255" "length (add_carry (drop_bit 8 v) hs cs) = length hs"
    using "1.IH" [OF v_def] "1.prems" by (simp_all add: drop8)
  have "256 * (le_val hs + le_val cs) + unat v = 256 * (le_val hs + le_val cs + unat v div 256) + unat v mod 256"
    by (simp add: distrib_left)
  then have "(256 * (le_val hs + le_val cs) + unat v) mod (256 * 256 ^ length hs)
      = unat v mod 256 + 256 * ((le_val hs + le_val cs + unat v div 256) mod 256 ^ length hs)"
    by (simp only: mod_256_step mod_less_divisor zero_less_numeral)
  then show ?case using ih unfolding add_carry.simps Let_def v_def [symmetric]
    by (simp add: and255 v algebra_simps)
qed auto

lemma carry_limbs_val:
  assumes "\<forall>h\<in>set hs. unat h < 2 ^ 30" "unat u < 2 ^ 31" "carry_limbs u hs = (out, v)"
  shows "le_val out + 256 ^ length hs * unat v = le_val hs + unat u \<and> (\<forall>x\<in>set out. unat x \<le> 255) \<and> length out = length hs"
  using assms
proof (induction hs arbitrary: u out)
  case (Cons h hs)
  define w where "w = u + h"
  have w: "unat w = unat u + unat h" unfolding w_def using Cons.prems(1,2) by (intro unat_add32) auto
  then have b: "unat (drop_bit 8 w) < 2 ^ 31" using Cons.prems(1,2) by (auto simp: drop8 intro!: less_mult_imp_div_less)
  obtain out' where o: "carry_limbs (drop_bit 8 w) hs = (out', v)" "out = (w AND 255) # out'"
    using Cons.prems(3) by (auto simp: w_def Let_def split: prod.splits)
  have ih: "le_val out' + 256 ^ length hs * unat v = le_val hs + unat (drop_bit 8 w)" "\<forall>x\<in>set out'. unat x \<le> 255" "length out' = length hs"
    using Cons.IH [OF _ b o(1)] Cons.prems(1) by auto
  define q where "q = unat w div 256"
  define m where "m = unat w mod 256"
  define B where "B = 256 ^ length hs * unat v"
  have "unat w = m + 256 * q" "le_val out' + B = le_val hs + q" using ih(1) by (simp_all add: q_def m_def B_def drop8)
  then have "m + 256 * le_val out' + 256 * B = 256 * le_val hs + unat w" by linarith
  then show ?case using ih w by (simp add: o(2) and255 mult.assoc m_def B_def)
qed auto

subsection \<open>Multiplication\<close>

lemma foldl_add32:
  assumes "unat a + (\<Sum>j<n. unat (f j)) < 4294967296"
  shows "unat (foldl (\<lambda>x j. x + f j) a [0..<n] :: u32) = unat a + (\<Sum>j<n. unat (f j))"
  using assms by (induction n) (simp_all add: unat_add32)

lemma sum_split_at: "(\<Sum>k<a + b. f k) = (\<Sum>k<a. f k) + (\<Sum>i<b. f (a + i) :: nat)" for a b :: nat
  by (induction b) simp_all

lemma p1305_val: "p1305 = 1361129467683753853853498429727072845819"
  by (simp add: p1305_def)

lemma pow17: "(256 :: nat) ^ 17 = 320 + p1305 * 64"
  by (simp add: p1305_val)

text \<open>One row of the schoolbook product, with the wrapped limbs reduced by \<open>2 ^ 136 = 320\<close>.\<close>

lemma row_reduced:
  fixes R :: "nat \<Rightarrow> nat"
  assumes "j < 17"
  shows "256 ^ j * (\<Sum>k<17. R k * 256 ^ k)
    = (\<Sum>i<17. 256 ^ i * (if j \<le> i then R (i - j) else 320 * R (i + 17 - j))) + p1305 * (\<Sum>i<j. 64 * 256 ^ i * R (17 - j + i))"
proof -
  let ?n = "17 - j"
  have hi: "256 ^ j * (R (?n + i) * 256 ^ (?n + i)) = 256 ^ i * (320 * R (i + 17 - j)) + p1305 * (64 * 256 ^ i * R (?n + i))" for i
  proof -
    have "256 ^ j * 256 ^ (?n + i) = (256 :: nat) ^ (17 + i)" using assms by (simp add: power_add [symmetric])
    also have "\<dots> = (320 + p1305 * 64) * 256 ^ i" by (simp only: power_add pow17)
    finally have "256 ^ j * (R (?n + i) * 256 ^ (?n + i)) = R (?n + i) * ((320 + p1305 * 64) * 256 ^ i)"
      by (metis mult.left_commute)
    moreover have "i + 17 - j = ?n + i" using assms by simp
    ultimately show ?thesis by (simp add: algebra_simps)
  qed
  have "256 ^ j * (\<Sum>k<17. R k * 256 ^ k) = 256 ^ j * (\<Sum>k<?n + j. R k * 256 ^ k)" using assms by simp
  also have "\<dots> = (\<Sum>k<?n. 256 ^ j * (R k * 256 ^ k)) + (\<Sum>i<j. 256 ^ j * (R (?n + i) * 256 ^ (?n + i)))"
    by (simp only: sum_split_at distrib_left sum_distrib_left)
  also have "\<dots> = (\<Sum>k<?n. 256 ^ (j + k) * R k) + ((\<Sum>i<j. 256 ^ i * (320 * R (i + 17 - j))) + p1305 * (\<Sum>i<j. 64 * 256 ^ i * R (?n + i)))"
    unfolding hi sum.distrib sum_distrib_left by (simp add: power_add mult.commute mult.left_commute)
  finally have e: "256 ^ j * (\<Sum>k<17. R k * 256 ^ k) = (\<Sum>k<?n. 256 ^ (j + k) * R k)
      + ((\<Sum>i<j. 256 ^ i * (320 * R (i + 17 - j))) + p1305 * (\<Sum>i<j. 64 * 256 ^ i * R (?n + i)))" .
  have "(\<Sum>i<j + ?n. 256 ^ i * (if j \<le> i then R (i - j) else 320 * R (i + 17 - j)))
      = (\<Sum>i<j. 256 ^ i * (320 * R (i + 17 - j))) + (\<Sum>k<?n. 256 ^ (j + k) * R k)"
    unfolding sum_split_at by (intro arg_cong2 [where f = "(+)"] sum.cong) auto
  moreover have "j + ?n = 17" using assms by simp
  ultimately show ?thesis using e by (simp only: add.assoc add.commute add.left_commute)
qed

lemma mul_limbs_val:
  assumes "length h = 17" "length r = 17" "\<forall>x\<in>set h. unat x \<le> 255" "\<forall>x\<in>set r. unat x \<le> 255"
  shows "le_val (mul_limbs h r) mod p1305 = le_val h * le_val r mod p1305"
    "\<forall>x\<in>set (mul_limbs h r). unat x < 2 ^ 29" "length (mul_limbs h r) = 17"
proof -
  let ?H = "\<lambda>j. unat (h ! j)" and ?R = "\<lambda>j. unat (r ! j)"
  let ?C = "\<lambda>i j. if j \<le> i then ?R (i - j) else 320 * ?R (i + 17 - j)"
  have lim: "?H j \<le> 255" "?R j \<le> 255" if "j < 17" for j using assms that by auto
  have C: "unat (if j \<le> i then r ! (i - j) else 320 * r ! (i + 17 - j)) = ?C i j \<and> ?C i j \<le> 81600" if "i < 17" "j < 17" for i j
  proof (cases "j \<le> i")
    case True
    have "?R (i - j) \<le> 255" by (rule lim(2)) (use that in linarith)
    then show ?thesis using True by simp
  next
    case False
    then have b: "?R (i + 17 - j) \<le> 255" using lim(2) [of "i + 17 - j"] that by simp
    then have "unat (320 * r ! (i + 17 - j)) = 320 * ?R (i + 17 - j)" by (subst unat_mul32) simp_all
    then show ?thesis using False b by simp
  qed
  have prd: "unat (h ! j * (if j \<le> i then r ! (i - j) else 320 * r ! (i + 17 - j))) = ?H j * ?C i j" "?H j * ?C i j \<le> 20808000"
    if "i < 17" "j < 17" for i j
  proof -
    show b: "?H j * ?C i j \<le> 20808000" using mult_le_mono [OF lim(1) [OF that(2)] conjunct2 [OF C [OF that]]] by simp
    then show "unat (h ! j * (if j \<le> i then r ! (i - j) else 320 * r ! (i + 17 - j))) = ?H j * ?C i j"
      using C [OF that] by (subst unat_mul32) auto
  qed
  have row: "unat (mul_limbs h r ! i) = (\<Sum>j<17. ?H j * ?C i j)" "(\<Sum>j<17. ?H j * ?C i j) < 2 ^ 29" if "i < 17" for i
  proof -
    have "(\<Sum>j<17. ?H j * ?C i j) \<le> (\<Sum>j<(17::nat). 20808000)" by (rule sum_mono) (use prd that in simp)
    then show b: "(\<Sum>j<17. ?H j * ?C i j) < 2 ^ 29" by simp
    have e: "(\<Sum>j<17. unat (h ! j * (if j \<le> i then r ! (i - j) else 320 * r ! (i + 17 - j)))) = (\<Sum>j<17. ?H j * ?C i j)"
      by (rule sum.cong) (use prd(1) that in auto)
    have "mul_limbs h r ! i = foldl (\<lambda>x j. x + h ! j * (if j \<le> i then r ! (i - j) else 320 * r ! (i + 17 - j))) 0 [0..<17]"
      using that unfolding mul_limbs_def by (simp only: nth_map length_upt diff_zero nth_upt add_0)
    then show "unat (mul_limbs h r ! i) = (\<Sum>j<17. ?H j * ?C i j)"
      using foldl_add32 [of 0 "\<lambda>j. h ! j * (if j \<le> i then r ! (i - j) else 320 * r ! (i + 17 - j))" 17] e b by simp
  qed
  show len: "length (mul_limbs h r) = 17" by (simp add: mul_limbs_def)
  show "\<forall>x\<in>set (mul_limbs h r). unat x < 2 ^ 29" using row len by (auto simp: in_set_conv_nth)
  have "le_val h * le_val r = (\<Sum>j<17. ?H j * (256 ^ j * (\<Sum>k<17. ?R k * 256 ^ k)))"
    by (simp add: le_val_sum [of h] le_val_sum [of r] assms(1,2) sum_distrib_right mult.assoc)
  also have "\<dots> = (\<Sum>j<17. ?H j * (\<Sum>i<17. 256 ^ i * ?C i j)) + p1305 * (\<Sum>j<17. ?H j * (\<Sum>i<j. 64 * 256 ^ i * ?R (17 - j + i)))"
    unfolding sum_distrib_left [of p1305] sum.distrib [symmetric]
    by (rule sum.cong) (simp_all only: lessThan_iff row_reduced [where R = ?R] distrib_left mult.left_commute)
  also have "(\<Sum>j<17. ?H j * (\<Sum>i<17. 256 ^ i * ?C i j)) = (\<Sum>i<17. (\<Sum>j<17. ?H j * ?C i j) * 256 ^ i)"
    unfolding sum_distrib_left sum_distrib_right by (subst sum.swap) (simp add: mult.commute mult.left_commute)
  also have "\<dots> = le_val (mul_limbs h r)"
    unfolding le_val_sum [of "mul_limbs h r"] len by (rule sum.cong) (use row(1) in auto)
  finally show "le_val (mul_limbs h r) mod p1305 = le_val h * le_val r mod p1305" by simp
qed

subsection \<open>Reduction\<close>

lemma carry_limbs_bound:
  assumes "\<forall>h\<in>set hs. unat h < 2 ^ 30" "unat u < 2 ^ 24" "carry_limbs u hs = (out, v)"
  shows "unat v < 2 ^ 24"
  using assms
proof (induction hs arbitrary: u out)
  case (Cons h hs)
  have "unat (u + h) = unat u + unat h" using Cons.prems(1,2) by (intro unat_add32) auto
  then have b: "unat (drop_bit 8 (u + h)) < 2 ^ 24" using Cons.prems(1,2) by (auto simp: drop8 intro!: less_mult_imp_div_less)
  obtain out' where "carry_limbs (drop_bit 8 (u + h)) hs = (out', v)" using Cons.prems(3) by (auto simp: Let_def split: prod.splits)
  then show ?case using Cons.IH [OF _ b] Cons.prems(1) by auto
qed auto

lemma pow130: "256 ^ 16 * u = 5 * (u div 4) + 256 ^ 16 * (u mod 4) + p1305 * (u div 4)"
proof -
  define q m where "q = u div 4" and "m = u mod 4"
  then have u: "u = m + 4 * q" by simp
  show ?thesis unfolding q_def [symmetric] m_def [symmetric] unfolding u p1305_val by (simp add: algebra_simps)
qed

text \<open>The shape of the accumulator between two blocks: below \<open>5 * 2 ^ 128\<close>.\<close>

definition reduced :: "u32 list \<Rightarrow> bool" where
  "reduced h \<longleftrightarrow> length h = 17 \<and> (\<forall>x\<in>set h. unat x \<le> 255) \<and> unat (h ! 16) \<le> 4"

lemma squeeze_val:
  assumes "length x = 17" "\<forall>y\<in>set x. unat y < 2 ^ 29"
  shows "reduced (squeeze x) \<and> le_val (squeeze x) mod p1305 = le_val x mod p1305"
proof -
  obtain a u0 where c1: "carry_limbs 0 (take 16 x) = (a, u0)" by force
  have lt: "\<forall>h\<in>set (take 16 x). unat h < 2 ^ 30" using assms(2) by (force dest: in_set_takeD)
  have v1: "le_val a + 256 ^ 16 * unat u0 = le_val (take 16 x)" "\<forall>y\<in>set a. unat y \<le> 255" "length a = 16"
    using carry_limbs_val [OF lt _ c1] assms(1) by simp_all
  have u0: "unat u0 < 2 ^ 24" using carry_limbs_bound [OF lt _ c1] by simp
  define U where "U = u0 + x ! 16"
  have x16: "unat (x ! 16) < 2 ^ 29" using assms by simp
  have U: "unat U = unat u0 + unat (x ! 16)" unfolding U_def using u0 x16 by (intro unat_add32) simp
  then have Ub: "unat U < 2 ^ 30" using u0 x16 by simp
  have d4: "unat (drop_bit 2 U) = unat U div 4" by (simp add: unat_drop_bit_div)
  have "unat U div 4 < 2 ^ 28" using Ub by (intro less_mult_imp_div_less) simp
  then have u5: "unat (5 * drop_bit 2 U) = 5 * (unat U div 4)" "5 * (unat U div 4) < 2 ^ 31"
    using unat_mul32 [of 5 "drop_bit 2 U"] d4 by simp_all
  obtain b v where c2: "carry_limbs (5 * drop_bit 2 U) a = (b, v)" by force
  have la: "\<forall>h\<in>set a. unat h < 2 ^ 30" using v1(2) by force
  have v2: "le_val b + 256 ^ 16 * unat v = le_val a + 5 * (unat U div 4)" "\<forall>y\<in>set b. unat y \<le> 255" "length b = 16"
    using carry_limbs_val [OF la _ c2] u5 v1(3) by simp_all
  have vb: "unat v \<le> 1"
  proof (rule ccontr)
    assume "\<not> unat v \<le> 1"
    then have "256 ^ 16 * 2 \<le> 256 ^ 16 * unat v" by (intro mult_le_mono2) simp
    moreover have "le_val a < 256 ^ 16" using le_val_less [OF v1(2)] v1(3) by simp
    ultimately show False using v2(1) u5(2) by simp
  qed
  have top': "unat (v + (U AND 3)) = unat v + unat U mod 4" using vb by (subst unat_add32) (simp_all add: and3)
  have sq: "squeeze x = b @ [v + (U AND 3)]"
    unfolding squeeze_def c1 prod.case Let_def U_def [symmetric] c2 by simp
  have "unat (v + (U AND 3)) \<le> 4" unfolding top' using vb by (simp add: add_mono [of _ 1 _ 3, simplified] less_Suc_eq_le [of _ 3, symmetric])
  then have red: "reduced (squeeze x)" using v2(2,3) by (auto simp: sq reduced_def nth_append)
  have "le_val x = le_val (take 16 x @ [x ! 16])" using assms(1) by (simp add: take_Suc_conv_app_nth [symmetric])
  then have "le_val x = le_val a + 256 ^ 16 * unat U" using v1(1) U assms(1) by (simp add: le_val_append distrib_left)
  moreover have "le_val (squeeze x) = le_val a + 5 * (unat U div 4) + 256 ^ 16 * (unat U mod 4)"
    using v2(1,3) by (simp add: sq le_val_append top' distrib_left)
  ultimately have "le_val x = le_val (squeeze x) + p1305 * (unat U div 4)"
    using pow130 [of "unat U"] by linarith
  then show ?thesis using red by simp
qed

lemma reduced_less: "reduced h \<Longrightarrow> le_val h < 5 * 256 ^ 16"
proof -
  assume r: "reduced h"
  then have h: "h = take 16 h @ [h ! 16]" by (simp add: reduced_def take_Suc_conv_app_nth [symmetric])
  have "le_val (take 16 h) < 256 ^ 16"
    using le_val_less [of "take 16 h"] r by (auto simp: reduced_def dest: in_set_takeD)
  moreover have "le_val h = le_val (take 16 h) + 256 ^ 16 * unat (h ! 16)"
    using r by (subst h) (simp add: le_val_append reduced_def)
  moreover have "256 ^ 16 * unat (h ! 16) \<le> 256 ^ 16 * 4" using r by (intro mult_le_mono2) (simp add: reduced_def)
  ultimately show ?thesis by simp
qed

lemma add1305_val:
  assumes "length h = 17" "length c = 17" "\<forall>x\<in>set h. unat x \<le> 255" "\<forall>x\<in>set c. unat x \<le> 255"
  shows "le_val (add1305 h c) = (le_val h + le_val c) mod 256 ^ 17" "\<forall>x\<in>set (add1305 h c). unat x \<le> 255" "length (add1305 h c) = 17"
proof -
  have "\<forall>x\<in>set h. unat x < 65536" "\<forall>x\<in>set c. unat x < 65536" using assms(3,4) by force+
  then show "le_val (add1305 h c) = (le_val h + le_val c) mod 256 ^ 17" "\<forall>x\<in>set (add1305 h c). unat x \<le> 255" "length (add1305 h c) = 17"
    using add_carry_val [of h c 0] assms(1,2) by (simp_all add: add1305_def)
qed

lemma block_limbs_val:
  assumes "length b \<le> 16"
  shows "le_val (block_limbs b) = le_val b + 256 ^ length b" "\<forall>x\<in>set (block_limbs b). unat x \<le> 255" "length (block_limbs b) = 17"
    "le_val (block_limbs b) < 2 * 256 ^ 16"
proof -
  show v: "le_val (block_limbs b) = le_val b + 256 ^ length b" by (simp add: block_limbs_def le_val_append le_val_ucast)
  have u: "unat (x :: u8) \<le> 255" for x using unat_u8_less [of x] by linarith
  then show "\<forall>x\<in>set (block_limbs b). unat x \<le> 255" by (auto simp: block_limbs_def unat_ucast_up)
  show "length (block_limbs b) = 17" using assms by (simp add: block_limbs_def)
  have "le_val b < 256 ^ length b" using u by (intro le_val_less) simp
  moreover have "(256 :: nat) ^ length b \<le> 256 ^ 16" using assms by (intro power_increasing) simp_all
  ultimately show "le_val (block_limbs b) < 2 * 256 ^ 16" unfolding v by linarith
qed

lemma poly_loop_val:
  assumes "reduced h" "length r = 17" "\<forall>x\<in>set r. unat x \<le> 255" "acc mod p1305 = le_val h mod p1305"
  shows "reduced (poly_loop r h m) \<and> le_val (poly_loop r h m) mod p1305 = poly_eval (le_val r) acc m mod p1305"
  using assms
proof (induction r h m arbitrary: acc rule: poly_loop.induct)
  case (1 r h m)
  show ?case
  proof (cases "m = []")
    case True
    then show ?thesis using "1.prems" by (simp add: poly_loop.simps poly_eval.simps)
  next
    case False
    let ?b = "block_limbs (take 16 m)"
    let ?s = "add1305 h ?b"
    note b = block_limbs_val [of "take 16 m"]
    have h: "length h = 17" "\<forall>x\<in>set h. unat x \<le> 255" using "1.prems"(1) by (simp_all add: reduced_def)
    have l: "length (take 16 m) \<le> 16" by simp
    note s0 = add1305_val [OF h(1) b(3) [OF l] h(2) b(2) [OF l]]
    have "le_val h + le_val ?b < 256 ^ 17" using reduced_less [OF "1.prems"(1)] b(4) [OF l] by simp
    then have s: "le_val ?s = le_val h + le_val ?b" "\<forall>x\<in>set ?s. unat x \<le> 255" "length ?s = 17"
      using s0 by (simp_all only: mod_less)
    note mu = mul_limbs_val [OF s(3) "1.prems"(2) s(2) "1.prems"(3)]
    let ?h = "squeeze (mul_limbs ?s r)"
    have q: "reduced ?h" "le_val ?h mod p1305 = le_val ?s * le_val r mod p1305"
      using squeeze_val [OF mu(3,2)] mu(1) by simp_all
    let ?acc = "(acc + le_val (take 16 m) + 256 ^ min 16 (length m)) * le_val r mod p1305"
    have "?acc mod p1305 = le_val ?h mod p1305"
    proof -
      have "le_val ?s mod p1305 = (acc + le_val (take 16 m) + 256 ^ min 16 (length m)) mod p1305"
        using s(1) b(1) "1.prems"(4) by (simp add: min.commute add.assoc) (metis mod_add_left_eq)
      then show ?thesis unfolding q(2) by (metis mod_mod_trivial mod_mult_left_eq)
    qed
    then have "reduced (poly_loop r ?h (drop 16 m)) \<and> le_val (poly_loop r ?h (drop 16 m)) mod p1305 = poly_eval (le_val r) ?acc (drop 16 m) mod p1305"
      using "1.IH" [of ?acc] False q(1) "1.prems"(2,3) by simp
    then show ?thesis using False by (simp add: poly_loop.simps [of r h m] poly_eval.simps [of "le_val r" acc m])
  qed
qed

lemma top_limb:
  assumes "length h = 17" "\<forall>x\<in>set h. unat x \<le> 255"
  shows "unat (h ! 16) = le_val h div 256 ^ 16" "le_val (take 16 h) = le_val h mod 256 ^ 16"
proof -
  have h: "h = take 16 h @ [h ! 16]" using assms(1) by (simp add: take_Suc_conv_app_nth [symmetric])
  have lt: "le_val (take 16 h) < 256 ^ 16" using le_val_less [of "take 16 h"] assms by (auto dest: in_set_takeD)
  have v: "le_val h = le_val (take 16 h) + 256 ^ 16 * unat (h ! 16)" using assms(1) by (subst h) (simp add: le_val_append)
  show "unat (h ! 16) = le_val h div 256 ^ 16" "le_val (take 16 h) = le_val h mod 256 ^ 16" using lt unfolding v by simp_all
qed

lemma map2_snd: "length xs = length ys \<Longrightarrow> map2 (\<lambda>x y. y) xs ys = ys"
  and map2_fst: "length xs = length ys \<Longrightarrow> map2 (\<lambda>x y. x) xs ys = xs"
  by (induction xs ys rule: list_induct2) simp_all

lemma freeze_val:
  assumes "reduced g"
  shows "le_val (freeze g) = le_val g mod p1305" "\<forall>x\<in>set (freeze g). unat x \<le> 255" "length (freeze g) = 17"
proof -
  have g: "length g = 17" "\<forall>x\<in>set g. unat x \<le> 255" "le_val g < 5 * 256 ^ 16" using assms reduced_less by (auto simp: reduced_def)
  have mp: "le_val kMinusP = 256 ^ 17 - p1305" "length kMinusP = 17" "\<forall>x\<in>set kMinusP. unat x \<le> 255"
    by (simp_all add: kMinusP_def p1305_val)
  let ?h = "add1305 g kMinusP"
  note h = add1305_val [OF g(1) mp(2) g(2) mp(3)]
  have sel: "hj XOR (gj XOR hj) = gj" for hj gj :: u32
    by (simp add: xor.left_commute [of hj gj])
  have "freeze g = (if le_val g < p1305 then g else ?h) \<and> (p1305 \<le> le_val g \<longrightarrow> le_val ?h = le_val g - p1305)"
  proof (cases "le_val g < p1305")
    case True
    then have "le_val ?h = le_val g + (256 ^ 17 - p1305)" unfolding h(1) mp(1) by (simp add: p1305_val)
    then have "252 \<le> unat (?h ! 16)" unfolding top_limb(1) [OF h(3,2)] by (simp add: p1305_val)
    moreover have "unat (?h ! 16) \<le> 255" using h(2,3) by simp
    ultimately have "unat (drop_bit 7 (?h ! 16)) = 1" by (simp add: unat_drop_bit_div)
    then have "drop_bit 7 (?h ! 16) = 1" by (intro unat_inj) simp
    then have "freeze g = map2 (\<lambda>hj gj. gj) ?h g" unfolding freeze_def Let_def by (simp add: sel)
    then show ?thesis using True h(3) g(1) map2_snd [of ?h g] by simp
  next
    case False
    then have "le_val g + (256 ^ 17 - p1305) = (le_val g - p1305) + 256 ^ 17" by (simp add: p1305_val)
    moreover have "le_val g - p1305 < 256 ^ 17" using g(3) by simp
    ultimately have v: "le_val ?h = le_val g - p1305" unfolding h(1) mp(1) by (simp only: mod_add_self2 mod_less)
    then have "unat (?h ! 16) \<le> 1" unfolding top_limb(1) [OF h(3,2)] using g(3) by (simp add: p1305_val)
    then have "unat (drop_bit 7 (?h ! 16)) = 0" by (simp add: unat_drop_bit_div)
    then have "drop_bit 7 (?h ! 16) = 0" by (intro unat_inj) simp
    then have "freeze g = map2 (\<lambda>hj gj. hj) ?h g" unfolding freeze_def Let_def by simp
    then show ?thesis using False v h(3) g(1) map2_fst [of ?h g] by simp
  qed
  moreover have "\<not> le_val g < p1305 \<Longrightarrow> le_val g mod p1305 = le_val g - p1305"
    using g(3) by (simp add: p1305_val mod_if)
  ultimately show "le_val (freeze g) = le_val g mod p1305" "\<forall>x\<in>set (freeze g). unat x \<le> 255" "length (freeze g) = 17"
    using g h by auto
qed

lemma ucast_and255: "(ucast (a :: u8) :: u32) AND 255 = ucast a"
  by (rule unat_inj) (simp add: and255 unat_ucast_up)

lemma clamp_val:
  assumes "length k = 32"
  shows "le_val (clamp k) = clamp_spec k" "\<forall>x\<in>set (clamp k). unat x \<le> 255" "length (clamp k) = 17"
proof -
  define b where "b = take 16 k"
  have "length b = 16" using assms by (simp add: b_def)
  then obtain a0 a1 a2 a3 a4 a5 a6 a7 a8 a9 a10 a11 a12 a13 a14 a15 where
    "b = [a0, a1, a2, a3, a4, a5, a6, a7, a8, a9, a10, a11, a12, a13, a14, a15]"
    by (auto simp: numeral_eq_Suc length_Suc_conv)
  then have k: "take 16 k = [a0, a1, a2, a3, a4, a5, a6, a7, a8, a9, a10, a11, a12, a13, a14, a15]" by (simp add: b_def)
  have cl: "clamp k = map ucast (map2 (AND) (take 16 k) [255, 255, 255, 15, 252, 255, 255, 15, 252, 255, 255, 15, 252, 255, 255, 15]) @ [0]"
    by (simp add: clamp_def k unsigned_and_eq ucast_and255)
  show "le_val (clamp k) = clamp_spec k" unfolding cl clamp_spec_def le_val_append le_val_ucast by simp
  have "unat (x :: u8) \<le> 255" for x using unat_u8_less [of x] by linarith
  then show "\<forall>x\<in>set (clamp k). unat x \<le> 255" unfolding cl by (auto simp: unat_ucast_up)
  show "length (clamp k) = 17" unfolding cl using assms by simp
qed

lemma le_val_bytes: "\<forall>x\<in>set xs. unat x \<le> 255 \<Longrightarrow> le_val (map (ucast :: u32 \<Rightarrow> u8) xs) = le_val xs"
  by (induction xs) (auto simp: unat_ucast_u8)

lemma onetimeauth_val:
  assumes "length k = 32"
  shows "le_val (onetimeauth m k) = poly1305_spec m k \<and> length (onetimeauth m k) = 16"
proof -
  note c = clamp_val [OF assms]
  define h where "h = poly_loop (clamp k) (replicate 17 0) m"
  have "reduced (replicate 17 0)" by (simp add: reduced_def)
  then have h: "reduced h" "le_val h mod p1305 = poly_eval (clamp_spec k) 0 m mod p1305"
    using poly_loop_val [of "replicate 17 0" "clamp k" 0 m] c unfolding h_def by simp_all
  note f = freeze_val [OF h(1)]
  let ?s = "map ucast (slice 16 16 k) @ [0] :: u32 list"
  have u: "unat (x :: u8) \<le> 255" for x using unat_u8_less [of x] by linarith
  have s: "length ?s = 17" "\<forall>x\<in>set ?s. unat x \<le> 255" "le_val ?s = le_val (slice 16 16 k)"
    using assms u by (auto simp: slice_def unat_ucast_up le_val_append le_val_ucast)
  note t = add1305_val [OF f(3) s(1) f(2) s(2)]
  have v: "le_val (take 16 (add1305 (freeze h) ?s)) = (le_val h mod p1305 + le_val (slice 16 16 k)) mod 256 ^ 17 mod 256 ^ 16"
    unfolding top_limb(2) [OF t(3,2)] t(1) f(1) s(3) by simp
  have "(x :: nat) mod 256 ^ 17 mod 256 ^ 16 = x mod 256 ^ 16" for x
    by (rule mod_mod_cancel) simp
  then have "le_val (take 16 (add1305 (freeze h) ?s)) = poly1305_spec m k"
    unfolding v h(2) poly1305_spec_def by simp
  moreover have "\<forall>x\<in>set (take 16 (add1305 (freeze h) ?s)). unat x \<le> 255" using t(2) by (auto dest: in_set_takeD)
  ultimately show ?thesis
    unfolding onetimeauth_def Let_def h_def [symmetric] using t(3) by (simp add: le_val_bytes)
qed

lemma onetimeauth_length: "length k = 32 \<Longrightarrow> length (onetimeauth m k) = 16"
  by (simp add: onetimeauth_val)

text \<open>
  C24. Poly1305: for every message and every 32-byte key, the 16 bytes that the limb code
  produces are the little-endian value of the polynomial over the 16-byte blocks at the
  clamped key, modulo \<open>2 ^ 130 - 5\<close>, plus the second key half modulo \<open>2 ^ 128\<close>.
\<close>

theorem onetimeauth_poly1305:
  assumes "length k = 32"
  shows "le_val (onetimeauth m k) = poly1305_spec m k \<and> length (onetimeauth m k) = 16"
  using assms by (rule onetimeauth_val)

text \<open>A one-byte message with \<open>r = 2\<close> and \<open>s = 3\<close>: \<open>(1 + 256) * 2 + 3\<close>.\<close>

theorem onetimeauth_poly1305_witness:
  "le_val (onetimeauth [1] [2, 0, 0, 0, 0, 0, 0, 0, 0, 0, 0, 0, 0, 0, 0, 0, 3, 0, 0, 0, 0, 0, 0, 0, 0, 0, 0, 0, 0, 0, 0, 0]) = 517"
proof -
  have "poly1305_spec [1] [2, 0, 0, 0, 0, 0, 0, 0, 0, 0, 0, 0, 0, 0, 0, 0, 3, 0, 0, 0, 0, 0, 0, 0, 0, 0, 0, 0, 0, 0, 0, 0] = 517"
    by (simp add: poly1305_spec_def clamp_spec_def poly_eval.simps [of _ _ "[1]"] poly_eval.simps [of _ _ "[]"] slice_def p1305_val)
  then show ?thesis using onetimeauth_poly1305 [of "[2, 0, 0, 0, 0, 0, 0, 0, 0, 0, 0, 0, 0, 0, 0, 0, 3, 0, 0, 0, 0, 0, 0, 0, 0, 0, 0, 0, 0, 0, 0, 0]" "[1]"] by simp
qed

end
