(* ===== verification/NaClBox.thy ===== *)
theory NaClBox
  imports Poly1305 WGCrypto
begin

text \<open>
  \<open>src/src/backend/tailscale/NaClBox.cpp\<close>: the Salsa20 core, HSalsa20, the XSalsa20 stream,
  secretbox and the public-key box of the disco and DERP protocols.  Poly1305 is theory
  \<open>Poly1305\<close>; the X25519 scalar multiplication is \<open>wg::Dh\<close> of theory \<open>WGCrypto\<close>.  The working
  buffers of \<open>BoxSealWithKey\<close> and \<open>BoxOpenWithKey\<close> are assumed to be allocated.

  The result is that opening accepts exactly what sealing produces: an opened message is the
  unique message whose sealing is the given ciphertext.  The locale \<open>sealed_box\<close> states what
  the packet formats built on the box rely on.
\<close>

text \<open>The characters of ``expand 32-byte k''.\<close>

definition kSigma :: bytes where
  "kSigma = [0x65, 0x78, 0x70, 0x61, 0x6E, 0x64, 0x20, 0x33, 0x32, 0x2D, 0x62, 0x79, 0x74, 0x65, 0x20, 0x6B]"

definition L32 :: "u32 \<Rightarrow> nat \<Rightarrow> u32" where
  "L32 x c = push_bit c x OR drop_bit (32 - c) (x AND 0xFFFFFFFF)"

definition ld32 :: "bytes \<Rightarrow> u32" where
  "ld32 x =
     (let u = ucast (x ! 3); u = push_bit 8 u OR ucast (x ! 2); u = push_bit 8 u OR ucast (x ! 1)
      in push_bit 8 u OR ucast (x ! 0))"

definition st32 :: "u32 \<Rightarrow> bytes" where
  "st32 u = map (\<lambda>i. ucast (drop_bit (8 * i) u)) [0..<4]"

definition vn :: "bytes \<Rightarrow> bytes \<Rightarrow> nat \<Rightarrow> int" where
  "vn x y n =
     (let d = foldl (\<lambda>d i. d OR ucast (x ! i XOR y ! i)) (0 :: u32) [0..<n]
      in sint ((1 AND drop_bit 8 (d - 1)) - 1))"

subsection \<open>Salsa20\<close>

text \<open>One column \<open>j\<close> of a round: the four words it reads and the places it writes.\<close>

definition salsa_column :: "u32 list \<Rightarrow> u32 list \<Rightarrow> nat \<Rightarrow> u32 list" where
  "salsa_column x w j =
     (let t0 = x ! ((5 * j) mod 16); t1 = x ! ((5 * j + 4) mod 16); t2 = x ! ((5 * j + 8) mod 16); t3 = x ! ((5 * j + 12) mod 16);
          t1 = t1 XOR L32 (t0 + t3) 7; t2 = t2 XOR L32 (t1 + t0) 9; t3 = t3 XOR L32 (t2 + t1) 13; t0 = t0 XOR L32 (t3 + t2) 18
      in w[4 * j + j mod 4 := t0, 4 * j + (j + 1) mod 4 := t1, 4 * j + (j + 2) mod 4 := t2, 4 * j + (j + 3) mod 4 := t3])"

definition salsa_round :: "u32 list \<Rightarrow> u32 list" where
  "salsa_round x = foldl (salsa_column x) (replicate 16 0) [0..<4]"

definition salsa_init :: "bytes \<Rightarrow> bytes \<Rightarrow> bytes \<Rightarrow> u32 list" where
  "salsa_init inp k c =
     foldl (\<lambda>x i. x[5 * i := ld32 (drop (4 * i) c), 1 + i := ld32 (drop (4 * i) k),
                    6 + i := ld32 (drop (4 * i) inp), 11 + i := ld32 (drop (16 + 4 * i) k)])
       (replicate 16 0) [0..<4]"

definition salsa_core :: "bytes \<Rightarrow> bytes \<Rightarrow> bytes \<Rightarrow> bool \<Rightarrow> bytes" where
  "salsa_core inp k c h =
     (let y = salsa_init inp k c; x = (salsa_round ^^ 20) y in
      if h then
        (let x = map2 (+) x y;
             x = foldl (\<lambda>x i. let x = x[5 * i := x ! (5 * i) - ld32 (drop (4 * i) c)]
                              in x[6 + i := x ! (6 + i) - ld32 (drop (4 * i) inp)]) x [0..<4]
         in concat (map (\<lambda>i. st32 (x ! (5 * i))) [0..<4]) @ concat (map (\<lambda>i. st32 (x ! (6 + i))) [0..<4]))
      else concat (map (\<lambda>i. st32 (x ! i + y ! i)) [0..<16]))"

definition salsa20 :: "bytes \<Rightarrow> bytes \<Rightarrow> bytes \<Rightarrow> bytes" where
  "salsa20 inp k c = salsa_core inp k c False"

definition hsalsa20 :: "bytes \<Rightarrow> bytes \<Rightarrow> bytes \<Rightarrow> bytes" where
  "hsalsa20 inp k c = salsa_core inp k c True"

subsection \<open>The stream\<close>

text \<open>The 64-bit little-endian block counter in bytes 8 to 15 of the input block.\<close>

fun inc_carry :: "u32 \<Rightarrow> bytes \<Rightarrow> bytes" where
  "inc_carry u [] = []"
| "inc_carry u (b # bs) = (let u = u + ucast b in ucast u # inc_carry (drop_bit 8 u) bs)"

definition next_block :: "bytes \<Rightarrow> bytes" where
  "next_block z = take 8 z @ inc_carry 1 (drop 8 z)"

text \<open>\<open>m\<close> is \<open>None\<close> for NULL: the bare key stream.\<close>

definition msg_byte :: "bytes option \<Rightarrow> nat \<Rightarrow> u8" where
  "msg_byte m i = (case m of None \<Rightarrow> 0 | Some m \<Rightarrow> m ! i)"

function salsa_loop :: "bytes \<Rightarrow> bytes \<Rightarrow> bytes option \<Rightarrow> nat \<Rightarrow> bytes" where
  "salsa_loop k z m b =
     (if b \<ge> 64
      then map (\<lambda>i. msg_byte m i XOR salsa20 z k kSigma ! i) [0..<64]
           @ salsa_loop k (next_block z) (map_option (drop 64) m) (b - 64)
      else if b > 0 then map (\<lambda>i. msg_byte m i XOR salsa20 z k kSigma ! i) [0..<b] else [])"
  by pat_completeness auto
termination
  by (relation "measure (\<lambda>(k, z, m, b). b)") auto

declare salsa_loop.simps [simp del]

definition stream_salsa20_xor :: "bytes option \<Rightarrow> nat \<Rightarrow> bytes \<Rightarrow> bytes \<Rightarrow> bytes" where
  "stream_salsa20_xor m b n k = (if b = 0 then [] else salsa_loop k (take 8 n @ replicate 8 0) m b)"

definition stream_xsalsa20_xor :: "bytes option \<Rightarrow> nat \<Rightarrow> bytes \<Rightarrow> bytes \<Rightarrow> bytes" where
  "stream_xsalsa20_xor m d n k = stream_salsa20_xor m d (drop 16 n) (hsalsa20 n k kSigma)"

subsection \<open>Secretbox and box\<close>

text \<open>The NaCl convention: 32 zero bytes before the plaintext, 16 before the ciphertext.\<close>

definition secretbox :: "bytes \<Rightarrow> bytes \<Rightarrow> bytes \<Rightarrow> bytes option" where
  "secretbox m n k =
     (if length m < 32 then None
      else let c = stream_xsalsa20_xor (Some m) (length m) n k;
               tag = onetimeauth (drop 32 c) (take 32 c)
           in Some (replicate 16 0 @ tag @ drop 32 c))"

definition onetimeauth_verify :: "bytes \<Rightarrow> bytes \<Rightarrow> bytes \<Rightarrow> int" where
  "onetimeauth_verify h m k = vn h (onetimeauth m k) 16"

definition secretbox_open :: "bytes \<Rightarrow> bytes \<Rightarrow> bytes \<Rightarrow> bytes option" where
  "secretbox_open c n k =
     (if length c < 32 then None
      else let x = stream_xsalsa20_xor None 32 n k in
      if onetimeauth_verify (slice 16 16 c) (drop 32 c) x \<noteq> 0 then None
      else let m = stream_xsalsa20_xor (Some c) (length c) n k
           in Some (replicate 32 0 @ drop 32 m))"

definition BoxBeforeNm :: "openssl \<Rightarrow> bytes \<Rightarrow> bytes \<Rightarrow> bytes option" where
  "BoxBeforeNm os peerPublic secret =
     (case Dh os secret peerPublic of None \<Rightarrow> None
      | Some s \<Rightarrow> Some (hsalsa20 (replicate 16 0) s kSigma))"

definition BoxSealWithKey :: "bytes \<Rightarrow> bytes \<Rightarrow> bytes \<Rightarrow> bytes" where
  "BoxSealWithKey msg nonce key =
     (let m2 = replicate 32 0 @ msg; c2 = the (secretbox m2 nonce key) in slice 16 (length msg + 16) c2)"

definition BoxOpenWithKey :: "bytes \<Rightarrow> bytes \<Rightarrow> bytes \<Rightarrow> bytes option" where
  "BoxOpenWithKey cipher nonce key =
     (if length cipher < 16 then None
      else let c2 = replicate 16 0 @ cipher
           in case secretbox_open c2 nonce key of None \<Rightarrow> None
              | Some m2 \<Rightarrow> Some (slice 32 (length cipher - 16) m2))"

definition BoxSeal :: "openssl \<Rightarrow> bytes \<Rightarrow> bytes \<Rightarrow> bytes \<Rightarrow> bytes \<Rightarrow> bytes option" where
  "BoxSeal os msg nonce peerPublic secret =
     (case BoxBeforeNm os peerPublic secret of None \<Rightarrow> None
      | Some key \<Rightarrow> Some (BoxSealWithKey msg nonce key))"

definition BoxOpen :: "openssl \<Rightarrow> bytes \<Rightarrow> bytes \<Rightarrow> bytes \<Rightarrow> bytes \<Rightarrow> bytes option" where
  "BoxOpen os cipher nonce peerPublic secret =
     (case BoxBeforeNm os peerPublic secret of None \<Rightarrow> None
      | Some key \<Rightarrow> BoxOpenWithKey cipher nonce key)"

subsection \<open>The constant-time comparison\<close>

lemma xor_eq_0: "a XOR b = 0 \<longleftrightarrow> a = (b :: u8)"
proof
  assume "a XOR b = 0"
  then have "(a XOR b) XOR b = b" by simp
  then show "a = b" by (simp add: xor.assoc)
qed simp

lemma vn_acc:
  "take_bit 8 (foldl (\<lambda>d i. d OR ucast (x ! i XOR y ! i)) (0 :: u32) [0..<n]) = foldl (\<lambda>d i. d OR ucast (x ! i XOR y ! i)) 0 [0..<n]
   \<and> (foldl (\<lambda>d i. d OR ucast (x ! i XOR y ! i :: u8)) (0 :: u32) [0..<n] = 0 \<longleftrightarrow> (\<forall>i<n. x ! i = y ! i))"
proof (induction n)
  case (Suc n)
  have z: "(ucast b :: u32) = 0 \<longleftrightarrow> b = (0 :: u8)" for b
  proof
    assume "(ucast b :: u32) = 0"
    then have "unat (ucast b :: u32) = 0" by simp
    then have "unat b = 0" by (simp add: unat_ucast_up)
    then show "b = 0" by (simp add: unat_eq_zero)
  qed simp
  have "take_bit 8 (ucast b :: u32) = ucast (b :: u8)" for b
    by (rule bit_word_eqI) (auto simp: bit_simps dest: bit_imp_le_length)
  moreover have "(ucast (a XOR b) :: u32) = 0 \<longleftrightarrow> a = (b :: u8)" for a b
    by (simp only: z xor_eq_0)
  ultimately show ?case using Suc by (auto simp: or_eq_0_iff less_Suc_eq)
qed simp

text \<open>\<open>vn\<close> is zero exactly on equal strings.\<close>

lemma vn_0: "vn x y n = 0 \<longleftrightarrow> (\<forall>i<n. x ! i = y ! i)"
proof -
  define d where "d = foldl (\<lambda>d i. d OR ucast (x ! i XOR y ! i)) (0 :: u32) [0..<n]"
  have d: "take_bit 8 d = d" "d = 0 \<longleftrightarrow> (\<forall>i<n. x ! i = y ! i)" using vn_acc [of x y n] unfolding d_def by blast+
  have "unat (take_bit 8 d) < 256" by (simp add: unat_take_bit_mod)
  then have "unat d < 256" by (simp only: d(1))
  have v: "vn x y n = sint ((1 AND drop_bit 8 (d - 1)) - 1)" by (simp add: vn_def d_def Let_def)
  show ?thesis
  proof (cases "d = 0")
    case True
    have "vn x y n = 0" unfolding v True by (simp add: drop_bit_eq_div)
    then show ?thesis using d True by simp
  next
    case False
    then have "0 < unat d" by (simp add: unat_gt_0)
    then have "unat (d - 1) < 256" using \<open>unat d < 256\<close> by (simp add: unat_minus_one False)
    then have "unat (drop_bit 8 (d - 1)) = 0" by (simp add: unat_drop_bit_div)
    then have "drop_bit 8 (d - 1) = 0" by (simp add: unat_eq_zero)
    then have "vn x y n = - 1" unfolding v by simp
    then show ?thesis using d False by simp
  qed
qed

subsection \<open>Lengths\<close>

lemma length_st32 [simp]: "length (st32 u) = 4"
  by (simp add: st32_def)

lemma length_concat_4: "(\<And>i. length (f i) = 4) \<Longrightarrow> length (concat (map f xs)) = 4 * length xs"
  by (induction xs) simp_all

lemma length_salsa20 [simp]: "length (salsa20 inp k c) = 64"
  by (simp add: salsa20_def salsa_core_def Let_def length_concat_4)

lemma length_hsalsa20 [simp]: "length (hsalsa20 inp k c) = 32"
  by (simp add: hsalsa20_def salsa_core_def Let_def length_concat_4)

lemma length_salsa_loop [simp]: "length (salsa_loop k z m b) = b"
  by (induction k z m b rule: salsa_loop.induct) (simp add: salsa_loop.simps)

lemma length_stream [simp]: "length (stream_xsalsa20_xor m d n k) = d"
  by (simp add: stream_xsalsa20_xor_def stream_salsa20_xor_def)

subsection \<open>The stream is a mask\<close>

lemma salsa_loop_mask:
  "i < b \<Longrightarrow> b \<le> length m \<Longrightarrow> salsa_loop k z (Some m) b ! i = m ! i XOR salsa_loop k z None b ! i"
proof (induction k z "Some m" b arbitrary: m i rule: salsa_loop.induct)
  case (1 k z b m)
  show ?case
  proof (cases "64 \<le> b \<and> 64 \<le> i")
    case True
    then have "64 \<le> b" "i - 64 < b - 64" "b - 64 \<le> length (drop 64 m)" using 1(2,3) by auto
    then show ?thesis using 1(1) [of "drop 64 m" "i - 64"] 1(2,3) True
      by (simp add: salsa_loop.simps [of k z "Some m"] salsa_loop.simps [of k z None] nth_append)
  next
    case False
    then show ?thesis using 1(2,3)
      by (auto simp: salsa_loop.simps [of k z "Some m"] salsa_loop.simps [of k z None] nth_append msg_byte_def)
  qed
qed

lemma salsa_loop_first: "i < b \<Longrightarrow> i < 64 \<Longrightarrow> salsa_loop k z None b ! i = salsa20 z k kSigma ! i"
  by (auto simp: salsa_loop.simps [of k z None b] nth_append msg_byte_def)

definition key_stream :: "nat \<Rightarrow> bytes \<Rightarrow> bytes \<Rightarrow> bytes" where
  "key_stream d n k = stream_xsalsa20_xor None d n k"

lemma length_key_stream [simp]: "length (key_stream d n k) = d"
  by (simp add: key_stream_def)

lemma stream_mask: "stream_xsalsa20_xor (Some m) (length m) n k = map2 (XOR) m (key_stream (length m) n k)"
proof (rule nth_equalityI)
  fix i assume "i < length (stream_xsalsa20_xor (Some m) (length m) n k)"
  then have i: "i < length m" by simp
  then have "m \<noteq> []" by auto
  then show "stream_xsalsa20_xor (Some m) (length m) n k ! i = map2 (XOR) m (key_stream (length m) n k) ! i"
    using i by (simp add: stream_xsalsa20_xor_def stream_salsa20_xor_def key_stream_def salsa_loop_mask)
qed simp

lemma key_stream_32: "32 \<le> d \<Longrightarrow> take 32 (key_stream d n k) = key_stream 32 n k"
  by (rule nth_equalityI)
    (auto simp: key_stream_def stream_xsalsa20_xor_def stream_salsa20_xor_def salsa_loop_first)

lemma mask_zeros: "length ks = n \<Longrightarrow> map2 (XOR) (replicate n 0) ks = (ks :: bytes)"
  by (rule nth_equalityI) simp_all

lemma mask_twice: "length m \<le> length ks \<Longrightarrow> map2 (XOR) (map2 (XOR) m ks) ks = (m :: bytes)"
  by (rule nth_equalityI) (simp_all add: xor.assoc)

subsection \<open>Opening accepts exactly the sealings\<close>

lemma drop_map2: "drop n (map2 f xs ys) = map2 f (drop n xs) (drop n ys)"
  by (simp add: drop_map drop_zip)

lemma take_map2: "take n (map2 f xs ys) = map2 f (take n xs) (take n ys)"
  by (simp add: take_map take_zip)

text \<open>A sealed message is the tag of the masked message under the first 32 stream bytes, then the masked message.\<close>

lemma BoxSealWithKey_eq:
  "BoxSealWithKey msg n k =
     (let ks = key_stream (32 + length msg) n k; ct = map2 (XOR) msg (drop 32 ks)
      in onetimeauth ct (key_stream 32 n k) @ ct)"
proof -
  let ?m = "replicate 32 0 @ msg"
  let ?ks = "key_stream (32 + length msg) n k"
  let ?ct = "map2 (XOR) msg (drop 32 ?ks)"
  have c: "stream_xsalsa20_xor (Some ?m) (length ?m) n k = map2 (XOR) ?m ?ks"
    using stream_mask [of ?m n k] by simp
  have d: "drop 32 (map2 (XOR) ?m ?ks) = ?ct" by (simp only: drop_map2) simp
  have t: "take 32 (map2 (XOR) ?m ?ks) = key_stream 32 n k"
    by (simp only: take_map2) (simp add: key_stream_32 mask_zeros)
  have len: "length (onetimeauth ?ct (key_stream 32 n k)) = 16" "length ?ct = length msg"
    by (simp_all add: onetimeauth_length)
  show ?thesis
    using len unfolding BoxSealWithKey_def secretbox_def Let_def c d t by (simp add: slice_def)
qed

lemma BoxOpenWithKey_eq:
  assumes "16 \<le> length c"
  shows "BoxOpenWithKey c n k =
     (let ks = key_stream (16 + length c) n k; ct = drop 16 c
      in if take 16 c = onetimeauth ct (key_stream 32 n k) then Some (map2 (XOR) ct (drop 32 ks)) else None)"
proof -
  let ?c = "replicate 16 0 @ c"
  have v: "vn (take 16 c) (onetimeauth (drop 16 c) (key_stream 32 n k)) 16 = 0 \<longleftrightarrow> take 16 c = onetimeauth (drop 16 c) (key_stream 32 n k)"
    unfolding vn_0 using assms by (auto simp: list_eq_iff_nth_eq onetimeauth_length)
  have m: "stream_xsalsa20_xor (Some ?c) (length ?c) n k = map2 (XOR) ?c (key_stream (16 + length c) n k)"
    using stream_mask [of ?c n k] by simp
  have d: "drop 32 (map2 (XOR) ?c (key_stream (16 + length c) n k)) = map2 (XOR) (drop 16 c) (drop 32 (key_stream (16 + length c) n k))"
    by (simp only: drop_map2) simp
  have s: "slice 16 16 ?c = take 16 c" "drop 32 ?c = drop 16 c" "\<not> length ?c < 32" "\<not> length c < 16"
    using assms by (simp_all add: slice_def)
  show ?thesis
    unfolding BoxOpenWithKey_def secretbox_open_def onetimeauth_verify_def Let_def key_stream_def [of 32, symmetric] m s d
    using assms by (simp add: v slice_def)
qed

lemma open_sealed:
  "BoxOpenWithKey c n k = Some m \<longleftrightarrow> c = BoxSealWithKey m n k"
proof
  assume a: "BoxOpenWithKey c n k = Some m"
  then have l: "16 \<le> length c" by (simp add: BoxOpenWithKey_def split: if_splits)
  let ?ks = "key_stream (16 + length c) n k"
  have m: "m = map2 (XOR) (drop 16 c) (drop 32 ?ks)" and t: "take 16 c = onetimeauth (drop 16 c) (key_stream 32 n k)"
    using a by (simp_all add: BoxOpenWithKey_eq [OF l] Let_def split: if_splits)
  have lm: "length m = length c - 16" "32 + length m = 16 + length c" using m l by simp_all
  have "map2 (XOR) m (drop 32 ?ks) = drop 16 c" unfolding m by (rule mask_twice) simp
  then show "c = BoxSealWithKey m n k"
    unfolding BoxSealWithKey_eq Let_def lm(2) by (metis append_take_drop_id t)
next
  assume c: "c = BoxSealWithKey m n k"
  let ?ks = "key_stream (32 + length m) n k"
  let ?ct = "map2 (XOR) m (drop 32 ?ks)"
  have s: "c = onetimeauth ?ct (key_stream 32 n k) @ ?ct" unfolding c BoxSealWithKey_eq Let_def ..
  have l: "length c = 16 + length m" unfolding s by (simp add: onetimeauth_length)
  have "map2 (XOR) ?ct (drop 32 ?ks) = m" by (rule mask_twice) simp
  then show "BoxOpenWithKey c n k = Some m"
    using BoxOpenWithKey_eq [of c n k] l s by (simp add: Let_def onetimeauth_length)
qed

lemma length_BoxSealWithKey [simp]: "length (BoxSealWithKey m n k) = length m + 16"
  by (simp add: BoxSealWithKey_eq Let_def onetimeauth_length)

text \<open>
  C27. Secret box: opening a ciphertext gives the message \<open>m\<close> exactly when the ciphertext is
  the sealing of \<open>m\<close> under the same key and nonce; in particular a sealed message opens, and
  a ciphertext that is no sealing is refused.
\<close>

theorem box_open_iff_sealed:
  "BoxOpenWithKey c n k = Some m \<longleftrightarrow> c = BoxSealWithKey m n k"
  by (rule open_sealed)

subsection \<open>The box as an interface\<close>

text \<open>
  What a packet format relies on: \<open>keypair a A\<close> says that \<open>A\<close> is the public key of the
  private key \<open>a\<close>; sealing with \<open>a\<close> to \<open>B\<close> and opening with \<open>b\<close> from \<open>A\<close> are inverse.
\<close>

locale sealed_box =
  fixes seal :: "bytes \<Rightarrow> bytes \<Rightarrow> bytes \<Rightarrow> bytes \<Rightarrow> bytes option"
    and opn :: "bytes \<Rightarrow> bytes \<Rightarrow> bytes \<Rightarrow> bytes \<Rightarrow> bytes option"
    and keypair :: "bytes \<Rightarrow> bytes \<Rightarrow> bool"
  assumes seal_total: "keypair a A \<Longrightarrow> keypair b B \<Longrightarrow> \<exists>c. seal m n B a = Some c \<and> length c = length m + 16"
    and opn_iff: "keypair a A \<Longrightarrow> keypair b B \<Longrightarrow> opn c n A b = Some m \<longleftrightarrow> seal m n B a = Some c"
    and public_len: "keypair a A \<Longrightarrow> length A = 32"

definition box_keypair :: "openssl \<Rightarrow> bytes \<Rightarrow> bytes \<Rightarrow> bool" where
  "box_keypair os a A \<longleftrightarrow> dh_laws os \<and> length a = 32 \<and> DhPublic os a = Some A"

lemma BoxBeforeNm_agree:
  assumes "box_keypair os a A" "box_keypair os b B"
  shows "\<exists>k. BoxBeforeNm os B a = Some k \<and> BoxBeforeNm os A b = Some k"
  using Dh_ok [of os a b A B] assms by (auto simp: box_keypair_def BoxBeforeNm_def)

interpretation nacl: sealed_box "BoxSeal os" "BoxOpen os" "box_keypair os" for os
proof
  fix a A b B m n
  assume "box_keypair os a A" "box_keypair os b B"
  then obtain k where k: "BoxBeforeNm os B a = Some k" "BoxBeforeNm os A b = Some k"
    using BoxBeforeNm_agree by blast
  show "\<exists>c. BoxSeal os m n B a = Some c \<and> length c = length m + 16" by (simp add: BoxSeal_def k)
  show "BoxOpen os c n A b = Some m \<longleftrightarrow> BoxSeal os m n B a = Some c" for c
    by (auto simp: BoxSeal_def BoxOpen_def k open_sealed)
next
  fix a A assume "box_keypair os a A"
  then show "length A = 32" using DhPublic_ok [of os a] by (auto simp: box_keypair_def)
qed

lemma toy_box_keypair [simp]: "length a = 32 \<Longrightarrow> box_keypair toy_openssl a a"
  by (simp add: box_keypair_def toy_dh_laws DhPublic_def) (simp add: toy_openssl_def)

end
