(* ===== verification/Disco.thy ===== *)
theory Disco
  imports NaClBox CLib
begin

text \<open>
  The disco protocol (\<open>src/src/backend/tailscale/TSDisco.cpp\<close>): the plaintext codecs for Ping
  and Pong and the packet format around the NaCl box.  The random nonce of \<open>DiscoSeal\<close> is an
  argument.  The packet lemmas are proved once for any \<open>sealed_box\<close> and used for the box of
  theory \<open>NaClBox\<close>.
\<close>

definition kDiscoMagic :: bytes where "kDiscoMagic = [0x54, 0x53, 0xF0, 0x9F, 0x92, 0xAC]"

definition kDiscoMagicLen :: nat where "kDiscoMagicLen = 6"
definition kDiscoKeyLen :: nat where "kDiscoKeyLen = 32"
definition kDiscoNonceLen :: nat where "kDiscoNonceLen = 24"
definition kDiscoHeaderOff :: nat where "kDiscoHeaderOff = kDiscoMagicLen + kDiscoKeyLen + kDiscoNonceLen"
definition kDiscoMsgHeaderLen :: nat where "kDiscoMsgHeaderLen = 2"
definition kDiscoTxIDLen :: nat where "kDiscoTxIDLen = 12"

lemmas disco_sizes = kDiscoMagicLen_def kDiscoKeyLen_def kDiscoNonceLen_def kDiscoHeaderOff_def
  kDiscoMsgHeaderLen_def kDiscoTxIDLen_def

definition DISCO_PING :: u8 where "DISCO_PING = 0x01"
definition DISCO_PONG :: u8 where "DISCO_PONG = 0x02"

text \<open>\<open>nodeKey\<close> is \<open>None\<close> when \<open>hasNodeKey\<close> is false.\<close>

record disco_ping =
  ping_txid :: bytes
  ping_nodeKey :: "bytes option"

record disco_pong =
  pong_txid :: bytes
  srcIP :: string
  srcPort :: u16

subsection \<open>Message codecs\<close>

definition encode_ipv4_mapped :: "string option \<Rightarrow> bytes option" where
  "encode_ipv4_mapped ip =
     (case ip of None \<Rightarrow> None
      | Some ip \<Rightarrow>
        (case sscanf_ipv4 ip of None \<Rightarrow> None
         | Some (a, b, c, d) \<Rightarrow>
             if a > 255 \<or> b > 255 \<or> c > 255 \<or> d > 255 then None
             else Some (replicate 10 0 @ [0xFF, 0xFF, ucast a, ucast b, ucast c, ucast d])))"

definition decode_ipv4_mapped :: "bytes \<Rightarrow> string" where
  "decode_ipv4_mapped b = fmt_ipv4 (unat (b ! 12)) (unat (b ! 13)) (unat (b ! 14)) (unat (b ! 15))"

definition EncodePing :: "bytes \<Rightarrow> bytes option \<Rightarrow> bytes" where
  "EncodePing txid nodeKey =
     [DISCO_PING, 0] @ take 12 txid @ (case nodeKey of None \<Rightarrow> [] | Some k \<Rightarrow> take 32 k)"

definition EncodePong :: "bytes \<Rightarrow> string option \<Rightarrow> u16 \<Rightarrow> bytes" where
  "EncodePong txid ip port =
     [DISCO_PONG, 0] @ take 12 txid
     @ (case encode_ipv4_mapped ip of None \<Rightarrow> replicate 16 0 | Some ip16 \<Rightarrow> ip16)
     @ [ucast (drop_bit 8 port), ucast (port AND 0xFF)]"

definition DiscoMessageType :: "bytes option \<Rightarrow> u8" where
  "DiscoMessageType msg =
     (case msg of None \<Rightarrow> 0 | Some m \<Rightarrow> if length m < kDiscoMsgHeaderLen then 0 else m ! 0)"

definition DecodePing :: "bytes \<Rightarrow> disco_ping option" where
  "DecodePing msg =
     (if length msg < kDiscoMsgHeaderLen + kDiscoTxIDLen \<or> msg ! 0 \<noteq> DISCO_PING then None
      else Some \<lparr> ping_txid = slice 2 12 msg, ping_nodeKey = (if length msg \<ge> 46 then Some (slice 14 32 msg) else None) \<rparr>)"

definition DecodePong :: "bytes \<Rightarrow> disco_pong option" where
  "DecodePong msg =
     (if length msg < kDiscoMsgHeaderLen + kDiscoTxIDLen + 16 + 2 \<or> msg ! 0 \<noteq> DISCO_PONG then None
      else Some \<lparr> pong_txid = slice 2 12 msg, srcIP = decode_ipv4_mapped (drop 14 msg),
                  srcPort = push_bit 8 (ucast (msg ! 30)) OR ucast (msg ! 31) \<rparr>)"

subsection \<open>Packets\<close>

text \<open>\<open>seal\<close> and \<open>opn\<close> are \<open>BoxSeal\<close> and \<open>BoxOpen\<close>.\<close>

definition DiscoSeal ::
  "(bytes \<Rightarrow> bytes \<Rightarrow> bytes \<Rightarrow> bytes \<Rightarrow> bytes option) \<Rightarrow> nat \<Rightarrow> bytes \<Rightarrow> bytes \<Rightarrow> bytes \<Rightarrow> bytes \<Rightarrow> bytes \<Rightarrow> bytes option" where
  "DiscoSeal seal outCap nonce senderPub senderPriv peerPub payload =
     (let total = kDiscoHeaderOff + length payload + 16 in
      if outCap < total then None
      else case seal payload nonce peerPub senderPriv of None \<Rightarrow> None
      | Some box \<Rightarrow> Some (kDiscoMagic @ senderPub @ nonce @ box))"

definition DiscoOpen ::
  "(bytes \<Rightarrow> bytes \<Rightarrow> bytes \<Rightarrow> bytes \<Rightarrow> bytes option) \<Rightarrow> bytes \<Rightarrow> bytes \<Rightarrow> nat \<Rightarrow> (bytes \<times> bytes) option" where
  "DiscoOpen opn packet myPriv outCap =
     (if length packet < kDiscoHeaderOff + 16 then None
      else if take kDiscoMagicLen packet \<noteq> kDiscoMagic then None
      else let outSenderPub = slice kDiscoMagicLen 32 packet;
               nonce = slice (kDiscoMagicLen + 32) 24 packet;
               cipher = drop kDiscoHeaderOff packet;
               plainLen = length cipher - 16
           in if plainLen > outCap then None
              else case opn cipher nonce outSenderPub myPriv of None \<Rightarrow> None
              | Some payload \<Rightarrow> Some (outSenderPub, payload))"

context sealed_box
begin

lemma disco_seal_open:
  assumes "keypair a A" "keypair b B" "length n = 24" "length p + 78 \<le> cap" "length p \<le> cap'"
  shows "\<exists>pkt. DiscoSeal seal cap n A a B p = Some pkt \<and> length pkt = length p + 78 \<and> take 6 pkt = kDiscoMagic
     \<and> DiscoOpen opn pkt b cap' = Some (A, p)"
proof -
  obtain c where c: "seal p n B a = Some c" "length c = length p + 16" using seal_total [OF assms(1,2)] by blast
  then have o: "opn c n A b = Some p" using opn_iff [OF assms(1,2)] by blast
  let ?pkt = "kDiscoMagic @ A @ n @ c"
  have l: "length kDiscoMagic = 6" "length A = 32" using public_len [OF assms(1)] by (simp_all add: kDiscoMagic_def)
  have f: "slice 6 32 ?pkt = A" "slice 38 24 ?pkt = n" "drop 62 ?pkt = c" "take 6 ?pkt = kDiscoMagic"
    using l assms(3) by (simp_all add: slice_simps)
  show ?thesis
    using c o l assms(3-5) f by (simp add: DiscoSeal_def DiscoOpen_def disco_sizes Let_def)
qed

text \<open>An accepted packet that names a public key was sealed by the owner of that key.\<close>

lemma disco_open_sealed:
  assumes "DiscoOpen opn pkt b cap' = Some (A, p)" "keypair a A" "keypair b B"
  shows "\<exists>n. length n = 24 \<and> DiscoSeal seal (length pkt) n A a B p = Some pkt"
proof -
  have l: "78 \<le> length pkt" and m: "take 6 pkt = kDiscoMagic" and A: "A = slice 6 32 pkt"
    and o: "opn (drop 62 pkt) (slice 38 24 pkt) A b = Some p"
    using assms(1) by (auto simp: DiscoOpen_def disco_sizes Let_def split: if_splits option.splits)
  have c: "seal p (slice 38 24 pkt) B a = Some (drop 62 pkt)" using o opn_iff [OF assms(2,3)] by blast
  then have lp: "length (drop 62 pkt) = length p + 16" using seal_total [OF assms(2,3), of p "slice 38 24 pkt"] by auto
  have "pkt = take 6 pkt @ slice 6 32 pkt @ slice 38 24 pkt @ drop 62 pkt"
    using slice_cut [of 6 pkt 32] slice_cut [of 38 pkt 24] append_take_drop_id [of 6 pkt] by simp
  then show ?thesis using c l lp m A
    by (intro exI [of _ "slice 38 24 pkt"]) (auto simp: DiscoSeal_def disco_sizes Let_def)
qed

end

subsection \<open>Message round trips\<close>

lemma ping_decode_encode:
  assumes "length txid = 12" "\<forall>k. nodeKey = Some k \<longrightarrow> length k = 32"
  shows "DecodePing (EncodePing txid nodeKey) = Some \<lparr> ping_txid = txid, ping_nodeKey = nodeKey \<rparr>"
  using assms by (cases nodeKey) (simp_all add: DecodePing_def EncodePing_def disco_sizes slice_simps)

lemma ipv4_mapped_decode:
  assumes "a < 256" "b < 256" "c < 256" "d < 256"
  shows "\<exists>ip16. encode_ipv4_mapped (Some (fmt_ipv4 a b c d)) = Some ip16 \<and> length ip16 = 16
     \<and> (\<forall>rest. decode_ipv4_mapped (ip16 @ rest) = fmt_ipv4 a b c d)"
proof -
  have s: "sscanf_ipv4 (fmt_ipv4 a b c d) = Some (of_nat a, of_nat b, of_nat c, of_nat d)"
    using assms by (intro sscanf_ipv4_fmt_ipv4) simp_all
  have le: "\<not> (of_nat x :: u32) > 255" if "x < 256" for x
    using that by (simp add: word_less_nat_alt unat_of_nat)
  have u: "unat (ucast (of_nat x :: u32) :: u8) = x" if "x < 256" for x
    using that by (simp add: unat_ucast_u8 unat_of_nat)
  show ?thesis using assms s le u
    by (simp add: encode_ipv4_mapped_def decode_ipv4_mapped_def numeral_eq_Suc del: le)
qed

lemma pong_decode_encode:
  assumes "length txid = 12" "a < 256" "b < 256" "c < 256" "d < 256"
  shows "DecodePong (EncodePong txid (Some (fmt_ipv4 a b c d)) port)
     = Some \<lparr> pong_txid = txid, srcIP = fmt_ipv4 a b c d, srcPort = port \<rparr>"
proof -
  obtain ip16 where ip: "encode_ipv4_mapped (Some (fmt_ipv4 a b c d)) = Some ip16" "length ip16 = 16"
    "\<And>rest. decode_ipv4_mapped (ip16 @ rest) = fmt_ipv4 a b c d"
    using ipv4_mapped_decode [OF assms(2-5)] by blast
  let ?m = "[DISCO_PONG, 0] @ txid @ ip16 @ [ucast (drop_bit 8 port), ucast (port AND 0xFF)]"
  have m: "EncodePong txid (Some (fmt_ipv4 a b c d)) port = ?m" using assms(1) ip(1) by (simp add: EncodePong_def)
  have f: "slice 2 12 ?m = txid" "drop 14 ?m = ip16 @ [ucast (drop_bit 8 port), ucast (port AND 0xFF)]"
    "?m ! 30 = ucast (drop_bit 8 port)" "?m ! 31 = ucast (port AND 0xFF)" "length ?m = 32" "?m ! 0 = DISCO_PONG"
    using assms(1) ip(2) by (simp_all add: slice_simps nth_append)
  show ?thesis unfolding m DecodePong_def f(1-4) ip(3) u16_bytes using f(5,6) by (simp add: disco_sizes)
qed

text \<open>
  C28. Disco exchange: a Ping or Pong that one node seals for another is opened by it with the
  sender's key and decoded to the same transaction id, node key and observed address; and
  whatever packet a node accepts from the owner of a key pair is, byte for byte, a sealing
  by that owner for this node.
\<close>

theorem disco_exchange:
  assumes "box_keypair os a A" "box_keypair os b B"
  shows "(\<forall>n p cap cap'. length n = 24 \<longrightarrow> length p + 78 \<le> cap \<longrightarrow> length p \<le> cap' \<longrightarrow>
      (\<exists>pkt. DiscoSeal (BoxSeal os) cap n A a B p = Some pkt \<and> length pkt = length p + 78 \<and> DiscoOpen (BoxOpen os) pkt b cap' = Some (A, p)))
   \<and> (\<forall>txid key. length txid = 12 \<longrightarrow> (\<forall>k. key = Some k \<longrightarrow> length k = 32) \<longrightarrow>
      DecodePing (EncodePing txid key) = Some \<lparr> ping_txid = txid, ping_nodeKey = key \<rparr>)
   \<and> (\<forall>txid w x y z port. length txid = 12 \<longrightarrow> w < 256 \<longrightarrow> x < 256 \<longrightarrow> y < 256 \<longrightarrow> z < 256 \<longrightarrow>
      DecodePong (EncodePong txid (Some (fmt_ipv4 w x y z)) port) = Some \<lparr> pong_txid = txid, srcIP = fmt_ipv4 w x y z, srcPort = port \<rparr>)
   \<and> (\<forall>pkt p cap'. DiscoOpen (BoxOpen os) pkt b cap' = Some (A, p) \<longrightarrow>
      (\<exists>n. length n = 24 \<and> DiscoSeal (BoxSeal os) (length pkt) n A a B p = Some pkt))"
proof (intro conjI allI impI)
  fix n p :: bytes and cap cap' assume "length n = 24" "length p + 78 \<le> cap" "length p \<le> cap'"
  then show "\<exists>pkt. DiscoSeal (BoxSeal os) cap n A a B p = Some pkt \<and> length pkt = length p + 78 \<and> DiscoOpen (BoxOpen os) pkt b cap' = Some (A, p)"
    using nacl.disco_seal_open [OF assms] by blast
next
  fix pkt p cap' assume "DiscoOpen (BoxOpen os) pkt b cap' = Some (A, p)"
  then show "\<exists>n. length n = 24 \<and> DiscoSeal (BoxSeal os) (length pkt) n A a B p = Some pkt"
    by (rule nacl.disco_open_sealed [OF _ assms])
qed (blast intro: ping_decode_encode pong_decode_encode)+

theorem disco_exchange_witness:
  "\<exists>pkt. DiscoSeal (BoxSeal toy_openssl) 200 (replicate 24 7) (replicate 32 1) (replicate 32 1) (replicate 32 2)
        (EncodePing (replicate 12 9) (Some (replicate 32 5))) = Some pkt
     \<and> DiscoOpen (BoxOpen toy_openssl) pkt (replicate 32 2) 64 = Some (replicate 32 1, EncodePing (replicate 12 9) (Some (replicate 32 5)))
     \<and> DecodePing (EncodePing (replicate 12 9) (Some (replicate 32 5))) = Some \<lparr> ping_txid = replicate 12 9, ping_nodeKey = Some (replicate 32 5) \<rparr>"
proof -
  have k: "box_keypair toy_openssl (replicate 32 1) (replicate 32 1)" "box_keypair toy_openssl (replicate 32 2) (replicate 32 2)"
    by simp_all
  have l: "length (EncodePing (replicate 12 9) (Some (replicate 32 5))) = 46" by (simp add: EncodePing_def)
  show ?thesis
    using disco_exchange [OF k, THEN conjunct1, rule_format, of "replicate 24 7" "EncodePing (replicate 12 9) (Some (replicate 32 5))" 200 64]
      disco_exchange [OF k, THEN conjunct2, THEN conjunct1, rule_format, of "replicate 12 9" "Some (replicate 32 5)"] l by auto
qed

end
