(* ===== verification/MagicSock.thy ===== *)
theory MagicSock
  imports Disco
begin

text \<open>
  The shared UDP socket: STUN (\<open>src/src/backend/tailscale/TSStun.cpp\<close>) and the classifier and
  endpoint discovery of \<open>src/src/backend/tailscale/MagicSock.cpp\<close>.  The operating system is a
  script: whether the name resolves, whether each \<open>sendto\<close> succeeds, and what the \<open>recvfrom\<close>
  calls return (\<open>None\<close> for a result below zero, i.e. the one-second timeout or an error).
\<close>

subsection \<open>STUN\<close>

definition kStunHeaderLen :: nat where "kStunHeaderLen = 20"
definition kStunMagicCookie :: u32 where "kStunMagicCookie = 0x2112A442"
definition kBindingRequest :: u16 where "kBindingRequest = 0x0001"
definition kBindingSuccess :: u16 where "kBindingSuccess = 0x0101"
definition kAttrMappedAddr :: u16 where "kAttrMappedAddr = 0x0001"
definition kAttrXorMappedAddr :: u16 where "kAttrXorMappedAddr = 0x0020"

text \<open>The cookie as it stands in a message.\<close>

definition cookie_bytes :: bytes where
  "cookie_bytes = [ucast (drop_bit 24 kStunMagicCookie), ucast (drop_bit 16 kStunMagicCookie),
     ucast (drop_bit 8 kStunMagicCookie), ucast (kStunMagicCookie AND 0xFF)]"

definition rd16 :: "bytes \<Rightarrow> u16" where
  "rd16 p = push_bit 8 (ucast (p ! 0)) OR ucast (p ! 1)"

text \<open>The random transaction id is an argument.\<close>

definition StunBuildRequest :: "bytes \<Rightarrow> bytes" where
  "StunBuildRequest txId =
     [ucast (drop_bit 8 kBindingRequest), ucast (kBindingRequest AND 0xFF), 0, 0] @ cookie_bytes @ take 12 txId"

definition mapped_address :: "u16 \<Rightarrow> bytes \<Rightarrow> nat \<Rightarrow> string \<times> u16" where
  "mapped_address attrType buf v =
     (let port = rd16 (drop (v + 2) buf); addr = slice (v + 4) 4 buf;
          (port, addr) = (if attrType = kAttrXorMappedAddr
                          then (port XOR ucast (drop_bit 16 kStunMagicCookie), map2 (XOR) addr cookie_bytes)
                          else (port, addr))
      in (fmt_ipv4 (unat (addr ! 0)) (unat (addr ! 1)) (unat (addr ! 2)) (unat (addr ! 3)), port))"

function stun_walk :: "bytes \<Rightarrow> nat \<Rightarrow> nat \<Rightarrow> (string \<times> u16) option" where
  "stun_walk buf off stop =
     (if off + 4 \<le> stop then
        let attrType = rd16 (drop off buf); attrLen = unat (rd16 (drop (off + 2) buf)); v = off + 4 in
        if v + attrLen > stop then None
        else if (attrType = kAttrXorMappedAddr \<or> attrType = kAttrMappedAddr) \<and> attrLen \<ge> 8 \<and> buf ! (v + 1) = 0x01
        then Some (mapped_address attrType buf v)
        else stun_walk buf (v + attrLen + (if attrLen mod 4 \<noteq> 0 then 4 - attrLen mod 4 else 0)) stop
      else None)"
  by pat_completeness auto
termination
  by (relation "measure (\<lambda>(buf, off, stop). stop - off)") auto

declare stun_walk.simps [simp del]

definition StunParseResponse :: "bytes option \<Rightarrow> bytes \<Rightarrow> (string \<times> u16) option" where
  "StunParseResponse buf txId =
     (case buf of None \<Rightarrow> None
      | Some buf \<Rightarrow>
        if length buf < kStunHeaderLen then None
        else if rd16 buf \<noteq> kBindingSuccess then None
        else if slice 4 4 buf \<noteq> cookie_bytes then None
        else if slice 8 12 buf \<noteq> take 12 txId then None
        else let msgLen = rd16 (drop 2 buf);
                 msgLen = (if kStunHeaderLen + unat msgLen > length buf then of_nat (length buf - kStunHeaderLen) else msgLen)
             in stun_walk buf kStunHeaderLen (kStunHeaderLen + unat msgLen))"

subsection \<open>The socket\<close>

datatype SockPacketKind = PKT_WIREGUARD | PKT_STUN | PKT_DISCO

definition kStunCookie :: bytes where "kStunCookie = [0x21, 0x12, 0xA4, 0x42]"

definition Classify :: "bytes \<Rightarrow> SockPacketKind" where
  "Classify buf =
     (if length buf \<ge> 6 \<and> take 6 buf = kDiscoMagic then PKT_DISCO
      else if length buf \<ge> 20 \<and> buf ! 0 AND 0xC0 = 0 \<and> slice 4 4 buf = kStunCookie then PKT_STUN
      else PKT_WIREGUARD)"

record magic_sock =
  fSocket :: int
  fPort :: u16

definition MagicSock :: magic_sock where
  "MagicSock = \<lparr> fSocket = - 1, fPort = 0 \<rparr>"

text \<open>\<open>sock\<close>: the result of \<open>socket()\<close>; \<open>bound\<close>: whether \<open>bind\<close> succeeds; \<open>name\<close>: the port \<open>getsockname\<close> reports.\<close>

definition Open :: "magic_sock \<Rightarrow> u16 \<Rightarrow> int \<Rightarrow> bool \<Rightarrow> u16 option \<Rightarrow> status \<times> magic_sock" where
  "Open ms port sock bound name =
     (if fSocket ms \<ge> 0 then (B_NOT_ALLOWED, ms)
      else if sock < 0 then (B_ERROR, ms)
      else if \<not> bound then (B_ERROR, ms)
      else (B_OK, ms\<lparr> fPort := (case name of Some p \<Rightarrow> p | None \<Rightarrow> port), fSocket := sock \<rparr>))"

definition Close :: "magic_sock \<Rightarrow> magic_sock" where
  "Close ms = (if fSocket ms \<ge> 0 then ms\<lparr> fSocket := - 1, fPort := 0 \<rparr> else ms\<lparr> fPort := 0 \<rparr>)"

text \<open>The inner loop: at most \<open>n\<close> datagrams; it stops at a timeout or an empty datagram.\<close>

fun reply_loop :: "nat \<Rightarrow> bytes \<Rightarrow> bytes option list \<Rightarrow> (string \<times> u16) option \<times> bytes option list" where
  "reply_loop 0 txId evs = (None, evs)"
| "reply_loop (Suc n) txId [] = (None, [])"
| "reply_loop (Suc n) txId (None # evs) = (None, evs)"
| "reply_loop (Suc n) txId (Some buf # evs) =
     (if buf = [] then (None, evs)
      else if Classify buf \<noteq> PKT_STUN then reply_loop n txId evs
      else case StunParseResponse (Some buf) txId of Some r \<Rightarrow> (Some r, evs) | None \<Rightarrow> reply_loop n txId evs)"

text \<open>The attempts: \<open>sends\<close> tells for each of them whether the request went out whole.\<close>

fun attempt_loop :: "bytes \<Rightarrow> bool list \<Rightarrow> bytes option list \<Rightarrow> (string \<times> u16) option" where
  "attempt_loop txId [] evs = None"
| "attempt_loop txId (ok # sends) evs =
     (if \<not> ok then attempt_loop txId sends evs
      else case reply_loop 8 txId evs of (Some r, evs) \<Rightarrow> Some r | (None, evs) \<Rightarrow> attempt_loop txId sends evs)"

definition DiscoverEndpoint :: "magic_sock \<Rightarrow> string option \<Rightarrow> bool \<Rightarrow> bytes \<Rightarrow> bool list \<Rightarrow> bytes option list \<Rightarrow> status \<times> (string \<times> u16) option" where
  "DiscoverEndpoint ms stunHost resolved txId sends evs =
     (if fSocket ms < 0 \<or> stunHost = None then (B_NO_INIT, None)
      else if \<not> resolved then (B_NAME_NOT_FOUND, None)
      else case attempt_loop txId (take 3 sends) evs of Some r \<Rightarrow> (B_OK, Some r) | None \<Rightarrow> (B_TIMED_OUT, None))"

definition StunQuery :: "string option \<Rightarrow> bool \<Rightarrow> bool \<Rightarrow> bytes \<Rightarrow> bool \<Rightarrow> bytes option \<Rightarrow> status \<times> (string \<times> u16) option" where
  "StunQuery host resolved sockOk txId sent reply =
     (if host = None then (B_BAD_VALUE, None)
      else if \<not> resolved then (B_NAME_NOT_FOUND, None)
      else if \<not> sockOk then (B_ERROR, None)
      else if \<not> sent then (B_ERROR, None)
      else case reply of None \<Rightarrow> (B_TIMED_OUT, None)
      | Some buf \<Rightarrow>
          if buf = [] then (B_TIMED_OUT, None)
          else case StunParseResponse (Some buf) txId of Some r \<Rightarrow> (B_OK, Some r) | None \<Rightarrow> (B_ERROR, None))"

subsection \<open>Binding responses\<close>

text \<open>A server's answer: other attributes, then the mapped address, then anything.\<close>

definition padding :: "nat \<Rightarrow> nat" where
  "padding n = (if n mod 4 \<noteq> 0 then 4 - n mod 4 else 0)"

definition tlv :: "u16 \<times> bytes \<Rightarrow> bytes" where
  "tlv a = be16 (fst a) @ be16 (of_nat (length (snd a))) @ snd a @ replicate (padding (length (snd a))) 0"

definition xor_mapped :: "u8 \<Rightarrow> u8 \<Rightarrow> u8 \<Rightarrow> u8 \<Rightarrow> u16 \<Rightarrow> bytes" where
  "xor_mapped a b c d port = tlv (kAttrXorMappedAddr, [0, 1] @ be16 (port XOR 0x2112) @ [a XOR 0x21, b XOR 0x12, c XOR 0xA4, d XOR 0x42])"

definition binding_response :: "bytes \<Rightarrow> bytes \<Rightarrow> bytes" where
  "binding_response txId body = be16 kBindingSuccess @ be16 (of_nat (length body)) @ kStunCookie @ txId @ body"

lemma rd16_be16 [simp]: "rd16 (be16 w @ xs) = w"
  using u16_bytes [of w] by (simp add: rd16_def be16_def)

lemma cookie_bytes_eq: "cookie_bytes = kStunCookie"
  by (simp add: cookie_bytes_def kStunCookie_def kStunMagicCookie_def drop_bit_eq_div)

lemma walk_skip:
  assumes "drop off buf = tlv a @ more'" "off + length (tlv a) \<le> stop" "length (snd a) < 65536"
    and "fst a \<noteq> kAttrXorMappedAddr" "fst a \<noteq> kAttrMappedAddr"
  shows "stun_walk buf off stop = stun_walk buf (off + length (tlv a)) stop"
proof -
  have "drop (off + 2) buf = drop 2 (drop off buf)" by (simp add: add.commute)
  also have "\<dots> = be16 (of_nat (length (snd a))) @ snd a @ replicate (padding (length (snd a))) 0 @ more'"
    unfolding assms(1) by (simp add: tlv_def)
  finally have l: "unat (rd16 (drop (off + 2) buf)) = length (snd a)" using assms(3) by (simp add: unat_of_nat)
  have t: "rd16 (drop off buf) = fst a" unfolding assms(1) by (simp add: tlv_def)
  have n: "length (tlv a) = 4 + length (snd a) + padding (length (snd a))" by (simp add: tlv_def)
  have "stun_walk buf off stop = (if off + 4 \<le> stop then if off + 4 + length (snd a) > stop then None
      else if (fst a = kAttrXorMappedAddr \<or> fst a = kAttrMappedAddr) \<and> length (snd a) \<ge> 8 \<and> buf ! (off + 4 + 1) = 0x01
        then Some (mapped_address (fst a) buf (off + 4))
        else stun_walk buf (off + 4 + length (snd a) + padding (length (snd a))) stop else None)"
    unfolding stun_walk.simps [of buf off stop] l t Let_def padding_def ..
  moreover have "off + 4 \<le> stop" "\<not> off + 4 + length (snd a) > stop" using assms(2) unfolding n by linarith+
  moreover have "off + 4 + length (snd a) + padding (length (snd a)) = off + length (tlv a)" unfolding n by simp
  ultimately show ?thesis using assms(4,5) by (simp only: if_True if_False simp_thms)
qed

lemma walk_hit:
  assumes "drop off buf = xor_mapped a b c d port @ more'" "off + 12 \<le> stop"
  shows "stun_walk buf off stop = Some (fmt_ipv4 (unat a) (unat b) (unat c) (unat d), port)"
proof -
  have x: "xor_mapped a b c d port
      = be16 kAttrXorMappedAddr @ be16 8 @ [0, 1] @ be16 (port XOR 0x2112) @ [a XOR 0x21, b XOR 0x12, c XOR 0xA4, d XOR 0x42]"
    by (simp add: xor_mapped_def tlv_def padding_def)
  have f: "drop (off + k) buf = drop k (xor_mapped a b c d port @ more')" for k
    using assms(1) by (metis add.commute drop_drop)
  have l: "rd16 (drop (off + 2) buf) = 8" "rd16 (drop off buf) = kAttrXorMappedAddr" "rd16 (drop (off + 4 + 2) buf) = port XOR 0x2112"
    using f [of 2] f [of 0] f [of "4 + 2"] unfolding add.assoc by (simp_all add: x)
  have "drop (off + (4 + 1)) buf = 1 # drop 6 (xor_mapped a b c d port @ more')" unfolding f by (simp add: x be16_def)
  then have nth: "buf ! (off + 4 + 1) = 1" unfolding add.assoc by (rule nth_via_drop)
  have sl: "slice (off + 4 + 4) 4 buf = [a XOR 0x21, b XOR 0x12, c XOR 0xA4, d XOR 0x42]"
    unfolding slice_def add.assoc f by (simp add: x be16_def)
  have p: "(ucast (drop_bit 16 kStunMagicCookie) :: u16) = 0x2112"
    by (simp add: kStunMagicCookie_def drop_bit_eq_div)
  have m: "mapped_address kAttrXorMappedAddr buf (off + 4) = (fmt_ipv4 (unat a) (unat b) (unat c) (unat d), port)"
    unfolding mapped_address_def Let_def l(3) sl p cookie_bytes_eq kStunCookie_def by (simp add: xor.assoc)
  have u8': "unat (8 :: u16) = 8" by simp
  show ?thesis
    unfolding stun_walk.simps [of buf off stop] l Let_def u8' m nth using assms(2) by simp
qed

lemma walk_attrs:
  assumes "drop off buf = concat (map tlv attrs) @ xor_mapped a b c d port @ more'"
    and "off + length (concat (map tlv attrs)) + 12 \<le> stop"
    and "\<forall>x\<in>set attrs. length (snd x) < 65536 \<and> fst x \<noteq> kAttrXorMappedAddr \<and> fst x \<noteq> kAttrMappedAddr"
  shows "stun_walk buf off stop = Some (fmt_ipv4 (unat a) (unat b) (unat c) (unat d), port)"
  using assms
proof (induction attrs arbitrary: off)
  case Nil
  then show ?case using walk_hit [of off buf a b c d port more' stop] by simp
next
  case (Cons x attrs)
  have d: "drop (off + length (tlv x)) buf = concat (map tlv attrs) @ xor_mapped a b c d port @ more'"
    using Cons.prems(1) by (metis add.commute append_assoc append_eq_conv_conj concat.simps(2) drop_drop list.simps(9))
  have "stun_walk buf off stop = stun_walk buf (off + length (tlv x)) stop"
    by (rule walk_skip [of off buf x "concat (map tlv attrs) @ xor_mapped a b c d port @ more'"]) (use Cons.prems in auto)
  then show ?case using Cons.IH [OF d] Cons.prems(2,3) by auto
qed

lemma parse_binding_response:
  assumes "length txId = 12" "length body < 65536"
    and "body = concat (map tlv attrs) @ xor_mapped a b c d port @ more'"
    and "\<forall>x\<in>set attrs. length (snd x) < 65536 \<and> fst x \<noteq> kAttrXorMappedAddr \<and> fst x \<noteq> kAttrMappedAddr"
  shows "StunParseResponse (Some (binding_response txId body)) txId = Some (fmt_ipv4 (unat a) (unat b) (unat c) (unat d), port)"
    "Classify (binding_response txId body) = PKT_STUN"
proof -
  let ?r = "binding_response txId body"
  have cookie: "length kStunCookie = 4" by (simp add: kStunCookie_def)
  have f: "length ?r = 20 + length body" "slice 4 4 ?r = kStunCookie" "slice 8 12 ?r = txId" "drop 20 ?r = body"
    "rd16 ?r = kBindingSuccess" "rd16 (drop 2 ?r) = of_nat (length body)"
    using assms(1) cookie by (simp_all add: binding_response_def slice_simps)
  have "length (xor_mapped a b c d port) = 12" by (simp add: xor_mapped_def tlv_def padding_def)
  then have w: "stun_walk ?r 20 (20 + length body) = Some (fmt_ipv4 (unat a) (unat b) (unat c) (unat d), port)"
    using f(4) assms(3) by (intro walk_attrs [OF _ _ assms(4)]) simp_all
  show "StunParseResponse (Some ?r) txId = Some (fmt_ipv4 (unat a) (unat b) (unat c) (unat d), port)"
    using f w assms(1,2) by (simp add: StunParseResponse_def kStunHeaderLen_def cookie_bytes_eq unat_of_nat)
  have "?r ! 0 = 1" by (simp add: binding_response_def be16_def kBindingSuccess_def drop_bit_eq_div)
  then show "Classify ?r = PKT_STUN" using f(1,2) by (cases ?r) (auto simp: Classify_def kDiscoMagic_def)
qed

text \<open>What is accepted carries our transaction id.\<close>

lemma parse_accepts:
  "StunParseResponse (Some buf) txId = Some r \<Longrightarrow> slice 8 12 buf = take 12 txId \<and> slice 4 4 buf = kStunCookie"
  by (simp add: StunParseResponse_def cookie_bytes_eq split: if_splits)

lemma reply_loop_sound:
  "reply_loop n txId evs = (Some r, evs') \<Longrightarrow> \<exists>buf. Some buf \<in> set evs \<and> StunParseResponse (Some buf) txId = Some r"
  by (induction n txId evs rule: reply_loop.induct) (auto split: if_splits option.splits)

lemma reply_loop_rest: "set (snd (reply_loop n txId evs)) \<subseteq> set evs"
  by (induction n txId evs rule: reply_loop.induct) (auto split: option.splits)

lemma attempt_loop_sound:
  "attempt_loop txId sends evs = Some r \<Longrightarrow> \<exists>buf. Some buf \<in> set evs \<and> StunParseResponse (Some buf) txId = Some r"
proof (induction txId sends evs rule: attempt_loop.induct)
  case (2 txId ok sends evs)
  obtain res evs' where r: "reply_loop 8 txId evs = (res, evs')" by force
  then have sub: "set evs' \<subseteq> set evs" using reply_loop_rest [of 8 txId evs] by simp
  show ?case
  proof (cases res)
    case None
    then show ?thesis using 2 r sub by (auto split: if_splits)
  next
    case (Some x)
    then show ?thesis using 2 r sub reply_loop_sound [of 8 txId evs x evs'] by (auto split: if_splits)
  qed
qed simp

lemma reply_loop_noise:
  assumes "\<forall>buf\<in>set noise. buf \<noteq> [] \<and> (Classify buf \<noteq> PKT_STUN \<or> StunParseResponse (Some buf) txId = None)" "length noise < n"
    and "Classify reply = PKT_STUN" "StunParseResponse (Some reply) txId = Some r"
  shows "reply_loop n txId (map Some noise @ Some reply # evs) = (Some r, evs)"
  using assms
proof (induction noise arbitrary: n)
  case Nil
  then have "reply \<noteq> []" by (auto simp: Classify_def)
  then show ?case using Nil by (cases n) auto
next
  case (Cons x noise)
  then obtain m where "n = Suc m" by (cases n) auto
  then show ?case using Cons by (auto split: option.splits)
qed

text \<open>
  Endpoint discovery: when at most seven datagrams of other protocols or other STUN
  exchanges arrive before the server's answer, discovery returns exactly the address the
  server put into its XOR-MAPPED-ADDRESS attribute, whatever other attributes precede it;
  and it never succeeds on a datagram that does not carry its own transaction id.
\<close>

theorem discover_endpoint:
  assumes "length txId = 12"
  shows "(\<forall>(ms :: magic_sock) host sends noise attrs a b c d port tail evs body.
      0 \<le> fSocket ms \<and> body = concat (map tlv attrs) @ xor_mapped a b c d port @ tail \<and> length body < 65536
      \<and> (\<forall>x\<in>set attrs. length (snd x) < 65536 \<and> fst x \<noteq> kAttrXorMappedAddr \<and> fst x \<noteq> kAttrMappedAddr)
      \<and> length noise < 8 \<and> (\<forall>buf\<in>set noise. buf \<noteq> [] \<and> (Classify buf \<noteq> PKT_STUN \<or> StunParseResponse (Some buf) txId = None)) \<longrightarrow>
      DiscoverEndpoint ms (Some host) True txId (True # sends) (map Some noise @ Some (binding_response txId body) # evs)
        = (B_OK, Some (fmt_ipv4 (unat a) (unat b) (unat c) (unat d), port)))
   \<and> (\<forall>ms host ok sends evs r. DiscoverEndpoint ms host ok txId sends evs = (B_OK, Some r) \<longrightarrow>
      (\<exists>buf. Some buf \<in> set evs \<and> slice 8 12 buf = txId \<and> slice 4 4 buf = kStunCookie))"
proof (intro conjI allI impI, elim conjE)
  fix ms :: magic_sock and host sends noise attrs a b c d port tail evs body
  assume "0 \<le> fSocket ms" and b: "body = concat (map tlv attrs) @ xor_mapped a b c d port @ tail" "length body < 65536"
    "\<forall>x\<in>set attrs. length (snd x) < 65536 \<and> fst x \<noteq> kAttrXorMappedAddr \<and> fst x \<noteq> kAttrMappedAddr"
    and n: "length noise < 8" "\<forall>buf\<in>set noise. buf \<noteq> [] \<and> (Classify buf \<noteq> PKT_STUN \<or> StunParseResponse (Some buf) txId = None)"
  then show "DiscoverEndpoint ms (Some host) True txId (True # sends) (map Some noise @ Some (binding_response txId body) # evs)
        = (B_OK, Some (fmt_ipv4 (unat a) (unat b) (unat c) (unat d), port))"
    using reply_loop_noise [OF n(2,1) parse_binding_response(2,1) [OF assms b(2,1,3)]] by (simp add: DiscoverEndpoint_def)
next
  fix ms host ok sends evs r
  assume "DiscoverEndpoint ms host ok txId sends evs = (B_OK, Some r)"
  then have "attempt_loop txId (take 3 sends) evs = Some r" by (simp add: DiscoverEndpoint_def split: if_splits option.splits)
  then obtain buf where "Some buf \<in> set evs" "StunParseResponse (Some buf) txId = Some r" using attempt_loop_sound by blast
  then show "\<exists>buf. Some buf \<in> set evs \<and> slice 8 12 buf = txId \<and> slice 4 4 buf = kStunCookie"
    using parse_accepts [of buf txId r] assms by auto
qed

theorem discover_endpoint_witness:
  "DiscoverEndpoint \<lparr> fSocket = 5, fPort = 41641 \<rparr> (Some ''derp'') True [1, 2, 3, 4, 5, 6, 7, 8, 9, 10, 11, 12] [True]
     [Some [4, 0, 0, 0], Some (binding_response [1, 2, 3, 4, 5, 6, 7, 8, 9, 10, 11, 12] (xor_mapped 192 0 2 7 4242))]
   = (B_OK, Some (fmt_ipv4 192 0 2 7, 4242))"
proof -
  let ?body = "concat (map tlv []) @ xor_mapped 192 0 2 7 4242 @ []"
  have "length (xor_mapped 192 0 2 7 4242) = 12" by (simp add: xor_mapped_def tlv_def padding_def)
  moreover have "Classify [4, 0, 0, 0] \<noteq> PKT_STUN" by (simp add: Classify_def)
  ultimately show ?thesis
    using discover_endpoint [of "[1, 2, 3, 4, 5, 6, 7, 8, 9, 10, 11, 12]", THEN conjunct1, rule_format,
        of "\<lparr> fSocket = 5, fPort = 41641 \<rparr>" ?body "[]" 192 0 2 7 4242 "[]" "[[4, 0, 0, 0]]" "''derp''" "[]" "[]"]
    by simp
qed

text \<open>
  Demultiplexing: every sealed disco packet is classified as disco and every binding
  response as STUN; a WireGuard message (type 1 to 4, three zero bytes, a 4-byte index) is
  classified as WireGuard exactly when its index is not the STUN cookie, or it is shorter
  than a STUN header.
\<close>

theorem classify_by_protocol:
  assumes "box_keypair os a A" "box_keypair os b B" "length n = 24" "length p + 78 \<le> cap" "length txId = 12"
    and "t \<le> 4" "length idx = 4"
  shows "(\<exists>pkt. DiscoSeal (BoxSeal os) cap n A a B p = Some pkt \<and> Classify pkt = PKT_DISCO)
    \<and> Classify (binding_response txId body) = PKT_STUN
    \<and> (Classify ([t, 0, 0, 0] @ idx @ msg) = PKT_WIREGUARD \<longleftrightarrow> \<not> (idx = kStunCookie \<and> 12 \<le> length msg))"
proof (intro conjI)
  obtain pkt where "DiscoSeal (BoxSeal os) cap n A a B p = Some pkt" "length pkt = length p + 78" "take 6 pkt = kDiscoMagic"
    using nacl.disco_seal_open [OF assms(1-4) le_refl] by blast
  then show "\<exists>pkt. DiscoSeal (BoxSeal os) cap n A a B p = Some pkt \<and> Classify pkt = PKT_DISCO"
    by (intro exI [of _ pkt]) (simp add: Classify_def)
  let ?r = "binding_response txId body"
  have "?r ! 0 = 1" "length ?r = 20 + length body" "slice 4 4 ?r = kStunCookie"
    using assms(5) by (simp_all add: binding_response_def be16_def kBindingSuccess_def drop_bit_eq_div kStunCookie_def slice_def)
  then show "Classify ?r = PKT_STUN" by (cases ?r) (auto simp: Classify_def kDiscoMagic_def)
  have top': "t AND 0xC0 = 0"
  proof -
    have "unat t \<le> 4" using assms(6) by (simp add: word_le_nat_alt)
    then have "unat t \<in> {0, 1, 2, 3, 4}" by auto
    then have "t \<in> {0, 1, 2, 3, 4}" by (auto intro!: unat_inj)
    then show ?thesis by auto
  qed
  have d: "take 6 ([t, 0, 0, 0] @ idx @ msg) \<noteq> kDiscoMagic" by (simp add: kDiscoMagic_def)
  have "slice 4 4 ([t, 0, 0, 0] @ idx @ msg) = idx" using assms(7) by (simp add: slice_def)
  moreover have "length ([t, 0, 0, 0] @ idx @ msg) = 8 + length msg" using assms(7) by simp
  ultimately show "Classify ([t, 0, 0, 0] @ idx @ msg) = PKT_WIREGUARD \<longleftrightarrow> \<not> (idx = kStunCookie \<and> 12 \<le> length msg)"
    using top' d unfolding Classify_def by auto
qed

theorem classify_by_protocol_witness:
  "Classify ([4, 0, 0, 0] @ kStunCookie @ replicate 12 9) \<noteq> PKT_WIREGUARD \<and> Classify ([4, 0, 0, 0] @ [1, 2, 3, 4] @ replicate 12 9) = PKT_WIREGUARD"
proof -
  have k: "box_keypair toy_openssl (replicate 32 1) (replicate 32 1)" "box_keypair toy_openssl (replicate 32 2) (replicate 32 2)"
    by simp_all
  note c = classify_by_protocol [OF k, of "replicate 24 7" "[]" 100 "replicate 12 0" 4]
  show ?thesis
    using c [of kStunCookie "[]" "replicate 12 9"] c [of "[1, 2, 3, 4]" "[]" "replicate 12 9"] by (simp add: kStunCookie_def)
qed

end
