(* ===== verification/Identity.thy ===== *)
theory Identity
  imports CLib WGCrypto
begin

text \<open>
  \<open>ts::TSIdentity\<close> (\<open>src/src/backend/tailscale/TSIdentity.cpp\<close>): the three long-lived key
  pairs of a node, hex-encoded in the Haiku key store.  The key store is an explicit map from
  identifiers to passwords; the answer of \<open>BKeyStore::AddKey\<close> and the generated key pairs
  are arguments.  The public cache file written by \<open>_WritePublicFile\<close> is never read back
  and its failure is ignored by the code; it is not part of the state.

  Results: the hex codec round trip in both directions, key-store identifiers never
  collide, and an identity once created is reloaded unchanged.
\<close>

subsection \<open>Hex\<close>

definition HexNibble :: "char \<Rightarrow> int" where
  "HexNibble c =
     (if code CHR ''0'' \<le> code c \<and> code c \<le> code CHR ''9'' then int (code c) - int (code CHR ''0'')
      else if code CHR ''a'' \<le> code c \<and> code c \<le> code CHR ''f'' then int (code c) - int (code CHR ''a'') + 10
      else if code CHR ''A'' \<le> code c \<and> code c \<le> code CHR ''F'' then int (code c) - int (code CHR ''A'') + 10
      else - 1)"

definition kHex :: string where "kHex = ''0123456789abcdef''"

definition ToHex :: "bytes \<Rightarrow> string" where
  "ToHex bs = concat (map (\<lambda>b. [kHex ! unat (drop_bit 4 b AND 0x0F), kHex ! unat (b AND 0x0F)]) bs)"

text \<open>The loop of \<open>FromHex\<close> over the remaining text; its length was checked before.\<close>

fun from_hex_loop :: "string \<Rightarrow> bytes option" where
  "from_hex_loop (h # l # rest) =
     (let hi = HexNibble h; lo = HexNibble l in
      if hi < 0 \<or> lo < 0 then None
      else map_option (\<lambda>bs. (word_of_int (push_bit 4 hi OR lo)) # bs) (from_hex_loop rest))"
| "from_hex_loop _ = Some []"

definition FromHex :: "string \<Rightarrow> nat \<Rightarrow> bytes option" where
  "FromHex hex outLen = (if length (c_str hex) \<noteq> outLen * 2 then None else from_hex_loop (c_str hex))"

text \<open>What \<open>FromHex\<close> has stored in the caller's buffer when it returns: it stops at the first bad digit.\<close>

fun from_hex_stored :: "string \<Rightarrow> bytes" where
  "from_hex_stored (h # l # rest) =
     (let hi = HexNibble h; lo = HexNibble l in
      if hi < 0 \<or> lo < 0 then [] else word_of_int (push_bit 4 hi OR lo) # from_hex_stored rest)"
| "from_hex_stored _ = []"

definition FromHexStored :: "string \<Rightarrow> nat \<Rightarrow> bytes" where
  "FromHexStored hex outLen = (if length (c_str hex) \<noteq> outLen * 2 then [] else from_hex_stored (c_str hex))"

lemma FromHex_stored: "FromHex hex n = Some k \<Longrightarrow> FromHexStored hex n = k"
proof -
  have "from_hex_loop t = Some k \<Longrightarrow> from_hex_stored t = k" for t k
    by (induction t arbitrary: k rule: from_hex_loop.induct) (auto simp: Let_def split: if_splits)
  then show "FromHex hex n = Some k \<Longrightarrow> FromHexStored hex n = k"
    by (auto simp: FromHex_def FromHexStored_def split: if_splits)
qed

subsection \<open>Key store and identity\<close>

datatype KeyRole = KEY_MACHINE | KEY_NODE | KEY_DISCO

record key25519 =
  priv :: bytes
  pub :: bytes

record ts_identity =
  fProfileName :: string
  fMachine :: key25519
  fNode :: key25519
  fDisco :: key25519
  fValid :: bool

definition zero_key :: key25519 where
  "zero_key = \<lparr> priv = replicate 32 0, pub = replicate 32 0 \<rparr>"

definition TSIdentity :: ts_identity where
  "TSIdentity = \<lparr> fProfileName = [], fMachine = zero_key, fNode = zero_key, fDisco = zero_key, fValid = False \<rparr>"

definition RoleName :: "KeyRole \<Rightarrow> string" where
  "RoleName role = (case role of KEY_MACHINE \<Rightarrow> ''machine'' | KEY_NODE \<Rightarrow> ''node'' | KEY_DISCO \<Rightarrow> ''disco'')"

definition KeystoreId :: "string \<Rightarrow> KeyRole \<Rightarrow> string" where
  "KeystoreId profileName role = ''sotoportego.tailscale.'' @ profileName @ ''.'' @ RoleName role"

type_synonym keystore = "string \<rightharpoonup> string"

text \<open>What the environment answers while one role is set up.\<close>

record role_env =
  generated :: "(bytes \<times> bytes) option"
  add_result :: status

definition LoadOrCreateRole ::
  "openssl \<Rightarrow> keystore \<Rightarrow> string \<Rightarrow> KeyRole \<Rightarrow> role_env \<Rightarrow> key25519 \<Rightarrow> status \<times> keystore \<times> key25519 \<times> bool" where
  "LoadOrCreateRole os store profile role env out =
     (let kid = KeystoreId profile role in
      case store kid of
        Some hex \<Rightarrow>
          (case FromHex hex 32 of
             None \<Rightarrow> let k = FromHexStored hex 32 in (B_BAD_DATA, store, out\<lparr> priv := k @ drop (length k) (priv out) \<rparr>, False)
           | Some k \<Rightarrow> let out = out\<lparr> priv := k \<rparr> in
               (case DhPublic os (priv out) of None \<Rightarrow> (B_ERROR, store, out, False)
                | Some P \<Rightarrow> (B_OK, store, out\<lparr> pub := P \<rparr>, False)))
      | None \<Rightarrow>
          (case DhGenerate (generated env) of None \<Rightarrow> (B_ERROR, store, out, False)
           | Some (k, K) \<Rightarrow>
               let out = \<lparr> priv = k, pub = K \<rparr>; hexPriv = ToHex (priv out) in
               if add_result env \<noteq> B_OK then (add_result env, store, zero_key, False)
               else (B_OK, store(kid \<mapsto> hexPriv), out, True)))"

definition LoadOrCreate ::
  "openssl \<Rightarrow> keystore \<Rightarrow> ts_identity \<Rightarrow> string \<Rightarrow> (KeyRole \<Rightarrow> role_env) \<Rightarrow> status \<times> keystore \<times> ts_identity \<times> bool" where
  "LoadOrCreate os store s profileName env =
     (if profileName = [] then (B_BAD_VALUE, store, s, False)
      else let s = s\<lparr> fValid := False, fProfileName := profileName \<rparr> in
        case LoadOrCreateRole os store profileName KEY_MACHINE (env KEY_MACHINE) (fMachine s) of (r1, store, k, c1) \<Rightarrow>
        let s = s\<lparr> fMachine := k \<rparr> in
        if r1 \<noteq> B_OK then (r1, store, s, False)
        else case LoadOrCreateRole os store profileName KEY_NODE (env KEY_NODE) (fNode s) of (r2, store, k, c2) \<Rightarrow>
        let s = s\<lparr> fNode := k \<rparr> in
        if r2 \<noteq> B_OK then (r2, store, s, False)
        else case LoadOrCreateRole os store profileName KEY_DISCO (env KEY_DISCO) (fDisco s) of (r3, store, k, c3) \<Rightarrow>
        let s = s\<lparr> fDisco := k \<rparr> in
        if r3 \<noteq> B_OK then (r3, store, s, False)
        else (B_OK, store, s\<lparr> fValid := True \<rparr>, c1 \<or> c2 \<or> c3))"

subsection \<open>Hex round trips\<close>

lemma HexNibble_kHex: "n < 16 \<Longrightarrow> HexNibble (kHex ! n) = int n \<and> code (kHex ! n) \<noteq> 0"
proof -
  have "\<forall>n\<in>set [0..<16]. HexNibble (kHex ! n) = int n \<and> code (kHex ! n) \<noteq> 0"
    by code_simp
  then show "n < 16 \<Longrightarrow> HexNibble (kHex ! n) = int n \<and> code (kHex ! n) \<noteq> 0" by simp
qed

lemma nibble_bounds: "unat (b :: u8) div 16 < 16" "unat b mod 16 < 16"
proof -
  have "unat b < 16 * 16" using unat_u8_less [of b] by simp
  then show "unat b div 16 < 16" by (rule less_mult_imp_div_less)
qed simp

lemma unat_low_nibble: "unat (b AND 0x0F :: u8) = unat b mod 16"
proof -
  have "b AND 0x0F = take_bit 4 b" by (simp add: take_bit_eq_mask mask_eq_exp_minus_1)
  then show ?thesis by (simp add: unat_take_bit_mod)
qed

lemma nibbles_join: "word_of_int (push_bit 4 (int (unat b div 16)) OR int (unat b mod 16)) = (b :: u8)"
proof -
  have "push_bit 4 (int (unat b div 16)) OR int (unat b mod 16) = int (unat b)"
  proof -
    have "int (unat b mod 16) = take_bit 4 (int (unat b))" by (simp add: take_bit_eq_mod zmod_int)
    moreover have "push_bit 4 (int (unat b div 16)) = push_bit 4 (drop_bit 4 (int (unat b)))"
      by (simp add: drop_bit_eq_div zdiv_int)
    moreover have "push_bit 4 (drop_bit 4 x) OR take_bit 4 x = (x :: int)" for x
      by (rule bit_eqI) (auto simp: bit_simps)
    ultimately show ?thesis by simp
  qed
  then show ?thesis by simp
qed

lemma ToHex_Cons: "ToHex (b # bs) = kHex ! (unat b div 16) # kHex ! (unat b mod 16) # ToHex bs"
proof -
  have "unat (drop_bit 4 b AND 0x0F) = unat b div 16"
    using nibble_bounds(1) [of b] by (simp add: unat_low_nibble unat_drop_bit_div)
  then show ?thesis by (simp add: ToHex_def unat_low_nibble)
qed

lemma from_hex_ToHex: "from_hex_loop (ToHex bs) = Some bs"
proof (induction bs)
  case (Cons b bs)
  have n: "HexNibble (kHex ! (unat b div 16)) = int (unat b div 16)" "HexNibble (kHex ! (unat b mod 16)) = int (unat b mod 16)"
    using HexNibble_kHex nibble_bounds by blast+
  have "from_hex_loop (ToHex (b # bs)) =
      Some (word_of_int (push_bit 4 (int (unat b div 16)) OR int (unat b mod 16)) # bs)"
    using Cons by (simp add: ToHex_Cons n Let_def)
  then show ?case by (simp only: nibbles_join)
qed (simp add: ToHex_def)

lemma ToHex_no_nul: "list_all (\<lambda>c. code c \<noteq> 0) (ToHex bs)"
proof (induction bs)
  case (Cons b bs)
  then show ?case
    using HexNibble_kHex [OF nibble_bounds(1), of b] HexNibble_kHex [OF nibble_bounds(2), of b] by (simp add: ToHex_Cons)
qed (simp add: ToHex_def)

lemma length_ToHex [simp]: "length (ToHex bs) = 2 * length bs"
  by (induction bs) (simp_all add: ToHex_Cons, simp add: ToHex_def)

lemma FromHex_ToHex: "FromHex (ToHex bs) (length bs) = Some bs"
  using ToHex_no_nul [of bs] by (simp add: FromHex_def from_hex_ToHex)

subsection \<open>Identifiers and stability\<close>

lemma RoleName_inj: "RoleName r = RoleName r' \<longleftrightarrow> r = r'"
  by (cases r; cases r'; simp add: RoleName_def)

lemma RoleName_nodot: "CHR ''.'' \<notin> set (RoleName r)"
  by (cases r) (auto simp: RoleName_def)

lemma last_dot_unique:
  assumes "d \<notin> set a" "d \<notin> set b" "x @ d # a = y @ d # b"
  shows "x = y \<and> a = b"
proof -
  have "rev a @ d # rev x = rev b @ d # rev y" using arg_cong [OF assms(3), of rev] by simp
  moreover have "d \<notin> set (rev a)" "d \<notin> set (rev b)" using assms by auto
  ultimately have "find_first d (rev a @ d # rev x) = Some (length a)" "find_first d (rev a @ d # rev x) = Some (length b)"
    using find_first_append_notin by (metis length_rev)+
  then have "length a = length b" by simp
  then show ?thesis using assms(3) by (simp add: append_eq_append_conv)
qed

lemma KeystoreId_inj: "KeystoreId p r = KeystoreId p' r' \<longleftrightarrow> p = p' \<and> r = r'"
  using last_dot_unique [OF RoleName_nodot RoleName_nodot, of p r p' r']
  by (auto simp: KeystoreId_def RoleName_inj)

text \<open>The store holds a key for a role, and reloading gives the pair.\<close>

definition stored :: "openssl \<Rightarrow> keystore \<Rightarrow> string \<Rightarrow> KeyRole \<Rightarrow> key25519 \<Rightarrow> bool" where
  "stored os store p r k \<longleftrightarrow> (\<exists>hex. store (KeystoreId p r) = Some hex \<and> FromHex hex 32 = Some (priv k)
     \<and> DhPublic os (priv k) = Some (pub k))"

lemma reload: "stored os store p r k \<Longrightarrow> LoadOrCreateRole os store p r env out = (B_OK, store, k, False)"
  by (cases k) (auto simp: stored_def LoadOrCreateRole_def Let_def)

lemma role_stored:
  assumes "LoadOrCreateRole os store p r env out = (B_OK, store', k, c)"
    and "\<And>x X. generated env = Some (x, X) \<Longrightarrow> DhPublic os x = Some X"
  shows "stored os store' p r k \<and> (\<forall>q r' k'. stored os store q r' k' \<longrightarrow> stored os store' q r' k')"
proof (cases "store (KeystoreId p r)")
  case None
  then obtain x X where "generated env = Some (x, X)" "length x = 32" "store' = store(KeystoreId p r \<mapsto> ToHex x)"
    "k = \<lparr> priv = x, pub = X \<rparr>"
    using assms(1) by (auto simp: LoadOrCreateRole_def DhGenerate_def Let_def split: option.splits if_splits prod.splits)
  then show ?thesis
    using assms(2) FromHex_ToHex [of x] None by (auto simp: stored_def KeystoreId_inj)
next
  case (Some hex)
  then show ?thesis using assms(1)
    by (cases out) (auto simp: stored_def LoadOrCreateRole_def Let_def split: option.splits)
qed

text \<open>
  A node identity is stable: after one successful \<open>LoadOrCreate\<close>, every later call for
  the profile on the same key store succeeds, whatever the generator and the key store
  would now answer, changes nothing in the store, reports that no key was created and
  loads the very same three key pairs.
\<close>

theorem identity_stable:
  assumes "LoadOrCreate os store s p env = (B_OK, store', t, created)"
    and "\<And>r x X. generated (env r) = Some (x, X) \<Longrightarrow> DhPublic os x = Some X"
  shows "\<exists>t'. LoadOrCreate os store' s' p env' = (B_OK, store', t', False)
     \<and> fMachine t' = fMachine t \<and> fNode t' = fNode t \<and> fDisco t' = fDisco t \<and> fValid t'"
proof -
  obtain st1 st2 k1 k2 k3 c1 c2 c3 where
    l: "LoadOrCreateRole os store p KEY_MACHINE (env KEY_MACHINE) (fMachine s) = (B_OK, st1, k1, c1)"
    "LoadOrCreateRole os st1 p KEY_NODE (env KEY_NODE) (fNode s) = (B_OK, st2, k2, c2)"
    "LoadOrCreateRole os st2 p KEY_DISCO (env KEY_DISCO) (fDisco s) = (B_OK, store', k3, c3)"
    and ne: "p \<noteq> []" and t: "fMachine t = k1" "fNode t = k2" "fDisco t = k3"
    using assms(1) by (auto simp: LoadOrCreate_def Let_def split: prod.splits if_splits)
  have "stored os store' p KEY_MACHINE k1" "stored os store' p KEY_NODE k2" "stored os store' p KEY_DISCO k3"
    using role_stored [OF l(1)] role_stored [OF l(2)] role_stored [OF l(3)] assms(2) by blast+
  then show ?thesis using ne t by (simp add: LoadOrCreate_def Let_def reload)
qed

definition toy_role_env :: "KeyRole \<Rightarrow> role_env" where
  "toy_role_env r = \<lparr> generated = Some (replicate 32 5, replicate 32 5), add_result = B_OK \<rparr>"

theorem identity_stable_witness:
  "\<exists>store' t t'. LoadOrCreate toy_openssl Map.empty TSIdentity ''work'' toy_role_env = (B_OK, store', t, True)
     \<and> LoadOrCreate toy_openssl store' TSIdentity ''work'' (\<lambda>r. \<lparr> generated = None, add_result = B_ERROR \<rparr>)
         = (B_OK, store', t', False) \<and> fNode t' = fNode t"
proof -
  obtain store' t where l: "LoadOrCreate toy_openssl Map.empty TSIdentity ''work'' toy_role_env = (B_OK, store', t, True)"
    by (simp add: LoadOrCreate_def LoadOrCreateRole_def toy_role_env_def DhGenerate_def Let_def KeystoreId_inj)
  have "DhPublic toy_openssl x = Some X" if "generated (toy_role_env r) = Some (x, X)" for r x X
    using that by (auto simp: toy_role_env_def DhPublic_def toy_openssl_def)
  then show ?thesis
    using l identity_stable [OF l, of TSIdentity "\<lambda>r. \<lparr> generated = None, add_result = B_ERROR \<rparr>"] by blast
qed

text \<open>
  Hex round trip: decoding the encoding of a byte string gives it back; the decoder
  accepts exactly the texts of twice the wanted length made of hex digits, in either case;
  identifiers of different profiles or roles are different.
\<close>

theorem hex_roundtrip:
  "FromHex (ToHex bs) (length bs) = Some bs
   \<and> (FromHex s n \<noteq> None \<longleftrightarrow> length (c_str s) = 2 * n \<and> list_all (\<lambda>c. HexNibble c \<ge> 0) (c_str s))
   \<and> (KeystoreId p r = KeystoreId p' r' \<longleftrightarrow> p = p' \<and> r = r')"
proof -
  have "length xs = 2 * n \<Longrightarrow> from_hex_loop xs \<noteq> None \<longleftrightarrow> list_all (\<lambda>c. HexNibble c \<ge> 0) xs" for xs n
  proof (induction xs arbitrary: n rule: from_hex_loop.induct)
    case (1 h l rest)
    then obtain m where "n = Suc m" "length rest = 2 * m" by (cases n) auto
    with "1.IH" show ?case by (auto simp: Let_def)
  qed auto
  then show ?thesis using FromHex_ToHex KeystoreId_inj by (auto simp: FromHex_def mult.commute)
qed

end
