(* ===== verification/Noise.thy ===== *)
theory Noise
  imports WGCrypto
begin

text \<open>
  \<open>ts::NoiseIK\<close> (\<open>src/src/backend/tailscale/TSNoise.cpp\<close>): the Noise IK handshake of the
  control channel.  The symmetric state (chaining key, hash, cipher key and nonce) and the
  handshake state are one record, as in the class; each method is a definition.  The
  ephemeral key pair drawn by \<open>DhGenerate\<close> is an argument.  \<open>_EncryptAndHash\<close> does not look
  at the result of the sealing call: the bytes a failed call leaves in the output buffer are
  the argument \<open>junk\<close> (a function of their number).

  The main result is that both sides of a run end with equal symmetric states, whatever
  prologue and payloads they carry, so that \<open>Split\<close> gives the same transport keys.
\<close>

definition kProtocolName :: bytes where
  "kProtocolName = map (\<lambda>c. of_nat (of_char c)) ''Noise_IK_25519_ChaChaPoly_BLAKE2s''"

definition kNoiseTagLen :: nat where "kNoiseTagLen = 16"
definition kNoiseMsg1Overhead :: nat where "kNoiseMsg1Overhead = 32 + (32 + 16) + 16"
definition kNoiseMsg2Overhead :: nat where "kNoiseMsg2Overhead = 32 + 16"

record noise_ik =
  fCK :: bytes
  fH :: bytes
  fK :: bytes
  fHasKey :: bool
  fN :: u64
  fStaticPriv :: bytes
  fStaticPub :: bytes
  fEphemeralPriv :: bytes
  fEphemeralPub :: bytes
  fRemoteStatic :: bytes
  fRemoteEphemeral :: bytes
  fInitiator :: bool

definition NoiseIK :: noise_ik where
  "NoiseIK = (let z = replicate 32 0 in
     \<lparr> fCK = z, fH = z, fK = z, fHasKey = False, fN = 0, fStaticPriv = z, fStaticPub = z,
       fEphemeralPriv = z, fEphemeralPub = z, fRemoteStatic = z, fRemoteEphemeral = z,
       fInitiator = False \<rparr>)"

subsection \<open>Symmetric state\<close>

definition MixHash :: "noise_ik \<Rightarrow> bytes \<Rightarrow> noise_ik" where
  "MixHash s data =
     (let state = HashUpdate HashInit (fH s);
          state = (if length data > 0 then HashUpdate state data else state)
      in s\<lparr> fH := HashFinal state \<rparr>)"

definition InitSymmetric :: "noise_ik \<Rightarrow> bytes \<Rightarrow> noise_ik" where
  "InitSymmetric s prologue =
     (let s = s\<lparr> fH := Hash kProtocolName \<rparr>;
          s = s\<lparr> fCK := fH s, fHasKey := False, fN := 0 \<rparr>
      in MixHash s prologue)"

definition MixKey :: "noise_ik \<Rightarrow> bytes \<Rightarrow> noise_ik" where
  "MixKey s input =
     (let (ck, k) = Kdf2 (fCK s) input in s\<lparr> fCK := ck, fK := k, fHasKey := True, fN := 0 \<rparr>)"

definition EncryptAndHash :: "openssl \<Rightarrow> (nat \<Rightarrow> bytes) \<Rightarrow> noise_ik \<Rightarrow> bytes \<Rightarrow> noise_ik \<times> bytes" where
  "EncryptAndHash os junk s plain =
     (if \<not> fHasKey s then (MixHash s plain, plain)
      else let cipherLen = length plain + kNoiseTagLen;
               out = (case AeadEncrypt os (fK s) (fN s) plain (fH s) of
                        Some c \<Rightarrow> c | None \<Rightarrow> junk cipherLen);
               s = s\<lparr> fN := fN s + 1 \<rparr>
           in (MixHash s out, out))"

definition DecryptAndHash :: "openssl \<Rightarrow> noise_ik \<Rightarrow> bytes \<Rightarrow> noise_ik \<times> bytes option" where
  "DecryptAndHash os s cipher =
     (if \<not> fHasKey s then (MixHash s cipher, Some cipher)
      else if length cipher < kNoiseTagLen then (s, None)
      else case AeadDecrypt os (fK s) (fN s) cipher (fH s) of
        None \<Rightarrow> (s, None)
      | Some out \<Rightarrow> (let s = s\<lparr> fN := fN s + 1 \<rparr> in (MixHash s cipher, Some out)))"

subsection \<open>Handshake state\<close>

definition InitInitiator :: "noise_ik \<Rightarrow> bytes \<Rightarrow> bytes \<Rightarrow> bytes \<Rightarrow> bytes \<Rightarrow> noise_ik" where
  "InitInitiator s staticPriv staticPub remoteStaticPub prologue =
     (let s = s\<lparr> fInitiator := True, fStaticPriv := staticPriv, fStaticPub := staticPub,
                 fRemoteStatic := remoteStaticPub \<rparr>;
          s = InitSymmetric s prologue
      in MixHash s (fRemoteStatic s))"

definition InitResponder :: "noise_ik \<Rightarrow> bytes \<Rightarrow> bytes \<Rightarrow> bytes \<Rightarrow> noise_ik" where
  "InitResponder s staticPriv staticPub prologue =
     (let s = s\<lparr> fInitiator := False, fStaticPriv := staticPriv, fStaticPub := staticPub \<rparr>;
          s = InitSymmetric s prologue
      in MixHash s (fStaticPub s))"

definition WriteMessage1 ::
  "openssl \<Rightarrow> (nat \<Rightarrow> bytes) \<Rightarrow> noise_ik \<Rightarrow> (bytes \<times> bytes) option \<Rightarrow> bytes \<Rightarrow> nat \<Rightarrow> noise_ik \<times> bytes option" where
  "WriteMessage1 os junk s keygen payload outCap =
     (if \<not> fInitiator s then (s, None)
      else if outCap < kNoiseMsg1Overhead + length payload then (s, None)
      else case DhGenerate keygen of None \<Rightarrow> (s, None) | Some (ePriv, ePub) \<Rightarrow>
      let s = s\<lparr> fEphemeralPriv := ePriv, fEphemeralPub := ePub \<rparr>;
          s = MixHash s (fEphemeralPub s) in
      case Dh os (fEphemeralPriv s) (fRemoteStatic s) of None \<Rightarrow> (s, None) | Some dh \<Rightarrow>
      let s = MixKey s dh; (s, encStatic) = EncryptAndHash os junk s (fStaticPub s) in
      case Dh os (fStaticPriv s) (fRemoteStatic s) of None \<Rightarrow> (s, None) | Some dh \<Rightarrow>
      let s = MixKey s dh; (s, encPayload) = EncryptAndHash os junk s payload
      in (s, Some (fEphemeralPub s @ encStatic @ encPayload)))"

definition ReadMessage1 :: "openssl \<Rightarrow> noise_ik \<Rightarrow> bytes \<Rightarrow> nat \<Rightarrow> noise_ik \<times> bytes option" where
  "ReadMessage1 os s msg payloadCap =
     (if fInitiator s then (s, None)
      else if length msg < 32 + 48 + kNoiseTagLen then (s, None)
      else
      let s = s\<lparr> fRemoteEphemeral := take 32 msg \<rparr>;
          s = MixHash s (fRemoteEphemeral s) in
      case Dh os (fStaticPriv s) (fRemoteEphemeral s) of None \<Rightarrow> (s, None) | Some dh \<Rightarrow>
      case DecryptAndHash os (MixKey s dh) (slice 32 48 msg) of
        (s, None) \<Rightarrow> (s, None)
      | (s, Some st) \<Rightarrow>
          if length st \<noteq> 32 then (s, None)
          else
          let s = s\<lparr> fRemoteStatic := st \<rparr> in
          case Dh os (fStaticPriv s) (fRemoteStatic s) of None \<Rightarrow> (s, None) | Some dh \<Rightarrow>
          case DecryptAndHash os (MixKey s dh) (drop 80 msg) of
            (s, None) \<Rightarrow> (s, None)
          | (s, Some plain) \<Rightarrow> if length plain > payloadCap then (s, None) else (s, Some plain))"

definition WriteMessage2 ::
  "openssl \<Rightarrow> (nat \<Rightarrow> bytes) \<Rightarrow> noise_ik \<Rightarrow> (bytes \<times> bytes) option \<Rightarrow> bytes \<Rightarrow> nat \<Rightarrow> noise_ik \<times> bytes option" where
  "WriteMessage2 os junk s keygen payload outCap =
     (if fInitiator s then (s, None)
      else if outCap < kNoiseMsg2Overhead + length payload then (s, None)
      else case DhGenerate keygen of None \<Rightarrow> (s, None) | Some (ePriv, ePub) \<Rightarrow>
      let s = s\<lparr> fEphemeralPriv := ePriv, fEphemeralPub := ePub \<rparr>;
          s = MixHash s (fEphemeralPub s) in
      case Dh os (fEphemeralPriv s) (fRemoteEphemeral s) of None \<Rightarrow> (s, None) | Some dh \<Rightarrow>
      let s = MixKey s dh in
      case Dh os (fEphemeralPriv s) (fRemoteStatic s) of None \<Rightarrow> (s, None) | Some dh \<Rightarrow>
      let s = MixKey s dh; (s, encPayload) = EncryptAndHash os junk s payload
      in (s, Some (fEphemeralPub s @ encPayload)))"

definition ReadMessage2 :: "openssl \<Rightarrow> noise_ik \<Rightarrow> bytes \<Rightarrow> nat \<Rightarrow> noise_ik \<times> bytes option" where
  "ReadMessage2 os s msg payloadCap =
     (if \<not> fInitiator s then (s, None)
      else if length msg < 32 + kNoiseTagLen then (s, None)
      else
      let s = s\<lparr> fRemoteEphemeral := take 32 msg \<rparr>;
          s = MixHash s (fRemoteEphemeral s) in
      case Dh os (fEphemeralPriv s) (fRemoteEphemeral s) of None \<Rightarrow> (s, None) | Some dh \<Rightarrow>
      let s = MixKey s dh in
      case Dh os (fStaticPriv s) (fRemoteEphemeral s) of None \<Rightarrow> (s, None) | Some dh \<Rightarrow>
      case DecryptAndHash os (MixKey s dh) (drop 32 msg) of
        (s, None) \<Rightarrow> (s, None)
      | (s, Some plain) \<Rightarrow> if length plain > payloadCap then (s, None) else (s, Some plain))"

record noise_transport_keys =
  sendKey :: bytes
  recvKey :: bytes

definition Split :: "noise_ik \<Rightarrow> noise_transport_keys" where
  "Split s = (let (k1, k2) = Kdf2 (fCK s) [] in \<lparr> sendKey = k1, recvKey = k2 \<rparr>)"

subsection \<open>Synchronised symmetric states\<close>

text \<open>The cipher key counts only once it is set.\<close>

definition sym :: "noise_ik \<Rightarrow> bytes \<times> bytes \<times> bytes option \<times> u64" where
  "sym s = (fCK s, fH s, if fHasKey s then Some (fK s) else None, fN s)"

text \<open>The handshake part of the state, which the symmetric operations leave alone.\<close>

definition keys_of :: "noise_ik \<Rightarrow> bytes \<times> bytes \<times> bytes \<times> bytes \<times> bytes \<times> bytes \<times> bool" where
  "keys_of s = (fStaticPriv s, fStaticPub s, fEphemeralPriv s, fEphemeralPub s, fRemoteStatic s,
     fRemoteEphemeral s, fInitiator s)"

lemmas sync_defs = sym_def keys_of_def MixHash_def MixKey_def InitSymmetric_def Let_def split_beta

lemma MixHash_sync: "sym a = sym b \<Longrightarrow> sym (MixHash a d) = sym (MixHash b d)"
  and MixKey_sync: "sym a = sym b \<Longrightarrow> sym (MixKey a d) = sym (MixKey b d)"
  by (auto simp: sync_defs split: if_splits)

lemma Mix_keys [simp]: "keys_of (MixHash s d) = keys_of s" "keys_of (MixKey s d) = keys_of s"
  by (auto simp: sync_defs)

lemma Mix_fields [simp]:
  "fStaticPriv (MixHash s d) = fStaticPriv s" "fStaticPriv (MixKey s d) = fStaticPriv s"
  "fStaticPub (MixHash s d) = fStaticPub s" "fStaticPub (MixKey s d) = fStaticPub s"
  "fEphemeralPriv (MixHash s d) = fEphemeralPriv s" "fEphemeralPriv (MixKey s d) = fEphemeralPriv s"
  "fEphemeralPub (MixHash s d) = fEphemeralPub s" "fEphemeralPub (MixKey s d) = fEphemeralPub s"
  "fRemoteStatic (MixHash s d) = fRemoteStatic s" "fRemoteStatic (MixKey s d) = fRemoteStatic s"
  "fRemoteEphemeral (MixHash s d) = fRemoteEphemeral s" "fRemoteEphemeral (MixKey s d) = fRemoteEphemeral s"
  "fInitiator (MixHash s d) = fInitiator s" "fInitiator (MixKey s d) = fInitiator s"
  by (auto simp: MixHash_def MixKey_def Let_def split_beta)

lemma MixKey_keyed [simp]: "fHasKey (MixKey s d)" "length (fK (MixKey s d)) = 32"
  by (auto simp: sync_defs)

lemma crypt_sync:
  assumes "aead_laws os" "fHasKey a" "length (fK a) = 32" "sym a = sym b"
  shows "\<exists>a' b' c. EncryptAndHash os junk a p = (a', c) \<and> DecryptAndHash os b c = (b', Some p)
       \<and> length c = length p + 16 \<and> sym a' = sym b' \<and> keys_of a' = keys_of a \<and> keys_of b' = keys_of b"
proof -
  obtain c where c: "AeadEncrypt os (fK a) (fN a) p (fH a) = Some c" "length c = length p + 16"
    "AeadDecrypt os (fK a) (fN a) c (fH a) = Some p"
    using AeadEncrypt_ok [OF assms(1,3)] by blast
  have b: "fHasKey b" "fK b = fK a" "fN b = fN a" "fH b = fH a" using assms(2,4) by (auto simp: sym_def split: if_splits)
  let ?a = "MixHash (a\<lparr> fN := fN a + 1 \<rparr>) c" and ?b = "MixHash (b\<lparr> fN := fN b + 1 \<rparr>) c"
  have "EncryptAndHash os junk a p = (?a, c)" using assms(2) c by (simp add: EncryptAndHash_def Let_def)
  moreover have "DecryptAndHash os b c = (?b, Some p)"
    using b c by (simp add: DecryptAndHash_def kNoiseTagLen_def Let_def)
  moreover have "sym ?a = sym ?b" using assms(4) by (auto simp: sync_defs split: if_splits)
  moreover have "keys_of ?a = keys_of a" "keys_of ?b = keys_of b" by (auto simp: sync_defs)
  ultimately show ?thesis using c(2) by blast
qed

lemma sym_set [simp]:
  "sym (s\<lparr> fEphemeralPriv := x \<rparr>) = sym s" "sym (s\<lparr> fEphemeralPub := x \<rparr>) = sym s"
  "sym (s\<lparr> fRemoteStatic := x \<rparr>) = sym s" "sym (s\<lparr> fRemoteEphemeral := x \<rparr>) = sym s"
  by (auto simp: sym_def)

definition noise_keypair :: "openssl \<Rightarrow> bytes \<Rightarrow> bytes \<Rightarrow> bool" where
  "noise_keypair os k K \<longleftrightarrow> length k = 32 \<and> length K = 32 \<and> DhPublic os k = Some K"

lemma noise_dh:
  assumes "dh_laws os" "noise_keypair os a A" "noise_keypair os b B"
  obtains s where "Dh os a B = Some s" "Dh os b A = Some s"
  using assms Dh_ok [of os a b A B] by (auto simp: noise_keypair_def)

lemma message1_sync:
  assumes laws: "aead_laws os" "dh_laws os"
    and keys: "noise_keypair os si SI" "noise_keypair os sr SR" "noise_keypair os e E"
    and i: "fInitiator i" "fStaticPriv i = si" "fStaticPub i = SI" "fRemoteStatic i = SR"
    and r: "\<not> fInitiator r" "fStaticPriv r = sr"
    and sync: "sym i = sym r" and caps: "96 + length p \<le> cap" "length p \<le> cap'"
  shows "\<exists>i' r' m. WriteMessage1 os junk i (Some (e, E)) p cap = (i', Some m) \<and> length m = 96 + length p
     \<and> ReadMessage1 os r m cap' = (r', Some p) \<and> sym i' = sym r'
     \<and> fInitiator i' \<and> fStaticPriv i' = si \<and> fEphemeralPriv i' = e
     \<and> \<not> fInitiator r' \<and> fRemoteEphemeral r' = E \<and> fRemoteStatic r' = SI"
proof -
  obtain es where es: "Dh os e SR = Some es" "Dh os sr E = Some es" using noise_dh [OF laws(2) keys(3,2)] .
  obtain ss where ss: "Dh os si SR = Some ss" "Dh os sr SI = Some ss" using noise_dh [OF laws(2) keys(1,2)] .
  have len: "length E = 32" "length SI = 32" using keys by (auto simp: noise_keypair_def)
  let ?i1 = "MixKey (MixHash (i\<lparr> fEphemeralPriv := e, fEphemeralPub := E \<rparr>) E) es"
  let ?r1 = "MixKey (MixHash (r\<lparr> fRemoteEphemeral := E \<rparr>) E) es"
  have "sym ?i1 = sym ?r1" using sync by (intro MixKey_sync MixHash_sync) simp
  then obtain i2 r2 c where one: "EncryptAndHash os junk ?i1 SI = (i2, c)" "DecryptAndHash os ?r1 c = (r2, Some SI)"
    "length c = 32 + 16" "sym i2 = sym r2" "keys_of i2 = keys_of ?i1" "keys_of r2 = keys_of ?r1"
    using crypt_sync [OF laws(1), of ?i1 ?r1 junk SI] len by auto
  let ?i3 = "MixKey i2 ss" and ?r3 = "MixKey (r2\<lparr> fRemoteStatic := SI \<rparr>) ss"
  have "sym ?i3 = sym ?r3" using one(4) by (intro MixKey_sync) simp
  then obtain i4 r4 d where two: "EncryptAndHash os junk ?i3 p = (i4, d)" "DecryptAndHash os ?r3 d = (r4, Some p)"
    "length d = length p + 16" "sym i4 = sym r4" "keys_of i4 = keys_of ?i3" "keys_of r4 = keys_of ?r3"
    using crypt_sync [OF laws(1), of ?i3 ?r3 junk p] by auto
  have k: "fStaticPriv i2 = si" "fRemoteStatic i2 = SR" "fEphemeralPub i4 = E" "fEphemeralPriv i4 = e" "fStaticPriv i4 = si"
    "fInitiator i4" "fStaticPriv r2 = sr" "\<not> fInitiator r4" "fRemoteEphemeral r4 = E" "fRemoteStatic r4 = SI"
    using one(5,6) two(5,6) i r by (auto simp: keys_of_def)
  have base: "fStaticPub ?i1 = SI" "fEphemeralPriv ?i1 = e" by (simp_all add: i)
  have "WriteMessage1 os junk i (Some (e, E)) p cap = (i4, Some (E @ c @ d))"
    using keys(3) caps(1) i es(1) ss(1) one(1) two(1) k base
    by (simp add: WriteMessage1_def noise_keypair_def DhGenerate_def kNoiseMsg1Overhead_def Let_def)
  moreover have "ReadMessage1 os r (E @ c @ d) cap' = (r4, Some p)"
    using r es(2) ss(2) one(2) two(2) one(3) two(3) k caps(2) len
    by (simp add: ReadMessage1_def slice_simps kNoiseTagLen_def Let_def)
  ultimately show ?thesis using k two(4) len one(3) two(3) by auto
qed

lemma message2_sync:
  assumes laws: "aead_laws os" "dh_laws os"
    and keys: "noise_keypair os si SI" "noise_keypair os ei EI" "noise_keypair os er ER"
    and i: "fInitiator i" "fStaticPriv i = si" "fEphemeralPriv i = ei"
    and r: "\<not> fInitiator r" "fRemoteEphemeral r = EI" "fRemoteStatic r = SI"
    and sync: "sym i = sym r" and caps: "48 + length p \<le> cap" "length p \<le> cap'"
  shows "\<exists>i' r' m. WriteMessage2 os junk r (Some (er, ER)) p cap = (r', Some m) \<and> length m = 48 + length p
     \<and> ReadMessage2 os i m cap' = (i', Some p) \<and> sym i' = sym r' \<and> fRemoteStatic r' = SI"
proof -
  obtain ee where ee: "Dh os er EI = Some ee" "Dh os ei ER = Some ee" using noise_dh [OF laws(2) keys(3,2)] .
  obtain se where se: "Dh os er SI = Some se" "Dh os si ER = Some se" using noise_dh [OF laws(2) keys(3,1)] .
  have len: "length ER = 32" using keys by (auto simp: noise_keypair_def)
  let ?r1 = "MixKey (MixKey (MixHash (r\<lparr> fEphemeralPriv := er, fEphemeralPub := ER \<rparr>) ER) ee) se"
  let ?i1 = "MixKey (MixKey (MixHash (i\<lparr> fRemoteEphemeral := ER \<rparr>) ER) ee) se"
  have "sym ?r1 = sym ?i1" using sync by (intro MixKey_sync MixHash_sync) simp
  then obtain r2 i2 c where one: "EncryptAndHash os junk ?r1 p = (r2, c)" "DecryptAndHash os ?i1 c = (i2, Some p)"
    "length c = length p + 16" "sym r2 = sym i2" "keys_of r2 = keys_of ?r1" "keys_of i2 = keys_of ?i1"
    using crypt_sync [OF laws(1), of ?r1 ?i1 junk p] by auto
  have k: "fEphemeralPub r2 = ER" "fRemoteStatic r2 = SI" using one(5) r by (auto simp: keys_of_def)
  have "WriteMessage2 os junk r (Some (er, ER)) p cap = (r2, Some (ER @ c))"
    using keys(3) caps(1) r ee(1) se(1) one(1) k
    by (simp add: WriteMessage2_def noise_keypair_def DhGenerate_def kNoiseMsg2Overhead_def Let_def)
  moreover have "ReadMessage2 os i (ER @ c) cap' = (i2, Some p)"
    using i ee(2) se(2) one(2,3) caps(2) len
    by (simp add: ReadMessage2_def kNoiseTagLen_def Let_def)
  ultimately show ?thesis using k one(3,4) len by auto
qed

lemma Init_sync:
  "sym (InitInitiator s si SI SR pro) = sym (InitResponder s' sr SR pro)"
  "fInitiator (InitInitiator s si SI SR pro)" "fStaticPriv (InitInitiator s si SI SR pro) = si"
  "fStaticPub (InitInitiator s si SI SR pro) = SI" "fRemoteStatic (InitInitiator s si SI SR pro) = SR"
  "\<not> fInitiator (InitResponder s' sr SR pro)" "fStaticPriv (InitResponder s' sr SR pro) = sr"
  by (simp_all add: InitInitiator_def InitResponder_def InitSymmetric_def Let_def)
    (simp add: sym_def MixHash_def Let_def)

text \<open>
  C9. Noise IK agreement: with the same prologue on both sides, message 1 and message 2
  (of 96 and 48 bytes plus their payloads) are accepted, both payloads arrive unchanged, the
  responder learns exactly the initiator's static key, and both sides end with the same
  handshake hash and split into the same two 32-byte transport keys.
\<close>

theorem noise_ik_agreement:
  assumes laws: "aead_laws os" "dh_laws os"
    and keys: "noise_keypair os si SI" "noise_keypair os sr SR" "noise_keypair os ei EI" "noise_keypair os er ER"
    and caps: "96 + length p1 \<le> c1" "length p1 \<le> c2" "48 + length p2 \<le> c3" "length p2 \<le> c4"
  shows "\<exists>i1 r1 r2 i2 m1 m2.
       WriteMessage1 os junk (InitInitiator s si SI SR pro) (Some (ei, EI)) p1 c1 = (i1, Some m1)
     \<and> ReadMessage1 os (InitResponder s' sr SR pro) m1 c2 = (r1, Some p1)
     \<and> WriteMessage2 os junk r1 (Some (er, ER)) p2 c3 = (r2, Some m2)
     \<and> ReadMessage2 os i1 m2 c4 = (i2, Some p2)
     \<and> length m1 = 96 + length p1 \<and> length m2 = 48 + length p2
     \<and> fRemoteStatic r2 = SI \<and> fH i2 = fH r2 \<and> Split i2 = Split r2
     \<and> length (sendKey (Split i2)) = 32 \<and> length (recvKey (Split i2)) = 32"
proof -
  obtain i1 r1 m1 where one: "WriteMessage1 os junk (InitInitiator s si SI SR pro) (Some (ei, EI)) p1 c1 = (i1, Some m1)"
    "length m1 = 96 + length p1" "ReadMessage1 os (InitResponder s' sr SR pro) m1 c2 = (r1, Some p1)" "sym i1 = sym r1"
    "fInitiator i1" "fStaticPriv i1 = si" "fEphemeralPriv i1 = ei"
    "\<not> fInitiator r1" "fRemoteEphemeral r1 = EI" "fRemoteStatic r1 = SI"
    using message1_sync [OF laws keys(1-3) Init_sync(2-7) Init_sync(1) caps(1,2), of junk] by blast
  obtain i2 r2 m2 where two: "WriteMessage2 os junk r1 (Some (er, ER)) p2 c3 = (r2, Some m2)"
    "length m2 = 48 + length p2" "ReadMessage2 os i1 m2 c4 = (i2, Some p2)" "sym i2 = sym r2" "fRemoteStatic r2 = SI"
    using message2_sync [OF laws keys(1,3,4) one(5-10,4) caps(3,4), of junk] by blast
  have "fH i2 = fH r2" "Split i2 = Split r2" "length (sendKey (Split i2)) = 32" "length (recvKey (Split i2)) = 32"
    using two(4) by (auto simp: sym_def Split_def split_beta)
  then show ?thesis using one two by blast
qed

lemma toy_noise_keypair: "length k = 32 \<Longrightarrow> noise_keypair toy_openssl k k"
  by (simp add: noise_keypair_def DhPublic_def toy_openssl_def)

theorem noise_ik_agreement_witness:
  "\<exists>i1 m1. WriteMessage1 toy_openssl (\<lambda>n. []) (InitInitiator NoiseIK (replicate 32 1) (replicate 32 1) (replicate 32 2) [7])
       (Some (replicate 32 3, replicate 32 3)) [] 128 = (i1, Some m1) \<and> length m1 = 96"
  using noise_ik_agreement [OF toy_aead_laws toy_dh_laws toy_noise_keypair [of "replicate 32 1"]
      toy_noise_keypair [of "replicate 32 2"] toy_noise_keypair [of "replicate 32 3"] toy_noise_keypair [of "replicate 32 4"],
      of "[]" 128 0 "[1, 2]" 50 64 "\<lambda>n. []" NoiseIK "[7]" NoiseIK] by auto

end
