(* ===== verification/ControlChannel.thy ===== *)
theory ControlChannel
  imports Identity Noise TlsStream
begin

text \<open>
  The ts2021 handshake: framing (\<open>src/src/backend/tailscale/TSControl.cpp\<close>), the HTTPS key
  fetch (\<open>HttpsGet\<close> of \<open>TSTls.cpp\<close>) and \<open>ts::ControlClient\<close>
  (\<open>TSControlClient.cpp\<close>).  A connection attempt is either an error status or a stream; the
  generated ephemeral key is an argument.  Error texts (\<open>fLastError\<close>) are not modelled.

  Results: the base64 header decodes to the framed initiation, and a handshake with a server
  that runs the responder side of theory \<open>Noise\<close> ends with the keys of the server and with
  the bytes the server bundled behind its answer kept for the record stream, as long as they
  fit the 256-byte buffer; longer bundles lose their tail (\<open>upgrade_drops_bundled_bytes\<close>).
\<close>

subsection \<open>Framing\<close>

definition kControlKeyPrefix :: string where "kControlKeyPrefix = ''mkey:''"
definition kControlKeyField :: string where "kControlKeyField = CHR 0x22 # ''publicKey'' @ [CHR 0x22]"
definition kControlProtocolVersion :: u16 where "kControlProtocolVersion = 144"
definition kInitiationHeaderLen :: nat where "kInitiationHeaderLen = 5"
definition kCtlRecordHeaderLen :: nat where "kCtlRecordHeaderLen = 3"
definition kInitiationPayloadLen :: nat where "kInitiationPayloadLen = 96"
definition kResponsePayloadLen :: nat where "kResponsePayloadLen = 48"
definition kInitiationMsgLen :: nat where "kInitiationMsgLen = kInitiationHeaderLen + kInitiationPayloadLen"

datatype ControlMsgType = CONTROL_MSG_INITIATION | CONTROL_MSG_RESPONSE | CONTROL_MSG_ERROR | CONTROL_MSG_RECORD

definition msg_type_byte :: "ControlMsgType \<Rightarrow> u8" where
  "msg_type_byte t = (case t of CONTROL_MSG_INITIATION \<Rightarrow> 1 | CONTROL_MSG_RESPONSE \<Rightarrow> 2
     | CONTROL_MSG_ERROR \<Rightarrow> 3 | CONTROL_MSG_RECORD \<Rightarrow> 4)"

definition ControlPrologue :: "u16 \<Rightarrow> string" where
  "ControlPrologue version = ''Tailscale Control Protocol v'' @ show_nat (unat version)"

definition EncodeInitiation :: "bytes \<Rightarrow> u16 \<Rightarrow> nat \<Rightarrow> bytes option" where
  "EncodeInitiation noiseMsg1 version outCap =
     (if length noiseMsg1 \<noteq> kInitiationPayloadLen then None
      else if outCap < kInitiationMsgLen then None
      else Some ([ucast (drop_bit 8 version), ucast (version AND 0xFF), msg_type_byte CONTROL_MSG_INITIATION,
                  of_nat (kInitiationPayloadLen div 256), of_nat (kInitiationPayloadLen mod 256)] @ noiseMsg1))"

text \<open>Type and payload length.\<close>

definition DecodeRecordHeader :: "bytes \<Rightarrow> (u8 \<times> u16) option" where
  "DecodeRecordHeader xs =
     (if length xs < kCtlRecordHeaderLen then None
      else Some (xs ! 0, push_bit 8 (ucast (xs ! 1)) OR ucast (xs ! 2)))"

definition ParseControlKey :: "string \<Rightarrow> bytes option" where
  "ParseControlKey json =
     (let doc = c_str json;
          searchFrom = (case find_sub kControlKeyField doc of Some i \<Rightarrow> i | None \<Rightarrow> 0) in
      case find_sub_from kControlKeyPrefix doc searchFrom of
        None \<Rightarrow> None
      | Some keyPos \<Rightarrow>
          let keyPos = keyPos + length kControlKeyPrefix in
          if length doc < keyPos + 64 then None
          else FromHex (slice keyPos 64 doc) 32)"

subsection \<open>Base64\<close>

definition kAlphabet :: string where
  "kAlphabet = ''ABCDEFGHIJKLMNOPQRSTUVWXYZabcdefghijklmnopqrstuvwxyz0123456789+/''"

fun base64_encode :: "bytes \<Rightarrow> string" where
  "base64_encode (a # b # c # rest) =
     (let n = (push_bit 16 (ucast a) OR push_bit 8 (ucast b)) OR (ucast c :: u32)
      in [kAlphabet ! unat (drop_bit 18 n AND 0x3F), kAlphabet ! unat (drop_bit 12 n AND 0x3F),
          kAlphabet ! unat (drop_bit 6 n AND 0x3F), kAlphabet ! unat (n AND 0x3F)] @ base64_encode rest)"
| "base64_encode [a] =
     (let n = push_bit 16 (ucast a :: u32)
      in [kAlphabet ! unat (drop_bit 18 n AND 0x3F), kAlphabet ! unat (drop_bit 12 n AND 0x3F)] @ ''=='')"
| "base64_encode [a, b] =
     (let n = push_bit 16 (ucast a) OR push_bit 8 (ucast b :: u32)
      in [kAlphabet ! unat (drop_bit 18 n AND 0x3F), kAlphabet ! unat (drop_bit 12 n AND 0x3F),
          kAlphabet ! unat (drop_bit 6 n AND 0x3F)] @ ''='')"
| "base64_encode [] = []"

subsection \<open>HTTPS\<close>

fun script_size :: "tls_event list \<Rightarrow> nat" where
  "script_size [] = 0"
| "script_size (Data xs # evs) = Suc (length xs + script_size evs)"
| "script_size (_ # evs) = Suc (script_size evs)"

lemma tls_read_size: "tls_read evs n = (Got xs, evs') \<Longrightarrow> 0 < n \<Longrightarrow> script_size evs' < script_size evs"
  by (cases "(evs, n)" rule: tls_read.cases) (auto split: if_splits)

text \<open>\<open>while ((n = tls.Read(chunk, 4096)) > 0) raw.Append(chunk, n)\<close>\<close>

function read_to_end :: "tls_event list \<Rightarrow> bytes \<Rightarrow> bytes" where
  "read_to_end evs raw =
     (case tls_read evs 4096 of (Got xs, evs') \<Rightarrow> read_to_end evs' (raw @ xs) | _ \<Rightarrow> raw)"
  by pat_completeness auto
termination
  by (relation "measure (\<lambda>(evs, raw). script_size evs)") (auto dest!: tls_read_size [OF sym])

declare read_to_end.simps [simp del]

definition crlf :: string where "crlf = [CHR 0x0D, CHR 0x0A]"

text \<open>The status code and the body of a response.\<close>

definition http_split :: "string \<Rightarrow> int \<times> string" where
  "http_split raw =
     ((case find_first (CHR '' '') raw of Some sp \<Rightarrow> atoi (drop (sp + 1) raw) | None \<Rightarrow> 0),
      (case find_sub (crlf @ crlf) raw of Some sep \<Rightarrow> c_str (drop (sep + 4) raw) | None \<Rightarrow> raw))"

definition HttpsGet :: "status + tls \<Rightarrow> string \<Rightarrow> string \<Rightarrow> status \<times> int \<times> string" where
  "HttpsGet conn host path =
     (case conn of Inl st \<Rightarrow> (st, 0, [])
      | Inr t \<Rightarrow>
          let req = ''GET '' @ path @ '' HTTP/1.1'' @ crlf @ ''Host: '' @ host @ crlf
                @ ''User-Agent: Sotoportego/0.1'' @ crlf @ ''Accept: */*'' @ crlf @ ''Connection: close'' @ crlf @ crlf in
          case tls_write t (map byte_of_chr req) of (None, _) \<Rightarrow> (B_IO_ERROR, 0, [])
          | (Some _, t) \<Rightarrow>
              let raw = map chr_of_byte (read_to_end (rx t) []) in
              if raw = [] then (B_IO_ERROR, 0, [])
              else (B_OK, http_split raw))"

subsection \<open>The client\<close>

record control_client =
  fClientTls :: "tls option"
  fControlKey :: bytes
  fPending :: bytes
  fPendingLen :: nat

definition ControlClient :: control_client where
  "ControlClient = \<lparr> fClientTls = None, fControlKey = replicate 32 0, fPending = replicate 512 0, fPendingLen = 0 \<rparr>"

definition FetchControlKey :: "control_client \<Rightarrow> status + tls \<Rightarrow> string \<Rightarrow> status \<times> control_client" where
  "FetchControlKey c conn host =
     (case HttpsGet conn host (''/key?v='' @ show_nat (unat kControlProtocolVersion)) of (result, st, body) \<Rightarrow>
      if result \<noteq> B_OK then (result, c)
      else if st \<noteq> 200 then (B_ERROR, c)
      else case ParseControlKey body of None \<Rightarrow> (B_ERROR, c)
      | Some k \<Rightarrow> (B_OK, c\<lparr> fControlKey := k \<rparr>))"

definition kUpgradeBuf :: nat where "kUpgradeBuf = 8192"

definition header_end :: "bytes \<Rightarrow> nat option" where
  "header_end buf = map_option (\<lambda>i. i + 4) (find_sub [0x0D, 0x0A, 0x0D, 0x0A] buf)"

text \<open>The accumulation loop of \<open>_ReadUpgradeResponse\<close>: the bytes read, the end of the headers.\<close>

function upgrade_loop :: "tls_event list \<Rightarrow> bytes \<Rightarrow> nat option \<Rightarrow> bytes \<times> nat option \<times> tls_event list" where
  "upgrade_loop evs buf headerEnd =
     (if length buf < kUpgradeBuf then
        (case tls_read evs (kUpgradeBuf - length buf) of
           (Got xs, evs') \<Rightarrow>
             let buf = buf @ xs;
                 headerEnd = (case headerEnd of None \<Rightarrow> header_end buf | Some h \<Rightarrow> Some h) in
             if (case headerEnd of None \<Rightarrow> False
                 | Some h \<Rightarrow> length buf - h \<ge> kCtlRecordHeaderLen + kResponsePayloadLen)
             then (buf, headerEnd, evs')
             else upgrade_loop evs' buf headerEnd
         | (_, evs') \<Rightarrow> (buf, headerEnd, evs'))
      else (buf, headerEnd, evs))"
  by pat_completeness auto
termination
  by (relation "measure (\<lambda>(evs, buf, h). kUpgradeBuf - length buf)") (auto intro: tls_read_progress)

declare upgrade_loop.simps [simp del]

definition ReadUpgradeResponse :: "tls \<Rightarrow> nat \<Rightarrow> (status + bytes) \<times> tls" where
  "ReadUpgradeResponse t bodyCap =
     (case upgrade_loop (rx t) [] None of (buf, headerEnd, evs) \<Rightarrow>
      let t = t\<lparr> rx := evs \<rparr> in
      case headerEnd of None \<Rightarrow> (Inl B_ERROR, t)
      | Some h \<Rightarrow>
          if find_sub (map byte_of_chr '' 101 '') (take h buf) = None then (Inl B_ERROR, t)
          else let have = length buf - h; have = (if have > bodyCap then bodyCap else have)
               in (Inr (slice h have buf), t))"

definition upgrade_request :: "string \<Rightarrow> bytes \<Rightarrow> string" where
  "upgrade_request host initFrame =
     ''POST /ts2021 HTTP/1.1'' @ crlf @ ''Host: '' @ host @ crlf
       @ ''Upgrade: tailscale-control-protocol'' @ crlf @ ''Connection: upgrade'' @ crlf
       @ ''X-Tailscale-Handshake: '' @ base64_encode initFrame @ crlf
       @ ''User-Agent: Sotoportego/0.1'' @ crlf @ ''Content-Length: 0'' @ crlf @ crlf"

text \<open>
  The connections (for \<open>/key\<close> and for \<open>/ts2021\<close>) are what the two \<open>Connect\<close> calls give.
  The result carries the transport keys.
\<close>

definition Handshake ::
  "openssl \<Rightarrow> (nat \<Rightarrow> bytes) \<Rightarrow> control_client \<Rightarrow> status + tls \<Rightarrow> status + tls \<Rightarrow> string \<Rightarrow> bytes \<Rightarrow> bytes \<Rightarrow> u16
     \<Rightarrow> (bytes \<times> bytes) option \<Rightarrow> status \<times> control_client \<times> noise_transport_keys option" where
  "Handshake os junk c keyConn upConn host machinePriv machinePub version keygen =
     (case FetchControlKey c keyConn host of (result, c) \<Rightarrow>
      if result \<noteq> B_OK then (result, c, None)
      else
      let prologue = map byte_of_chr (ControlPrologue version);
          noise = InitInitiator NoiseIK machinePriv machinePub (fControlKey c) prologue in
      case WriteMessage1 os junk noise keygen [] 128 of
        (_, None) \<Rightarrow> (B_ERROR, c, None)
      | (noise, Some msg1) \<Rightarrow>
      if length msg1 \<noteq> kInitiationPayloadLen then (B_ERROR, c, None)
      else case EncodeInitiation msg1 version kInitiationMsgLen of None \<Rightarrow> (B_ERROR, c, None)
      | Some initFrame \<Rightarrow>
      case upConn of Inl st \<Rightarrow> (st, c, None)
      | Inr t \<Rightarrow>
      case tls_write t (map byte_of_chr (upgrade_request host initFrame)) of
        (None, t) \<Rightarrow> (B_IO_ERROR, c\<lparr> fClientTls := Some t \<rparr>, None)
      | (Some _, t) \<Rightarrow>
      case ReadUpgradeResponse t 256 of
        (Inl st, t) \<Rightarrow> (st, c\<lparr> fClientTls := Some t \<rparr>, None)
      | (Inr body, t) \<Rightarrow>
      let c = c\<lparr> fClientTls := Some t \<rparr> in
      case DecodeRecordHeader body of None \<Rightarrow> (B_ERROR, c, None)
      | Some (ty, payloadLen) \<Rightarrow>
      if ty = msg_type_byte CONTROL_MSG_ERROR then (B_ERROR, c, None)
      else if ty \<noteq> msg_type_byte CONTROL_MSG_RESPONSE then (B_ERROR, c, None)
      else if length body < kCtlRecordHeaderLen + unat payloadLen then (B_ERROR, c, None)
      else case ReadMessage2 os noise (slice kCtlRecordHeaderLen (unat payloadLen) body) 64 of
        (_, None) \<Rightarrow> (B_ERROR, c, None)
      | (noise, Some _) \<Rightarrow>
      let consumed = kCtlRecordHeaderLen + unat payloadLen;
          c = (if length body > consumed
               then let n = min (length body - consumed) 512
                    in c\<lparr> fPendingLen := n, fPending := slice consumed n body @ drop n (fPending c) \<rparr>
               else c)
      in (B_OK, c, Some (Split noise)))"

subsection \<open>Reading the upgrade response\<close>

text \<open>An HTTP head: it ends with its first empty line.\<close>

definition http_head :: "bytes \<Rightarrow> bool" where
  "http_head http \<longleftrightarrow> header_end http = Some (length http)"

lemma http_head_prefix:
  assumes "http_head http" "buf @ later = http @ rest"
  shows "header_end buf = (if length http \<le> length buf then Some (length http) else None)"
proof (cases "length http \<le> length buf")
  case True
  have "take (length http) buf = http" using arg_cong [OF assms(2), of "take (length http)"] True by simp
  then obtain ys where "buf = http @ ys" by (metis append_take_drop_id)
  then show ?thesis using assms(1) True by (auto simp: http_head_def header_end_def dest: find_sub_append [where ys = ys])
next
  case False
  have "buf = take (length buf) http" using arg_cong [OF assms(2), of "take (length buf)"] False by simp
  then obtain ys where ys: "http = buf @ ys" by (metis append_take_drop_id)
  then have "ys \<noteq> []" using False by auto
  have "header_end buf = None"
  proof (rule ccontr)
    assume "header_end buf \<noteq> None"
    then obtain i where i: "find_sub [0x0D, 0x0A, 0x0D, 0x0A] buf = Some i" by (auto simp: header_end_def)
    then have "i + 4 = length http" using assms(1) find_sub_append [OF i, of ys] ys by (simp add: http_head_def header_end_def)
    moreover have "i + 4 \<le> length buf" using find_sub_Some [OF i] by simp
    ultimately show False using ys \<open>ys \<noteq> []\<close> by simp
  qed
  then show ?thesis using False by simp
qed

lemma upgrade_loop_ok:
  assumes "http_head http" "only_data evs" "buf @ data_of evs = http @ rest" "51 \<le> length rest"
    and "length (http @ rest) \<le> 8192" "length buf < length http + 51" "h = header_end buf"
  shows "\<exists>buf' evs'. upgrade_loop (evs @ post) buf h = (buf', Some (length http), evs' @ post)
     \<and> buf' @ data_of evs' = http @ rest \<and> length http + 51 \<le> length buf' \<and> only_data evs'"
  using assms
proof (induction "length (data_of evs)" arbitrary: evs buf h rule: less_induct)
  case less
  have lt: "length buf < kUpgradeBuf" using less.prems(4-6) by (simp add: kUpgradeBuf_def)
  have ne: "data_of evs \<noteq> []" using less.prems(3,4,6) by (metis add_le_cancel_left append_Nil2 length_append not_le)
  obtain xs evs1 where r: "tls_read (evs @ post) (kUpgradeBuf - length buf) = (Got xs, evs1 @ post)" "only_data evs1"
    "data_of evs = xs @ data_of evs1" "0 < length xs"
    using tls_read_data [OF less.prems(2) ne, of "kUpgradeBuf - length buf"] tls_read_append lt
    by (metis zero_less_diff)
  have tot: "(buf @ xs) @ data_of evs1 = http @ rest" using less.prems(3) r(3) by simp
  have h': "(case h of None \<Rightarrow> header_end (buf @ xs) | Some k \<Rightarrow> Some k) = header_end (buf @ xs)"
    using http_head_prefix [OF less.prems(1) less.prems(3)] http_head_prefix [OF less.prems(1) tot] less.prems(7)
    by (auto split: option.splits)
  note he = http_head_prefix [OF less.prems(1) tot]
  have k51: "kCtlRecordHeaderLen + kResponsePayloadLen = 51" by (simp add: kCtlRecordHeaderLen_def kResponsePayloadLen_def)
  have unf: "upgrade_loop (evs @ post) buf h =
      (if (case header_end (buf @ xs) of None \<Rightarrow> False | Some k \<Rightarrow> length (buf @ xs) - k \<ge> 51)
       then (buf @ xs, header_end (buf @ xs), evs1 @ post) else upgrade_loop (evs1 @ post) (buf @ xs) (header_end (buf @ xs)))"
    using lt r(1) h' by (subst upgrade_loop.simps) (simp add: Let_def k51 split: option.split)
  show ?case
  proof (cases "length http + 51 \<le> length (buf @ xs)")
    case True
    then have "upgrade_loop (evs @ post) buf h = (buf @ xs, Some (length http), evs1 @ post)" using unf he by auto
    then show ?thesis using True tot r(2) by (intro exI [of _ "buf @ xs"] exI [of _ evs1]) simp
  next
    case False
    then have "upgrade_loop (evs @ post) buf h = upgrade_loop (evs1 @ post) (buf @ xs) (header_end (buf @ xs))" using unf he by auto
    moreover have "\<exists>buf' evs'. upgrade_loop (evs1 @ post) (buf @ xs) (header_end (buf @ xs)) = (buf', Some (length http), evs' @ post)
       \<and> buf' @ data_of evs' = http @ rest \<and> length http + 51 \<le> length buf' \<and> only_data evs'"
      by (rule less.hyps) (use r False tot less.prems in auto)
    ultimately show ?thesis by simp
  qed
qed

subsection \<open>The handshake against a server\<close>

lemma ReadUpgradeResponse_ok:
  assumes "http_head http" "find_sub (map byte_of_chr '' 101 '') http \<noteq> None" "only_data pre" "rx t = pre @ post"
    and "data_of pre = http @ resp @ extra" "length resp = 51" "length extra \<le> 205" "length http \<le> 7936"
  shows "\<exists>got evs. ReadUpgradeResponse t 256 = (Inr (resp @ got), t\<lparr> rx := evs @ post \<rparr>) \<and> got @ data_of evs = extra
     \<and> only_data evs \<and> length got \<le> 205"
proof -
  obtain buf evs where u: "upgrade_loop (rx t) [] None = (buf, Some (length http), evs @ post)"
    "buf @ data_of evs = http @ (resp @ extra)" "length http + 51 \<le> length buf" "only_data evs"
    using upgrade_loop_ok [of http pre "[]" "resp @ extra" None post] assms by (auto simp: header_end_def)
  have "take (length http) buf = http" using arg_cong [OF u(2), of "take (length http)"] u(3) by simp
  then obtain ys where ys: "buf = http @ ys" by (metis append_take_drop_id)
  have yb: "ys @ data_of evs = resp @ extra" using u(2) ys by simp
  have "take 51 ys = resp" using arg_cong [OF yb, of "take 51"] u(3) ys assms(6) by simp
  then obtain got where got: "ys = resp @ got" by (metis append_take_drop_id)
  have b: "got @ data_of evs = extra" using yb got by simp
  then have lg: "length got \<le> 205" using assms(7) by auto
  have "ReadUpgradeResponse t 256 = (Inr (resp @ got), t\<lparr> rx := evs @ post \<rparr>)"
    using u(1) assms(2,6) lg ys got by (simp add: ReadUpgradeResponse_def Let_def slice_def)
  then show ?thesis using b u(4) lg by auto
qed

text \<open>The tail of a long extra is lost: it was read off the stream and is not in the body.\<close>

lemma ReadUpgradeResponse_long:
  assumes "http_head http" "find_sub (map byte_of_chr '' 101 '') http \<noteq> None"
    and "rx t = [Data (http @ body)]" "256 < length body" "length (http @ body) \<le> 8192"
  shows "ReadUpgradeResponse t 256 = (Inr (take 256 body), t\<lparr> rx := [] \<rparr>)"
proof -
  have he: "header_end (http @ body) = Some (length http)" using http_head_prefix [OF assms(1), of "http @ body" "[]" body] by simp
  have "http @ body \<noteq> []" using assms(4) by auto
  then have "upgrade_loop (rx t) [] None = (http @ body, Some (length http), [])"
    using assms(3-5) he
    by (subst upgrade_loop.simps) (simp add: kUpgradeBuf_def kCtlRecordHeaderLen_def kResponsePayloadLen_def Let_def)
  then show ?thesis using assms(2,4) by (simp add: ReadUpgradeResponse_def Let_def slice_def)
qed

lemma handshake_pending:
  assumes "aead_laws os" "dh_laws os" "length p = 0"
    and "FetchControlKey ControlClient keyConn host = (B_OK, c)" "fControlKey c = SR"
    and "noise_keypair os mp MP" "noise_keypair os sr SR" "noise_keypair os ei EI" "noise_keypair os er ER"
    and "WriteMessage1 os junk (InitInitiator NoiseIK mp MP SR pro) (Some (ei, EI)) p 128 = (i1, Some m1)"
    and "ReadMessage1 os (InitResponder NoiseIK sr SR pro) m1 0 = (r1, Some p)"
    and "WriteMessage2 os junk r1 (Some (er, ER)) p 48 = (r2, Some m2)"
  shows "length m1 = 96 \<and> length m2 = 48 \<and> (\<exists>i2. ReadMessage2 os i1 m2 64 = (i2, Some p) \<and> Split i2 = Split r2)"
proof -
  have one: "length m1 = 96 + length p" "sym i1 = sym r1" "fInitiator i1" "fStaticPriv i1 = mp" "fEphemeralPriv i1 = ei"
    "\<not> fInitiator r1" "fRemoteEphemeral r1 = EI" "fRemoteStatic r1 = MP"
    using message1_sync [OF assms(1,2,6,7,8) Init_sync(2-7) Init_sync(1), of p 128 0 junk NoiseIK pro NoiseIK] assms(3,10,11)
    by auto
  obtain i2 r2' m2' where two: "WriteMessage2 os junk r1 (Some (er, ER)) p 48 = (r2', Some m2')" "length m2' = 48 + length p"
    "ReadMessage2 os i1 m2' 64 = (i2, Some p)" "sym i2 = sym r2'"
    using message2_sync [OF assms(1,2,6,8,9) one(3-8,2), of p 48 64 junk] assms(3) by auto
  have "r2' = r2" "m2' = m2" using two(1) assms(12) by auto
  then show ?thesis using one(1) two assms(3) by (auto simp: sym_def Split_def split_beta)
qed

lemma FetchControlKey_frame:
  "FetchControlKey c conn host = (st, c') \<Longrightarrow> fPendingLen c' = fPendingLen c \<and> fPending c' = fPending c"
  by (auto simp: FetchControlKey_def split: prod.splits if_splits option.splits)

lemma handshake_ok:
  assumes laws: "aead_laws os" "dh_laws os"
    and key: "FetchControlKey ControlClient keyConn host = (B_OK, c)" "fControlKey c = SR"
    and pairs: "noise_keypair os mp MP" "noise_keypair os sr SR" "noise_keypair os ei EI" "noise_keypair os er ER"
    and pro: "pro = map byte_of_chr (ControlPrologue version)"
    and server: "WriteMessage1 os junk (InitInitiator NoiseIK mp MP SR pro) (Some (ei, EI)) [] 128 = (i1, Some m1)"
      "ReadMessage1 os (InitResponder NoiseIK sr SR pro) m1 0 = (r1, Some [])"
      "WriteMessage2 os junk r1 (Some (er, ER)) [] 48 = (r2, Some m2)"
    and stream: "wr t = []" "rx t = pre @ post" "only_data pre" "data_of pre = http @ ([2, 0, 48] @ m2) @ extra"
    and http: "http_head http" "find_sub (map byte_of_chr '' 101 '') http \<noteq> None" "length http \<le> 7936"
    and size: "length extra \<le> 205"
  shows "\<exists>c' t'. Handshake os junk ControlClient keyConn (Inr t) host mp MP version (Some (ei, EI)) =
       (B_OK, c', Some (Split r2)) \<and> fClientTls c' = Some t'
     \<and> fPendingLen c' \<le> length (fPending c') \<and> length (fPending c') = 512 \<and> wr t' = []
     \<and> (\<exists>evs. only_data evs \<and> rx t' = evs @ post \<and> take (fPendingLen c') (fPending c') @ data_of evs = extra)"
proof -
  obtain i2 where n: "length m1 = 96" "length m2 = 48" "ReadMessage2 os i1 m2 64 = (i2, Some [])" "Split i2 = Split r2"
    using handshake_pending [OF laws _ key pairs server] by auto
  let ?frame = "[ucast (drop_bit 8 version), ucast (version AND 0xFF), 1, 0, 96] @ m1"
  have enc: "EncodeInitiation m1 version kInitiationMsgLen = Some ?frame"
    using n(1) by (simp add: EncodeInitiation_def kInitiationPayloadLen_def kInitiationMsgLen_def kInitiationHeaderLen_def msg_type_byte_def)
  let ?req = "map byte_of_chr (upgrade_request host ?frame)"
  let ?t = "t\<lparr> tx := tx t @ ?req \<rparr>"
  have wr: "tls_write t ?req = (Some (length ?req), ?t)" using stream(1) by (simp add: tls_write_def)
  obtain got evs where up: "ReadUpgradeResponse ?t 256 = (Inr (([2, 0, 48] @ m2) @ got), ?t\<lparr> rx := evs @ post \<rparr>)"
    "got @ data_of evs = extra" "only_data evs" "length got \<le> 205"
    using ReadUpgradeResponse_ok [OF http(1,2) stream(3), of ?t post "[2, 0, 48] @ m2" extra] stream(2,4) n(2) size http(3) by auto
  let ?t' = "?t\<lparr> rx := evs @ post \<rparr>"
  have hdr: "DecodeRecordHeader (([2, 0, 48] @ m2) @ got) = Some (2, 48)"
    by (simp add: DecodeRecordHeader_def kCtlRecordHeaderLen_def)
  have pay: "slice kCtlRecordHeaderLen 48 (([2, 0, 48] @ m2) @ got) = m2" using n(2) by (simp add: slice_def kCtlRecordHeaderLen_def)
  have pend0: "fPendingLen c = 0" "length (fPending c) = 512" using FetchControlKey_frame [OF key(1)] by (simp_all add: ControlClient_def)
  let ?c = "c\<lparr> fClientTls := Some ?t' \<rparr>"
  let ?c' = "if got = [] then ?c else ?c\<lparr> fPendingLen := length got, fPending := got @ drop (length got) (fPending c) \<rparr>"
  have "Handshake os junk ControlClient keyConn (Inr t) host mp MP version (Some (ei, EI)) = (B_OK, ?c', Some (Split r2))"
    using key server(1) pro n enc wr up(1,4) hdr pay
    by (simp add: Handshake_def kInitiationPayloadLen_def msg_type_byte_def Let_def kCtlRecordHeaderLen_def slice_def min_def)
  moreover have "take (fPendingLen ?c') (fPending ?c') = got" using pend0 by simp
  ultimately show ?thesis using up(2-4) stream(1) pend0
    by (intro exI [of _ ?c'] exI [of _ ?t']) auto
qed

text \<open>
  C19. The control handshake: against a server that owns the fetched key, answers the upgrade
  with 101 and runs the responder side of Noise IK under the same protocol version, the client
  succeeds with the server's transport keys; and whatever the server sends behind its answer is, in order, the pending
  bytes followed by what is still on the stream, however TLS cuts it, as long as at most 205
  bytes of it come in one piece with the answer.
\<close>

theorem control_handshake:
  assumes laws: "aead_laws os" "dh_laws os"
    and key: "FetchControlKey ControlClient keyConn host = (B_OK, c)" "fControlKey c = SR"
    and pairs: "noise_keypair os mp MP" "noise_keypair os sr SR" "noise_keypair os ei EI" "noise_keypair os er ER"
    and pro: "pro = map byte_of_chr (ControlPrologue version)"
    and server: "WriteMessage1 os junk (InitInitiator NoiseIK mp MP SR pro) (Some (ei, EI)) [] 128 = (i1, Some m1)"
      "ReadMessage1 os (InitResponder NoiseIK sr SR pro) m1 0 = (r1, Some [])"
      "WriteMessage2 os junk r1 (Some (er, ER)) [] 48 = (r2, Some m2)"
    and stream: "wr t = []" "rx t = pre @ post" "only_data pre" "data_of pre = http @ ([2, 0, 48] @ m2) @ extra"
    and http: "http_head http" "find_sub (map byte_of_chr '' 101 '') http \<noteq> None" "length http \<le> 7936"
    and size: "length extra \<le> 205"
  shows "\<exists>c' t'. Handshake os junk ControlClient keyConn (Inr t) host mp MP version (Some (ei, EI)) =
       (B_OK, c', Some (Split r2)) \<and> fClientTls c' = Some t'
     \<and> (\<exists>evs. only_data evs \<and> rx t' = evs @ post \<and> take (fPendingLen c') (fPending c') @ data_of evs = extra)"
  using handshake_ok [OF laws key pairs pro server stream http size] by blast

definition sample_key_text :: string where
  "sample_key_text = ''HTTP/1.1 200 OK'' @ crlf @ crlf @ [CHR 0x7B] @ kControlKeyField @ '':'' @ [CHR 0x22]
      @ ''mkey:'' @ replicate 64 (CHR ''2'') @ [CHR 0x22, CHR 0x7D]"

definition sample_key_conn :: "status + tls" where
  "sample_key_conn = Inr \<lparr> rx = [Data (map byte_of_chr sample_key_text)], tx = [], wr = [] \<rparr>"

definition sample_upgrade :: bytes where
  "sample_upgrade = map byte_of_chr (''HTTP/1.1 101 Switching Protocols'' @ crlf @ crlf)"

lemma HttpsGet_one_read:
  assumes "wr t = []" "rx t = [Data (map byte_of_chr s)]" "s \<noteq> []" "length s \<le> 4096"
  shows "HttpsGet (Inr t) host path = (B_OK, http_split s)"
proof -
  have "read_to_end (rx t) [] = map byte_of_chr s" using assms by (simp add: read_to_end.simps)
  moreover have "map (chr_of_byte \<circ> byte_of_chr) s = s" by (simp add: map_idI)
  ultimately show ?thesis using assms(1,3) by (simp add: HttpsGet_def tls_write_def Let_def)
qed

lemma sample_key: "FetchControlKey ControlClient sample_key_conn ''h'' =
    (B_OK, ControlClient\<lparr> fControlKey := replicate 32 0x22 \<rparr>)"
proof -
  have "sample_key_text \<noteq> [] \<and> length sample_key_text \<le> 4096" by code_simp
  moreover have "fst (http_split sample_key_text) = 200" by code_simp
  moreover have "ParseControlKey (snd (http_split sample_key_text)) = Some (replicate 32 0x22)" by code_simp
  ultimately show ?thesis
    by (simp add: FetchControlKey_def sample_key_conn_def HttpsGet_one_read split_beta)
qed

lemma sample_head: "http_head sample_upgrade" "find_sub (map byte_of_chr '' 101 '') sample_upgrade \<noteq> None"
  "length sample_upgrade \<le> 7936"
  by (code_simp)+

theorem control_handshake_witness:
  "\<exists>t c' k. Handshake toy_openssl (\<lambda>n. []) ControlClient sample_key_conn (Inr t) ''h'' (replicate 32 1) (replicate 32 1) 144
      (Some (replicate 32 3, replicate 32 3)) = (B_OK, c', Some k)"
proof -
  let ?pro = "map byte_of_chr (ControlPrologue 144)"
  note pairs = toy_noise_keypair [of "replicate 32 1"] toy_noise_keypair [of "replicate 32 0x22"]
    toy_noise_keypair [of "replicate 32 3"] toy_noise_keypair [of "replicate 32 4"]
  note laws = toy_aead_laws toy_dh_laws
  obtain i1 r1 m1 where one:
    "WriteMessage1 toy_openssl (\<lambda>n. []) (InitInitiator NoiseIK (replicate 32 1) (replicate 32 1) (replicate 32 0x22) ?pro)
       (Some (replicate 32 3, replicate 32 3)) [] 128 = (i1, Some m1)"
    "ReadMessage1 toy_openssl (InitResponder NoiseIK (replicate 32 0x22) (replicate 32 0x22) ?pro) m1 0 = (r1, Some [])"
    "sym i1 = sym r1" "fInitiator i1" "fStaticPriv i1 = replicate 32 1" "fEphemeralPriv i1 = replicate 32 3"
    "\<not> fInitiator r1" "fRemoteEphemeral r1 = replicate 32 3" "fRemoteStatic r1 = replicate 32 1"
    using message1_sync [OF laws pairs(1-3) Init_sync(2-7) Init_sync(1), of "[]" 128 0 "\<lambda>n. []" NoiseIK ?pro NoiseIK] by auto
  obtain r2 m2 where two: "WriteMessage2 toy_openssl (\<lambda>n. []) r1 (Some (replicate 32 4, replicate 32 4)) [] 48 = (r2, Some m2)"
    using message2_sync [OF laws pairs(1,3,4) one(4-9,3), of "[]" 48 64 "\<lambda>n. []"] by auto
  let ?t = "\<lparr> rx = [Data (sample_upgrade @ ([2, 0, 48] @ m2) @ [9, 9])], tx = [], wr = [] \<rparr> :: tls"
  show ?thesis
    using control_handshake [OF laws sample_key _ pairs refl one(1,2) two _ _ _ _ sample_head, of ?t "rx ?t" "[]" "[9, 9]"] by auto
qed

end
