(* ===== verification/Derp.thy ===== *)
theory Derp
  imports ControlChannel NaClBox
begin

text \<open>
  \<open>ts::DerpClient\<close> (\<open>src/src/backend/tailscale/TSDerp.cpp\<close>): the framed relay connection.
  The TLS stream is a script of events as in theory \<open>TlsStream\<close>; a receive timeout only means
  that the relay is quiet, unless the stop flag is set (\<open>stop\<close> gives its value when the
  script has a given rest, i.e. at the time of the poll).  The buffer is its offset and the
  valid bytes; the random nonce of the client info is an argument.
\<close>

named_theorems derp_consts \<open>frame types and sizes\<close>

definition DERP_SERVER_KEY :: u8 where [derp_consts]: "DERP_SERVER_KEY = 0x01"
definition DERP_CLIENT_INFO :: u8 where [derp_consts]: "DERP_CLIENT_INFO = 0x02"
definition DERP_SEND_PACKET :: u8 where [derp_consts]: "DERP_SEND_PACKET = 0x04"
definition DERP_RECV_PACKET :: u8 where [derp_consts]: "DERP_RECV_PACKET = 0x05"
definition DERP_PING :: u8 where [derp_consts]: "DERP_PING = 0x12"
definition DERP_PONG :: u8 where [derp_consts]: "DERP_PONG = 0x13"

definition kDerpMagic :: bytes where "kDerpMagic = [0x44, 0x45, 0x52, 0x50, 0xF0, 0x9F, 0x94, 0x91]"
definition kDerpMagicLen :: nat where "kDerpMagicLen = 8"
definition kDerpKeyLen :: nat where "kDerpKeyLen = 32"
definition kDerpMaxFrame :: nat where "kDerpMaxFrame = 65535"
definition kDerpBuf :: nat where "kDerpBuf = 65536"

record derp_client =
  fDerpTls :: tls
  fServerKey :: bytes
  fNodePriv :: bytes
  fNodePub :: bytes
  fDerpOff :: nat
  fDerpLive :: bytes

definition DerpClient :: derp_client where
  "DerpClient = \<lparr> fDerpTls = \<lparr> rx = [], tx = [], wr = [] \<rparr>, fServerKey = replicate 32 0, fNodePriv = replicate 32 0,
     fNodePub = replicate 32 0, fDerpOff = 0, fDerpLive = [] \<rparr>"

subsection \<open>Reading\<close>

lemma tls_read_shorter: "tls_read evs n = (r, evs') \<Longrightarrow> length evs' \<le> length evs"
  by (cases "(evs, n)" rule: tls_read.cases) (auto split: if_splits)

lemma tls_read_timeout: "(TimedOut, evs') = tls_read evs n \<Longrightarrow> length evs' < length evs"
  by (cases "(evs, n)" rule: tls_read.cases) (auto split: if_splits)

lemma fill_progress:
  assumes "(Got xs, evs') = tls_read evs n" "xs \<noteq> []" "length lv < need"
  shows "need - (length lv + length xs) + length evs' < need + length evs - length lv"
proof -
  have "length evs' \<le> length evs" using tls_read_shorter assms(1) by metis
  moreover have "0 < length xs" using assms(2) by simp
  ultimately show ?thesis using assms(3) by linarith
qed

lemma quiet_progress:
  assumes "(TimedOut, evs') = tls_read evs n" "length lv < need"
  shows "need + length evs' - length lv < need + length evs - length lv"
  using tls_read_timeout [OF assms(1)] assms(2) by linarith

function derp_fill :: "(tls_event list \<Rightarrow> bool) \<Rightarrow> tls_event list \<Rightarrow> nat \<Rightarrow> bytes \<Rightarrow> nat \<Rightarrow> status \<times> tls_event list \<times> nat \<times> bytes" where
  "derp_fill stop evs off lv need =
     (if length lv < need then
        let off = (if off > 0 \<and> off + length lv + 4096 > kDerpBuf then 0 else off) in
        (case tls_read evs (kDerpBuf - (off + length lv)) of
           (TimedOut, evs') \<Rightarrow> if stop evs' then (B_CANCELED, evs', off, lv) else derp_fill stop evs' off lv need
         | (Got xs, evs') \<Rightarrow> if xs = [] then (B_IO_ERROR, evs', off, lv) else derp_fill stop evs' off (lv @ xs) need
         | (_, evs') \<Rightarrow> (B_IO_ERROR, evs', off, lv))
      else (B_OK, evs, off, lv))"
  by pat_completeness auto
termination
  by (relation "measure (\<lambda>(stop, evs, off, lv, need). (need - length lv) + length evs)")
    (auto intro: quiet_progress fill_progress)

declare derp_fill.simps [simp del]

definition DerpFill :: "(tls_event list \<Rightarrow> bool) \<Rightarrow> derp_client \<Rightarrow> nat \<Rightarrow> status \<times> derp_client" where
  "DerpFill stop d need =
     (if need > kDerpBuf then (B_BAD_VALUE, d)
      else case derp_fill stop (rx (fDerpTls d)) (fDerpOff d) (fDerpLive d) need of (st, evs, off, lv) \<Rightarrow>
        (st, d\<lparr> fDerpTls := (fDerpTls d)\<lparr> rx := evs \<rparr>, fDerpOff := off, fDerpLive := lv \<rparr>))"

definition DerpReadRaw :: "(tls_event list \<Rightarrow> bool) \<Rightarrow> derp_client \<Rightarrow> nat \<Rightarrow> status \<times> bytes \<times> derp_client" where
  "DerpReadRaw stop d n =
     (case DerpFill stop d n of (r, d) \<Rightarrow>
        if r \<noteq> B_OK then (r, [], d)
        else (B_OK, take n (fDerpLive d), d\<lparr> fDerpOff := fDerpOff d + n, fDerpLive := drop n (fDerpLive d) \<rparr>))"

definition DerpReadFrame :: "(tls_event list \<Rightarrow> bool) \<Rightarrow> derp_client \<Rightarrow> nat \<Rightarrow> (status + u8 \<times> bytes) \<times> derp_client" where
  "DerpReadFrame stop d cap =
     (case DerpReadRaw stop d 5 of (r, hdr, d) \<Rightarrow>
      if r \<noteq> B_OK then (Inl r, d)
      else let len = 16777216 * unat (hdr ! 1) + 65536 * unat (hdr ! 2) + 256 * unat (hdr ! 3) + unat (hdr ! 4) in
      if len > kDerpMaxFrame then (Inl B_ERROR, d)
      else if len > cap then (Inl B_BAD_VALUE, d)
      else if len > 0 then
        (case DerpReadRaw stop d len of (r, buf, d) \<Rightarrow>
           if r \<noteq> B_OK then (Inl r, d) else (Inr (hdr ! 0, buf), d))
      else (Inr (hdr ! 0, []), d))"

subsection \<open>Writing\<close>

definition derp_header :: "u8 \<Rightarrow> nat \<Rightarrow> bytes" where
  "derp_header ty len = [ty, of_nat (len div 16777216), of_nat (len div 65536), of_nat (len div 256), of_nat len]"

definition DerpWriteFrame :: "derp_client \<Rightarrow> u8 \<Rightarrow> bytes \<Rightarrow> status \<times> derp_client" where
  "DerpWriteFrame d ty payload =
     (case tls_write (fDerpTls d) (derp_header ty (length payload)) of (w, t) \<Rightarrow>
      if w \<noteq> Some 5 then (B_IO_ERROR, d\<lparr> fDerpTls := t \<rparr>)
      else case write_loop t payload of (st, t) \<Rightarrow> (st, d\<lparr> fDerpTls := t \<rparr>))"

subsection \<open>Connecting\<close>

function derp_upgrade_loop :: "tls_event list \<Rightarrow> bytes \<Rightarrow> bytes \<times> nat option \<times> tls_event list" where
  "derp_upgrade_loop evs tmp =
     (if length tmp < 4096 then
        (case tls_read evs (4096 - length tmp) of
           (Got xs, evs') \<Rightarrow>
             (case header_end (tmp @ xs) of Some h \<Rightarrow> (tmp @ xs, Some h, evs')
              | None \<Rightarrow> derp_upgrade_loop evs' (tmp @ xs))
         | (_, evs') \<Rightarrow> (tmp, None, evs'))
      else (tmp, None, evs))"
  by pat_completeness auto
termination
  by (relation "measure (\<lambda>(evs, tmp). 4096 - length tmp)") (auto intro: tls_read_progress)

declare derp_upgrade_loop.simps [simp del]

definition DerpReadUpgrade :: "derp_client \<Rightarrow> status \<times> derp_client" where
  "DerpReadUpgrade d =
     (case derp_upgrade_loop (rx (fDerpTls d)) [] of (tmp, headerEnd, evs) \<Rightarrow>
      let d = d\<lparr> fDerpTls := (fDerpTls d)\<lparr> rx := evs \<rparr> \<rparr> in
      case headerEnd of None \<Rightarrow> (B_ERROR, d)
      | Some h \<Rightarrow>
          if find_sub (map byte_of_chr '' 101 '') (take h tmp) = None then (B_ERROR, d)
          else let leftover = length tmp - h
               in (B_OK, if leftover > 0 then d\<lparr> fDerpLive := drop h tmp \<rparr> else d))"

definition derp_request :: "string \<Rightarrow> string" where
  "derp_request host =
     ''GET /derp HTTP/1.1'' @ crlf @ ''Host: '' @ host @ crlf @ ''Upgrade: DERP'' @ crlf @ ''Connection: Upgrade'' @ crlf
       @ ''User-Agent: Sotoportego/0.1'' @ crlf @ crlf"

definition infoJson :: string where
  "infoJson = [CHR 0x7B, CHR 0x22] @ ''version'' @ [CHR 0x22] @ '':2'' @ [CHR 0x7D]"

text \<open>\<open>conn\<close> is the outcome of the TLS connect; \<open>nonce\<close> the random bytes.\<close>

definition DerpConnect ::
  "openssl \<Rightarrow> (tls_event list \<Rightarrow> bool) \<Rightarrow> derp_client \<Rightarrow> status + tls \<Rightarrow> string \<Rightarrow> bytes \<Rightarrow> bytes \<Rightarrow> bytes \<Rightarrow> status \<times> derp_client" where
  "DerpConnect os stop d conn host nodePriv nodePub nonce =
     (let d = d\<lparr> fNodePriv := nodePriv, fNodePub := nodePub, fDerpOff := 0, fDerpLive := [] \<rparr> in
      case conn of Inl r \<Rightarrow> (r, d)
      | Inr t \<Rightarrow>
      case tls_write t (map byte_of_chr (derp_request host)) of (w, t) \<Rightarrow>
      let d = d\<lparr> fDerpTls := t \<rparr> in
      if w = None then (B_IO_ERROR, d)
      else case DerpReadUpgrade d of (r, d) \<Rightarrow>
      if r \<noteq> B_OK then (r, d)
      else case DerpReadFrame stop d kDerpMaxFrame of
        (Inl r, d) \<Rightarrow> (r, d)
      | (Inr (ty, payload), d) \<Rightarrow>
      if ty \<noteq> DERP_SERVER_KEY \<or> length payload < kDerpMagicLen + kDerpKeyLen \<or> take kDerpMagicLen payload \<noteq> kDerpMagic
      then (B_ERROR, d)
      else let d = d\<lparr> fServerKey := slice kDerpMagicLen 32 payload \<rparr> in
      case BoxSeal os (map byte_of_chr infoJson) nonce (fServerKey d) (fNodePriv d) of
        None \<Rightarrow> (B_ERROR, d)
      | Some box \<Rightarrow> DerpWriteFrame d DERP_CLIENT_INFO (fNodePub d @ nonce @ box))"

subsection \<open>Packets\<close>

definition SendPacket :: "derp_client \<Rightarrow> bytes \<Rightarrow> bytes \<Rightarrow> status \<times> derp_client" where
  "SendPacket d dstKey pkt =
     (if length pkt > 4096 then (B_BAD_VALUE, d)
      else DerpWriteFrame d DERP_SEND_PACKET (dstKey @ pkt))"

text \<open>The source key and the packet, 0 for a control frame, -1 for an error.\<close>

datatype derp_recv = Packet bytes bytes | Control | RecvError

definition RecvPacket :: "(tls_event list \<Rightarrow> bool) \<Rightarrow> derp_client \<Rightarrow> nat \<Rightarrow> derp_recv \<times> derp_client" where
  "RecvPacket stop d cap =
     (case DerpReadFrame stop d kDerpMaxFrame of
        (Inl r, d) \<Rightarrow> (RecvError, d)
      | (Inr (ty, payload), d) \<Rightarrow>
          if ty = DERP_RECV_PACKET then
            (if length payload < 32 then (RecvError, d)
             else if length payload - 32 > cap then (RecvError, d)
             else (Packet (take 32 payload) (drop 32 payload), d))
          else if ty = DERP_PING then (Control, snd (DerpWriteFrame d DERP_PONG payload))
          else (Control, d))"

subsection \<open>The incoming stream\<close>

text \<open>A script of data with quiet periods in between.\<close>

fun data_or_quiet :: "tls_event list \<Rightarrow> bool" where
  "data_or_quiet [] = True"
| "data_or_quiet (Data xs # evs) = (xs \<noteq> [] \<and> data_or_quiet evs)"
| "data_or_quiet (Timeout # evs) = data_or_quiet evs"
| "data_or_quiet (_ # evs) = False"

definition derp_stream :: "derp_client \<Rightarrow> bytes \<Rightarrow> bool" where
  "derp_stream d bs \<longleftrightarrow> data_or_quiet (rx (fDerpTls d)) \<and> fDerpLive d @ data_of (rx (fDerpTls d)) = bs
     \<and> fDerpOff d + length (fDerpLive d) \<le> kDerpBuf \<and> wr (fDerpTls d) = []"

definition running :: "(tls_event list \<Rightarrow> bool) \<Rightarrow> bool" where
  "running stop \<longleftrightarrow> (\<forall>e. \<not> stop e)"

lemma derp_fill_ok:
  assumes "data_or_quiet evs" "need \<le> length (lv @ data_of evs)" "need \<le> kDerpBuf" "off + length lv \<le> kDerpBuf" "running stop"
  shows "\<exists>evs' off' lv'. derp_fill stop evs off lv need = (B_OK, evs', off', lv') \<and> data_or_quiet evs'
     \<and> lv' @ data_of evs' = lv @ data_of evs \<and> need \<le> length lv' \<and> off' + length lv' \<le> kDerpBuf"
  using assms
proof (induction stop evs off lv need rule: derp_fill.induct)
  case (1 stop evs off lv need)
  show ?case
  proof (cases "length lv < need")
    case False
    then have "derp_fill stop evs off lv need = (B_OK, evs, off, lv)" by (subst derp_fill.simps) simp
    then show ?thesis using "1.prems"(1,4) False by auto
  next
    case True
    define o' where "o' = (if off > 0 \<and> off + length lv + 4096 > kDerpBuf then 0 else off)"
    define cap where "cap = kDerpBuf - (o' + length lv)"
    have room: "0 < cap" "o' + length lv \<le> kDerpBuf"
      using True "1.prems"(3,4) by (auto simp: o'_def cap_def)
    have ne: "data_of evs \<noteq> []" using True "1.prems"(2) by auto
    obtain e evs0 where e: "evs = e # evs0" "e = Timeout \<or> (\<exists>xs. e = Data xs \<and> xs \<noteq> [])"
      using ne "1.prems"(1) by (cases evs rule: data_or_quiet.cases) auto
    show ?thesis
    proof (cases "e = Timeout")
      case t: True
      then have r: "tls_read evs cap = (TimedOut, evs0)" using e(1) by simp
      have "derp_fill stop evs off lv need = derp_fill stop evs0 o' lv need"
        using True r "1.prems"(5) unfolding cap_def o'_def running_def by (subst derp_fill.simps) (simp add: Let_def)
      moreover have "\<not> stop evs0" using "1.prems"(5) by (simp add: running_def)
      ultimately show ?thesis
        using "1.IH"(2) [OF True o'_def r [unfolded cap_def, symmetric] refl] "1.prems" e(1) t room(2) by simp
    next
      case False
      then obtain xs where xs: "e = Data xs" "xs \<noteq> []" using e(2) by auto
      define ys where "ys = (if length xs \<le> cap then xs else take cap xs)"
      define evs1 where "evs1 = (if length xs \<le> cap then evs0 else Data (drop cap xs) # evs0)"
      have r: "tls_read evs cap = (Got ys, evs1)" using xs e(1) by (simp add: ys_def evs1_def)
      have ys: "ys \<noteq> []" "length ys \<le> cap" "ys @ data_of evs1 = data_of evs" "data_or_quiet evs1"
        using xs e(1) room(1) "1.prems"(1) by (auto simp: ys_def evs1_def)
      have "derp_fill stop evs off lv need = derp_fill stop evs1 o' (lv @ ys) need"
        using True r ys(1) unfolding cap_def o'_def by (subst derp_fill.simps) (simp add: Let_def)
      moreover have "o' + length (lv @ ys) \<le> kDerpBuf" using ys(2) room(2) unfolding cap_def by simp
      moreover have "need \<le> length ((lv @ ys) @ data_of evs1)" using "1.prems"(2) ys(3) by (metis append.assoc)
      ultimately show ?thesis
        using "1.IH"(1) [OF True o'_def r [unfolded cap_def, symmetric] refl ys(1)] "1.prems"(3,5) ys(3,4) by simp
    qed
  qed
qed

definition derp_frame :: "u8 \<times> bytes \<Rightarrow> bytes" where
  "derp_frame f = derp_header (fst f) (length (snd f)) @ snd f"

text \<open>What reading and writing leave alone.\<close>

definition derp_same :: "derp_client \<Rightarrow> derp_client \<Rightarrow> bool" where
  "derp_same d d' \<longleftrightarrow> fServerKey d' = fServerKey d \<and> fNodePriv d' = fNodePriv d \<and> fNodePub d' = fNodePub d"

lemma derp_same_refl [simp]: "derp_same d d"
  and derp_same_trans: "derp_same a b \<Longrightarrow> derp_same b c \<Longrightarrow> derp_same a c"
  by (simp_all add: derp_same_def)

lemma derp_raw_ok:
  assumes "derp_stream d (xs @ rest)" "length xs = n" "n \<le> 65535" "running stop"
  shows "\<exists>d'. DerpReadRaw stop d n = (B_OK, xs, d') \<and> derp_stream d' rest \<and> derp_same d d' \<and> tx (fDerpTls d') = tx (fDerpTls d)"
proof -
  let ?evs = "rx (fDerpTls d)"
  have s: "data_or_quiet ?evs" "fDerpLive d @ data_of ?evs = xs @ rest" "fDerpOff d + length (fDerpLive d) \<le> kDerpBuf" "wr (fDerpTls d) = []"
    using assms(1) by (auto simp: derp_stream_def)
  have n: "n \<le> length (fDerpLive d @ data_of ?evs)" "n \<le> kDerpBuf" using s(2) assms(2,3) by (simp_all add: kDerpBuf_def)
  obtain evs' off' lv' where f: "derp_fill stop ?evs (fDerpOff d) (fDerpLive d) n = (B_OK, evs', off', lv')" "data_or_quiet evs'"
    "lv' @ data_of evs' = xs @ rest" "n \<le> length lv'" "off' + length lv' \<le> kDerpBuf"
    using derp_fill_ok [OF s(1) n s(3) assms(4)] s(2) by auto
  let ?d = "d\<lparr> fDerpTls := (fDerpTls d)\<lparr> rx := evs' \<rparr>, fDerpOff := off' + n, fDerpLive := drop n lv' \<rparr>"
  have xs: "take n lv' = xs" "drop n lv' @ data_of evs' = rest"
    using arg_cong [OF f(3), of "take n"] arg_cong [OF f(3), of "drop n"] f(4) assms(2) by auto
  have "DerpReadRaw stop d n = (B_OK, xs, ?d)" using f(1) n(2) xs(1) by (simp add: DerpReadRaw_def DerpFill_def)
  moreover have "derp_stream ?d rest" using f(2,4,5) xs(2) s(4) by (simp add: derp_stream_def)
  ultimately show ?thesis by (auto simp: derp_same_def)
qed

lemma derp_frame_ok:
  assumes "derp_stream d (derp_frame f @ rest)" "length (snd f) \<le> 65535" "running stop"
  shows "\<exists>d'. DerpReadFrame stop d kDerpMaxFrame = (Inr f, d') \<and> derp_stream d' rest \<and> derp_same d d' \<and> tx (fDerpTls d') = tx (fDerpTls d)"
proof -
  let ?n = "length (snd f)"
  let ?hdr = "derp_header (fst f) ?n"
  have "derp_stream d (?hdr @ snd f @ rest)" using assms(1) by (simp add: derp_frame_def)
  then obtain d1 where d1: "DerpReadRaw stop d 5 = (B_OK, ?hdr, d1)" "derp_stream d1 (snd f @ rest)" "derp_same d d1" "tx (fDerpTls d1) = tx (fDerpTls d)"
    using derp_raw_ok [of d ?hdr "snd f @ rest" 5 stop] assms(3) by (auto simp: derp_header_def)
  obtain d2 where d2: "DerpReadRaw stop d1 ?n = (B_OK, snd f, d2)" "derp_stream d2 rest" "derp_same d1 d2" "tx (fDerpTls d2) = tx (fDerpTls d1)"
    using derp_raw_ok [OF d1(2) refl assms(2,3)] by blast
  have "?n div 16777216 = 0" "?n div 65536 = 0" "?n div 256 < 256" using assms(2) by (simp, simp, intro less_mult_imp_div_less) simp
  then have len: "16777216 * unat (?hdr ! 1) + 65536 * unat (?hdr ! 2) + 256 * unat (?hdr ! 3) + unat (?hdr ! 4) = ?n"
    by (simp add: derp_header_def unat_of_nat)
  have ty: "?hdr ! 0 = fst f" by (simp add: derp_header_def)
  show ?thesis
  proof (cases "snd f = []")
    case True
    then have "DerpReadFrame stop d kDerpMaxFrame = (Inr f, d1)"
      unfolding DerpReadFrame_def d1(1) prod.case Let_def len ty by (cases f) simp
    then show ?thesis using d1 True by auto
  next
    case False
    then have "DerpReadFrame stop d kDerpMaxFrame = (Inr f, d2)"
      unfolding DerpReadFrame_def d1(1) prod.case Let_def len ty d2(1) using assms(2) by (cases f) (simp add: kDerpMaxFrame_def)
    then show ?thesis using d1(3,4) d2 derp_same_trans by auto
  qed
qed

lemma derp_write_ok:
  assumes "derp_stream d bs"
  shows "\<exists>d'. DerpWriteFrame d ty payload = (B_OK, d') \<and> derp_stream d' bs \<and> derp_same d d'
     \<and> tx (fDerpTls d') = tx (fDerpTls d) @ derp_frame (ty, payload)"
proof -
  have w: "wr (fDerpTls d) = []" using assms by (simp add: derp_stream_def)
  let ?t = "(fDerpTls d)\<lparr> tx := tx (fDerpTls d) @ derp_header ty (length payload) \<rparr>"
  have "tls_write (fDerpTls d) (derp_header ty (length payload)) = (Some 5, ?t)" by (simp add: tls_write_def w derp_header_def)
  moreover have "write_loop ?t payload = (B_OK, ?t\<lparr> tx := tx ?t @ payload \<rparr>)" by (rule write_loop_accepting) (simp add: w)
  ultimately show ?thesis using assms by (simp add: DerpWriteFrame_def derp_stream_def derp_same_def derp_frame_def)
qed

subsection \<open>Receiving\<close>

text \<open>Calling \<open>RecvPacket\<close> \<open>n\<close> times.\<close>

fun recv_packets :: "(tls_event list \<Rightarrow> bool) \<Rightarrow> nat \<Rightarrow> derp_client \<Rightarrow> nat \<Rightarrow> derp_recv list \<times> derp_client" where
  "recv_packets stop 0 d cap = ([], d)"
| "recv_packets stop (Suc n) d cap =
     (case RecvPacket stop d cap of (r, d) \<Rightarrow> case recv_packets stop n d cap of (rs, d) \<Rightarrow> (r # rs, d))"

text \<open>Frames a relay may send, what they deliver, and the answers to pings.\<close>

definition relay_frame :: "nat \<Rightarrow> u8 \<times> bytes \<Rightarrow> bool" where
  "relay_frame cap f \<longleftrightarrow> length (snd f) \<le> 65535
     \<and> (fst f = DERP_RECV_PACKET \<longrightarrow> 32 \<le> length (snd f) \<and> length (snd f) - 32 \<le> cap)"

definition delivered :: "u8 \<times> bytes \<Rightarrow> derp_recv" where
  "delivered f = (if fst f = DERP_RECV_PACKET then Packet (take 32 (snd f)) (drop 32 (snd f)) else Control)"

definition pong_of :: "u8 \<times> bytes \<Rightarrow> bytes" where
  "pong_of f = (if fst f = DERP_PING then derp_frame (DERP_PONG, snd f) else [])"

lemma recv_one:
  assumes "derp_stream d (derp_frame f @ rest)" "relay_frame cap f" "running stop"
  shows "\<exists>d'. RecvPacket stop d cap = (delivered f, d') \<and> derp_stream d' rest \<and> tx (fDerpTls d') = tx (fDerpTls d) @ pong_of f"
proof -
  obtain d1 where d1: "DerpReadFrame stop d kDerpMaxFrame = (Inr f, d1)" "derp_stream d1 rest" "tx (fDerpTls d1) = tx (fDerpTls d)"
    using derp_frame_ok [OF assms(1) _ assms(3)] assms(2) by (auto simp: relay_frame_def)
  obtain d2 where d2: "DerpWriteFrame d1 DERP_PONG (snd f) = (B_OK, d2)" "derp_stream d2 rest"
    "tx (fDerpTls d2) = tx (fDerpTls d1) @ derp_frame (DERP_PONG, snd f)"
    using derp_write_ok [OF d1(2)] by blast
  have ne: "DERP_PING \<noteq> DERP_RECV_PACKET" by (simp add: derp_consts)
  obtain ty pl where f: "f = (ty, pl)" by (cases f)
  show ?thesis
    using d1 d2 assms(2) ne unfolding RecvPacket_def delivered_def pong_of_def f by (auto simp: relay_frame_def)
qed

lemma recv_all:
  assumes "derp_stream d (concat (map derp_frame fs) @ rest)" "\<forall>f\<in>set fs. relay_frame cap f" "running stop"
  shows "\<exists>d'. recv_packets stop (length fs) d cap = (map delivered fs, d') \<and> derp_stream d' rest
     \<and> tx (fDerpTls d') = tx (fDerpTls d) @ concat (map pong_of fs)"
  using assms(1,2)
proof (induction fs arbitrary: d)
  case (Cons f fs)
  obtain d1 where d1: "RecvPacket stop d cap = (delivered f, d1)" "derp_stream d1 (concat (map derp_frame fs) @ rest)"
    "tx (fDerpTls d1) = tx (fDerpTls d) @ pong_of f"
    using recv_one [of d f "concat (map derp_frame fs) @ rest" cap stop] Cons.prems assms(3) by auto
  then show ?case using Cons.IH [OF d1(2)] Cons.prems(2) by auto
qed simp

subsection \<open>The handshake\<close>

lemma data_or_quiet_append: "only_data a \<Longrightarrow> data_or_quiet b \<Longrightarrow> data_or_quiet (a @ b)"
  by (induction a rule: only_data.induct) simp_all

lemma tls_read_data_append:
  assumes "only_data evs" "data_of evs \<noteq> []" "0 < n"
  shows "\<exists>xs evs'. tls_read (evs @ evs2) n = (Got xs, evs' @ evs2) \<and> only_data evs' \<and> data_of evs = xs @ data_of evs'
     \<and> 0 < length xs \<and> length xs \<le> n"
proof -
  obtain xs evs' where r: "tls_read evs n = (Got xs, evs')" "only_data evs'" "data_of evs = xs @ data_of evs'" "0 < length xs" "length xs \<le> n"
    using tls_read_data [OF assms] by blast
  obtain ys evs0 where e: "evs = Data ys # evs0" using assms(1,2) by (cases evs rule: only_data.cases) auto
  have "tls_read (evs @ evs2) n = (Got xs, evs' @ evs2)" using r(1) e by (auto split: if_splits)
  then show ?thesis using r by blast
qed

lemma derp_upgrade_ok:
  assumes "http_head http" "only_data evs" "tmp @ data_of evs = http @ r1" "length tmp < length http" "length http \<le> 4096"
  shows "\<exists>tmp' evs'. derp_upgrade_loop (evs @ evs2) tmp = (tmp', Some (length http), evs' @ evs2) \<and> only_data evs'
     \<and> tmp' @ data_of evs' = http @ r1 \<and> length http \<le> length tmp' \<and> length tmp' \<le> 4096"
  using assms
proof (induction "length http - length tmp" arbitrary: evs tmp rule: less_induct)
  case less
  have lt: "length tmp < 4096" "0 < 4096 - length tmp" using less.prems(4,5) by simp_all
  have "data_of evs \<noteq> []" using less.prems(3,4) by (auto simp: append_eq_append_conv2)
  then obtain xs evs1 where r: "tls_read (evs @ evs2) (4096 - length tmp) = (Got xs, evs1 @ evs2)" "only_data evs1"
    "data_of evs = xs @ data_of evs1" "0 < length xs" "length xs \<le> 4096 - length tmp"
    using tls_read_data_append [OF less.prems(2) _ lt(2)] by blast
  have tot: "(tmp @ xs) @ data_of evs1 = http @ r1" using less.prems(3) r(3) by simp
  note he = http_head_prefix [OF less.prems(1) tot]
  have unf: "derp_upgrade_loop (evs @ evs2) tmp =
      (case header_end (tmp @ xs) of Some h \<Rightarrow> (tmp @ xs, Some h, evs1 @ evs2) | None \<Rightarrow> derp_upgrade_loop (evs1 @ evs2) (tmp @ xs))"
    using lt(1) r(1) by (subst derp_upgrade_loop.simps) simp
  show ?case
  proof (cases "length http \<le> length (tmp @ xs)")
    case True
    then have "derp_upgrade_loop (evs @ evs2) tmp = (tmp @ xs, Some (length http), evs1 @ evs2)" using unf he by simp
    moreover have "length (tmp @ xs) \<le> 4096" using r(5) lt(1) by simp
    ultimately show ?thesis using r(2) tot True by blast
  next
    case False
    then have "derp_upgrade_loop (evs @ evs2) tmp = derp_upgrade_loop (evs1 @ evs2) (tmp @ xs)" using unf he by simp
    moreover have "length http - length (tmp @ xs) < length http - length tmp" using r(4) less.prems(4) by (simp del: length_greater_0_conv)
    ultimately show ?thesis using less.hyps [OF _ less.prems(1) r(2) tot] False less.prems(5) by simp
  qed
qed

lemma DerpReadUpgrade_ok:
  assumes "http_head http" "find_sub (map byte_of_chr '' 101 '') http \<noteq> None" "length http \<le> 4096"
    and "rx (fDerpTls d) = evs @ evs2" "only_data evs" "data_or_quiet evs2" "data_of evs = http @ r1"
    and "fDerpOff d = 0" "fDerpLive d = []" "wr (fDerpTls d) = []"
  shows "\<exists>d'. DerpReadUpgrade d = (B_OK, d') \<and> derp_stream d' (r1 @ data_of evs2) \<and> derp_same d d' \<and> tx (fDerpTls d') = tx (fDerpTls d)"
proof -
  have "http \<noteq> []" using assms(1) by (auto simp: http_head_def header_end_def)
  then obtain tmp evs' where u: "derp_upgrade_loop (evs @ evs2) [] = (tmp, Some (length http), evs' @ evs2)" "only_data evs'"
    "tmp @ data_of evs' = http @ r1" "length http \<le> length tmp" "length tmp \<le> 4096"
    using derp_upgrade_ok [OF assms(1,5), of "[]" r1 evs2] assms(3,7) by auto
  have t: "take (length http) tmp = http" "drop (length http) tmp @ data_of evs' = r1"
    using arg_cong [OF u(3), of "take (length http)"] arg_cong [OF u(3), of "drop (length http)"] u(4) by auto
  let ?d = "d\<lparr> fDerpTls := (fDerpTls d)\<lparr> rx := evs' @ evs2 \<rparr>, fDerpLive := drop (length http) tmp \<rparr>"
  have "DerpReadUpgrade d = (B_OK, ?d)"
    unfolding DerpReadUpgrade_def assms(4) u(1) using t(1) assms(2,9) u(4) by (cases "length tmp = length http") (simp_all add: Let_def)
  moreover have "derp_stream ?d (r1 @ data_of evs2)"
    using t(2) u(2,5) assms(6,8,10) data_or_quiet_append by (auto simp: derp_stream_def kDerpBuf_def)
  ultimately show ?thesis by (auto simp: derp_same_def)
qed

text \<open>
  C29. Relay connection: against a DERP server that accepts the upgrade and sends its key,
  however the bytes are cut and with quiet periods behind the upgrade answer, \<open>Connect\<close>
  succeeds, the server can open the client info with its private key, and \<open>RecvPacket\<close> then
  delivers the relayed packets in order with their source keys, answering each ping with its
  own data, also for frames that arrived bundled with the upgrade answer.
\<close>

theorem derp_connect_relay:
  assumes "box_keypair os nodePriv nodePub" "box_keypair os srvPriv srvPub" "length nonce = 24" "running stop"
    and "wr t = []" "rx t = evs @ evs2" "only_data evs" "data_or_quiet evs2"
    and "http_head http" "find_sub (map byte_of_chr '' 101 '') http \<noteq> None" "length http \<le> 4096"
    and "data_of evs = http @ r1"
    and "r1 @ data_of evs2 = derp_frame (DERP_SERVER_KEY, kDerpMagic @ srvPub @ extra) @ concat (map derp_frame fs) @ rest"
    and "length extra \<le> 65495" "\<forall>f\<in>set fs. relay_frame cap f"
  shows "\<exists>d box d'. DerpConnect os stop d0 (Inr t) host nodePriv nodePub nonce = (B_OK, d) \<and> fServerKey d = srvPub
     \<and> tx (fDerpTls d) = tx t @ map byte_of_chr (derp_request host) @ derp_frame (DERP_CLIENT_INFO, nodePub @ nonce @ box)
     \<and> BoxOpen os box nonce nodePub srvPriv = Some (map byte_of_chr infoJson)
     \<and> recv_packets stop (length fs) d cap = (map delivered fs, d')
     \<and> tx (fDerpTls d') = tx (fDerpTls d) @ concat (map pong_of fs)"
proof -
  let ?req = "map byte_of_chr (derp_request host)"
  let ?key = "kDerpMagic @ srvPub @ extra"
  define t1 where "t1 = t\<lparr> tx := tx t @ ?req \<rparr>"
  have w: "tls_write t ?req = (Some (length ?req), t1)" by (simp add: tls_write_def assms(5) t1_def)
  define d1 where "d1 = d0\<lparr> fNodePriv := nodePriv, fNodePub := nodePub, fDerpOff := 0, fDerpLive := [], fDerpTls := t1 \<rparr>"
  have d1: "rx (fDerpTls d1) = evs @ evs2" "fDerpOff d1 = 0" "fDerpLive d1 = []" "wr (fDerpTls d1) = []" "tx (fDerpTls d1) = tx t @ ?req"
    "fNodePriv d1 = nodePriv" "fNodePub d1 = nodePub" using assms(5,6) by (simp_all add: d1_def t1_def)
  obtain d2 where d2: "DerpReadUpgrade d1 = (B_OK, d2)" "derp_stream d2 (r1 @ data_of evs2)" "derp_same d1 d2" "tx (fDerpTls d2) = tx t @ ?req"
    using DerpReadUpgrade_ok [OF assms(9-11) d1(1) assms(7,8,12) d1(2-4)] d1(5) by auto
  have len: "length kDerpMagic = 8" "length srvPub = 32" using nacl.public_len [OF assms(2)] by (simp_all add: kDerpMagic_def)
  have "length ?key \<le> 65535" using len assms(14) by simp
  then obtain d3 where d3: "DerpReadFrame stop d2 kDerpMaxFrame = (Inr (DERP_SERVER_KEY, ?key), d3)"
    "derp_stream d3 (concat (map derp_frame fs) @ rest)" "derp_same d2 d3" "tx (fDerpTls d3) = tx t @ ?req"
    using derp_frame_ok [of d2 "(DERP_SERVER_KEY, ?key)" "concat (map derp_frame fs) @ rest" stop] d2(2,4) assms(4,13) by auto
  define d4 where "d4 = d3\<lparr> fServerKey := srvPub \<rparr>"
  have d3': "fNodePriv d3 = nodePriv" "fNodePub d3 = nodePub" using d3(3) d2(3) d1(6,7) by (simp_all add: derp_same_def)
  have d4: "derp_stream d4 (concat (map derp_frame fs) @ rest)" "fNodePriv d4 = nodePriv" "fNodePub d4 = nodePub" "tx (fDerpTls d4) = tx t @ ?req"
    using d3(2-4) d2(3) d1(6,7) by (simp_all add: d4_def derp_stream_def derp_same_def)
  obtain box where box: "BoxSeal os (map byte_of_chr infoJson) nonce srvPub nodePriv = Some box" "BoxOpen os box nonce nodePub srvPriv = Some (map byte_of_chr infoJson)"
    using nacl.seal_total [OF assms(1,2)] nacl.opn_iff [OF assms(1,2)] by blast
  obtain d5 where d5: "DerpWriteFrame d4 DERP_CLIENT_INFO (nodePub @ nonce @ box) = (B_OK, d5)" "derp_stream d5 (concat (map derp_frame fs) @ rest)"
    "derp_same d4 d5" "tx (fDerpTls d5) = (tx t @ ?req) @ derp_frame (DERP_CLIENT_INFO, nodePub @ nonce @ box)"
    using derp_write_ok [OF d4(1)] d4(4) by metis
  have "slice 8 32 ?key = srvPub" "take 8 ?key = kDerpMagic" using len by (simp_all add: slice_simps)
  then have "DerpConnect os stop d0 (Inr t) host nodePriv nodePub nonce = (B_OK, d5)"
    using w d2(1) d3(1) d5(1) [unfolded d4_def] box(1) len d3'
    by (simp add: DerpConnect_def d1_def [symmetric] kDerpMagicLen_def kDerpKeyLen_def Let_def)
  moreover have "fServerKey d5 = srvPub" using d5(3) by (simp add: derp_same_def d4_def)
  ultimately show ?thesis using recv_all [OF d5(2) assms(15,4)] d5(4) box(2) by auto
qed

theorem derp_connect_relay_witness:
  "\<exists>d d'. DerpConnect toy_openssl (\<lambda>_. False) DerpClient
       (Inr \<lparr> rx = [Data (sample_upgrade @ derp_frame (DERP_SERVER_KEY, kDerpMagic @ replicate 32 2)), Timeout,
                    Data (derp_frame (DERP_PING, [1, 2, 3])), Data (derp_frame (DERP_RECV_PACKET, replicate 32 6 @ [7, 8, 9]))],
              tx = [], wr = [] \<rparr>) ''relay'' (replicate 32 1) (replicate 32 1) (replicate 24 3) = (B_OK, d)
     \<and> fServerKey d = replicate 32 2
     \<and> recv_packets (\<lambda>_. False) 2 d 1500 = ([Control, Packet (replicate 32 6) [7, 8, 9]], d')
     \<and> tx (fDerpTls d') = tx (fDerpTls d) @ derp_frame (DERP_PONG, [1, 2, 3])"
proof -
  let ?k = "derp_frame (DERP_SERVER_KEY, kDerpMagic @ replicate 32 2 @ [])"
  let ?fs = "[(DERP_PING, [1, 2, 3]), (DERP_RECV_PACKET, replicate 32 6 @ [7, 8, 9])] :: (u8 \<times> bytes) list"
  let ?e1 = "[Data (sample_upgrade @ ?k)]"
  let ?e2 = "[Timeout, Data (derp_frame (DERP_PING, [1, 2, 3])), Data (derp_frame (DERP_RECV_PACKET, replicate 32 6 @ [7, 8, 9]))]"
  let ?t = "\<lparr> rx = ?e1 @ ?e2, tx = [], wr = [] \<rparr>"
  have ne: "derp_frame f \<noteq> []" for f by (simp add: derp_frame_def derp_header_def)
  have k: "box_keypair toy_openssl (replicate 32 1) (replicate 32 1)" "box_keypair toy_openssl (replicate 32 2) (replicate 32 2)" by simp_all
  have r: "\<forall>f\<in>set ?fs. relay_frame 1500 f" by (simp add: relay_frame_def derp_consts)
  have d: "delivered (DERP_PING, [1, 2, 3]) = Control" "delivered (DERP_RECV_PACKET, replicate 32 6 @ [7, 8, 9]) = Packet (replicate 32 6) [7, 8, 9]"
    "pong_of (DERP_PING, [1, 2, 3]) = derp_frame (DERP_PONG, [1, 2, 3])" "pong_of (DERP_RECV_PACKET, replicate 32 6 @ [7, 8, 9]) = []"
    by (simp_all add: delivered_def pong_of_def derp_consts)
  have l: "length sample_upgrade \<le> 4096" using sample_head(3) by code_simp
  show ?thesis
    using derp_connect_relay [OF k _ _ _ _ _ _ sample_head(1,2) l, of "replicate 24 3" "\<lambda>_. False" ?t ?e1 ?e2 ?k "[]" ?fs "[]" 1500 DerpClient "''relay''"] ne r d
    by (auto simp: running_def numeral_2_eq_2)
qed

end
