(* ===== verification/Json.thy ===== *)
theory Json
  imports CLib "HOL-Library.Log_Nat"
begin

text \<open>
  The JSON parser, \<open>src/backend/tailscale/TSJson.cpp\<close>: the value tree with its accessors and the
  recursive-descent parser over the unread text.  Numbers are IEEE doubles: \<open>strtod\<close> computes the
  decimal value exactly and rounds it to 53 bits; casting back to an integer is undefined (\<open>None\<close>)
  when the value does not fit.  The mutually recursive functions carry fuel; \<open>json_parse_total\<close>
  shows that two units per character of input (plus one) are always enough, and
  \<open>json_parse_complete\<close> that every text of the JSON grammar is read as the value it denotes.
\<close>

subsection \<open>Doubles\<close>

datatype double = Fin rat | Inf bool

definition round_half_even :: "rat \<Rightarrow> int" where
  "round_half_even q =
     (let f = \<lfloor>q\<rfloor>; r = q - of_int f in
      if r < 1 / 2 then f else if r > 1 / 2 then f + 1 else if even f then f else f + 1)"

text \<open>The exponent of the last bit of the significand of \<open>q > 0\<close>.\<close>

definition double_exp :: "rat \<Rightarrow> int" where
  "double_exp q =
     (let (n, d) = quotient_of q; k = int (floorlog 2 (nat n)) - int (floorlog 2 (nat d))
      in max (- 1074) (if q \<ge> 2 powi k then k - 52 else k - 53))"

definition round_double :: "rat \<Rightarrow> double" where
  "round_double q =
     (if q = 0 then Fin 0
      else let e = double_exp \<bar>q\<bar>; m = round_half_even (\<bar>q\<bar> / 2 powi e)
           in if e > 971 \<or> (e = 971 \<and> m \<ge> 2 ^ 53) then Inf (q < 0) else Fin (sgn q * (of_int m * 2 powi e)))"

text \<open>
  \<open>strtod(s, NULL)\<close> for a text without white space: sign, digits, fraction, exponent; a text with
  no digit has the value 0, and an exponent needs a digit to count.
\<close>

definition scan_exponent :: "string \<Rightarrow> int" where
  "scan_exponent s =
     (case s of [] \<Rightarrow> 0 | c # cs \<Rightarrow>
        if c \<noteq> CHR ''e'' \<and> c \<noteq> CHR ''E'' then 0
        else let (neg, u) = scan_sign cs; v = int (dec_value (takeWhile isdigit u))
             in if neg then - v else v)"

definition scan_fraction :: "string \<Rightarrow> string \<times> string" where
  "scan_fraction s =
     (case s of [] \<Rightarrow> ([], s) | c # cs \<Rightarrow>
        if c = CHR ''.'' then (takeWhile isdigit cs, dropWhile isdigit cs) else ([], s))"

definition strtod :: "string \<Rightarrow> double" where
  "strtod s =
     (let (neg, u) = scan_sign s; ds = takeWhile isdigit u; (fs, u) = scan_fraction (dropWhile isdigit u)
      in if ds = [] \<and> fs = [] then Fin 0
         else let q = of_nat (dec_value (ds @ fs)) * 10 powi (scan_exponent u - int (length fs))
              in round_double (if neg then - q else q))"

text \<open>\<open>(int64)d\<close> and \<open>(int)d\<close>: truncation, undefined when the result does not fit.\<close>

definition cast_int :: "nat \<Rightarrow> double \<Rightarrow> int option" where
  "cast_int w d =
     (case d of Inf _ \<Rightarrow> None | Fin q \<Rightarrow>
        let t = (if q \<ge> 0 then \<lfloor>q\<rfloor> else \<lceil>q\<rceil>)
        in if - (2 ^ (w - 1)) \<le> t \<and> t < 2 ^ (w - 1) then Some t else None)"

subsection \<open>Values\<close>

datatype json =
    JSON_NULL
  | JSON_BOOL bool
  | JSON_NUMBER double
  | JSON_STRING string
  | JSON_ARRAY "json list"
  | JSON_OBJECT "(string \<times> json) list"

fun IsObject :: "json \<Rightarrow> bool" where "IsObject (JSON_OBJECT ms) = True" | "IsObject _ = False"
fun IsArray :: "json \<Rightarrow> bool" where "IsArray (JSON_ARRAY vs) = True" | "IsArray _ = False"
fun IsString :: "json \<Rightarrow> bool" where "IsString (JSON_STRING s) = True" | "IsString _ = False"

text \<open>\<open>objectValue[i].first == key\<close> compares C strings.\<close>

fun find_member :: "string \<Rightarrow> (string \<times> json) list \<Rightarrow> json option" where
  "find_member key [] = None"
| "find_member key ((k, v) # ms) = (if c_str k = c_str key then Some v else find_member key ms)"

fun Find :: "json \<Rightarrow> string \<Rightarrow> json option" where
  "Find (JSON_OBJECT ms) key = find_member key ms"
| "Find _ key = None"

fun AsString :: "json \<Rightarrow> string \<Rightarrow> string" where
  "AsString (JSON_STRING s) fallback = c_str s"
| "AsString _ fallback = fallback"

fun AsBool :: "json \<Rightarrow> bool \<Rightarrow> bool" where
  "AsBool (JSON_BOOL b) fallback = b"
| "AsBool _ fallback = fallback"

fun AsNumber :: "json \<Rightarrow> double \<Rightarrow> double" where
  "AsNumber (JSON_NUMBER d) fallback = d"
| "AsNumber _ fallback = fallback"

subsection \<open>Strings\<close>

definition is_ws :: "char \<Rightarrow> bool" where
  "is_ws c \<longleftrightarrow> c = CHR '' '' \<or> c = CHR 0x09 \<or> c = CHR 0x0A \<or> c = CHR 0x0D"

definition skip_ws :: "string \<Rightarrow> string" where
  "skip_ws s = dropWhile is_ws s"

definition append_utf8 :: "u32 \<Rightarrow> string" where
  "append_utf8 cp =
     map (\<lambda>w. chr_of_byte (ucast w))
       (if cp < 0x80 then [cp]
        else if cp < 0x800 then [0xC0 OR drop_bit 6 cp, 0x80 OR (cp AND 0x3F)]
        else [0xE0 OR drop_bit 12 cp, 0x80 OR (drop_bit 6 cp AND 0x3F), 0x80 OR (cp AND 0x3F)])"

definition hex_digit :: "char \<Rightarrow> nat option" where
  "hex_digit c =
     (if 48 \<le> code c \<and> code c \<le> 57 then Some (code c - 48)
      else if 97 \<le> code c \<and> code c \<le> 102 then Some (code c - 97 + 10)
      else if 65 \<le> code c \<and> code c \<le> 70 then Some (code c - 65 + 10)
      else None)"

fun hex_loop :: "nat \<Rightarrow> string \<Rightarrow> nat option" where
  "hex_loop v [] = Some v"
| "hex_loop v (c # cs) = (case hex_digit c of None \<Rightarrow> None | Some d \<Rightarrow> hex_loop (16 * v + d) cs)"

definition hex4 :: "string \<Rightarrow> nat option" where
  "hex4 p = hex_loop 0 (take 4 p)"

definition surrogate_utf8 :: "nat \<Rightarrow> nat \<Rightarrow> string" where
  "surrogate_utf8 cp lo =
     (let full = 0x10000 + push_bit 10 (of_nat (cp - 0xD800)) + of_nat (lo - 0xDC00) :: u32 in
      if full < 0x10000 then append_utf8 full
      else map (\<lambda>w. chr_of_byte (ucast w))
             [0xF0 OR drop_bit 18 full, 0x80 OR (drop_bit 12 full AND 0x3F),
              0x80 OR (drop_bit 6 full AND 0x3F), 0x80 OR (full AND 0x3F)])"

text \<open>The text of \<open>\u....\<close> behind the \<open>u\<close>, and the number of characters it takes.\<close>

definition unicode_escape :: "string \<Rightarrow> (string \<times> nat) option" where
  "unicode_escape p =
     (if length p < 4 then None
      else case hex4 p of None \<Rightarrow> None
      | Some cp \<Rightarrow>
          (case (if 0xD800 \<le> cp \<and> cp \<le> 0xDBFF \<and> length p - 4 \<ge> 6 \<and> p ! 4 = CHR 0x5C \<and> p ! 5 = CHR ''u''
                 then hex4 (drop 6 p) else None) of
             Some lo \<Rightarrow> if 0xDC00 \<le> lo \<and> lo \<le> 0xDFFF then Some (surrogate_utf8 cp lo, 10)
                        else Some (append_utf8 (of_nat cp), 4)
           | None \<Rightarrow> Some (append_utf8 (of_nat cp), 4)))"

definition simple_escape :: "char \<Rightarrow> char option" where
  "simple_escape c =
     (if c = CHR 0x22 then Some (CHR 0x22) else if c = CHR 0x5C then Some (CHR 0x5C)
      else if c = CHR ''/'' then Some (CHR ''/'') else if c = CHR ''b'' then Some (CHR 0x08)
      else if c = CHR ''f'' then Some (CHR 0x0C) else if c = CHR ''n'' then Some (CHR 0x0A)
      else if c = CHR ''r'' then Some (CHR 0x0D) else if c = CHR ''t'' then Some (CHR 0x09)
      else None)"

function string_loop :: "string \<Rightarrow> string \<Rightarrow> (string \<times> string) option" where
  "string_loop out [] = None"
| "string_loop out (ch # p) =
     (if ch = CHR 0x22 then Some (out, p)
      else if ch = CHR 0x5C then
        (case p of [] \<Rightarrow> None
         | esc # p' \<Rightarrow>
             if esc = CHR ''u'' then
               (case unicode_escape p' of None \<Rightarrow> None
                | Some (t, n) \<Rightarrow> string_loop (out @ t) (drop n p'))
             else (case simple_escape esc of None \<Rightarrow> None | Some x \<Rightarrow> string_loop (out @ [x]) p'))
      else string_loop (out @ [ch]) p)"
  by pat_completeness auto
termination
  by (relation "measure (\<lambda>(out, p). length p)") auto

definition parse_string :: "string \<Rightarrow> (string \<times> string) option" where
  "parse_string p =
     (case p of [] \<Rightarrow> None | c # p' \<Rightarrow> if c \<noteq> CHR 0x22 then None else string_loop [] p')"

subsection \<open>The parser\<close>

definition number_char :: "char \<Rightarrow> bool" where
  "number_char c \<longleftrightarrow> isdigit c \<or> c = CHR ''-'' \<or> c = CHR ''+'' \<or> c = CHR ''.'' \<or> c = CHR ''e'' \<or> c = CHR ''E''"

text \<open>The outcome of a parsing function: out of fuel, a syntax error, or a value and the unread text.\<close>

datatype outcome = Fuel | Fail | Done json string

definition parse_number :: "string \<Rightarrow> outcome" where
  "parse_number p =
     (let tmp = takeWhile number_char p
      in if tmp = [] then Fail else Done (JSON_NUMBER (strtod tmp)) (dropWhile number_char p))"

definition parse_literal :: "string \<Rightarrow> json \<Rightarrow> string \<Rightarrow> outcome" where
  "parse_literal word v p =
     (if length p \<ge> length word \<and> take (length word) p = word then Done v (drop (length word) p) else Fail)"

fun parse_value :: "nat \<Rightarrow> string \<Rightarrow> outcome"
and object_loop :: "nat \<Rightarrow> (string \<times> json) list \<Rightarrow> string \<Rightarrow> outcome"
and array_loop :: "nat \<Rightarrow> json list \<Rightarrow> string \<Rightarrow> outcome" where
  "parse_value 0 p = Fuel"
| "parse_value (Suc n) p =
     (case skip_ws p of [] \<Rightarrow> Fail
      | ch # cs \<Rightarrow>
          if ch = CHR ''{'' then
            (case skip_ws cs of [] \<Rightarrow> object_loop n [] []
             | c # cs' \<Rightarrow> if c = CHR ''}'' then Done (JSON_OBJECT []) cs' else object_loop n [] (c # cs'))
          else if ch = CHR ''['' then
            (case skip_ws cs of [] \<Rightarrow> array_loop n [] []
             | c # cs' \<Rightarrow> if c = CHR '']'' then Done (JSON_ARRAY []) cs' else array_loop n [] (c # cs'))
          else if ch = CHR 0x22 then
            (case parse_string (ch # cs) of None \<Rightarrow> Fail | Some (s, r) \<Rightarrow> Done (JSON_STRING s) r)
          else if ch = CHR ''t'' then parse_literal ''true'' (JSON_BOOL True) (ch # cs)
          else if ch = CHR ''f'' then parse_literal ''false'' (JSON_BOOL False) (ch # cs)
          else if ch = CHR ''n'' then parse_literal ''null'' JSON_NULL (ch # cs)
          else parse_number (ch # cs))"
| "object_loop 0 ms p = Fuel"
| "object_loop (Suc n) ms p =
     (case parse_string (skip_ws p) of None \<Rightarrow> Fail
      | Some (key, p) \<Rightarrow>
          (case skip_ws p of [] \<Rightarrow> Fail
           | c # p \<Rightarrow>
               if c \<noteq> CHR '':'' then Fail
               else case parse_value n (skip_ws p) of Fuel \<Rightarrow> Fuel | Fail \<Rightarrow> Fail
               | Done v p \<Rightarrow>
                   let ms = (if list_ex (\<lambda>m. c_str (fst m) = c_str key) ms then ms else ms @ [(key, v)]) in
                   case skip_ws p of [] \<Rightarrow> Fail
                   | c # p \<Rightarrow>
                       if c = CHR '','' then object_loop n ms p
                       else if c = CHR ''}'' then Done (JSON_OBJECT ms) p
                       else Fail))"
| "array_loop 0 vs p = Fuel"
| "array_loop (Suc n) vs p =
     (case parse_value n (skip_ws p) of Fuel \<Rightarrow> Fuel | Fail \<Rightarrow> Fail
      | Done v p \<Rightarrow>
          (case skip_ws p of [] \<Rightarrow> Fail
           | c # p \<Rightarrow>
               if c = CHR '','' then array_loop n (vs @ [v]) p
               else if c = CHR '']'' then Done (JSON_ARRAY (vs @ [v])) p
               else Fail))"

definition JsonParse :: "string \<Rightarrow> json option" where
  "JsonParse text =
     (case parse_value (Suc (2 * length text)) text of Done v _ \<Rightarrow> Some v | _ \<Rightarrow> None)"

subsection \<open>Totality\<close>

lemma skip_ws_le: "length (skip_ws p) \<le> length p"
  by (simp add: skip_ws_def length_dropWhile_le)

lemma skip_ws_Cons: "skip_ws p = c # r \<Longrightarrow> length r < length p"
  using skip_ws_le [of p] by simp

lemma string_loop_shorter: "string_loop out p = Some (s, r) \<Longrightarrow> length r < length p"
proof (induction out p rule: string_loop.induct)
  case (2 out ch p)
  show ?case
  proof (cases p)
    case Nil
    then show ?thesis using 2 by (auto split: if_splits)
  next
    case (Cons esc p')
    then show ?thesis using 2 by (fastforce split: if_splits option.splits)
  qed
qed simp

lemma parse_string_shorter: "parse_string p = Some (s, r) \<Longrightarrow> length r < length p"
  by (auto simp: parse_string_def split: list.splits if_splits dest: string_loop_shorter)

lemma parse_literal_shorter: "parse_literal w v p = Done v' r \<Longrightarrow> w \<noteq> [] \<Longrightarrow> length r < length p"
  by (cases w) (auto simp: parse_literal_def split: if_splits)

lemma parse_literal_total: "parse_literal w v p \<noteq> Fuel"
  by (simp add: parse_literal_def)

lemma parse_number_total: "parse_number p \<noteq> Fuel"
  by (simp add: parse_number_def Let_def)

lemma parse_number_shorter: "parse_number p = Done v r \<Longrightarrow> length r < length p"
proof -
  assume "parse_number p = Done v r"
  then have "takeWhile number_char p \<noteq> []" "r = dropWhile number_char p"
    by (auto simp: parse_number_def Let_def split: if_splits)
  then show ?thesis
    using takeWhile_dropWhile_id [of number_char p] by (metis length_append less_add_same_cancel2 length_greater_0_conv)
qed

definition finishes :: "outcome \<Rightarrow> string \<Rightarrow> bool" where
  "finishes x p \<longleftrightarrow> x \<noteq> Fuel \<and> (\<forall>v r. x = Done v r \<longrightarrow> length r < length p)"

lemma finishes_simps [simp]:
  "\<not> finishes Fuel p" "finishes Fail p" "finishes (Done v r) p \<longleftrightarrow> length r < length p"
  by (auto simp: finishes_def)

lemma finishes_mono: "finishes x p \<Longrightarrow> length p \<le> length q \<Longrightarrow> finishes x q"
  by (cases x) auto

lemma leaf_finishes:
  "w \<noteq> [] \<Longrightarrow> finishes (parse_literal w v p) p" "finishes (parse_number p) p"
  by (auto simp: finishes_def parse_literal_total parse_number_total
      dest: parse_literal_shorter parse_number_shorter)

lemma parse_finishes:
  "(\<forall>p. 2 * length p < n \<longrightarrow> finishes (parse_value n p) p)
   \<and> (\<forall>ms p. 2 * length p + 1 < n \<longrightarrow> finishes (object_loop n ms p) p)
   \<and> (\<forall>vs p. 2 * length p + 1 < n \<longrightarrow> finishes (array_loop n vs p) p)"
proof (induction n)
  case (Suc n)
  then have val: "\<And>p. 2 * length p < n \<Longrightarrow> finishes (parse_value n p) p"
    and obj: "\<And>ms p. 2 * length p + 1 < n \<Longrightarrow> finishes (object_loop n ms p) p"
    and arr: "\<And>vs p. 2 * length p + 1 < n \<Longrightarrow> finishes (array_loop n vs p) p"
    by auto
  have v: "finishes (parse_value (Suc n) p) p" if p: "2 * length p < Suc n" for p
  proof (cases "skip_ws p")
    case (Cons ch cs)
    then have len: "length (ch # cs) \<le> length p" using skip_ws_le [of p] by simp
    have o: "finishes (object_loop n [] q) p" "finishes (array_loop n [] q) p"
      if "length q \<le> length cs" for q
      using that p len by (auto intro: finishes_mono [OF obj] finishes_mono [OF arr])
    have k: "length (skip_ws cs) \<le> length cs" by (rule skip_ws_le)
    have s: "finishes (case parse_string (c # cs) of None \<Rightarrow> Fail | Some (s, r) \<Rightarrow> Done (JSON_STRING s) r) p" for c
      using parse_string_shorter [of "c # cs"] len by (fastforce split: option.splits)
    have l: "finishes (parse_literal w x (c # cs)) p" if "w \<noteq> []" for w x c
      using leaf_finishes(1) [OF that, of x "c # cs"] len by (auto intro: finishes_mono)
    have u: "finishes (parse_number (c # cs)) p" for c
      using leaf_finishes(2) [of "c # cs"] len by (auto intro: finishes_mono)
    show ?thesis
    proof (cases "skip_ws cs")
      case Nil
      then show ?thesis by (simp add: Cons o l u s)
    next
      case (Cons c cs')
      have "length (c # cs') \<le> length cs" "length cs' < length p" using k len Cons by simp_all
      then show ?thesis by (simp add: \<open>skip_ws p = ch # cs\<close> Cons o l u s)
    qed
  qed simp
  have rest: "length t' < length p \<and> finishes (object_loop n ms' t') p \<and> finishes (array_loop n vs' t') p"
    if "skip_ws t = c' # t'" "length t < length q" "length q \<le> length p" "2 * length p + 1 < Suc n" for t c' t' q p ms' vs'
    using finishes_mono [OF obj [of t' ms'], of p] finishes_mono [OF arr [of t' vs'], of p] skip_ws_Cons [OF that(1)] that
    by simp
  have w: "finishes (object_loop (Suc n) ms p) p" if p: "2 * length p + 1 < Suc n" for ms p
  proof (cases "parse_string (skip_ws p)")
    case (Some kr)
    obtain key r where kr: "kr = (key, r)" by force
    then have r: "length r < length p"
      using Some parse_string_shorter [of "skip_ws p" key r] skip_ws_le [of p] by simp
    show ?thesis
    proof (cases "skip_ws r")
      case (Cons c q)
      have q: "2 * length (skip_ws q) < n" "length (skip_ws q) \<le> length p"
        using r p skip_ws_Cons [OF Cons] skip_ws_le [of q] by simp_all
      show ?thesis
      proof (cases "parse_value n (skip_ws q)")
        case (Done v t)
        then show ?thesis using val [OF q(1)] rest [OF _ _ q(2) p] Some kr Cons
          by (auto simp: Let_def split: list.splits)
      qed (use Some kr Cons val [OF q(1)] in auto)
    qed (use Some kr in simp)
  qed simp
  have a: "finishes (array_loop (Suc n) vs p) p" if p: "2 * length p + 1 < Suc n" for vs p
  proof -
    have q: "2 * length (skip_ws p) < n" "length (skip_ws p) \<le> length p"
      using p skip_ws_le [of p] by simp_all
    show ?thesis
    proof (cases "parse_value n (skip_ws p)")
      case (Done v t)
      then show ?thesis using val [OF q(1)] rest [OF _ _ q(2) p] by (auto split: list.splits)
    qed (use val [OF q(1)] in auto)
  qed
  from v w a show ?case by blast
qed simp

subsection \<open>The grammar\<close>

definition utf8 :: "nat \<Rightarrow> string" where
  "utf8 n = map char_of
     (if n < 0x80 then [n]
      else if n < 0x800 then [0xC0 + n div 64, 0x80 + n mod 64]
      else if n < 0x10000 then [0xE0 + n div 4096, 0x80 + n div 64 mod 64, 0x80 + n mod 64]
      else [0xF0 + n div 262144, 0x80 + n div 4096 mod 64, 0x80 + n div 64 mod 64, 0x80 + n mod 64])"

definition escapes :: "(char \<times> char) list" where
  "escapes = [(CHR 0x22, CHR 0x22), (CHR 0x5C, CHR 0x5C), (CHR ''/'', CHR ''/''), (CHR ''b'', CHR 0x08),
     (CHR ''f'', CHR 0x0C), (CHR ''n'', CHR 0x0A), (CHR ''r'', CHR 0x0D), (CHR ''t'', CHR 0x09)]"

definition hex_value :: "char \<Rightarrow> nat \<Rightarrow> bool" where
  "hex_value c d \<longleftrightarrow> d < 16 \<and> (c = ''0123456789abcdef'' ! d \<or> c = ''0123456789ABCDEF'' ! d)"

definition hex_text :: "string \<Rightarrow> nat \<Rightarrow> bool" where
  "hex_text h n \<longleftrightarrow> (\<exists>a b c d x y z u. h = [a, b, c, d] \<and> hex_value a x \<and> hex_value b y \<and> hex_value c z \<and> hex_value d u
     \<and> n = 4096 * x + 256 * y + 16 * z + u)"

text \<open>\<open>str_text d e\<close>: the characters \<open>e\<close> between the quotes denote the (UTF-8) text \<open>d\<close>.\<close>

inductive str_text :: "string \<Rightarrow> string \<Rightarrow> bool" where
  str_nil: "str_text [] []"
| str_plain: "str_text (c # d) (c # e)" if "c \<noteq> CHR 0x22" "c \<noteq> CHR 0x5C" "str_text d e"
| str_escape: "str_text (x # d) (CHR 0x5C # k # e)" if "(k, x) \<in> set escapes" "str_text d e"
| str_bmp: "str_text (utf8 cp @ d) ([CHR 0x5C, CHR ''u''] @ h @ e)"
    if "hex_text h cp" "\<not> (0xD800 \<le> cp \<and> cp \<le> 0xDFFF)" "str_text d e"
| str_pair: "str_text (utf8 (0x10000 + 1024 * (hi - 0xD800) + (lo - 0xDC00)) @ d)
      ([CHR 0x5C, CHR ''u''] @ h @ [CHR 0x5C, CHR ''u''] @ h' @ e)"
    if "hex_text h hi" "0xD800 \<le> hi" "hi \<le> 0xDBFF" "hex_text h' lo" "0xDC00 \<le> lo" "lo \<le> 0xDFFF" "str_text d e"

definition exp_text :: "int \<Rightarrow> string \<Rightarrow> bool" where
  "exp_text x t \<longleftrightarrow> (t = [] \<and> x = 0)
     \<or> (\<exists>c sg es. (c = CHR ''e'' \<or> c = CHR ''E'') \<and> sg \<in> {[], ''+'', ''-''} \<and> es \<noteq> [] \<and> list_all isdigit es
          \<and> t = c # sg @ es \<and> x = (if sg = ''-'' then - int (dec_value es) else int (dec_value es)))"

definition number_text :: "rat \<Rightarrow> string \<Rightarrow> bool" where
  "number_text q t \<longleftrightarrow> (\<exists>neg ds fs x et. ds \<noteq> [] \<and> list_all isdigit ds \<and> list_all isdigit fs \<and> exp_text x et
     \<and> t = (if neg then ''-'' else []) @ ds @ (if fs = [] then [] else CHR ''.'' # fs) @ et
     \<and> q = (if neg then - 1 else 1) * (of_nat (dec_value ds) + of_nat (dec_value fs) / 10 ^ length fs) * 10 powi x)"

definition ws :: "string \<Rightarrow> bool" where
  "ws w \<longleftrightarrow> list_all is_ws w"

text \<open>The members an object keeps: the first of every name.  Names end at a NUL character.\<close>

fun first_members :: "(string \<times> 'a) list \<Rightarrow> (string \<times> 'a) list" where
  "first_members [] = []"
| "first_members (m # ms) = m # filter (\<lambda>x. c_str (fst x) \<noteq> c_str (fst m)) (first_members ms)"

inductive json_text :: "json \<Rightarrow> string \<Rightarrow> bool"
  and elems_text :: "json list \<Rightarrow> string \<Rightarrow> bool"
  and members_text :: "(string \<times> json) list \<Rightarrow> string \<Rightarrow> bool" where
  text_null: "json_text JSON_NULL ''null''"
| text_true: "json_text (JSON_BOOL True) ''true''"
| text_false: "json_text (JSON_BOOL False) ''false''"
| text_number: "json_text (JSON_NUMBER (round_double q)) t" if "number_text q t"
| text_string: "json_text (JSON_STRING d) ([CHR 0x22] @ e @ [CHR 0x22])" if "str_text d e"
| text_array0: "json_text (JSON_ARRAY []) (''['' @ w @ '']'')" if "ws w"
| text_array: "json_text (JSON_ARRAY vs) (''['' @ e @ '']'')" if "elems_text vs e"
| text_object0: "json_text (JSON_OBJECT []) (''{'' @ w @ ''}'')" if "ws w"
| text_object: "json_text (JSON_OBJECT (first_members ms)) (''{'' @ e @ ''}'')" if "members_text ms e"
| elems_one: "elems_text [v] (w1 @ s @ w2)" if "ws w1" "json_text v s" "ws w2"
| elems_more: "elems_text (v # vs) (w1 @ s @ w2 @ '','' @ e)" if "ws w1" "json_text v s" "ws w2" "elems_text vs e"
| members_one: "members_text [(k, v)] (w1 @ [CHR 0x22] @ ke @ [CHR 0x22] @ w2 @ '':'' @ w3 @ s @ w4)"
    if "ws w1" "str_text k ke" "ws w2" "ws w3" "json_text v s" "ws w4"
| members_more: "members_text ((k, v) # ms) (w1 @ [CHR 0x22] @ ke @ [CHR 0x22] @ w2 @ '':'' @ w3 @ s @ w4 @ '','' @ e)"
    if "ws w1" "str_text k ke" "ws w2" "ws w3" "json_text v s" "ws w4" "members_text ms e"

subsection \<open>Strings are read back\<close>

lemma chr_of_byte_nat: "chr_of_byte (ucast (of_nat n :: u32)) = char_of n"
proof -
  have "unat (ucast (of_nat n :: u32) :: u8) = n mod 256"
    by (simp add: unat_ucast_u8 unat_of_nat mod_mod_cancel)
  then show ?thesis by (simp add: chr_of_byte_def)
qed

lemma or_tag: "(of_nat t OR of_nat n :: u32) = of_nat (t + n)" if "n < 2 ^ k" "t mod 2 ^ k = 0"
proof -
  have "t AND n = 0"
  proof (rule bit_eqI)
    fix i
    have "\<not> bit t i" if "i < k"
      using \<open>t mod 2 ^ k = 0\<close> that by (metis take_bit_eq_mod bit_take_bit_iff bit_0_eq bot_apply bot_bool_def)
    moreover have "\<not> bit n i" if "k \<le> i"
      using \<open>n < 2 ^ k\<close> that by (metis bit_take_bit_iff leD take_bit_nat_eq_self_iff)
    ultimately show "bit (t AND n) i \<longleftrightarrow> bit (0 :: nat) i" by (cases "i < k") (auto simp: bit_simps not_less)
  qed
  then have "t + n = t OR n" by (rule disjunctive_add_eq_or)
  then show ?thesis by (simp only: of_nat_or_eq)
qed

lemma drop_bit_of_nat: "n < 2 ^ 32 \<Longrightarrow> drop_bit k (of_nat n :: u32) = of_nat (n div 2 ^ k)"
  by (rule unat_inj) (simp add: unat_drop_bit_div unat_of_nat less_imp_le order_le_less_trans [OF div_le_dividend])

lemma and_63_of_nat: "(of_nat n :: u32) AND 0x3F = of_nat (n mod 64)"
proof -
  have "(0x3F :: u32) = mask 6" by (simp add: mask_eq_exp_minus_1)
  then have "(of_nat n :: u32) AND 0x3F = take_bit 6 (of_nat n)" by (simp add: take_bit_eq_mask)
  then show ?thesis by (simp only: take_bit_of_nat) (simp add: take_bit_eq_mod)
qed

text \<open>The head bytes and the continuation bytes of UTF-8.\<close>

lemma utf8_tags:
  "n < 64 \<Longrightarrow> (0x80 OR of_nat n :: u32) = of_nat (0x80 + n)"
  "n < 32 \<Longrightarrow> (0xC0 OR of_nat n :: u32) = of_nat (0xC0 + n)"
  "n < 16 \<Longrightarrow> (0xE0 OR of_nat n :: u32) = of_nat (0xE0 + n)"
  "n < 8 \<Longrightarrow> (0xF0 OR of_nat n :: u32) = of_nat (0xF0 + n)"
  using or_tag [of n 6 "0x80"] or_tag [of n 5 "0xC0"] or_tag [of n 4 "0xE0"] or_tag [of n 3 "0xF0"] by simp_all

lemma of_nat_less_u32: "n < 2 ^ 32 \<Longrightarrow> m < 2 ^ 32 \<Longrightarrow> (of_nat n :: u32) < of_nat m \<longleftrightarrow> n < m"
  by (simp add: word_less_nat_alt unat_of_nat)

lemma append_utf8_spec: "append_utf8 (of_nat n) = utf8 n" if n: "n < 0x10000"
proof -
  have "(of_nat n :: u32) < 0x80 \<longleftrightarrow> n < 0x80" "(of_nat n :: u32) < 0x800 \<longleftrightarrow> n < 0x800"
    using of_nat_less_u32 [of n "0x80"] of_nat_less_u32 [of n "0x800"] n by simp_all
  then show ?thesis
    using n by (simp add: append_utf8_def utf8_def drop_bit_of_nat and_63_of_nat utf8_tags chr_of_byte_nat
        less_mult_imp_div_less del: of_nat_add of_nat_numeral)
qed

lemma surrogate_utf8_spec:
  assumes "0xD800 \<le> hi" "hi \<le> 0xDBFF" "0xDC00 \<le> lo" "lo \<le> 0xDFFF"
  shows "surrogate_utf8 hi lo = utf8 (0x10000 + 1024 * (hi - 0xD800) + (lo - 0xDC00))"
proof -
  define n where "n = 0x10000 + 1024 * (hi - 0xD800) + (lo - 0xDC00)"
  have n: "0x10000 \<le> n" "n < 0x110000" using assms by (auto simp: n_def)
  have "(0x10000 + push_bit 10 (of_nat (hi - 0xD800)) + of_nat (lo - 0xDC00) :: u32) = of_nat n"
    by (simp add: n_def push_bit_eq_mult)
  moreover have "\<not> (of_nat n :: u32) < 0x10000" using of_nat_less_u32 [of n "0x10000"] n by simp
  ultimately show ?thesis
    unfolding surrogate_utf8_def n_def [symmetric] using n
    by (simp add: utf8_def drop_bit_of_nat and_63_of_nat utf8_tags chr_of_byte_nat
        less_mult_imp_div_less del: of_nat_add of_nat_numeral)
qed

lemma hex_value_digit: "hex_value c d \<Longrightarrow> hex_digit c = Some d \<and> d < 16"
proof -
  have "list_all (\<lambda>d. hex_digit (''0123456789abcdef'' ! d) = Some d \<and> hex_digit (''0123456789ABCDEF'' ! d) = Some d) [0..<16]"
    by code_simp
  then show "hex_value c d \<Longrightarrow> ?thesis" by (auto simp: list_all_iff hex_value_def)
qed

lemma hex4_text: "hex_text h n \<Longrightarrow> length h = 4 \<and> hex4 (h @ r) = Some n \<and> n < 0x10000"
  by (auto simp: hex_text_def hex4_def dest!: hex_value_digit)

lemma escapes_simple: "(k, x) \<in> set escapes \<Longrightarrow> simple_escape k = Some x \<and> k \<noteq> CHR ''u''"
  by (auto simp: escapes_def simple_escape_def)

lemma string_loop_text: "str_text d e \<Longrightarrow> string_loop out (e @ CHR 0x22 # r) = Some (out @ d, r)"
proof (induction arbitrary: out rule: str_text.induct)
  case (str_escape k x d e)
  then show ?case using escapes_simple [of k x] by simp
next
  case (str_bmp h cp d e)
  let ?p = "h @ e @ CHR 0x22 # r"
  have h: "length h = 4" "hex4 ?p = Some cp" "cp < 0x10000" using hex4_text [OF str_bmp(1)] by auto
  then have "unicode_escape ?p = Some (utf8 cp, 4)"
    using str_bmp(2) by (auto simp: unicode_escape_def append_utf8_spec split: option.splits)
  then show ?case using str_bmp.IH h(1) by simp
next
  case (str_pair h hi h' lo d e)
  let ?p = "h @ CHR 0x5C # CHR ''u'' # h' @ e @ CHR 0x22 # r"
  have h: "length h = 4" "hex4 ?p = Some hi" "length h' = 4" "hex4 (h' @ e @ CHR 0x22 # r) = Some lo"
    using hex4_text [OF str_pair(1)] hex4_text [OF str_pair(4)] by auto
  moreover have "?p ! 4 = CHR 0x5C" "?p ! 5 = CHR ''u''" "drop 6 ?p = h' @ e @ CHR 0x22 # r" "drop 10 ?p = e @ CHR 0x22 # r"
    using h by (simp_all add: nth_append)
  ultimately have "unicode_escape ?p = Some (utf8 (0x10000 + 1024 * (hi - 0xD800) + (lo - 0xDC00)), 10)"
    using str_pair(2,3,5,6) by (simp add: unicode_escape_def surrogate_utf8_spec)
  then show ?case using str_pair.IH \<open>drop 10 ?p = e @ CHR 0x22 # r\<close> by simp
qed simp_all

subsection \<open>Numbers are read back\<close>

lemma digits_span:
  assumes "list_all isdigit ds" "r = [] \<or> \<not> isdigit (hd r)"
  shows "takeWhile isdigit (ds @ r) = ds" "dropWhile isdigit (ds @ r) = r"
  using assms by (cases r; auto simp: takeWhile_append dropWhile_append list_all_iff takeWhile_eq_all_conv)+

lemma scan_sign_digits: "list_all isdigit ds \<Longrightarrow> ds \<noteq> [] \<Longrightarrow> scan_sign (ds @ r) = (False, ds @ r)"
  by (cases ds) auto

lemma dec_value_append: "dec_value (ds @ fs) = dec_value ds * 10 ^ length fs + dec_value fs"
proof (induction fs rule: rev_induct)
  case (snoc f fs)
  then show ?case using dec_value_snoc [of "ds @ fs" f] dec_value_snoc [of fs f] by (simp add: algebra_simps)
qed (simp add: dec_value_def)

lemma exponent_text:
  assumes "exp_text x t"
  shows "scan_exponent t = x" "list_all number_char t" "t = [] \<or> hd t = CHR ''e'' \<or> hd t = CHR ''E''"
proof -
  have d: "takeWhile isdigit es = es" "list_all number_char es" if "list_all isdigit es" for es
    using that by (auto simp: takeWhile_eq_all_conv list_all_iff number_char_def)
  show "scan_exponent t = x" "list_all number_char t" "t = [] \<or> hd t = CHR ''e'' \<or> hd t = CHR ''E''"
    using assms scan_sign_digits [where r = "[]"]
    by (auto simp: exp_text_def scan_exponent_def number_char_def d simp del: takeWhile_eq_all_conv)
qed

lemma strtod_text:
  assumes "number_text q t"
  shows "strtod t = round_double q" "list_all number_char t" "t \<noteq> []" "isdigit (hd t) \<or> hd t = CHR ''-''"
proof -
  obtain neg ds fs x et where t: "ds \<noteq> []" "list_all isdigit ds" "list_all isdigit fs" "exp_text x et"
    "t = (if neg then ''-'' else []) @ ds @ (if fs = [] then [] else CHR ''.'' # fs) @ et"
    and q: "q = (if neg then - 1 else 1) * (of_nat (dec_value ds) + of_nat (dec_value fs) / 10 ^ length fs) * 10 powi x"
    using assms unfolding number_text_def by blast
  note e = exponent_text [OF t(4)]
  define u where "u = (if fs = [] then [] else CHR ''.'' # fs) @ et"
  have u: "u = [] \<or> \<not> isdigit (hd u)" "et = [] \<or> \<not> isdigit (hd et)" "et = [] \<or> hd et \<noteq> CHR ''.''"
    using e(3) by (auto simp: u_def isdigit_def)
  have sg: "scan_sign t = (neg, ds @ u)" using t scan_sign_digits [OF t(2,1)] by (auto simp: u_def)
  have fr: "scan_fraction u = (fs, et)"
    using digits_span [OF t(3) u(2)] u(3) by (cases et) (auto simp: scan_fraction_def u_def)
  have "(of_nat (dec_value (ds @ fs)) :: rat) * 10 powi (x - int (length fs))
      = (of_nat (dec_value ds) + of_nat (dec_value fs) / 10 ^ length fs) * 10 powi x"
    by (simp add: dec_value_append power_int_diff field_simps)
  then have "q = (let v = of_nat (dec_value (ds @ fs)) * 10 powi (x - int (length fs)) in if neg then - v else v)"
    by (simp add: q Let_def algebra_simps)
  then show "strtod t = round_double q"
    using t(1) by (simp add: strtod_def sg digits_span [OF t(2) u(1)] fr e(1) Let_def)
  show "list_all number_char t"
    using t e(2) by (auto simp: list_all_iff number_char_def)
  show "t \<noteq> []" "isdigit (hd t) \<or> hd t = CHR ''-''"
    using t(1,2,5) by (cases ds; auto)+
qed

subsection \<open>Texts of the grammar are read back\<close>

definition stops :: "string \<Rightarrow> bool" where
  "stops r \<longleftrightarrow> r = [] \<or> \<not> number_char (hd r)"

lemma ws_append [simp]: "ws [] \<and> (ws (c # w) \<longleftrightarrow> is_ws c \<and> ws w)"
  by (simp add: ws_def)

lemma skip_ws_prefix: "ws w \<Longrightarrow> skip_ws (w @ p) = skip_ws p"
  by (auto simp: ws_def skip_ws_def list_all_iff dropWhile_append)

lemma skip_ws_head: "\<not> is_ws c \<Longrightarrow> skip_ws (c # p) = c # p"
  by (simp add: skip_ws_def)

lemma skip_ws_idem [simp]: "skip_ws (skip_ws p) = skip_ws p"
  by (simp add: skip_ws_def dropWhile_idem)

lemma loops_skip_ws: "object_loop n ms (skip_ws p) = object_loop n ms p" "array_loop n vs (skip_ws p) = array_loop n vs p"
  by (cases n; simp)+

lemma stops_ws: "ws w \<Longrightarrow> stops r \<Longrightarrow> stops (w @ r)"
  by (cases w) (auto simp: stops_def is_ws_def number_char_def isdigit_def)

lemma delimiters:
  "stops (CHR '','' # r)" "stops (CHR '']'' # r)" "stops (CHR ''}'' # r)"
  "\<not> is_ws (CHR '','')" "\<not> is_ws (CHR '']'')" "\<not> is_ws (CHR ''}'')" "\<not> is_ws (CHR '':'')" "\<not> is_ws (CHR 0x22)"
  "\<not> is_ws (CHR ''['')" "\<not> is_ws (CHR ''{'')"
  by (simp_all add: stops_def is_ws_def number_char_def isdigit_def)

text \<open>A value starts with a character that is neither white space nor a closing bracket.\<close>

definition opens :: "string \<Rightarrow> bool" where
  "opens s \<longleftrightarrow> (\<exists>c cs. s = c # cs \<and> \<not> is_ws c \<and> c \<noteq> CHR '']'' \<and> c \<noteq> CHR ''}'')"

lemma opens_Cons: "opens (c # cs) \<longleftrightarrow> \<not> is_ws c \<and> c \<noteq> CHR '']'' \<and> c \<noteq> CHR ''}''"
  by (simp add: opens_def)

lemma number_opens: "number_text q t \<Longrightarrow> opens t"
  using strtod_text(3,4) [of q t] by (cases t) (auto simp: opens_def isdigit_def is_ws_def)

lemma json_text_opens: "json_text v s \<Longrightarrow> opens s"
  by (erule json_text.cases) (auto simp: number_opens opens_Cons is_ws_def)

lemma skip_to_value: "ws w \<Longrightarrow> opens s \<Longrightarrow> skip_ws (w @ s @ r) = s @ r"
  by (auto simp: skip_ws_prefix opens_def skip_ws_head)

lemma parse_number_text:
  assumes "number_text q t" "stops r"
  shows "parse_value (Suc n) (t @ r) = Done (JSON_NUMBER (round_double q)) r"
proof -
  note t = strtod_text [OF assms(1)]
  obtain c cs where c: "t = c # cs" "isdigit c \<or> c = CHR ''-''" using t(3,4) by (cases t) auto
  have "takeWhile number_char (t @ r) = t" "dropWhile number_char (t @ r) = r"
    using t(2) assms(2) by (cases r; auto simp: stops_def list_all_iff takeWhile_append dropWhile_append takeWhile_eq_all_conv)+
  then have "parse_number (c # cs @ r) = Done (JSON_NUMBER (round_double q)) r"
    using t c(1) by (simp add: parse_number_def Let_def)
  moreover have "skip_ws (c # cs @ r) = c # cs @ r"
    using c(2) by (auto intro!: skip_ws_head simp: is_ws_def isdigit_def)
  moreover have "c \<noteq> CHR ''{''" "c \<noteq> CHR ''[''" "c \<noteq> CHR 0x22" "c \<noteq> CHR ''t''" "c \<noteq> CHR ''f''" "c \<noteq> CHR ''n''"
    using c(2) by (auto simp: isdigit_def)
  ultimately show ?thesis by (simp add: c(1))
qed

lemma parse_string_text: "str_text d e \<Longrightarrow> parse_string (CHR 0x22 # e @ CHR 0x22 # r) = Some (d, r)"
  using string_loop_text [of d e "[]"] by (simp add: parse_string_def)

definition reads :: "json \<Rightarrow> string \<Rightarrow> bool" where
  "reads v s \<longleftrightarrow> (\<forall>n r. 2 * length s \<le> n \<longrightarrow> stops r \<longrightarrow> parse_value (Suc n) (s @ r) = Done v r)"

definition reads_elems :: "json list \<Rightarrow> string \<Rightarrow> bool" where
  "reads_elems vs e \<longleftrightarrow> (\<exists>w t. e = w @ t \<and> ws w \<and> opens t) \<and>
     (\<forall>n r acc. 2 * length e < n \<longrightarrow> array_loop (Suc n) acc (e @ CHR '']'' # r) = Done (JSON_ARRAY (acc @ vs)) r)"

text \<open>The members collected so far, with one more.\<close>

definition add_member :: "string \<times> json \<Rightarrow> (string \<times> json) list \<Rightarrow> (string \<times> json) list" where
  "add_member m acc = (if list_ex (\<lambda>a. c_str (fst a) = c_str (fst m)) acc then acc else acc @ [m])"

lemma add_members:
  "fold add_member ms acc = acc @ filter (\<lambda>x. \<not> list_ex (\<lambda>a. c_str (fst a) = c_str (fst x)) acc) (first_members ms)"
proof (induction ms arbitrary: acc)
  case (Cons m ms)
  show ?case
    unfolding fold_Cons comp_apply Cons.IH
    by (auto simp: add_member_def list_ex_iff intro!: filter_cong arg_cong [of _ _ "append acc"])
qed simp

definition reads_members :: "(string \<times> json) list \<Rightarrow> string \<Rightarrow> bool" where
  "reads_members ms e \<longleftrightarrow> (\<exists>w t. e = w @ t \<and> ws w \<and> opens t) \<and>
     (\<forall>n r acc. 2 * length e < n \<longrightarrow>
        object_loop (Suc n) acc (e @ CHR ''}'' # r) = Done (JSON_OBJECT (fold add_member ms acc)) r)"

lemma reads_literals: "reads JSON_NULL ''null''" "reads (JSON_BOOL True) ''true''" "reads (JSON_BOOL False) ''false''"
  by (simp_all add: reads_def skip_ws_head is_ws_def parse_literal_def)

lemma reads_string: "str_text d e \<Longrightarrow> reads (JSON_STRING d) ([CHR 0x22] @ e @ [CHR 0x22])"
  using parse_string_text [of d e] by (simp add: reads_def skip_ws_head delimiters)

lemma reads_empty: "ws w \<Longrightarrow> reads (JSON_ARRAY []) (''['' @ w @ '']'')" "ws w \<Longrightarrow> reads (JSON_OBJECT []) (''{'' @ w @ ''}'')"
  by (simp_all add: reads_def skip_ws_head skip_ws_prefix delimiters)

lemma reads_array: "reads_elems vs e \<Longrightarrow> reads (JSON_ARRAY vs) (''['' @ e @ '']'')"
proof -
  assume "reads_elems vs e"
  then obtain w c t where e: "e = w @ c # t" "ws w" "\<not> is_ws c" "c \<noteq> CHR '']''"
    and loop: "\<And>n r. 2 * length e < n \<Longrightarrow> array_loop (Suc n) [] (e @ CHR '']'' # r) = Done (JSON_ARRAY vs) r"
    by (auto simp: reads_elems_def opens_def)
  have sk: "skip_ws (e @ q) = c # t @ q" for q using e by (simp add: skip_ws_prefix skip_ws_head)
  have "parse_value (Suc n) (''['' @ e @ CHR '']'' # r) = Done (JSON_ARRAY vs) r" if n: "2 * length e + 4 \<le> n" for n r
  proof -
    obtain m where m: "n = Suc m" using n by (cases n) auto
    have "array_loop (Suc m) [] (skip_ws (e @ CHR '']'' # r)) = Done (JSON_ARRAY vs) r"
      unfolding loops_skip_ws using loop [of m r] n m by simp
    then show ?thesis
      using e(4) by (simp add: skip_ws_head delimiters sk m del: array_loop.simps)
  qed
  then show ?thesis by (simp add: reads_def)
qed

lemma reads_object: "reads_members ms e \<Longrightarrow> reads (JSON_OBJECT (first_members ms)) (''{'' @ e @ ''}'')"
proof -
  assume "reads_members ms e"
  then obtain w c t where e: "e = w @ c # t" "ws w" "\<not> is_ws c" "c \<noteq> CHR ''}''"
    and loop: "\<And>n r. 2 * length e < n \<Longrightarrow> object_loop (Suc n) [] (e @ CHR ''}'' # r) = Done (JSON_OBJECT (first_members ms)) r"
    by (auto simp: reads_members_def opens_def add_members)
  have sk: "skip_ws (e @ q) = c # t @ q" for q using e by (simp add: skip_ws_prefix skip_ws_head)
  have "parse_value (Suc n) (''{'' @ e @ CHR ''}'' # r) = Done (JSON_OBJECT (first_members ms)) r" if n: "2 * length e + 4 \<le> n" for n r
  proof -
    obtain m where m: "n = Suc m" using n by (cases n) auto
    have "object_loop (Suc m) [] (skip_ws (e @ CHR ''}'' # r)) = Done (JSON_OBJECT (first_members ms)) r"
      unfolding loops_skip_ws using loop [of m r] n m by simp
    then show ?thesis
      using e(4) by (simp add: skip_ws_head delimiters sk m del: object_loop.simps)
  qed
  then show ?thesis by (simp add: reads_def)
qed

text \<open>One element, up to the delimiter behind it.\<close>

lemma element_read:
  assumes "ws w1" "json_text v s" "reads v s" "ws w2" "stops (c # r)" "2 * length s < n"
  shows "parse_value n (skip_ws (w1 @ s @ w2 @ c # r)) = Done v (w2 @ c # r)"
proof -
  obtain m where "n = Suc m" "2 * length s \<le> m" using assms(6) by (cases n) auto
  then show ?thesis
    using assms(3) skip_to_value [OF assms(1) json_text_opens [OF assms(2)]] stops_ws [OF assms(4,5)]
    by (simp add: reads_def)
qed

lemma reads_elems_one:
  assumes "ws w1" "json_text v s" "reads v s" "ws w2"
  shows "reads_elems [v] (w1 @ s @ w2)"
proof -
  have "array_loop (Suc n) acc (w1 @ s @ w2 @ CHR '']'' # r) = Done (JSON_ARRAY (acc @ [v])) r"
    if "2 * length (w1 @ s @ w2) < n" for n r acc
    using that element_read [OF assms delimiters(2), of n r]
    by (simp add: skip_ws_prefix [OF assms(4)] skip_ws_head delimiters)
  moreover have "opens (s @ w2)" using json_text_opens [OF assms(2)] by (auto simp: opens_def)
  ultimately show ?thesis using assms(1) unfolding reads_elems_def by auto
qed

lemma reads_elems_more:
  assumes "ws w1" "json_text v s" "reads v s" "ws w2" "reads_elems vs e"
  shows "reads_elems (v # vs) (w1 @ s @ w2 @ '','' @ e)"
proof -
  have "array_loop (Suc n) acc (w1 @ s @ w2 @ CHR '','' # e @ CHR '']'' # r) = Done (JSON_ARRAY (acc @ v # vs)) r"
    if n: "2 * length (w1 @ s @ w2 @ '','' @ e) < n" for n r acc
  proof -
    obtain m where m: "n = Suc m" "2 * length e < m" using n by (cases n) auto
    then have "array_loop n (acc @ [v]) (e @ CHR '']'' # r) = Done (JSON_ARRAY (acc @ v # vs)) r"
      using assms(5) by (simp add: reads_elems_def)
    then show ?thesis
      using n element_read [OF assms(1-4) delimiters(1), of n "e @ CHR '']'' # r"]
      by (simp add: skip_ws_prefix [OF assms(4)] skip_ws_head delimiters)
  qed
  moreover have "opens (s @ w2 @ '','' @ e)" using json_text_opens [OF assms(2)] by (auto simp: opens_def)
  ultimately show ?thesis using assms(1) unfolding reads_elems_def by auto
qed

text \<open>One member: the key, the colon, the value.\<close>

lemma member_read:
  assumes "ws w1" "str_text k ke" "ws w2" "ws w3" "json_text v s" "reads v s" "ws w4" "stops (c # r)"
    "2 * length s < n" "\<not> is_ws c" "c = CHR '','' \<or> c = CHR ''}''"
  shows "object_loop (Suc n) acc (w1 @ CHR 0x22 # ke @ CHR 0x22 # w2 @ CHR '':'' # w3 @ s @ w4 @ c # r)
     = (if c = CHR '','' then object_loop n (add_member (k, v) acc) r else Done (JSON_OBJECT (add_member (k, v) acc)) r)"
  using element_read [OF assms(4-9)] parse_string_text [OF assms(2)] assms(11)
  by (auto simp: skip_ws_prefix [OF assms(1)] skip_ws_prefix [OF assms(3)] skip_ws_prefix [OF assms(7)]
      skip_ws_head [OF assms(10)] skip_ws_head delimiters Let_def add_member_def simp del: object_loop.simps(1))

lemma reads_members_one:
  assumes "ws w1" "str_text k ke" "ws w2" "ws w3" "json_text v s" "reads v s" "ws w4"
  shows "reads_members [(k, v)] (w1 @ [CHR 0x22] @ ke @ [CHR 0x22] @ w2 @ '':'' @ w3 @ s @ w4)"
proof -
  note m = member_read [OF assms delimiters(3) _ delimiters(6)]
  have "object_loop (Suc n) acc (w1 @ CHR 0x22 # ke @ CHR 0x22 # w2 @ CHR '':'' # w3 @ s @ w4 @ CHR ''}'' # r)
      = Done (JSON_OBJECT (add_member (k, v) acc)) r"
    if "2 * length s < n" for n r acc
    using m [OF that] by simp
  then show ?thesis
    using assms(1) delimiters(8) unfolding reads_members_def
    by (intro conjI exI [of _ w1] exI [of _ "CHR 0x22 # ke @ [CHR 0x22] @ w2 @ '':'' @ w3 @ s @ w4"])
      (auto simp: opens_Cons)
qed

lemma reads_members_more:
  assumes "ws w1" "str_text k ke" "ws w2" "ws w3" "json_text v s" "reads v s" "ws w4" "reads_members ms e"
  shows "reads_members ((k, v) # ms) (w1 @ [CHR 0x22] @ ke @ [CHR 0x22] @ w2 @ '':'' @ w3 @ s @ w4 @ '','' @ e)"
proof -
  note m = member_read [OF assms(1-7) delimiters(1) _ delimiters(4)]
  have "object_loop (Suc n) acc (w1 @ CHR 0x22 # ke @ CHR 0x22 # w2 @ CHR '':'' # w3 @ s @ w4 @ CHR '','' # e @ CHR ''}'' # r)
      = Done (JSON_OBJECT (fold add_member ((k, v) # ms) acc)) r"
    if n: "2 * length s < n" "2 * length e + 1 < n" for n r acc
  proof -
    obtain l where l: "n = Suc l" "2 * length e < l" using n by (cases n) auto
    then have "object_loop n (add_member (k, v) acc) (e @ CHR ''}'' # r)
        = Done (JSON_OBJECT (fold add_member ms (add_member (k, v) acc))) r"
      using assms(8) by (simp add: reads_members_def)
    then show ?thesis using m [OF n(1), of acc "e @ CHR ''}'' # r"] by simp
  qed
  then show ?thesis
    using assms(1) delimiters(8) unfolding reads_members_def
    by (intro conjI exI [of _ w1] exI [of _ "CHR 0x22 # ke @ [CHR 0x22] @ w2 @ '':'' @ w3 @ s @ w4 @ '','' @ e"])
      (auto simp: opens_Cons)
qed

lemma reads_number: "number_text q t \<Longrightarrow> reads (JSON_NUMBER (round_double q)) t"
  by (simp add: reads_def parse_number_text del: parse_value.simps)

lemma grammar_read:
  "json_text v s \<Longrightarrow> reads v s" "elems_text vs e \<Longrightarrow> reads_elems vs e" "members_text ms f \<Longrightarrow> reads_members ms f"
  by (induction rule: json_text_elems_text_members_text.inducts)
    (blast intro: reads_literals reads_number reads_string reads_empty reads_array reads_object
      reads_elems_one reads_elems_more reads_members_one reads_members_more)+

declare parse_value.simps [simp del] object_loop.simps [simp del] array_loop.simps [simp del]

text \<open>More fuel never changes an answer.\<close>

lemma fuel_mono:
  "(\<forall>p. parse_value n p \<noteq> Fuel \<longrightarrow> parse_value (Suc n) p = parse_value n p)
   \<and> (\<forall>ms p. object_loop n ms p \<noteq> Fuel \<longrightarrow> object_loop (Suc n) ms p = object_loop n ms p)
   \<and> (\<forall>vs p. array_loop n vs p \<noteq> Fuel \<longrightarrow> array_loop (Suc n) vs p = array_loop n vs p)"
proof (induction n)
  case (Suc n)
  then have val: "\<And>p. parse_value n p \<noteq> Fuel \<Longrightarrow> parse_value (Suc n) p = parse_value n p"
    and obj: "\<And>ms p. object_loop n ms p \<noteq> Fuel \<Longrightarrow> object_loop (Suc n) ms p = object_loop n ms p"
    and arr: "\<And>vs p. array_loop n vs p \<noteq> Fuel \<Longrightarrow> array_loop (Suc n) vs p = array_loop n vs p"
    by blast+
  have v: "parse_value (Suc (Suc n)) p = parse_value (Suc n) p" if "parse_value (Suc n) p \<noteq> Fuel" for p
  proof (cases "skip_ws p")
    case (Cons ch cs)
    then show ?thesis
      using that unfolding parse_value.simps(2) by (cases "skip_ws cs") (auto simp: obj arr split: if_splits)
  qed (simp add: parse_value.simps(2))
  have rest: "(case skip_ws t of [] \<Rightarrow> Fail | c # p \<Rightarrow> if c = CHR '','' then f (Suc n) p else g c p)
      = (case skip_ws t of [] \<Rightarrow> Fail | c # p \<Rightarrow> if c = CHR '','' then f n p else g c p)"
    if "(case skip_ws t of [] \<Rightarrow> Fail | c # p \<Rightarrow> if c = CHR '','' then f n p else g c p) \<noteq> Fuel"
      "\<And>p. f n p \<noteq> Fuel \<Longrightarrow> f (Suc n) p = f n p" for t and f :: "nat \<Rightarrow> string \<Rightarrow> outcome" and g
    using that by (cases "skip_ws t") auto
  have o: "object_loop (Suc (Suc n)) ms p = object_loop (Suc n) ms p" if nf: "object_loop (Suc n) ms p \<noteq> Fuel" for ms p
  proof (cases "parse_string (skip_ws p)")
    case (Some kr)
    obtain key r where kr: "kr = (key, r)" by force
    show ?thesis
    proof (cases "skip_ws r")
      case (Cons c q)
      then show ?thesis
        using nf Some kr val [of "skip_ws q"] rest [where f = "\<lambda>n. object_loop n _", OF _ obj] unfolding object_loop.simps(2)
        by (cases "parse_value n (skip_ws q)") (simp_all add: Let_def split: if_splits)
    qed (simp add: object_loop.simps(2) Some kr)
  qed (simp add: object_loop.simps(2))
  have a: "array_loop (Suc (Suc n)) vs p = array_loop (Suc n) vs p" if "array_loop (Suc n) vs p \<noteq> Fuel" for vs p
    using that val [of "skip_ws p"] rest [where f = "\<lambda>n. array_loop n _", OF _ arr] unfolding array_loop.simps(2)
    by (cases "parse_value n (skip_ws p)") simp_all
  from v o a show ?case by blast
qed (simp add: parse_value.simps object_loop.simps array_loop.simps)

lemma enough_fuel: "2 * length p < n \<Longrightarrow> parse_value (n + k) p = parse_value n p"
proof (induction k)
  case (Suc k)
  then have "parse_value (n + k) p \<noteq> Fuel" using parse_finishes [of "n + k"] by (auto simp: finishes_def)
  then show ?case using Suc fuel_mono [of "n + k"] by simp
qed simp

text \<open>Integers up to 53 bits pass through the doubles unchanged.\<close>

lemma round_half_even_int: "round_half_even (of_int k) = k"
  by (simp add: round_half_even_def)

lemma round_double_int:
  assumes "\<bar>k\<bar> < 2 ^ 53"
  shows "round_double (of_int k) = Fin (of_int k)"
proof (cases "k = 0")
  case False
  define m where "m = nat \<bar>k\<bar>"
  have m: "0 < m" "m < 2 ^ 53" "\<bar>of_int k :: rat\<bar> = of_nat m" using False assms by (auto simp: m_def nat_less_iff)
  define l where "l = floorlog 2 m"
  have l: "2 ^ (l - 1) \<le> m" "0 < l" "l \<le> 53"
    using floorlog_bounds [of m 2] floorlog_leI [of m 2 53] floorlog_eq_zero_iff [of 2 m] m(1,2)
    by (auto simp: l_def)
  have "quotient_of (of_nat m) = (int m, 1)" by (simp add: of_nat_rat quotient_of_Fract normalize_def)
  moreover have "floorlog 2 1 = 1" by (simp add: floorlog_def)
  moreover have "(2 :: rat) powi (int l - 1) \<le> of_nat m"
  proof -
    have "(2 :: rat) powi (int l - 1) = of_nat (2 ^ (l - 1))"
      using l(2) by (simp add: power_int_def nat_diff_distrib)
    then show ?thesis using l(1) by (simp only: of_nat_le_iff)
  qed
  ultimately have e: "double_exp (of_nat m) = int l - 53"
    using l by (simp add: double_exp_def l_def [symmetric])
  have "(of_nat m :: rat) / 2 powi (int l - 53) = of_int (int m * 2 ^ (53 - l))"
    using l(3) by (simp add: power_int_def nat_diff_distrib field_simps)
  then have "of_int (round_half_even (of_nat m / 2 powi (int l - 53))) = (of_nat m :: rat) / 2 powi (int l - 53)"
    by (simp only: round_half_even_int)
  then have "of_int (round_half_even (of_nat m / 2 powi (int l - 53))) * (2 :: rat) powi (int l - 53) = of_nat m"
    by simp
  moreover have "\<not> (int l - 53 > 971 \<or> (int l - 53 = 971 \<and> j))" for j using l(3) by auto
  ultimately have "round_double (of_int k) = Fin (sgn (of_int k) * of_nat m)"
    unfolding round_double_def m(3) e Let_def using False by (simp only: of_int_eq_0_iff if_False simp_thms)
  then show ?thesis unfolding m(3) [symmetric] sgn_mult_abs .
qed (simp add: round_double_def)

lemma number_text_int: "number_text (of_nat k) (show_nat k)"
  unfolding number_text_def
  by (rule exI [of _ False], rule exI [of _ "show_nat k"], rule exI [of _ "[]"], rule exI [of _ 0], rule exI [of _ "[]"])
    (simp add: show_nat_digits exp_text_def dec_value_def [of "[]"])

subsection \<open>Properties\<close>

text \<open>
  C31. The parser reads JSON: every text of the grammar of RFC 8259, with any white space before and
  in it and any escapes in its strings, is read as the value it denotes (strings as UTF-8, numbers
  rounded to the nearest double, an object as the first member of every name); whatever comes behind
  the value is ignored, as long as it does not start with a character that could continue a number.
  An integer below \<open>2^53\<close> in absolute value comes out exactly when it is cast to a 64-bit integer.
\<close>

theorem json_parse_complete:
  assumes "json_text v s" "ws w" "stops r"
  shows "JsonParse (w @ s @ r) = Some v
     \<and> (\<forall>k. \<bar>k\<bar> < 2 ^ 53 \<longrightarrow> v = JSON_NUMBER (round_double (of_int k)) \<longrightarrow> cast_int 64 (AsNumber v (Fin 0)) = Some k)"
proof -
  let ?t = "w @ s @ r"
  have "parse_value (Suc (2 * length ?t)) ?t = parse_value (Suc (2 * length ?t)) (s @ r)"
    using skip_to_value [OF assms(2) json_text_opens [OF assms(1)], of r]
      skip_to_value [of "[]", OF _ json_text_opens [OF assms(1)], of r]
    by (simp add: parse_value.simps(2))
  also have "\<dots> = Done v r" using grammar_read(1) [OF assms(1), unfolded reads_def] assms(3) by simp
  finally show ?thesis
    by (auto simp: JsonParse_def round_double_int cast_int_def)
qed

text \<open>A name given twice, and a text that goes on behind the value.\<close>

definition twice_text :: string where
  "twice_text = ''{'' @ [CHR 0x22] @ ''a'' @ [CHR 0x22] @ '': 42 ,'' @ [CHR 0x22] @ ''a'' @ [CHR 0x22] @ '':true}''"

theorem json_parse_complete_witness:
  "JsonParse ('' '' @ twice_text @ '' tail'') = Some (JSON_OBJECT [(''a'', JSON_NUMBER (Fin 42))])"
proof -
  have "json_text (JSON_NUMBER (round_double (of_nat 42))) (show_nat 42)"
    by (intro text_number number_text_int)
  moreover have "show_nat 42 = ''42''" by code_simp
  moreover have "round_double (of_nat 42) = Fin 42" using round_double_int [of 42] by simp
  ultimately have n: "json_text (JSON_NUMBER (Fin 42)) ''42''" by simp
  have w: "ws '' ''" "ws []" by (simp_all add: is_ws_def)
  have k: "str_text ''a'' ''a''" by (intro str_text.intros) simp_all
  have "json_text (JSON_OBJECT (first_members [(''a'', JSON_NUMBER (Fin 42)), (''a'', JSON_BOOL True)])) twice_text"
    using text_object [OF members_more [OF w(2) k w(2,1) n w(1) members_one [OF w(2) k w(2,2) text_true w(2)]]]
    by (simp add: twice_text_def)
  from json_parse_complete [OF this w(1), of "'' tail''"] show ?thesis
    by (simp add: stops_def number_char_def isdigit_def)
qed

text \<open>
  C38. The parser always finishes: for any text, with at least two units of fuel per character (plus
  one) the recursive descent never runs out of fuel, its answer does not depend on the amount, and
  what it leaves unread is a shorter text; so recursion is bounded by the length of the input.
\<close>

theorem json_parse_total:
  "\<forall>n > 2 * length t. parse_value n t = parse_value (Suc (2 * length t)) t
     \<and> parse_value n t \<noteq> Fuel \<and> (\<forall>v r. parse_value n t = Done v r \<longrightarrow> length r < length t)"
proof (intro allI impI)
  fix n assume n: "2 * length t < n"
  have "parse_value n t = parse_value (Suc (2 * length t)) t"
    using enough_fuel [of t "Suc (2 * length t)" "n - Suc (2 * length t)"] n by simp
  then show "parse_value n t = parse_value (Suc (2 * length t)) t
      \<and> parse_value n t \<noteq> Fuel \<and> (\<forall>v r. parse_value n t = Done v r \<longrightarrow> length r < length t)"
    using parse_finishes [of n, THEN conjunct1, rule_format, OF n] unfolding finishes_def by blast
qed

theorem json_parse_total_witness:
  "parse_value 100 ''[[1'' = parse_value 7 ''[[1'' \<and> parse_value 100 ''[[1'' \<noteq> Fuel"
  using json_parse_total [of "''[[1''", rule_format, of 100] by auto

end
