(* ===== verification/Netmap.thy ===== *)
theory Netmap
  imports Json "HOL-Library.Monad_Syntax"
begin

text \<open>
  The network map, \<open>src/backend/tailscale/TSNetmap.cpp\<close>: a MapResponse is parsed as JSON and
  applied to the map section by section, as a snapshot (\<open>Peers\<close>) or as deltas
  (\<open>PeersChanged\<close>, \<open>PeersChangedPatch\<close>, \<open>PeersRemoved\<close>).  An outer \<open>None\<close> is the undefined cast
  of a number that does not fit its integer type.  \<open>netmap_snapshot\<close> shows that a snapshot is
  taken over whatever was there before, \<open>netmap_delta\<close> that the deltas act on the peers as updates
  of a finite map keyed by node id.
\<close>

subsection \<open>Data\<close>

record netmap_peer =
  n_nodeID :: int
  n_nodeKey :: string
  n_discoKey :: string
  n_hostname :: string
  n_online :: bool
  n_derpRegion :: int
  n_allowedIPs :: "string list"
  n_endpoints :: "string list"

definition NetmapPeer :: netmap_peer where
  "NetmapPeer = \<lparr> n_nodeID = 0, n_nodeKey = [], n_discoKey = [], n_hostname = [], n_online = False,
     n_derpRegion = - 1, n_allowedIPs = [], n_endpoints = [] \<rparr>"

record derp_node =
  hostName :: string
  ipv4 :: string
  ipv6 :: string
  derpPort :: int

definition DerpNode :: derp_node where
  "DerpNode = \<lparr> hostName = [], ipv4 = [], ipv6 = [], derpPort = 0 \<rparr>"

record derp_region =
  regionID :: int
  regionCode :: string
  derp_nodes :: "derp_node list"

definition DerpRegion :: derp_region where
  "DerpRegion = \<lparr> regionID = 0, regionCode = [], derp_nodes = [] \<rparr>"

record dns_config =
  resolvers :: "string list"
  domains :: "string list"

record tsnetmap =
  fSelfAddresses :: "string list"
  fPeers :: "netmap_peer list"
  fDerpRegions :: "derp_region list"
  fDns :: dns_config

definition TSNetmap :: tsnetmap where
  "TSNetmap = \<lparr> fSelfAddresses = [], fPeers = [], fDerpRegions = [], fDns = \<lparr> resolvers = [], domains = [] \<rparr> \<rparr>"

subsection \<open>Fields\<close>

definition StripKeyPrefix :: "string \<Rightarrow> string" where
  "StripKeyPrefix key =
     (let s = c_str key in case find_first (CHR '':'') s of None \<Rightarrow> s | Some colon \<Rightarrow> drop (colon + 1) s)"

definition ParseDerp :: "string \<Rightarrow> int" where
  "ParseDerp derp =
     (let d = c_str derp in
      if d = [] then - 1
      else case find_last (CHR '':'') d of Some colon \<Rightarrow> atoi (drop (colon + 1) d) | None \<Rightarrow> atoi d)"

fun string_of :: "json \<Rightarrow> string list" where
  "string_of (JSON_STRING s) = [s]"
| "string_of _ = []"

fun CollectStrings :: "json \<Rightarrow> string list \<Rightarrow> string list" where
  "CollectStrings (JSON_ARRAY vs) out = out @ concat (map string_of vs)"
| "CollectStrings _ out = out"

text \<open>\<open>if (v != NULL && v->IsString()) field = f(v->stringValue)\<close>.\<close>

definition string_field :: "json option \<Rightarrow> (string \<Rightarrow> 's \<Rightarrow> 's) \<Rightarrow> 's \<Rightarrow> 's" where
  "string_field v f s = (case v of Some (JSON_STRING t) \<Rightarrow> f t s | _ \<Rightarrow> s)"

text \<open>\<open>if (v != NULL) field = (int)v->AsNumber(dflt)\<close>, on \<open>w\<close> bits.\<close>

definition number_field :: "nat \<Rightarrow> json option \<Rightarrow> int \<Rightarrow> (int \<Rightarrow> 's \<Rightarrow> 's) \<Rightarrow> 's \<Rightarrow> 's option" where
  "number_field w v dflt f s =
     (case v of None \<Rightarrow> Some s
      | Some j \<Rightarrow> (case cast_int w (AsNumber j (Fin (of_int dflt))) of None \<Rightarrow> None | Some k \<Rightarrow> Some (f k s)))"

definition list_field :: "json option \<Rightarrow> string list \<Rightarrow> string list" where
  "list_field v out = (case v of None \<Rightarrow> out | Some j \<Rightarrow> CollectStrings j out)"

definition ParsePeer :: "json \<Rightarrow> (bool \<times> netmap_peer) option" where
  "ParsePeer pj =
     (if \<not> IsObject pj then Some (False, NetmapPeer)
      else do {
        p \<leftarrow> number_field 64 (Find pj ''ID'') 0 (\<lambda>k p. p\<lparr> n_nodeID := k \<rparr>) NetmapPeer;
        let p = string_field (Find pj ''Key'') (\<lambda>s p. p\<lparr> n_nodeKey := StripKeyPrefix s \<rparr>) p;
        let p = string_field (Find pj ''DiscoKey'') (\<lambda>s p. p\<lparr> n_discoKey := StripKeyPrefix s \<rparr>) p;
        let p = p\<lparr> n_allowedIPs := list_field (Find pj ''AllowedIPs'') (n_allowedIPs p) \<rparr>;
        let p = (if n_allowedIPs p = [] then p\<lparr> n_allowedIPs := list_field (Find pj ''Addresses'') (n_allowedIPs p) \<rparr> else p);
        let p = p\<lparr> n_endpoints := list_field (Find pj ''Endpoints'') (n_endpoints p) \<rparr>;
        let p = string_field (Find pj ''DERP'') (\<lambda>s p. p\<lparr> n_derpRegion := ParseDerp s \<rparr>) p;
        let p = (case Find pj ''Online'' of None \<Rightarrow> p | Some v \<Rightarrow> p\<lparr> n_online := AsBool v False \<rparr>);
        let p = (case Find pj ''Hostinfo'' of None \<Rightarrow> p
                 | Some hi \<Rightarrow> string_field (Find hi ''Hostname'') (\<lambda>s p. p\<lparr> n_hostname := s \<rparr>) p);
        Some (n_nodeKey p \<noteq> [], p)
      })"

subsection \<open>Peers\<close>

fun UpsertPeer :: "netmap_peer list \<Rightarrow> netmap_peer \<Rightarrow> netmap_peer list" where
  "UpsertPeer [] peer = [peer]"
| "UpsertPeer (q # qs) peer =
     (if (n_nodeID peer \<noteq> 0 \<and> n_nodeID q = n_nodeID peer) \<or> n_nodeKey q = n_nodeKey peer
      then peer # qs else q # UpsertPeer qs peer)"

text \<open>A loop over a JSON array whose body may be undefined.\<close>

fun fold_json :: "(json \<Rightarrow> 's \<Rightarrow> 's option) \<Rightarrow> json list \<Rightarrow> 's \<Rightarrow> 's option" where
  "fold_json f [] s = Some s"
| "fold_json f (v # vs) s = (case f v s of None \<Rightarrow> None | Some s' \<Rightarrow> fold_json f vs s')"

definition add_peer :: "(netmap_peer list \<Rightarrow> netmap_peer \<Rightarrow> netmap_peer list) \<Rightarrow> json \<Rightarrow> netmap_peer list \<Rightarrow> netmap_peer list option" where
  "add_peer ins v ps =
     (case ParsePeer v of None \<Rightarrow> None | Some (True, p) \<Rightarrow> Some (ins ps p) | Some (False, _) \<Rightarrow> Some ps)"

text \<open>The fields of a patch, applied to one peer.\<close>

definition patch_peer :: "json \<Rightarrow> netmap_peer \<Rightarrow> netmap_peer option" where
  "patch_peer pp p =
     do {
       let p = (case Find pp ''Endpoints'' of None \<Rightarrow> p | Some eps \<Rightarrow> p\<lparr> n_endpoints := CollectStrings eps [] \<rparr>);
       p \<leftarrow> number_field 32 (Find pp ''DERPRegion'') (n_derpRegion p) (\<lambda>k p. p\<lparr> n_derpRegion := k \<rparr>) p;
       let p = (case Find pp ''Online'' of None \<Rightarrow> p | Some v \<Rightarrow> p\<lparr> n_online := AsBool v (n_online p) \<rparr>);
       let p = string_field (Find pp ''Key'') (\<lambda>s p. p\<lparr> n_nodeKey := StripKeyPrefix s \<rparr>) p;
       Some (string_field (Find pp ''DiscoKey'') (\<lambda>s p. p\<lparr> n_discoKey := StripKeyPrefix s \<rparr>) p)
     }"

fun patch_loop :: "int \<Rightarrow> json \<Rightarrow> netmap_peer list \<Rightarrow> netmap_peer list option" where
  "patch_loop target pp [] = Some []"
| "patch_loop target pp (p # ps) =
     (if n_nodeID p \<noteq> target then map_option ((#) p) (patch_loop target pp ps)
      else map_option (\<lambda>p'. p' # ps) (patch_peer pp p))"

definition apply_patch :: "json \<Rightarrow> netmap_peer list \<Rightarrow> netmap_peer list option" where
  "apply_patch pp ps =
     (if \<not> IsObject pp then Some ps
      else case Find pp ''NodeID'' of None \<Rightarrow> Some ps
      | Some nid \<Rightarrow> (case cast_int 64 (AsNumber nid (Fin 0)) of None \<Rightarrow> None | Some target \<Rightarrow> patch_loop target pp ps))"

fun erase_id :: "int \<Rightarrow> netmap_peer list \<Rightarrow> netmap_peer list" where
  "erase_id gone [] = []"
| "erase_id gone (p # ps) = (if n_nodeID p = gone then ps else p # erase_id gone ps)"

definition remove_peer :: "json \<Rightarrow> netmap_peer list \<Rightarrow> netmap_peer list option" where
  "remove_peer v ps = map_option (\<lambda>gone. erase_id gone ps) (cast_int 64 (AsNumber v (Fin 0)))"

definition array_section :: "json option \<Rightarrow> (json list \<Rightarrow> 's \<Rightarrow> 's option) \<Rightarrow> 's \<Rightarrow> 's option" where
  "array_section v f s = (case v of Some (JSON_ARRAY vs) \<Rightarrow> f vs s | _ \<Rightarrow> Some s)"

subsection \<open>Relays and DNS\<close>

definition parse_derp_node :: "json \<Rightarrow> derp_node list \<Rightarrow> derp_node list option" where
  "parse_derp_node nj ns =
     (if \<not> IsObject nj then Some ns
      else let n = string_field (Find nj ''HostName'') (\<lambda>s n. n\<lparr> hostName := s \<rparr>) DerpNode;
               n = string_field (Find nj ''IPv4'') (\<lambda>s n. n\<lparr> ipv4 := s \<rparr>) n;
               n = string_field (Find nj ''IPv6'') (\<lambda>s n. n\<lparr> ipv6 := s \<rparr>) n
           in map_option (\<lambda>n. ns @ [n]) (number_field 32 (Find nj ''DERPPort'') 0 (\<lambda>k n. n\<lparr> derpPort := k \<rparr>) n))"

definition parse_region :: "string \<times> json \<Rightarrow> derp_region list \<Rightarrow> derp_region list option" where
  "parse_region kv rs =
     (let rj = snd kv; keyId = atoi (fst kv) in
      if \<not> IsObject rj then Some rs
      else do {
        r \<leftarrow> number_field 32 (Find rj ''RegionID'') keyId (\<lambda>k r. r\<lparr> regionID := k \<rparr>) (DerpRegion\<lparr> regionID := keyId \<rparr>);
        let r = string_field (Find rj ''RegionCode'') (\<lambda>s r. r\<lparr> regionCode := s \<rparr>) r;
        ns \<leftarrow> array_section (Find rj ''Nodes'') (fold_json parse_derp_node) [];
        Some (rs @ [r\<lparr> derp_nodes := ns \<rparr>])
      })"

fun region_loop :: "(string \<times> json) list \<Rightarrow> derp_region list \<Rightarrow> derp_region list option" where
  "region_loop [] rs = Some rs"
| "region_loop (kv # kvs) rs = (case parse_region kv rs of None \<Rightarrow> None | Some rs' \<Rightarrow> region_loop kvs rs')"

definition parse_derp_map :: "json option \<Rightarrow> derp_region list \<Rightarrow> derp_region list option" where
  "parse_derp_map derpMap rs =
     (case derpMap of Some dm \<Rightarrow> (case Find dm ''Regions'' of Some (JSON_OBJECT kvs) \<Rightarrow> region_loop kvs [] | _ \<Rightarrow> Some rs)
      | None \<Rightarrow> Some rs)"

definition resolver_addr :: "json \<Rightarrow> string list" where
  "resolver_addr r = string_field (Find r ''Addr'') (\<lambda>s out. out @ [s]) []"

definition parse_dns :: "json option \<Rightarrow> dns_config \<Rightarrow> dns_config" where
  "parse_dns dns cfg =
     (case dns of Some (JSON_OBJECT ms) \<Rightarrow>
        let d = JSON_OBJECT ms;
            rs = (case Find d ''Resolvers'' of Some (JSON_ARRAY vs) \<Rightarrow> concat (map resolver_addr vs) | _ \<Rightarrow> [])
        in \<lparr> resolvers = list_field (Find d ''Nameservers'') rs, domains = list_field (Find d ''Domains'') [] \<rparr>
      | _ \<Rightarrow> cfg)"

subsection \<open>The whole response\<close>

definition Parse :: "tsnetmap \<Rightarrow> string \<Rightarrow> (bool \<times> tsnetmap) option" where
  "Parse nm json =
     (case JsonParse json of None \<Rightarrow> Some (False, nm)
      | Some doc \<Rightarrow>
          if \<not> IsObject doc then Some (False, nm)
          else do {
            let nm = (case Find doc ''Node'' of None \<Rightarrow> nm
                      | Some self \<Rightarrow> (case Find self ''Addresses'' of None \<Rightarrow> nm
                                      | Some addrs \<Rightarrow> nm\<lparr> fSelfAddresses := CollectStrings addrs [] \<rparr>));
            ps \<leftarrow> array_section (Find doc ''Peers'') (\<lambda>vs ps. fold_json (add_peer (\<lambda>ps p. ps @ [p])) vs []) (fPeers nm);
            ps \<leftarrow> array_section (Find doc ''PeersChanged'') (fold_json (add_peer UpsertPeer)) ps;
            ps \<leftarrow> array_section (Find doc ''PeersChangedPatch'') (fold_json apply_patch) ps;
            ps \<leftarrow> array_section (Find doc ''PeersRemoved'') (fold_json remove_peer) ps;
            rs \<leftarrow> parse_derp_map (Find doc ''DERPMap'') (fDerpRegions nm);
            Some (True, nm\<lparr> fPeers := ps, fDerpRegions := rs, fDns := parse_dns (Find doc ''DNSConfig'') (fDns nm) \<rparr>)
          })"

definition DerpRegionById :: "tsnetmap \<Rightarrow> int \<Rightarrow> derp_region option" where
  "DerpRegionById nm i = find (\<lambda>r. regionID r = i) (fDerpRegions nm)"

fun self_ipv4 :: "string list \<Rightarrow> string" where
  "self_ipv4 [] = []"
| "self_ipv4 (cidr # as) =
     (if find_first (CHR '':'') cidr \<noteq> None then self_ipv4 as
      else case find_first (CHR ''/'') cidr of None \<Rightarrow> cidr | Some slash \<Rightarrow> take slash cidr)"

definition SelfIPv4 :: "tsnetmap \<Rightarrow> string" where
  "SelfIPv4 nm = self_ipv4 (fSelfAddresses nm)"

subsection \<open>Documents\<close>

text \<open>What the coordination server sends for a peer, a patch, a relay region and a whole map.\<close>

definition num :: "int \<Rightarrow> json" where
  "num k = JSON_NUMBER (round_double (of_int k))"

definition strs :: "string list \<Rightarrow> json" where
  "strs xs = JSON_ARRAY (map JSON_STRING xs)"

definition peer_json :: "netmap_peer \<Rightarrow> json" where
  "peer_json p = JSON_OBJECT
     ([(''ID'', num (n_nodeID p)), (''Key'', JSON_STRING (''nodekey:'' @ n_nodeKey p)),
       (''DiscoKey'', JSON_STRING (''discokey:'' @ n_discoKey p)), (''AllowedIPs'', strs (n_allowedIPs p)),
       (''Endpoints'', strs (n_endpoints p)), (''Online'', JSON_BOOL (n_online p)),
       (''Hostinfo'', JSON_OBJECT [(''Hostname'', JSON_STRING (n_hostname p))])]
      @ (if n_derpRegion p < 0 then [] else [(''DERP'', JSON_STRING (''127.3.3.40:'' @ show_nat (nat (n_derpRegion p))))]))"

definition nul_free :: "string \<Rightarrow> bool" where
  "nul_free s \<longleftrightarrow> list_all (\<lambda>c. code c \<noteq> 0) s"

definition peer_ok :: "netmap_peer \<Rightarrow> bool" where
  "peer_ok p \<longleftrightarrow> n_nodeKey p \<noteq> [] \<and> nul_free (n_nodeKey p) \<and> nul_free (n_discoKey p)
     \<and> \<bar>n_nodeID p\<bar> < 2 ^ 53 \<and> - 1 \<le> n_derpRegion p \<and> n_derpRegion p < 2 ^ 31"

lemma nul_free_c_str: "nul_free s \<Longrightarrow> c_str s = s"
  by (simp add: nul_free_def)

lemma cast_num: "\<bar>k\<bar> < 2 ^ 53 \<Longrightarrow> cast_int 64 (AsNumber (num k) d) = Some k"
  by (auto simp: num_def round_double_int cast_int_def)

lemma cast_num32: "- (2 ^ 31) \<le> k \<Longrightarrow> k < 2 ^ 31 \<Longrightarrow> cast_int 32 (AsNumber (num k) d) = Some k"
  by (simp add: num_def round_double_int cast_int_def)

lemma CollectStrings_strs [simp]: "CollectStrings (strs xs) out = out @ xs"
  by (simp add: strs_def comp_def)

lemma StripKeyPrefix_prefix:
  "nul_free k \<Longrightarrow> StripKeyPrefix (''nodekey:'' @ k) = k" "nul_free k \<Longrightarrow> StripKeyPrefix (''discokey:'' @ k) = k"
  using nul_free_c_str [of "''nodekey:'' @ k"] nul_free_c_str [of "''discokey:'' @ k"]
  by (simp_all add: StripKeyPrefix_def nul_free_def)

lemma find_last_digits: "CHR '':'' \<notin> set ds \<Longrightarrow> find_last (CHR '':'') (xs @ CHR '':'' # ds) = Some (length xs)"
  using find_first_append_notin [of "CHR '':''" "rev ds" "rev xs"] by (simp add: find_last_def)

lemma ParseDerp_home:
  assumes "0 \<le> r" "r < 2 ^ 31"
  shows "ParseDerp (''127.3.3.40:'' @ show_nat (nat r)) = r"
proof -
  have d: "\<forall>c\<in>set (show_nat (nat r)). isdigit c" using show_nat_digits by (simp add: list_all_iff)
  then have "CHR '':'' \<notin> set (show_nat (nat r))" by (auto simp: isdigit_def)
  from find_last_digits [OF this, of "''127.3.3.40''"]
  have "find_last (CHR '':'') (''127.3.3.40:'' @ show_nat (nat r)) = Some 10" by simp
  moreover have "c_str (''127.3.3.40:'' @ show_nat (nat r)) = ''127.3.3.40:'' @ show_nat (nat r)"
    by (rule c_str_no_nul) (use d in \<open>auto simp: list_all_iff isdigit_def\<close>)
  ultimately show ?thesis
    using assms atoi_show_nat [of "nat r"] by (simp add: ParseDerp_def Let_def nat_less_iff)
qed

lemma ParsePeer_json: "peer_ok p \<Longrightarrow> ParsePeer (peer_json p) = Some (True, p)"
  by (cases p) (auto simp: ParsePeer_def peer_json_def peer_ok_def number_field_def string_field_def list_field_def Let_def
      cast_num StripKeyPrefix_prefix [simplified] ParseDerp_home [simplified] NetmapPeer_def)

definition node_json :: "derp_node \<Rightarrow> json" where
  "node_json n = JSON_OBJECT [(''HostName'', JSON_STRING (hostName n)), (''IPv4'', JSON_STRING (ipv4 n)),
     (''IPv6'', JSON_STRING (ipv6 n)), (''DERPPort'', num (derpPort n))]"

definition region_json :: "derp_region \<Rightarrow> string \<times> json" where
  "region_json r = (show_nat (nat (regionID r)), JSON_OBJECT [(''RegionID'', num (regionID r)),
     (''RegionCode'', JSON_STRING (regionCode r)), (''Nodes'', JSON_ARRAY (map node_json (derp_nodes r)))])"

definition netmap_json :: "tsnetmap \<Rightarrow> json" where
  "netmap_json nm = JSON_OBJECT
     [(''Node'', JSON_OBJECT [(''Addresses'', strs (fSelfAddresses nm))]),
      (''Peers'', JSON_ARRAY (map peer_json (fPeers nm))),
      (''DERPMap'', JSON_OBJECT [(''Regions'', JSON_OBJECT (map region_json (fDerpRegions nm)))]),
      (''DNSConfig'', JSON_OBJECT
         [(''Resolvers'', JSON_ARRAY (map (\<lambda>a. JSON_OBJECT [(''Addr'', JSON_STRING a)]) (resolvers (fDns nm)))),
          (''Domains'', strs (domains (fDns nm)))])]"

definition int32 :: "int \<Rightarrow> bool" where
  "int32 k \<longleftrightarrow> - (2 ^ 31) \<le> k \<and> k < 2 ^ 31"

definition netmap_ok :: "tsnetmap \<Rightarrow> bool" where
  "netmap_ok nm \<longleftrightarrow> list_all peer_ok (fPeers nm)
     \<and> list_all (\<lambda>r. int32 (regionID r) \<and> list_all (\<lambda>n. int32 (derpPort n)) (derp_nodes r)) (fDerpRegions nm)"

lemma fold_peers: "list_all peer_ok ps \<Longrightarrow> fold_json (add_peer ins) (map peer_json ps) qs = Some (foldl ins qs ps)"
  by (induction ps arbitrary: qs) (simp_all add: add_peer_def ParsePeer_json)

lemma foldl_snoc: "foldl (\<lambda>ps p. ps @ [p]) qs ps = qs @ ps"
  by (induction ps arbitrary: qs) simp_all

lemma fold_nodes:
  "list_all (\<lambda>n. int32 (derpPort n)) ns \<Longrightarrow> fold_json parse_derp_node (map node_json ns) ms = Some (ms @ ns)"
  by (induction ns arbitrary: ms)
    (auto simp: parse_derp_node_def node_json_def string_field_def number_field_def cast_num32 int32_def DerpNode_def)

lemma region_loop_json:
  "list_all (\<lambda>r. int32 (regionID r) \<and> list_all (\<lambda>n. int32 (derpPort n)) (derp_nodes r)) rs \<Longrightarrow>
   region_loop (map region_json rs) qs = Some (qs @ rs)"
proof (induction rs arbitrary: qs)
  case (Cons r rs)
  then have "parse_region (region_json r) qs = Some (qs @ [r])"
    by (cases r) (simp add: parse_region_def region_json_def number_field_def string_field_def array_section_def
        cast_num32 int32_def fold_nodes DerpRegion_def)
  then show ?case using Cons by simp
qed simp

lemma resolvers_json: "concat (map (resolver_addr \<circ> (\<lambda>a. JSON_OBJECT [(''Addr'', JSON_STRING a)])) as) = as"
  by (induction as) (simp_all add: resolver_addr_def string_field_def)

text \<open>
  C32. Snapshots: a MapResponse that carries a whole network map (our addresses, every peer with its
  keys, allowed networks, endpoints and home relay, the relay regions and the DNS configuration)
  makes the parser hold exactly this map, whatever it held before.
\<close>

theorem netmap_snapshot:
  assumes "JsonParse s = Some (netmap_json nm)" "netmap_ok nm"
  shows "Parse nm0 s = Some (True, nm)"
  using assms
  by (cases nm; cases "fDns nm")
    (simp add: Parse_def netmap_json_def netmap_ok_def array_section_def fold_peers foldl_snoc
      parse_derp_map_def region_loop_json parse_dns_def list_field_def resolvers_json)

subsection \<open>Deltas\<close>

record peer_patch =
  pt_id :: int
  pt_endpoints :: "string list option"
  pt_derp :: "int option"
  pt_online :: "bool option"
  pt_key :: "string option"
  pt_disco :: "string option"

definition patch_json :: "peer_patch \<Rightarrow> json" where
  "patch_json pt = JSON_OBJECT ([(''NodeID'', num (pt_id pt))]
     @ (case pt_endpoints pt of None \<Rightarrow> [] | Some es \<Rightarrow> [(''Endpoints'', strs es)])
     @ (case pt_derp pt of None \<Rightarrow> [] | Some r \<Rightarrow> [(''DERPRegion'', num r)])
     @ (case pt_online pt of None \<Rightarrow> [] | Some b \<Rightarrow> [(''Online'', JSON_BOOL b)])
     @ (case pt_key pt of None \<Rightarrow> [] | Some k \<Rightarrow> [(''Key'', JSON_STRING (''nodekey:'' @ k))])
     @ (case pt_disco pt of None \<Rightarrow> [] | Some k \<Rightarrow> [(''DiscoKey'', JSON_STRING (''discokey:'' @ k))]))"

definition patch_ok :: "peer_patch \<Rightarrow> bool" where
  "patch_ok pt \<longleftrightarrow> \<bar>pt_id pt\<bar> < 2 ^ 53 \<and> pred_option int32 (pt_derp pt) \<and> pred_option nul_free (pt_key pt)
     \<and> pred_option nul_free (pt_disco pt)"

definition patched :: "peer_patch \<Rightarrow> netmap_peer \<Rightarrow> netmap_peer" where
  "patched pt p = p\<lparr>
     n_endpoints := (case pt_endpoints pt of None \<Rightarrow> n_endpoints p | Some es \<Rightarrow> es),
     n_derpRegion := (case pt_derp pt of None \<Rightarrow> n_derpRegion p | Some r \<Rightarrow> r),
     n_online := (case pt_online pt of None \<Rightarrow> n_online p | Some b \<Rightarrow> b),
     n_nodeKey := (case pt_key pt of None \<Rightarrow> n_nodeKey p | Some k \<Rightarrow> k),
     n_discoKey := (case pt_disco pt of None \<Rightarrow> n_discoKey p | Some k \<Rightarrow> k) \<rparr>"

lemma patch_peer_json: "patch_ok pt \<Longrightarrow> patch_peer (patch_json pt) p = Some (patched pt p)"
  by (cases p; cases pt)
    (auto simp: patch_ok_def patch_peer_def patch_json_def patched_def number_field_def string_field_def cast_num32 int32_def
      StripKeyPrefix_prefix [simplified] split: option.split)

lemma find_NodeID: "Find (patch_json pt) ''NodeID'' = Some (num (pt_id pt))" "IsObject (patch_json pt)"
  by (simp_all add: patch_json_def)

text \<open>The peers as a map from node ids.\<close>

fun by_id :: "netmap_peer list \<Rightarrow> int \<Rightarrow> netmap_peer option" where
  "by_id [] i = None"
| "by_id (p # ps) i = (if n_nodeID p = i then Some p else by_id ps i)"

definition ids :: "netmap_peer list \<Rightarrow> int list" where
  "ids ps = map n_nodeID ps"

lemma ids_simps [simp]: "ids [] = []" "ids (p # ps) = n_nodeID p # ids ps"
  by (simp_all add: ids_def)

lemma by_id_None: "by_id ps i = None \<longleftrightarrow> i \<notin> set (ids ps)"
  by (induction ps) auto

lemma by_id_append: "by_id (ps @ qs) i = (case by_id ps i of None \<Rightarrow> by_id qs i | Some p \<Rightarrow> Some p)"
  by (induction ps) auto

lemma upsert_ids:
  "n_nodeID c \<noteq> 0 \<Longrightarrow> \<forall>p\<in>set ps. n_nodeKey p = n_nodeKey c \<longrightarrow> n_nodeID p = n_nodeID c \<Longrightarrow>
   set (ids (UpsertPeer ps c)) = insert (n_nodeID c) (set (ids ps)) \<and> (distinct (ids ps) \<longrightarrow> distinct (ids (UpsertPeer ps c)))"
  by (induction ps) auto

lemma upsert_by_id:
  "n_nodeID c \<noteq> 0 \<Longrightarrow> \<forall>p\<in>set ps. n_nodeKey p = n_nodeKey c \<longrightarrow> n_nodeID p = n_nodeID c \<Longrightarrow>
   by_id (UpsertPeer ps c) i = (if i = n_nodeID c then Some c else by_id ps i)"
  by (induction ps) auto

lemma upsert_subset: "set (UpsertPeer ps c) \<subseteq> insert c (set ps)"
  by (induction ps) auto

lemma upsert_all:
  assumes "distinct (ids ps)" "0 \<notin> set (ids cs)"
    "\<forall>p\<in>set (ps @ cs). \<forall>c\<in>set cs. n_nodeKey p = n_nodeKey c \<longrightarrow> n_nodeID p = n_nodeID c"
  shows "(\<forall>i. by_id (foldl UpsertPeer ps cs) i = by_id (rev cs @ ps) i) \<and> distinct (ids (foldl UpsertPeer ps cs))"
  using assms
proof (induction cs arbitrary: ps)
  case (Cons c cs)
  have c1: "n_nodeID c \<noteq> 0" using Cons.prems(2) by auto
  have c2: "\<forall>p\<in>set ps. n_nodeKey p = n_nodeKey c \<longrightarrow> n_nodeID p = n_nodeID c"
    using Cons.prems(3) unfolding set_append list.set by blast
  note c = c1 c2
  have "\<forall>p\<in>set (UpsertPeer ps c @ cs). \<forall>c\<in>set cs. n_nodeKey p = n_nodeKey c \<longrightarrow> n_nodeID p = n_nodeID c"
    using Cons.prems(3) upsert_subset [of ps c] unfolding set_append list.set by blast
  moreover have "distinct (ids (UpsertPeer ps c))" "0 \<notin> set (ids cs)"
    using Cons.prems(1,2) upsert_ids [OF c] by simp_all
  ultimately have "(\<forall>i. by_id (foldl UpsertPeer (UpsertPeer ps c) cs) i = by_id (rev cs @ UpsertPeer ps c) i)
      \<and> distinct (ids (foldl UpsertPeer (UpsertPeer ps c) cs))"
    using Cons.IH by blast
  then show ?case by (simp add: by_id_append upsert_by_id [OF c] split: option.splits)
qed simp

definition patch_map :: "(int \<rightharpoonup> netmap_peer) \<Rightarrow> peer_patch \<Rightarrow> int \<rightharpoonup> netmap_peer" where
  "patch_map m pt = (\<lambda>i. if i = pt_id pt then map_option (patched pt) (m i) else m i)"

lemma patch_loop_by_id:
  assumes "patch_ok pt" "distinct (ids ps)"
  shows "\<exists>ps'. patch_loop (pt_id pt) (patch_json pt) ps = Some ps' \<and> by_id ps' = patch_map (by_id ps) pt \<and> ids ps' = ids ps"
  using assms(2)
proof (induction ps)
  case (Cons q qs)
  then obtain qs' where IH: "patch_loop (pt_id pt) (patch_json pt) qs = Some qs'" "by_id qs' = patch_map (by_id qs) pt" "ids qs' = ids qs"
    by auto
  have q: "n_nodeID (patched pt q) = n_nodeID q" by (simp add: patched_def)
  show ?case
  proof (cases "n_nodeID q = pt_id pt")
    case True
    then show ?thesis
      using patch_peer_json [OF assms(1), of q] q by (auto simp: patch_map_def intro!: ext)
  next
    case False
    then show ?thesis
      using IH by (auto simp: patch_map_def intro!: ext)
  qed
qed (auto simp: patch_map_def intro!: ext)

lemma patch_all:
  assumes "list_all patch_ok pts" "distinct (ids ps)"
  shows "\<exists>ps'. fold_json apply_patch (map patch_json pts) ps = Some ps' \<and> by_id ps' = foldl patch_map (by_id ps) pts \<and> distinct (ids ps')"
  using assms
proof (induction pts arbitrary: ps)
  case (Cons pt pts)
  then obtain ps1 where ps1: "patch_loop (pt_id pt) (patch_json pt) ps = Some ps1" "by_id ps1 = patch_map (by_id ps) pt" "ids ps1 = ids ps"
    using patch_loop_by_id [of pt ps] by auto
  then have "apply_patch (patch_json pt) ps = Some ps1"
    using Cons.prems by (simp add: apply_patch_def find_NodeID cast_num patch_ok_def)
  then show ?case using Cons.IH [of ps1] Cons.prems ps1 by simp
qed simp

lemma erase_by_id:
  "distinct (ids ps) \<Longrightarrow> by_id (erase_id g ps) i = (if i = g then None else by_id ps i)"
  "set (ids (erase_id g ps)) \<subseteq> set (ids ps) \<and> (distinct (ids ps) \<longrightarrow> distinct (ids (erase_id g ps)))"
  by (induction ps) (auto simp: by_id_None)

lemma remove_all:
  assumes "\<forall>g\<in>set rs. \<bar>g\<bar> < 2 ^ 53" "distinct (ids ps)"
  shows "\<exists>ps'. fold_json remove_peer (map num rs) ps = Some ps'
     \<and> (\<forall>i. by_id ps' i = (if i \<in> set rs then None else by_id ps i)) \<and> distinct (ids ps')"
  using assms
proof (induction rs arbitrary: ps)
  case (Cons g rs)
  have "remove_peer (num g) ps = Some (erase_id g ps)" using Cons.prems by (simp add: remove_peer_def cast_num)
  then show ?case
    using Cons.IH [of "erase_id g ps"] Cons.prems erase_by_id(1) [of ps g] erase_by_id(2) [of g ps] by auto
qed simp

definition delta_json :: "netmap_peer list \<Rightarrow> peer_patch list \<Rightarrow> int list \<Rightarrow> json" where
  "delta_json cs pts rs = JSON_OBJECT
     [(''PeersChanged'', JSON_ARRAY (map peer_json cs)), (''PeersChangedPatch'', JSON_ARRAY (map patch_json pts)),
      (''PeersRemoved'', JSON_ARRAY (map num rs))]"

definition keys_agree :: "netmap_peer list \<Rightarrow> netmap_peer list \<Rightarrow> bool" where
  "keys_agree ps cs \<longleftrightarrow> (\<forall>p\<in>set (ps @ cs). \<forall>c\<in>set cs. n_nodeKey p = n_nodeKey c \<longrightarrow> n_nodeID p = n_nodeID c)"

lemma delta_sections:
  assumes "list_all peer_ok cs" "list_all patch_ok pts" "\<forall>g\<in>set rs. \<bar>g\<bar> < 2 ^ 53"
    "distinct (ids ps)" "0 \<notin> set (ids cs)" "keys_agree ps cs"
  shows "\<exists>ps1 ps2 ps3. fold_json (add_peer UpsertPeer) (map peer_json cs) ps = Some ps1
     \<and> fold_json apply_patch (map patch_json pts) ps1 = Some ps2 \<and> fold_json remove_peer (map num rs) ps2 = Some ps3
     \<and> by_id ps3 = foldl patch_map (by_id ps ++ by_id (rev cs)) pts |` (- set rs) \<and> distinct (ids ps3)"
proof -
  let ?ps1 = "foldl UpsertPeer ps cs"
  have 1: "by_id ?ps1 = by_id ps ++ by_id (rev cs)" "distinct (ids ?ps1)"
    using upsert_all [OF assms(4,5) assms(6) [unfolded keys_agree_def]]
    by (auto simp: by_id_append map_add_def)
  obtain ps2 where 2: "fold_json apply_patch (map patch_json pts) ?ps1 = Some ps2"
    "by_id ps2 = foldl patch_map (by_id ?ps1) pts" "distinct (ids ps2)"
    using patch_all [OF assms(2) 1(2)] by blast
  obtain ps3 where 3: "fold_json remove_peer (map num rs) ps2 = Some ps3"
    "\<forall>i. by_id ps3 i = (if i \<in> set rs then None else by_id ps2 i)" "distinct (ids ps3)"
    using remove_all [OF assms(3) 2(3)] by blast
  have "by_id ps3 = by_id ps2 |` (- set rs)" using 3(2) by (auto simp: restrict_map_def)
  then show ?thesis using fold_peers [OF assms(1)] 1 2 3 by auto
qed

text \<open>
  C30. Deltas: on a map whose peers have pairwise different node ids, a MapResponse with changed
  peers, patches and removals updates the peers as a finite map from ids: the changed peers
  override the entries of their ids, each patch changes just the listed fields of its peer (and
  nothing when the id is unknown), removed ids disappear, every other peer and every other section
  stays; the ids stay pairwise different.  It assumes that changed peers have a non-zero id and do
  not carry the node key of a peer with another id.
\<close>

theorem netmap_delta:
  assumes "JsonParse s = Some (delta_json cs pts rs)"
    "list_all peer_ok cs" "list_all patch_ok pts" "\<forall>g\<in>set rs. \<bar>g\<bar> < 2 ^ 53"
    "distinct (ids (fPeers nm))" "0 \<notin> set (ids cs)" "keys_agree (fPeers nm) cs"
  shows "\<exists>nm'. Parse nm s = Some (True, nm') \<and> nm' = nm\<lparr> fPeers := fPeers nm' \<rparr> \<and> distinct (ids (fPeers nm'))
     \<and> by_id (fPeers nm') = foldl patch_map (by_id (fPeers nm) ++ by_id (rev cs)) pts |` (- set rs)"
proof -
  obtain ps1 ps2 ps3 where ps: "fold_json (add_peer UpsertPeer) (map peer_json cs) (fPeers nm) = Some ps1"
    "fold_json apply_patch (map patch_json pts) ps1 = Some ps2" "fold_json remove_peer (map num rs) ps2 = Some ps3"
    "by_id ps3 = foldl patch_map (by_id (fPeers nm) ++ by_id (rev cs)) pts |` (- set rs)" "distinct (ids ps3)"
    using delta_sections [OF assms(2-7)] by blast
  have "Parse nm s = Some (True, nm\<lparr> fPeers := ps3 \<rparr>)"
    using assms(1) ps(1-3) by (simp add: Parse_def delta_json_def array_section_def parse_derp_map_def parse_dns_def)
  then show ?thesis using ps(4,5) by auto
qed

subsection \<open>Sample documents\<close>

text \<open>A text with \<open>~\<close> for the quotation mark.\<close>

definition quoted :: "string \<Rightarrow> string" where
  "quoted s = map (\<lambda>c. if c = CHR ''~'' then CHR 0x22 else c) s"

definition sample_peer :: "int \<Rightarrow> string \<Rightarrow> netmap_peer" where
  "sample_peer i k = NetmapPeer\<lparr> n_nodeID := i, n_nodeKey := k \<rparr>"

definition sample_map :: tsnetmap where
  "sample_map = TSNetmap\<lparr> fSelfAddresses := [''100.64.0.1/32''], fPeers := [sample_peer 1 ''a''] \<rparr>"

definition sample_text :: string where
  "sample_text = quoted (''{~Node~:{~Addresses~:[~100.64.0.1/32~]}, ~Peers~:[{~ID~:1,~Key~:~nodekey:a~,~DiscoKey~:~discokey:~,''
     @ ''~AllowedIPs~:[],~Endpoints~:[],~Online~:false,~Hostinfo~:{~Hostname~:~~}}],''
     @ ''~DERPMap~:{~Regions~:{}}, ~DNSConfig~:{~Resolvers~:[],~Domains~:[]}}'')"

theorem netmap_snapshot_witness: "Parse TSNetmap sample_text = Some (True, sample_map)"
proof -
  have "JsonParse sample_text = Some (netmap_json sample_map)" by code_simp
  moreover have "netmap_ok sample_map" by code_simp
  ultimately show ?thesis by (rule netmap_snapshot)
qed

definition sample_patch :: peer_patch where
  "sample_patch = \<lparr> pt_id = 1, pt_endpoints = None, pt_derp = None, pt_online = Some True, pt_key = None, pt_disco = None \<rparr>"

definition sample_delta :: string where
  "sample_delta = quoted (''{~PeersChanged~:[{~ID~:3,~Key~:~nodekey:c~,~DiscoKey~:~discokey:~,~AllowedIPs~:[],''
     @ ''~Endpoints~:[],~Online~:false,~Hostinfo~:{~Hostname~:~~}}],''
     @ ''~PeersChangedPatch~:[{~NodeID~:1,~Online~:true}],~PeersRemoved~:[2]}'')"

theorem netmap_delta_witness:
  "\<exists>nm'. Parse (TSNetmap\<lparr> fPeers := [sample_peer 1 ''a'', sample_peer 2 ''b''] \<rparr>) sample_delta = Some (True, nm')
     \<and> by_id (fPeers nm') 1 = Some ((sample_peer 1 ''a'')\<lparr> n_online := True \<rparr>) \<and> by_id (fPeers nm') 2 = None
     \<and> by_id (fPeers nm') 3 = Some (sample_peer 3 ''c'')"
proof -
  let ?nm = "TSNetmap\<lparr> fPeers := [sample_peer 1 ''a'', sample_peer 2 ''b''] \<rparr>" and ?cs = "[sample_peer 3 ''c'']"
  have "JsonParse sample_delta = Some (delta_json ?cs [sample_patch] [2])" by code_simp
  moreover have "list_all peer_ok ?cs" "list_all patch_ok [sample_patch]" "\<forall>g\<in>set [2]. \<bar>g :: int\<bar> < 2 ^ 53"
    "distinct (ids (fPeers ?nm))" "0 \<notin> set (ids ?cs)" "keys_agree (fPeers ?nm) ?cs"
    by (simp_all add: patch_ok_def sample_patch_def keys_agree_def sample_peer_def peer_ok_def NetmapPeer_def nul_free_def)
  ultimately obtain nm' where nm': "Parse ?nm sample_delta = Some (True, nm')"
    "by_id (fPeers nm') = foldl patch_map (by_id (fPeers ?nm) ++ by_id (rev ?cs)) [sample_patch] |` (- set [2])"
    using netmap_delta by blast
  have "by_id (fPeers nm') 1 = Some ((sample_peer 1 ''a'')\<lparr> n_online := True \<rparr>) \<and> by_id (fPeers nm') 2 = None
      \<and> by_id (fPeers nm') 3 = Some (sample_peer 3 ''c'')"
    unfolding nm'(2) by (simp add: patch_map_def sample_patch_def sample_peer_def patched_def map_add_def NetmapPeer_def)
  then show ?thesis using nm'(1) by blast
qed

end
