(* ===== verification/Routes.thy ===== *)
theory Routes
  imports CLib
begin

text \<open>
  Route planning: \<open>src/common/WireGuardRoutes.cpp\<close> (\<open>ParseAllowedIPs\<close>) and
  \<open>src/backend/tailscale/TSRoutes.cpp\<close> (\<open>ComputeSubnetRoutes\<close>, \<open>DiffRoutes\<close>,
  \<open>ComputeExitCarveouts\<close>, \<open>DiffCarveouts\<close>).  The locale \<open>reconcile\<close> is the contract of the
  two difference functions towards the code that turns their results into \<open>route\<close> commands;
  both are interpretations of it.  \<open>subnet_routes_planned\<close> says which routes are planned for a
  list of advertised networks.
\<close>

subsection \<open>AllowedIPs\<close>

record allowed_route =
  ar_net :: string
  ar_mask :: string
  isDefault :: bool

definition trim :: "string \<Rightarrow> string" where
  "trim s = trim_ends isspace isspace s"

definition prefix_mask :: "int \<Rightarrow> u32" where
  "prefix_mask prefix = (if prefix = 0 then 0 else push_bit (nat (32 - prefix)) 0xFFFFFFFF)"

definition dotted :: "u32 \<Rightarrow> string" where
  "dotted m = fmt_ipv4 (unat (drop_bit 24 m AND 0xFF)) (unat (drop_bit 16 m AND 0xFF))
     (unat (drop_bit 8 m AND 0xFF)) (unat (m AND 0xFF))"

text \<open>One token of the list: a route, a skipped IPv6 network, or nothing.\<close>

definition allowed_token :: "string \<Rightarrow> allowed_route list \<times> string list" where
  "allowed_token tok =
     (let token = trim tok in
      if token = [] then ([], [])
      else if find_first (CHR '':'') token \<noteq> None then ([], [token])
      else let (net, prefix) =
             (case find_first (CHR ''/'') token of
                None \<Rightarrow> (token, 32)
              | Some slash \<Rightarrow> (take slash token, atoi (drop (slash + 1) token)));
             net = trim net
           in if net = [] \<or> prefix < 0 \<or> prefix > 32 then ([], [])
              else ([\<lparr> ar_net = net, ar_mask = dotted (prefix_mask prefix),
                       isDefault = (net = ''0.0.0.0'' \<and> prefix = 0) \<rparr>], []))"

definition ParseAllowedIPs :: "string \<Rightarrow> allowed_route list \<times> string list" where
  "ParseAllowedIPs allowed =
     (let ts = map allowed_token (split_on (CHR '','') allowed)
      in (concat (map fst ts), concat (map snd ts)))"

subsection \<open>Subnet routes\<close>

definition kTailnetNet :: u32 where "kTailnetNet = 0x64400000"
definition kTailnetMask :: u32 where "kTailnetMask = 0xFFC00000"

record subnet_route =
  sr_net :: string
  sr_mask :: string

definition parse_ipv4 :: "string option \<Rightarrow> u32 option" where
  "parse_ipv4 s =
     (case s of None \<Rightarrow> None | Some s \<Rightarrow>
      case sscanf_ipv4 s of None \<Rightarrow> None
      | Some (a, b, c, d) \<Rightarrow>
          if a > 255 \<or> b > 255 \<or> c > 255 \<or> d > 255 then None
          else Some (push_bit 24 a OR push_bit 16 b OR push_bit 8 c OR d))"

definition contains :: "subnet_route list \<Rightarrow> subnet_route \<Rightarrow> bool" where
  "contains v r = list_ex (\<lambda>x. x = r) v"

definition subnet_step :: "subnet_route list \<Rightarrow> allowed_route \<Rightarrow> subnet_route list" where
  "subnet_step out c =
     (if isDefault c then out
      else case parse_ipv4 (Some (ar_net c)) of None \<Rightarrow> out
      | Some net \<Rightarrow>
          if net AND kTailnetMask = kTailnetNet then out
          else let r = \<lparr> sr_net = ar_net c, sr_mask = ar_mask c \<rparr>
               in if \<not> contains out r then out @ [r] else out)"

definition ComputeSubnetRoutes :: "string list \<Rightarrow> subnet_route list" where
  "ComputeSubnetRoutes allowedIPs =
     foldl (\<lambda>out a. foldl subnet_step out (fst (ParseAllowedIPs a))) [] allowedIPs"

definition DiffRoutes ::
  "subnet_route list \<Rightarrow> subnet_route list \<Rightarrow> subnet_route list \<times> subnet_route list" where
  "DiffRoutes desired installed =
     (filter (\<lambda>r. \<not> contains installed r) desired, filter (\<lambda>r. \<not> contains desired r) installed)"

subsection \<open>Carve-outs\<close>

definition contains_ip :: "string list \<Rightarrow> string \<Rightarrow> bool" where
  "contains_ip v ip = list_ex (\<lambda>x. x = ip) v"

definition ComputeExitCarveouts :: "string list \<Rightarrow> string list" where
  "ComputeExitCarveouts underlayIPs =
     foldl (\<lambda>out ip. if length ip = 0 \<or> parse_ipv4 (Some ip) = None then out
                     else if \<not> contains_ip out ip then out @ [ip] else out) [] underlayIPs"

definition DiffCarveouts :: "string list \<Rightarrow> string list \<Rightarrow> string list \<times> string list" where
  "DiffCarveouts desired pinned =
     (filter (\<lambda>r. \<not> contains_ip pinned r) desired, filter (\<lambda>r. \<not> contains_ip desired r) pinned)"

subsection \<open>Reconciliation\<close>

text \<open>
  What a difference function promises its caller, who holds the list \<open>have\<close> of things it has put
  into a shared table, wants the list \<open>want\<close> there, and executes the additions and then the
  removals.  \<open>f\<close> turns a thing into its table entry.
\<close>

locale reconcile =
  fixes diff :: "'a list \<Rightarrow> 'a list \<Rightarrow> 'a list \<times> 'a list"
  assumes to_add: "set (fst (diff want have)) = set want - set have"
    and to_remove: "set (snd (diff want have)) = set have - set want"
begin

lemma table_after:
  fixes f :: "'a \<Rightarrow> 'b"
  assumes "inj_on f (set want \<union> set have)" "table = others \<union> f ` set have" "others \<inter> f ` set want = {}"
    "others \<inter> f ` set have = {}"
  shows "(table \<union> f ` set (fst (diff want have))) - f ` set (snd (diff want have)) = others \<union> f ` set want"
proof -
  have "f ` (set want - set have) = f ` set want - f ` set have"
    "f ` (set have - set want) = f ` set have - f ` set want"
    by (rule inj_on_image_set_diff [OF assms(1)]; auto)+
  moreover have "(O' \<union> H \<union> (W - H)) - (H - W) = O' \<union> W" if "O' \<inter> W = {}" "O' \<inter> H = {}" for O' H W :: "'b set"
    using that by blast
  ultimately show ?thesis
    using assms(2-4) by (simp only: to_add to_remove)
qed

lemma settled: "diff want want = ([], [])"
proof -
  have "fst (diff want want) = []" "snd (diff want want) = []"
    using to_add [of want want] to_remove [of want want] by simp_all
  then show ?thesis by (simp add: prod_eq_iff)
qed

end

lemma contains_set [simp]: "contains v r \<longleftrightarrow> r \<in> set v"
  by (auto simp: contains_def list_ex_iff)

lemma contains_ip_set [simp]: "contains_ip v ip \<longleftrightarrow> ip \<in> set v"
  by (auto simp: contains_ip_def list_ex_iff)

interpretation routes: reconcile DiffRoutes
  by unfold_locales (auto simp: DiffRoutes_def)

interpretation carveouts: reconcile DiffCarveouts
  by unfold_locales (auto simp: DiffCarveouts_def)

subsection \<open>What is planned\<close>

text \<open>An entry of an AllowedIPs list: an IPv4 network with its prefix length, or an IPv6 text.\<close>

datatype net_entry = V4 u32 nat | V6 string

fun entry_ok :: "net_entry \<Rightarrow> bool" where
  "entry_ok (V4 n p) \<longleftrightarrow> p \<le> 32"
| "entry_ok (V6 t) \<longleftrightarrow> CHR '':'' \<in> set t \<and> CHR '','' \<notin> set t \<and> trim t = t"

fun entry_text :: "net_entry \<Rightarrow> string" where
  "entry_text (V4 n p) = dotted n @ ''/'' @ show_nat p"
| "entry_text (V6 t) = t"

fun allowed_text :: "net_entry list \<Rightarrow> string" where
  "allowed_text [] = []"
| "allowed_text [e] = entry_text e"
| "allowed_text (e # es) = entry_text e @ '', '' @ allowed_text es"

fun entry_route :: "net_entry \<Rightarrow> allowed_route list \<times> string list" where
  "entry_route (V4 n p) =
     ([\<lparr> ar_net = dotted n, ar_mask = dotted (prefix_mask (int p)), isDefault = (n = 0 \<and> p = 0) \<rparr>], [])"
| "entry_route (V6 t) = ([], [t])"

lemma byte_and_255: "(of_nat (unat (x AND 0xFF)) :: u32) = x AND 0xFF" for x :: u32
  by simp

lemma byte_bounds: "unat (x AND 0xFF) < 2 ^ 32" "\<not> x AND 0xFF > 255" for x :: u32
  by (simp_all add: and255 word_less_nat_alt less_imp_le order_less_le_trans [of _ 256])

lemma sscanf_dotted:
  "sscanf_ipv4 (dotted n) = Some (drop_bit 24 n AND 0xFF, drop_bit 16 n AND 0xFF, drop_bit 8 n AND 0xFF, n AND 0xFF)"
  unfolding dotted_def by (subst sscanf_ipv4_fmt_ipv4) (simp_all only: byte_bounds byte_and_255)

lemma octets_join: "push_bit 24 (drop_bit 24 n AND 0xFF) OR push_bit 16 (drop_bit 16 n AND 0xFF)
    OR push_bit 8 (drop_bit 8 n AND 0xFF) OR (n AND 0xFF) = n" for n :: u32
proof (rule bit_word_eqI)
  fix i assume i: "i < LENGTH(32)"
  have m: "(0xFF :: u32) = mask 8" by (simp add: mask_eq_exp_minus_1)
  have "i < 8 \<or> 8 \<le> i \<and> i < 16 \<or> 16 \<le> i \<and> i < 24 \<or> 24 \<le> i" by arith
  then show "bit (push_bit 24 (drop_bit 24 n AND 0xFF) OR push_bit 16 (drop_bit 16 n AND 0xFF)
      OR push_bit 8 (drop_bit 8 n AND 0xFF) OR (n AND 0xFF)) i = bit n i"
    using i unfolding m by (elim disjE) (auto simp: bit_simps)
qed

lemma parse_dotted [simp]: "parse_ipv4 (Some (dotted n)) = Some n"
  using octets_join [of n] by (simp only: parse_ipv4_def sscanf_dotted option.case prod.case byte_bounds simp_thms if_False)

lemma dotted_inj: "dotted m = dotted n \<longleftrightarrow> m = n"
  using parse_dotted by (metis option.inject)

lemma dotted_0: "dotted 0 = ''0.0.0.0''"
proof -
  have "char_of (48 :: nat) = CHR ''0''" by code_simp
  then show ?thesis by (simp add: dotted_def fmt_ipv4_def show_nat.simps)
qed

text \<open>The characters of the texts, for splitting and trimming.\<close>

definition numeric :: "string \<Rightarrow> bool" where
  "numeric s = list_all (\<lambda>c. isdigit c \<or> c = CHR ''.'') s"

lemma numeric_append [simp]: "numeric (s @ t) \<longleftrightarrow> numeric s \<and> numeric t"
  by (simp add: numeric_def)

lemma numeric_Cons [simp]: "numeric (c # s) \<longleftrightarrow> (isdigit c \<or> c = CHR ''.'') \<and> numeric s"
  by (simp add: numeric_def)

lemma numeric_show [simp]: "numeric (show_nat n)"
  using show_nat_digits [of n] by (auto simp: numeric_def list_all_iff)

lemma numeric_dotted [simp]: "numeric (dotted n)"
  by (simp add: dotted_def fmt_ipv4_def)

lemma numeric_notin:
  "numeric s \<Longrightarrow> CHR '','' \<notin> set s \<and> CHR '':'' \<notin> set s \<and> CHR ''/'' \<notin> set s \<and> (\<forall>c\<in>set s. \<not> isspace c)"
  by (auto simp: numeric_def list_all_iff isdigit_def isspace_def)

lemma trim_no_space: "\<forall>c\<in>set s. \<not> isspace c \<Longrightarrow> trim s = s"
  by (metis trim_def trim_ends_def dropWhile_eq_self_iff hd_in_set rev_rev_ident set_rev)

lemma token_entry: "entry_ok e \<Longrightarrow> allowed_token (entry_text e) = entry_route e"
proof (cases e)
  case (V6 t)
  assume "entry_ok e"
  then show ?thesis using V6 by (auto simp: allowed_token_def)
next
  case (V4 n p)
  assume "entry_ok e"
  then have p: "p \<le> 32" using V4 by simp
  have nd: "CHR '':'' \<notin> set (dotted n)" "CHR ''/'' \<notin> set (dotted n)" "\<forall>c\<in>set (dotted n). \<not> isspace c"
    "CHR '':'' \<notin> set (show_nat p)" "\<forall>c\<in>set (show_nat p). \<not> isspace c"
    using numeric_notin [of "dotted n"] numeric_notin [of "show_nat p"] by auto
  have t: "trim (dotted n @ ''/'' @ show_nat p) = dotted n @ ''/'' @ show_nat p" "trim (dotted n) = dotted n"
    using nd by (auto intro!: trim_no_space simp: isspace_def)
  have f: "find_first (CHR ''/'') (dotted n @ ''/'' @ show_nat p) = Some (length (dotted n))"
    using find_first_append_notin [of "CHR ''/''" "dotted n" "show_nat p"] nd by simp
  have ne: "dotted n \<noteq> []" by (simp add: dotted_def fmt_ipv4_def)
  have dflt: "dotted n = ''0.0.0.0'' \<longleftrightarrow> n = 0" using dotted_inj [of n 0] by (simp add: dotted_0)
  have a: "atoi (show_nat p) = int p" using p by (intro atoi_show_nat) simp
  show ?thesis
    using p V4 nd t f ne a dflt by (simp add: allowed_token_def Let_def)
qed

text \<open>Parsing a whole list.\<close>

lemma entry_no_comma: "entry_ok e \<Longrightarrow> CHR '','' \<notin> set (entry_text e)"
  using numeric_notin [of "dotted n" for n] numeric_notin [of "show_nat n" for n] by (cases e) auto

lemma token_space: "allowed_token (CHR '' '' # t) = allowed_token t"
  by (simp add: allowed_token_def trim_def trim_ends_def isspace_def)

lemma tokens_of_text:
  "es \<noteq> [] \<Longrightarrow> \<forall>e\<in>set es. entry_ok e \<Longrightarrow>
   map allowed_token (split_on (CHR '','') (allowed_text es)) = map entry_route es
   \<and> map allowed_token (split_on (CHR '','') (CHR '' '' # allowed_text es)) = map entry_route es"
proof (induction es rule: allowed_text.induct)
  case (2 e)
  then show ?case
    using entry_no_comma [of e] split_on_notin [of "CHR '',''" "CHR '' '' # entry_text e"]
    by (simp add: split_on_notin token_entry token_space)
next
  case (3 e e' es)
  have "split_on (CHR '','') (t @ '', '' @ r) = t # split_on (CHR '','') (CHR '' '' # r)"
    if "CHR '','' \<notin> set t" for t r
    using split_on_append_delim [OF that, of "CHR '' '' # r"] by simp
  from this [of "entry_text e"] this [of "CHR '' '' # entry_text e"] show ?case
    using 3 entry_no_comma [of e] by (simp add: token_entry token_space)
qed simp

lemma ParseAllowedIPs_text:
  assumes "es \<noteq> []" "\<forall>e\<in>set es. entry_ok e"
  shows "ParseAllowedIPs (allowed_text es) = (concat (map (fst \<circ> entry_route) es), concat (map (snd \<circ> entry_route) es))"
  using tokens_of_text [OF assms] by (simp add: ParseAllowedIPs_def Let_def del: map_map) (simp add: comp_def)

text \<open>The accumulation of routes.\<close>

definition wanted :: "allowed_route \<Rightarrow> bool" where
  "wanted c \<longleftrightarrow> \<not> isDefault c \<and> (case parse_ipv4 (Some (ar_net c)) of None \<Rightarrow> False | Some net \<Rightarrow> net AND kTailnetMask \<noteq> kTailnetNet)"

definition route_of :: "allowed_route \<Rightarrow> subnet_route" where
  "route_of c = \<lparr> sr_net = ar_net c, sr_mask = ar_mask c \<rparr>"

lemma subnet_fold:
  "distinct out \<Longrightarrow> distinct (foldl subnet_step out cs)
   \<and> set (foldl subnet_step out cs) = set out \<union> route_of ` {c \<in> set cs. wanted c}"
proof (induction cs arbitrary: out)
  case (Cons c cs)
  have "distinct (subnet_step out c) \<and> set (subnet_step out c) = set out \<union> (if wanted c then {route_of c} else {})"
    using Cons.prems by (auto simp: subnet_step_def wanted_def route_of_def Let_def split: option.splits)
  then show ?case using Cons.IH [of "subnet_step out c"] by auto
qed simp

lemma ComputeSubnetRoutes_set:
  "distinct (ComputeSubnetRoutes as)
   \<and> set (ComputeSubnetRoutes as) = route_of ` {c. wanted c \<and> (\<exists>a\<in>set as. c \<in> set (fst (ParseAllowedIPs a)))}"
proof -
  have "foldl (\<lambda>out a. foldl subnet_step out (fst (ParseAllowedIPs a))) out as
      = foldl subnet_step out (concat (map (fst \<circ> ParseAllowedIPs) as))" for out
    by (induction as arbitrary: out) auto
  then show ?thesis
    using subnet_fold [of "[]" "concat (map (fst \<circ> ParseAllowedIPs) as)"]
    by (auto simp: ComputeSubnetRoutes_def)
qed


lemma planned_routes:
  assumes "\<forall>es\<in>set ess. es \<noteq> [] \<and> (\<forall>e\<in>set es. entry_ok e)"
  shows "set (ComputeSubnetRoutes (map allowed_text ess)) =
     {\<lparr> sr_net = dotted n, sr_mask = dotted (prefix_mask (int p)) \<rparr> | n p.
        V4 n p \<in> (\<Union>es\<in>set ess. set es) \<and> \<not> (n = 0 \<and> p = 0) \<and> n AND kTailnetMask \<noteq> kTailnetNet}"
proof -
  have entry: "route_of ` {c. wanted c \<and> c \<in> set (fst (entry_route e))} =
      {\<lparr> sr_net = dotted n, sr_mask = dotted (prefix_mask (int p)) \<rparr> | n p.
        V4 n p = e \<and> \<not> (n = 0 \<and> p = 0) \<and> n AND kTailnetMask \<noteq> kTailnetNet}" for e
    by (cases e) (auto simp: wanted_def route_of_def)
  have "route_of ` {c. wanted c \<and> (\<exists>a\<in>set (map allowed_text ess). c \<in> set (fst (ParseAllowedIPs a)))}
      = route_of ` {c. wanted c \<and> (\<exists>es\<in>set ess. \<exists>e\<in>set es. c \<in> set (fst (entry_route e)))}"
    using assms by (intro arg_cong [of _ _ "(`) route_of"] Collect_cong) (auto simp: ParseAllowedIPs_text)
  also have "\<dots> = (\<Union>es\<in>set ess. \<Union>e\<in>set es. route_of ` {c. wanted c \<and> c \<in> set (fst (entry_route e))})"
    by blast
  finally show ?thesis unfolding entry by (auto simp: ComputeSubnetRoutes_set)
qed

text \<open>
  Route planning: for the AllowedIPs of the peers, each a comma-separated list of IPv4
  networks and IPv6 texts, \<open>ComputeSubnetRoutes\<close> yields, without repetition, one route (address
  and dotted netmask) for every IPv4 network except the default \<open>0.0.0.0/0\<close> and the networks
  whose address lies in \<open>100.64.0.0/10\<close>; the netmask of a prefix length \<open>p\<close> has exactly the
  \<open>p\<close> upper bits set; IPv6 networks are reported as skipped; and executing what \<open>DiffRoutes\<close>
  returns against any list of installed routes leaves exactly the planned ones.
\<close>

theorem subnet_routes_planned:
  assumes "\<forall>es\<in>set ess. es \<noteq> [] \<and> (\<forall>e\<in>set es. entry_ok e)"
  shows "(let planned = ComputeSubnetRoutes (map allowed_text ess) in
      distinct planned
      \<and> set planned = {\<lparr> sr_net = dotted n, sr_mask = dotted (prefix_mask (int p)) \<rparr> | n p.
          V4 n p \<in> (\<Union>es\<in>set ess. set es) \<and> \<not> (n = 0 \<and> p = 0) \<and> n AND kTailnetMask \<noteq> kTailnetNet}
      \<and> (\<forall>p\<le>32. \<forall>i<32. bit (prefix_mask (int p)) i \<longleftrightarrow> 32 - p \<le> i)
      \<and> (\<forall>es\<in>set ess. \<forall>t. V6 t \<in> set es \<longleftrightarrow> t \<in> set (snd (ParseAllowedIPs (allowed_text es))))
      \<and> (\<forall>installed. (set installed \<union> set (fst (DiffRoutes planned installed)))
            - set (snd (DiffRoutes planned installed)) = set planned))"
proof -
  have mask: "bit (prefix_mask (int p)) i \<longleftrightarrow> 32 - p \<le> i" if "p \<le> 32" "i < 32" for p i
  proof -
    have m: "(0xFFFFFFFF :: u32) = mask 32" by (simp add: mask_eq_exp_minus_1)
    have "nat (32 - int p) = 32 - p" by simp
    then show ?thesis
      using that unfolding prefix_mask_def m by (auto simp: bit_simps)
  qed
  have v6: "V6 t \<in> set es \<longleftrightarrow> t \<in> set (snd (ParseAllowedIPs (allowed_text es)))" if "es \<in> set ess" for es t
  proof -
    have "t \<in> set (snd (entry_route e)) \<longleftrightarrow> e = V6 t" for e by (cases e) auto
    then show ?thesis using assms that by (auto simp: ParseAllowedIPs_text)
  qed
  have diff: "(set installed \<union> set (fst (DiffRoutes want installed))) - set (snd (DiffRoutes want installed)) = set want"
    for installed want
    using routes.table_after [of id want installed "set installed" "{}"] by simp
  show ?thesis
    unfolding Let_def using planned_routes [OF assms] mask v6 diff ComputeSubnetRoutes_set by auto
qed

theorem subnet_routes_planned_witness:
  "set (ComputeSubnetRoutes [''192.168.1.0/24, ::/0'', ''100.64.0.1/32'', ''0.0.0.0/0''])
   = {\<lparr> sr_net = ''192.168.1.0'', sr_mask = ''255.255.255.0'' \<rparr>}"
proof -
  let ?ess = "[[V4 0xC0A80100 24, V6 ''::/0''], [V4 0x64400001 32], [V4 0 0]]"
  have t: "map allowed_text ?ess = [''192.168.1.0/24, ::/0'', ''100.64.0.1/32'', ''0.0.0.0/0'']"
    "dotted 0xC0A80100 = ''192.168.1.0''" "dotted (prefix_mask 24) = ''255.255.255.0''"
    by code_simp+
  have "\<forall>es\<in>set ?ess. es \<noteq> [] \<and> (\<forall>e\<in>set es. entry_ok e)"
    by (simp add: trim_def trim_ends_def isspace_def)
  note planned = subnet_routes_planned [OF this, unfolded Let_def t(1), THEN conjunct2, THEN conjunct1]
  have "(0x64400001 :: u32) AND kTailnetMask = kTailnetNet" "(0xC0A80100 :: u32) AND kTailnetMask \<noteq> kTailnetNet"
    by code_simp+
  then have "V4 n p \<in> (\<Union>es\<in>set ?ess. set es) \<and> \<not> (n = 0 \<and> p = 0) \<and> n AND kTailnetMask \<noteq> kTailnetNet
      \<longleftrightarrow> n = 0xC0A80100 \<and> p = 24" for n p
    by auto
  then show ?thesis unfolding planned by (simp add: t(2,3))
qed

end
