(* ===== verification/PeerSet.thy ===== *)
theory PeerSet
  imports Netmap Routes PeerPath WGPeer Identity
begin

text \<open>
  The live peers, \<open>src/backend/tailscale/TSPeerSet.cpp\<close>: the vector of \<open>ManagedPeer\<close>s with its
  look-ups and \<open>Update\<close>, which reconciles it with the network map.  A pointer into the vector is
  the index of the peer.  \<open>Update\<close> keeps a vector \<open>seen\<close> with one flag per peer it started with and
  writes the flag of every peer it finds again; a write behind the end of \<open>seen\<close> is undefined
  (\<open>None\<close>).  Results: the look-up by address is a longest-prefix match, and after \<open>Update\<close> the set
  mirrors the map and keeps the WireGuard state of the peers that stay.
\<close>

record managed_peer =
  nodeKeyHex :: string
  m_discoKey :: string
  m_hostname :: string
  m_online :: bool
  m_derpRegion :: int
  m_allowedIPs :: "string list"
  m_endpoints :: "string list"
  wg :: wgpeer
  path :: peer_path
  lastHandshake :: int
  lastDiscoPing :: int

definition ManagedPeer :: managed_peer where
  "ManagedPeer = \<lparr> nodeKeyHex = [], m_discoKey = [], m_hostname = [], m_online = False, m_derpRegion = - 1,
     m_allowedIPs = [], m_endpoints = [], wg = WGPeer, path = PeerPath, lastHandshake = 0, lastDiscoPing = 0 \<rparr>"

type_synonym peer_set = "managed_peer list"

subsection \<open>Look-ups\<close>

fun index_where :: "('a \<Rightarrow> bool) \<Rightarrow> 'a list \<Rightarrow> nat option" where
  "index_where P [] = None"
| "index_where P (x # xs) = (if P x then Some 0 else map_option Suc (index_where P xs))"

definition IndexOf :: "peer_set \<Rightarrow> string \<Rightarrow> nat option" where
  "IndexOf ps hex = index_where (\<lambda>p. nodeKeyHex p = hex) ps"

definition FindPeer :: "peer_set \<Rightarrow> string option \<Rightarrow> nat option" where
  "FindPeer ps key = (case key of None \<Rightarrow> None | Some hex \<Rightarrow> IndexOf ps hex)"

definition FindBySenderIndex :: "peer_set \<Rightarrow> u32 \<Rightarrow> nat option" where
  "FindBySenderIndex ps index = (if index = 0 then None else index_where (\<lambda>p. fSenderIndex (wg p) = index) ps)"

definition FindByDiscoKey :: "peer_set \<Rightarrow> string option \<Rightarrow> nat option" where
  "FindByDiscoKey ps key =
     (case key of None \<Rightarrow> None | Some hex \<Rightarrow> index_where (\<lambda>p. m_discoKey p = hex \<and> m_discoKey p \<noteq> []) ps)"

text \<open>\<open>parse_cidr\<close>: \<open>None\<close> for the result \<open>-1\<close>.\<close>

definition parse_cidr :: "string \<Rightarrow> (int \<times> u32) option" where
  "parse_cidr cidr =
     (let (ipPart, prefix) =
        (case find_first (CHR ''/'') cidr of None \<Rightarrow> (cidr, 32) | Some slash \<Rightarrow> (take slash cidr, atoi (drop (slash + 1) cidr)))
      in if find_first (CHR '':'') ipPart \<noteq> None then None
         else if prefix < 0 \<or> prefix > 32 then None
         else map_option (\<lambda>network. (prefix, network)) (parse_ipv4 (Some ipPart)))"

text \<open>The two loops of \<open>FindByAllowedIP\<close>, with the best peer and prefix so far.\<close>

definition match_step :: "u32 \<Rightarrow> nat \<Rightarrow> nat option \<times> int \<Rightarrow> string \<Rightarrow> nat option \<times> int" where
  "match_step dst i acc cidr =
     (case acc of (best, bestPrefix) \<Rightarrow>
        case parse_cidr cidr of None \<Rightarrow> acc
        | Some (prefix, net) \<Rightarrow>
            if (dst XOR net) AND prefix_mask prefix = 0 \<and> prefix > bestPrefix then (Some i, prefix) else acc)"

fun match_loop :: "u32 \<Rightarrow> nat \<Rightarrow> managed_peer list \<Rightarrow> nat option \<times> int \<Rightarrow> nat option \<times> int" where
  "match_loop dst i [] acc = acc"
| "match_loop dst i (p # ps) acc = match_loop dst (Suc i) ps (foldl (match_step dst i) acc (m_allowedIPs p))"

definition FindByAllowedIP :: "peer_set \<Rightarrow> string option \<Rightarrow> nat option" where
  "FindByAllowedIP ps ip =
     (case parse_ipv4 ip of None \<Rightarrow> None | Some dst \<Rightarrow> fst (match_loop dst 0 ps (None, - 1)))"

subsection \<open>Update\<close>

definition refresh :: "netmap_peer \<Rightarrow> managed_peer \<Rightarrow> managed_peer" where
  "refresh np mp =
     (let mp = mp\<lparr> m_discoKey := n_discoKey np, m_hostname := n_hostname np, m_online := n_online np,
                  m_derpRegion := n_derpRegion np, m_allowedIPs := n_allowedIPs np, m_endpoints := n_endpoints np \<rparr>
      in if n_derpRegion np \<ge> 0 then mp\<lparr> path := UseDerp (path mp) \<rparr> else mp)"

definition new_peer :: "netmap_peer \<Rightarrow> managed_peer" where
  "new_peer np =
     (let mp = ManagedPeer\<lparr> nodeKeyHex := n_nodeKey np, m_discoKey := n_discoKey np, m_hostname := n_hostname np,
                  m_online := n_online np, m_derpRegion := n_derpRegion np, m_allowedIPs := n_allowedIPs np,
                  m_endpoints := n_endpoints np \<rparr>;
          mp = (case FromHex (n_nodeKey np) 32 of None \<Rightarrow> mp | Some raw \<Rightarrow> mp\<lparr> wg := SetNodeKey (wg mp) raw \<rparr>)
      in if n_derpRegion np \<ge> 0 then mp\<lparr> path := UseDerp (path mp) \<rparr> else mp)"

text \<open>The loop over the map's peers: \<open>seen\<close> keeps the length of the original vector.\<close>

fun update_loop :: "netmap_peer list \<Rightarrow> peer_set \<Rightarrow> bool list \<Rightarrow> int \<Rightarrow> int \<Rightarrow> (peer_set \<times> bool list \<times> int \<times> int) option" where
  "update_loop [] ps seen added updated = Some (ps, seen, added, updated)"
| "update_loop (np # nps) ps seen added updated =
     (if n_nodeKey np = [] then update_loop nps ps seen added updated
      else case IndexOf ps (n_nodeKey np) of
        Some idx \<Rightarrow>
          if idx \<ge> length seen then None
          else update_loop nps (ps[idx := refresh np (ps ! idx)]) (seen[idx := True]) added (updated + 1)
      | None \<Rightarrow> update_loop nps (ps @ [new_peer np]) seen (added + 1) updated)"

fun erase_unseen :: "peer_set \<Rightarrow> bool list \<Rightarrow> peer_set" where
  "erase_unseen (p # ps) (s # ss) = (if s then p # erase_unseen ps ss else erase_unseen ps ss)"
| "erase_unseen ps ss = ps"

definition Update :: "peer_set \<Rightarrow> netmap_peer list \<Rightarrow> (peer_set \<times> int \<times> int \<times> int) option" where
  "Update ps peers =
     (case update_loop peers ps (replicate (length ps) False) 0 0 of None \<Rightarrow> None
      | Some (ps', seen, added, updated) \<Rightarrow>
          let kept = erase_unseen ps' seen in Some (kept, added, int (length ps') - int (length kept), updated))"

subsection \<open>Longest-prefix match\<close>

text \<open>\<open>covers dst cidr\<close>: the prefix length of a valid IPv4 network that contains \<open>dst\<close>.\<close>

definition covers :: "u32 \<Rightarrow> string \<Rightarrow> int option" where
  "covers dst cidr =
     (case parse_cidr cidr of None \<Rightarrow> None
      | Some (p, net) \<Rightarrow> if drop_bit (nat (32 - p)) dst = drop_bit (nat (32 - p)) net then Some p else None)"

lemma prefix_mask_bit: "0 \<le> p \<Longrightarrow> p \<le> 32 \<Longrightarrow> i < 32 \<Longrightarrow> bit (prefix_mask p) i \<longleftrightarrow> nat (32 - p) \<le> i"
proof -
  have m: "(0xFFFFFFFF :: u32) = mask 32" by (simp add: mask_eq_exp_minus_1)
  show "0 \<le> p \<Longrightarrow> p \<le> 32 \<Longrightarrow> i < 32 \<Longrightarrow> ?thesis"
    unfolding prefix_mask_def m by (auto simp: bit_simps)
qed

lemma mask_match:
  assumes "0 \<le> p" "p \<le> 32"
  shows "(dst XOR net) AND prefix_mask p = 0 \<longleftrightarrow> drop_bit (nat (32 - p)) dst = drop_bit (nat (32 - p)) (net :: u32)"
proof -
  have "(dst XOR net) AND prefix_mask p = 0 \<longleftrightarrow> (\<forall>i<32. nat (32 - p) \<le> i \<longrightarrow> bit dst i = bit net i)"
    using prefix_mask_bit [OF assms] by (auto simp: bit_eq_iff bit_simps)
  also have "\<dots> \<longleftrightarrow> drop_bit (nat (32 - p)) dst = drop_bit (nat (32 - p)) net"
  proof -
    have "(\<forall>i<32. k \<le> i \<longrightarrow> bit dst i = bit net i) \<longleftrightarrow> (\<forall>j<32. bit dst (k + j) = bit net (k + j))" for k
    proof
      assume *: "\<forall>i<32. k \<le> i \<longrightarrow> bit dst i = bit net i"
      show "\<forall>j<32. bit dst (k + j) = bit net (k + j)"
      proof (rule allI, rule impI)
        fix j :: nat show "bit dst (k + j) = bit net (k + j)"
          using * bit_imp_le_length [of dst "k + j"] bit_imp_le_length [of net "k + j"] by (cases "k + j < 32") auto
      qed
    next
      assume "\<forall>j<32. bit dst (k + j) = bit net (k + j)"
      then show "\<forall>i<32. k \<le> i \<longrightarrow> bit dst i = bit net i" by (metis le_add_diff_inverse less_imp_diff_less)
    qed
    then show ?thesis by (auto simp: bit_eq_iff bit_simps)
  qed
  finally show ?thesis .
qed

lemma parse_cidr_range: "parse_cidr cidr = Some (p, net) \<Longrightarrow> 0 \<le> p \<and> p \<le> 32"
  by (auto simp: parse_cidr_def split: option.splits if_splits)

lemma match_step_covers:
  "match_step dst i (best, b) cidr = (case covers dst cidr of Some p \<Rightarrow> if p > b then (Some i, p) else (best, b) | None \<Rightarrow> (best, b))"
  using parse_cidr_range [of cidr] mask_match by (auto simp: match_step_def covers_def split: option.splits)

lemma covers_pos: "covers dst cidr = Some p \<Longrightarrow> 0 \<le> p"
  using parse_cidr_range [of cidr] by (auto simp: covers_def split: option.splits if_splits)

text \<open>The loops as one pass over all entries.\<close>

definition entries :: "nat \<Rightarrow> peer_set \<Rightarrow> (nat \<times> string) list" where
  "entries i ps = concat (map (\<lambda>(k, p). map (Pair k) (m_allowedIPs p)) (enumerate i ps))"

lemma entries_simps: "entries i [] = []" "entries i (p # ps) = map (Pair i) (m_allowedIPs p) @ entries (Suc i) ps"
  by (simp_all add: entries_def)

lemma match_loop_entries: "match_loop dst i ps acc = foldl (\<lambda>a e. match_step dst (fst e) a (snd e)) acc (entries i ps)"
proof (induction ps arbitrary: i acc)
  case (Cons p ps)
  have "foldl (match_step dst i) acc xs = foldl (\<lambda>a e. match_step dst (fst e) a (snd e)) acc (map (Pair i) xs)" for acc xs
    by (induction xs arbitrary: acc) auto
  then show ?case using Cons by (simp add: entries_simps)
qed (simp add: entries_simps)

lemma entries_nth:
  "(k, c) \<in> set (entries i ps) \<longleftrightarrow> i \<le> k \<and> k < i + length ps \<and> c \<in> set (m_allowedIPs (ps ! (k - i)))"
proof (induction ps arbitrary: i)
  case (Cons p ps)
  show ?case
    using Cons [of "Suc i"] by (cases "i < k") (auto simp: entries_simps nth_Cons')
qed (simp add: entries_simps)

lemma entries_sorted: "sorted (map fst (entries i ps))"
proof (induction ps arbitrary: i)
  case (Cons p ps)
  have "\<forall>e\<in>set (entries (Suc i) ps). i \<le> fst e"
    by (metis prod.collapse entries_nth Suc_leD)
  moreover have "sorted (map fst (map (Pair i) xs))" for xs :: "string list"
    by (induction xs) auto
  ultimately show ?case using Cons by (auto simp: entries_simps sorted_append)
qed (simp add: entries_simps)

text \<open>The best entry of a pass: the first one of maximal length.\<close>

lemma best_entry:
  assumes "foldl (\<lambda>a e. match_step dst (fst e) a (snd e)) (None, - 1) es = (best, b)"
  shows "case best of
      None \<Rightarrow> b = - 1 \<and> (\<forall>e\<in>set es. covers dst (snd e) = None)
    | Some i \<Rightarrow> \<exists>xs c ys. es = xs @ (i, c) # ys \<and> covers dst c = Some b
        \<and> (\<forall>e\<in>set xs. \<forall>p. covers dst (snd e) = Some p \<longrightarrow> p < b) \<and> (\<forall>e\<in>set ys. \<forall>p. covers dst (snd e) = Some p \<longrightarrow> p \<le> b)"
  using assms
proof (induction es arbitrary: best b rule: rev_induct)
  case (snoc e es)
  obtain best' b' where f: "foldl (\<lambda>a e. match_step dst (fst e) a (snd e)) (None, - 1) es = (best', b')" by force
  note IH = snoc.IH [OF f]
  have r: "(best, b) = (case covers dst (snd e) of Some p \<Rightarrow> if p > b' then (Some (fst e), p) else (best', b') | None \<Rightarrow> (best', b'))"
    using snoc.prems f by (simp add: match_step_covers)
  show ?case
  proof (cases "\<exists>p. covers dst (snd e) = Some p \<and> p > b'")
    case True
    then obtain p where p: "covers dst (snd e) = Some p" "b' < p" by blast
    then have rb: "best = Some (fst e)" "b = p" using r by auto
    have "\<forall>x\<in>set es. \<forall>q. covers dst (snd x) = Some q \<longrightarrow> q < p"
      using IH p(2) by (cases best') (fastforce)+
    then show ?thesis
      unfolding rb option.case using p(1)
      by (intro exI [of _ es] exI [of _ "snd e"] exI [of _ "[]"]) simp
  next
    case False
    then have rb: "best = best'" "b = b'" using r by (auto split: option.splits if_splits)
    show ?thesis
    proof (cases best')
      case None
      then show ?thesis using IH rb False covers_pos [of dst "snd e"] by (cases "covers dst (snd e)") force+
    next
      case (Some i)
      then obtain xs c ys where d: "es = xs @ (i, c) # ys" "covers dst c = Some b'"
        "\<forall>x\<in>set xs. \<forall>p. covers dst (snd x) = Some p \<longrightarrow> p < b'" "\<forall>x\<in>set ys. \<forall>p. covers dst (snd x) = Some p \<longrightarrow> p \<le> b'"
        using IH by auto
      then show ?thesis
        unfolding rb Some option.case using False
        by (intro exI [of _ xs] exI [of _ c] exI [of _ "ys @ [e]"]) (auto simp: not_less)
    qed
  qed
qed simp

lemma parse_cidr_text:
  assumes "p \<le> 32"
  shows "parse_cidr (dotted n @ ''/'' @ show_nat p) = Some (int p, n)"
proof -
  have nd: "CHR '':'' \<notin> set (dotted n)" "CHR ''/'' \<notin> set (dotted n)" using numeric_notin [of "dotted n"] by auto
  have "find_first (CHR ''/'') (dotted n @ ''/'' @ show_nat p) = Some (length (dotted n))"
    using find_first_append_notin [of "CHR ''/''" "dotted n" "show_nat p"] nd by simp
  moreover have "atoi (show_nat p) = int p" using assms by (intro atoi_show_nat) simp
  ultimately show ?thesis using nd assms by (simp add: parse_cidr_def)
qed

text \<open>
  C33. Routing a packet: \<open>FindByAllowedIP\<close> is a longest-prefix match.  For a valid destination it
  returns a peer that has a network containing the destination, such that no peer has a longer
  matching prefix and no earlier peer one of the same length; it returns nothing only when no peer
  claims the destination.  An invalid destination matches nothing, and \<open>a.b.c.d/p\<close> with \<open>p \<le> 32\<close> is
  read as the network it denotes.
\<close>

theorem allowed_ip_longest_prefix:
  "(\<forall>ps ip. case parse_ipv4 ip of None \<Rightarrow> FindByAllowedIP ps ip = None
     | Some dst \<Rightarrow>
         (case FindByAllowedIP ps ip of
            None \<Rightarrow> \<not> (\<exists>q\<in>set ps. \<exists>c\<in>set (m_allowedIPs q). covers dst c \<noteq> None)
          | Some i \<Rightarrow> i < length ps \<and> (\<exists>c\<in>set (m_allowedIPs (ps ! i)). \<exists>len. covers dst c = Some len
              \<and> \<not> (\<exists>j<length ps. \<exists>c'\<in>set (m_allowedIPs (ps ! j)). \<exists>len'. covers dst c' = Some len'
                     \<and> (len < len' \<or> j < i \<and> len \<le> len')))))
   \<and> (\<forall>n. \<forall>p\<le>32. parse_cidr (dotted n @ ''/'' @ show_nat p) = Some (int p, n))"
proof (intro conjI allI impI)
  fix ps ip
  show "case parse_ipv4 ip of None \<Rightarrow> FindByAllowedIP ps ip = None
     | Some dst \<Rightarrow>
         (case FindByAllowedIP ps ip of
            None \<Rightarrow> \<not> (\<exists>q\<in>set ps. \<exists>c\<in>set (m_allowedIPs q). covers dst c \<noteq> None)
          | Some i \<Rightarrow> i < length ps \<and> (\<exists>c\<in>set (m_allowedIPs (ps ! i)). \<exists>len. covers dst c = Some len
              \<and> \<not> (\<exists>j<length ps. \<exists>c'\<in>set (m_allowedIPs (ps ! j)). \<exists>len'. covers dst c' = Some len'
                     \<and> (len < len' \<or> j < i \<and> len \<le> len'))))"
  proof (cases "parse_ipv4 ip")
    case (Some dst)
    obtain best b where m: "match_loop dst 0 ps (None, - 1) = (best, b)" by force
    note e = best_entry [OF m [unfolded match_loop_entries]]
    have r: "FindByAllowedIP ps ip = best" by (simp add: FindByAllowedIP_def Some m)
    have ent: "(j, c) \<in> set (entries 0 ps) \<longleftrightarrow> j < length ps \<and> c \<in> set (m_allowedIPs (ps ! j))" for j c
      using entries_nth [of j c 0 ps] by simp
    show ?thesis
    proof (cases best)
      case None
      have "covers dst c = None" if q: "q \<in> set ps" "c \<in> set (m_allowedIPs q)" for q c
      proof -
        obtain j where "j < length ps" "ps ! j = q" using q(1) by (auto simp: in_set_conv_nth)
        then have "(j, c) \<in> set (entries 0 ps)" using ent q(2) by simp
        then show ?thesis using e unfolding None option.case by (metis snd_conv)
      qed
      then show ?thesis using Some r None by simp
    next
      case (Some i)
      with e obtain xs c ys where d: "entries 0 ps = xs @ (i, c) # ys" "covers dst c = Some b"
        "\<forall>e\<in>set xs. \<forall>p. covers dst (snd e) = Some p \<longrightarrow> p < b" "\<forall>e\<in>set ys. \<forall>p. covers dst (snd e) = Some p \<longrightarrow> p \<le> b"
        by auto
      have srt: "\<forall>e\<in>set ys. i \<le> fst e" using entries_sorted [of 0 ps] by (simp add: d(1) sorted_append)
      have "\<not> (b < len' \<or> j < i \<and> b \<le> len')" if "j < length ps" "c' \<in> set (m_allowedIPs (ps ! j))" "covers dst c' = Some len'" for j c' len'
      proof -
        have "(j, c') \<in> set (xs @ (i, c) # ys)" using ent that(1,2) d(1) by simp
        then consider "(j, c') \<in> set xs" | "j = i" "c' = c" | "(j, c') \<in> set ys" by auto
        then show ?thesis using d(2-4) srt that(3) by cases (fastforce)+
      qed
      moreover have "i < length ps" "c \<in> set (m_allowedIPs (ps ! i))" using ent [of i c] d(1) by simp_all
      ultimately show ?thesis
        unfolding \<open>parse_ipv4 ip = Some dst\<close> r Some option.case using d(2) by blast
    qed
  qed (simp add: FindByAllowedIP_def)
qed (rule parse_cidr_text)

definition sample_peers :: peer_set where
  "sample_peers = [ManagedPeer\<lparr> nodeKeyHex := ''a'', m_allowedIPs := [''10.0.0.0/8''] \<rparr>,
     ManagedPeer\<lparr> nodeKeyHex := ''b'', m_allowedIPs := [''100.64.0.2/32'', ''10.1.0.0/16''] \<rparr>]"

theorem allowed_ip_longest_prefix_witness:
  "FindByAllowedIP sample_peers (Some ''10.1.2.3'') = Some 1
   \<and> (\<exists>c\<in>set (m_allowedIPs (sample_peers ! 1)). covers 0x0A010203 c = Some 16)
   \<and> parse_cidr (dotted 0x0A000000 @ ''/'' @ show_nat 8) = Some (8, 0x0A000000)"
proof -
  note t = allowed_ip_longest_prefix [THEN conjunct1, rule_format, of sample_peers "Some ''10.1.2.3''"]
    allowed_ip_longest_prefix [THEN conjunct2, rule_format]
  have tx: "''10.1.2.3'' = dotted 0x0A010203" "dotted 0x0A000000 @ ''/'' @ show_nat 8 = ''10.0.0.0/8''"
    "dotted 0x64400002 @ ''/'' @ show_nat 32 = ''100.64.0.2/32''" "dotted 0x0A010000 @ ''/'' @ show_nat 16 = ''10.1.0.0/16''"
    by code_simp+
  have p: "parse_ipv4 (Some ''10.1.2.3'') = Some 0x0A010203" unfolding tx(1) by simp
  have c: "parse_cidr ''10.0.0.0/8'' = Some (8, 0x0A000000)" "parse_cidr ''100.64.0.2/32'' = Some (32, 0x64400002)"
    "parse_cidr ''10.1.0.0/16'' = Some (16, 0x0A010000)"
    using t(2) [of 8 "0x0A000000"] t(2) [of 32 "0x64400002"] t(2) [of 16 "0x0A010000"] unfolding tx by simp_all
  have l: "m_allowedIPs (sample_peers ! 1) = [''100.64.0.2/32'', ''10.1.0.0/16'']" by (simp add: sample_peers_def)
  have f: "FindByAllowedIP sample_peers (Some ''10.1.2.3'') = Some 1"
    unfolding FindByAllowedIP_def p by (simp add: sample_peers_def match_step_def c prefix_mask_def)
  have "covers 0x0A010203 ''100.64.0.2/32'' = None" "covers 0x0A010203 ''10.1.0.0/16'' = Some 16"
    unfolding covers_def c by simp_all
  then show ?thesis using t(1) [unfolded p f option.case l] f l t(2) [of 8 "0x0A000000"] by auto
qed

subsection \<open>Reconciliation with the map\<close>

definition keys :: "peer_set \<Rightarrow> string list" where
  "keys ps = map nodeKeyHex ps"

definition map_keys :: "netmap_peer list \<Rightarrow> string list" where
  "map_keys nps = filter (\<lambda>k. k \<noteq> []) (map n_nodeKey nps)"

lemma keys_simps [simp]:
  "keys [] = []" "keys (p # ps) = nodeKeyHex p # keys ps" "keys (ps @ qs) = keys ps @ keys qs" "length (keys ps) = length ps"
  by (simp_all add: keys_def)

lemma keys_nth [simp]: "i < length ps \<Longrightarrow> keys ps ! i = nodeKeyHex (ps ! i)"
  by (simp add: keys_def)

lemma IndexOf_simps: "IndexOf [] k = None" "IndexOf (p # ps) k = (if nodeKeyHex p = k then Some 0 else map_option Suc (IndexOf ps k))"
  by (simp_all add: IndexOf_def)

lemma IndexOf_None: "IndexOf ps k = None \<longleftrightarrow> k \<notin> set (keys ps)"
  by (induction ps) (auto simp: IndexOf_simps)

lemma IndexOf_Some: "IndexOf ps k = Some i \<Longrightarrow> i < length ps \<and> nodeKeyHex (ps ! i) = k"
  by (induction ps arbitrary: i) (auto simp: IndexOf_simps split: if_splits)

lemma IndexOf_append:
  "IndexOf (ps @ qs) k = (case IndexOf ps k of Some i \<Rightarrow> Some i | None \<Rightarrow> map_option (\<lambda>i. length ps + i) (IndexOf qs k))"
  by (induction ps; cases "IndexOf qs k") (auto simp: IndexOf_simps split: option.splits)

lemma refresh_key [simp]: "nodeKeyHex (refresh np p) = nodeKeyHex p"
  by (simp add: refresh_def Let_def)

lemma new_peer_key [simp]: "nodeKeyHex (new_peer np) = n_nodeKey np"
  by (simp add: new_peer_def Let_def split: option.splits)

lemma keys_refresh: "keys (ps[i := refresh np (ps ! i)]) = keys ps"
  by (cases "i < length ps") (simp_all add: keys_def map_update list_update_same_conv list_update_beyond)

lemma update_defined:
  "length seen = length as \<Longrightarrow> update_loop nps (as @ bs) seen a u = None \<longleftrightarrow>
   \<not> (distinct (filter (\<lambda>k. k \<notin> set (keys as)) (map_keys nps))
      \<and> set (map_keys nps) \<inter> (set (keys bs) - set (keys as)) = {})"
proof (induction nps arbitrary: as bs seen a u)
  case (Cons np nps)
  let ?k = "n_nodeKey np"
  show ?case
  proof (cases "?k = []")
    case True
    then show ?thesis using Cons by (simp add: map_keys_def)
  next
    case ne: False
    then have mk: "map_keys (np # nps) = ?k # map_keys nps" by (simp add: map_keys_def)
    show ?thesis
    proof (cases "IndexOf as ?k")
      case (Some i)
      then have i: "i < length as" "?k \<in> set (keys as)"
        using IndexOf_Some [OF Some] IndexOf_None [of as ?k] by auto
      then have "update_loop (np # nps) (as @ bs) seen a u
          = update_loop nps (as[i := refresh np (as ! i)] @ bs) (seen[i := True]) a (u + 1)"
        using ne Some Cons.prems by (simp add: IndexOf_append list_update_append nth_append)
      then show ?thesis
        using Cons.IH [of "seen[i := True]" "as[i := refresh np (as ! i)]" bs a "u + 1"] Cons.prems i mk
        by (auto simp: keys_refresh)
    next
      case None
      then have k: "?k \<notin> set (keys as)" by (simp add: IndexOf_None)
      show ?thesis
      proof (cases "IndexOf bs ?k")
        case (Some j)
        then have "?k \<in> set (keys bs)" using IndexOf_None [of bs ?k] by auto
        then show ?thesis using ne None Some Cons.prems k mk by (auto simp: IndexOf_append)
      next
        case (None)
        then have "?k \<notin> set (keys bs)" by (simp add: IndexOf_None)
        then show ?thesis
          using ne \<open>IndexOf as ?k = None\<close> None Cons.prems k mk Cons.IH [of seen as "bs @ [new_peer np]" "a + 1" u]
          by (auto simp: IndexOf_append)
      qed
    qed
  qed
qed (simp add: map_keys_def)

text \<open>With pairwise different keys, the outcome of the loop in closed form.\<close>

definition listed :: "netmap_peer list \<Rightarrow> managed_peer \<Rightarrow> netmap_peer option" where
  "listed nps p = find (\<lambda>np. n_nodeKey np \<noteq> [] \<and> n_nodeKey np = nodeKeyHex p) nps"

definition updated_peer :: "netmap_peer list \<Rightarrow> managed_peer \<Rightarrow> managed_peer" where
  "updated_peer nps p = (case listed nps p of None \<Rightarrow> p | Some np \<Rightarrow> refresh np p)"

definition added_peers :: "netmap_peer list \<Rightarrow> peer_set \<Rightarrow> netmap_peer list" where
  "added_peers nps as = filter (\<lambda>np. n_nodeKey np \<noteq> [] \<and> n_nodeKey np \<notin> set (keys as)) nps"

lemma listed_None: "listed nps p = None \<longleftrightarrow> nodeKeyHex p \<notin> set (map_keys nps)"
  by (auto simp: listed_def map_keys_def find_None_iff image_iff)

lemma listed_Some: "listed nps p = Some np \<Longrightarrow> np \<in> set nps \<and> n_nodeKey np = nodeKeyHex p \<and> n_nodeKey np \<noteq> []"
  by (auto simp: listed_def find_Some_iff)

lemma updated_key [simp]: "nodeKeyHex (updated_peer nps p) = nodeKeyHex p"
  by (simp add: updated_peer_def split: option.splits)

definition update_result ::
  "netmap_peer list \<Rightarrow> peer_set \<Rightarrow> peer_set \<Rightarrow> bool list \<Rightarrow> int \<Rightarrow> int \<Rightarrow> peer_set \<times> bool list \<times> int \<times> int" where
  "update_result nps as bs seen a u =
     (map (updated_peer nps) as @ bs @ map new_peer (added_peers nps as),
      map2 (\<lambda>s p. s \<or> nodeKeyHex p \<in> set (map_keys nps)) seen as,
      a + int (length (added_peers nps as)), u + int (length (filter (\<lambda>k. k \<in> set (keys as)) (map_keys nps))))"

lemma result_known:
  assumes "n_nodeKey np \<noteq> []" "n_nodeKey np \<notin> set (map_keys nps)" "IndexOf as (n_nodeKey np) = Some i"
    "distinct (keys as)" "length seen = length as"
  shows "update_result nps (as[i := refresh np (as ! i)]) bs (seen[i := True]) a (u + 1) = update_result (np # nps) as bs seen a u"
proof -
  let ?as = "as[i := refresh np (as ! i)]"
  have i: "i < length as" "nodeKeyHex (as ! i) = n_nodeKey np" "n_nodeKey np \<in> set (keys as)"
    using IndexOf_Some [OF assms(3)] IndexOf_None [of as "n_nodeKey np"] assms(3) by auto
  have mk: "map_keys (np # nps) = n_nodeKey np # map_keys nps" using assms(1) by (simp add: map_keys_def)
  have other: "nodeKeyHex (as ! j) \<noteq> n_nodeKey np" if "j < length as" "j \<noteq> i" for j
    using assms(4) that i by (metis keys_nth keys_simps(4) nth_eq_iff_index_eq)
  have "map (updated_peer nps) ?as = map (updated_peer (np # nps)) as"
  proof (rule nth_equalityI)
    fix j assume "j < length (map (updated_peer nps) ?as)"
    moreover have "listed nps (refresh np (as ! i)) = None" using assms(2) i(2) by (simp add: listed_None)
    ultimately show "map (updated_peer nps) ?as ! j = map (updated_peer (np # nps)) as ! j"
      using other [of j] i assms(1) by (cases "j = i") (auto simp: updated_peer_def listed_def)
  qed simp
  moreover have "map2 (\<lambda>s p. s \<or> nodeKeyHex p \<in> set (map_keys nps)) (seen[i := True]) ?as
      = map2 (\<lambda>s p. s \<or> nodeKeyHex p \<in> set (map_keys (np # nps))) seen as"
  proof (rule nth_equalityI)
    fix j assume "j < length (map2 (\<lambda>s p. s \<or> nodeKeyHex p \<in> set (map_keys nps)) (seen[i := True]) ?as)"
    then show "map2 (\<lambda>s p. s \<or> nodeKeyHex p \<in> set (map_keys nps)) (seen[i := True]) ?as ! j
        = map2 (\<lambda>s p. s \<or> nodeKeyHex p \<in> set (map_keys (np # nps))) seen as ! j"
      using other [of j] i mk assms(5) by (cases "j = i") auto
  qed (use assms(5) in simp)
  moreover have "added_peers nps ?as = added_peers (np # nps) as" using i by (simp add: added_peers_def keys_refresh)
  ultimately show ?thesis using i(3) by (simp add: update_result_def keys_refresh mk)
qed

lemma result_new:
  assumes "n_nodeKey np \<noteq> []" "n_nodeKey np \<notin> set (keys as)"
  shows "update_result nps as (bs @ [new_peer np]) seen (a + 1) u = update_result (np # nps) as bs seen a u"
proof -
  have mk: "map_keys (np # nps) = n_nodeKey np # map_keys nps" using assms(1) by (simp add: map_keys_def)
  have "map (updated_peer nps) as = map (updated_peer (np # nps)) as"
    using assms(2) by (auto simp: updated_peer_def listed_def keys_def)
  moreover have "map2 (\<lambda>s p. s \<or> nodeKeyHex p \<in> set (map_keys nps)) seen as
      = map2 (\<lambda>s p. s \<or> nodeKeyHex p \<in> set (map_keys (np # nps))) seen as"
    using assms(2) unfolding mk by (force simp: keys_def dest: set_zip_rightD)
  moreover have "added_peers (np # nps) as = np # added_peers nps as" using assms by (simp add: added_peers_def)
  ultimately show ?thesis using assms(2) by (simp add: update_result_def mk)
qed

lemma update_closed:
  assumes "length seen = length as" "distinct (keys (as @ bs))" "distinct (map_keys nps)" "set (map_keys nps) \<inter> set (keys bs) = {}"
  shows "update_loop nps (as @ bs) seen a u = Some (update_result nps as bs seen a u)"
  using assms
proof (induction nps arbitrary: as bs seen a u)
  case Nil
  then have "map2 (\<lambda>s p. s) seen as = seen" by (simp add: list_eq_iff_nth_eq)
  moreover have "updated_peer [] = id" by (simp add: fun_eq_iff updated_peer_def listed_def)
  ultimately show ?case by (simp add: update_result_def map_keys_def added_peers_def)
next
  case (Cons np nps)
  let ?k = "n_nodeKey np"
  show ?case
  proof (cases "?k = []")
    case True
    then have "map_keys (np # nps) = map_keys nps" "added_peers (np # nps) as = added_peers nps as" "updated_peer (np # nps) = updated_peer nps"
      by (auto simp: map_keys_def added_peers_def updated_peer_def listed_def)
    then show ?thesis using Cons True by (simp add: update_result_def)
  next
    case ne: False
    then have k: "?k \<notin> set (map_keys nps)" "?k \<notin> set (keys bs)" "distinct (map_keys nps)" "set (map_keys nps) \<inter> set (keys bs) = {}"
      using Cons.prems(3,4) by (auto simp: map_keys_def)
    show ?thesis
    proof (cases "IndexOf as ?k")
      case (Some i)
      let ?as = "as[i := refresh np (as ! i)]"
      have "update_loop (np # nps) (as @ bs) seen a u = update_loop nps (?as @ bs) (seen[i := True]) a (u + 1)"
        using ne Some IndexOf_Some [OF Some] Cons.prems(1) by (simp add: IndexOf_append list_update_append nth_append)
      also have "\<dots> = Some (update_result nps ?as bs (seen[i := True]) a (u + 1))"
        using Cons.prems k by (intro Cons.IH) (simp_all add: keys_refresh)
      finally show ?thesis using result_known [OF ne k(1) Some _ Cons.prems(1), of bs a u] Cons.prems(2) by simp
    next
      case None
      then have n: "?k \<notin> set (keys as)" "IndexOf bs ?k = None" using k(2) by (simp_all add: IndexOf_None)
      have "update_loop (np # nps) (as @ bs) seen a u = update_loop nps (as @ (bs @ [new_peer np])) seen (a + 1) u"
        using ne None n by (simp add: IndexOf_append)
      also have "\<dots> = Some (update_result nps as (bs @ [new_peer np]) seen (a + 1) u)"
        using Cons.prems k n by (intro Cons.IH) auto
      finally show ?thesis using result_new [OF ne n(1), of nps bs seen a u] by simp
    qed
  qed
qed

lemma erase_unseen_flags:
  "erase_unseen (map f as @ bs) (map2 (\<lambda>s p. s \<or> P p) (replicate (length as) False) as) = map f (filter P as) @ bs"
  by (induction as) auto

lemma Update_closed:
  assumes "distinct (keys ps)" "distinct (map_keys nps)"
  shows "Update ps nps = Some (map (updated_peer nps) (filter (\<lambda>p. nodeKeyHex p \<in> set (map_keys nps)) ps) @ map new_peer (added_peers nps ps),
     int (length (added_peers nps ps)), int (length ps) - int (length (filter (\<lambda>p. nodeKeyHex p \<in> set (map_keys nps)) ps)),
     int (length (filter (\<lambda>k. k \<in> set (keys ps)) (map_keys nps))))"
  using update_closed [of "replicate (length ps) False" ps "[]" nps 0 0] assms
  by (simp add: Update_def update_result_def erase_unseen_flags Let_def)

lemma keys_filter: "filter (\<lambda>k. k \<in> S) (keys ps) = keys (filter (\<lambda>p. nodeKeyHex p \<in> S) ps)"
  by (simp add: keys_def filter_map comp_def)

lemma added_keys: "map n_nodeKey (added_peers nps ps) = filter (\<lambda>k. k \<notin> set (keys ps)) (map_keys nps)"
  by (simp add: added_peers_def map_keys_def filter_map comp_def conj_commute)

lemma card_filter: "distinct xs \<Longrightarrow> length (filter P xs) = card {x \<in> set xs. P x}"
  by (metis distinct_card distinct_filter set_filter)

text \<open>What a peer \<open>p\<close> that stays becomes: its session, timers and path are kept, its metadata are the map's.\<close>

definition carried_over :: "netmap_peer \<Rightarrow> managed_peer \<Rightarrow> managed_peer \<Rightarrow> bool" where
  "carried_over np p p' \<longleftrightarrow> n_nodeKey np = nodeKeyHex p \<and> nodeKeyHex p' = nodeKeyHex p
     \<and> wg p' = wg p \<and> lastHandshake p' = lastHandshake p \<and> lastDiscoPing p' = lastDiscoPing p
     \<and> path p' = (if n_derpRegion np \<ge> 0 then UseDerp (path p) else path p)
     \<and> m_allowedIPs p' = n_allowedIPs np \<and> m_endpoints p' = n_endpoints np \<and> m_discoKey p' = n_discoKey np
     \<and> m_online p' = n_online np \<and> m_hostname p' = n_hostname np \<and> m_derpRegion p' = n_derpRegion np"

lemma carried_over_refresh: "n_nodeKey np = nodeKeyHex p \<Longrightarrow> carried_over np p (refresh np p)"
  by (simp add: carried_over_def refresh_def Let_def)

text \<open>
  C36. The peer set mirrors the network map: when the node keys on both sides are pairwise different,
  \<open>Update\<close> succeeds; afterwards the set has exactly the keys of the map, still pairwise different;
  every peer that stays keeps its WireGuard state, its timers and its path (which only gains the
  relay as a fallback) and takes the map's metadata; every new peer starts fresh with its node key;
  and the three counters are the numbers of new, dropped and kept peers.
\<close>

theorem update_mirrors_netmap:
  assumes "distinct (keys ps)" "distinct (map_keys nps)"
  shows "\<exists>ps' added removed updated. Update ps nps = Some (ps', added, removed, updated)
     \<and> distinct (keys ps') \<and> set (keys ps') = set (map_keys nps)
     \<and> (\<forall>p\<in>set ps. nodeKeyHex p \<in> set (keys ps') \<longrightarrow> (\<exists>np\<in>set nps. \<exists>p'\<in>set ps'. carried_over np p p'))
     \<and> (\<forall>np\<in>set nps. n_nodeKey np \<noteq> [] \<and> n_nodeKey np \<notin> set (keys ps) \<longrightarrow> new_peer np \<in> set ps')
     \<and> added = int (card (set (map_keys nps) - set (keys ps))) \<and> removed = int (card (set (keys ps) - set (map_keys nps)))
     \<and> updated = int (card (set (map_keys nps) \<inter> set (keys ps)))"
proof -
  let ?kept = "filter (\<lambda>p. nodeKeyHex p \<in> set (map_keys nps)) ps"
  let ?ps' = "map (updated_peer nps) ?kept @ map new_peer (added_peers nps ps)"
  have ks: "keys ?ps' = filter (\<lambda>k. k \<in> set (map_keys nps)) (keys ps) @ filter (\<lambda>k. k \<notin> set (keys ps)) (map_keys nps)"
    unfolding keys_filter added_keys [symmetric] by (simp add: keys_def comp_def)
  have "distinct (keys ?ps')" "set (keys ?ps') = set (map_keys nps)" unfolding ks using assms by auto
  moreover have "\<exists>np\<in>set nps. \<exists>p'\<in>set ?ps'. carried_over np p p'"
    if p: "p \<in> set ps" "nodeKeyHex p \<in> set (map_keys nps)" for p
  proof -
    obtain np where np: "listed nps p = Some np" using p(2) listed_None [of nps p] by fastforce
    then have "updated_peer nps p = refresh np p" by (simp add: updated_peer_def)
    then have "refresh np p \<in> set ?ps'" using p by (auto intro!: image_eqI [of _ _ p])
    then show ?thesis using listed_Some [OF np] carried_over_refresh by blast
  qed
  moreover have "new_peer np \<in> set ?ps'" if "np \<in> set nps" "n_nodeKey np \<noteq> []" "n_nodeKey np \<notin> set (keys ps)" for np
    using that by (simp add: added_peers_def)
  moreover have "int (length (added_peers nps ps)) = int (card (set (map_keys nps) - set (keys ps)))"
    using arg_cong [OF added_keys [of nps ps], of length] assms(2) by (simp add: card_filter set_diff_eq)
  moreover have "int (length (filter (\<lambda>k. k \<in> set (keys ps)) (map_keys nps))) = int (card (set (map_keys nps) \<inter> set (keys ps)))"
    using assms(2) by (simp add: card_filter Int_def)
  moreover have "int (length ps) - int (length ?kept) = int (card (set (keys ps) - set (map_keys nps)))"
  proof -
    have "length ?kept = length (filter (\<lambda>k. k \<in> set (map_keys nps)) (keys ps))" unfolding keys_filter by simp
    then have "length ps = length ?kept + length (filter (\<lambda>k. k \<notin> set (map_keys nps)) (keys ps))"
      using sum_length_filter_compl [of "\<lambda>k. k \<in> set (map_keys nps)" "keys ps"] by simp
    then show ?thesis using assms(1) by (simp add: card_filter set_diff_eq)
  qed
  ultimately show ?thesis unfolding Update_closed [OF assms] by blast
qed

theorem update_mirrors_netmap_witness:
  "\<exists>ps' a r u. Update sample_peers [sample_peer 1 ''a'', sample_peer 2 ''c''] = Some (ps', a, r, u)
     \<and> set (keys ps') = {''a'', ''c''} \<and> a = 1 \<and> r = 1 \<and> u = 1"
proof -
  let ?nps = "[sample_peer 1 ''a'', sample_peer 2 ''c'']"
  have k: "keys sample_peers = [''a'', ''b'']" "map_keys ?nps = [''a'', ''c'']"
    by (simp_all add: keys_def sample_peers_def map_keys_def sample_peer_def)
  then have "distinct (keys sample_peers)" "distinct (map_keys ?nps)" by simp_all
  from update_mirrors_netmap [OF this] show ?thesis unfolding k by auto
qed

text \<open>
  C39. When \<open>Update\<close> is undefined: it writes behind the end of its \<open>seen\<close> flags exactly when the map
  lists, twice or more, a node key that the set does not have yet; repetitions of a known key are
  harmless.
\<close>

theorem update_undefined_iff:
  "Update ps nps = None \<longleftrightarrow> \<not> distinct (filter (\<lambda>k. k \<notin> set (keys ps)) (map_keys nps))"
  using update_defined [of "replicate (length ps) False" ps nps "[]" 0 0]
  by (auto simp: Update_def Let_def split: option.splits)

end
