(* ===== verification/TunDevice.thy ===== *)
theory TunDevice
  imports CLib
begin

text \<open>
  The tunnel device helpers, \<open>src/backend/TunDevice.cpp\<close>.  The programs \<open>ifconfig\<close> and \<open>route\<close> are
  outside the repository: \<open>exec\<close> runs one of them on a state \<open>'w\<close> of the operating system and gives
  its outcome, and \<open>listing\<close> is the text \<open>route\<close> prints.  \<open>DefaultGateway\<close> reads that text with a
  512-byte \<open>fgets\<close> and \<open>strtok_r\<close>; \<open>default_gateway_found\<close> says what it finds in a listing with one
  line per route.
\<close>

subsection \<open>Running the tools\<close>

text \<open>What \<open>posix_spawnp\<close> and \<open>waitpid\<close> report.\<close>

datatype spawned = SpawnFailed | WaitFailed | Exited int | Killed

type_synonym 'w exec = "string list \<Rightarrow> 'w \<Rightarrow> spawned \<times> 'w"

definition RunIfconfig :: "'w exec \<Rightarrow> string list \<Rightarrow> 'w \<Rightarrow> bool \<times> 'w" where
  "RunIfconfig exec argv w = (let (r, w) = exec argv w in (r = Exited 0, w))"

definition RunRoute :: "'w exec \<Rightarrow> string list \<Rightarrow> 'w \<Rightarrow> bool \<times> 'w" where
  "RunRoute exec argv w = (let (r, w) = exec argv w in (r = Exited 0, w))"

text \<open>The probe of slots \<open>slot\<close>, \<open>slot + 1\<close>, \dots, 7; the result is interface name and device node.\<close>

fun probe_loop :: "'w exec \<Rightarrow> nat list \<Rightarrow> 'w \<Rightarrow> (string \<times> string) option \<times> 'w" where
  "probe_loop exec [] w = (None, w)"
| "probe_loop exec (slot # slots) w =
     (let interfaceName = ''tun/'' @ show_nat slot;
          (_, w) = RunIfconfig exec [''ifconfig'', ''--delete'', interfaceName] w;
          (up, w) = RunIfconfig exec [''ifconfig'', interfaceName, ''up''] w
      in if up then (Some (interfaceName, ''/dev/tun/'' @ show_nat slot), w)
         else probe_loop exec slots w)"

definition ProbeFreeSlot :: "'w exec \<Rightarrow> 'w \<Rightarrow> (string \<times> string) option \<times> 'w" where
  "ProbeFreeSlot exec w = probe_loop exec [0..<8] w"

subsection \<open>The default gateway\<close>

definition looks_like_ipv4 :: "string \<Rightarrow> bool" where
  "looks_like_ipv4 s \<longleftrightarrow>
     list_all (\<lambda>c. c = CHR ''.'' \<or> isdigit c) s
     \<and> length (filter (\<lambda>c. c = CHR ''.'') s) = 3"

text \<open>\<open>fgets(line, n + 1, fp)\<close>: at most \<open>n\<close> characters, up to and with the first line feed.\<close>

fun fgets :: "nat \<Rightarrow> string \<Rightarrow> string \<times> string" where
  "fgets 0 s = ([], s)"
| "fgets (Suc n) [] = ([], [])"
| "fgets (Suc n) (c # s) =
     (if c = CHR 0x0A then ([c], s) else let (l, r) = fgets n s in (c # l, r))"

lemma fgets_append: "fgets n s = (l, r) \<Longrightarrow> l @ r = s"
  by (induction n s arbitrary: l r rule: fgets.induct) (auto split: if_splits prod.splits)

lemma fgets_shorter: "fgets (Suc n) s = (l, r) \<Longrightarrow> s \<noteq> [] \<Longrightarrow> length r < length s"
  using fgets_append [of "Suc n" s l r] by (cases s) (auto split: if_splits prod.splits)

text \<open>\<open>strtok_r(line, " \t\r\n", ...)\<close> until NULL.\<close>

definition is_delim :: "char \<Rightarrow> bool" where
  "is_delim c \<longleftrightarrow> c \<in> {CHR '' '', CHR 0x09, CHR 0x0D, CHR 0x0A}"

function strtok :: "string \<Rightarrow> string list" where
  "strtok s =
     (let s = dropWhile is_delim s in
      if s = [] then []
      else takeWhile (\<lambda>c. \<not> is_delim c) s # strtok (dropWhile (\<lambda>c. \<not> is_delim c) s))"
  by pat_completeness auto
termination
proof (relation "measure length")
  fix s x :: string assume x: "x = dropWhile is_delim s" "x \<noteq> []"
  then have "\<not> is_delim (hd x)" using hd_dropWhile [of is_delim s] by simp
  then have "length (dropWhile (\<lambda>c. \<not> is_delim c) x) < length x"
    using x(2) by (cases x) (auto simp: length_dropWhile_le le_imp_less_Suc)
  moreover have "length x \<le> length s" by (simp add: x(1) length_dropWhile_le)
  ultimately show "(dropWhile (\<lambda>c. \<not> is_delim c) x, s) \<in> measure length" by simp
qed simp

declare strtok.simps [simp del]

text \<open>One line of the table: the gateway column and the interface, if it is the default route.\<close>

definition gateway_line :: "string \<Rightarrow> (string \<times> string) option" where
  "gateway_line line =
     (let tokens = take 16 (strtok (c_str line)) in
      if length tokens < 3 \<or> tokens ! 0 \<noteq> ''0.0.0.0'' \<or> tokens ! 1 \<noteq> ''0.0.0.0'' then None
      else map_option (\<lambda>gw. (gw, last tokens))
             (find (\<lambda>t. looks_like_ipv4 t \<and> t \<noteq> ''0.0.0.0'') (butlast (drop 2 tokens))))"

function gateway_loop :: "string \<Rightarrow> (string \<times> string) option" where
  "gateway_loop s =
     (if s = [] then None
      else let (line, rest) = fgets 511 s in
           case gateway_line line of Some g \<Rightarrow> Some g | None \<Rightarrow> gateway_loop rest)"
  by pat_completeness auto
termination
  by (relation "measure length") (auto simp: numeral_eq_Suc dest!: fgets_shorter [OF sym])

declare gateway_loop.simps [simp del]

text \<open>\<open>None\<close> for a failing \<open>popen\<close> and for the result false.\<close>

definition DefaultGateway :: "('w \<Rightarrow> string option) \<Rightarrow> 'w \<Rightarrow> (string \<times> string) option" where
  "DefaultGateway listing w = (case listing w of None \<Rightarrow> None | Some s \<Rightarrow> gateway_loop s)"

subsection \<open>Line by line\<close>

lemma fgets_line: "CHR 0x0A \<notin> set l \<Longrightarrow> length l < n \<Longrightarrow> fgets n (l @ CHR 0x0A # r) = (l @ [CHR 0x0A], r)"
proof (induction l arbitrary: n)
  case Nil then show ?case by (cases n) auto
next
  case (Cons c l) then show ?case by (cases n) auto
qed

lemma fgets_last: "CHR 0x0A \<notin> set l \<Longrightarrow> length l \<le> n \<Longrightarrow> fgets n l = (l, [])"
proof (induction l arbitrary: n)
  case Nil then show ?case by (cases n) auto
next
  case (Cons c l) then show ?case by (cases n) auto
qed

lemma takeWhile_snoc: "\<not> P d \<Longrightarrow> takeWhile P (xs @ [d]) = takeWhile P xs"
  by (induction xs) auto

lemma strtok_word:
  "dropWhile is_delim s = t \<Longrightarrow> t \<noteq> [] \<Longrightarrow>
   strtok s = takeWhile (\<lambda>c. \<not> is_delim c) t # strtok (dropWhile (\<lambda>c. \<not> is_delim c) t)"
  using strtok.simps [of s] by (auto simp: Let_def)

lemma strtok_snoc: "is_delim d \<Longrightarrow> strtok (s @ [d]) = strtok s"
proof (induction s rule: strtok.induct)
  case (1 s)
  let ?t = "dropWhile is_delim s"
  show ?case
  proof (cases "?t = []")
    case True
    then have "dropWhile is_delim (s @ [d]) = []" using "1.prems" by (simp add: dropWhile_eq_Nil_conv)
    then show ?thesis using True by (subst (1 2) strtok.simps) simp
  next
    case False
    then have t: "dropWhile is_delim (s @ [d]) = ?t @ [d]"
      by (metis dropWhile_append1 dropWhile_eq_Nil_conv)
    have w: "takeWhile (\<lambda>c. \<not> is_delim c) (?t @ [d]) = takeWhile (\<lambda>c. \<not> is_delim c) ?t"
      using "1.prems" by (rule_tac takeWhile_snoc) simp
    have r: "dropWhile (\<lambda>c. \<not> is_delim c) (?t @ [d]) = dropWhile (\<lambda>c. \<not> is_delim c) ?t @ [d]"
      using "1.prems" by (simp add: dropWhile_append)
    show ?thesis
      using "1.IH" [OF refl False "1.prems"] False
      by (simp add: strtok_word [OF t] strtok_word [OF refl False] w r)
  qed
qed

lemma code_zero: "code c = 0 \<Longrightarrow> c = CHR 0x00"
proof -
  assume "code c = 0"
  then have "c = char_of (0::nat)" by (metis char_of_char)
  then show ?thesis by (simp add: char_of_def)
qed

lemma gateway_line_nl: "gateway_line (l @ [CHR 0x0A]) = gateway_line l"
proof (cases "CHR 0x00 \<in> set l")
  case True
  then have "c_str (l @ [CHR 0x0A]) = c_str l" by (auto simp: c_str_def takeWhile_append1)
  then show ?thesis by (simp add: gateway_line_def)
next
  case False
  then have "\<forall>c \<in> set l. code c \<noteq> 0" using code_zero by metis
  then have "c_str (l @ [CHR 0x0A]) = l @ [CHR 0x0A]" "c_str l = l"
    by (auto simp: c_str_def takeWhile_eq_all_conv)
  then show ?thesis by (simp add: gateway_line_def strtok_snoc is_delim_def)
qed

lemma gateway_line_Nil [simp]: "gateway_line [] = None"
  by (simp add: gateway_line_def c_str_def strtok.simps)

text \<open>With lines that fit the buffer, the loop looks at each line of the text in turn.\<close>

lemma gateway_loop_lines:
  "\<forall>l \<in> set (split_on (CHR 0x0A) s). length l \<le> 510 \<Longrightarrow>
   gateway_loop s = first_some gateway_line (split_on (CHR 0x0A) s)"
proof (induction s rule: gateway_loop.induct)
  case (1 s)
  consider (nl) l r where "s = l @ CHR 0x0A # r" "CHR 0x0A \<notin> set l" | (last) "CHR 0x0A \<notin> set s"
    by (meson split_list_first)
  then show ?case
  proof cases
    case nl
    then have sp: "split_on (CHR 0x0A) s = l # split_on (CHR 0x0A) r" by (simp add: split_on_append_delim)
    have f: "fgets 511 s = (l @ [CHR 0x0A], r)" using nl "1.prems" sp by (simp add: fgets_line)
    then have "s \<noteq> []" using nl by simp
    then show ?thesis
      using "1.IH" [OF _ f [symmetric] refl] "1.prems" sp f
      by (subst gateway_loop.simps) (auto simp: gateway_line_nl split: option.splits)
  next
    case last
    then have sp: "split_on (CHR 0x0A) s = [s]" by (simp add: split_on_notin)
    moreover have "fgets 511 s = (s, [])" using last "1.prems" sp by (simp add: fgets_last)
    ultimately show ?thesis
      by (subst gateway_loop.simps) (auto simp: gateway_loop.simps [of "[]"] split: option.splits)
  qed
qed

end
