(* ===== verification/RouteSync.thy ===== *)
theory RouteSync
  imports PeerSet TunDevice
begin

text \<open>
  The routing side of \<open>src/backend/tailscale/TailscaleBackend.cpp\<close>: the tunnel interface
  (\<open>_BringUpTun\<close>, \<open>_TeardownTun\<close>), the subnet routes (\<open>_SyncRoutes\<close>, \<open>_TeardownRoutes\<close>) and the exit
  node (\<open>SetExitNode\<close>, \<open>_EnableExitNode\<close>, \<open>_DisableExitNode\<close>, \<open>_ReconcileExitCarveouts\<close>,
  \<open>_SyncExitNode\<close>).  The state is the group of fields these methods share; the peers are the
  argument that the methods read from \<open>fSession\<close>.  \<open>exec\<close> runs \<open>ifconfig\<close> and \<open>route\<close> (theory
  \<open>TunDevice\<close>), \<open>listing\<close> is the output of \<open>route\<close>, and \<open>resolver\<close> is \<open>getaddrinfo\<close>.  The results are
  about every sequence of these operations, as two threads may interleave them.
\<close>

subsection \<open>State\<close>

record tun_state =
  fTunInterface :: string
  fTunNode :: string
  fTunSelfIP :: string
  fInstalledRoutes :: "subnet_route list"
  fDesiredExitNode :: string
  fActiveExitNode :: string
  fExitCarveouts :: "string list"
  fExitOrigGateway :: string
  fExitOrigGatewayIface :: string
  fExitDefaultReplaced :: bool
  fControlHost :: string
  fDerpHost :: string

definition route_cmd :: "string \<Rightarrow> string \<Rightarrow> string \<Rightarrow> string \<Rightarrow> string \<Rightarrow> string list" where
  "route_cmd verb iface net gw netmask = [''route'', verb, iface, ''inet'', net, ''gw'', gw, ''netmask'', netmask]"

fun run_routes :: "'w exec \<Rightarrow> string list list \<Rightarrow> 'w \<Rightarrow> 'w" where
  "run_routes exec [] w = w"
| "run_routes exec (c # cs) w = run_routes exec cs (snd (RunRoute exec c w))"

subsection \<open>The tunnel interface\<close>

definition BringUpTun :: "'w exec \<Rightarrow> string option \<Rightarrow> 'a tun_state_scheme \<Rightarrow> 'w \<Rightarrow> 'a tun_state_scheme \<times> 'w" where
  "BringUpTun exec selfIPv4 s w =
     (case selfIPv4 of None \<Rightarrow> (s, w) | Some selfip \<Rightarrow>
      if fTunInterface s \<noteq> [] \<or> selfip = [] then (s, w)
      else case ProbeFreeSlot exec w of (None, w) \<Rightarrow> (s, w)
      | (Some (iface, node), w) \<Rightarrow>
          let (ok, w) = RunIfconfig exec [''ifconfig'', iface, ''inet'', selfip, ''netmask'', ''255.192.0.0''] w in
          if \<not> ok then (s, w)
          else let (_, w) = RunIfconfig exec [''ifconfig'', iface, ''mtu'', ''1280''] w
               in (s\<lparr> fTunInterface := iface, fTunNode := node, fTunSelfIP := selfip \<rparr>, w))"

subsection \<open>Subnet routes\<close>

definition subnet_cmd :: "string \<Rightarrow> 'a tun_state_scheme \<Rightarrow> subnet_route \<Rightarrow> string list" where
  "subnet_cmd verb s r = route_cmd verb (fTunInterface s) (sr_net r) (fTunSelfIP s) (sr_mask r)"

definition SyncRoutes :: "'w exec \<Rightarrow> peer_set \<Rightarrow> 'a tun_state_scheme \<Rightarrow> 'w \<Rightarrow> 'a tun_state_scheme \<times> 'w" where
  "SyncRoutes exec peers s w =
     (if fTunInterface s = [] \<or> fTunSelfIP s = [] then (s, w)
      else let allowed = concat (map m_allowedIPs peers);
               desired = ComputeSubnetRoutes allowed;
               (toAdd, toRemove) = DiffRoutes desired (fInstalledRoutes s);
               s = s\<lparr> fInstalledRoutes := desired \<rparr>
           in (s, run_routes exec (map (subnet_cmd ''add'' s) toAdd @ map (subnet_cmd ''delete'' s) toRemove) w))"

definition TeardownRoutes :: "'w exec \<Rightarrow> 'a tun_state_scheme \<Rightarrow> 'w \<Rightarrow> 'a tun_state_scheme \<times> 'w" where
  "TeardownRoutes exec s w =
     (s\<lparr> fInstalledRoutes := [] \<rparr>, run_routes exec (map (subnet_cmd ''delete'' s) (fInstalledRoutes s)) w)"

subsection \<open>Exit node\<close>

definition SetExitNode :: "string \<Rightarrow> 'a tun_state_scheme \<Rightarrow> status \<times> 'a tun_state_scheme" where
  "SetExitNode node s = (B_OK, s\<lparr> fDesiredExitNode := node \<rparr>)"

text \<open>The addresses \<open>getaddrinfo\<close> returns; \<open>None\<close> is an error.\<close>

datatype sock_addr = Inet u32 | OtherFamily

type_synonym resolver = "string \<Rightarrow> sock_addr list option"

definition resolve_all_ipv4 :: "resolver \<Rightarrow> string \<Rightarrow> string list" where
  "resolve_all_ipv4 resolver host =
     (if host = [] then []
      else case resolver host of None \<Rightarrow> []
      | Some ai \<Rightarrow> concat (map (\<lambda>a. case a of Inet ip \<Rightarrow> [dotted ip] | OtherFamily \<Rightarrow> []) ai))"

definition endpoint_ip :: "string \<Rightarrow> string" where
  "endpoint_ip ep = (case find_last (CHR '':'') ep of Some colon \<Rightarrow> if colon > 0 then take colon ep else ep | None \<Rightarrow> ep)"

definition ExitUnderlayIPs :: "resolver \<Rightarrow> peer_set \<Rightarrow> 'a tun_state_scheme \<Rightarrow> string \<Rightarrow> string list" where
  "ExitUnderlayIPs resolver peers s nodeKey =
     resolve_all_ipv4 resolver (fControlHost s)
     @ (if fDerpHost s \<noteq> [] then resolve_all_ipv4 resolver (fDerpHost s) else [])
     @ (case FindPeer peers (Some nodeKey) of None \<Rightarrow> []
        | Some i \<Rightarrow> let p = peers ! i in
            filter (\<lambda>ip. ip \<noteq> []) (map endpoint_ip (m_endpoints p))
            @ (if fMode (path p) = PATH_DIRECT \<and> fEndpoint (path p) \<noteq> []
               then filter (\<lambda>ip. ip \<noteq> []) [endpoint_ip (fEndpoint (path p))] else []))"

definition exit_capable :: "peer_set \<Rightarrow> string \<Rightarrow> bool" where
  "exit_capable peers nodeKey =
     (case FindPeer peers (Some nodeKey) of None \<Rightarrow> False
      | Some i \<Rightarrow> list_ex (\<lambda>a. a = ''0.0.0.0/0'') (m_allowedIPs (peers ! i)))"

definition pin_cmd :: "string \<Rightarrow> string \<Rightarrow> string \<Rightarrow> string \<Rightarrow> string list" where
  "pin_cmd verb iface gw ip = route_cmd verb iface ip gw ''255.255.255.255''"

definition default_cmd :: "string \<Rightarrow> string \<Rightarrow> string \<Rightarrow> string list" where
  "default_cmd verb iface gw = route_cmd verb iface ''0.0.0.0'' gw ''0.0.0.0''"

text \<open>The commands of \<open>_EnableExitNode\<close>, in the order it issues them.\<close>

definition enable_cmds :: "'a tun_state_scheme \<Rightarrow> string \<Rightarrow> string \<Rightarrow> string list \<Rightarrow> string list list" where
  "enable_cmds s gw iface carve =
     map (pin_cmd ''add'' iface gw) carve
     @ [default_cmd ''delete'' iface gw, default_cmd ''add'' (fTunInterface s) (fTunSelfIP s)]"

definition EnableExitNode ::
  "'w exec \<Rightarrow> ('w \<Rightarrow> string option) \<Rightarrow> resolver \<Rightarrow> peer_set \<Rightarrow> string \<Rightarrow> 'a tun_state_scheme \<Rightarrow> 'w \<Rightarrow> 'a tun_state_scheme \<times> 'w" where
  "EnableExitNode exec listing resolver peers nodeKey s w =
     (if fTunInterface s = [] \<or> fTunSelfIP s = [] then (s, w)
      else if \<not> exit_capable peers nodeKey then (s, w)
      else case DefaultGateway listing w of None \<Rightarrow> (s, w)
      | Some (gw, iface) \<Rightarrow>
          let carve = ComputeExitCarveouts (ExitUnderlayIPs resolver peers s nodeKey)
          in (s\<lparr> fExitOrigGateway := gw, fExitOrigGatewayIface := iface, fExitDefaultReplaced := True,
                 fExitCarveouts := carve, fActiveExitNode := nodeKey \<rparr>,
              run_routes exec (enable_cmds s gw iface carve) w))"

definition disable_cmds :: "'a tun_state_scheme \<Rightarrow> string list list" where
  "disable_cmds s =
     (if fExitDefaultReplaced s
      then default_cmd ''delete'' (fTunInterface s) (fTunSelfIP s)
           # (if fExitOrigGateway s \<noteq> [] then [default_cmd ''add'' (fExitOrigGatewayIface s) (fExitOrigGateway s)] else [])
      else [])
     @ map (pin_cmd ''delete'' (fExitOrigGatewayIface s) (fExitOrigGateway s)) (fExitCarveouts s)"

definition DisableExitNode :: "'w exec \<Rightarrow> 'a tun_state_scheme \<Rightarrow> 'w \<Rightarrow> 'a tun_state_scheme \<times> 'w" where
  "DisableExitNode exec s w =
     (if fActiveExitNode s = [] then (s, w)
      else (s\<lparr> fExitCarveouts := [], fExitOrigGateway := [], fExitOrigGatewayIface := [],
               fExitDefaultReplaced := False, fActiveExitNode := [] \<rparr>,
            run_routes exec (disable_cmds s) w))"

definition ReconcileExitCarveouts ::
  "'w exec \<Rightarrow> resolver \<Rightarrow> peer_set \<Rightarrow> 'a tun_state_scheme \<Rightarrow> 'w \<Rightarrow> 'a tun_state_scheme \<times> 'w" where
  "ReconcileExitCarveouts exec resolver peers s w =
     (if fActiveExitNode s = [] \<or> fExitOrigGateway s = [] then (s, w)
      else let desired = ComputeExitCarveouts (ExitUnderlayIPs resolver peers s (fActiveExitNode s));
               (toAdd, toRemove) = DiffCarveouts desired (fExitCarveouts s);
               pin = (\<lambda>verb. pin_cmd verb (fExitOrigGatewayIface s) (fExitOrigGateway s))
           in if toAdd = [] \<and> toRemove = [] then (s, w)
              else (s\<lparr> fExitCarveouts := desired \<rparr>,
                    run_routes exec (map (pin ''add'') toAdd @ map (pin ''delete'') toRemove) w))"

definition SyncExitNode ::
  "'w exec \<Rightarrow> ('w \<Rightarrow> string option) \<Rightarrow> resolver \<Rightarrow> peer_set \<Rightarrow> 'a tun_state_scheme \<Rightarrow> 'w \<Rightarrow> 'a tun_state_scheme \<times> 'w" where
  "SyncExitNode exec listing resolver peers s w =
     (let desired = fDesiredExitNode s in
      if desired \<noteq> fActiveExitNode s then
        (let (s, w) = (if fActiveExitNode s \<noteq> [] then DisableExitNode exec s w else (s, w))
         in if desired \<noteq> [] then EnableExitNode exec listing resolver peers desired s w else (s, w))
      else if fActiveExitNode s \<noteq> [] then ReconcileExitCarveouts exec resolver peers s w
      else (s, w))"

definition TeardownTun :: "'w exec \<Rightarrow> 'a tun_state_scheme \<Rightarrow> 'w \<Rightarrow> 'a tun_state_scheme \<times> 'w" where
  "TeardownTun exec s w =
     (if fTunInterface s = [] then (s, w)
      else let (s, w) = DisableExitNode exec s w;
               (s, w) = TeardownRoutes exec s w;
               (_, w) = RunIfconfig exec [''ifconfig'', ''--delete'', fTunInterface s] w
           in (s\<lparr> fTunInterface := [], fTunNode := [], fTunSelfIP := [] \<rparr>, w))"

subsection \<open>The system's routing table\<close>

text \<open>
  A route is its interface, network, gateway (empty when on-link) and mask.  What the tools
  do, as their manuals have it: \<open>route add\<close> and \<open>route delete\<close> insert and remove one route,
  \<open>ifconfig\<close> with an interface name touches only that interface and gives it on-link routes,
  \<open>ifconfig --delete\<close> removes the interface with its routes, and \<open>route\<close> prints one line per
  route: network, mask, gateway, further columns, interface.
\<close>

type_synonym route = "string \<times> string \<times> string \<times> string"

fun r_iface :: "route \<Rightarrow> string" where "r_iface (i, n, g, m) = i"
fun r_gw :: "route \<Rightarrow> string" where "r_gw (i, n, g, m) = g"
fun r_mask :: "route \<Rightarrow> string" where "r_mask (i, n, g, m) = m"

definition gateway_routes :: "string \<Rightarrow> route set \<Rightarrow> route set" where
  "gateway_routes i t = {e \<in> t. r_iface e = i \<and> r_gw e \<noteq> []}"

definition route_tool :: "'w exec \<Rightarrow> ('w \<Rightarrow> route set) \<Rightarrow> bool" where
  "route_tool exec table \<longleftrightarrow>
     (\<forall>i n g m w. table (snd (exec (route_cmd ''add'' i n g m) w)) = insert (i, n, g, m) (table w)
                \<and> table (snd (exec (route_cmd ''delete'' i n g m) w)) = table w - {(i, n, g, m)})"

definition ifconfig_tool :: "'w exec \<Rightarrow> ('w \<Rightarrow> route set) \<Rightarrow> bool" where
  "ifconfig_tool exec table \<longleftrightarrow>
     (\<forall>i args w. i \<noteq> ''--delete'' \<longrightarrow>
        (let t = table w; t' = table (snd (exec (''ifconfig'' # i # args) w)) in
         {e \<in> t'. r_iface e \<noteq> i} = {e \<in> t. r_iface e \<noteq> i} \<and> gateway_routes i t' \<subseteq> gateway_routes i t))
   \<and> (\<forall>i w. table (snd (exec [''ifconfig'', ''--delete'', i] w)) = {e \<in> table w. r_iface e \<noteq> i})"

definition default_line :: "route set \<Rightarrow> string \<Rightarrow> bool" where
  "default_line t l \<longleftrightarrow>
     (case strtok l of
        n # m # g # cols \<Rightarrow> n = ''0.0.0.0'' \<and> m = ''0.0.0.0'' \<longrightarrow>
          looks_like_ipv4 g \<and> g \<noteq> ''0.0.0.0'' \<and> cols \<noteq> [] \<and> length cols \<le> 13 \<and> (last cols, n, g, m) \<in> t
      | _ \<Rightarrow> True)"

definition listing_tool :: "('w \<Rightarrow> string option) \<Rightarrow> ('w \<Rightarrow> route set) \<Rightarrow> bool" where
  "listing_tool listing table \<longleftrightarrow>
     (\<forall>w s. listing w = Some s \<longrightarrow>
        (\<forall>l \<in> set (split_on (CHR 0x0A) s). length l \<le> 510 \<and> CHR 0x00 \<notin> set l \<and> default_line (table w) l))"

lemma gateway_line_route:
  assumes "default_line t l" "CHR 0x00 \<notin> set l" "gateway_line l = Some (gw, iface)"
  shows "(iface, ''0.0.0.0'', gw, ''0.0.0.0'') \<in> t \<and> gw \<noteq> []"
proof -
  have cs: "c_str l = l" using assms(2) code_zero by (auto simp: c_str_def takeWhile_eq_all_conv)
  have "\<not> length (strtok l) < 3" using assms(3) by (auto simp: gateway_line_def cs Let_def split: if_splits)
  then obtain n m g cols where tok: "strtok l = n # m # g # cols"
    by (metis (no_types, opaque_lifting) length_Cons list.exhaust list.size(3) not_less_eq numeral_3_eq_3 zero_less_Suc)
  have nm: "n = ''0.0.0.0''" "m = ''0.0.0.0''"
    using assms(3) by (auto simp: gateway_line_def cs tok Let_def split: if_splits)
  then have g: "looks_like_ipv4 g" "g \<noteq> ''0.0.0.0''" "cols \<noteq> []" "length cols \<le> 13" "(last cols, n, g, m) \<in> t"
    using assms(1) by (auto simp: default_line_def tok)
  have "take 16 (strtok l) = n # m # g # cols" using g(4) by (simp add: tok)
  then have "gw = g \<and> iface = last cols"
    using assms(3) g(1-3) nm by (auto simp: gateway_line_def cs Let_def)
  moreover have "g \<noteq> []" using g(1) by (auto simp: looks_like_ipv4_def)
  ultimately show ?thesis using g(5) nm by simp
qed

lemma default_gateway_route:
  assumes "listing_tool listing table" "DefaultGateway listing w = Some (gw, iface)"
  shows "(iface, ''0.0.0.0'', gw, ''0.0.0.0'') \<in> table w \<and> gw \<noteq> []"
proof -
  obtain s where s: "listing w = Some s" "gateway_loop s = Some (gw, iface)"
    using assms(2) by (auto simp: DefaultGateway_def split: option.splits)
  have ls: "\<forall>l \<in> set (split_on (CHR 0x0A) s). length l \<le> 510 \<and> CHR 0x00 \<notin> set l \<and> default_line (table w) l"
    using assms(1) s(1) by (auto simp: listing_tool_def)
  obtain l where "l \<in> set (split_on (CHR 0x0A) s)" "gateway_line l = Some (gw, iface)"
    using s(2) gateway_loop_lines [of s] ls first_some_Some by metis
  then show ?thesis using ls gateway_line_route by metis
qed

subsection \<open>Effects on the table\<close>

lemma run_routes_append: "run_routes exec (cs @ ds) w = run_routes exec ds (run_routes exec cs w)"
  by (induction cs arbitrary: w) auto

lemma table_adds:
  assumes "route_tool exec table" "\<And>x. cmd x = route_cmd ''add'' (i x) (n x) (g x) (m x)"
  shows "table (run_routes exec (map cmd xs) w) = table w \<union> (\<lambda>x. (i x, n x, g x, m x)) ` set xs"
proof (induction xs arbitrary: w)
  case (Cons x xs)
  have "table (snd (RunRoute exec (cmd x) w)) = insert (i x, n x, g x, m x) (table w)"
    using assms by (auto simp: RunRoute_def route_tool_def split_beta)
  then show ?case by (simp add: Cons.IH)
qed simp

lemma table_deletes:
  assumes "route_tool exec table" "\<And>x. cmd x = route_cmd ''delete'' (i x) (n x) (g x) (m x)"
  shows "table (run_routes exec (map cmd xs) w) = table w - (\<lambda>x. (i x, n x, g x, m x)) ` set xs"
proof (induction xs arbitrary: w)
  case (Cons x xs)
  have "table (snd (RunRoute exec (cmd x) w)) = table w - {(i x, n x, g x, m x)}"
    using assms by (auto simp: RunRoute_def route_tool_def split_beta)
  then show ?case by (auto simp: Cons.IH)
qed simp

lemma table_default:
  assumes "route_tool exec table"
  shows "table (snd (RunRoute exec (default_cmd ''add'' i g) w)) = insert (i, ''0.0.0.0'', g, ''0.0.0.0'') (table w)"
    and "table (snd (RunRoute exec (default_cmd ''delete'' i g) w)) = table w - {(i, ''0.0.0.0'', g, ''0.0.0.0'')}"
  using assms by (auto simp: RunRoute_def route_tool_def default_cmd_def split_beta)

definition subnet_entry :: "'a tun_state_scheme \<Rightarrow> subnet_route \<Rightarrow> route" where
  "subnet_entry s r = (fTunInterface s, sr_net r, fTunSelfIP s, sr_mask r)"

definition pin_entry :: "'a tun_state_scheme \<Rightarrow> string \<Rightarrow> route" where
  "pin_entry s ip = (fExitOrigGatewayIface s, ip, fExitOrigGateway s, ''255.255.255.255'')"

definition tun_default :: "'a tun_state_scheme \<Rightarrow> route" where
  "tun_default s = (fTunInterface s, ''0.0.0.0'', fTunSelfIP s, ''0.0.0.0'')"

definition orig_default :: "'a tun_state_scheme \<Rightarrow> route" where
  "orig_default s = (fExitOrigGatewayIface s, ''0.0.0.0'', fExitOrigGateway s, ''0.0.0.0'')"

lemma entry_fields [simp]:
  "r_iface (subnet_entry s r) = fTunInterface s" "r_gw (subnet_entry s r) = fTunSelfIP s"
  "r_iface (pin_entry s ip) = fExitOrigGatewayIface s" "r_mask (pin_entry s ip) = ''255.255.255.255''"
  "r_iface (tun_default s) = fTunInterface s" "r_gw (tun_default s) = fTunSelfIP s"
  "r_iface (orig_default s) = fExitOrigGatewayIface s" "r_mask (orig_default s) = ''0.0.0.0''"
  by (simp_all add: subnet_entry_def pin_entry_def tun_default_def orig_default_def)

lemma pin_not_default: "orig_default u \<notin> pin_entry s ` A"
  by (auto simp: pin_entry_def orig_default_def)

lemma subnet_cmd_installed [simp]: "subnet_cmd verb (s\<lparr> fInstalledRoutes := rs \<rparr>) = subnet_cmd verb s"
  by (simp add: fun_eq_iff subnet_cmd_def)

lemma subnet_entry_inj: "inj (subnet_entry s)"
  by (auto simp: inj_def subnet_entry_def)

lemma pin_entry_inj: "inj (pin_entry s)"
  by (auto simp: inj_def pin_entry_def)

lemmas table_subnets =
  table_adds [of _ _ "subnet_cmd ''add'' s" "\<lambda>r. fTunInterface s" sr_net "\<lambda>r. fTunSelfIP s" sr_mask for s,
    OF _ subnet_cmd_def, folded subnet_entry_def]
  table_deletes [of _ _ "subnet_cmd ''delete'' s" "\<lambda>r. fTunInterface s" sr_net "\<lambda>r. fTunSelfIP s" sr_mask for s,
    OF _ subnet_cmd_def, folded subnet_entry_def]

lemmas table_pins =
  table_adds [of _ _ "pin_cmd ''add'' i g" "\<lambda>r. i" "\<lambda>ip. ip" "\<lambda>r. g" "\<lambda>ip. ''255.255.255.255''" for i g, OF _ pin_cmd_def]
  table_deletes [of _ _ "pin_cmd ''delete'' i g" "\<lambda>r. i" "\<lambda>ip. ip" "\<lambda>r. g" "\<lambda>ip. ''255.255.255.255''" for i g, OF _ pin_cmd_def]

subsection \<open>The invariant\<close>

definition is_tun :: "string \<Rightarrow> bool" where
  "is_tun i \<longleftrightarrow> take 4 i = ''tun/''"

text \<open>The routes of the other interfaces, and those that a host pin cannot be confused with.\<close>

definition carrier :: "route set \<Rightarrow> route set" where
  "carrier t = {e \<in> t. \<not> is_tun (r_iface e)}"

definition lasting :: "route set \<Rightarrow> route set" where
  "lasting t = {e \<in> carrier t. r_mask e \<noteq> ''255.255.255.255''}"

definition restored :: "route set \<Rightarrow> route set \<Rightarrow> bool" where
  "restored t0 t \<longleftrightarrow> carrier t \<subseteq> t0 \<and> lasting t0 \<subseteq> t"

definition captured :: "route set \<Rightarrow> 'a tun_state_scheme \<Rightarrow> route set \<Rightarrow> bool" where
  "captured t0 s t \<longleftrightarrow>
     fExitDefaultReplaced s \<and> fExitOrigGateway s \<noteq> [] \<and> fExitOrigGatewayIface s \<noteq> fTunInterface s
   \<and> pin_entry s ` set (fExitCarveouts s) \<subseteq> t \<and> orig_default s \<notin> t
   \<and> carrier t \<subseteq> t0 \<union> pin_entry s ` set (fExitCarveouts s) \<and> lasting t0 - {orig_default s} \<subseteq> t
   \<and> (\<not> is_tun (fExitOrigGatewayIface s) \<longrightarrow> orig_default s \<in> t0)"

definition tun_synced :: "'a tun_state_scheme \<Rightarrow> route set \<Rightarrow> bool" where
  "tun_synced s t \<longleftrightarrow>
     is_tun (fTunInterface s) \<and> fTunSelfIP s \<noteq> []
   \<and> (\<forall>r \<in> set (fInstalledRoutes s). subnet_entry s r \<noteq> tun_default s)
   \<and> gateway_routes (fTunInterface s) t
       = subnet_entry s ` set (fInstalledRoutes s) \<union> (if fActiveExitNode s = [] then {} else {tun_default s})"

definition route_inv :: "route set \<Rightarrow> 'a tun_state_scheme \<Rightarrow> route set \<Rightarrow> bool" where
  "route_inv t0 s t \<longleftrightarrow>
     (if fTunInterface s = [] then fActiveExitNode s = [] \<and> fInstalledRoutes s = [] else tun_synced s t)
   \<and> (if fActiveExitNode s = [] then restored t0 t else captured t0 s t)"

text \<open>Both parts look at the routes of the other interfaces only.\<close>

definition same_off :: "string \<Rightarrow> route set \<Rightarrow> route set \<Rightarrow> bool" where
  "same_off i t t' \<longleftrightarrow> (\<forall>e. r_iface e \<noteq> i \<longrightarrow> (e \<in> t) = (e \<in> t'))"

lemma restored_cong: "carrier t = carrier t' \<Longrightarrow> restored t0 t = restored t0 t'"
  by (auto simp: restored_def carrier_def lasting_def)

lemma same_off_carrier: "same_off i t t' \<Longrightarrow> is_tun i \<Longrightarrow> carrier t = carrier t'"
  unfolding carrier_def by (intro Collect_cong) (metis same_off_def)

lemma captured_cong:
  assumes "same_off (fTunInterface s) t t'" "is_tun (fTunInterface s)"
  shows "captured t0 s t = captured t0 s t'"
proof (cases "fExitOrigGatewayIface s = fTunInterface s")
  case False
  have "e \<in> t \<longleftrightarrow> e \<in> t'" if "e \<in> lasting t0" for e
  proof -
    have "r_iface e \<noteq> fTunInterface s" using that assms(2) by (auto simp: lasting_def carrier_def)
    then show ?thesis using assms(1) unfolding same_off_def by blast
  qed
  then have "lasting t0 - X \<subseteq> t \<longleftrightarrow> lasting t0 - X \<subseteq> t'" for X by blast
  moreover have "pin_entry s ` A \<subseteq> t \<longleftrightarrow> pin_entry s ` A \<subseteq> t'" "orig_default s \<in> t \<longleftrightarrow> orig_default s \<in> t'" for A
    using assms(1) False by (auto simp: pin_entry_def orig_default_def same_off_def)
  ultimately show ?thesis by (simp add: captured_def same_off_carrier [OF assms])
qed (simp add: captured_def)

subsection \<open>Every operation keeps the invariant\<close>

text \<open>The default route is never planned as a subnet route.\<close>

lemma prefix_mask_0: "0 \<le> p \<Longrightarrow> p \<le> 32 \<Longrightarrow> prefix_mask p = 0 \<longleftrightarrow> p = 0"
proof -
  assume p: "0 \<le> p" "p \<le> 32"
  have "bit (push_bit (nat (32 - p)) (0xFFFFFFFF :: u32)) 31" if "p \<noteq> 0"
  proof -
    have "31 - nat (32 - p) < 32" "nat (32 - p) \<le> 31" using p that by auto
    moreover have ones: "(0xFFFFFFFF :: u32) = - 1" by simp
    ultimately show ?thesis unfolding ones by (simp add: bit_simps)
  qed
  then show ?thesis by (auto simp: prefix_mask_def)
qed

lemma token_route:
  "c \<in> set (fst (allowed_token tok)) \<Longrightarrow>
   \<exists>net p. 0 \<le> p \<and> p \<le> 32 \<and>
     c = \<lparr> ar_net = net, ar_mask = dotted (prefix_mask p), isDefault = (net = ''0.0.0.0'' \<and> p = 0) \<rparr>"
proof (cases "find_first (CHR ''/'') (trim tok)")
  case None
  assume "c \<in> set (fst (allowed_token tok))"
  then show ?thesis using None
    by (intro exI [of _ "trim (trim tok)"] exI [of _ 32]) (auto simp: allowed_token_def Let_def simp del: find_first_None split: if_splits)
next
  case (Some k)
  assume "c \<in> set (fst (allowed_token tok))"
  then show ?thesis using Some
    by (intro exI [of _ "trim (take k (trim tok))"] exI [of _ "atoi (drop (k + 1) (trim tok))"])
       (auto simp: allowed_token_def Let_def split: if_splits)
qed

lemma parsed_default:
  assumes "c \<in> set (fst (ParseAllowedIPs a))"
  shows "isDefault c \<longleftrightarrow> ar_net c = ''0.0.0.0'' \<and> ar_mask c = ''0.0.0.0''"
proof -
  have "dotted m = ''0.0.0.0'' \<longleftrightarrow> m = 0" for m using dotted_inj [of m 0] by (simp add: dotted_0)
  then show ?thesis
    using assms by (auto simp: ParseAllowedIPs_def Let_def prefix_mask_0 dest!: token_route)
qed

lemma planned_no_default: "r \<in> set (ComputeSubnetRoutes as) \<Longrightarrow> subnet_entry s r \<noteq> tun_default s"
  using parsed_default by (auto simp: ComputeSubnetRoutes_set wanted_def route_of_def subnet_entry_def tun_default_def)

text \<open>What each operation does to the table, and with it to the invariant.\<close>

lemma run_ifconfig:
  assumes "ifconfig_tool exec table" "i \<noteq> ''--delete''"
  shows "same_off i (table w) (table (snd (exec (''ifconfig'' # i # args) w)))"
    and "gateway_routes i (table (snd (exec (''ifconfig'' # i # args) w))) \<subseteq> gateway_routes i (table w)"
proof -
  let ?t = "table (snd (exec (''ifconfig'' # i # args) w))"
  have "{e \<in> ?t. r_iface e \<noteq> i} = {e \<in> table w. r_iface e \<noteq> i} \<and> gateway_routes i ?t \<subseteq> gateway_routes i (table w)"
    using assms unfolding ifconfig_tool_def Let_def by blast
  then show "same_off i (table w) ?t" "gateway_routes i ?t \<subseteq> gateway_routes i (table w)"
    unfolding same_off_def by blast+
qed

lemma run_ifconfig_delete:
  "ifconfig_tool exec table \<Longrightarrow> table (snd (exec [''ifconfig'', ''--delete'', i] w)) = {e \<in> table w. r_iface e \<noteq> i}"
  unfolding ifconfig_tool_def by blast

lemma same_off_trans: "same_off i t u \<Longrightarrow> same_off i u v \<Longrightarrow> same_off i t v"
  unfolding same_off_def by blast

lemma is_tun_slot [simp]: "is_tun (''tun/'' @ s)" "''tun/'' @ s \<noteq> ''--delete''"
  by (simp_all add: is_tun_def)

lemma probe_table:
  assumes "ifconfig_tool exec table" "probe_loop exec slots w = (r, w')"
  shows "carrier (table w') = carrier (table w)
     \<and> (\<forall>iface node. r = Some (iface, node) \<longrightarrow> is_tun iface \<and> iface \<noteq> ''--delete'' \<and> gateway_routes iface (table w') = {})"
  using assms(2)
proof (induction slots arbitrary: w)
  case (Cons slot slots)
  let ?i = "''tun/'' @ show_nat slot"
  let ?w1 = "snd (exec [''ifconfig'', ''--delete'', ?i] w)" and ?up = "exec [''ifconfig'', ?i, ''up'']"
  have t1: "table ?w1 = {e \<in> table w. r_iface e \<noteq> ?i}" by (rule run_ifconfig_delete [OF assms(1)])
  have off: "same_off ?i (table ?w1) (table (snd (?up ?w1)))"
    and gw: "gateway_routes ?i (table (snd (?up ?w1))) \<subseteq> gateway_routes ?i (table ?w1)"
    by (rule run_ifconfig [OF assms(1)], simp)+
  have "same_off ?i (table w) (table ?w1)" unfolding t1 same_off_def by blast
  then have c: "carrier (table (snd (?up ?w1))) = carrier (table w)"
    using same_off_carrier [OF same_off_trans [OF _ off] is_tun_slot(1)] by simp
  have g: "gateway_routes ?i (table (snd (?up ?w1))) = {}"
    using gw unfolding t1 gateway_routes_def by blast
  show ?case
  proof (cases "fst (?up ?w1) = Exited 0")
    case True
    then show ?thesis using Cons.prems c g
      by (auto simp: RunIfconfig_def split_beta Let_def simp del: append_Cons append_Nil)
  next
    case False
    then show ?thesis using Cons.prems c Cons.IH [of "snd (?up ?w1)"]
      by (auto simp: RunIfconfig_def split_beta Let_def simp del: append_Cons append_Nil)
  qed
qed simp

lemma tun_synced_up:
  "is_tun (fTunInterface s) \<Longrightarrow> fTunInterface s \<noteq> []"
  by (auto simp: is_tun_def)

lemma BringUpTun_inv:
  assumes tool: "ifconfig_tool exec table" and inv: "route_inv t0 s (table w)"
    and op: "BringUpTun exec ip s w = (s', w')"
  shows "route_inv t0 s' (table w')"
proof (cases "\<exists>selfip. ip = Some selfip \<and> fTunInterface s = [] \<and> selfip \<noteq> []")
  case False
  then have "s' = s \<and> w' = w" using op by (auto simp: BringUpTun_def split: option.splits if_splits)
  then show ?thesis using inv by simp
next
  case True
  then obtain selfip where ip: "ip = Some selfip" "fTunInterface s = []" "selfip \<noteq> []" by blast
  then have s: "fActiveExitNode s = []" "fInstalledRoutes s = []" "restored t0 (table w)"
    using inv by (auto simp: route_inv_def)
  obtain r w1 where pr: "ProbeFreeSlot exec w = (r, w1)" by fastforce
  note p = probe_table [OF tool pr [unfolded ProbeFreeSlot_def]]
  show ?thesis
  proof (cases r)
    case None
    then have "s' = s \<and> w' = w1" using op ip pr by (simp add: BringUpTun_def)
    then show ?thesis using p ip s restored_cong [of "table w1" "table w" t0] by (simp add: route_inv_def)
  next
    case (Some sl)
    obtain iface node where sl: "sl = (iface, node)" by fastforce
    then have t: "is_tun iface" "iface \<noteq> ''--delete''" "gateway_routes iface (table w1) = {}" using p Some by auto
    let ?w2 = "snd (exec [''ifconfig'', iface, ''inet'', selfip, ''netmask'', ''255.192.0.0''] w1)"
    let ?w3 = "snd (exec [''ifconfig'', iface, ''mtu'', ''1280''] ?w2)"
    have o2: "same_off iface (table w1) (table ?w2)" and o3: "same_off iface (table ?w2) (table ?w3)"
      and g2: "gateway_routes iface (table ?w2) = {}" and g3: "gateway_routes iface (table ?w3) = {}"
      using run_ifconfig [OF tool t(2)] t(3) by blast+
    have c: "carrier (table ?w2) = carrier (table w)" "carrier (table ?w3) = carrier (table w)"
      using same_off_carrier [OF o2 t(1)] same_off_carrier [OF o3 t(1)] p by simp_all
    have res: "restored t0 (table ?w2)" "restored t0 (table ?w3)"
      using s(3) restored_cong [OF c(1)] restored_cong [OF c(2)] by simp_all
    show ?thesis
    proof (cases "fst (exec [''ifconfig'', iface, ''inet'', selfip, ''netmask'', ''255.192.0.0''] w1) = Exited 0")
      case True
      then have "s' = s\<lparr> fTunInterface := iface, fTunNode := node, fTunSelfIP := selfip \<rparr> \<and> w' = ?w3"
        using op ip pr Some sl by (simp add: BringUpTun_def RunIfconfig_def split_beta Let_def)
      then show ?thesis
        using s res t tun_synced_up ip(3) g3 by (simp add: route_inv_def tun_synced_def)
    next
      case False
      then have "s' = s \<and> w' = ?w2"
        using op ip pr Some sl by (simp add: BringUpTun_def RunIfconfig_def split_beta Let_def)
      then show ?thesis using s res ip(2) by (simp add: route_inv_def)
    qed
  qed
qed

text \<open>Gateway routes of the tunnel apart, a command list for the tunnel changes nothing.\<close>

lemma gateway_routes_Un: "gateway_routes i (t \<union> u) = gateway_routes i t \<union> gateway_routes i u"
  by (auto simp: gateway_routes_def)

lemma gateway_routes_Diff: "gateway_routes i (t - u) = gateway_routes i t - u"
  by (auto simp: gateway_routes_def)

lemma gateway_routes_insert:
  "gateway_routes i (insert e t) = (if r_iface e = i \<and> r_gw e \<noteq> [] then insert e (gateway_routes i t) else gateway_routes i t)"
  by (auto simp: gateway_routes_def)

lemma gateway_routes_empty: "\<forall>e \<in> t. r_iface e \<noteq> i \<Longrightarrow> gateway_routes i t = {}"
  by (auto simp: gateway_routes_def)

lemma gateway_routes_off: "\<forall>e \<in> u. r_iface e \<noteq> i \<Longrightarrow> gateway_routes i (t - u) = gateway_routes i t"
  by (auto simp: gateway_routes_def)

lemma gateway_subnets:
  "fTunSelfIP s \<noteq> [] \<Longrightarrow> gateway_routes (fTunInterface s) (subnet_entry s ` A) = subnet_entry s ` A"
  by (auto simp: gateway_routes_def subnet_entry_def)

lemma same_off_subnets: "same_off (fTunInterface s) t ((t \<union> subnet_entry s ` A) - subnet_entry s ` B)"
  by (auto simp: same_off_def subnet_entry_def)

lemma SyncRoutes_inv:
  assumes tool: "route_tool exec table" and inv: "route_inv t0 s (table w)"
    and op: "SyncRoutes exec peers s w = (s', w')"
  shows "route_inv t0 s' (table w')"
proof (cases "fTunInterface s = [] \<or> fTunSelfIP s = []")
  case True
  then show ?thesis using inv op by (simp add: SyncRoutes_def)
next
  case False
  then have sy: "tun_synced s (table w)" using inv by (simp add: route_inv_def)
  let ?want = "ComputeSubnetRoutes (concat (map m_allowedIPs peers))" and ?have = "fInstalledRoutes s"
  obtain add del where d: "DiffRoutes ?want ?have = (add, del)" by fastforce
  let ?u = "s\<lparr> fInstalledRoutes := ?want \<rparr>"
  have s': "s' = ?u"
    and "w' = run_routes exec (map (subnet_cmd ''delete'' s) del) (run_routes exec (map (subnet_cmd ''add'' s) add) w)"
    using op False d by (simp_all add: SyncRoutes_def run_routes_append Let_def)
  then have w': "table w' = (table w \<union> subnet_entry s ` set add) - subnet_entry s ` set del"
    by (simp add: table_subnets [OF tool])
  have off: "same_off (fTunInterface s) (table w) (table w')" unfolding w' by (rule same_off_subnets)
  let ?d = "if fActiveExitNode s = [] then {} else {tun_default s}"
  have "gateway_routes (fTunInterface s) (table w) = ?d \<union> subnet_entry s ` set ?have"
    using sy by (auto simp: tun_synced_def)
  then have "gateway_routes (fTunInterface s) (table w')
      = (gateway_routes (fTunInterface s) (table w) \<union> subnet_entry s ` set (fst (DiffRoutes ?want ?have)))
        - subnet_entry s ` set (snd (DiffRoutes ?want ?have))"
    using False by (simp add: w' d gateway_routes_Un gateway_routes_Diff gateway_subnets)
  also have "\<dots> = ?d \<union> subnet_entry s ` set ?want"
  proof (rule routes.table_after)
    show "inj_on (subnet_entry s) (set ?want \<union> set ?have)" using subnet_entry_inj by (rule inj_on_subset) simp
    show "gateway_routes (fTunInterface s) (table w) = ?d \<union> subnet_entry s ` set ?have"
      using sy by (auto simp: tun_synced_def)
    show "?d \<inter> subnet_entry s ` set ?want = {}"
      using planned_no_default [of _ _ s] by (auto simp: image_iff) metis
    show "?d \<inter> subnet_entry s ` set ?have = {}" using sy by (auto simp: tun_synced_def)
  qed
  finally have g: "gateway_routes (fTunInterface s) (table w') = ?d \<union> subnet_entry s ` set ?want" .
  have "tun_synced ?u (table w')"
    using sy g planned_no_default by (auto simp: tun_synced_def subnet_entry_def tun_default_def)
  moreover have "captured t0 ?u t = captured t0 s t" for t
    by (simp add: captured_def pin_entry_def orig_default_def)
  ultimately show ?thesis
    using inv False sy s' captured_cong [OF off] restored_cong [OF same_off_carrier [OF off]]
    by (auto simp: route_inv_def tun_synced_def)
qed

text \<open>Enabling pins the carve-outs, then moves the default route.\<close>

lemma enable_table:
  assumes "route_tool exec table"
  shows "table (run_routes exec (enable_cmds s gw iface carve) w)
    = insert (tun_default s) ((table w \<union> (\<lambda>ip. (iface, ip, gw, ''255.255.255.255'')) ` set carve) - {(iface, ''0.0.0.0'', gw, ''0.0.0.0'')})"
  using assms by (simp add: enable_cmds_def run_routes_append table_pins table_default tun_default_def)

lemma default_elsewhere:
  assumes "listing_tool listing table" "tun_synced s (table w)" "fActiveExitNode s = []"
    "DefaultGateway listing w = Some (gw, iface)"
  shows "iface \<noteq> fTunInterface s \<and> tun_default s \<notin> table w"
proof
  have g: "gateway_routes (fTunInterface s) (table w) = subnet_entry s ` set (fInstalledRoutes s)"
    and no: "\<forall>r \<in> set (fInstalledRoutes s). subnet_entry s r \<noteq> tun_default s" and ip: "fTunSelfIP s \<noteq> []"
    using assms(2,3) by (simp_all add: tun_synced_def)
  have d: "(iface, ''0.0.0.0'', gw, ''0.0.0.0'') \<in> table w \<and> gw \<noteq> []" by (rule default_gateway_route [OF assms(1,4)])
  show "iface \<noteq> fTunInterface s"
  proof
    assume i: "iface = fTunInterface s"
    then have "(iface, ''0.0.0.0'', gw, ''0.0.0.0'') \<in> gateway_routes (fTunInterface s) (table w)"
      using d by (simp add: gateway_routes_def)
    then obtain r where r: "r \<in> set (fInstalledRoutes s)" "(iface, ''0.0.0.0'', gw, ''0.0.0.0'') = subnet_entry s r"
      unfolding g by blast
    then have "subnet_entry s r = tun_default s" by (auto simp: subnet_entry_def tun_default_def)
    then show False using no r(1) by blast
  qed
  show "tun_default s \<notin> table w"
  proof
    assume "tun_default s \<in> table w"
    then have "tun_default s \<in> gateway_routes (fTunInterface s) (table w)" using ip by (simp add: gateway_routes_def)
    then show False using no unfolding g by auto
  qed
qed

lemma EnableExitNode_inv:
  assumes tool: "route_tool exec table" "listing_tool listing table"
    and inv: "route_inv t0 s (table w)" "fActiveExitNode s = []" and key: "key \<noteq> []"
    and op: "EnableExitNode exec listing resolver peers key s w = (s', w')"
  shows "route_inv t0 s' (table w')"
proof (cases "fTunInterface s = [] \<or> fTunSelfIP s = [] \<or> \<not> exit_capable peers key \<or> DefaultGateway listing w = None")
  case True
  then show ?thesis using inv op by (auto simp: EnableExitNode_def split: if_splits)
next
  case False
  then obtain gw iface where dg: "DefaultGateway listing w = Some (gw, iface)" by auto
  define carve where "carve = ComputeExitCarveouts (ExitUnderlayIPs resolver peers s key)"
  define u where "u = s\<lparr> fExitOrigGateway := gw, fExitOrigGatewayIface := iface, fExitDefaultReplaced := True,
                 fExitCarveouts := carve, fActiveExitNode := key \<rparr>"
  have s': "s' = u" and "w' = run_routes exec (enable_cmds s gw iface carve) w"
    using op False dg by (simp_all add: EnableExitNode_def u_def carve_def Let_def)
  then have t': "table w' = insert (tun_default s) ((table w \<union> pin_entry u ` set carve) - {orig_default u})"
    by (simp add: enable_table [OF tool(1)] u_def pin_entry_def orig_default_def)
  have iface_u: "fExitOrigGatewayIface u = iface" by (simp add: u_def)
  have sy: "tun_synced s (table w)" and res: "restored t0 (table w)" using inv False by (simp_all add: route_inv_def)
  have d: "orig_default u \<in> table w" "gw \<noteq> []"
    using default_gateway_route [OF tool(2) dg] by (simp_all add: u_def orig_default_def)
  have ne: "iface \<noteq> fTunInterface s" using default_elsewhere [OF tool(2) sy inv(2) dg] ..
  have "gateway_routes (fTunInterface s) (table w') = insert (tun_default s) (gateway_routes (fTunInterface s) (table w))"
    using ne sy
    by (simp add: t' gateway_routes_insert gateway_routes_off gateway_routes_Un gateway_routes_empty tun_synced_def
        iface_u)
  then have "tun_synced u (table w')"
    using sy inv(2) key by (auto simp: tun_synced_def u_def subnet_entry_def tun_default_def)
  moreover have "captured t0 u (table w')"
  proof -
    have c: "carrier (table w') \<subseteq> carrier (table w) \<union> pin_entry u ` set carve"
      using sy by (auto simp: t' carrier_def tun_default_def tun_synced_def)
    have "orig_default u \<in> carrier (table w)" if "\<not> is_tun iface"
      using that d by (simp add: carrier_def u_def orig_default_def)
    moreover have "orig_default u \<noteq> tun_default s" "orig_default u \<notin> pin_entry u ` set carve"
      using ne iface_u entry_fields(5,7) pin_not_default by metis+
    ultimately show ?thesis
      using res ne d(2) c by (auto simp: captured_def restored_def u_def t')
  qed
  ultimately show ?thesis using False key by (simp add: route_inv_def s') (simp add: u_def)
qed

text \<open>Disabling gives the default route back and removes the pins.\<close>

lemma disable_table:
  assumes "route_tool exec table" "captured t0 s (table w)"
  shows "table (run_routes exec (disable_cmds s) w)
    = insert (orig_default s) (table w - {tun_default s}) - pin_entry s ` set (fExitCarveouts s)"
  using assms
  by (simp add: captured_def disable_cmds_def run_routes_append table_pins table_default tun_default_def orig_default_def
      pin_entry_def)

lemma DisableExitNode_inv:
  assumes tool: "route_tool exec table" and inv: "route_inv t0 s (table w)"
    and op: "DisableExitNode exec s w = (s', w')"
  shows "route_inv t0 s' (table w') \<and> fActiveExitNode s' = [] \<and> fTunInterface s' = fTunInterface s
    \<and> fDesiredExitNode s' = fDesiredExitNode s"
proof (cases "fActiveExitNode s = []")
  case True
  then show ?thesis using inv op by (simp add: DisableExitNode_def)
next
  case False
  then have sy: "tun_synced s (table w)" and cap: "captured t0 s (table w)" and up: "fTunInterface s \<noteq> []"
    using inv by (auto simp: route_inv_def split: if_splits)
  define u where "u = s\<lparr> fExitCarveouts := [], fExitOrigGateway := [], fExitOrigGatewayIface := [],
               fExitDefaultReplaced := False, fActiveExitNode := [] \<rparr>"
  have s': "s' = u" and w': "w' = run_routes exec (disable_cmds s) w"
    using op False by (simp_all add: DisableExitNode_def u_def)
  note t' = disable_table [OF tool cap, folded w']
  have "gateway_routes (fTunInterface s) (table w') = gateway_routes (fTunInterface s) (table w) - {tun_default s}"
  proof -
    have "\<forall>e \<in> pin_entry s ` set (fExitCarveouts s). r_iface e \<noteq> fTunInterface s" using cap by (auto simp: captured_def)
    then show ?thesis
      using cap by (simp only: t' gateway_routes_off) (simp add: gateway_routes_insert gateway_routes_Diff captured_def)
  qed
  then have "gateway_routes (fTunInterface s) (table w') = subnet_entry s ` set (fInstalledRoutes s)"
    using sy False by (auto simp: tun_synced_def)
  then have "tun_synced u (table w')"
    using sy by (auto simp: tun_synced_def u_def subnet_entry_def tun_default_def)
  moreover have "restored t0 (table w')"
  proof -
    have "orig_default s \<in> carrier (table w') \<Longrightarrow> orig_default s \<in> t0"
      using cap by (auto simp: captured_def carrier_def orig_default_def)
    moreover have "carrier (table w') \<subseteq> insert (orig_default s) (carrier (table w)) - pin_entry s ` set (fExitCarveouts s)"
      by (auto simp: t' carrier_def)
    moreover have "e \<notin> pin_entry s ` A \<and> e \<noteq> tun_default s" if "e \<in> lasting t0" for e A
      using that sy by (auto simp: lasting_def carrier_def pin_entry_def tun_default_def tun_synced_def)
    ultimately show ?thesis
      using cap unfolding restored_def captured_def t' by blast
  qed
  ultimately show ?thesis using up by (simp add: route_inv_def s') (simp add: u_def)
qed

lemma ReconcileExitCarveouts_inv:
  assumes tool: "route_tool exec table" and inv: "route_inv t0 s (table w)"
    and op: "ReconcileExitCarveouts exec resolver peers s w = (s', w')"
  shows "route_inv t0 s' (table w')"
proof (cases "fActiveExitNode s = []")
  case True
  then show ?thesis using inv op by (simp add: ReconcileExitCarveouts_def)
next
  case False
  then have sy: "tun_synced s (table w)" and cap: "captured t0 s (table w)" and up: "fTunInterface s \<noteq> []"
    using inv by (auto simp: route_inv_def split: if_splits)
  then have gw: "fExitOrigGateway s \<noteq> []" by (simp add: captured_def)
  let ?want = "ComputeExitCarveouts (ExitUnderlayIPs resolver peers s (fActiveExitNode s))" and ?have = "fExitCarveouts s"
  obtain add del where d: "DiffCarveouts ?want ?have = (add, del)" by fastforce
  have ad: "set add = set ?want - set ?have" "set del = set ?have - set ?want"
    using carveouts.to_add [of ?want ?have] carveouts.to_remove [of ?want ?have] d by simp_all
  let ?u = "s\<lparr> fExitCarveouts := ?want \<rparr>"
  show ?thesis
  proof (cases "add = [] \<and> del = []")
    case True
    then show ?thesis using inv op False gw d by (simp add: ReconcileExitCarveouts_def)
  next
    case ne: False
    have s': "s' = ?u" and t': "table w' = (table w \<union> pin_entry s ` set add) - pin_entry s ` set del"
      using op False gw d ne
      by (auto simp: ReconcileExitCarveouts_def run_routes_append table_pins [OF tool] pin_entry_def Let_def)
    have pin: "pin_entry ?u = pin_entry s" "orig_default ?u = orig_default s"
      by (simp_all add: fun_eq_iff pin_entry_def orig_default_def)
    have "gateway_routes (fTunInterface s) (table w') = gateway_routes (fTunInterface s) (table w)"
      using cap by (simp add: t' gateway_routes_off gateway_routes_Un gateway_routes_empty captured_def)
    then have "tun_synced ?u (table w')"
      using sy by (auto simp: tun_synced_def subnet_entry_def tun_default_def)
    moreover have "captured t0 ?u (table w')"
    proof -
      let ?P = "pin_entry s"
      have diff: "?P ` set add = ?P ` set ?want - ?P ` set ?have" "?P ` set del = ?P ` set ?have - ?P ` set ?want"
        by (simp_all add: ad image_set_diff [OF pin_entry_inj])
      have pins: "?P ` set ?have \<subseteq> table w" and car: "carrier (table w) \<subseteq> t0 \<union> ?P ` set ?have"
        and lst: "lasting t0 - {orig_default s} \<subseteq> table w" "orig_default s \<notin> table w"
        using cap by (simp_all add: captured_def)
      have "?P ` set ?want \<subseteq> table w'" using pins unfolding t' diff by blast
      moreover have "carrier (table w') \<subseteq> carrier (table w) \<union> ?P ` set ?want - (?P ` set ?have - ?P ` set ?want)"
        unfolding t' diff carrier_def by blast
      then have "carrier (table w') \<subseteq> t0 \<union> ?P ` set ?want" using car by blast
      moreover have "orig_default s \<notin> table w'" using lst(2) pin_not_default unfolding t' by blast
      moreover have "lasting t0 \<inter> ?P ` set del = {}" by (auto simp: lasting_def)
      then have "lasting t0 - {orig_default s} \<subseteq> table w'" using lst(1) unfolding t' by blast
      ultimately show ?thesis using cap by (simp add: captured_def pin)
    qed
    ultimately show ?thesis using up False by (simp add: route_inv_def s')
  qed
qed

lemma SyncExitNode_inv:
  assumes tool: "route_tool exec table" "listing_tool listing table" and inv: "route_inv t0 s (table w)"
    and op: "SyncExitNode exec listing resolver peers s w = (s', w')"
  shows "route_inv t0 s' (table w')"
proof (cases "fDesiredExitNode s = fActiveExitNode s")
  case True
  then show ?thesis
    using inv op ReconcileExitCarveouts_inv [OF tool(1) inv] by (auto simp: SyncExitNode_def split: if_splits)
next
  case False
  obtain u v where d: "(if fActiveExitNode s \<noteq> [] then DisableExitNode exec s w else (s, w)) = (u, v)" by fastforce
  have "route_inv t0 u (table v) \<and> fActiveExitNode u = []"
  proof (cases "fActiveExitNode s = []")
    case True
    then show ?thesis using d inv by (metis prod.inject)
  next
    case False
    then have "DisableExitNode exec s w = (u, v)" using d by presburger
    then show ?thesis using DisableExitNode_inv [OF tool(1) inv] by blast
  qed
  then have u: "route_inv t0 u (table v)" "fActiveExitNode u = []" by blast+
  have e: "SyncExitNode exec listing resolver peers s w =
      (case (if fActiveExitNode s \<noteq> [] then DisableExitNode exec s w else (s, w)) of (u, v) \<Rightarrow>
        if fDesiredExitNode s \<noteq> [] then EnableExitNode exec listing resolver peers (fDesiredExitNode s) u v else (u, v))"
    using False unfolding SyncExitNode_def Let_def by (rule if_P)
  have "(if fDesiredExitNode s \<noteq> [] then EnableExitNode exec listing resolver peers (fDesiredExitNode s) u v else (u, v)) = (s', w')"
    using op unfolding e d prod.case .
  then show ?thesis
    using u EnableExitNode_inv [OF tool u, of "fDesiredExitNode s" resolver peers s' w'] by (simp split: if_splits)
qed

lemma TeardownTun_inv:
  assumes tool: "route_tool exec table" "ifconfig_tool exec table" and inv: "route_inv t0 s (table w)"
    and op: "TeardownTun exec s w = (s', w')"
  shows "route_inv t0 s' (table w') \<and> (fTunInterface s \<noteq> [] \<longrightarrow> (\<forall>e \<in> table w'. r_iface e \<noteq> fTunInterface s))"
proof (cases "fTunInterface s = []")
  case True
  then show ?thesis using inv op by (simp add: TeardownTun_def)
next
  case False
  obtain u v where d: "DisableExitNode exec s w = (u, v)" by fastforce
  have u: "route_inv t0 u (table v)" "fActiveExitNode u = []" "fTunInterface u = fTunInterface s"
    using DisableExitNode_inv [OF tool(1) inv d] by simp_all
  obtain x y where r: "TeardownRoutes exec u v = (x, y)" by fastforce
  have x: "x = u\<lparr> fInstalledRoutes := [] \<rparr>" and y: "table y = table v - subnet_entry u ` set (fInstalledRoutes u)"
    using r by (auto simp: TeardownRoutes_def table_subnets [OF tool(1)])
  have s': "s' = x\<lparr> fTunInterface := [], fTunNode := [], fTunSelfIP := [] \<rparr>"
    and t': "table w' = {e \<in> table y. r_iface e \<noteq> fTunInterface s}"
    using op False d r u x run_ifconfig_delete [OF tool(2)] by (auto simp: TeardownTun_def RunIfconfig_def split_beta)
  have "is_tun (fTunInterface s)" using u False by (simp add: route_inv_def tun_synced_def)
  then have "carrier (table w') = carrier (table v)"
    using u(3) by (auto simp: carrier_def t' y subnet_entry_def)
  then have "restored t0 (table w')"
    using u restored_cong [of "table w'" "table v" t0] by (simp add: route_inv_def)
  then show ?thesis using u(2) by (simp add: route_inv_def s' x t')
qed

subsection \<open>Sequences of operations\<close>

text \<open>
  What the worker (bring-up, \<open>_SyncRoutes\<close> after a netmap), the looper (\<open>SetExitNode\<close>,
  \<open>_TeardownTun\<close>) and the tun reader (the tick) do, in any order, with any peers and any
  answers of the resolver.
\<close>

datatype route_op =
    Op_Up "string option"
  | Op_Sync peer_set
  | Op_Select string
  | Op_Tick peer_set resolver
  | Op_Down

fun route_step ::
  "'w exec \<Rightarrow> ('w \<Rightarrow> string option) \<Rightarrow> route_op \<Rightarrow> 'a tun_state_scheme \<times> 'w \<Rightarrow> 'a tun_state_scheme \<times> 'w" where
  "route_step exec listing (Op_Up ip) (s, w) = BringUpTun exec ip s w"
| "route_step exec listing (Op_Sync peers) (s, w) = SyncRoutes exec peers s w"
| "route_step exec listing (Op_Select node) (s, w) = (snd (SetExitNode node s), w)"
| "route_step exec listing (Op_Tick peers resolver) (s, w) = SyncExitNode exec listing resolver peers s w"
| "route_step exec listing Op_Down (s, w) = TeardownTun exec s w"

inductive route_reach ::
  "'w exec \<Rightarrow> ('w \<Rightarrow> string option) \<Rightarrow> 'a tun_state_scheme \<times> 'w \<Rightarrow> route_op list \<Rightarrow> 'a tun_state_scheme \<times> 'w \<Rightarrow> bool"
  for exec listing init where
  reach_init: "route_reach exec listing init [] init"
| reach_step: "route_reach exec listing init ops c \<Longrightarrow> route_reach exec listing init (ops @ [oper]) (route_step exec listing oper c)"

definition idle :: "'a tun_state_scheme \<Rightarrow> bool" where
  "idle s \<longleftrightarrow> fTunInterface s = [] \<and> fActiveExitNode s = [] \<and> fInstalledRoutes s = []"

definition tools :: "'w exec \<Rightarrow> ('w \<Rightarrow> string option) \<Rightarrow> ('w \<Rightarrow> route set) \<Rightarrow> bool" where
  "tools exec listing table \<longleftrightarrow> route_tool exec table \<and> ifconfig_tool exec table \<and> listing_tool listing table"

lemma route_step_inv:
  assumes "tools exec listing table" "route_inv t0 s (table w)" "route_step exec listing oper (s, w) = (s', w')"
  shows "route_inv t0 s' (table w')"
proof (cases oper)
  case (Op_Select node)
  then have "s' = s\<lparr> fDesiredExitNode := node \<rparr> \<and> w' = w" using assms(3) by (simp add: SetExitNode_def)
  moreover have "subnet_entry (s\<lparr> fDesiredExitNode := node \<rparr>) = subnet_entry s" "pin_entry (s\<lparr> fDesiredExitNode := node \<rparr>) = pin_entry s"
    "tun_default (s\<lparr> fDesiredExitNode := node \<rparr>) = tun_default s" "orig_default (s\<lparr> fDesiredExitNode := node \<rparr>) = orig_default s"
    by (simp_all add: fun_eq_iff subnet_entry_def pin_entry_def tun_default_def orig_default_def)
  then have "tun_synced (s\<lparr> fDesiredExitNode := node \<rparr>) t = tun_synced s t"
    "captured t0 (s\<lparr> fDesiredExitNode := node \<rparr>) t = captured t0 s t" for t
    by (simp_all add: tun_synced_def captured_def)
  ultimately show ?thesis using assms(2) by (simp add: route_inv_def)
next
  case (Op_Up ip)
  then show ?thesis using assms BringUpTun_inv [of exec table t0 s w ip s' w'] by (simp add: tools_def)
next
  case (Op_Sync peers)
  then show ?thesis using assms SyncRoutes_inv [of exec table t0 s w peers s' w'] by (simp add: tools_def)
next
  case (Op_Tick peers resolver)
  then show ?thesis using assms SyncExitNode_inv [of exec table listing t0 s w resolver peers s' w'] by (simp add: tools_def)
next
  case Op_Down
  then show ?thesis using assms TeardownTun_inv [of exec table t0 s w s' w'] by (simp add: tools_def)
qed

lemma route_reach_inv:
  assumes "tools exec listing table" "idle s0" "route_reach exec listing (s0, w0) ops c"
  shows "route_inv (table w0) (fst c) (table (snd c))"
  using assms(3)
proof induction
  case reach_init
  then show ?case using assms(2) by (auto simp: idle_def route_inv_def restored_def carrier_def lasting_def)
next
  case (reach_step ops c oper)
  then show ?case using route_step_inv [OF assms(1)] by (metis prod.collapse)
qed

lemma teardown_result:
  assumes "tools exec listing table" "route_inv t0 s (table w)" "TeardownTun exec s w = (s', w')"
  shows "idle s' \<and> carrier (table w') \<subseteq> t0 \<and> lasting t0 \<subseteq> table w'
     \<and> (fTunInterface s \<noteq> [] \<longrightarrow> (\<forall>e \<in> table w'. r_iface e \<noteq> fTunInterface s))"
proof -
  have "route_inv t0 s' (table w')" "fTunInterface s \<noteq> [] \<longrightarrow> (\<forall>e \<in> table w'. r_iface e \<noteq> fTunInterface s)"
    using TeardownTun_inv [of exec table t0 s w s' w'] assms by (simp_all add: tools_def)
  moreover have "fTunInterface s' = []"
    using assms(3) by (auto simp: TeardownTun_def split_beta Let_def split: if_splits)
  ultimately show ?thesis by (auto simp: route_inv_def idle_def restored_def)
qed

text \<open>
  C16. Whatever sequence of bring-ups, netmap updates, exit-node selections, ticks and
  teardowns has run from an idle state, tearing the tunnel down leaves no route on the tunnel
  interface and gives the interfaces other than \<open>tun/*\<close> their routes back: they have no route they
  did not have before, and they have every one they had except host routes (mask
  \<open>255.255.255.255\<close>), which are not covered: a carve-out pin may coincide with the user's own host
  route, which is then deleted with it.  Nothing is said of the other \<open>tun/*\<close> interfaces, which a bring-up
  may delete.  The tools are assumed to do what they are asked; the code does not look at their results.
\<close>

theorem routes_restored:
  assumes "tools exec listing table" "idle s0" "route_reach exec listing (s0, w0) ops (s, w)"
    "TeardownTun exec s w = (s', w')"
  shows "idle s' \<and> carrier (table w') \<subseteq> table w0 \<and> lasting (table w0) \<subseteq> table w'
     \<and> (fTunInterface s \<noteq> [] \<longrightarrow> (\<forall>e \<in> table w'. r_iface e \<noteq> fTunInterface s))"
  using teardown_result [OF assms(1) _ assms(4), of "table w0"] route_reach_inv [OF assms(1-3)] by simp

text \<open>
  C17. In every state these sequences reach, the routes through a gateway on the tunnel
  interface are exactly the installed subnet routes, plus the default route when an exit node
  is active.  With an active exit node, every carve-out is pinned to the original gateway, the
  original default route is out of the table, and no other lasting route of the other
  interfaces is gone.
\<close>

theorem exit_node_captured:
  assumes "tools exec listing table" "idle s0" "route_reach exec listing (s0, w0) ops (s, w)" "fTunInterface s \<noteq> []"
  shows "gateway_routes (fTunInterface s) (table w) = subnet_entry s ` set (fInstalledRoutes s)
       \<union> (if fActiveExitNode s = [] then {} else {tun_default s})
     \<and> (fActiveExitNode s \<noteq> [] \<longrightarrow>
          pin_entry s ` set (fExitCarveouts s) \<subseteq> table w \<and> orig_default s \<notin> table w
          \<and> lasting (table w0) - {orig_default s} \<subseteq> table w)"
  using route_reach_inv [OF assms(1-3)] assms(4) by (simp add: route_inv_def tun_synced_def captured_def split: if_splits)

lemma run_routes_prefix:
  assumes "route_tool exec table" "e \<notin> table w" "\<forall>c \<in> set cs. \<exists>verb i n g m. c = route_cmd verb i n g m \<and> (verb = ''add'' \<or> verb = ''delete'') \<and> (i, n, g, m) \<noteq> e"
  shows "e \<notin> table (run_routes exec cs w)"
  using assms(2,3)
proof (induction cs arbitrary: w)
  case (Cons c cs)
  obtain verb i n g m where c: "c = route_cmd verb i n g m" "verb = ''add'' \<or> verb = ''delete''" "(i, n, g, m) \<noteq> e"
    using Cons.prems(2) by auto
  then have "e \<notin> table (snd (RunRoute exec c w))"
    using assms(1) Cons.prems(1) by (auto simp: RunRoute_def route_tool_def split_beta)
  then show ?case using Cons by simp
qed simp

lemma pins_before_default:
  assumes "route_tool exec table" "tun_default s \<notin> table w" "iface \<noteq> fTunInterface s"
    "enable_cmds s gw iface carve = issued @ todo" "tun_default s \<in> table (run_routes exec issued w)"
  shows "(\<lambda>ip. (iface, ip, gw, ''255.255.255.255'')) ` set carve \<subseteq> table (run_routes exec issued w)"
proof (cases todo rule: rev_cases)
  case Nil
  then have "issued = enable_cmds s gw iface carve" using assms(4) by simp
  then show ?thesis by (auto simp: enable_table [OF assms(1)])
next
  case (snoc cs c)
  have iss: "issued @ cs = map (pin_cmd ''add'' iface gw) carve @ [default_cmd ''delete'' iface gw]"
    using assms(4) snoc by (simp add: enable_cmds_def flip: append_assoc)
  have "tun_default s \<notin> table (run_routes exec issued w)"
  proof (rule run_routes_prefix [OF assms(1,2)], intro ballI)
    fix d assume "d \<in> set issued"
    then have "d \<in> set (map (pin_cmd ''add'' iface gw) carve @ [default_cmd ''delete'' iface gw])"
      unfolding iss [symmetric] by simp
    then show "\<exists>verb i n g m. d = route_cmd verb i n g m \<and> (verb = ''add'' \<or> verb = ''delete'') \<and> (i, n, g, m) \<noteq> tun_default s"
      using assms(3) by (auto simp: pin_cmd_def default_cmd_def tun_default_def route_cmd_def)
  qed
  then show ?thesis using assms(5) by simp
qed

text \<open>
  While an exit node is being enabled the traffic of the tunnel itself never loops: in any
  reachable state, after each prefix of the commands that \<open>_EnableExitNode\<close> issues, if the default
  route already points into the tunnel then every carve-out is pinned to the carrier.
\<close>

theorem carveouts_before_default:
  assumes "tools exec listing table" "idle s0" "route_reach exec listing (s0, w0) ops (s, w)"
    "fTunInterface s \<noteq> []" "fActiveExitNode s = []" "DefaultGateway listing w = Some (gw, iface)"
    "enable_cmds s gw iface (ComputeExitCarveouts (ExitUnderlayIPs resolver peers s key)) = issued @ todo"
    "tun_default s \<in> table (run_routes exec issued w)"
  shows "(\<lambda>ip. (iface, ip, gw, ''255.255.255.255'')) ` set (ComputeExitCarveouts (ExitUnderlayIPs resolver peers s key))
     \<subseteq> table (run_routes exec issued w)"
proof -
  have t: "route_tool exec table" "listing_tool listing table" using assms(1) by (simp_all add: tools_def)
  have "tun_synced s (table w)" using route_reach_inv [OF assms(1-3)] assms(4) by (simp add: route_inv_def)
  from default_elsewhere [OF t(2) this assms(5,6)] show ?thesis
    using pins_before_default [OF t(1) _ _ assms(7,8)] by simp
qed

subsection \<open>A concrete run\<close>

text \<open>Tools that work on a set of routes, a machine with one default route, and an exit node.\<close>

definition sim_exec :: "route set exec" where
  "sim_exec argv t = (Exited 0,
     (case argv of
        [a, b, c] \<Rightarrow> if a = ''ifconfig'' \<and> b = ''--delete'' then {e \<in> t. r_iface e \<noteq> c} else t
      | [a, b, i, c, n, d, g, e, m] \<Rightarrow>
          if a = ''route'' \<and> b = ''add'' then insert (i, n, g, m) t
          else if a = ''route'' \<and> b = ''delete'' then t - {(i, n, g, m)} else t
      | _ \<Rightarrow> t))"

definition eth_default :: route where
  "eth_default = (''eth0'', ''0.0.0.0'', ''10.0.0.1'', ''0.0.0.0'')"

definition sim_listing :: "route set \<Rightarrow> string option" where
  "sim_listing t = Some (if eth_default \<in> t then ''0.0.0.0 0.0.0.0 10.0.0.1 UG eth0'' else [])"

definition sim_state :: tun_state where
  "sim_state = \<lparr> fTunInterface = [], fTunNode = [], fTunSelfIP = [], fInstalledRoutes = [], fDesiredExitNode = [],
     fActiveExitNode = [], fExitCarveouts = [], fExitOrigGateway = [], fExitOrigGatewayIface = [],
     fExitDefaultReplaced = False, fControlHost = ''ctl'', fDerpHost = [] \<rparr>"

definition sim_peers :: peer_set where
  "sim_peers = [ManagedPeer\<lparr> nodeKeyHex := ''aa'', m_allowedIPs := [''0.0.0.0/0''] \<rparr>]"

definition sim_resolver :: resolver where
  "sim_resolver host = Some [Inet 0x01020304]"

definition sim_ops :: "route_op list" where
  "sim_ops = [Op_Up (Some ''100.64.0.1''), Op_Select ''aa'', Op_Tick sim_peers sim_resolver]"

definition sim_run :: "route_op list \<Rightarrow> tun_state \<times> route set" where
  "sim_run ops = foldl (\<lambda>c oper. route_step sim_exec sim_listing oper c) (sim_state, {eth_default}) ops"

lemma route_reach_run: "route_reach sim_exec sim_listing (sim_state, {eth_default}) ops (sim_run ops)"
proof (induction ops rule: rev_induct)
  case Nil
  show ?case by (simp add: sim_run_def reach_init)
next
  case (snoc oper ops)
  from reach_step [OF this, of oper] show ?case by (simp add: sim_run_def)
qed

lemma sim_tools: "tools sim_exec sim_listing (\<lambda>t. t)"
proof -
  have r: "route_tool sim_exec (\<lambda>t. t)" by (simp add: route_tool_def sim_exec_def route_cmd_def)
  have i: "ifconfig_tool sim_exec (\<lambda>t. t)"
    by (auto simp: ifconfig_tool_def sim_exec_def Let_def split: list.splits)
  have tok: "strtok ''0.0.0.0 0.0.0.0 10.0.0.1 UG eth0'' = [''0.0.0.0'', ''0.0.0.0'', ''10.0.0.1'', ''UG'', ''eth0'']"
    by (simp add: strtok.simps is_delim_def)
  have l: "listing_tool sim_listing (\<lambda>t. t)"
    by (auto simp: listing_tool_def sim_listing_def default_line_def tok looks_like_ipv4_def isdigit_def eth_default_def
        strtok.simps [of "[]"])
  show ?thesis using r i l by (simp add: tools_def)
qed

lemma sim_idle: "idle sim_state"
  by (simp add: idle_def sim_state_def)

lemma sim_show_0: "show_nat 0 = ''0''"
proof -
  have "char_of (48 :: nat) = CHR ''0''" by code_simp
  then show ?thesis by (simp add: show_nat.simps)
qed

lemma sim_up:
  "sim_run [Op_Up (Some ''100.64.0.1'')] =
     (sim_state\<lparr> fTunInterface := ''tun/0'', fTunNode := ''/dev/tun/0'', fTunSelfIP := ''100.64.0.1'' \<rparr>, {eth_default})"
proof -
  have "ProbeFreeSlot sim_exec {eth_default} = (Some (''tun/0'', ''/dev/tun/0''), {eth_default})"
    by (simp add: ProbeFreeSlot_def upt_conv_Cons sim_show_0 RunIfconfig_def sim_exec_def eth_default_def Let_def
        Collect_conv_if)
  then show ?thesis by (simp add: sim_run_def BringUpTun_def sim_state_def RunIfconfig_def sim_exec_def)
qed

lemma sim_gateway: "DefaultGateway sim_listing {eth_default} = Some (''10.0.0.1'', ''eth0'')"
  by (simp add: DefaultGateway_def sim_listing_def gateway_loop.simps numeral_eq_Suc gateway_line_def c_str_def strtok.simps
      is_delim_def looks_like_ipv4_def isdigit_def)

lemma sim_active: "fActiveExitNode (fst (sim_run sim_ops)) = ''aa'' \<and> fTunInterface (fst (sim_run sim_ops)) = ''tun/0''"
proof -
  have "sim_run sim_ops = route_step sim_exec sim_listing (Op_Tick sim_peers sim_resolver)
      (route_step sim_exec sim_listing (Op_Select ''aa'') (sim_run [Op_Up (Some ''100.64.0.1'')]))"
    by (simp add: sim_run_def sim_ops_def)
  moreover have "exit_capable sim_peers ''aa''"
    by (simp add: exit_capable_def sim_peers_def FindPeer_def IndexOf_def)
  ultimately show ?thesis
    unfolding sim_up by (simp add: SetExitNode_def SyncExitNode_def sim_state_def EnableExitNode_def sim_gateway Let_def)
qed

theorem routes_restored_witness:
  "fActiveExitNode (fst (sim_run sim_ops)) = ''aa'' \<and>
   (case TeardownTun sim_exec (fst (sim_run sim_ops)) (snd (sim_run sim_ops)) of (s', t) \<Rightarrow>
      idle s' \<and> carrier t \<subseteq> {eth_default} \<and> lasting {eth_default} \<subseteq> t \<and> (\<forall>e \<in> t. r_iface e \<noteq> ''tun/0''))"
proof -
  have "route_reach sim_exec sim_listing (sim_state, {eth_default}) sim_ops (fst (sim_run sim_ops), snd (sim_run sim_ops))"
    using route_reach_run [of sim_ops] by simp
  from routes_restored [OF sim_tools sim_idle this] show ?thesis using sim_active by (simp split: prod.splits)
qed

theorem exit_node_captured_witness:
  "tun_default (fst (sim_run sim_ops)) \<in> snd (sim_run sim_ops)
   \<and> pin_entry (fst (sim_run sim_ops)) ` set (fExitCarveouts (fst (sim_run sim_ops))) \<subseteq> snd (sim_run sim_ops)"
proof -
  have "route_reach sim_exec sim_listing (sim_state, {eth_default}) sim_ops (fst (sim_run sim_ops), snd (sim_run sim_ops))"
    using route_reach_run [of sim_ops] by simp
  note cap = exit_node_captured [OF sim_tools sim_idle this]
  have "tun_default (fst (sim_run sim_ops)) \<in> gateway_routes ''tun/0'' (snd (sim_run sim_ops))"
    using cap sim_active by simp
  then show ?thesis using cap sim_active by (simp add: gateway_routes_def)
qed

lemma sim_carve: "ComputeExitCarveouts (ExitUnderlayIPs sim_resolver sim_peers (fst (sim_run [Op_Up (Some ''100.64.0.1'')])) ''aa'') = [dotted 0x01020304]"
proof -
  have "ExitUnderlayIPs sim_resolver sim_peers (fst (sim_run [Op_Up (Some ''100.64.0.1'')])) ''aa'' = [dotted 0x01020304]"
    by (simp add: sim_up ExitUnderlayIPs_def sim_state_def resolve_all_ipv4_def sim_resolver_def FindPeer_def IndexOf_def
        sim_peers_def ManagedPeer_def PeerPath_def)
  moreover have "dotted ip \<noteq> []" for ip by (simp add: dotted_def fmt_ipv4_def)
  ultimately show ?thesis by (simp add: ComputeExitCarveouts_def parse_dotted)
qed

theorem carveouts_before_default_witness:
  "(''eth0'', dotted 0x01020304, ''10.0.0.1'', ''255.255.255.255'')
     \<in> run_routes sim_exec (enable_cmds (fst (sim_run [Op_Up (Some ''100.64.0.1'')])) ''10.0.0.1'' ''eth0'' [dotted 0x01020304]) {eth_default}"
proof -
  let ?s = "fst (sim_run [Op_Up (Some ''100.64.0.1'')])"
  have r: "route_reach sim_exec sim_listing (sim_state, {eth_default}) [Op_Up (Some ''100.64.0.1'')] (?s, {eth_default})"
    using route_reach_run [of "[Op_Up (Some ''100.64.0.1'')]"] by (simp add: sim_up)
  have s: "fTunInterface ?s \<noteq> []" "fActiveExitNode ?s = []" by (simp_all add: sim_up sim_state_def)
  have "tun_default ?s \<in> run_routes sim_exec (enable_cmds ?s ''10.0.0.1'' ''eth0'' [dotted 0x01020304]) {eth_default}"
    using enable_table [of sim_exec "\<lambda>t. t" ?s "''10.0.0.1''" "''eth0''" "[dotted 0x01020304]" "{eth_default}"] sim_tools
    by (simp add: tools_def)
  then show ?thesis
    using carveouts_before_default [OF sim_tools sim_idle r s sim_gateway, of sim_resolver sim_peers "''aa''" _ "[]"]
    by (simp add: sim_carve)
qed

end
