(* ===== verification/MapStream.thy ===== *)
theory MapStream
  imports Http2 Identity
begin

text \<open>
  The network-map long poll, \<open>src/backend/tailscale/TSMap.cpp\<close>: \<open>Begin\<close> sends the MapRequest,
  \<open>ReadMessage\<close> cuts the response body into messages behind a 4-byte little-endian length.  The
  body is read through one operation, \<open>read\<close> (\<open>Http2Conn::ReadBody\<close>); the locale \<open>body_source\<close>
  states what the de-framer relies on and is interpreted on the HTTP/2 client.  The accumulator is
  its offset and the bytes behind it (\<open>fAccLive\<close>).  Result: the messages are delivered in order
  and unchanged, however DATA frames cut them and wherever the read times out in between.
\<close>

subsection \<open>The request\<close>

definition kMaxMapMessage :: u32 where "kMaxMapMessage = 32 * 1024 * 1024"

definition quote :: "string \<Rightarrow> string" where
  "quote s = [CHR 0x22] @ s @ [CHR 0x22]"

definition host_info :: "string option \<Rightarrow> string" where
  "host_info hostname =
     quote ''Hostinfo'' @ '':{'' @ quote ''IPNVersion'' @ '':'' @ quote ''0.1.0'' @ '',''
     @ quote ''Hostname'' @ '':'' @ quote (case hostname of Some h \<Rightarrow> h | None \<Rightarrow> ''haiku'') @ '',''
     @ quote ''OS'' @ '':'' @ quote ''haiku'' @ ''}''"

definition map_request :: "u16 \<Rightarrow> bytes \<Rightarrow> bytes \<Rightarrow> string option \<Rightarrow> string option \<Rightarrow> bool \<Rightarrow> string" where
  "map_request version nodePub discoPub hostname endpointsJson stream =
     ''{'' @ quote ''Version'' @ '':'' @ show_nat (unat version) @ '',''
     @ quote ''NodeKey'' @ '':'' @ quote (''nodekey:'' @ ToHex nodePub) @ '',''
     @ quote ''DiscoKey'' @ '':'' @ quote (''discokey:'' @ ToHex discoPub) @ '',''
     @ quote ''Stream'' @ '':'' @ (if stream then ''true'' else ''false'') @ '',''
     @ quote ''OmitPeers'' @ '':'' @ (if stream then ''false'' else ''true'') @ '',''
     @ quote ''Endpoints'' @ '':['' @ (case endpointsJson of Some e \<Rightarrow> e | None \<Rightarrow> []) @ ''],''
     @ host_info hostname @ ''}''"

record 'h map_stream =
  fHttp2 :: "'h option"
  fAccOff :: nat
  fAccLive :: bytes

definition MapStream :: "'h map_stream" where
  "MapStream = \<lparr> fHttp2 = None, fAccOff = 0, fAccLive = [] \<rparr>"

text \<open>The result of \<open>Begin\<close>: an error or the HTTP status.\<close>

definition Begin ::
  "'c recv \<Rightarrow> 'c send \<Rightarrow> 'c http2_conn map_stream \<Rightarrow> 'c http2_conn \<Rightarrow> string \<Rightarrow> u16 \<Rightarrow> bytes \<Rightarrow> bytes \<Rightarrow> string option
     \<Rightarrow> string option \<Rightarrow> bool \<Rightarrow> (status + int) \<times> 'c http2_conn map_stream" where
  "Begin recv send m h2 host version nodePub discoPub hostname endpointsJson stream =
     (let body = map_request version nodePub discoPub hostname endpointsJson stream;
          (r, h2) = BeginRequest recv send h2 ''POST'' ''https'' host ''/machine/map'' (Some ''application/json'')
                      (map byte_of_chr body)
      in (r, m\<lparr> fHttp2 := Some h2, fAccOff := 0, fAccLive := [] \<rparr>))"

subsection \<open>De-framing\<close>

type_synonym 'h body_reader = "'h \<Rightarrow> nat \<Rightarrow> ((status + bytes) \<times> 'h) option"

text \<open>
  \<open>_FillAtLeast\<close>: the status, the end-of-stream flag, and the new state; \<open>None\<close> is undefined
  behaviour inside the HTTP/2 client.
\<close>

function FillAtLeast :: "'h body_reader \<Rightarrow> 'h \<Rightarrow> nat \<Rightarrow> bytes \<Rightarrow> nat \<Rightarrow> (status \<times> bool \<times> 'h \<times> nat \<times> bytes) option" where
  "FillAtLeast read h off lv need =
     (if length lv < need then
        (case read h kH2MaxFramePayload of
           None \<Rightarrow> None
         | Some (Inl r, h) \<Rightarrow> Some (r, False, h, off, lv)
         | Some (Inr chunk, h) \<Rightarrow>
             if chunk = [] then Some (B_OK, True, h, off, lv)
             else FillAtLeast read h (if off > 0 \<and> lv = [] then 0 else off) (lv @ chunk) need)
      else Some (B_OK, False, h, off, lv))"
  by pat_completeness auto
termination
  by (relation "measure (\<lambda>(read, h, off, lv, need). need - length lv)")
    (auto simp: diff_less_mono2 length_greater_0_conv [symmetric] simp del: length_greater_0_conv)

declare FillAtLeast.simps [simp del]

definition ReadMessage :: "'h body_reader \<Rightarrow> 'h map_stream \<Rightarrow> ((status + string) \<times> 'h map_stream) option" where
  "ReadMessage read m =
     (case fHttp2 m of None \<Rightarrow> Some (Inl B_NO_INIT, m)
      | Some h \<Rightarrow>
          (case FillAtLeast read h (fAccOff m) (fAccLive m) 4 of None \<Rightarrow> None
           | Some (result, eof, h, off, lv) \<Rightarrow>
               let m = m\<lparr> fHttp2 := Some h, fAccOff := off, fAccLive := lv \<rparr> in
               if result \<noteq> B_OK then Some (Inl result, m)
               else if eof \<and> length lv < 4 then Some (Inl B_ENTRY_NOT_FOUND, m)
               else let msgLen = load32_le lv in
               if msgLen > kMaxMapMessage then Some (Inl B_BAD_DATA, m)
               else (case FillAtLeast read h off lv (unat (4 + msgLen)) of None \<Rightarrow> None
                | Some (result, eof, h, off, lv) \<Rightarrow>
                    let m = m\<lparr> fHttp2 := Some h, fAccOff := off, fAccLive := lv \<rparr> in
                    if result \<noteq> B_OK then Some (Inl result, m)
                    else if length lv < unat (4 + msgLen) then Some (Inl B_IO_ERROR, m)
                    else let json = c_str (map chr_of_byte (slice 4 (unat msgLen) lv));
                             off = off + unat (4 + msgLen); lv = drop (unat (4 + msgLen)) lv
                         in Some (Inr json, m\<lparr> fAccOff := (if lv = [] then 0 else off), fAccLive := lv \<rparr>))))"

text \<open>
  The reading of messages by a caller that polls again after a timeout: the messages so far
  and the status that ended it, \<open>None\<close> when \<open>fuel\<close> calls did not end it.
\<close>

fun poll :: "'h body_reader \<Rightarrow> nat \<Rightarrow> 'h map_stream \<Rightarrow> (string list \<times> status option) option" where
  "poll read 0 m = Some ([], None)"
| "poll read (Suc n) m =
     (case ReadMessage read m of None \<Rightarrow> None
      | Some (Inl r, m) \<Rightarrow> if r = B_WOULD_BLOCK then poll read n m else Some ([], Some r)
      | Some (Inr s, m) \<Rightarrow> map_option (\<lambda>(ss, r). (s # ss, r)) (poll read n m))"

subsection \<open>The body as an interface\<close>

text \<open>
  \<open>remains h evs\<close>: what reading the body will give, a piece of it or (\<open>None\<close>) a timeout, and
  then its end.
\<close>

locale body_source =
  fixes read :: "'h body_reader" and remains :: "'h \<Rightarrow> bytes option list \<Rightarrow> bool"
  assumes remains_piece: "remains h (Some p # evs) \<Longrightarrow> p \<noteq> [] \<and> (\<exists>h'. read h kH2MaxFramePayload = Some (Inr p, h') \<and> remains h' evs)"
    and remains_quiet: "remains h (None # evs) \<Longrightarrow> \<exists>h'. read h kH2MaxFramePayload = Some (Inl B_WOULD_BLOCK, h') \<and> remains h' evs"
    and remains_end: "remains h [] \<Longrightarrow> \<exists>h'. read h kH2MaxFramePayload = Some (Inr [], h') \<and> remains h' []"

fun body_bytes :: "bytes option list \<Rightarrow> bytes" where
  "body_bytes [] = []"
| "body_bytes (Some p # evs) = p @ body_bytes evs"
| "body_bytes (None # evs) = body_bytes evs"

fun quiets :: "bytes option list \<Rightarrow> nat" where
  "quiets [] = 0"
| "quiets (Some p # evs) = quiets evs"
| "quiets (None # evs) = Suc (quiets evs)"

definition map_frame :: "string \<Rightarrow> bytes" where
  "map_frame s = store32_le (of_nat (length s)) @ map byte_of_chr s"

definition message_ok :: "string \<Rightarrow> bool" where
  "message_ok s \<longleftrightarrow> length s \<le> 33554432 \<and> c_str s = s"

context body_source
begin

lemma fill_pieces:
  assumes "remains h evs" "need \<le> length (lv @ body_bytes evs)"
  shows "\<exists>r h' off' lv' evs'. FillAtLeast read h off lv need = Some (r, False, h', off', lv') \<and> remains h' evs'
     \<and> lv' @ body_bytes evs' = lv @ body_bytes evs
     \<and> (r = B_OK \<and> need \<le> length lv' \<and> quiets evs' \<le> quiets evs \<or> r = B_WOULD_BLOCK \<and> quiets evs' < quiets evs)"
  using assms
proof (induction evs arbitrary: h lv off rule: body_bytes.induct)
  case 1
  then show ?case by (intro exI [of _ B_OK] exI [of _ h] exI [of _ off] exI [of _ lv] exI [of _ "[]"]) (simp add: FillAtLeast.simps)
next
  case (2 p evs)
  show ?case
  proof (cases "length lv < need")
    case True
    obtain h1 where h1: "p \<noteq> []" "read h kH2MaxFramePayload = Some (Inr p, h1)" "remains h1 evs"
      using remains_piece [OF "2.prems"(1)] by blast
    have "FillAtLeast read h off lv need = FillAtLeast read h1 (if off > 0 \<and> lv = [] then 0 else off) (lv @ p) need"
      using True h1 by (simp add: FillAtLeast.simps [of read h])
    then show ?thesis using "2.IH" [OF h1(3), of "lv @ p"] "2.prems"(2) by simp
  next
    case False
    then show ?thesis using "2.prems"
      by (intro exI [of _ B_OK] exI [of _ h] exI [of _ off] exI [of _ lv] exI [of _ "Some p # evs"]) (simp add: FillAtLeast.simps)
  qed
next
  case (3 evs)
  show ?case
  proof (cases "length lv < need")
    case True
    obtain h1 where h1: "read h kH2MaxFramePayload = Some (Inl B_WOULD_BLOCK, h1)" "remains h1 evs"
      using remains_quiet [OF "3.prems"(1)] by blast
    then show ?thesis using True
      by (intro exI [of _ B_WOULD_BLOCK] exI [of _ h1] exI [of _ off] exI [of _ lv] exI [of _ evs]) (simp add: FillAtLeast.simps)
  next
    case False
    then show ?thesis using "3.prems"
      by (intro exI [of _ B_OK] exI [of _ h] exI [of _ off] exI [of _ lv] exI [of _ "None # evs"]) (simp add: FillAtLeast.simps)
  qed
qed

end

text \<open>The bytes of the body that have not been handed out.\<close>

definition pending :: "('h \<Rightarrow> bytes option list \<Rightarrow> bool) \<Rightarrow> 'h map_stream \<Rightarrow> bytes option list \<Rightarrow> bytes \<Rightarrow> bool" where
  "pending remains m evs bs \<longleftrightarrow> (\<exists>h. fHttp2 m = Some h \<and> remains h evs \<and> fAccLive m @ body_bytes evs = bs)"

lemma load32_prefix: "4 \<le> length lv \<Longrightarrow> load32_le (lv @ xs) = load32_le lv"
  by (auto simp: load32_le_def nth_append)

lemma message_length:
  assumes "message_ok s"
  shows "unat (of_nat (length s) :: u32) = length s" "unat (4 + of_nat (length s) :: u32) = 4 + length s"
    "\<not> (of_nat (length s) :: u32) > kMaxMapMessage"
proof -
  have n: "length s \<le> 33554432" using assms by (simp add: message_ok_def)
  then show u: "unat (of_nat (length s) :: u32) = length s" by (simp add: unat_of_nat)
  have "unat (of_nat (4 + length s) :: u32) = 4 + length s" using n by (subst unat_of_nat) simp
  then show "unat (4 + of_nat (length s) :: u32) = 4 + length s" by (simp only: of_nat_add of_nat_numeral)
  show "\<not> (of_nat (length s) :: u32) > kMaxMapMessage"
    using n u by (simp add: word_less_nat_alt kMaxMapMessage_def)
qed

context body_source
begin

lemma read_message_step:
  assumes "pending remains m evs (map_frame s @ bs)" "message_ok s"
  shows "\<exists>m' evs'. ReadMessage read m = Some (Inr s, m') \<and> pending remains m' evs' bs \<and> quiets evs' \<le> quiets evs
     \<or> ReadMessage read m = Some (Inl B_WOULD_BLOCK, m') \<and> pending remains m' evs' (map_frame s @ bs) \<and> quiets evs' < quiets evs"
proof -
  note ml = message_length [OF assms(2)]
  obtain h where h: "fHttp2 m = Some h" "remains h evs" "fAccLive m @ body_bytes evs = map_frame s @ bs"
    using assms(1) by (auto simp: pending_def)
  have "4 \<le> length (fAccLive m @ body_bytes evs)" unfolding h(3) by (simp add: map_frame_def)
  from fill_pieces [OF h(2) this, of "fAccOff m"] obtain r h1 off1 lv1 evs1 where
    f1: "FillAtLeast read h (fAccOff m) (fAccLive m) 4 = Some (r, False, h1, off1, lv1)" "remains h1 evs1"
      "lv1 @ body_bytes evs1 = map_frame s @ bs"
      "r = B_OK \<and> 4 \<le> length lv1 \<and> quiets evs1 \<le> quiets evs \<or> r = B_WOULD_BLOCK \<and> quiets evs1 < quiets evs"
    unfolding h(3) by blast
  show ?thesis
  proof (cases "r = B_OK")
    case False
    then show ?thesis using f1 h(1) by (auto simp: ReadMessage_def pending_def)
  next
    case True
    then have l1: "4 \<le> length lv1" "quiets evs1 \<le> quiets evs" using f1(4) by auto
    have ld: "load32_le lv1 = of_nat (length s)"
      using load32_prefix [OF l1(1), of "body_bytes evs1"] unfolding f1(3) by (simp add: map_frame_def)
    have "4 + length s \<le> length (lv1 @ body_bytes evs1)" unfolding f1(3) by (simp add: map_frame_def)
    from fill_pieces [OF f1(2) this, of off1] obtain r2 h2 off2 lv2 evs2 where
      f2: "FillAtLeast read h1 off1 lv1 (4 + length s) = Some (r2, False, h2, off2, lv2)" "remains h2 evs2"
        "lv2 @ body_bytes evs2 = map_frame s @ bs"
        "r2 = B_OK \<and> 4 + length s \<le> length lv2 \<and> quiets evs2 \<le> quiets evs1 \<or> r2 = B_WOULD_BLOCK \<and> quiets evs2 < quiets evs1"
      unfolding f1(3) by blast
    show ?thesis
    proof (cases "r2 = B_OK")
      case False
      then show ?thesis using f1(1) f2 h(1) True l1 ml by (auto simp: ReadMessage_def pending_def ld)
    next
      case ok: True
      then have l2: "4 + length s \<le> length lv2" "quiets evs2 \<le> quiets evs" using f2(4) l1 by auto
      have lv2: "lv2 = map_frame s @ drop (4 + length s) lv2" "drop (4 + length s) lv2 @ body_bytes evs2 = bs"
      proof -
        have len: "length (map_frame s) = 4 + length s" by (simp add: map_frame_def)
        have "take (4 + length s) (lv2 @ body_bytes evs2) = map_frame s" unfolding f2(3) using len by simp
        then show "lv2 = map_frame s @ drop (4 + length s) lv2" using l2(1) by (metis append_take_drop_id diff_is_0_eq take0 take_append append_Nil2)
        have "drop (4 + length s) (lv2 @ body_bytes evs2) = bs" unfolding f2(3) using len by simp
        then show "drop (4 + length s) lv2 @ body_bytes evs2 = bs" using l2(1) by simp
      qed
      have "c_str (map chr_of_byte (slice 4 (length s) lv2)) = s"
        using assms(2) by (subst lv2(1)) (simp add: map_frame_def slice_def message_ok_def comp_def)
      then have "ReadMessage read m = Some (Inr s, m\<lparr> fHttp2 := Some h2, fAccOff := (if drop (4 + length s) lv2 = [] then 0 else off2 + (4 + length s)),
          fAccLive := drop (4 + length s) lv2 \<rparr>)"
        using f1(1) f2(1) h(1) True ok l1 l2 ml by (simp add: ReadMessage_def ld Let_def)
      then show ?thesis using f2(2) lv2(2) l2(2) by (auto simp: pending_def)
    qed
  qed
qed

lemma read_message_end:
  assumes "pending remains m evs []"
  shows "\<exists>m' evs'. ReadMessage read m = Some (Inl B_ENTRY_NOT_FOUND, m')
     \<or> ReadMessage read m = Some (Inl B_WOULD_BLOCK, m') \<and> pending remains m' evs' [] \<and> quiets evs' < quiets evs"
proof -
  obtain h where h: "fHttp2 m = Some h" "remains h evs" "fAccLive m = []" "body_bytes evs = []"
    using assms by (auto simp: pending_def)
  show ?thesis
  proof (cases evs)
    case Nil
    then show ?thesis using remains_end [of h] h by (auto simp: ReadMessage_def FillAtLeast.simps)
  next
    case (Cons e es)
    have "e = None"
    proof (cases e)
      case (Some p)
      then show ?thesis using remains_piece [of h p es] h Cons by simp
    qed simp
    then show ?thesis using remains_quiet [of h es] h Cons by (auto simp: ReadMessage_def FillAtLeast.simps pending_def)
  qed
qed

text \<open>All messages, in order, and then the clean end.\<close>

lemma poll_messages:
  assumes "pending remains m evs (concat (map map_frame ss))" "\<forall>s \<in> set ss. message_ok s" "length ss + quiets evs < n"
  shows "poll read n m = Some (ss, Some B_ENTRY_NOT_FOUND)"
  using assms
proof (induction n arbitrary: m evs ss)
  case (Suc n)
  show ?case
  proof (cases ss)
    case Nil
    then show ?thesis using read_message_end [of m evs] Suc.prems Suc.IH [of _ _ "[]"] by fastforce
  next
    case (Cons s ts)
    have "pending remains m evs (map_frame s @ concat (map map_frame ts))" "message_ok s" using Suc.prems Cons by simp_all
    from read_message_step [OF this] obtain m' evs' where
      "ReadMessage read m = Some (Inr s, m') \<and> pending remains m' evs' (concat (map map_frame ts)) \<and> quiets evs' \<le> quiets evs
     \<or> ReadMessage read m = Some (Inl B_WOULD_BLOCK, m') \<and> pending remains m' evs' (map_frame s @ concat (map map_frame ts)) \<and> quiets evs' < quiets evs"
      by blast
    then show ?thesis
    proof (elim disjE conjE)
      assume "ReadMessage read m = Some (Inr s, m')" "pending remains m' evs' (concat (map map_frame ts))" "quiets evs' \<le> quiets evs"
      then show ?thesis using Suc.IH [of m' evs' ts] Suc.prems Cons by simp
    next
      assume "ReadMessage read m = Some (Inl B_WOULD_BLOCK, m')" "pending remains m' evs' (map_frame s @ concat (map map_frame ts))" "quiets evs' < quiets evs"
      then show ?thesis using Suc.IH [of m' evs' ss] Suc.prems Cons by simp
    qed
  qed
qed simp

end

text \<open>The body of an HTTP/2 response is such a source.\<close>

definition segments :: "u32 \<Rightarrow> (h2_frame list \<times> h2_frame) list \<Rightarrow> bool" where
  "segments sid segs \<longleftrightarrow>
     (\<forall>(ctl, f) \<in> set segs. (\<forall>g \<in> set ctl. ignorable sid g) \<and> length ctl < 100000 \<and> body_frame sid f \<and> the (data_fragment f) \<noteq> [])
   \<and> (\<forall>(ctl, f) \<in> set (butlast segs). f_flags f AND H2_FLAG_END_STREAM = 0)
   \<and> (segs \<noteq> [] \<longrightarrow> f_flags (snd (last segs)) AND H2_FLAG_END_STREAM \<noteq> 0)"

definition http2_body :: "openssl \<Rightarrow> control_conn http2_conn \<Rightarrow> bytes option list \<Rightarrow> bool" where
  "http2_body os h evs \<longleftrightarrow>
     (\<exists>segs rest. evs = map (\<lambda>(ctl, f). data_fragment f) segs \<and> fReqEnded h = (segs = []) \<and> segments (fReqStream h) segs
        \<and> http2_incoming os h (concat (map (\<lambda>(ctl, f). encs ctl @ enc f) segs) @ rest))"

lemma http2_body_piece:
  assumes "http2_body os h (Some p # evs)"
  shows "p \<noteq> [] \<and> (\<exists>h'. ReadBody (ReadRecord os) (WriteMessage os) h kH2MaxFramePayload = Some (Inr p, h') \<and> http2_body os h' evs)"
proof -
  obtain cf segs rest where b: "Some p # evs = map (\<lambda>(ctl, f). data_fragment f) (cf # segs)" "\<not> fReqEnded h"
    "segments (fReqStream h) (cf # segs)" "http2_incoming os h (concat (map (\<lambda>(ctl, f). encs ctl @ enc f) (cf # segs)) @ rest)"
    using assms by (auto simp: http2_body_def)
  obtain ctl f where cf: "cf = (ctl, f)" by (cases cf)
  have c: "\<forall>g \<in> set ctl. ignorable (fReqStream h) g" "body_frame (fReqStream h) f" "length ctl < 100000" "data_fragment f = Some p" "p \<noteq> []"
    using b(1,3) cf by (auto simp: segments_def dest: sym)
  have last: "f_flags f AND H2_FLAG_END_STREAM \<noteq> 0 \<longleftrightarrow> segs = []"
    using b(3) cf by (auto simp: segments_def split: if_splits)
  obtain h' where h': "body_loop (ReadRecord os) (WriteMessage os) 100000 h = Some (Inr p, h')"
    "http2_incoming os h' (concat (map (\<lambda>(ctl, f). encs ctl @ enc f) segs) @ rest)" "fReqStream h' = fReqStream h"
    "fReqEnded h' = (segs = [])"
    using cc.body_ok [of ctl h f os "concat (map (\<lambda>(ctl, f). encs ctl @ enc f) segs) @ rest" 100000] b(2,4) c cf last
    by (auto simp: http2_incoming_def)
  have "segments (fReqStream h) segs" using b(3) by (auto simp: segments_def split: if_splits)
  then have "http2_body os h' evs" using h' b(1) unfolding http2_body_def by auto
  then show ?thesis using h'(1) c(5) b(2) by (auto simp: ReadBody_def)
qed

interpretation http2: body_source "ReadBody (ReadRecord os) (WriteMessage os)" "http2_body os" for os
proof
  show "http2_body os h (Some p # evs) \<Longrightarrow> p \<noteq> [] \<and>
      (\<exists>h'. ReadBody (ReadRecord os) (WriteMessage os) h kH2MaxFramePayload = Some (Inr p, h') \<and> http2_body os h' evs)" for h p evs
    by (rule http2_body_piece)
  show "http2_body os h (None # evs) \<Longrightarrow>
      \<exists>h'. ReadBody (ReadRecord os) (WriteMessage os) h kH2MaxFramePayload = Some (Inl B_WOULD_BLOCK, h') \<and> http2_body os h' evs" for h evs
    by (auto simp: http2_body_def segments_def body_frame_def map_eq_Cons_conv)
  show "http2_body os h [] \<Longrightarrow>
      \<exists>h'. ReadBody (ReadRecord os) (WriteMessage os) h kH2MaxFramePayload = Some (Inr [], h') \<and> http2_body os h' []" for h
    by (auto simp: http2_body_def ReadBody_def)
qed

lemma quiets_segments: "\<forall>(ctl, f) \<in> set segs. data_fragment f \<noteq> None \<Longrightarrow> quiets (map (\<lambda>(ctl, f). data_fragment f) segs) = 0
   \<and> body_bytes (map (\<lambda>(ctl, f). data_fragment f) segs) = concat (map (\<lambda>(ctl, f). the (data_fragment f)) segs)"
  by (induction segs) auto

text \<open>DATA frames with the pieces they carry are such a source.\<close>

lemma poll_segments:
  assumes "fHttp2 m = Some h" "fAccLive m = []" "\<not> fReqEnded h" "segs \<noteq> []" "segments (fReqStream h) segs"
    and "http2_incoming os h (concat (map (\<lambda>(ctl, f). encs ctl @ enc f) segs) @ rest)"
    and "concat (map (\<lambda>(ctl, f). the (data_fragment f)) segs) = concat (map map_frame ss)"
    and "\<forall>s \<in> set ss. message_ok s" "length ss < n"
  shows "poll (ReadBody (ReadRecord os) (WriteMessage os)) n m = Some (ss, Some B_ENTRY_NOT_FOUND)"
proof (rule http2.poll_messages [OF _ assms(8)])
  let ?evs = "map (\<lambda>(ctl, f). data_fragment f) segs"
  have "\<forall>(ctl, f) \<in> set segs. data_fragment f \<noteq> None" using assms(5) by (auto simp: segments_def body_frame_def)
  from quiets_segments [OF this] have q: "quiets ?evs = 0" "body_bytes ?evs = concat (map map_frame ss)"
    using assms(7) by simp_all
  have "http2_body os h ?evs" using assms(3-6) unfolding http2_body_def by blast
  then show "pending (http2_body os) m ?evs (concat (map map_frame ss))"
    using assms(1,2) q(2) by (simp add: pending_def)
  show "length ss + quiets ?evs < n" using assms(9) q(1) by simp
qed

text \<open>
  C23. The network-map stream: when the DATA frames of the response to a MapRequest, padded or not,
  carry the length-prefixed messages one after the other, cut into non-empty pieces anywhere, with
  other frames between them, polling the stream yields exactly these messages in order and then its
  clean end; between messages and inside them nothing is lost or invented.
\<close>

theorem map_messages_in_order:
  assumes "fHttp2 m = Some h" "fAccLive m = []" "\<not> fReqEnded h" "segs \<noteq> []"
    and "\<forall>(ctl, f, p) \<in> set segs. (\<forall>g \<in> set ctl. ignorable (fReqStream h) g) \<and> length ctl < 100000
           \<and> data_frame (fReqStream h) f p \<and> p \<noteq> []"
    and "\<forall>(ctl, f, p) \<in> set (butlast segs). f_flags f AND H2_FLAG_END_STREAM = 0" "f_flags (fst (snd (last segs))) AND H2_FLAG_END_STREAM \<noteq> 0"
    and "http2_incoming os h (concat (map (\<lambda>(ctl, f, p). encs ctl @ enc f) segs) @ rest)"
    and "concat (map (\<lambda>(ctl, f, p). p) segs) = concat (map map_frame ss)"
    and "\<forall>s \<in> set ss. message_ok s" "length ss < n"
  shows "poll (ReadBody (ReadRecord os) (WriteMessage os)) n m = Some (ss, Some B_ENTRY_NOT_FOUND)"
proof -
  let ?segs = "map (\<lambda>(ctl, f, p). (ctl, f)) segs"
  have "\<forall>(ctl, f) \<in> set ?segs. (\<forall>g \<in> set ctl. ignorable (fReqStream h) g) \<and> length ctl < 100000 \<and> body_frame (fReqStream h) f
        \<and> the (data_fragment f) \<noteq> []" using assms(5) by (fastforce simp: data_frame_fragment)
  moreover have "\<forall>(ctl, f) \<in> set (butlast ?segs). f_flags f AND H2_FLAG_END_STREAM = 0"
    "f_flags (snd (last ?segs)) AND H2_FLAG_END_STREAM \<noteq> 0"
    using assms(4,6,7) by (auto simp: map_butlast [symmetric] last_map split_beta)
  ultimately have s: "segments (fReqStream h) ?segs" by (simp add: segments_def)
  have c: "concat (map (\<lambda>(ctl, f). encs ctl @ enc f) ?segs) = concat (map (\<lambda>(ctl, f, p). encs ctl @ enc f) segs)"
    "concat (map (\<lambda>(ctl, f). the (data_fragment f)) ?segs) = concat (map (\<lambda>(ctl, f, p). p) segs)"
    using assms(5) by (induction segs) (auto simp: data_frame_fragment)
  have "?segs \<noteq> []" using assms(4) by simp
  from poll_segments [OF assms(1-3) this s assms(8) [folded c(1)] assms(9) [folded c(2)] assms(10,11)] show ?thesis .
qed

theorem map_messages_in_order_witness:
  "poll (ReadBody (ReadRecord toy_openssl) (WriteMessage toy_openssl)) 3
     (MapStream\<lparr> fHttp2 := Some (toy_http2 [encs [
         \<lparr> f_type = H2_DATA, f_flags = 0, f_stream = 1, f_payload = [2, 0, 0, 0, 0x7B] \<rparr>,
         \<lparr> f_type = H2_PING, f_flags = 0, f_stream = 0, f_payload = [] \<rparr>,
         \<lparr> f_type = H2_DATA, f_flags = 1, f_stream = 1, f_payload = [0x7D, 1, 0, 0, 0, 0x31] \<rparr>]]
         \<lparr> fReqStream := 1, fReqEnded := False \<rparr>) \<rparr>)
   = Some ([''{}'', ''1''], Some B_ENTRY_NOT_FOUND)"
proof -
  let ?f = "\<lparr> f_type = H2_DATA, f_flags = 0, f_stream = 1, f_payload = [2, 0, 0, 0, 0x7B] \<rparr>"
  let ?p = "\<lparr> f_type = H2_PING, f_flags = 0, f_stream = 0, f_payload = [] \<rparr>"
  let ?g = "\<lparr> f_type = H2_DATA, f_flags = 1, f_stream = 1, f_payload = [0x7D, 1, 0, 0, 0, 0x31] \<rparr>"
  let ?h = "toy_http2 [encs [?f, ?p, ?g]]\<lparr> fReqStream := 1, fReqEnded := False \<rparr>"
  have s: "data_frame 1 ?f [2, 0, 0, 0, 0x7B]" "data_frame 1 ?g [0x7D, 1, 0, 0, 0, 0x31]" "ignorable 1 ?p"
    by (simp_all add: data_frame_def padded_def ignorable_def frame_ok_def) (simp add: h2_consts)
  have "length (encs [?f, ?p, ?g]) \<le> 4077" by (simp add: enc_def frame_bytes_def)
  then have "http2_incoming toy_openssl (toy_http2 [encs [?f, ?p, ?g]]) (encs [?f, ?p, ?g])"
    using toy_http2_incoming [of "[encs [?f, ?p, ?g]]"] by (simp add: enc_def frame_bytes_def)
  then have i: "http2_incoming toy_openssl ?h (encs [?f, ?p, ?g])" by (simp add: http2_incoming_def h2_stream_def)
  have m: "map_frame ''{}'' = [2, 0, 0, 0, 0x7B, 0x7D]" "map_frame ''1'' = [1, 0, 0, 0, 0x31]" by code_simp+
  have ok: "message_ok ''{}''" "message_ok ''1''" by (simp_all add: message_ok_def c_str_def)
  show ?thesis
    by (rule map_messages_in_order [where segs = "[([], ?f, [2, 0, 0, 0, 0x7B]), ([?p], ?g, [0x7D, 1, 0, 0, 0, 0x31])]" and h = ?h and rest = "[]"])
      (use s i m ok in \<open>simp_all add: MapStream_def H2_FLAG_END_STREAM_def\<close>)
qed

end
