(* ===== verification/ControlSession.thy ===== *)
theory ControlSession
  imports ControlChannel MapStream
begin

text \<open>
  \<open>ts::Register\<close> (\<open>src/src/backend/tailscale/TSRegister.cpp\<close>) and \<open>ts::ControlSession\<close>
  (\<open>TSControlSession.cpp\<close>): registration of the node over a fresh control connection.

  \<open>_Establish\<close> composes the layers of the other theories: the Noise handshake of
  \<open>ControlChannel\<close>, the record stream of \<open>ControlConn\<close> over the pending bytes of the
  handshake, and the HTTP/2 connection of \<open>Http2\<close>.  The objects refer to each other by
  pointers (HTTP/2 connection to record stream to TLS stream); here each holds the state of
  the one below.  A deleted record stream leaves \<open>fConn = None\<close>: the next successful
  \<open>Init\<close> sets it again, and no method reads it before that.

  The result is end to end: on the bytes that a server writes under the keys of the
  handshake, \<open>Connect\<close> returns the fields of its register response.
\<close>

subsection \<open>Fields of the response\<close>

definition skip_colon :: "string \<Rightarrow> string" where
  "skip_colon s = dropWhile (\<lambda>c. c = CHR '' '' \<or> c = CHR '':'') s"

text \<open>The text up to the closing quote, or to the end of the document.\<close>

fun unescape :: "string \<Rightarrow> string" where
  "unescape [] = []"
| "unescape (c # cs) =
     (if c = CHR 0x22 then []
      else case cs of
        [] \<Rightarrow> [c]
      | d # ds \<Rightarrow> if c = CHR 0x5C then d # unescape ds else c # unescape cs)"

definition json_string :: "string \<Rightarrow> string \<Rightarrow> string option" where
  "json_string doc key =
     (case find_sub (quote key) doc of None \<Rightarrow> None
      | Some k \<Rightarrow>
          (case skip_colon (drop (k + length (quote key)) doc) of
             [] \<Rightarrow> None
           | c # cs \<Rightarrow> if c \<noteq> CHR 0x22 then None else Some (unescape cs)))"

definition json_bool :: "string \<Rightarrow> string \<Rightarrow> bool" where
  "json_bool doc key =
     (case find_sub (quote key) doc of None \<Rightarrow> False
      | Some k \<Rightarrow> find_sub ''true'' (skip_colon (drop (k + length (quote key)) doc)) = Some 0)"

subsection \<open>The request\<close>

record register_result =
  httpStatus :: int
  machineAuthorized :: bool
  nodeKeyExpired :: bool
  authURL :: string
  reg_error :: string

definition register_request :: "u16 \<Rightarrow> bytes \<Rightarrow> string option \<Rightarrow> string option \<Rightarrow> string option \<Rightarrow> string" where
  "register_request version nodePub hostname authKey followup =
     ''{'' @ quote ''Version'' @ '':'' @ show_nat (unat version) @ '',''
     @ quote ''NodeKey'' @ '':'' @ quote (''nodekey:'' @ ToHex nodePub) @ '',''
     @ (case authKey of None \<Rightarrow> [] | Some a \<Rightarrow>
          if a = [] then [] else quote ''Auth'' @ '':{'' @ quote ''AuthKey'' @ '':'' @ quote a @ ''},'')
     @ (case followup of None \<Rightarrow> [] | Some u \<Rightarrow>
          if u = [] then [] else quote ''Followup'' @ '':'' @ quote u @ '','')
     @ host_info hostname @ ''}''"

text \<open>
  The result is that of \<open>Request\<close>: \<open>None\<close> when the fuel of the body loop was not enough,
  \<open>Some None\<close> for the undefined behaviour of a padded frame.
\<close>

definition Register ::
  "'c recv \<Rightarrow> 'c send \<Rightarrow> nat \<Rightarrow> 'c http2_conn \<Rightarrow> string \<Rightarrow> u16 \<Rightarrow> bytes \<Rightarrow> string option \<Rightarrow> string option \<Rightarrow> string option
     \<Rightarrow> (status \<times> register_result \<times> 'c http2_conn) option option" where
  "Register recv send fuel h2 host version nodePub hostname authKey followup =
     (let out = \<lparr> httpStatus = 0, machineAuthorized = False, nodeKeyExpired = False, authURL = [], reg_error = [] \<rparr>;
          body = register_request version nodePub hostname authKey followup in
      case Request recv send fuel h2 ''POST'' ''https'' host ''/machine/register'' (Some ''application/json'')
             (map byte_of_chr body) of
        None \<Rightarrow> None
      | Some None \<Rightarrow> Some None
      | Some (Some (Inl r, h2)) \<Rightarrow> Some (Some (r, out, h2))
      | Some (Some (Inr (st, bytes), h2)) \<Rightarrow>
          let resp = map chr_of_byte bytes;
              out = out\<lparr> httpStatus := st \<rparr>;
              out = (case json_string resp ''AuthURL'' of None \<Rightarrow> out | Some u \<Rightarrow> out\<lparr> authURL := u \<rparr>);
              out = (case json_string resp ''Error'' of None \<Rightarrow> out | Some e \<Rightarrow> out\<lparr> reg_error := e \<rparr>)
          in Some (Some (B_OK, out\<lparr> machineAuthorized := json_bool resp ''MachineAuthorized'',
                                    nodeKeyExpired := json_bool resp ''NodeKeyExpired'' \<rparr>, h2)))"

subsection \<open>The session\<close>

record control_session =
  fHost :: string
  fCtlPort :: u16
  fInsecure :: bool
  fVersion :: u16
  fMachinePriv :: bytes
  fMachinePub :: bytes
  fHaveParams :: bool
  fClient :: "control_client option"
  fSessionHttp2 :: "control_conn http2_conn"
  fEarlyJson :: string

definition ControlSession :: control_session where
  "ControlSession = \<lparr> fHost = [], fCtlPort = 443, fInsecure = False, fVersion = 0, fMachinePriv = replicate 32 0,
     fMachinePub = replicate 32 0, fHaveParams = False, fClient = None, fSessionHttp2 = Http2Conn, fEarlyJson = [] \<rparr>"

text \<open>What the outside contributes to one connection: the two TLS connections and the ephemeral key.\<close>

record dialer =
  dial_key :: "string \<Rightarrow> u16 \<Rightarrow> bool \<Rightarrow> status + tls"
  dial_upgrade :: "string \<Rightarrow> u16 \<Rightarrow> status + tls"
  fresh_key :: "(bytes \<times> bytes) option"

definition SetParams :: "control_session \<Rightarrow> string \<Rightarrow> u16 \<Rightarrow> bool \<Rightarrow> u16 \<Rightarrow> bytes \<Rightarrow> bytes \<Rightarrow> control_session" where
  "SetParams s host port insecure version machinePriv machinePub =
     s\<lparr> fHost := host, fCtlPort := port, fInsecure := insecure, fVersion := version,
        fMachinePriv := machinePriv, fMachinePub := machinePub, fHaveParams := True \<rparr>"

definition Establish :: "openssl \<Rightarrow> (nat \<Rightarrow> bytes) \<Rightarrow> dialer \<Rightarrow> control_session \<Rightarrow> status \<times> control_session" where
  "Establish os junk w s =
     (if \<not> fHaveParams s then (B_NO_INIT, s)
      else
      let s = s\<lparr> fSessionHttp2 := (fSessionHttp2 s)\<lparr> fConn := None \<rparr>, fClient := Some ControlClient \<rparr> in
      case Handshake os junk ControlClient (dial_key w (fHost s) (fCtlPort s) (fInsecure s))
             (dial_upgrade w (fHost s) (fCtlPort s)) (fHost s) (fMachinePriv s) (fMachinePub s) (fVersion s) (fresh_key w) of
        (result, c, keys) \<Rightarrow>
      let s = s\<lparr> fClient := Some c \<rparr> in
      if result \<noteq> B_OK then (result, s)
      else
      let conn = ControlConn.Init ControlConn (the (fClientTls c)) (sendKey (the keys)) (recvKey (the keys))
                   (take (control_client.fPendingLen c) (control_client.fPending c));
          h2 = Http2.Init (fSessionHttp2 s) conn in
      case Bootstrap (ReadRecord os) (WriteMessage os) h2 of (result, early, h2) \<Rightarrow>
      (result, s\<lparr> fSessionHttp2 := h2, fEarlyJson := (case early of None \<Rightarrow> fEarlyJson s | Some j \<Rightarrow> j) \<rparr>))"

text \<open>The register result is \<open>None\<close> when \<open>out\<close> was not written.\<close>

definition register_on ::
  "openssl \<Rightarrow> (nat \<Rightarrow> bytes) \<Rightarrow> dialer \<Rightarrow> nat \<Rightarrow> control_session \<Rightarrow> string \<Rightarrow> u16 \<Rightarrow> bytes \<Rightarrow> string option \<Rightarrow> string option
     \<Rightarrow> string option \<Rightarrow> (status \<times> register_result option \<times> control_session) option option" where
  "register_on os junk w fuel s host version nodePub hostname authKey followup =
     (case Establish os junk w s of (result, s) \<Rightarrow>
      if result \<noteq> B_OK then Some (Some (result, None, s))
      else case Register (ReadRecord os) (WriteMessage os) fuel (fSessionHttp2 s) host version nodePub hostname authKey followup of
        None \<Rightarrow> None
      | Some None \<Rightarrow> Some None
      | Some (Some (result, out, h2)) \<Rightarrow> Some (Some (result, Some out, s\<lparr> fSessionHttp2 := h2 \<rparr>)))"

definition ConnectControl where
  "ConnectControl os junk w fuel s host port insecure version machinePriv machinePub nodePub hostname authKey =
     register_on os junk w fuel (SetParams s host port insecure version machinePriv machinePub)
       host version nodePub hostname authKey None"

definition PollAuthorized where
  "PollAuthorized os junk w fuel s host version nodePub hostname url =
     register_on os junk w fuel s host version nodePub hostname None url"

subsection \<open>Reading the fields\<close>

fun escape :: "string \<Rightarrow> string" where
  "escape [] = []"
| "escape (c # cs) = (if c = CHR 0x22 \<or> c = CHR 0x5C then CHR 0x5C # c # escape cs else c # escape cs)"

text \<open>
  \<open>text_field doc key v\<close>: the first occurrence of the quoted key in the document is followed
  by a colon, with any number of blanks, and by the string \<open>v\<close>; likewise for a truth value.
\<close>

definition text_field :: "string \<Rightarrow> string \<Rightarrow> string \<Rightarrow> bool" where
  "text_field doc key v \<longleftrightarrow>
     (\<exists>pre sp post. doc = pre @ quote key @ sp @ quote (escape v) @ post \<and> find_sub (quote key) doc = Some (length pre)
        \<and> set sp \<subseteq> {CHR '' '', CHR '':''})"

definition flag_field :: "string \<Rightarrow> string \<Rightarrow> bool \<Rightarrow> bool" where
  "flag_field doc key b \<longleftrightarrow>
     (\<exists>pre sp post. doc = pre @ quote key @ sp @ (if b then ''true'' else ''false'') @ post
        \<and> find_sub (quote key) doc = Some (length pre) \<and> set sp \<subseteq> {CHR '' '', CHR '':''})"

lemma unescape_Cons:
  "unescape (c # d # ds) = (if c = CHR 0x22 then [] else if c = CHR 0x5C then d # unescape ds else c # unescape (d # ds))"
  by simp

declare unescape.simps(2) [simp del]

lemma unescape_escape: "unescape (escape v @ CHR 0x22 # post) = v"
proof (induction v)
  case Nil
  then show ?case by (cases post) (simp_all add: unescape.simps(2))
next
  case (Cons c v)
  obtain d ds where "escape v @ CHR 0x22 # post = d # ds" by (cases "escape v") auto
  with Cons show ?case by (cases "c = CHR 0x22 \<or> c = CHR 0x5C") (auto simp: unescape_Cons)
qed

lemma skip_colon_append: "set sp \<subseteq> {CHR '' '', CHR '':''} \<Longrightarrow> skip_colon (sp @ s) = skip_colon s"
  by (induction sp) (auto simp: skip_colon_def)

lemma json_string_field: "text_field doc key v \<Longrightarrow> json_string doc key = Some v"
  by (auto simp: text_field_def json_string_def skip_colon_append quote_def unescape_escape)
    (simp add: skip_colon_def unescape_escape)

lemma json_bool_field: "flag_field doc key b \<Longrightarrow> json_bool doc key = b"
  using find_sub_hit [of "''true''"]
  by (auto simp: flag_field_def json_bool_def skip_colon_append split: if_splits) (simp_all add: skip_colon_def)

subsection \<open>A session with a server\<close>

text \<open>
  \<open>control_server\<close>: what the dialled connections give when the server owns the key it
  publishes, answers the upgrade with 101 and its Noise message, and then writes the
  plaintexts \<open>ps\<close> as records under the key of the handshake.  TLS may cut all this anywhere,
  except that at most 205 bytes of the records come in one piece with the answer.
\<close>

definition control_server ::
  "openssl \<Rightarrow> (nat \<Rightarrow> bytes) \<Rightarrow> dialer \<Rightarrow> control_session \<Rightarrow> bytes list \<Rightarrow> bool" where
  "control_server os junk w s ps \<longleftrightarrow>
     (\<exists>c sr SR ei EI er ER i1 m1 r1 r2 m2 t pre post http extra.
        FetchControlKey ControlClient (dial_key w (fHost s) (fCtlPort s) (fInsecure s)) (fHost s) = (B_OK, c)
      \<and> fControlKey c = SR
      \<and> noise_keypair os (fMachinePriv s) (fMachinePub s) \<and> noise_keypair os sr SR \<and> noise_keypair os ei EI \<and> noise_keypair os er ER
      \<and> fresh_key w = Some (ei, EI)
      \<and> WriteMessage1 os junk (InitInitiator NoiseIK (fMachinePriv s) (fMachinePub s) SR (map byte_of_chr (ControlPrologue (fVersion s))))
          (Some (ei, EI)) [] 128 = (i1, Some m1)
      \<and> ReadMessage1 os (InitResponder NoiseIK sr SR (map byte_of_chr (ControlPrologue (fVersion s)))) m1 0 = (r1, Some [])
      \<and> WriteMessage2 os junk r1 (Some (er, ER)) [] 48 = (r2, Some m2)
      \<and> dial_upgrade w (fHost s) (fCtlPort s) = Inr t \<and> wr t = [] \<and> rx t = pre @ post \<and> only_data pre \<and> only_data post
      \<and> data_of pre = http @ ([2, 0, 48] @ m2) @ extra \<and> length extra \<le> 205
      \<and> http_head http \<and> find_sub (map byte_of_chr '' 101 '') http \<noteq> None \<and> length http \<le> 7936
      \<and> extra @ data_of post = sealed os (recvKey (Split r2)) 0 ps \<and> (\<forall>p \<in> set ps. p \<noteq> [] \<and> length p \<le> 4077))"

lemma Init_delivers:
  assumes "aead_laws os" "length (sendKey k) = 32" "length (recvKey k) = 32" "wr t = []" "only_data (rx t)"
    and "length buffered \<le> 8192" "buffered @ data_of (rx t) = sealed os (recvKey k) 0 ps" "\<forall>p \<in> set ps. p \<noteq> [] \<and> length p \<le> 4077"
  shows "http2_incoming os (Http2.Init h (ControlConn.Init ControlConn t (sendKey k) (recvKey k) buffered)) (concat ps)"
proof -
  let ?c = "ControlConn.Init ControlConn t (sendKey k) (recvKey k) buffered"
  have "readable ?c" "incoming ?c = buffered @ data_of (rx t)"
    using assms(5,6) by (auto simp: readable_def incoming_def ControlConn.Init_def Let_def ControlConn_def kPendingCap_def slice_def)
  moreover have "fTxKey ?c = sendKey k" "fRxKey ?c = recvKey k" "fRxCounter ?c = 0" "fTls ?c = Some t"
    by (simp_all add: ControlConn.Init_def Let_def)
  ultimately show ?thesis using assms
    by (auto simp: http2_incoming_def h2_stream_def Http2.Init_def conn_delivers_def writable_def kH2BufSize_def)
qed

lemma length_Split [simp]: "length (sendKey (Split s)) = 32" "length (recvKey (Split s)) = 32"
  by (simp_all add: Split_def split_beta)

text \<open>The frames of the SETTINGS exchange, and a response on stream \<open>sid\<close>.\<close>

definition settings_exchange :: "h2_frame list \<Rightarrow> bool" where
  "settings_exchange fs \<longleftrightarrow> (\<forall>f\<in>set fs. frame_ok f \<and> f_type f \<noteq> H2_GOAWAY) \<and> length fs \<le> 32
     \<and> (\<exists>f\<in>set fs. f_type f = H2_SETTINGS \<and> f_flags f AND H2_FLAG_ACK \<noteq> 0)
     \<and> (\<exists>f\<in>set fs. f_type f = H2_SETTINGS \<and> f_flags f AND H2_FLAG_ACK = 0)
     \<and> \<not> ((\<exists>f\<in>set (butlast fs). f_type f = H2_SETTINGS \<and> f_flags f AND H2_FLAG_ACK \<noteq> 0)
        \<and> (\<exists>f\<in>set (butlast fs). f_type f = H2_SETTINGS \<and> f_flags f AND H2_FLAG_ACK = 0))"

definition http2_response :: "hpack_decoder \<Rightarrow> u32 \<Rightarrow> bytes \<Rightarrow> nat \<Rightarrow> int \<Rightarrow> bytes \<Rightarrow> bool" where
  "http2_response d sid bs n st body \<longleftrightarrow>
     (\<exists>fs fb segs k d'. bs = response_bytes fs fb segs \<and> response_frames d sid fs fb segs k d' \<and> length segs \<le> n
        \<and> st = int k \<and> body = concat (map (\<lambda>(ctl, g, p). p) segs))"

lemma Request_response:
  assumes "http2_incoming os h (bs @ rest)" "http2_response (fDecoder h) (fNextStreamId h) bs n st body"
    and "length (concat (map (\<lambda>(n, v). AddHeader n v) (request_headers meth scheme authority path contentType req))) \<le> 16384"
    and "length req \<le> 16384"
  shows "\<exists>h'. Request (ReadRecord os) (WriteMessage os) n h meth scheme authority path contentType req = Some (Some (Inr (st, body), h'))
     \<and> http2_incoming os h' rest"
proof -
  obtain fs fb segs k d' where r: "bs = response_bytes fs fb segs" "response_frames (fDecoder h) (fNextStreamId h) fs fb segs k d'"
      "length segs \<le> n" and st: "st = int k" "body = concat (map (\<lambda>(ctl, g, p). p) segs)"
    using assms(2) unfolding http2_response_def by blast
  from Request_response_frames [OF assms(1) [unfolded r(1)] r(2) assms(3,4) r(3)] show ?thesis unfolding st by blast
qed

lemma Establish_ok:
  assumes "aead_laws os" "dh_laws os" "fHaveParams s" "control_server os junk w s ps"
    and "concat ps = kEarlyMagic @ be32 (length json) @ json @ encs fs @ rest" "length json \<le> 8192" "settings_exchange fs"
  shows "\<exists>s'. Establish os junk w s = (B_OK, s') \<and> http2_incoming os (fSessionHttp2 s') rest
     \<and> fEarlyJson s' = c_str (map chr_of_byte json) \<and> fNextStreamId (fSessionHttp2 s') = 1
     \<and> fDecoder (fSessionHttp2 s') = fDecoder (fSessionHttp2 s)"
proof -
  let ?pro = "map byte_of_chr (ControlPrologue (fVersion s))"
  obtain c sr SR ei EI er ER i1 m1 r1 r2 m2 t pre post http extra where
    key: "FetchControlKey ControlClient (dial_key w (fHost s) (fCtlPort s) (fInsecure s)) (fHost s) = (B_OK, c)" "fControlKey c = SR"
    and pairs: "noise_keypair os (fMachinePriv s) (fMachinePub s)" "noise_keypair os sr SR" "noise_keypair os ei EI" "noise_keypair os er ER"
    and fresh: "fresh_key w = Some (ei, EI)"
    and server: "WriteMessage1 os junk (InitInitiator NoiseIK (fMachinePriv s) (fMachinePub s) SR ?pro) (Some (ei, EI)) [] 128 = (i1, Some m1)"
      "ReadMessage1 os (InitResponder NoiseIK sr SR ?pro) m1 0 = (r1, Some [])"
      "WriteMessage2 os junk r1 (Some (er, ER)) [] 48 = (r2, Some m2)"
    and dial: "dial_upgrade w (fHost s) (fCtlPort s) = Inr t" "only_data post"
    and stream: "wr t = []" "rx t = pre @ post" "only_data pre" "data_of pre = http @ ([2, 0, 48] @ m2) @ extra"
    and size: "length extra \<le> 205"
    and http: "http_head http" "find_sub (map byte_of_chr '' 101 '') http \<noteq> None" "length http \<le> 7936"
    and recs: "extra @ data_of post = sealed os (recvKey (Split r2)) 0 ps" "\<forall>p \<in> set ps. p \<noteq> [] \<and> length p \<le> 4077"
    using assms(4) unfolding control_server_def by (elim exE conjE) blast
  obtain c' t' evs where hs: "Handshake os junk ControlClient (dial_key w (fHost s) (fCtlPort s) (fInsecure s)) (Inr t) (fHost s)
        (fMachinePriv s) (fMachinePub s) (fVersion s) (Some (ei, EI)) = (B_OK, c', Some (Split r2))"
      "fClientTls c' = Some t'" "control_client.fPendingLen c' \<le> length (control_client.fPending c')"
      "length (control_client.fPending c') = 512" "wr t' = []" "only_data evs" "rx t' = evs @ post"
      "take (control_client.fPendingLen c') (control_client.fPending c') @ data_of evs = extra"
    using handshake_ok [OF assms(1,2) key pairs refl server stream http size] by blast
  let ?buf = "take (control_client.fPendingLen c') (control_client.fPending c')"
  let ?h = "Http2.Init ((fSessionHttp2 s)\<lparr> fConn := None \<rparr>) (ControlConn.Init ControlConn t' (sendKey (Split r2)) (recvKey (Split r2)) ?buf)"
  have all: "?buf @ data_of (rx t') = sealed os (recvKey (Split r2)) 0 ps" "only_data (rx t')"
    using hs(6-8) recs(1) dial(2) by (auto simp: append_assoc [symmetric] simp del: append_assoc)
  have "http2_incoming os ?h (concat ps)"
    by (rule Init_delivers) (use assms(1) hs(3-5) all recs(2) in auto)
  then have inc: "h2_stream (conn_delivers os) (writable os) ?h (kEarlyMagic @ be32 (length json) @ json @ encs fs @ rest)"
    using assms(5) by (simp add: http2_incoming_def)
  obtain h' where b: "Bootstrap (ReadRecord os) (WriteMessage os) ?h = (B_OK, Some (c_str (map chr_of_byte json)), h')"
      "h2_stream (conn_delivers os) (writable os) h' rest" "h2_same ?h h'"
    using cc.Bootstrap_ok [OF inc assms(6)] assms(7) unfolding settings_exchange_def by blast
  have h: "fNextStreamId ?h = 1" "fDecoder ?h = fDecoder (fSessionHttp2 s)" by (simp_all add: Http2.Init_def)
  show ?thesis using assms(3) hs(1,2) fresh dial(1) b h
    by (simp add: Establish_def http2_incoming_def h2_same_def)
qed

text \<open>
  C5. Registration end to end: when the server that owns the published key completes the Noise
  handshake and then sends, as records under the handshake's key, the early payload, its SETTINGS
  and a response to the first request, \<open>Connect\<close> succeeds and reports the status, the login URL, the
  error text and the two flags that the response carries; the stream is left right behind the
  response.  TLS may cut the bytes anywhere, as long as at most 205 bytes behind the Noise answer
  arrive bundled with it: the client's buffer for the answer loses what exceeds that.
\<close>

theorem register_end_to_end:
  assumes "aead_laws os" "dh_laws os" "fDecoder (fSessionHttp2 s) = HpackDecoder"
    and "control_server os junk w (SetParams s host port insecure version machinePriv machinePub) ps"
    and "concat ps = kEarlyMagic @ be32 (length json) @ json @ encs fs @ resp @ rest" "length json \<le> 8192" "settings_exchange fs"
    and "http2_response HpackDecoder 1 resp fuel st (map byte_of_chr doc)"
    and "text_field doc ''AuthURL'' url" "text_field doc ''Error'' err"
    and "flag_field doc ''MachineAuthorized'' authorized" "flag_field doc ''NodeKeyExpired'' expired"
    and "req = map byte_of_chr (register_request version nodePub hostname authKey None)" "length req \<le> 16384"
    and "length (concat (map (\<lambda>(n, v). AddHeader n v)
           (request_headers ''POST'' ''https'' host ''/machine/register'' (Some ''application/json'') req))) \<le> 16384"
  shows "\<exists>s'. ConnectControl os junk w fuel s host port insecure version machinePriv machinePub nodePub hostname authKey
       = Some (Some (B_OK, Some \<lparr> httpStatus = st, machineAuthorized = authorized, nodeKeyExpired = expired,
                                  authURL = url, reg_error = err \<rparr>, s'))
     \<and> fEarlyJson s' = c_str (map chr_of_byte json) \<and> http2_incoming os (fSessionHttp2 s') rest"
proof -
  let ?s = "SetParams s host port insecure version machinePriv machinePub"
  obtain s1 where e: "Establish os junk w ?s = (B_OK, s1)" "http2_incoming os (fSessionHttp2 s1) (resp @ rest)"
      "fEarlyJson s1 = c_str (map chr_of_byte json)" "fNextStreamId (fSessionHttp2 s1) = 1" "fDecoder (fSessionHttp2 s1) = HpackDecoder"
    using Establish_ok [OF assms(1,2) _ assms(4-7)] assms(3) by (auto simp: SetParams_def)
  have q: "http2_response (fDecoder (fSessionHttp2 s1)) (fNextStreamId (fSessionHttp2 s1)) resp fuel st (map byte_of_chr doc)"
    using assms(8) e(4,5) by simp
  obtain h' where r: "Request (ReadRecord os) (WriteMessage os) fuel (fSessionHttp2 s1) ''POST'' ''https'' host ''/machine/register''
        (Some ''application/json'') req = Some (Some (Inr (st, map byte_of_chr doc), h'))" "http2_incoming os h' rest"
    using Request_response [OF e(2) q assms(15,14)] by blast
  have "map chr_of_byte (map byte_of_chr doc) = doc" by (simp add: map_idI)
  then show ?thesis
    using e(1,3) r assms(9,10) [THEN json_string_field] assms(11,12) [THEN json_bool_field]
    by (simp add: ConnectControl_def register_on_def Register_def assms(13))
qed

definition sample_frame :: "u8 \<Rightarrow> u8 \<Rightarrow> u32 \<Rightarrow> bytes \<Rightarrow> h2_frame" where
  "sample_frame ty flags sid payload = \<lparr> f_type = ty, f_flags = flags, f_stream = sid, f_payload = payload \<rparr>"

definition sample_doc :: string where
  "sample_doc = ''{'' @ quote ''NodeKeyExpired'' @ '':false,'' @ quote ''MachineAuthorized'' @ '': true,''
     @ quote ''AuthURL'' @ '':'' @ quote ''https://a/b'' @ '','' @ quote ''Error'' @ '':'' @ quote [] @ ''}''"

definition sample_settings :: "h2_frame list" where
  "sample_settings = [sample_frame H2_SETTINGS 0 0 [], sample_frame H2_SETTINGS 1 0 []]"

definition sample_response :: bytes where
  "sample_response = encs [sample_frame H2_HEADERS 4 1 [0x88], sample_frame H2_DATA 1 1 (map byte_of_chr sample_doc)]"

lemma sample_fields: "text_field sample_doc ''AuthURL'' ''https://a/b''" "text_field sample_doc ''Error'' []"
  "flag_field sample_doc ''MachineAuthorized'' True" "flag_field sample_doc ''NodeKeyExpired'' False"
proof -
  let ?p1 = "''{''"
  let ?p2 = "?p1 @ quote ''NodeKeyExpired'' @ '':false,''"
  let ?p3 = "?p2 @ quote ''MachineAuthorized'' @ '': true,''"
  let ?p4 = "?p3 @ quote ''AuthURL'' @ '':'' @ quote ''https://a/b'' @ '',''"
  have e: "escape ''https://a/b'' = ''https://a/b''" "escape [] = []" by code_simp+
  have f: "find_sub (quote ''NodeKeyExpired'') sample_doc = Some (length ?p1)"
    "find_sub (quote ''MachineAuthorized'') sample_doc = Some (length ?p2)"
    "find_sub (quote ''AuthURL'') sample_doc = Some (length ?p3)"
    "find_sub (quote ''Error'') sample_doc = Some (length ?p4)" by code_simp+
  show "text_field sample_doc ''AuthURL'' ''https://a/b''" unfolding text_field_def e
    by (rule exI [of _ ?p3], rule exI [of _ "'':''"]) (use f(3) in \<open>simp add: sample_doc_def\<close>)
  show "text_field sample_doc ''Error'' []" unfolding text_field_def e
    by (rule exI [of _ ?p4], rule exI [of _ "'':''"]) (use f(4) in \<open>simp add: sample_doc_def\<close>)
  show "flag_field sample_doc ''MachineAuthorized'' True" unfolding flag_field_def
    by (rule exI [of _ ?p2], rule exI [of _ "'': ''"]) (use f(2) in \<open>simp add: sample_doc_def\<close>)
  show "flag_field sample_doc ''NodeKeyExpired'' False" unfolding flag_field_def
    by (rule exI [of _ ?p1], rule exI [of _ "'':''"]) (use f(1) in \<open>simp add: sample_doc_def\<close>)
qed

lemma sample_http2: "http2_response HpackDecoder 1 sample_response 1 200 (map byte_of_chr sample_doc)"
proof -
  let ?hd = "sample_frame H2_HEADERS 4 1 [0x88]" and ?d = "sample_frame H2_DATA 1 1 (map byte_of_chr sample_doc)"
  have "fst (Decode HpackDecoder [0x88] []) = B_OK \<and> snd (snd (Decode HpackDecoder [0x88] [])) = [\<lparr> name = '':status'', val = ''200'' \<rparr>]"
    by code_simp
  then obtain d where dec: "Decode HpackDecoder [0x88] [] = (B_OK, d, [\<lparr> name = '':status'', val = ''200'' \<rparr>])"
    by (metis prod.collapse)
  have st: "show_nat 200 = ''200''" by code_simp
  have len: "length (map byte_of_chr sample_doc) \<le> 16384" by (simp add: sample_doc_def quote_def)
  have "until_nul (map byte_of_chr sample_doc) = map byte_of_chr sample_doc" by code_simp
  then have nul: "0 \<notin> set (map byte_of_chr sample_doc)" unfolding until_nul_def takeWhile_eq_all_conv by blast
  have "block_frame 1 ?hd [0x88]" "data_frame 1 ?d (map byte_of_chr sample_doc)"
    using len by (simp_all add: block_frame_def data_frame_def frame_ok_def padded_def sample_frame_def) (simp_all add: h2_consts)
  then have "response_frames HpackDecoder 1 [] (?hd, [0x88]) [([], ?d, map byte_of_chr sample_doc)] 200 d"
    using dec st nul by (simp add: response_frames_def sample_frame_def) (simp add: h2_consts)
  then show ?thesis unfolding http2_response_def sample_response_def
    by (intro exI [of _ "[]"] exI [of _ "(?hd, [0x88])"] exI [of _ "[([], ?d, map byte_of_chr sample_doc)]"] exI [of _ 200] exI [of _ d])
      (simp add: response_bytes_def)
qed

lemma sample_exchange: "settings_exchange sample_settings"
  by (simp add: settings_exchange_def sample_settings_def sample_frame_def frame_ok_def H2_FLAG_ACK_def H2_GOAWAY_def H2_SETTINGS_def)

definition sample_plain :: bytes where
  "sample_plain = kEarlyMagic @ be32 2 @ [0x7B, 0x7D] @ encs sample_settings @ sample_response"

definition sample_session :: control_session where
  "sample_session = SetParams ControlSession ''h'' 443 False 144 (replicate 32 1) (replicate 32 1)"

lemma sample_server:
  "\<exists>w. control_server toy_openssl (\<lambda>n. []) w sample_session [sample_plain]"
proof -
  let ?pro = "map byte_of_chr (ControlPrologue 144)"
  note pairs = toy_noise_keypair [of "replicate 32 1"] toy_noise_keypair [of "replicate 32 0x22"]
    toy_noise_keypair [of "replicate 32 3"] toy_noise_keypair [of "replicate 32 4"]
  note laws = toy_aead_laws toy_dh_laws
  obtain i1 r1 m1 where one:
    "WriteMessage1 toy_openssl (\<lambda>n. []) (InitInitiator NoiseIK (replicate 32 1) (replicate 32 1) (replicate 32 0x22) ?pro)
       (Some (replicate 32 3, replicate 32 3)) [] 128 = (i1, Some m1)"
    "ReadMessage1 toy_openssl (InitResponder NoiseIK (replicate 32 0x22) (replicate 32 0x22) ?pro) m1 0 = (r1, Some [])"
    "sym i1 = sym r1" "fInitiator i1" "fStaticPriv i1 = replicate 32 1" "fEphemeralPriv i1 = replicate 32 3"
    "\<not> fInitiator r1" "fRemoteEphemeral r1 = replicate 32 3" "fRemoteStatic r1 = replicate 32 1"
    using message1_sync [OF laws pairs(1-3) Init_sync(2-7) Init_sync(1), of "[]" 128 0 "\<lambda>n. []" NoiseIK ?pro NoiseIK] by auto
  obtain r2 m2 where two: "WriteMessage2 toy_openssl (\<lambda>n. []) r1 (Some (replicate 32 4, replicate 32 4)) [] 48 = (r2, Some m2)"
    using message2_sync [OF laws pairs(1,3,4) one(4-9,3), of "[]" 48 64 "\<lambda>n. []"] by auto
  let ?pre = "[Data (sample_upgrade @ ([2, 0, 48] @ m2))]"
  let ?post = "[Data (sealed toy_openssl (recvKey (Split r2)) 0 [sample_plain])]"
  define w where "w = \<lparr> dial_key = \<lambda>h p i. sample_key_conn, dial_upgrade = \<lambda>h p. Inr \<lparr> rx = ?pre @ ?post, tx = [], wr = [] \<rparr>,
    fresh_key = Some (replicate 32 3, replicate 32 3) \<rparr>"
  have len: "sample_plain \<noteq> [] \<and> length sample_plain \<le> 4077"
    by (simp add: sample_plain_def kEarlyMagic_def be32_def sample_settings_def sample_response_def sample_frame_def enc_def
        frame_bytes_def sample_doc_def quote_def)
  have "control_server toy_openssl (\<lambda>n. []) w sample_session [sample_plain]"
    unfolding control_server_def
    by (rule exI [of _ "ControlClient\<lparr> fControlKey := replicate 32 0x22 \<rparr>"], rule exI [of _ "replicate 32 0x22"],
        rule exI [of _ "replicate 32 0x22"], rule exI [of _ "replicate 32 3"], rule exI [of _ "replicate 32 3"],
        rule exI [of _ "replicate 32 4"], rule exI [of _ "replicate 32 4"], rule exI [of _ i1], rule exI [of _ m1],
        rule exI [of _ r1], rule exI [of _ r2], rule exI [of _ m2],
        rule exI [of _ "\<lparr> rx = ?pre @ ?post, tx = [], wr = [] \<rparr>"], rule exI [of _ ?pre], rule exI [of _ ?post],
        rule exI [of _ sample_upgrade], rule exI [of _ "[]"])
      (use pairs one(1,2) two len sample_key sample_head in \<open>simp add: sample_session_def SetParams_def w_def record_frame_def\<close>)
  then show ?thesis ..
qed

theorem register_end_to_end_witness:
  "\<exists>w s'. ConnectControl toy_openssl (\<lambda>n. []) w 1 ControlSession ''h'' 443 False 144 (replicate 32 1) (replicate 32 1)
       (replicate 32 7) None None
     = Some (Some (B_OK, Some \<lparr> httpStatus = 200, machineAuthorized = True, nodeKeyExpired = False,
                                authURL = ''https://a/b'', reg_error = [] \<rparr>, s'))"
proof -
  obtain w where w: "control_server toy_openssl (\<lambda>n. []) w (SetParams ControlSession ''h'' 443 False 144 (replicate 32 1) (replicate 32 1)) [sample_plain]"
    using sample_server unfolding sample_session_def by blast
  let ?req = "map byte_of_chr (register_request 144 (replicate 32 7) None None None)"
  have d: "fDecoder (fSessionHttp2 ControlSession) = HpackDecoder" by (simp add: ControlSession_def Http2Conn_def)
  have c: "concat [sample_plain] = kEarlyMagic @ be32 (length [0x7B, 0x7D :: u8]) @ [0x7B, 0x7D] @ encs sample_settings @ sample_response @ []"
    by (simp add: sample_plain_def be32_def)
  have l: "length ?req \<le> 16384" by code_simp
  have h: "length (concat (map (\<lambda>(n, v). AddHeader n v)
     (request_headers ''POST'' ''https'' ''h'' ''/machine/register'' (Some ''application/json'') ?req))) \<le> 16384" by code_simp
  show ?thesis
    using register_end_to_end [OF toy_aead_laws toy_dh_laws d w c _ sample_exchange sample_http2 sample_fields refl l h] by auto
qed

end
