(* ===== verification/MagicDns.thy ===== *)
theory MagicDns
  imports Netmap Routes
begin

text \<open>
  MagicDNS, \<open>src/backend/tailscale/TSMagicDns.cpp\<close>: parsing and building DNS questions, the host
  table built from the network map, and \<open>Resolve\<close>, which answers A questions for tailnet names.
  Results: a question built by \<open>DnsBuildQuery\<close> is read back, and for every well-formed question
  \<open>Resolve\<close> answers exactly when the name belongs to a peer of the map, with that peer's address.
\<close>

subsection \<open>Messages\<close>

definition kDnsHeaderLen :: nat where "kDnsHeaderLen = 12"
definition kTypeA :: u16 where "kTypeA = 1"
definition kClassIN :: u16 where "kClassIN = 1"

definition to_lower :: "string \<Rightarrow> string" where
  "to_lower s = map tolower s"

text \<open>\<open>(buf[off] << 8) | buf[off + 1]\<close>\<close>

definition get16 :: "bytes \<Rightarrow> nat \<Rightarrow> u16" where
  "get16 buf off = push_bit 8 (ucast (buf ! off)) OR ucast (buf ! (off + 1))"

function decode_qname :: "bytes \<Rightarrow> nat \<Rightarrow> string \<Rightarrow> (nat \<times> string) option" where
  "decode_qname buf off name =
     (if off < length buf then
        let labelLen = buf ! off; off = off + 1 in
        if labelLen = 0 then Some (off, name)
        else if labelLen AND 0xC0 \<noteq> 0 then None
        else if off + unat labelLen > length buf then None
        else decode_qname buf (off + unat labelLen)
               ((if name \<noteq> [] then name @ ''.'' else name)
                @ map (\<lambda>b. tolower (chr_of_byte b)) (slice off (unat labelLen) buf))
      else None)"
  by pat_completeness auto
termination
  by (relation "measure (\<lambda>(buf, off, _). length buf - off)") auto

declare decode_qname.simps [simp del]

text \<open>The question of a query: name, type and id; \<open>None\<close> for the result false.\<close>

definition DnsParseQuestion :: "bytes option \<Rightarrow> (string \<times> u16 \<times> u16) option" where
  "DnsParseQuestion query =
     (case query of None \<Rightarrow> None | Some buf \<Rightarrow>
      if length buf < kDnsHeaderLen then None
      else if get16 buf 4 < 1 then None
      else case decode_qname buf kDnsHeaderLen [] of None \<Rightarrow> None
      | Some (off, name) \<Rightarrow>
          if off + 4 > length buf then None else Some (name, get16 buf off, get16 buf 0))"

function encode_loop :: "string \<Rightarrow> bytes \<Rightarrow> nat \<Rightarrow> bytes option" where
  "encode_loop p out cap =
     (if p = [] then Some (out @ [0])
      else let dot = find_first (CHR ''.'') p;
               labelLen = (case dot of Some d \<Rightarrow> d | None \<Rightarrow> length p)
           in if labelLen = 0 \<or> labelLen > 63 then None
              else if length out + 1 + labelLen + 1 > cap then None
              else encode_loop (case dot of Some d \<Rightarrow> drop (d + 1) p | None \<Rightarrow> [])
                     (out @ [of_nat labelLen] @ map byte_of_chr (take labelLen p)) cap)"
  by pat_completeness auto
termination
  by (relation "measure (\<lambda>(p, _). length p)") (auto split: option.splits)

declare encode_loop.simps [simp del]

definition encode_qname :: "string \<Rightarrow> nat \<Rightarrow> bytes option" where
  "encode_qname name cap = encode_loop (c_str name) [] cap"

definition DnsBuildQuery :: "string \<Rightarrow> u16 \<Rightarrow> nat \<Rightarrow> bytes option" where
  "DnsBuildQuery name ident cap =
     (if cap < kDnsHeaderLen + 5 then None
      else case encode_qname name (cap - kDnsHeaderLen - 4) of None \<Rightarrow> None
      | Some q \<Rightarrow>
          Some ([ucast (drop_bit 8 ident), ucast (ident AND 0xFF), 0x01, 0, 0, 0x01, 0, 0, 0, 0, 0, 0] @ q
                @ [ucast (drop_bit 8 kTypeA), ucast (kTypeA AND 0xFF), ucast (drop_bit 8 kClassIN), ucast (kClassIN AND 0xFF)]))"

subsection \<open>The host table\<close>

record magic_dns =
  fDomain :: string
  fHosts :: "(string \<times> string) list"

definition SetTailnetDomain :: "string option \<Rightarrow> magic_dns \<Rightarrow> magic_dns" where
  "SetTailnetDomain domain d = d\<lparr> fDomain := (case domain of Some s \<Rightarrow> to_lower (c_str s) | None \<Rightarrow> []) \<rparr>"

definition AddHost :: "string option \<Rightarrow> string option \<Rightarrow> magic_dns \<Rightarrow> magic_dns" where
  "AddHost hostname addr d =
     (case (hostname, addr) of
        (Some h, Some ip) \<Rightarrow> d\<lparr> fHosts := fHosts d @ [(to_lower (c_str h), c_str ip)] \<rparr>
      | _ \<Rightarrow> d)"

definition Clear :: "magic_dns \<Rightarrow> magic_dns" where
  "Clear d = d\<lparr> fHosts := [] \<rparr>"

fun first_ipv4 :: "string list \<Rightarrow> string" where
  "first_ipv4 [] = []"
| "first_ipv4 (cidr # cidrs) =
     (if find_first (CHR '':'') cidr \<noteq> None then first_ipv4 cidrs
      else let ip = (case find_first (CHR ''/'') cidr of None \<Rightarrow> cidr | Some slash \<Rightarrow> take slash cidr)
           in if ip \<noteq> [] then ip else first_ipv4 cidrs)"

definition load_host :: "magic_dns \<Rightarrow> netmap_peer \<Rightarrow> magic_dns" where
  "load_host d p =
     (if n_hostname p = [] then d
      else let ip = first_ipv4 (n_allowedIPs p)
           in if ip \<noteq> [] then AddHost (Some (n_hostname p)) (Some ip) d else d)"

definition LoadFromNetmap :: "tsnetmap \<Rightarrow> magic_dns \<Rightarrow> magic_dns" where
  "LoadFromNetmap nm d =
     (let d = Clear d;
          d = (case domains (fDns nm) of [] \<Rightarrow> d | s # _ \<Rightarrow> SetTailnetDomain (Some s) d)
      in foldl load_host d (fPeers nm))"

subsection \<open>Answers\<close>

definition LocalName :: "magic_dns \<Rightarrow> string \<Rightarrow> string" where
  "LocalName d queried =
     (let suffix = ''.'' @ fDomain d in
      if fDomain d \<noteq> [] \<and> length suffix \<le> length queried \<and> drop (length queried - length suffix) queried = suffix
      then take (length queried - length suffix) queried
      else if find_first (CHR ''.'') queried = None then queried
      else [])"

text \<open>The result of \<open>Resolve\<close>: a response, 0 (not ours) or -1.\<close>

datatype dns_result = Answer bytes | NotOurs | BadQuery

definition dns_answer :: "u32 \<times> u32 \<times> u32 \<times> u32 \<Rightarrow> bytes" where
  "dns_answer = (\<lambda>(a, b, c, d).
     [0xC0, 0x0C, ucast (drop_bit 8 kTypeA), ucast (kTypeA AND 0xFF), ucast (drop_bit 8 kClassIN), ucast (kClassIN AND 0xFF),
      0x00, 0x00, 0x01, 0x2C, 0x00, 0x04, ucast a, ucast b, ucast c, ucast d])"

definition Resolve :: "magic_dns \<Rightarrow> bytes option \<Rightarrow> nat \<Rightarrow> dns_result" where
  "Resolve d query cap =
     (case DnsParseQuestion query of None \<Rightarrow> BadQuery
      | Some (name, type, _) \<Rightarrow>
          if type \<noteq> kTypeA then NotOurs
          else let host = LocalName d name in
          if host = [] then NotOurs
          else case find (\<lambda>h. c_str (fst h) = c_str host) (fHosts d) of None \<Rightarrow> NotOurs
          | Some (_, ip) \<Rightarrow>
              (case sscanf_ipv4 ip of None \<Rightarrow> NotOurs
               | Some octets \<Rightarrow>
                   let q = the query in
                   case decode_qname q kDnsHeaderLen [] of None \<Rightarrow> BadQuery
                   | Some (qEnd, _) \<Rightarrow>
                       let questionLen = qEnd + 4 - kDnsHeaderLen in
                       if cap < kDnsHeaderLen + questionLen + 16 then BadQuery
                       else Answer ([q ! 0, q ! 1, 0x84 OR (q ! 2 AND 0x01), 0x00, 0x00, 0x01, 0x00, 0x01, 0, 0, 0, 0]
                                    @ slice kDnsHeaderLen questionLen q @ dns_answer octets)))"

subsection \<open>Names on the wire\<close>

definition label_ok :: "bytes \<Rightarrow> bool" where
  "label_ok l \<longleftrightarrow> 0 < length l \<and> length l \<le> 63 \<and> 0 \<notin> set l"

definition qname :: "bytes list \<Rightarrow> bytes" where
  "qname ls = concat (map (\<lambda>l. of_nat (length l) # l) ls) @ [0]"

definition lower_label :: "bytes \<Rightarrow> string" where
  "lower_label l = map (\<lambda>b. tolower (chr_of_byte b)) l"

fun dot_name :: "string \<Rightarrow> bytes list \<Rightarrow> string" where
  "dot_name name [] = name"
| "dot_name name (l # ls) = dot_name ((if name \<noteq> [] then name @ ''.'' else name) @ lower_label l) ls"

definition dns_name :: "bytes list \<Rightarrow> string" where
  "dns_name ls = dot_name [] ls"

lemma small_label: "n \<le> 63 \<Longrightarrow> unat (of_nat n :: u8) = n \<and> (of_nat n :: u8) AND 0xC0 = 0"
proof -
  assume n: "n \<le> 63"
  have u: "unat (of_nat n :: u8) = n" using n by (simp add: unat_of_nat)
  then have "unat (take_bit 6 (of_nat n :: u8)) = unat (of_nat n :: u8)" using n by (simp add: unat_take_bit_mod)
  then have "take_bit 6 (of_nat n :: u8) = of_nat n" by (simp only: word_unat_eq_iff)
  then have "\<not> bit (of_nat n :: u8) k" if "6 \<le> k" for k by (metis bit_take_bit_iff not_less that)
  moreover have "\<not> bit (0xC0 :: u8) k" if "k < 6" for k
  proof -
    have c: "(0xC0 :: u8) = push_bit 6 3" by simp
    show ?thesis unfolding c bit_push_bit_iff using that by simp
  qed
  ultimately have "(of_nat n :: u8) AND 0xC0 = 0" by (intro bit_eqI) (simp only: bit_and_iff bit_0_eq, metis bot2E bot_apply linorder_not_le bot_bool_def)
  with u show ?thesis by simp
qed

lemma decode_qname_labels:
  "drop off buf = qname ls @ rest \<Longrightarrow> \<forall>l \<in> set ls. label_ok l \<Longrightarrow>
   decode_qname buf off name = Some (off + length (qname ls), dot_name name ls)"
proof (induction ls arbitrary: off name)
  case Nil
  then have "off < length buf" "buf ! off = 0"
    by (auto simp: qname_def) (metis drop_all list.distinct(1) not_less, metis hd_drop_conv_nth drop_all list.sel(1) list.distinct(1) not_less)
  then show ?case by (simp add: decode_qname.simps [of buf off] qname_def)
next
  case (Cons l ls)
  have l: "0 < length l" "length l \<le> 63" using Cons.prems(2) by (auto simp: label_ok_def)
  note sm = small_label [OF l(2)]
  have d: "drop off buf = of_nat (length l) # l @ qname ls @ rest" using Cons.prems(1) by (simp add: qname_def)
  then have o: "off < length buf" "buf ! off = of_nat (length l)"
    by (metis drop_all list.distinct(1) not_less, metis hd_drop_conv_nth drop_all list.sel(1) list.distinct(1) not_less)
  have d1: "drop (off + 1) buf = l @ qname ls @ rest"
    using d by (metis Suc_eq_plus1 drop_Suc list.sel(3) tl_drop)
  have s: "slice (off + 1) (length l) buf = l" "off + 1 + length l \<le> length buf"
    using arg_cong [OF d, of length] by (simp_all add: slice_def d1 [simplified])
  have d2: "drop (off + 1 + length l) buf = qname ls @ rest"
    using d1 by (metis append_eq_conv_conj drop_drop add.commute)
  have nz: "(of_nat (length l) :: u8) \<noteq> 0" using sm l(1) by (metis unat_0 less_irrefl)
  have "decode_qname buf off name = decode_qname buf (off + 1 + length l) ((if name \<noteq> [] then name @ ''.'' else name) @ lower_label l)"
    using o s sm nz by (simp add: decode_qname.simps [of buf off] lower_label_def)
  also have "\<dots> = Some (off + 1 + length l + length (qname ls), dot_name ((if name \<noteq> [] then name @ ''.'' else name) @ lower_label l) ls)"
    by (rule Cons.IH [OF d2]) (use Cons.prems(2) in simp)
  finally show ?case by (simp add: qname_def)
qed

lemma get16_append: "off + 1 < length xs \<Longrightarrow> get16 (xs @ ys) off = get16 xs off"
  by (simp add: get16_def nth_append)

lemma get16_be16: "length xs = off \<Longrightarrow> get16 (xs @ be16 w @ ys) off = w"
  using u16_bytes [of w] by (simp add: get16_def be16_def nth_append)

text \<open>A question with any header fields and anything behind it.\<close>

definition question :: "bytes \<Rightarrow> bytes list \<Rightarrow> u16 \<Rightarrow> u16 \<Rightarrow> bytes \<Rightarrow> bytes" where
  "question hdr ls ty cls rest = hdr @ qname ls @ be16 ty @ be16 cls @ rest"

definition question_ok :: "bytes \<Rightarrow> bytes list \<Rightarrow> bool" where
  "question_ok hdr ls \<longleftrightarrow> length hdr = 12 \<and> get16 hdr 4 \<noteq> 0 \<and> (\<forall>l \<in> set ls. label_ok l)"

lemma decode_question:
  "question_ok hdr ls \<Longrightarrow> decode_qname (question hdr ls ty cls rest) 12 [] = Some (12 + length (qname ls), dns_name ls)"
  unfolding dns_name_def
  by (rule decode_qname_labels [of _ _ _ "be16 ty @ be16 cls @ rest"]) (simp_all add: question_ok_def question_def)

lemma parse_question:
  assumes "question_ok hdr ls"
  shows "DnsParseQuestion (Some (question hdr ls ty cls rest)) = Some (dns_name ls, ty, get16 hdr 0)"
proof -
  let ?q = "question hdr ls ty cls rest"
  have h: "length hdr = 12" "get16 hdr 4 \<noteq> 0" using assms by (simp_all add: question_ok_def)
  have "get16 ?q 4 = get16 hdr 4" "get16 ?q 0 = get16 hdr 0" using h(1) by (simp_all add: question_def get16_append)
  moreover have "get16 ?q (12 + length (qname ls)) = ty"
    using get16_be16 [of "hdr @ qname ls" "12 + length (qname ls)" ty "be16 cls @ rest"] h(1) by (simp add: question_def)
  moreover have "12 + length (qname ls) + 4 \<le> length ?q" "12 \<le> length ?q" using h(1) by (simp_all add: question_def)
  ultimately show ?thesis using h(2)
    by (simp add: DnsParseQuestion_def kDnsHeaderLen_def decode_question [OF assms])
qed

subsection \<open>The table of a netmap\<close>

definition listed_host :: "netmap_peer \<Rightarrow> (string \<times> string) list" where
  "listed_host p =
     (if n_hostname p \<noteq> [] \<and> first_ipv4 (n_allowedIPs p) \<noteq> []
      then [(to_lower (c_str (n_hostname p)), c_str (first_ipv4 (n_allowedIPs p)))] else [])"

definition tailnet_domain :: "tsnetmap \<Rightarrow> string" where
  "tailnet_domain nm = (case domains (fDns nm) of [] \<Rightarrow> [] | s # _ \<Rightarrow> to_lower (c_str s))"

lemma load_hosts:
  "fHosts (foldl load_host d ps) = fHosts d @ concat (map listed_host ps) \<and> fDomain (foldl load_host d ps) = fDomain d"
  by (induction ps arbitrary: d) (auto simp: load_host_def listed_host_def AddHost_def Let_def)

lemma LoadFromNetmap_table:
  "fHosts (LoadFromNetmap nm d) = concat (map listed_host (fPeers nm))"
  "domains (fDns nm) \<noteq> [] \<or> fDomain d = [] \<Longrightarrow> fDomain (LoadFromNetmap nm d) = tailnet_domain nm"
  by (auto simp: LoadFromNetmap_def Let_def load_hosts Clear_def SetTailnetDomain_def tailnet_domain_def split: list.splits)

text \<open>Which peer a name stands for: its bare host name, or its host name in the tailnet's domain.\<close>

definition is_host :: "string \<Rightarrow> string \<Rightarrow> string \<Rightarrow> bool" where
  "is_host domain name h \<longleftrightarrow> h \<noteq> [] \<and> (domain \<noteq> [] \<and> name = h @ ''.'' @ domain \<or> CHR ''.'' \<notin> set name \<and> name = h)"

definition tailnet_addr :: "tsnetmap \<Rightarrow> string \<Rightarrow> u32 option" where
  "tailnet_addr nm name =
     first_some (\<lambda>p. if is_host (tailnet_domain nm) name (to_lower (c_str (n_hostname p)))
                     then parse_ipv4 (Some (first_ipv4 (n_allowedIPs p))) else None) (fPeers nm)"

lemma LocalName_host: "LocalName d name = h \<and> h \<noteq> [] \<longleftrightarrow> is_host (fDomain d) name h"
proof -
  let ?suf = "''.'' @ fDomain d"
  have ends: "length ?suf \<le> length name \<and> drop (length name - length ?suf) name = ?suf
      \<longleftrightarrow> name = take (length name - length ?suf) name @ ?suf"
  proof
    assume "length ?suf \<le> length name \<and> drop (length name - length ?suf) name = ?suf"
    then show "name = take (length name - length ?suf) name @ ?suf" by (metis append_take_drop_id)
  next
    assume a: "name = take (length name - length ?suf) name @ ?suf"
    then have "length ?suf \<le> length name" by (metis length_append le_add2)
    then show "length ?suf \<le> length name \<and> drop (length name - length ?suf) name = ?suf"
      using a by (metis append_eq_conv_conj length_take min.absorb2 diff_le_self)
  qed
  show ?thesis
  proof (cases "fDomain d \<noteq> [] \<and> name = take (length name - length ?suf) name @ ?suf")
    case True
    then have dot: "CHR ''.'' \<in> set name" by (metis append_Cons in_set_conv_decomp)
    have "LocalName d name = take (length name - length ?suf) name"
      using True ends by (simp add: LocalName_def Let_def)
    moreover have "name = h @ ?suf \<longleftrightarrow> h = take (length name - length ?suf) name"
      using True by (metis append_same_eq)
    ultimately show ?thesis using True dot by (auto simp: is_host_def)
  next
    case False
    then have "LocalName d name = (if CHR ''.'' \<notin> set name then name else [])"
      using ends by (auto simp: LocalName_def Let_def)
    moreover have "\<not> (fDomain d \<noteq> [] \<and> name = h @ ?suf)" using False by auto
    ultimately show ?thesis by (auto simp: is_host_def)
  qed
qed

lemma dns_name_no_nul:
  assumes "\<forall>l \<in> set ls. label_ok l"
  shows "c_str (dns_name ls) = dns_name ls"
proof -
  have low: "code (tolower (chr_of_byte b)) \<noteq> 0" if "b \<noteq> 0" for b
  proof -
    have "code (chr_of_byte b) = unat b" using unsigned_less [of b, where ?'a = nat] by (simp add: chr_of_byte_def)
    then have "code (chr_of_byte b) \<noteq> 0" using that by (metis unat_0 word_unat_eq_iff)
    then show ?thesis by (simp add: tolower_def isupper_def)
  qed
  have "\<forall>c \<in> set (dot_name name ls). code c \<noteq> 0" if "\<forall>c \<in> set name. code c \<noteq> 0" "\<forall>l \<in> set ls. label_ok l" for name
    using that
  proof (induction ls arbitrary: name)
    case (Cons l ls)
    have "0 \<notin> set l" using Cons.prems(2) by (simp add: label_ok_def)
    then have "\<forall>b \<in> set l. b \<noteq> 0" by auto
    then have "\<forall>c \<in> set (lower_label l). code c \<noteq> 0" using low by (simp add: lower_label_def)
    then have "\<forall>c \<in> set ((if name \<noteq> [] then name @ ''.'' else name) @ lower_label l). code c \<noteq> 0"
      using Cons.prems(1) by auto
    from Cons.IH [OF this] show ?case using Cons.prems(2) by simp
  qed simp
  from this [of "[]"] have "\<forall>c \<in> set (dns_name ls). code c \<noteq> 0" using assms by (simp add: dns_name_def)
  then show ?thesis by (simp add: c_str_def takeWhile_eq_all_conv)
qed

subsection \<open>Resolution\<close>

text \<open>The response: the header, the question as it came, and one address record.\<close>

definition dns_reply :: "bytes \<Rightarrow> bytes list \<Rightarrow> u16 \<Rightarrow> u32 \<Rightarrow> bytes" where
  "dns_reply hdr ls cls a =
     [hdr ! 0, hdr ! 1, 0x84 OR (hdr ! 2 AND 1), 0, 0, 1, 0, 1, 0, 0, 0, 0] @ qname ls @ be16 1 @ be16 cls
     @ [0xC0, 0x0C, 0, 1, 0, 1, 0, 0, 1, 0x2C, 0, 4]
     @ [ucast (drop_bit 24 a), ucast (drop_bit 16 a), ucast (drop_bit 8 a), ucast a]"

definition addressed :: "tsnetmap \<Rightarrow> bool" where
  "addressed nm \<longleftrightarrow> (\<forall>p \<in> set (fPeers nm). first_ipv4 (n_allowedIPs p) = [] \<or> (\<exists>a. first_ipv4 (n_allowedIPs p) = dotted a))"

lemma c_str_dotted [simp]: "c_str (dotted a) = dotted a"
  using fmt_ipv4_no_nul by (auto simp: dotted_def c_str_def takeWhile_eq_all_conv list_all_iff)

lemma c_str_lower: "c_str (to_lower (c_str s)) = to_lower (c_str s)"
proof -
  have "code (tolower c) \<noteq> 0" if "code c \<noteq> 0" for c using that by (simp add: tolower_def isupper_def)
  moreover have "\<forall>c \<in> set (c_str s). code c \<noteq> 0" by (auto simp: c_str_def dest: set_takeWhileD)
  ultimately have "\<forall>c \<in> set (to_lower (c_str s)). code c \<noteq> 0" by (auto simp: to_lower_def)
  then show ?thesis unfolding c_str_def [of "to_lower (c_str s)"] by (simp only: takeWhile_eq_all_conv)
qed

lemma parse_ipv4_Nil: "parse_ipv4 (Some []) = None"
  by (simp add: parse_ipv4_def sscanf_ipv4_def scan_u_def)

text \<open>The search in the table finds the address of the first peer the name stands for.\<close>

lemma table_search:
  assumes "addressed nm" "host \<noteq> []" "c_str host = host" "\<And>h. is_host (tailnet_domain nm) name h \<longleftrightarrow> h = host"
  shows "map_option snd (find (\<lambda>h. c_str (fst h) = c_str host) (concat (map listed_host (fPeers nm))))
    = map_option dotted (tailnet_addr nm name)"
proof -
  have "map_option snd (find (\<lambda>h. c_str (fst h) = c_str host) (concat (map listed_host ps)))
     = map_option dotted (first_some (\<lambda>p. if is_host (tailnet_domain nm) name (to_lower (c_str (n_hostname p)))
                     then parse_ipv4 (Some (first_ipv4 (n_allowedIPs p))) else None) ps)"
    if "\<forall>p \<in> set ps. first_ipv4 (n_allowedIPs p) = [] \<or> (\<exists>a. first_ipv4 (n_allowedIPs p) = dotted a)" for ps
    using that
  proof (induction ps)
    case (Cons p ps)
    have l: "c_str (to_lower (c_str (n_hostname p))) = to_lower (c_str (n_hostname p))" by (rule c_str_lower)
    have n: "n_hostname p = [] \<Longrightarrow> to_lower (c_str (n_hostname p)) \<noteq> host" using assms(2) by (simp add: c_str_def to_lower_def)
    consider "first_ipv4 (n_allowedIPs p) = []" | a where "first_ipv4 (n_allowedIPs p) = dotted a" "dotted a \<noteq> []"
      using Cons.prems by (auto simp: dotted_def fmt_ipv4_def)
    then show ?case
      using Cons.IH Cons.prems assms(3,4) l n
      by cases (auto simp: listed_host_def parse_ipv4_Nil)
  qed simp
  then show ?thesis using assms(1) by (simp add: addressed_def tailnet_addr_def)
qed

lemma ucast_low_byte: "(ucast (x AND 0xFF) :: u8) = ucast (x :: u32)"
proof (rule bit_word_eqI)
  fix n assume "n < LENGTH(8)"
  moreover have m: "(0xFF :: u32) = mask 8" by (simp add: mask_eq_exp_minus_1)
  ultimately show "bit (ucast (x AND 0xFF) :: u8) n = bit (ucast x :: u8) n" unfolding m by (simp add: bit_simps)
qed

lemma dns_answer_dotted:
  "dns_answer (drop_bit 24 a AND 0xFF, drop_bit 16 a AND 0xFF, drop_bit 8 a AND 0xFF, a AND 0xFF)
     = [0xC0, 0x0C, 0, 1, 0, 1, 0, 0, 1, 0x2C, 0, 4]
       @ [ucast (drop_bit 24 a), ucast (drop_bit 16 a), ucast (drop_bit 8 a), ucast a]"
  by (simp add: dns_answer_def ucast_low_byte kTypeA_def kClassIN_def)

lemma question_slice:
  assumes "length hdr = 12"
  shows "slice 12 (4 + length (qname ls)) (question hdr ls ty cls rest) = qname ls @ be16 ty @ be16 cls"
  using assms by (simp add: question_def slice_def)

lemma first_some_None: "(\<And>x. x \<in> set xs \<Longrightarrow> f x = None) \<Longrightarrow> first_some f xs = None"
  by (induction xs) auto

text \<open>
  For every well-formed question (any header with a question count, any name of labels of 1
  to 63 bytes, any type and class, anything behind) and a netmap whose peers have IPv4
  addresses, \<open>Resolve\<close> with the table loaded from the netmap answers exactly when the question
  asks for an A record of a name that is, ignoring case, the host name of a peer or that host
  name in the tailnet's domain; the answer repeats id, recursion bit and question and carries
  the address of the first such peer.  All other questions are reported as not ours.
\<close>

theorem magic_dns_resolves:
  assumes "question_ok hdr ls" "addressed nm" "domains (fDns nm) \<noteq> [] \<or> fDomain d = []"
    "cap \<ge> 32 + length (qname ls)"
  shows "Resolve (LoadFromNetmap nm d) (Some (question hdr ls ty cls rest)) cap =
     (case if ty = kTypeA then tailnet_addr nm (dns_name ls) else None of
        None \<Rightarrow> NotOurs | Some a \<Rightarrow> Answer (dns_reply hdr ls cls a))"
proof (cases "ty = kTypeA")
  case False
  then show ?thesis by (simp add: Resolve_def parse_question [OF assms(1)])
next
  case True
  let ?d = "LoadFromNetmap nm d" and ?q = "question hdr ls ty cls rest" and ?n = "dns_name ls"
  have h: "length hdr = 12" and ok: "\<forall>l \<in> set ls. label_ok l" using assms(1) by (simp_all add: question_ok_def)
  have dom: "fDomain ?d = tailnet_domain nm" by (rule LoadFromNetmap_table(2) [OF assms(3)])
  have host: "is_host (tailnet_domain nm) ?n h \<longleftrightarrow> LocalName ?d ?n = h \<and> h \<noteq> []" for h
    using LocalName_host [of ?d ?n h] dom by simp
  show ?thesis
  proof (cases "LocalName ?d ?n = []")
    case empty: True
    then have "tailnet_addr nm ?n = None" unfolding tailnet_addr_def by (intro first_some_None) (auto simp: host)
    then show ?thesis using True empty by (simp add: Resolve_def parse_question [OF assms(1)])
  next
    case ne: False
    have "is_host (tailnet_domain nm) ?n (LocalName ?d ?n)" using ne host by simp
    then have "set (LocalName ?d ?n) \<subseteq> set ?n" by (auto simp: is_host_def) (metis UnCI set_append)
    moreover have "\<forall>c \<in> set ?n. code c \<noteq> 0" using dns_name_no_nul [OF ok] by (metis c_str_def set_takeWhileD)
    ultimately have "c_str (LocalName ?d ?n) = LocalName ?d ?n" by (auto simp: c_str_def takeWhile_eq_all_conv)
    moreover have "is_host (tailnet_domain nm) ?n h \<longleftrightarrow> h = LocalName ?d ?n" for h using host ne by auto
    ultimately have f: "map_option snd (find (\<lambda>h. c_str (fst h) = c_str (LocalName ?d ?n)) (fHosts ?d)) = map_option dotted (tailnet_addr nm ?n)"
      using table_search [OF assms(2) ne] unfolding LoadFromNetmap_table(1) by blast
    show ?thesis
    proof (cases "tailnet_addr nm ?n")
      case None
      then show ?thesis using f True ne by (simp add: Resolve_def parse_question [OF assms(1)])
    next
      case (Some a)
      then obtain x where "find (\<lambda>h. c_str (fst h) = c_str (LocalName ?d ?n)) (fHosts ?d) = Some (x, dotted a)"
        using f by auto
      moreover have "?q ! 0 = hdr ! 0" "?q ! 1 = hdr ! 1" "?q ! 2 = hdr ! 2" using h by (simp_all add: question_def nth_append)
      ultimately show ?thesis
        using Some True ne assms(4) question_slice [OF h, of ls ty cls rest]
        by (simp add: Resolve_def parse_question [OF assms(1)] sscanf_dotted kDnsHeaderLen_def decode_question [OF assms(1)]
            dns_answer_dotted dns_reply_def kTypeA_def)
    qed
  qed
qed

lemma first_ipv4_dotted: "first_ipv4 ((dotted a @ ''/'' @ p) # cs) = dotted a" if "CHR '':'' \<notin> set p"
proof -
  have "CHR '':'' \<notin> set (dotted a)" "CHR ''/'' \<notin> set (dotted a)" using numeric_notin [of "dotted a"] by auto
  moreover have "dotted a \<noteq> []" by (simp add: dotted_def fmt_ipv4_def)
  ultimately show ?thesis
    using that find_first_append_notin [of "CHR ''/''" "dotted a" p] by simp
qed

subsection \<open>Queries\<close>

fun join_dots :: "string list \<Rightarrow> string" where
  "join_dots [] = []"
| "join_dots [l] = l"
| "join_dots (l # ls) = l @ ''.'' @ join_dots ls"

definition host_label :: "string \<Rightarrow> bool" where
  "host_label l \<longleftrightarrow> 0 < length l \<and> length l \<le> 63 \<and> CHR ''.'' \<notin> set l \<and> (\<forall>c \<in> set l. code c \<noteq> 0)"

definition wire_label :: "string \<Rightarrow> bytes" where
  "wire_label l = map byte_of_chr l"

lemma length_wire_label [simp]: "length (wire_label l) = length l"
  by (simp add: wire_label_def)

lemma encode_loop_labels:
  "\<forall>l \<in> set ls. host_label l \<Longrightarrow> length out + length (qname (map wire_label ls)) \<le> cap \<Longrightarrow>
   encode_loop (join_dots ls) out cap = Some (out @ qname (map wire_label ls))"
proof (induction ls arbitrary: out rule: join_dots.induct)
  case 1
  show ?case by (simp add: encode_loop.simps qname_def)
next
  case (2 l)
  then have "l \<noteq> []" "length l \<le> 63" "CHR ''.'' \<notin> set l" by (auto simp: host_label_def)
  moreover have "length out + 1 + length l + 1 \<le> cap" using "2.prems"(2) by (simp add: qname_def wire_label_def)
  moreover have "find_first (CHR ''.'') l = None" using calculation by simp
  ultimately show ?case
    by (simp add: encode_loop.simps [of l] encode_loop.simps [of "[]"] qname_def wire_label_def Let_def del: find_first_None)
next
  case (3 l l' ls)
  then have l: "l \<noteq> []" "length l \<le> 63" "CHR ''.'' \<notin> set l" by (auto simp: host_label_def)
  let ?p = "l @ ''.'' @ join_dots (l' # ls)"
  have f: "find_first (CHR ''.'') ?p = Some (length l)" using find_first_append_notin [OF l(3)] by simp
  have c: "length out + 1 + length l + 1 \<le> cap" using "3.prems"(2) by (simp add: qname_def wire_label_def)
  have "encode_loop ?p out cap = encode_loop (join_dots (l' # ls)) (out @ [of_nat (length l)] @ wire_label l) cap"
    using l c f by (subst encode_loop.simps) (simp add: wire_label_def)
  also have "\<dots> = Some ((out @ [of_nat (length l)] @ wire_label l) @ qname (map wire_label (l' # ls)))"
    using "3.prems" by (intro "3.IH") (simp_all add: qname_def wire_label_def)
  finally show ?case by (simp add: qname_def)
qed

text \<open>What \<open>DnsBuildQuery\<close> builds is a question for the name.\<close>

lemma build_query_question:
  assumes "\<forall>l \<in> set ls. host_label l" "c_str (join_dots ls) = join_dots ls" "cap \<ge> 17 + length (qname (map wire_label ls))"
  shows "DnsBuildQuery (join_dots ls) ident cap =
    Some (question (be16 ident @ [1, 0, 0, 1, 0, 0, 0, 0, 0, 0]) (map wire_label ls) kTypeA kClassIN [])"
  using encode_loop_labels [OF assms(1), of "[]" "cap - kDnsHeaderLen - 4"] assms(2,3)
  by (simp add: DnsBuildQuery_def encode_qname_def kDnsHeaderLen_def question_def be16_def)

definition dns_sample :: tsnetmap where
  "dns_sample = TSNetmap\<lparr> fPeers := [NetmapPeer\<lparr> n_hostname := ''NAS'', n_allowedIPs := [dotted 0x64400002 @ ''/'' @ ''32''] \<rparr>],
     fDns := \<lparr> resolvers = [], domains = [''tail1.ts.net''] \<rparr> \<rparr>"

theorem magic_dns_resolves_witness:
  "\<exists>q. DnsBuildQuery ''nas'' 7 512 = Some q \<and>
     Resolve (LoadFromNetmap dns_sample \<lparr> fDomain = [], fHosts = [] \<rparr>) (Some q) 512
       = Answer ([0, 7, 0x85, 0, 0, 1, 0, 1, 0, 0, 0, 0, 3, 0x6E, 0x61, 0x73, 0, 0, 1, 0, 1]
                 @ [0xC0, 0x0C, 0, 1, 0, 1, 0, 0, 1, 0x2C, 0, 4, 100, 64, 0, 2])"
proof -
  let ?hdr = "be16 7 @ [1, 0, 0, 1, 0, 0, 0, 0, 0, 0]"
  have w: "map wire_label [''nas''] = [[0x6E, 0x61, 0x73]]" by code_simp
  have b: "DnsBuildQuery ''nas'' 7 512 = Some (question ?hdr [[0x6E, 0x61, 0x73]] kTypeA kClassIN [])"
    using build_query_question [of "[''nas'']" 512 7] unfolding w by (simp add: host_label_def c_str_def qname_def)
  have q: "question_ok ?hdr [[0x6E, 0x61, 0x73]]"
    by (simp add: question_ok_def label_ok_def get16_def be16_def)
  have f: "first_ipv4 [dotted 0x64400002 @ ''/'' @ ''32''] = dotted 0x64400002" by (rule first_ipv4_dotted) simp
  have n: "dns_name [[0x6E, 0x61, 0x73]] = ''nas''" "to_lower (c_str ''NAS'') = ''nas''" by code_simp+
  have a: "addressed dns_sample" using f by (auto simp: addressed_def dns_sample_def)
  have "tailnet_addr dns_sample ''nas'' = Some 0x64400002"
    using f n(2) by (simp add: tailnet_addr_def dns_sample_def is_host_def)
  then show ?thesis
    using magic_dns_resolves [OF q a, of "\<lparr> fDomain = [], fHosts = [] \<rparr>" 512 kTypeA kClassIN "[]"] b n(1)
    by (simp add: dns_reply_def be16_def qname_def kClassIN_def)
qed

end
