(* ===== verification/SessionState.thy ===== *)
theory SessionState
  imports PeerSet MagicDns
begin

text \<open>
  \<open>ts::SessionState\<close> (\<open>src/src/backend/tailscale/TSSessionState.cpp\<close>): the network map and what
  is derived from it, the peer set, the host table of MagicDNS and the node's own address.

  \<open>in_sync\<close> says that the derived parts follow the network map; every message keeps it, and a
  peer that stays keeps its tunnel.  The undefined behaviour of \<open>TSPeerSet::Update\<close> and of the
  number conversions in \<open>TSNetmap::Parse\<close> is the result \<open>None\<close>.
\<close>

record session_state =
  fNetmap :: tsnetmap
  fSessionPeers :: peer_set
  fMagicDns :: magic_dns
  fSelfIP :: string

definition SessionState :: session_state where
  "SessionState = \<lparr> fNetmap = TSNetmap, fSessionPeers = [], fMagicDns = \<lparr> fDomain = [], fHosts = [] \<rparr>, fSelfIP = [] \<rparr>"

text \<open>The answer, the numbers of added, removed and updated peers (if written), and the new state.\<close>

definition ApplyMapResponse :: "session_state \<Rightarrow> string \<Rightarrow> (bool \<times> (int \<times> int \<times> int) option \<times> session_state) option" where
  "ApplyMapResponse s json =
     (case Parse (fNetmap s) json of None \<Rightarrow> None
      | Some (ok, nm) \<Rightarrow>
          let s = s\<lparr> fNetmap := nm \<rparr> in
          if \<not> ok then Some (False, None, s)
          else (case Update (fSessionPeers s) (fPeers nm) of None \<Rightarrow> None
           | Some (ps, added, removed, updated) \<Rightarrow>
               Some (True, Some (added, removed, updated),
                 s\<lparr> fSessionPeers := ps, fMagicDns := LoadFromNetmap nm (fMagicDns s), fSelfIP := SelfIPv4 nm \<rparr>)))"

subsection \<open>The derived state follows the map\<close>

definition mirrors :: "netmap_peer \<Rightarrow> managed_peer \<Rightarrow> bool" where
  "mirrors np p \<longleftrightarrow> n_nodeKey np = nodeKeyHex p \<and> m_discoKey p = n_discoKey np \<and> m_hostname p = n_hostname np
     \<and> m_online p = n_online np \<and> m_derpRegion p = n_derpRegion np \<and> m_allowedIPs p = n_allowedIPs np
     \<and> m_endpoints p = n_endpoints np"

definition same_tunnel :: "managed_peer \<Rightarrow> managed_peer \<Rightarrow> bool" where
  "same_tunnel p p' \<longleftrightarrow> nodeKeyHex p' = nodeKeyHex p \<and> wg p' = wg p \<and> lastHandshake p' = lastHandshake p
     \<and> lastDiscoPing p' = lastDiscoPing p \<and> (path p' = path p \<or> path p' = UseDerp (path p))"

definition in_sync :: "session_state \<Rightarrow> bool" where
  "in_sync s \<longleftrightarrow> distinct (keys (fSessionPeers s)) \<and> set (keys (fSessionPeers s)) = set (map_keys (fPeers (fNetmap s)))
     \<and> (\<forall>p \<in> set (fSessionPeers s). \<exists>np \<in> set (fPeers (fNetmap s)). mirrors np p)
     \<and> fHosts (fMagicDns s) = concat (map listed_host (fPeers (fNetmap s)))
     \<and> (domains (fDns (fNetmap s)) \<noteq> [] \<longrightarrow> fDomain (fMagicDns s) = tailnet_domain (fNetmap s))
     \<and> fSelfIP s = SelfIPv4 (fNetmap s)"

lemma UseDerp_idem [simp]: "UseDerp (UseDerp p) = UseDerp p"
  by (simp add: UseDerp_def)

lemma same_tunnel_refresh: "same_tunnel p q \<Longrightarrow> same_tunnel p (refresh np q)"
  by (auto simp: same_tunnel_def refresh_def Let_def)

lemma mirrors_refresh: "nodeKeyHex p = n_nodeKey np \<Longrightarrow> mirrors np (refresh np p)"
  by (auto simp: mirrors_def refresh_def Let_def)

lemma mirrors_new: "mirrors np (new_peer np)"
  by (auto simp: mirrors_def new_peer_def Let_def split: option.split)

lemma erase_unseen_iff: "length seen \<le> length ps \<Longrightarrow>
   p \<in> set (erase_unseen ps seen) \<longleftrightarrow> (\<exists>i<length ps. ps ! i = p \<and> (i < length seen \<longrightarrow> seen ! i))"
proof (induction ps seen rule: erase_unseen.induct)
  case (1 q ps s seen)
  then show ?case by (auto simp: Ex_less_Suc2)
qed (auto simp: in_set_conv_nth)

text \<open>
  The loop of \<open>Update\<close>, after the entries \<open>done\<close> of the map: what would be kept has their keys
  and mirrors them, and the old peers are still in their places with their tunnels.
\<close>

definition loop_inv :: "peer_set \<Rightarrow> netmap_peer list \<Rightarrow> peer_set \<Rightarrow> bool list \<Rightarrow> bool" where
  "loop_inv ps0 nps ps seen \<longleftrightarrow> distinct (keys ps) \<and> length seen = length ps0 \<and> length ps0 \<le> length ps
     \<and> (\<forall>i<length ps0. same_tunnel (ps0 ! i) (ps ! i))
     \<and> (\<forall>i<length ps. length ps0 \<le> i \<longrightarrow> fMode (path (ps ! i)) \<noteq> PATH_DIRECT)
     \<and> set (keys (erase_unseen ps seen)) = set (map_keys nps)
     \<and> (\<forall>p \<in> set (erase_unseen ps seen). \<exists>np \<in> set nps. mirrors np p)"

lemma map_keys_append [simp]: "map_keys (xs @ ys) = map_keys xs @ map_keys ys"
  by (simp add: map_keys_def)

lemma set_keys: "set (keys ps) = nodeKeyHex ` set ps"
  by (simp add: keys_def)

lemma loop_inv_known:
  assumes "loop_inv ps0 nps ps seen" "n_nodeKey np \<noteq> []" "IndexOf ps (n_nodeKey np) = Some i" "i < length seen"
  shows "loop_inv ps0 (nps @ [np]) (ps[i := refresh np (ps ! i)]) (seen[i := True])"
proof -
  let ?ps = "ps[i := refresh np (ps ! i)]" and ?seen = "seen[i := True]"
  have i: "i < length ps" "nodeKeyHex (ps ! i) = n_nodeKey np" using IndexOf_Some [OF assms(3)] by auto
  have len: "length seen \<le> length ps" "length ?seen \<le> length ?ps" using assms(1) by (simp_all add: loop_inv_def)
  have sub: "p \<in> set (erase_unseen ?ps ?seen) \<Longrightarrow> p = refresh np (ps ! i) \<or> p \<in> set (erase_unseen ps seen)" for p
    unfolding erase_unseen_iff [OF len(1)] erase_unseen_iff [OF len(2)]
    by (elim exE conjE) (metis length_list_update nth_list_update_eq nth_list_update_neq)
  have sup: "p \<in> set (erase_unseen ps seen) \<Longrightarrow> p = ps ! i \<or> p \<in> set (erase_unseen ?ps ?seen)" for p
    unfolding erase_unseen_iff [OF len(1)] erase_unseen_iff [OF len(2)]
    by (elim exE conjE) (metis length_list_update nth_list_update_eq nth_list_update_neq)
  have new: "refresh np (ps ! i) \<in> set (erase_unseen ?ps ?seen)"
    unfolding erase_unseen_iff [OF len(2)] using i assms(4) by auto
  have "set (keys (erase_unseen ?ps ?seen)) = set (map_keys (nps @ [np]))"
  proof -
    have "nodeKeyHex ` set (erase_unseen ?ps ?seen) = insert (n_nodeKey np) (nodeKeyHex ` set (erase_unseen ps seen))"
      using sub sup new i(2) by (auto simp: image_iff) (metis refresh_key)+
    then show ?thesis using assms(1,2) by (auto simp: loop_inv_def set_keys map_keys_def)
  qed
  moreover have "\<forall>p \<in> set (erase_unseen ?ps ?seen). \<exists>np' \<in> set (nps @ [np]). mirrors np' p"
    using sub assms(1) mirrors_refresh [OF i(2)] by (fastforce simp: loop_inv_def)
  moreover have "\<forall>j<length ps0. same_tunnel (ps0 ! j) (?ps ! j)"
    using assms(1) by (auto simp: loop_inv_def nth_list_update [OF i(1)] same_tunnel_refresh)
  ultimately show ?thesis using assms(1,4) by (auto simp: loop_inv_def keys_refresh nth_list_update [OF i(1)])
qed

lemma erase_unseen_append: "length seen \<le> length ps \<Longrightarrow> erase_unseen (ps @ qs) seen = erase_unseen ps seen @ qs"
proof (induction seen arbitrary: ps)
  case Nil
  have "erase_unseen rs [] = rs" for rs by (cases rs) simp_all
  then show ?case by simp
next
  case (Cons s seen)
  then show ?case by (cases ps) auto
qed

lemma new_peer_relayed: "fMode (path (new_peer np)) \<noteq> PATH_DIRECT"
  by (auto simp: new_peer_def ManagedPeer_def PeerPath_def UseDerp_def Let_def split: option.split)

lemma loop_inv_new:
  assumes "loop_inv ps0 nps ps seen" "n_nodeKey np \<noteq> []" "IndexOf ps (n_nodeKey np) = None"
  shows "loop_inv ps0 (nps @ [np]) (ps @ [new_peer np]) seen"
  using assms mirrors_new [of np] new_peer_relayed [of np]
  by (auto simp: loop_inv_def erase_unseen_append IndexOf_None nth_append map_keys_def)

lemma update_loop_inv:
  assumes "update_loop nps ps seen a u = Some (ps', seen', a', u')" "loop_inv ps0 nps0 ps seen"
  shows "loop_inv ps0 (nps0 @ nps) ps' seen'"
  using assms
proof (induction nps arbitrary: nps0 ps seen a u)
  case (Cons np nps)
  show ?case
  proof (cases "n_nodeKey np = []")
    case True
    then have "loop_inv ps0 (nps0 @ [np]) ps seen" using Cons.prems(2) by (auto simp: loop_inv_def map_keys_def)
    then show ?thesis using Cons.IH [of ps seen a u "nps0 @ [np]"] Cons.prems(1) True by simp
  next
    case False
    then show ?thesis
      using Cons.IH [of _ _ _ _ "nps0 @ [np]"] Cons.prems loop_inv_known [of ps0 nps0 ps seen np] loop_inv_new [of ps0 nps0 ps seen np]
      by (auto split: option.splits if_splits)
  qed
qed simp

lemma loop_inv_start: "distinct (keys ps) \<Longrightarrow> loop_inv ps [] ps (replicate (length ps) False)"
proof -
  have "erase_unseen ps (replicate (length ps) False) = []" by (induction ps) auto
  then show "distinct (keys ps) \<Longrightarrow> loop_inv ps [] ps (replicate (length ps) False)"
    by (simp add: loop_inv_def map_keys_def same_tunnel_def)
qed

lemma Update_sync:
  assumes "Update ps nps = Some (ps', added, removed, updated)" "distinct (keys ps)"
  shows "distinct (keys ps') \<and> set (keys ps') = set (map_keys nps) \<and> (\<forall>p \<in> set ps'. \<exists>np \<in> set nps. mirrors np p)
     \<and> (\<forall>p \<in> set ps. \<forall>p' \<in> set ps'. nodeKeyHex p' = nodeKeyHex p \<longrightarrow> same_tunnel p p')
     \<and> (\<forall>p' \<in> set ps'. nodeKeyHex p' \<in> set (keys ps) \<or> fMode (path p') \<noteq> PATH_DIRECT)"
proof -
  obtain qs seen a u where l: "update_loop nps ps (replicate (length ps) False) 0 0 = Some (qs, seen, a, u)" "ps' = erase_unseen qs seen"
    using assms(1) by (auto simp: Update_def Let_def split: option.splits)
  have inv: "loop_inv ps nps qs seen" using update_loop_inv [OF l(1) loop_inv_start [OF assms(2)]] by simp
  then have d: "distinct (keys qs)" "length seen = length ps" "length ps \<le> length qs" "\<And>i. i < length ps \<Longrightarrow> same_tunnel (ps ! i) (qs ! i)"
    by (simp_all add: loop_inv_def)
  have mem: "p \<in> set ps' \<Longrightarrow> \<exists>i<length qs. qs ! i = p" for p
    using erase_unseen_iff [of seen qs p] d(2,3) l(2) by auto
  have "same_tunnel p p'" if p: "p \<in> set ps" "p' \<in> set ps'" "nodeKeyHex p' = nodeKeyHex p" for p p'
  proof -
    obtain i where i: "i < length ps" "p = ps ! i" using p(1) by (auto simp: in_set_conv_nth)
    obtain j where j: "j < length qs" "p' = qs ! j" using mem [OF p(2)] by auto
    have "keys qs ! i = keys qs ! j" using d(3,4) i j p(3) by (simp add: same_tunnel_def)
    then have "i = j" using nth_eq_iff_index_eq [OF d(1)] d(3) i(1) j(1) by (simp add: keys_def)
    then show ?thesis using d(4) i j by simp
  qed
  moreover have "nodeKeyHex p' \<in> set (keys ps) \<or> fMode (path p') \<noteq> PATH_DIRECT" if r: "p' \<in> set ps'" for p'
  proof -
    obtain j where j: "j < length qs" "p' = qs ! j" using mem [OF r] by auto
    then show ?thesis using inv d(4) [of j] by (cases "j < length ps") (auto simp: loop_inv_def same_tunnel_def set_keys)
  qed
  moreover have "distinct (keys (erase_unseen qs seen))"
  proof -
    have "distinct (keys ys) \<Longrightarrow> distinct (keys (erase_unseen ys ss)) \<and> set (keys (erase_unseen ys ss)) \<subseteq> set (keys ys)" for ys ss
      by (induction ys ss rule: erase_unseen.induct) auto
    then show ?thesis using d(1) by blast
  qed
  ultimately show ?thesis using inv l(2) by (auto simp: loop_inv_def)
qed

lemma in_sync_SessionState: "in_sync SessionState"
  by (simp add: in_sync_def SessionState_def TSNetmap_def map_keys_def keys_def SelfIPv4_def)

lemma Parse_rejects: "Parse nm json = Some (False, nm') \<Longrightarrow> nm' = nm"
  by (auto simp: Parse_def Let_def split: option.splits if_splits bind_splits)

lemma LoadFromNetmap_domain: "domains (fDns nm) \<noteq> [] \<Longrightarrow> fDomain (LoadFromNetmap nm d) = tailnet_domain nm"
  using LoadFromNetmap_table(2) by blast

lemma ApplyMapResponse_sync:
  assumes "ApplyMapResponse s json = Some (ok, counts, s')" "in_sync s"
  shows "in_sync s' \<and> (\<not> ok \<longrightarrow> s' = s)
     \<and> (\<forall>p \<in> set (fSessionPeers s). \<forall>p' \<in> set (fSessionPeers s'). nodeKeyHex p' = nodeKeyHex p \<longrightarrow> same_tunnel p p')
     \<and> (\<forall>p' \<in> set (fSessionPeers s'). nodeKeyHex p' \<in> set (keys (fSessionPeers s)) \<or> fMode (path p') \<noteq> PATH_DIRECT)"
proof -
  obtain ok' nm where p: "Parse (fNetmap s) json = Some (ok', nm)" using assms(1) by (auto simp: ApplyMapResponse_def split: option.splits)
  show ?thesis
  proof (cases ok')
    case False
    then have "\<not> ok" "s' = s" using assms(1) p Parse_rejects [of "fNetmap s" json nm] by (auto simp: ApplyMapResponse_def)
    moreover have "p' = p" if "p \<in> set (fSessionPeers s)" "p' \<in> set (fSessionPeers s)" "nodeKeyHex p' = nodeKeyHex p" for p p'
      using assms(2) that by (auto simp: in_sync_def keys_def distinct_map inj_on_def)
    ultimately show ?thesis using assms(2) by (auto simp: same_tunnel_def set_keys)
  next
    case True
    obtain ps a r u where up: "Update (fSessionPeers s) (fPeers nm) = Some (ps, a, r, u)"
      "s' = s\<lparr> fNetmap := nm, fSessionPeers := ps, fMagicDns := LoadFromNetmap nm (fMagicDns s), fSelfIP := SelfIPv4 nm \<rparr>" "ok"
      using assms(1) p True by (auto simp: ApplyMapResponse_def Let_def split: option.splits)
    note u = Update_sync [OF up(1)]
    have d: "distinct (keys (fSessionPeers s))" using assms(2) by (simp add: in_sync_def)
    show ?thesis using u [OF d] up(2,3) by (simp add: in_sync_def LoadFromNetmap_table(1) LoadFromNetmap_domain)
  qed
qed

end
