(* ===== verification/DataPlane.thy ===== *)
theory DataPlane
  imports SessionState Derp MagicSock Handshake
begin

text \<open>
  The packet data plane of \<open>TailscaleBackend\<close> (\<open>src/src/backend/tailscale/TailscaleBackend.cpp\<close>):
  packets from the tunnel device are encrypted for the peer that owns their destination and
  sent on its direct path or over the relay; datagrams from the shared socket and packets
  from the relay are demultiplexed, answered, decrypted and written to the tunnel.

  The handlers run under the session lock, so each is one step on the state.  The clock, the
  random numbers and the generated keys are arguments; what a handler does to the outside is a
  list of effects: datagrams sent, packets handed to the relay client (with the status that
  \<open>DerpClient::SendPacket\<close> returned) and packets written to the tunnel.  System time does not advance
  inside a handler.
\<close>

subsection \<open>Addresses\<close>

text \<open>\<open>inet_pton(AF_INET, s)\<close>: exactly four decimal octets without leading zeros.\<close>

definition inet_octet :: "string \<Rightarrow> bool" where
  "inet_octet s \<longleftrightarrow> s \<noteq> [] \<and> list_all isdigit s \<and> (length s > 1 \<longrightarrow> hd s \<noteq> CHR ''0'') \<and> dec_value s \<le> 255"

definition inet_pton :: "string \<Rightarrow> u32 option" where
  "inet_pton s =
     (case split_on (CHR ''.'') s of
        [a, b, c, d] \<Rightarrow>
          if list_all inet_octet [a, b, c, d]
          then Some (push_bit 24 (of_nat (dec_value a)) OR push_bit 16 (of_nat (dec_value b))
                     OR push_bit 8 (of_nat (dec_value c)) OR of_nat (dec_value d))
          else None
      | _ \<Rightarrow> None)"

text \<open>The host part and the number behind the last colon of an endpoint.\<close>

definition split_endpoint :: "string \<Rightarrow> (string \<times> int) option" where
  "split_endpoint ep =
     (case find_last (CHR '':'') ep of None \<Rightarrow> None
      | Some colon \<Rightarrow> Some (take colon ep, atoi (drop (colon + 1) ep)))"

definition peer_sockaddr :: "managed_peer \<Rightarrow> (u32 \<times> u16) option" where
  "peer_sockaddr p =
     (if fMode (path p) \<noteq> PATH_DIRECT \<or> fEndpoint (path p) = [] then None
      else case split_endpoint (fEndpoint (path p)) of None \<Rightarrow> None
      | Some (host, port) \<Rightarrow>
          if port \<le> 0 then None
          else case inet_pton (c_str host) of None \<Rightarrow> None | Some a \<Rightarrow> Some (a, word_of_int port))"

subsection \<open>State and effects\<close>

record data_plane =
  dp_identity :: ts_identity
  dp_session :: session_state
  dp_sock :: magic_sock
  dp_derp :: derp_client
  fDerpUp :: bool
  fDerpHomeRegion :: int
  fDerpRelay :: string
  fTunFd :: int
  fLastDerpKeepalive :: int

datatype effect = UdpSend u32 u16 bytes | RelaySend bytes bytes status | TunWrite bytes

text \<open>The random numbers, the generated key pair and the wall clock of one handler.\<close>

record entropy =
  e_keygen :: "(bytes \<times> bytes) option"
  e_unix :: u64
  e_index :: "u32 option"
  e_txid :: bytes
  e_nonce :: bytes

definition NodePrivate :: "data_plane \<Rightarrow> bytes" where "NodePrivate d = priv (fNode (dp_identity d))"
definition NodePublic :: "data_plane \<Rightarrow> bytes" where "NodePublic d = pub (fNode (dp_identity d))"
definition DiscoPrivate :: "data_plane \<Rightarrow> bytes" where "DiscoPrivate d = priv (fDisco (dp_identity d))"
definition DiscoPublic :: "data_plane \<Rightarrow> bytes" where "DiscoPublic d = pub (fDisco (dp_identity d))"

definition peers :: "data_plane \<Rightarrow> peer_set" where "peers d = fSessionPeers (dp_session d)"

definition set_peer :: "data_plane \<Rightarrow> nat \<Rightarrow> managed_peer \<Rightarrow> data_plane" where
  "set_peer d i p = d\<lparr> dp_session := (dp_session d)\<lparr> fSessionPeers := (peers d)[i := p] \<rparr> \<rparr>"

definition SockSend :: "magic_sock \<Rightarrow> u32 \<Rightarrow> u16 \<Rightarrow> bytes \<Rightarrow> effect list" where
  "SockSend ms a port buf = (if fSocket ms < 0 then [] else [UdpSend a port buf])"

subsection \<open>Sending\<close>

definition SendPeerBytes :: "data_plane \<Rightarrow> managed_peer \<Rightarrow> bytes \<Rightarrow> data_plane \<times> effect list" where
  "SendPeerBytes d p buf =
     (case peer_sockaddr p of
        Some (a, port) \<Rightarrow> (d, SockSend (dp_sock d) a port buf)
      | None \<Rightarrow>
          if fDerpUp d
          then (case SendPacket (dp_derp d) (fNodeKey (wg p)) buf of (st, c) \<Rightarrow>
                  (d\<lparr> dp_derp := c \<rparr>, [RelaySend (fNodeKey (wg p)) buf st]))
          else (d, []))"

definition ping_endpoint :: "data_plane \<Rightarrow> bytes \<Rightarrow> string \<Rightarrow> effect list" where
  "ping_endpoint d pkt ep =
     (case split_endpoint ep of None \<Rightarrow> []
      | Some (host, port) \<Rightarrow>
          (case inet_pton (c_str host) of None \<Rightarrow> [] | Some a \<Rightarrow> SockSend (dp_sock d) a (word_of_int port) pkt))"

definition SendDiscoPing :: "openssl \<Rightarrow> data_plane \<Rightarrow> managed_peer \<Rightarrow> int \<Rightarrow> entropy \<Rightarrow> managed_peer \<times> effect list" where
  "SendDiscoPing os d p now e =
     (if m_discoKey p = [] \<or> m_endpoints p = [] then (p, [])
      else if now - lastDiscoPing p < 2000000 then (p, [])
      else
      let p = p\<lparr> lastDiscoPing := now \<rparr> in
      case FromHex (m_discoKey p) 32 of None \<Rightarrow> (p, [])
      | Some peerDisco \<Rightarrow>
      let ping = EncodePing (e_txid e) (Some (NodePublic d)) in
      case DiscoSeal (BoxSeal os) 256 (e_nonce e) (DiscoPublic d) (DiscoPrivate d) peerDisco ping of None \<Rightarrow> (p, [])
      | Some pkt \<Rightarrow> (p, concat (map (ping_endpoint d pkt) (m_endpoints p))))"

text \<open>The initiation of a handshake, shared by the first one and by a rekey.\<close>

definition start_handshake ::
  "openssl \<Rightarrow> data_plane \<Rightarrow> managed_peer \<Rightarrow> int \<Rightarrow> entropy \<Rightarrow> data_plane \<times> managed_peer \<times> effect list" where
  "start_handshake os d p now e =
     (case BuildInitiation os (wg p) (NodePrivate d) (fNodeKey (wg p)) (e_keygen e) (e_unix e) (e_index e) now of
        (w, None) \<Rightarrow> (d, p\<lparr> wg := w \<rparr>, [])
      | (w, Some init) \<Rightarrow>
          if length init = 148
          then let p = p\<lparr> wg := w, lastHandshake := now \<rparr>; (d, out) = SendPeerBytes d p init in (d, p, out)
          else (d, p\<lparr> wg := w \<rparr>, []))"

definition send_data :: "openssl \<Rightarrow> data_plane \<Rightarrow> managed_peer \<Rightarrow> bytes \<Rightarrow> int \<Rightarrow> data_plane \<times> managed_peer \<times> effect list" where
  "send_data os d p packet now =
     (case Encapsulate os (wg p) packet now of (w, out) \<Rightarrow>
      let p = p\<lparr> wg := w \<rparr> in
      if length out > 0 then (let (d, effs) = SendPeerBytes d p out in (d, p, effs)) else (d, p, []))"

definition SendToPeer ::
  "openssl \<Rightarrow> data_plane \<Rightarrow> nat \<Rightarrow> bytes \<Rightarrow> int \<Rightarrow> entropy \<Rightarrow> data_plane \<times> effect list" where
  "SendToPeer os d i packet now e =
     (let p = peers d ! i;
          (p, out1) = (if fMode (path p) \<noteq> PATH_DIRECT then SendDiscoPing os d p now e else (p, []));
          p = p\<lparr> wg := fst (ExpireIfStale (wg p) now) \<rparr> in
      if \<not> fHasKeys (wg p) then
        (let (d, p, out2) = (if now - lastHandshake p > 5000000 then start_handshake os d p now e else (d, p, []))
         in (set_peer d i p, out1 @ out2))
      else
        let (d, p, out2) = (if ShouldInitiateRekey (wg p) now then start_handshake os d p now e else (d, p, []));
            (d, p, out3) = send_data os d p packet now
        in (set_peer d i p, out1 @ out2 @ out3))"

definition maintain_peer ::
  "openssl \<Rightarrow> data_plane \<Rightarrow> managed_peer \<Rightarrow> int \<Rightarrow> entropy \<Rightarrow> data_plane \<times> managed_peer \<times> effect list" where
  "maintain_peer os d p now e =
     (if \<not> fHasKeys (wg p) then (d, p, [])
      else case ExpireIfStale (wg p) now of (w, expired) \<Rightarrow>
      let p = p\<lparr> wg := w \<rparr> in
      if expired then (d, p, [])
      else if ShouldInitiateRekey (wg p) now then start_handshake os d p now e
      else if ShouldKeepalive (wg p) now then send_data os d p [] now
      else (d, p, []))"

fun maintain_loop :: "openssl \<Rightarrow> int \<Rightarrow> (nat \<Rightarrow> entropy) \<Rightarrow> nat \<Rightarrow> nat \<Rightarrow> data_plane \<Rightarrow> data_plane \<times> effect list" where
  "maintain_loop os now es i 0 d = (d, [])"
| "maintain_loop os now es i (Suc n) d =
     (let (d, p, out) = maintain_peer os d (peers d ! i) now (es i);
          (d, outs) = maintain_loop os now es (Suc i) n (set_peer d i p)
      in (d, out @ outs))"

definition MaintainPeers :: "openssl \<Rightarrow> int \<Rightarrow> (nat \<Rightarrow> entropy) \<Rightarrow> data_plane \<Rightarrow> data_plane \<times> effect list" where
  "MaintainPeers os now es d = maintain_loop os now es 0 (length (peers d)) d"

definition DERP_KEEP_ALIVE :: u8 where "DERP_KEEP_ALIVE = 0x06"

definition DerpKeepaliveTick :: "int \<Rightarrow> data_plane \<Rightarrow> data_plane" where
  "DerpKeepaliveTick now d =
     (if now - fLastDerpKeepalive d < 60000000 then d
      else let d = d\<lparr> fLastDerpKeepalive := now \<rparr>
           in if fDerpUp d then d\<lparr> dp_derp := snd (DerpWriteFrame (dp_derp d) DERP_KEEP_ALIVE []) \<rparr> else d)"

subsection \<open>Receiving\<close>

definition endpoint_text :: "u32 \<Rightarrow> u16 \<Rightarrow> string" where
  "endpoint_text a port = dotted a @ '':'' @ show_nat (unat port)"

definition HandleDiscoPacket ::
  "openssl \<Rightarrow> data_plane \<Rightarrow> bytes \<Rightarrow> u32 \<Rightarrow> u16 \<Rightarrow> int \<Rightarrow> entropy \<Rightarrow> data_plane \<times> effect list" where
  "HandleDiscoPacket os d buf from port now e =
     (case DiscoOpen (BoxOpen os) buf (DiscoPrivate d) 128 of None \<Rightarrow> (d, [])
      | Some (sender, payload) \<Rightarrow>
      let ty = DiscoMessageType (Some payload) in
      if ty = DISCO_PING then
        (case DecodePing payload of None \<Rightarrow> (d, [])
         | Some dp \<Rightarrow>
             let pong = EncodePong (ping_txid dp) (Some (dotted from)) port in
             (case DiscoSeal (BoxSeal os) 256 (e_nonce e) (DiscoPublic d) (DiscoPrivate d) sender pong of None \<Rightarrow> (d, [])
              | Some pkt \<Rightarrow> (d, if length pkt > 0 then SockSend (dp_sock d) from port pkt else [])))
      else if ty = DISCO_PONG then
        (case FindByDiscoKey (peers d) (Some (ToHex sender)) of None \<Rightarrow> (d, [])
         | Some i \<Rightarrow>
             let p = peers d ! i
             in (set_peer d i (p\<lparr> path := UpgradeToDirect (path p) (Some (endpoint_text from port)) now \<rparr>), []))
      else (d, []))"

definition HandleWireGuardPacket ::
  "openssl \<Rightarrow> data_plane \<Rightarrow> bytes \<Rightarrow> int \<Rightarrow> entropy \<Rightarrow> data_plane \<times> effect list" where
  "HandleWireGuardPacket os d buf now e =
     (if length buf < 4 then (d, [])
      else if buf ! 0 = 1 \<and> length buf = 148 then
        (case RecoverInitiatorStatic os (NodePrivate d) buf of None \<Rightarrow> (d, [])
         | Some peerStatic \<Rightarrow>
         case FindPeer (peers d) (Some (ToHex peerStatic)) of None \<Rightarrow> (d, [])
         | Some i \<Rightarrow>
         let p = peers d ! i in
         case ConsumeInitiation os (wg p) (NodePrivate d) buf of (w, ok) \<Rightarrow>
         let p = p\<lparr> wg := w \<rparr> in
         if \<not> ok then (set_peer d i p, [])
         else case BuildResponse os (wg p) (e_keygen e) (e_index e) now of
           (w, None) \<Rightarrow> (set_peer d i (p\<lparr> wg := w \<rparr>), [])
         | (w, Some resp) \<Rightarrow>
             let p = p\<lparr> wg := w \<rparr> in
             if length resp = 92 then (let (d, out) = SendPeerBytes d p resp in (set_peer d i p, out))
             else (set_peer d i p, []))
      else if buf ! 0 = 2 \<and> length buf = 92 then
        (case FindBySenderIndex (peers d) (load32_le (drop 8 buf)) of None \<Rightarrow> (d, [])
         | Some i \<Rightarrow>
             let p = peers d ! i in
             (set_peer d i (p\<lparr> wg := fst (ConsumeResponse os (wg p) buf now) \<rparr>), []))
      else if buf ! 0 = 4 \<and> length buf \<ge> 32 then
        (case FindBySenderIndex (peers d) (load32_le (drop 4 buf)) of None \<Rightarrow> (d, [])
         | Some i \<Rightarrow>
             let p = peers d ! i in
             (case Decapsulate os (wg p) buf of (w, plain) \<Rightarrow>
                (set_peer d i (p\<lparr> wg := w \<rparr>),
                 case plain of None \<Rightarrow> [] | Some out \<Rightarrow> if length out > 0 \<and> fTunFd d \<ge> 0 then [TunWrite out] else [])))
      else (d, []))"

subsection \<open>The readers\<close>

text \<open>One packet of the tunnel reader; a read returns at most 2048 bytes.\<close>

definition tun_packet :: "openssl \<Rightarrow> data_plane \<Rightarrow> bytes \<Rightarrow> int \<Rightarrow> entropy \<Rightarrow> data_plane \<times> effect list" where
  "tun_packet os d pkt now e =
     (let buf = take 2048 pkt in
      if length buf < 20 \<or> drop_bit 4 (buf ! 0) \<noteq> 4 then (d, [])
      else let dst = fmt_ipv4 (unat (buf ! 16)) (unat (buf ! 17)) (unat (buf ! 18)) (unat (buf ! 19)) in
      case FindByAllowedIP (peers d) (Some dst) of None \<Rightarrow> (d, [])
      | Some i \<Rightarrow> SendToPeer os d i buf now e)"

text \<open>One datagram of the socket reader, from an IPv4 address or (\<open>None\<close>) from another family.\<close>

definition sock_packet ::
  "openssl \<Rightarrow> data_plane \<Rightarrow> bytes \<Rightarrow> (u32 \<times> u16) option \<Rightarrow> int \<Rightarrow> entropy \<Rightarrow> data_plane \<times> effect list" where
  "sock_packet os d datagram from now e =
     (let buf = take 2048 datagram in
      if buf = [] then (d, [])
      else case Classify buf of
        PKT_WIREGUARD \<Rightarrow> HandleWireGuardPacket os d buf now e
      | PKT_DISCO \<Rightarrow> (case from of None \<Rightarrow> (d, []) | Some (a, port) \<Rightarrow> HandleDiscoPacket os d buf a port now e)
      | PKT_STUN \<Rightarrow> (d, []))"

text \<open>
  One round of the relay reader up to the drop of the relay: \<open>True\<close> while the relay is up.
\<close>

definition derp_round ::
  "openssl \<Rightarrow> (tls_event list \<Rightarrow> bool) \<Rightarrow> data_plane \<Rightarrow> int \<Rightarrow> entropy \<Rightarrow> bool \<times> data_plane \<times> effect list" where
  "derp_round os stop d now e =
     (case RecvPacket stop (dp_derp d) 2048 of (r, c) \<Rightarrow>
      let d = d\<lparr> dp_derp := c \<rparr> in
      case r of
        Packet src buf \<Rightarrow>
          if length buf > 0 then (let (d, out) = HandleWireGuardPacket os d buf now e in (True, d, out))
          else (True, d, [])
      | Control \<Rightarrow> (True, d, [])
      | RecvError \<Rightarrow> (False, d, []))"

subsection \<open>The relay connection\<close>

text \<open>The scan for a first relay with a node, as long as no host was found.\<close>

fun region_scan :: "derp_region list \<Rightarrow> string \<times> int \<Rightarrow> string \<times> int" where
  "region_scan [] hc = hc"
| "region_scan (r # rs) hc =
     (if fst hc \<noteq> [] then hc
      else region_scan rs (case derp_nodes r of [] \<Rightarrow> hc | n # _ \<Rightarrow> (hostName n, regionID r)))"

definition derp_home :: "session_state \<Rightarrow> string \<times> int" where
  "derp_home s =
     (let want = (case find (\<lambda>p. m_derpRegion p > 0) (fSessionPeers s) of None \<Rightarrow> - 1 | Some p \<Rightarrow> m_derpRegion p);
          hc = (if want > 0
                then (case DerpRegionById (fNetmap s) want of None \<Rightarrow> ([], - 1)
                      | Some r \<Rightarrow> (case derp_nodes r of [] \<Rightarrow> ([], - 1) | n # _ \<Rightarrow> (hostName n, want)))
                else ([], - 1))
      in region_scan (fDerpRegions (fNetmap s)) hc)"

text \<open>\<open>dial\<close>: what connecting to the host on port 443 gives.\<close>

definition BringUpDerp ::
  "openssl \<Rightarrow> (tls_event list \<Rightarrow> bool) \<Rightarrow> (string \<Rightarrow> status + tls) \<Rightarrow> bytes \<Rightarrow> data_plane \<Rightarrow> data_plane" where
  "BringUpDerp os stop dial nonce d =
     (if fDerpUp d then d
      else case derp_home (dp_session d) of (host, chosen) \<Rightarrow>
      if host = [] then d
      else case DerpConnect os stop (dp_derp d) (dial host) host (NodePrivate d) (NodePublic d) nonce of (st, c) \<Rightarrow>
      let d = d\<lparr> dp_derp := c \<rparr> in
      if st \<noteq> B_OK then d
      else d\<lparr> fDerpUp := True, fDerpHomeRegion := chosen, fDerpRelay := host \<rparr>)"

text \<open>Closing the TLS stream frees it: nothing can be read from or written to it any more.\<close>

definition DerpMarkDown :: "data_plane \<Rightarrow> data_plane" where
  "DerpMarkDown d = d\<lparr> fDerpUp := False, dp_derp := (dp_derp d)\<lparr> fDerpTls := \<lparr> rx = [], tx = [], wr = [] \<rparr> \<rparr> \<rparr>"

definition DerpReconnect ::
  "openssl \<Rightarrow> (tls_event list \<Rightarrow> bool) \<Rightarrow> (string \<Rightarrow> status + tls) \<Rightarrow> bytes \<Rightarrow> data_plane \<Rightarrow> bool \<times> data_plane" where
  "DerpReconnect os stop dial nonce d =
     (if fDerpRelay d = [] then (False, d)
      else case DerpConnect os stop (dp_derp d) (dial (fDerpRelay d)) (fDerpRelay d) (NodePrivate d) (NodePublic d) nonce of (st, c) \<Rightarrow>
      let d = d\<lparr> dp_derp := c \<rparr> in
      if st = B_OK then (True, d\<lparr> fDerpUp := True \<rparr>) else (False, d))"

subsection \<open>Addresses are read back\<close>

lemma show_nat_lead: "1 < length (show_nat n) \<Longrightarrow> hd (show_nat n) \<noteq> CHR ''0''"
proof (induction n rule: show_nat.induct)
  case (1 n)
  show ?case
  proof (cases "n < 10")
    case True
    then show ?thesis using 1(2) by (simp add: show_nat.simps [of n])
  next
    case False
    have e: "show_nat n = show_nat (n div 10) @ [char_of (48 + n mod 10)]" using False by (simp add: show_nat.simps [of n])
    have "hd (show_nat (n div 10)) \<noteq> CHR ''0''"
    proof (cases "1 < length (show_nat (n div 10))")
      case True
      then show ?thesis using 1(1) False by simp
    next
      case short: False
      have "n div 10 < 10"
      proof (rule ccontr)
        assume "\<not> n div 10 < 10"
        then have "show_nat (n div 10) = show_nat (n div 10 div 10) @ [char_of (48 + n div 10 mod 10)]"
          by (simp only: show_nat.simps [of "n div 10"] if_False)
        then show False using short show_nat_ne [of "n div 10 div 10"] by (cases "show_nat (n div 10 div 10)") auto
      qed
      moreover have "0 < n div 10" using False by (simp add: div_greater_zero_iff)
      moreover have "char_of (48 + k) \<noteq> CHR ''0''" if "0 < k" "k < 10" for k :: nat
      proof
        assume "char_of (48 + k) = CHR ''0''"
        then have "(of_char (char_of (48 + k) :: char) :: nat) = 48" by simp
        then show False using that by simp
      qed
      ultimately show ?thesis by (simp add: show_nat.simps [of "n div 10"])
    qed
    then show ?thesis using e by simp
  qed
qed

lemma show_nat_octet: "n \<le> 255 \<Longrightarrow> inet_octet (show_nat n)"
  using show_nat_lead [of n] show_nat_digits [of n] by (simp add: inet_octet_def)

lemma show_nat_no: "\<not> isdigit c \<Longrightarrow> c \<notin> set (show_nat n)"
  using show_nat_digits [of n] by (auto simp: list_all_iff)

lemma inet_pton_fmt:
  assumes "a \<le> 255" "b \<le> 255" "c \<le> 255" "d \<le> 255"
  shows "inet_pton (fmt_ipv4 a b c d) = Some (push_bit 24 (of_nat a) OR push_bit 16 (of_nat b) OR push_bit 8 (of_nat c) OR of_nat d)"
proof -
  have dot: "CHR ''.'' \<notin> set (show_nat n)" for n by (rule show_nat_no) (simp add: isdigit_def)
  have "split_on (CHR ''.'') (fmt_ipv4 a b c d) = [show_nat a, show_nat b, show_nat c, show_nat d]"
    by (simp add: fmt_ipv4_def split_on_append_delim split_on_notin dot)
  then show ?thesis using assms by (simp add: inet_pton_def show_nat_octet)
qed

lemma byte_le: "unat (x AND 0xFF) \<le> 255" for x :: u32
  using byte_bounds(2) [of x] by (simp add: word_less_nat_alt not_less)

lemma inet_pton_dotted [simp]: "inet_pton (dotted n) = Some n"
  unfolding dotted_def by (simp only: inet_pton_fmt [OF byte_le byte_le byte_le byte_le] byte_and_255 octets_join)

lemma split_endpoint_text: "split_endpoint (endpoint_text a port) = Some (dotted a, int (unat port))"
proof -
  have "CHR '':'' \<notin> set (show_nat (unat port))" by (rule show_nat_no) (simp add: isdigit_def)
  then have "find_last (CHR '':'') (endpoint_text a port) = Some (length (dotted a))"
    using find_last_digits by (simp add: endpoint_text_def)
  moreover have "unat port < 2 ^ 31" using unsigned_less [of port, where ?'a = nat] by simp
  ultimately show ?thesis by (simp add: split_endpoint_def endpoint_text_def atoi_show_nat)
qed

lemma endpoint_text_ne [simp]: "endpoint_text a port \<noteq> []"
  by (simp add: endpoint_text_def)

text \<open>A confirmed address is the address that is used; only the port 0 cannot be.\<close>

lemma peer_sockaddr_text:
  "fMode (path p) = PATH_DIRECT \<Longrightarrow> fEndpoint (path p) = endpoint_text a port \<Longrightarrow>
   peer_sockaddr p = (if port = 0 then None else Some (a, port))"
  by (simp add: peer_sockaddr_def split_endpoint_text uint_0_iff)

end
