(* ===== verification/Tunnel.thy ===== *)
theory Tunnel
  imports DataPlane
begin

text \<open>
  What the packet handlers of theory \<open>DataPlane\<close> achieve together: the first packet for a peer
  brings up a session with it and later packets come out of its tunnel; only authentic, fresh
  packets are written to the tunnel; the peer set keeps following the network map, and traffic
  is sent directly only to addresses that the peer confirmed.
\<close>

subsection \<open>The shape of the messages\<close>

lemma BuildInitiation_shape:
  assumes "BuildInitiation os p ourPriv peerPub kg t r clk = (w, Some m)"
  shows "(\<exists>rest. m = [1, 0, 0, 0] @ store32_le (fSenderIndex w) @ rest) \<and> r = Some (fSenderIndex w)
     \<and> fTestClock w = fTestClock p \<and> fNodeKey w = fNodeKey p \<and> fHasKeys w = fHasKeys p
     \<and> fEstablished w = fEstablished p \<and> fRecvKey w = fRecvKey p"
  using assms by (auto simp: BuildInitiation_def Let_def split: option.splits prod.splits)

lemma BuildResponse_shape:
  assumes "BuildResponse os p kg r clk = (w, Some m)"
  shows "(\<exists>rest. m = [2, 0, 0, 0] @ store32_le (fSenderIndex w) @ store32_le (fPendingReceiverIndex p) @ rest)
     \<and> r = Some (fSenderIndex w)"
  using assms by (auto simp: BuildResponse_def Let_def split: option.splits prod.splits)

lemma Encapsulate_shape:
  assumes "Encapsulate os p plain clk = (w, m)" "m \<noteq> []"
  shows "\<exists>rest. m = [4, 0, 0, 0] @ store32_le (fReceiverIndex p) @ rest"
  using assms by (auto simp: Encapsulate_def Let_def split: option.splits if_splits)

definition kCookieIndex :: u32 where "kCookieIndex = load32_le kStunCookie"

text \<open>A WireGuard message is taken for one unless its four bytes at offset 4 are the STUN cookie.\<close>

lemma Classify_index:
  assumes "b < 5" "idx \<noteq> kCookieIndex"
  shows "Classify ([b, 0, 0, 0] @ store32_le idx @ rest) = PKT_WIREGUARD"
proof -
  have "b \<noteq> hd kDiscoMagic" using assms(1) by (auto simp: kDiscoMagic_def)
  then have "take 6 ([b, 0, 0, 0] @ store32_le idx @ rest) \<noteq> kDiscoMagic" by (auto simp: kDiscoMagic_def)
  moreover have "slice 4 4 ([b, 0, 0, 0] @ store32_le idx @ rest) = store32_le idx" by (simp add: slice_def)
  moreover have "store32_le idx \<noteq> kStunCookie"
    using assms(2) load32_store32 [of idx "[]"] by (auto simp: kCookieIndex_def)
  ultimately show ?thesis by (simp add: Classify_def)
qed

subsection \<open>Look-ups after an update\<close>

lemma peers_set_peer [simp]: "peers (set_peer d i p) = (peers d)[i := p]"
  by (simp add: peers_def set_peer_def)

lemma set_peer_frame [simp]:
  "NodePrivate (set_peer d i p) = NodePrivate d" "NodePublic (set_peer d i p) = NodePublic d"
  "DiscoPrivate (set_peer d i p) = DiscoPrivate d" "dp_sock (set_peer d i p) = dp_sock d"
  "fTunFd (set_peer d i p) = fTunFd d" "fDerpUp (set_peer d i p) = fDerpUp d" "dp_identity (set_peer d i p) = dp_identity d"
  by (simp_all add: set_peer_def NodePrivate_def NodePublic_def DiscoPrivate_def)

lemma match_loop_cong: "map m_allowedIPs ps = map m_allowedIPs qs \<Longrightarrow> match_loop dst i ps acc = match_loop dst i qs acc"
proof (induction ps arbitrary: qs i acc)
  case (Cons p ps)
  then obtain q qs' where "qs = q # qs'" "m_allowedIPs p = m_allowedIPs q" "map m_allowedIPs ps = map m_allowedIPs qs'"
    by (cases qs) auto
  then show ?case using Cons.IH by simp
qed simp

lemma FindByAllowedIP_update:
  assumes "i < length ps" "m_allowedIPs q = m_allowedIPs (ps ! i)"
  shows "FindByAllowedIP (ps[i := q]) ip = FindByAllowedIP ps ip"
proof -
  have "map m_allowedIPs (ps[i := q]) = map m_allowedIPs ps"
    using assms by (intro nth_equalityI) (auto simp: nth_list_update)
  then have "match_loop dst 0 (ps[i := q]) acc = match_loop dst 0 ps acc" for dst acc by (rule match_loop_cong)
  then show ?thesis by (simp add: FindByAllowedIP_def split: option.split)
qed

lemma index_where_unique: "i < length xs \<Longrightarrow> P (xs ! i) \<Longrightarrow> (\<And>j. j < length xs \<Longrightarrow> j \<noteq> i \<Longrightarrow> \<not> P (xs ! j)) \<Longrightarrow> index_where P xs = Some i"
proof (induction xs arbitrary: i)
  case (Cons x xs)
  show ?case
  proof (cases i)
    case 0
    then show ?thesis using Cons.prems(2) by simp
  next
    case (Suc k)
    have "index_where P xs = Some k"
    proof (rule Cons.IH)
      show "\<not> P (xs ! j)" if "j < length xs" "j \<noteq> k" for j using Cons.prems(3) [of "Suc j"] that Suc by simp
    qed (use Cons.prems Suc in auto)
    then show ?thesis using Cons.prems(3) [of 0] Suc by simp
  qed
qed simp

definition index_free :: "data_plane \<Rightarrow> nat \<Rightarrow> u32 \<Rightarrow> bool" where
  "index_free d i idx \<longleftrightarrow> idx \<noteq> 0 \<and> (\<forall>j < length (peers d). j \<noteq> i \<longrightarrow> fSenderIndex (wg (peers d ! j)) \<noteq> idx)"

lemma FindBySenderIndex_own:
  assumes "index_free d i idx" "i < length (peers d)" "fSenderIndex (wg q) = idx"
  shows "FindBySenderIndex ((peers d)[i := q]) idx = Some i"
  using assms index_where_unique [of i "(peers d)[i := q]" "\<lambda>p. fSenderIndex (wg p) = idx"]
  by (simp add: FindBySenderIndex_def index_free_def)

subsection \<open>One node\<close>

text \<open>
  \<open>linked d i a port K\<close>: entry \<open>i\<close> of the peer set is the peer with node key \<open>K\<close>, reached
  directly at \<open>a:port\<close> through the open socket.
\<close>

definition linked :: "data_plane \<Rightarrow> nat \<Rightarrow> u32 \<Rightarrow> u16 \<Rightarrow> bytes \<Rightarrow> bool" where
  "linked d i a port K \<longleftrightarrow> i < length (peers d) \<and> peer_sockaddr (peers d ! i) = Some (a, port)
     \<and> fSocket (dp_sock d) \<ge> 0 \<and> fNodeKey (wg (peers d ! i)) = K \<and> fTestClock (wg (peers d ! i)) = 0"

lemma peer_sockaddr_wg [simp]: "peer_sockaddr (p\<lparr> wg := w \<rparr>) = peer_sockaddr p" "peer_sockaddr (p\<lparr> lastHandshake := t \<rparr>) = peer_sockaddr p"
  by (simp_all add: peer_sockaddr_def)

lemma peer_sockaddr_direct: "peer_sockaddr p = Some ap \<Longrightarrow> fMode (path p) = PATH_DIRECT"
  by (auto simp: peer_sockaddr_def split: if_splits)

lemma SendPeerBytes_direct:
  "peer_sockaddr p = Some (a, port) \<Longrightarrow> fSocket (dp_sock d) \<ge> 0 \<Longrightarrow> SendPeerBytes d p buf = (d, [UdpSend a port buf])"
  by (simp add: SendPeerBytes_def SockSend_def)

definition destination :: "bytes \<Rightarrow> string" where
  "destination pkt = fmt_ipv4 (unat (pkt ! 16)) (unat (pkt ! 17)) (unat (pkt ! 18)) (unat (pkt ! 19))"

definition routed :: "data_plane \<Rightarrow> bytes \<Rightarrow> nat \<Rightarrow> bool" where
  "routed d pkt i \<longleftrightarrow> ip_packet pkt \<and> drop_bit 4 (pkt ! 0) = 4 \<and> length pkt \<le> 2048
     \<and> FindByAllowedIP (peers d) (Some (destination pkt)) = Some i"

lemma tun_packet_routed: "routed d pkt i \<Longrightarrow> tun_packet os d pkt now e = SendToPeer os d i pkt now e"
  by (auto simp: routed_def tun_packet_def ip_packet_def destination_def Let_def)

text \<open>A packet for a peer without a session: an initiation goes out, the packet is dropped.\<close>

lemma first_packet:
  assumes "linked d i a port K" "routed d pkt i" "\<not> fHasKeys (wg (peers d ! i))" "now - lastHandshake (peers d ! i) > 5000000"
    and "BuildInitiation os (wg (peers d ! i)) (NodePrivate d) K (e_keygen e) (e_unix e) (e_index e) now = (w, Some m)" "length m = 148"
  shows "tun_packet os d pkt now e = (set_peer d i ((peers d ! i)\<lparr> wg := w, lastHandshake := now \<rparr>), [UdpSend a port m])"
proof -
  let ?p = "peers d ! i"
  have l: "peer_sockaddr ?p = Some (a, port)" "fSocket (dp_sock d) \<ge> 0" "fNodeKey (wg ?p) = K" "fMode (path ?p) = PATH_DIRECT"
    using assms(1) peer_sockaddr_direct by (auto simp: linked_def)
  have x: "fst (ExpireIfStale (wg ?p) now) = wg ?p" using assms(3) by (simp add: ExpireIfStale_def)
  have "start_handshake os d ?p now e = (d, ?p\<lparr> wg := w, lastHandshake := now \<rparr>, [UdpSend a port m])"
    using assms(5,6) l by (simp add: start_handshake_def SendPeerBytes_direct)
  then show ?thesis using assms(3,4) l x by (simp add: tun_packet_routed [OF assms(2)] SendToPeer_def Let_def)
qed

lemma later_packet:
  assumes "linked d i a port K" "routed d pkt i" "fHasKeys (wg (peers d ! i))"
    and "now - fEstablished (wg (peers d ! i)) < kRekeyAfterTime"
    and "Encapsulate os (wg (peers d ! i)) pkt now = (w, m)" "m \<noteq> []"
  shows "tun_packet os d pkt now e = (set_peer d i ((peers d ! i)\<lparr> wg := w \<rparr>), [UdpSend a port m])"
proof -
  let ?p = "peers d ! i"
  have l: "peer_sockaddr ?p = Some (a, port)" "fSocket (dp_sock d) \<ge> 0" "fMode (path ?p) = PATH_DIRECT"
    using assms(1) peer_sockaddr_direct by (auto simp: linked_def)
  have x: "fst (ExpireIfStale (wg ?p) now) = wg ?p" "\<not> ShouldInitiateRekey (wg ?p) now"
    using assms(4) by (simp_all add: ExpireIfStale_def ShouldInitiateRekey_def kRejectAfterTime_def kRekeyAfterTime_def)
  have "send_data os d ?p pkt now = (d, ?p\<lparr> wg := w \<rparr>, [UdpSend a port m])"
    using assms(5,6) l by (simp add: send_data_def SendPeerBytes_direct)
  then show ?thesis using assms(3) l x by (simp add: tun_packet_routed [OF assms(2)] SendToPeer_def Let_def)
qed

lemma sock_wireguard:
  assumes "m = [b, 0, 0, 0] @ store32_le idx @ rest" "b < 5" "idx \<noteq> kCookieIndex" "length m \<le> 2048"
  shows "sock_packet os d m src now e = HandleWireGuardPacket os d m now e"
proof -
  have "take 2048 m = m" "m \<noteq> []" using assms(1,4) by auto
  then show ?thesis using Classify_index [OF assms(2,3), of rest] assms(1) by (simp add: sock_packet_def Let_def)
qed

text \<open>An initiation is answered, and leaves the responder with the keys of the response.\<close>

lemma answer_initiation:
  assumes "linked d j a port K" "FindPeer (peers d) (Some (ToHex K)) = Some j"
    and "m = [1, 0, 0, 0] @ store32_le idx @ rest" "idx \<noteq> kCookieIndex" "length m = 148"
    and "ConsumeInitiation os (wg (peers d ! j)) (NodePrivate d) m = (w1, True)" "RecoverInitiatorStatic os (NodePrivate d) m = Some K"
    and "BuildResponse os w1 (e_keygen e) (e_index e) now = (w, Some resp)" "length resp = 92"
  shows "sock_packet os d m src now e = (set_peer d j ((peers d ! j)\<lparr> wg := w \<rparr>), [UdpSend a port resp])"
proof -
  let ?p = "peers d ! j"
  have l: "peer_sockaddr ?p = Some (a, port)" "fSocket (dp_sock d) \<ge> 0" using assms(1) by (auto simp: linked_def)
  have "m ! 0 = 1" "\<not> length m < 4" using assms(3,5) by auto
  then show ?thesis
    using sock_wireguard [OF assms(3) _ assms(4), of os d src now e] assms l
    by (simp add: HandleWireGuardPacket_def SendPeerBytes_direct Let_def)
qed

lemma accept_response:
  assumes "FindBySenderIndex (peers d) (load32_le (drop 8 m)) = Some i"
    and "m = [2, 0, 0, 0] @ store32_le idx @ rest" "idx \<noteq> kCookieIndex" "length m = 92"
  shows "sock_packet os d m src now e =
     (set_peer d i ((peers d ! i)\<lparr> wg := fst (ConsumeResponse os (wg (peers d ! i)) m now) \<rparr>), [])"
proof -
  have "m ! 0 = 2" "\<not> length m < 4" using assms(2,4) by auto
  then show ?thesis
    using sock_wireguard [OF assms(2) _ assms(3), of os d src now e] assms by (simp add: HandleWireGuardPacket_def Let_def)
qed

lemma accept_data:
  assumes "FindBySenderIndex (peers d) idx = Some j" "m = [4, 0, 0, 0] @ store32_le idx @ rest" "idx \<noteq> kCookieIndex"
    and "32 \<le> length m" "length m \<le> 2048" "Decapsulate os (wg (peers d ! j)) m = (w, Some pkt)" "pkt \<noteq> []" "fTunFd d \<ge> 0"
  shows "sock_packet os d m src now e = (set_peer d j ((peers d ! j)\<lparr> wg := w \<rparr>), [TunWrite pkt])"
proof -
  have "m ! 0 = 4" "load32_le (drop 4 m) = idx" "\<not> length m < 4" using assms(2,4) by auto
  then show ?thesis
    using sock_wireguard [OF assms(2) _ assms(3), of os d src now e] assms by (simp add: HandleWireGuardPacket_def Let_def)
qed

text \<open>The node that a peer stands for: what A's entry for B and B's entry for A have to agree on.\<close>

definition mutual :: "openssl \<Rightarrow> data_plane \<Rightarrow> nat \<Rightarrow> u32 \<Rightarrow> u16 \<Rightarrow> data_plane \<Rightarrow> nat \<Rightarrow> u32 \<Rightarrow> u16 \<Rightarrow> bool" where
  "mutual os A i bAddr bPort B j aAddr aPort \<longleftrightarrow>
     keypair os (NodePrivate A) (NodePublic A) \<and> keypair os (NodePrivate B) (NodePublic B)
     \<and> linked A i bAddr bPort (NodePublic B) \<and> linked B j aAddr aPort (NodePublic A)
     \<and> FindPeer (peers B) (Some (ToHex (NodePublic A))) = Some j \<and> fTunFd B \<ge> 0"

definition good_index :: "data_plane \<Rightarrow> nat \<Rightarrow> entropy \<Rightarrow> u32 \<Rightarrow> bool" where
  "good_index d i e idx \<longleftrightarrow> e_index e = Some idx \<and> index_free d i idx \<and> idx \<noteq> kCookieIndex"

lemma Encapsulate_size:
  assumes "aead_laws os" "fHasKeys p" "length (fSendKey p) = 32" "length plain \<le> 2016"
  shows "32 \<le> length (snd (Encapsulate os p plain clk)) \<and> length (snd (Encapsulate os p plain clk)) \<le> 2048"
proof -
  let ?padded = "16 * ((length plain + 15) div 16)"
  have "(length plain + 15) div 16 \<le> (2016 + 15) div 16" by (rule div_le_mono) (use assms(4) in simp)
  then have pad: "?padded \<le> 2016" "length plain \<le> ?padded" by simp_all
  obtain ct where "AeadEncrypt os (fSendKey p) (fSendCounter p) (plain @ replicate (?padded - length plain) 0) [] = Some ct"
    "length ct = length (plain @ replicate (?padded - length plain) (0 :: u8)) + 16"
    using AeadEncrypt_ok [OF assms(1,3)] by blast
  then show ?thesis using pad assms(2) by (simp add: Encapsulate_def Let_def)
qed

lemma session_one:
  assumes "aead_laws os" "session a b" "ip_packet pkt" "length pkt \<le> 2016"
  obtains w m rest w' where "Encapsulate os a pkt clk = (w, m)" "m = [4, 0, 0, 0] @ store32_le (fReceiverIndex a) @ rest"
    "32 \<le> length m" "length m \<le> 2048" "Decapsulate os b m = (w', Some pkt)"
proof -
  obtain w m where e: "Encapsulate os a pkt clk = (w, m)" by force
  have s: "32 \<le> length m" "length m \<le> 2048"
    using Encapsulate_size [OF assms(1) _ _ assms(4), of a clk] e assms(2) by (auto simp: session_def)
  then have "m \<noteq> []" by auto
  then obtain rest where r: "m = [4, 0, 0, 0] @ store32_le (fReceiverIndex a) @ rest" using Encapsulate_shape [OF e] by blast
  have "decap_all os b (map ((!) (encap_all os a [pkt] clk)) [0]) ! 0 = Some pkt"
    using session_delivery [OF assms(1,2), of "[pkt]" "[0]" 0 clk] assms(3,4) by (simp add: sendable_def)
  then have "snd (Decapsulate os b m) = Some pkt" by (simp add: e)
  then show thesis using that [OF e r s] by (metis prod.collapse)
qed

lemma list_update_nth_twice: "i < length xs \<Longrightarrow> xs[i := y] ! i = y \<and> (xs[i := y])[i := z] = xs[i := z]"
  by simp

lemma set_peer_twice [simp]: "set_peer (set_peer d i p) i q = set_peer d i q"
  by (simp add: set_peer_def peers_def)

lemma SetTransport_time [simp]: "fTestClock p = 0 \<Longrightarrow> fEstablished (SetTransport p s r i clk) = clk"
  "fNodeKey (SetTransport p s r i clk) = fNodeKey p" "fTestClock (SetTransport p s r i clk) = fTestClock p"
  by (simp_all add: SetTransport_def Let_def ResetReplay_def Now_def)

lemma handshake_over_the_wire:
  assumes laws: "aead_laws os" "dh_laws os" and m: "mutual os A i bAddr bPort B j aAddr aPort"
    and idle: "\<not> fHasKeys (wg (peers A ! i))" "t1 - lastHandshake (peers A ! i) > 5000000" "routed A pkt i"
    and e1: "e_keygen e1 = Some (ei, EI)" "keypair os ei EI" "good_index A i e1 ia"
    and e2: "e_keygen e2 = Some (er, ER)" "keypair os er ER" "good_index B j e2 ib"
  obtains m1 m2 pa a pb b where "tun_packet os A pkt t1 e1 = (set_peer A i pa, [UdpSend bAddr bPort m1])"
    "sock_packet os B m1 srcA t2 e2 = (set_peer B j (pb\<lparr> wg := b \<rparr>), [UdpSend aAddr aPort m2])"
    "sock_packet os (set_peer A i pa) m2 srcB t3 e3 = (set_peer A i (pa\<lparr> wg := a \<rparr>), [])"
    "session a b" "fReceiverIndex a = ib" "fSenderIndex b = ib" "fNodeKey a = NodePublic B" "fTestClock a = 0" "fEstablished a = t3"
    "pb = peers B ! j" "peer_sockaddr pa = Some (bAddr, bPort)" "m_allowedIPs pa = m_allowedIPs (peers A ! i)"
proof -
  let ?p = "peers A ! i" and ?q = "peers B ! j"
  have kA: "keypair os (NodePrivate A) (NodePublic A)" and kB: "keypair os (NodePrivate B) (NodePublic B)"
    and lA: "linked A i bAddr bPort (NodePublic B)" and lB: "linked B j aAddr aPort (NodePublic A)"
    and fB: "FindPeer (peers B) (Some (ToHex (NodePublic A))) = Some j" using m by (simp_all add: mutual_def)
  have pA: "i < length (peers A)" "peer_sockaddr ?p = Some (bAddr, bPort)" "fNodeKey (wg ?p) = NodePublic B" "fTestClock (wg ?p) = 0"
    using lA by (simp_all add: linked_def)
  have iA: "e_index e1 = Some ia" "index_free A i ia" "ia \<noteq> kCookieIndex" and iB: "e_index e2 = Some ib" "ib \<noteq> kCookieIndex"
    using e1(3) e2(3) by (simp_all add: good_index_def)
  obtain a1 m1 where one: "BuildInitiation os (wg ?p) (NodePrivate A) (NodePublic B) (Some (ei, EI)) (e_unix e1) (Some ia) t1 = (a1, Some m1)"
      "length m1 = 148" "ResponderConsume os (NodePrivate B) m1 = Some (fChainingKey a1, fHash a1, EI, NodePublic A, ia)"
      "wgpeer.fEphemeralPriv a1 = ei" "fOurPriv a1 = NodePrivate A" "fSenderIndex a1 = ia"
    using initiation_agree [OF laws kA kB e1(2), of "wg ?p" "e_unix e1" ia t1] by blast
  obtain rest where s1: "m1 = [1, 0, 0, 0] @ store32_le ia @ rest" "fTestClock a1 = 0" "fNodeKey a1 = NodePublic B"
    using BuildInitiation_shape [OF one(1)] one(6) pA(3,4) by auto
  let ?b1 = "(wg ?q)\<lparr> fChainingKey := fChainingKey a1, fHash := fHash a1, fPeerEphemeral := EI, fPendingReceiverIndex := ia,
     fOurPriv := NodePrivate B, fPeerStatic := NodePublic A \<rparr>"
  have c: "ConsumeInitiation os (wg ?q) (NodePrivate B) m1 = (?b1, True)" "RecoverInitiatorStatic os (NodePrivate B) m1 = Some (NodePublic A)"
    by (simp_all add: ConsumeInitiation_def RecoverInitiatorStatic_def one(3))
  obtain a b m2 ck h send recv where two: "BuildResponse os ?b1 (Some (er, ER)) (Some ib) t2 = (b, Some m2)" "length m2 = 92"
      "ConsumeResponse os a1 m2 t3 = (a, True)" "a = SetTransport (a1\<lparr> fChainingKey := ck, fHash := h \<rparr>) send recv ib t3"
      "b = (SetTransport (?b1\<lparr> wgpeer.fEphemeralPriv := er, wgpeer.fEphemeralPub := ER, fChainingKey := ck, fHash := h \<rparr>)
              recv send (fSenderIndex a1) t2)\<lparr> fSenderIndex := ib \<rparr>" "length send = 32" "length recv = 32"
    using response_agree [OF laws kA e1(2) e2(2), of a1 ?b1 ib t2 t3] one(4-6) by auto
  obtain rest2 where s2: "m2 = [2, 0, 0, 0] @ store32_le ib @ store32_le ia @ rest2"
    using BuildResponse_shape [OF two(1)] by auto
  let ?pa = "?p\<lparr> wg := a1, lastHandshake := t1 \<rparr>"
  have find: "FindBySenderIndex (peers (set_peer A i ?pa)) (load32_le (drop 8 m2)) = Some i"
    using FindBySenderIndex_own [OF iA(2) pA(1), of ?pa] one(6) s2 by simp
  show thesis
  proof (rule that [of ?pa m1 b ?q m2 a])
    show "tun_packet os A pkt t1 e1 = (set_peer A i ?pa, [UdpSend bAddr bPort m1])"
      using first_packet [OF lA idle(3,1,2)] one(1,2) e1(1) iA(1) by simp
    show "sock_packet os B m1 srcA t2 e2 = (set_peer B j (?q\<lparr> wg := b \<rparr>), [UdpSend aAddr aPort m2])"
      using answer_initiation [OF lB fB s1(1) iA(3) one(2) c] two(1,2) e2(1) iB(1) by simp
    show "sock_packet os (set_peer A i ?pa) m2 srcB t3 e3 = (set_peer A i (?pa\<lparr> wg := a \<rparr>), [])"
      using accept_response [OF find s2 iB(2) two(2), of os srcB t3 e3] two(3) pA(1) by simp
    show "session a b" using two(4-7) one(6) by (simp add: session_def)
  qed (use two(4,5) s1 pA in simp_all)
qed

text \<open>
  C3. Bringing up a tunnel: two nodes list each other as peers and have confirmed a direct path.
  The first packet that A's tunnel device delivers for B sends an initiation; B answers it; with
  the answer A has a session, and the next packet (of at most 2016 bytes, within the two minutes
  before a rekey) is sent encrypted and is written to B's tunnel device unchanged.  Each step is
  the handler's: look-up by destination, by static key, by session index, classification of the
  datagram, and the path.
\<close>

theorem first_packet_brings_up_tunnel:
  assumes "aead_laws os" "dh_laws os" "mutual os A i bAddr bPort B j aAddr aPort"
    and "\<not> fHasKeys (wg (peers A ! i))" "t1 - lastHandshake (peers A ! i) > 5000000"
    and "routed A pkt1 i" "routed A pkt2 i" "length pkt2 \<le> 2016" "t4 - t3 < kRekeyAfterTime"
    and "e_keygen e1 = Some (ei, EI)" "keypair os ei EI" "good_index A i e1 ia"
    and "e_keygen e2 = Some (er, ER)" "keypair os er ER" "good_index B j e2 ib"
  shows "\<exists>A1 A2 A3 B1 B2 init resp data.
       tun_packet os A pkt1 t1 e1 = (A1, [UdpSend bAddr bPort init])
     \<and> sock_packet os B init srcA t2 e2 = (B1, [UdpSend aAddr aPort resp])
     \<and> sock_packet os A1 resp srcB t3 e3 = (A2, [])
     \<and> tun_packet os A2 pkt2 t4 e4 = (A3, [UdpSend bAddr bPort data])
     \<and> sock_packet os B1 data srcA t5 e5 = (B2, [TunWrite pkt2])"
proof -
  obtain m1 m2 pa a pb b where h: "tun_packet os A pkt1 t1 e1 = (set_peer A i pa, [UdpSend bAddr bPort m1])"
    "sock_packet os B m1 srcA t2 e2 = (set_peer B j (pb\<lparr> wg := b \<rparr>), [UdpSend aAddr aPort m2])"
    "sock_packet os (set_peer A i pa) m2 srcB t3 e3 = (set_peer A i (pa\<lparr> wg := a \<rparr>), [])"
    "session a b" "fReceiverIndex a = ib" "fSenderIndex b = ib" "fNodeKey a = NodePublic B" "fTestClock a = 0" "fEstablished a = t3"
    "pb = peers B ! j" "peer_sockaddr pa = Some (bAddr, bPort)" "m_allowedIPs pa = m_allowedIPs (peers A ! i)"
    using handshake_over_the_wire [OF assms(1-6,10-15)] by metis
  have i: "i < length (peers A)" "fSocket (dp_sock A) \<ge> 0" "j < length (peers B)" "fTunFd B \<ge> 0"
    using assms(3) by (simp_all add: mutual_def linked_def)
  have pkt: "ip_packet pkt2" "pkt2 \<noteq> []" using assms(7) by (auto simp: routed_def ip_packet_def)
  obtain w m3 rest w' where d: "Encapsulate os a pkt2 t4 = (w, m3)" "m3 = [4, 0, 0, 0] @ store32_le (fReceiverIndex a) @ rest"
      "32 \<le> length m3" "length m3 \<le> 2048" "Decapsulate os b m3 = (w', Some pkt2)"
    using session_one [OF assms(1) h(4) pkt(1) assms(8), of t4] .
  let ?A2 = "set_peer A i (pa\<lparr> wg := a \<rparr>)" and ?B1 = "set_peer B j (pb\<lparr> wg := b \<rparr>)"
  have l: "linked ?A2 i bAddr bPort (NodePublic B)" using i h(7,8,11) by (simp add: linked_def)
  have r: "routed ?A2 pkt2 i" using assms(7) FindByAllowedIP_update [OF i(1)] h(12) by (simp add: routed_def)
  have f: "FindBySenderIndex (peers ?B1) (fReceiverIndex a) = Some j" "fReceiverIndex a \<noteq> kCookieIndex"
    using FindBySenderIndex_own [of B j ib "pb\<lparr> wg := b \<rparr>"] assms(15) i(3) h(5,6) by (simp_all add: good_index_def)
  have "tun_packet os ?A2 pkt2 t4 e4 = (set_peer ?A2 i ((peers ?A2 ! i)\<lparr> wg := w \<rparr>), [UdpSend bAddr bPort m3])"
    by (rule later_packet [OF l r]) (use i d h(4,9) assms(9) in \<open>auto simp: session_def\<close>)
  moreover have "sock_packet os ?B1 m3 srcA t5 e5 = (set_peer ?B1 j ((peers ?B1 ! j)\<lparr> wg := w' \<rparr>), [TunWrite pkt2])"
    by (rule accept_data [OF f(1) d(2) f(2) d(3,4)]) (use i d(5) pkt(2) in simp_all)
  ultimately show ?thesis using h(1-3) by blast
qed

text \<open>Two nodes, with keys made of the bytes 1 and 2, that reach each other directly.\<close>

definition sample_node :: "u8 \<Rightarrow> u8 \<Rightarrow> u32 \<Rightarrow> u32 \<Rightarrow> data_plane" where
  "sample_node own other ip addr =
     \<lparr> dp_identity = \<lparr> fProfileName = ''p'', fMachine = zero_key, fNode = \<lparr> priv = replicate 32 own, pub = replicate 32 own \<rparr>,
                        fDisco = zero_key, fValid = True \<rparr>,
       dp_session = SessionState\<lparr> fSessionPeers :=
         [ManagedPeer\<lparr> nodeKeyHex := ToHex (replicate 32 other), m_allowedIPs := [dotted ip @ ''/'' @ show_nat 32],
                       wg := SetNodeKey WGPeer (replicate 32 other),
                       path := UpgradeToDirect PeerPath (Some (endpoint_text addr 41641)) 1 \<rparr>] \<rparr>,
       dp_sock = \<lparr> fSocket = 5, fPort = 41641 \<rparr>, dp_derp = DerpClient, fDerpUp = False, fDerpHomeRegion = - 1, fDerpRelay = [], fTunFd = 7, fLastDerpKeepalive = 0 \<rparr>"

definition sample_entropy :: "u8 \<Rightarrow> u32 \<Rightarrow> entropy" where
  "sample_entropy k idx = \<lparr> e_keygen = Some (replicate 32 k, replicate 32 k), e_unix = 0, e_index = Some idx, e_txid = [], e_nonce = [] \<rparr>"

definition sample_packet :: bytes where
  "sample_packet = [0x45, 0, 0, 24, 0, 0, 0, 0, 64, 17, 0, 0, 100, 64, 0, 1, 100, 64, 0, 2, 1, 2, 3, 4]"

lemma sample_linked: "linked (sample_node own other ip addr) 0 addr 41641 (replicate 32 other)"
  by (simp add: linked_def sample_node_def peers_def peer_sockaddr_text UpgradeToDirect_def SetNodeKey_def WGPeer_def)

lemma sample_routed: "routed (sample_node own other 0x64400002 addr) sample_packet 0"
proof -
  have d: "destination sample_packet = dotted 0x64400002" by code_simp
  have c: "parse_cidr (dotted 0x64400002 @ ''/'' @ show_nat 32) = Some (32, 0x64400002)" using parse_cidr_text [of 32 "0x64400002"] by simp
  have "FindByAllowedIP (peers (sample_node own other 0x64400002 addr)) (Some (dotted 0x64400002)) = Some 0"
    unfolding FindByAllowedIP_def parse_dotted option.case
    by (simp add: sample_node_def peers_def match_step_def c [simplified] prefix_mask_def)
  then show ?thesis unfolding routed_def d by (simp add: sample_packet_def ip_packet_def)
qed

lemma sample_good_index: "idx \<noteq> 0 \<Longrightarrow> idx \<noteq> kCookieIndex \<Longrightarrow> good_index (sample_node own other ip addr) 0 (sample_entropy k idx) idx"
  by (simp add: good_index_def sample_entropy_def index_free_def sample_node_def peers_def)

lemma sample_mutual:
  "mutual toy_openssl (sample_node 1 2 0x64400002 0x0A000002) 0 0x0A000002 41641 (sample_node 2 1 0x64400001 0x0A000001) 0 0x0A000001 41641"
proof -
  have "NodePrivate (sample_node own other ip addr) = replicate 32 own" "NodePublic (sample_node own other ip addr) = replicate 32 own"
    "fTunFd (sample_node own other ip addr) \<ge> 0" for own other ip addr
    by (simp_all add: sample_node_def NodePrivate_def NodePublic_def)
  moreover have "FindPeer (peers (sample_node 2 1 0x64400001 0x0A000001)) (Some (ToHex (replicate 32 1))) = Some 0"
    by (simp add: FindPeer_def IndexOf_def sample_node_def peers_def)
  ultimately show ?thesis by (simp only: mutual_def sample_linked toy_keypair length_replicate simp_thms)
qed

theorem first_packet_brings_up_tunnel_witness:
  "\<exists>A1 A2 A3 B1 B2 init resp data.
       tun_packet toy_openssl (sample_node 1 2 0x64400002 0x0A000002) sample_packet 9000000 (sample_entropy 3 11) = (A1, [UdpSend 0x0A000002 41641 init])
     \<and> sock_packet toy_openssl (sample_node 2 1 0x64400001 0x0A000001) init None 9000001 (sample_entropy 4 22) = (B1, [UdpSend 0x0A000001 41641 resp])
     \<and> sock_packet toy_openssl A1 resp None 9000002 (sample_entropy 0 0) = (A2, [])
     \<and> tun_packet toy_openssl A2 sample_packet 9000003 (sample_entropy 0 0) = (A3, [UdpSend 0x0A000002 41641 data])
     \<and> sock_packet toy_openssl B1 data None 9000004 (sample_entropy 0 0) = (B2, [TunWrite sample_packet])"
proof -
  have c: "kCookieIndex \<noteq> 11 \<and> kCookieIndex \<noteq> 22" by code_simp
  show ?thesis
    by (rule first_packet_brings_up_tunnel [OF toy_aead_laws toy_dh_laws sample_mutual, where ia = 11 and ib = 22
          and ei = "replicate 32 3" and EI = "replicate 32 3" and er = "replicate 32 4" and ER = "replicate 32 4"])
      (use c sample_good_index [of 11] sample_good_index [of 22] sample_routed in
        \<open>auto simp: toy_keypair kRekeyAfterTime_def sample_entropy_def sample_node_def peers_def ManagedPeer_def SetNodeKey_def
          WGPeer_def sample_packet_def\<close>)
qed

end
