(* ===== verification/TunnelSafety.thy ===== *)
theory TunnelSafety
  imports Tunnel
begin

text \<open>
  The data plane of \<open>TailscaleBackend\<close> as a state machine: its steps are the packets, ticks and
  map messages that the threads handle one at a time under the session lock.  In every reachable
  state the peer set follows the network map and a direct path was confirmed by its peer; only
  authenticated packets reach the tunnel.
\<close>

subsection \<open>Steps\<close>

datatype dp_event =
  Ev_Tun bytes int entropy
| Ev_Sock bytes "(u32 \<times> u16) option" int entropy
| Ev_Derp "tls_event list \<Rightarrow> bool" int entropy
| Ev_Reconnect "tls_event list \<Rightarrow> bool" "string \<Rightarrow> status + tls" bytes
| Ev_Tick int "nat \<Rightarrow> entropy"
| Ev_Map string

fun dp_step :: "openssl \<Rightarrow> data_plane \<Rightarrow> dp_event \<Rightarrow> (data_plane \<times> effect list) option" where
  "dp_step os d (Ev_Tun pkt now e) = Some (tun_packet os d pkt now e)"
| "dp_step os d (Ev_Sock pkt src now e) = Some (sock_packet os d pkt src now e)"
| "dp_step os d (Ev_Derp stop now e) =
     (case derp_round os stop d now e of (up, d, out) \<Rightarrow> Some (if up then d else DerpMarkDown d, out))"
| "dp_step os d (Ev_Reconnect stop dial nonce) = Some (snd (DerpReconnect os stop dial nonce d), [])"
| "dp_step os d (Ev_Tick now es) =
     (case MaintainPeers os now es d of (d, out) \<Rightarrow> Some (DerpKeepaliveTick now d, out))"
| "dp_step os d (Ev_Map json) =
     (case ApplyMapResponse (dp_session d) json of None \<Rightarrow> None
      | Some (ok, counts, s) \<Rightarrow> Some (d\<lparr> dp_session := s \<rparr>, []))"

text \<open>A reachable state with the history of states and events that led to it.\<close>

inductive dp_reach :: "openssl \<Rightarrow> data_plane \<Rightarrow> (data_plane \<times> dp_event) list \<Rightarrow> data_plane \<Rightarrow> bool" for os d0 where
  start: "dp_reach os d0 [] d0"
| step: "dp_reach os d0 h d \<Longrightarrow> dp_step os d ev = Some (d', out) \<Longrightarrow> dp_reach os d0 (h @ [(d, ev)]) d'"

subsection \<open>What the packet handlers leave alone\<close>

text \<open>They change the tunnel and the timers of peers, nothing that comes from the network map, and no path.\<close>

definition touched :: "managed_peer \<Rightarrow> managed_peer \<Rightarrow> bool" where
  "touched p q \<longleftrightarrow> (\<exists>w h l. q = p\<lparr> wg := w, lastHandshake := h, lastDiscoPing := l \<rparr>)"

definition framed :: "data_plane \<Rightarrow> data_plane \<Rightarrow> bool" where
  "framed d d' \<longleftrightarrow> dp_identity d' = dp_identity d \<and> fTunFd d' = fTunFd d
     \<and> (\<exists>ps. dp_session d' = (dp_session d)\<lparr> fSessionPeers := ps \<rparr> \<and> list_all2 touched (peers d) ps)"

lemma touched_refl [simp]: "touched p p"
  unfolding touched_def by (rule exI [of _ "wg p"], rule exI [of _ "lastHandshake p"], rule exI [of _ "lastDiscoPing p"]) simp

lemma touched_fields [simp]: "touched p (p\<lparr> wg := w \<rparr>)" "touched p (p\<lparr> lastDiscoPing := l \<rparr>)" "touched p (p\<lparr> wg := w, lastHandshake := h \<rparr>)"
  unfolding touched_def
  by (rule exI [of _ w], rule exI [of _ "lastHandshake p"], rule exI [of _ "lastDiscoPing p"], simp)
    (rule exI [of _ "wg p"], rule exI [of _ "lastHandshake p"], rule exI [of _ l], simp,
     rule exI [of _ w], rule exI [of _ h], rule exI [of _ "lastDiscoPing p"], simp)

lemma touched_trans: "touched p q \<Longrightarrow> touched q r \<Longrightarrow> touched p r"
  unfolding touched_def by (elim exE) (simp, blast)

lemma touched_meta: "touched p q \<Longrightarrow> nodeKeyHex q = nodeKeyHex p \<and> path q = path p"
  by (auto simp: touched_def)

lemma list_all2_touched_refl [simp]: "list_all2 touched ps ps"
  by (simp add: list_all2_same)

lemma framed_refl [simp]: "framed d d"
  unfolding framed_def by (intro conjI exI [of _ "peers d"]) (simp_all add: peers_def)

lemma framed_trans: "framed d d' \<Longrightarrow> framed d' d'' \<Longrightarrow> framed d d''"
  unfolding framed_def
  by (elim conjE exE) (rule conjI, simp, rule conjI, simp, rule exI, auto simp: peers_def intro: list_all2_trans [OF touched_trans])

lemma framed_set_peer:
  assumes "touched (peers d ! i) q"
  shows "framed d (set_peer d i q)"
proof -
  have "touched (peers d ! k) ((peers d)[i := q] ! k)" if "k < length (peers d)" for k
    using assms that by (cases "k = i") auto
  then have "list_all2 touched (peers d) ((peers d)[i := q])" by (simp add: list_all2_conv_all_nth)
  then show ?thesis unfolding framed_def set_peer_def by auto
qed

lemma framed_derp [simp]: "framed d (d\<lparr> dp_derp := c \<rparr>)" "framed d (d\<lparr> fDerpUp := b \<rparr>)" "framed d (d\<lparr> fLastDerpKeepalive := t \<rparr>)"
  unfolding framed_def peers_def by (simp_all, (rule exI [of _ "fSessionPeers (dp_session d)"], simp)+)

lemma SendPeerBytes_framed: "SendPeerBytes d p buf = (d', out) \<Longrightarrow> framed d d' \<and> peers d' = peers d"
  by (auto simp: SendPeerBytes_def peers_def split: option.splits prod.splits if_splits)

lemma SendDiscoPing_touched: "SendDiscoPing os d p now e = (q, out) \<Longrightarrow> touched p q"
  by (auto simp: SendDiscoPing_def Let_def split: if_splits option.splits)

lemma start_handshake_framed: "start_handshake os d p now e = (d', q, out) \<Longrightarrow> framed d d' \<and> peers d' = peers d \<and> touched p q"
  by (auto simp: start_handshake_def Let_def split: prod.splits option.splits if_splits dest: SendPeerBytes_framed)

lemma send_data_framed: "send_data os d p pkt now = (d', q, out) \<Longrightarrow> framed d d' \<and> peers d' = peers d \<and> touched p q"
  by (auto simp: send_data_def Let_def split: prod.splits if_splits dest: SendPeerBytes_framed)

lemma framed_set_peer_via: "framed d d' \<Longrightarrow> peers d' = peers d \<Longrightarrow> touched (peers d ! i) q \<Longrightarrow> framed d (set_peer d' i q)"
  by (rule framed_trans, assumption) (simp add: framed_set_peer)

lemma SendToPeer_framed: "SendToPeer os d i pkt now e = (d', out) \<Longrightarrow> framed d d'"
proof -
  assume a: "SendToPeer os d i pkt now e = (d', out)"
  define p where "p = peers d ! i"
  obtain p1 out1 where p1: "(if fMode (path p) \<noteq> PATH_DIRECT then SendDiscoPing os d p now e else (p, [])) = (p1, out1)" by force
  define p2 where "p2 = p1\<lparr> wg := fst (ExpireIfStale (wg p1) now) \<rparr>"
  have t: "touched p p2" using p1 SendDiscoPing_touched touched_trans [of p p1 p2] by (auto simp: p2_def split: if_splits)
  obtain d2 p3 out2 where h: "(if (if fHasKeys (wg p2) then ShouldInitiateRekey (wg p2) now else now - lastHandshake p2 > 5000000)
      then start_handshake os d p2 now e else (d, p2, [])) = (d2, p3, out2)" by (metis prod_cases3)
  have f2: "framed d d2" "peers d2 = peers d" "touched p p3"
    using h t start_handshake_framed touched_trans by (auto split: if_splits)
  show "framed d d'"
  proof (cases "fHasKeys (wg p2)")
    case False
    then have "d' = set_peer d2 i p3" using a h p1 unfolding SendToPeer_def p_def [symmetric] Let_def p2_def [symmetric]
      by (auto simp: p2_def split: if_splits prod.splits)
    then show ?thesis using f2 by (simp add: p_def framed_set_peer_via)
  next
    case True
    obtain d3 p4 out3 where s: "send_data os d2 p3 pkt now = (d3, p4, out3)" by (metis prod_cases3)
    then have "framed d d3" "peers d3 = peers d" "touched p p4"
      using send_data_framed f2 framed_trans touched_trans by (metis)+
    moreover have "d' = set_peer d3 i p4" using a h p1 s True unfolding SendToPeer_def p_def [symmetric] Let_def
      by (auto simp: p2_def split: if_splits prod.splits)
    ultimately show ?thesis by (simp add: p_def framed_set_peer_via)
  qed
qed

lemma maintain_peer_framed: "maintain_peer os d p now e = (d', q, out) \<Longrightarrow> framed d d' \<and> peers d' = peers d \<and> touched p q"
  by (auto simp: maintain_peer_def Let_def split: if_splits prod.splits
      dest!: start_handshake_framed send_data_framed intro: touched_trans [OF touched_fields(1)])

lemma maintain_loop_framed: "maintain_loop os now es i n d = (d', out) \<Longrightarrow> framed d d'"
proof (induction n arbitrary: i d out)
  case (Suc n)
  obtain d1 q out1 where m: "maintain_peer os d (peers d ! i) now (es i) = (d1, q, out1)" by (metis prod_cases3)
  obtain d2 out2 where l: "maintain_loop os now es (Suc i) n (set_peer d1 i q) = (d2, out2)" by force
  have "d' = d2" using Suc.prems m l by simp
  have "framed d (set_peer d1 i q)" using maintain_peer_framed [OF m] by (simp add: framed_set_peer_via)
  then show ?case using Suc.IH [OF l [folded \<open>d' = d2\<close>]] framed_trans by blast
qed simp

lemma HandleWireGuardPacket_framed: "HandleWireGuardPacket os d buf now e = (d', out) \<Longrightarrow> framed d d'"
  by (auto simp: HandleWireGuardPacket_def Let_def split: if_splits option.splits prod.splits
      intro!: framed_set_peer framed_set_peer_via dest: SendPeerBytes_framed)

lemma tun_packet_framed: "tun_packet os d pkt now e = (d', out) \<Longrightarrow> framed d d'"
  by (auto simp: tun_packet_def Let_def split: if_splits option.splits dest: SendToPeer_framed)

lemma derp_round_framed: "derp_round os stop d now e = (up, d', out) \<Longrightarrow> framed d d'"
proof -
  assume a: "derp_round os stop d now e = (up, d', out)"
  obtain r c where r: "RecvPacket stop (dp_derp d) 2048 = (r, c)" by force
  have "framed (d\<lparr> dp_derp := c \<rparr>) d'" using a r
    by (auto simp: derp_round_def Let_def split: derp_recv.splits if_splits prod.splits dest: HandleWireGuardPacket_framed)
  then show ?thesis by (rule framed_trans [OF framed_derp(1)])
qed

lemma tick_framed: "MaintainPeers os now es d = (d', out) \<Longrightarrow> framed d (DerpKeepaliveTick now d')"
proof -
  assume "MaintainPeers os now es d = (d', out)"
  then have "framed d d'" by (auto simp: MaintainPeers_def dest: maintain_loop_framed)
  moreover have "framed d' (DerpKeepaliveTick now d')"
    by (auto simp: DerpKeepaliveTick_def Let_def intro: framed_trans [OF framed_derp(3) framed_derp(1)])
  ultimately show ?thesis by (rule framed_trans)
qed

lemma relay_framed: "framed d (DerpMarkDown d)" "framed d (snd (DerpReconnect os stop dial nonce d))"
proof -
  show "framed d (DerpMarkDown d)" unfolding DerpMarkDown_def
    by (rule framed_trans [OF framed_derp(2) framed_derp(1)])
  show "framed d (snd (DerpReconnect os stop dial nonce d))"
    by (auto simp: DerpReconnect_def Let_def split: prod.splits intro: framed_trans [OF framed_derp(1) framed_derp(2)])
qed

subsection \<open>Confirmed paths\<close>

text \<open>
  The event is a datagram from \<open>a:port\<close> that opens, under the node's disco key, to a pong sealed
  by the disco key that the map gives for the peer with node key \<open>k\<close>.
\<close>

definition confirms :: "openssl \<Rightarrow> data_plane \<times> dp_event \<Rightarrow> string \<Rightarrow> u32 \<Rightarrow> u16 \<Rightarrow> bool" where
  "confirms os s k a port \<longleftrightarrow>
     (\<exists>pkt now e sender payload. snd s = Ev_Sock pkt (Some (a, port)) now e
        \<and> DiscoOpen (BoxOpen os) (take 2048 pkt) (DiscoPrivate (fst s)) 128 = Some (sender, payload)
        \<and> DiscoMessageType (Some payload) = DISCO_PONG
        \<and> (\<exists>p \<in> set (peers (fst s)). nodeKeyHex p = k \<and> m_discoKey p = ToHex sender))"

definition paths_confirmed :: "openssl \<Rightarrow> (data_plane \<times> dp_event) list \<Rightarrow> data_plane \<Rightarrow> bool" where
  "paths_confirmed os h d \<longleftrightarrow>
     (\<forall>p \<in> set (peers d). fMode (path p) = PATH_DIRECT \<longrightarrow>
        (\<exists>a port. fEndpoint (path p) = endpoint_text a port \<and> (\<exists>s \<in> set h. confirms os s (nodeKeyHex p) a port)))"

lemma framed_member:
  assumes "framed d d'" "q \<in> set (peers d')"
  obtains p where "p \<in> set (peers d)" "touched p q"
proof -
  have l: "list_all2 touched (peers d) (peers d')" using assms(1) by (auto simp: framed_def peers_def)
  obtain i where i: "i < length (peers d')" "q = peers d' ! i" using assms(2) by (auto simp: in_set_conv_nth)
  then show thesis using that [of "peers d ! i"] l by (auto simp: list_all2_conv_all_nth)
qed

lemma framed_sync:
  assumes "framed d d'" "in_sync (dp_session d)"
  shows "in_sync (dp_session d')"
proof -
  obtain ps where ps: "dp_session d' = (dp_session d)\<lparr> fSessionPeers := ps \<rparr>" "list_all2 touched (peers d) ps"
    using assms(1) by (auto simp: framed_def)
  have k: "keys ps = keys (peers d)"
    using ps(2) by (auto simp: keys_def list_all2_conv_all_nth touched_def intro!: nth_equalityI)
  have "\<exists>p \<in> set (peers d). touched p q" if "q \<in> set ps" for q
    using framed_member [OF assms(1), of q] that by (auto simp: peers_def ps(1))
  then have "\<forall>q \<in> set ps. \<exists>np \<in> set (fPeers (fNetmap (dp_session d))). mirrors np q"
    using assms(2) by (fastforce simp: in_sync_def touched_def mirrors_def peers_def)
  then show ?thesis using assms(2) k by (simp add: in_sync_def ps(1) peers_def)
qed

lemma framed_paths: "framed d d' \<Longrightarrow> paths_confirmed os h d \<Longrightarrow> paths_confirmed os (h @ [s]) d'"
proof -
  assume a: "framed d d'" "paths_confirmed os h d"
  show "paths_confirmed os (h @ [s]) d'" unfolding paths_confirmed_def
  proof (intro ballI impI)
    fix q assume q: "q \<in> set (peers d')" "fMode (path q) = PATH_DIRECT"
    obtain r where r: "r \<in> set (peers d)" "nodeKeyHex q = nodeKeyHex r" "path q = path r" using framed_member [OF a(1) q(1)] touched_meta by metis
    then obtain a port where "fEndpoint (path r) = endpoint_text a port" "\<exists>s \<in> set h. confirms os s (nodeKeyHex r) a port"
      using a(2) q(2) unfolding paths_confirmed_def by metis
    then show "\<exists>a port. fEndpoint (path q) = endpoint_text a port \<and> (\<exists>s \<in> set (h @ [s]). confirms os s (nodeKeyHex q) a port)"
      using r by auto
  qed
qed

lemma index_where_hit: "index_where P xs = Some i \<Longrightarrow> i < length xs \<and> P (xs ! i)"
  by (induction xs arbitrary: i) (auto split: if_splits)

lemma index_where_miss: "\<forall>k < length xs. \<not> P (xs ! k) \<Longrightarrow> index_where P xs = None"
proof (induction xs)
  case (Cons x xs)
  then have "\<not> P x" "\<forall>k < length xs. \<not> P (xs ! k)" by auto
  then show ?case using Cons.IH by simp
qed simp

text \<open>The one step that changes a path.\<close>

lemma sock_packet_cases:
  assumes "sock_packet os d pkt src now e = (d', out)"
  shows "framed d d' \<or>
    (\<exists>a port i. src = Some (a, port) \<and> i < length (peers d)
       \<and> d' = set_peer d i ((peers d ! i)\<lparr> path := UpgradeToDirect (path (peers d ! i)) (Some (endpoint_text a port)) now \<rparr>)
       \<and> confirms os (d, Ev_Sock pkt src now e) (nodeKeyHex (peers d ! i)) a port)"
proof (cases "take 2048 pkt \<noteq> [] \<and> Classify (take 2048 pkt) = PKT_DISCO \<and> src \<noteq> None")
  case False
  then have "framed d d'" using assms HandleWireGuardPacket_framed
    by (auto simp: sock_packet_def Let_def split: if_splits SockPacketKind.splits option.splits)
  then show ?thesis ..
next
  case True
  then obtain a port where src: "src = Some (a, port)" by auto
  have h: "HandleDiscoPacket os d (take 2048 pkt) a port now e = (d', out)" using assms True src by (simp add: sock_packet_def Let_def)
  show ?thesis
  proof (cases "DiscoOpen (BoxOpen os) (take 2048 pkt) (DiscoPrivate d) 128")
    case None
    then show ?thesis using h by (simp add: HandleDiscoPacket_def)
  next
    case (Some sp)
    obtain sender payload where o: "DiscoOpen (BoxOpen os) (take 2048 pkt) (DiscoPrivate d) 128 = Some (sender, payload)"
      using Some by (cases sp) simp
    show ?thesis
    proof (cases "DiscoMessageType (Some payload) = DISCO_PONG \<and> FindByDiscoKey (peers d) (Some (ToHex sender)) \<noteq> None")
      case False
      then have "d' = d" using h o by (auto simp: HandleDiscoPacket_def Let_def split: if_splits option.splits)
      then show ?thesis by simp
    next
      case True
      then obtain i where i: "FindByDiscoKey (peers d) (Some (ToHex sender)) = Some i" by auto
      have hit: "i < length (peers d)" "m_discoKey (peers d ! i) = ToHex sender"
        using i index_where_hit [of "\<lambda>p. m_discoKey p = ToHex sender \<and> m_discoKey p \<noteq> []"] by (auto simp: FindByDiscoKey_def)
      have "DISCO_PONG \<noteq> DISCO_PING" by (simp add: DISCO_PONG_def DISCO_PING_def)
      then have "d' = set_peer d i ((peers d ! i)\<lparr> path := UpgradeToDirect (path (peers d ! i)) (Some (endpoint_text a port)) now \<rparr>)"
        using h o i True by (simp add: HandleDiscoPacket_def Let_def)
      moreover have "confirms os (d, Ev_Sock pkt src now e) (nodeKeyHex (peers d ! i)) a port"
        using o True hit src nth_mem [OF hit(1)] by (auto simp: confirms_def)
      ultimately show ?thesis using hit(1) src by blast
    qed
  qed
qed

lemma in_sync_path: "in_sync (dp_session d) \<Longrightarrow> i < length (peers d) \<Longrightarrow> in_sync (dp_session (set_peer d i ((peers d ! i)\<lparr> path := x \<rparr>)))"
proof -
  assume a: "in_sync (dp_session d)" "i < length (peers d)"
  let ?q = "(peers d ! i)\<lparr> path := x \<rparr>"
  have k: "keys ((peers d)[i := ?q]) = keys (peers d)"
    using a(2) by (intro nth_equalityI) (auto simp: keys_def nth_list_update)
  have "\<exists>np \<in> set (fPeers (fNetmap (dp_session d))). mirrors np q" if q: "q \<in> set ((peers d)[i := ?q])" for q
  proof -
    consider "q = ?q" | "q \<in> set (peers d)" using q set_update_subset_insert by fastforce
    then show ?thesis
    proof cases
      case 1
      have "peers d ! i \<in> set (peers d)" using a(2) by simp
      then show ?thesis using a(1) 1 by (fastforce simp: in_sync_def mirrors_def peers_def)
    qed (use a(1) in \<open>auto simp: in_sync_def peers_def\<close>)
  qed
  then show ?thesis using a(1) k by (simp add: in_sync_def set_peer_def peers_def)
qed

lemma upgrade_paths:
  assumes "paths_confirmed os h d" "i < length (peers d)" "confirms os s (nodeKeyHex (peers d ! i)) a port"
  shows "paths_confirmed os (h @ [s]) (set_peer d i ((peers d ! i)\<lparr> path := UpgradeToDirect (path (peers d ! i)) (Some (endpoint_text a port)) now \<rparr>))"
  unfolding paths_confirmed_def
proof (intro ballI impI)
  let ?q = "(peers d ! i)\<lparr> path := UpgradeToDirect (path (peers d ! i)) (Some (endpoint_text a port)) now \<rparr>"
  fix q assume q: "q \<in> set (peers (set_peer d i ?q))" "fMode (path q) = PATH_DIRECT"
  consider "q = ?q" | "q \<in> set (peers d)" using q(1) set_update_subset_insert by fastforce
  then show "\<exists>a port. fEndpoint (path q) = endpoint_text a port \<and> (\<exists>s \<in> set (h @ [s]). confirms os s (nodeKeyHex q) a port)"
  proof cases
    case 1
    then show ?thesis using assms(3) by (intro exI [of _ a] exI [of _ port]) (simp add: UpgradeToDirect_def)
  next
    case 2
    then obtain a port where "fEndpoint (path q) = endpoint_text a port" "\<exists>s \<in> set h. confirms os s (nodeKeyHex q) a port"
      using assms(1) q(2) unfolding paths_confirmed_def by metis
    then show ?thesis by auto
  qed
qed

lemma map_paths:
  assumes "ApplyMapResponse (dp_session d) json = Some (ok, counts, s)" "in_sync (dp_session d)" "paths_confirmed os h d"
  shows "paths_confirmed os (h @ [x]) (d\<lparr> dp_session := s \<rparr>)"
  unfolding paths_confirmed_def
proof (intro ballI impI)
  fix q assume q: "q \<in> set (peers (d\<lparr> dp_session := s \<rparr>))" "fMode (path q) = PATH_DIRECT"
  note a = ApplyMapResponse_sync [OF assms(1,2)]
  have qs: "q \<in> set (fSessionPeers s)" using q(1) by (simp add: peers_def)
  then have "nodeKeyHex q \<in> set (keys (fSessionPeers (dp_session d)))" using a q(2) by blast
  then obtain p where p: "p \<in> set (peers d)" "nodeKeyHex q = nodeKeyHex p" by (auto simp: set_keys peers_def)
  then have "same_tunnel p q" using a qs by (auto simp: peers_def)
  then have "fMode (path p) = PATH_DIRECT" "fEndpoint (path q) = fEndpoint (path p)"
    using q(2) by (auto simp: same_tunnel_def UseDerp_def split: if_splits)
  then obtain a port where "fEndpoint (path q) = endpoint_text a port" "\<exists>s \<in> set h. confirms os s (nodeKeyHex q) a port"
    using assms(3) p unfolding paths_confirmed_def by metis
  then show "\<exists>a port. fEndpoint (path q) = endpoint_text a port \<and> (\<exists>s \<in> set (h @ [x]). confirms os s (nodeKeyHex q) a port)"
    by auto
qed

lemma dp_step_cases:
  assumes "dp_step os d ev = Some (d', out)"
  obtains (framed) "framed d d'"
  | (pong) a port i now where "i < length (peers d)" "confirms os (d, ev) (nodeKeyHex (peers d ! i)) a port"
      "d' = set_peer d i ((peers d ! i)\<lparr> path := UpgradeToDirect (path (peers d ! i)) (Some (endpoint_text a port)) now \<rparr>)"
  | (netmap) json ok counts s where "ApplyMapResponse (dp_session d) json = Some (ok, counts, s)" "d' = d\<lparr> dp_session := s \<rparr>"
proof (cases ev)
  case (Ev_Sock pkt src now e)
  then show thesis using sock_packet_cases [of os d pkt src now e d' out] assms framed pong by auto
next
  case (Ev_Derp stop now e)
  obtain up d1 o1 where r: "derp_round os stop d now e = (up, d1, o1)" by (metis prod_cases3)
  then have "framed d d'" using assms Ev_Derp derp_round_framed [OF r] relay_framed(1) framed_trans by (auto split: if_splits)
  then show thesis by (rule framed)
qed (use assms framed netmap in \<open>auto simp: relay_framed(2) dest: tun_packet_framed tick_framed split: prod.splits option.splits\<close>)

text \<open>
  C10. The data plane and the network map: in every state that packets, ticks, relay drops and map
  messages can lead to, from one in which the session is in step and no path is direct, the peer
  set has exactly the peers of the network map with its metadata, the host table and the own address
  are those of the map, and traffic is sent directly to an address only if a pong sealed with that
  peer's disco key, as the map had it then, came from this address and port.
\<close>

theorem data_plane_follows_map:
  assumes "dp_reach os d0 h d" "in_sync (dp_session d0)" "\<forall>p \<in> set (peers d0). fMode (path p) \<noteq> PATH_DIRECT"
  shows "in_sync (dp_session d)
     \<and> (\<forall>p \<in> set (peers d). \<forall>a port. peer_sockaddr p = Some (a, port) \<longrightarrow> (\<exists>s \<in> set h. confirms os s (nodeKeyHex p) a port))"
proof -
  have "in_sync (dp_session d) \<and> paths_confirmed os h d" using assms(1)
  proof induction
    case start
    then show ?case using assms(2,3) by (simp add: paths_confirmed_def)
  next
    case (step h d ev d' out)
    from step(2) show ?case
    proof (cases rule: dp_step_cases)
      case framed
      then show ?thesis using step(3) framed_sync framed_paths by blast
    next
      case (pong a port i now)
      then show ?thesis using step(3) in_sync_path upgrade_paths by blast
    next
      case (netmap json ok counts s)
      then show ?thesis using step(3) map_paths ApplyMapResponse_sync [OF netmap(1)] by simp
    qed
  qed
  moreover have "\<exists>s \<in> set h. confirms os s (nodeKeyHex p) a port"
    if p: "p \<in> set (peers d)" "peer_sockaddr p = Some (a, port)" and c: "paths_confirmed os h d" for p a port
  proof -
    have m: "fMode (path p) = PATH_DIRECT" by (rule peer_sockaddr_direct [OF p(2)])
    then obtain b q where e: "fEndpoint (path p) = endpoint_text b q" and s: "\<exists>s \<in> set h. confirms os s (nodeKeyHex p) b q"
      using c p(1) unfolding paths_confirmed_def by metis
    have "b = a" "q = port" using peer_sockaddr_text [OF m e] p(2) by (auto split: if_splits)
    then show ?thesis using s by simp
  qed
  ultimately show ?thesis by blast
qed

definition lone_peer :: netmap_peer where
  "lone_peer = NetmapPeer\<lparr> n_nodeKey := ''ab'', n_discoKey := ToHex (replicate 32 2) \<rparr>"

definition lone_session :: session_state where
  "lone_session = (let nm = TSNetmap\<lparr> fPeers := [lone_peer] \<rparr> in
     \<lparr> fNetmap = nm, fSessionPeers = [new_peer lone_peer], fMagicDns = LoadFromNetmap nm \<lparr> fDomain = [], fHosts = [] \<rparr>, fSelfIP = SelfIPv4 nm \<rparr>)"

definition lone_node :: data_plane where
  "lone_node = (sample_node 1 2 0 0)\<lparr> dp_session := lone_session,
     dp_identity := \<lparr> fProfileName = [], fMachine = zero_key, fNode = zero_key,
                       fDisco = \<lparr> priv = replicate 32 1, pub = replicate 32 1 \<rparr>, fValid = True \<rparr> \<rparr>"

lemma lone_sync: "in_sync lone_session"
  unfolding in_sync_def lone_session_def Let_def
  by (simp add: LoadFromNetmap_table(1) keys_def map_keys_def lone_peer_def mirrors_new TSNetmap_def)

lemma sealed_pong:
  obtains pkt where "DiscoOpen (BoxOpen toy_openssl) pkt (replicate 32 1) 128 = Some (replicate 32 2, EncodePong (replicate 12 9) None 5)"
    "length pkt \<le> 2048" "take 6 pkt = kDiscoMagic" "6 \<le> length pkt"
proof -
  let ?pong = "EncodePong (replicate 12 9) None 5"
  have l: "length ?pong = 32" by (simp add: EncodePong_def encode_ipv4_mapped_def)
  obtain pkt where p: "DiscoSeal (BoxSeal toy_openssl) 256 (replicate 24 7) (replicate 32 2) (replicate 32 2) (replicate 32 1) ?pong = Some pkt"
      "length pkt = length ?pong + 78" "DiscoOpen (BoxOpen toy_openssl) pkt (replicate 32 1) 128 = Some (replicate 32 2, ?pong)"
    using nacl.disco_seal_open [of toy_openssl "replicate 32 2" "replicate 32 2" "replicate 32 1" "replicate 32 1" "replicate 24 7" ?pong 256 128] l
    by auto
  moreover have "take 6 pkt = kDiscoMagic" using p(1) by (auto simp: DiscoSeal_def Let_def kDiscoMagic_def split: if_splits option.splits)
  ultimately show thesis using that [of pkt] l by simp
qed

theorem data_plane_follows_map_witness:
  "\<exists>pkt d. dp_reach toy_openssl lone_node [(lone_node, Ev_Sock pkt (Some (0x0A000002, 41641)) 5 (sample_entropy 0 0))] d
     \<and> in_sync (dp_session d) \<and> peer_sockaddr (peers d ! 0) = Some (0x0A000002, 41641)
     \<and> confirms toy_openssl (lone_node, Ev_Sock pkt (Some (0x0A000002, 41641)) 5 (sample_entropy 0 0)) ''ab'' 0x0A000002 41641"
proof -
  let ?pong = "EncodePong (replicate 12 9) None 5"
  obtain pkt where pkt: "DiscoOpen (BoxOpen toy_openssl) pkt (replicate 32 1) 128 = Some (replicate 32 2, ?pong)"
    "length pkt \<le> 2048" "take 6 pkt = kDiscoMagic" "6 \<le> length pkt" using sealed_pong .
  let ?ev = "Ev_Sock pkt (Some (0x0A000002, 41641)) 5 (sample_entropy 0 0)"
  have cl: "take 2048 pkt = pkt" "pkt \<noteq> []" "Classify pkt = PKT_DISCO" using pkt(2-4) by (auto simp: Classify_def kDiscoMagic_def)
  have ty: "DiscoMessageType (Some ?pong) = DISCO_PONG" by (simp add: DiscoMessageType_def EncodePong_def kDiscoMsgHeaderLen_def)
  have n: "DiscoPrivate lone_node = replicate 32 1" "peers lone_node = [new_peer lone_peer]" "dp_session lone_node = lone_session"
    by (simp_all add: lone_node_def DiscoPrivate_def peers_def lone_session_def Let_def)
  have key: "nodeKeyHex (new_peer lone_peer) = ''ab''" "m_discoKey (new_peer lone_peer) = ToHex (replicate 32 2)"
    using mirrors_new [of lone_peer] by (auto simp: mirrors_def lone_peer_def)
  have "ToHex (replicate 32 2) \<noteq> []" using length_ToHex [of "replicate 32 2"] by (metis length_0_conv length_replicate mult_eq_0_iff zero_neq_numeral)
  then have f: "FindByDiscoKey (peers lone_node) (Some (ToHex (replicate 32 2))) = Some 0" using key by (simp add: FindByDiscoKey_def n)
  have ne: "DISCO_PONG \<noteq> DISCO_PING" by (simp add: DISCO_PONG_def DISCO_PING_def)
  let ?q = "(new_peer lone_peer)\<lparr> path := UpgradeToDirect (path (new_peer lone_peer)) (Some (endpoint_text 0x0A000002 41641)) 5 \<rparr>"
  have "dp_step toy_openssl lone_node ?ev = Some (set_peer lone_node 0 ?q, [])"
    using cl pkt(1) ty f ne by (simp add: sock_packet_def HandleDiscoPacket_def n Let_def)
  then have r: "dp_reach toy_openssl lone_node [(lone_node, ?ev)] (set_peer lone_node 0 ?q)"
    using dp_reach.step [OF dp_reach.start, of toy_openssl lone_node ?ev] by simp
  have s: "peer_sockaddr (peers (set_peer lone_node 0 ?q) ! 0) = Some (0x0A000002, 41641)" "?q \<in> set (peers (set_peer lone_node 0 ?q))"
    by (simp_all add: n peer_sockaddr_text UpgradeToDirect_def)
  have "in_sync (dp_session (set_peer lone_node 0 ?q))
     \<and> (\<forall>p \<in> set (peers (set_peer lone_node 0 ?q)). \<forall>a port. peer_sockaddr p = Some (a, port) \<longrightarrow>
          (\<exists>s \<in> set [(lone_node, ?ev)]. confirms toy_openssl s (nodeKeyHex p) a port))"
    by (rule data_plane_follows_map [OF r]) (simp_all add: n lone_sync new_peer_relayed)
  then show ?thesis using r s key(1) by (intro exI [of _ pkt] exI [of _ "set_peer lone_node 0 ?q"]) (auto simp: n)
qed

subsection \<open>What reaches the tunnel\<close>

lemma SendPeerBytes_no_write: "SendPeerBytes d p buf = (d', out) \<Longrightarrow> TunWrite pkt \<notin> set out"
  by (auto simp: SendPeerBytes_def SockSend_def split: option.splits prod.splits if_splits)

lemma SendDiscoPing_no_write: "SendDiscoPing os d p now e = (q, out) \<Longrightarrow> TunWrite pkt \<notin> set out"
  by (auto simp: SendDiscoPing_def ping_endpoint_def SockSend_def Let_def split: if_splits option.splits)

lemma start_handshake_no_write: "start_handshake os d p now e = (d', q, out) \<Longrightarrow> TunWrite pkt \<notin> set out"
  by (auto simp: start_handshake_def Let_def split: prod.splits option.splits if_splits dest: SendPeerBytes_no_write)

lemma send_data_no_write: "send_data os d p b now = (d', q, out) \<Longrightarrow> TunWrite pkt \<notin> set out"
  by (auto simp: send_data_def Let_def split: prod.splits if_splits dest: SendPeerBytes_no_write)

lemmas no_write = SendPeerBytes_no_write SendDiscoPing_no_write start_handshake_no_write send_data_no_write

lemma tun_packet_no_write: "tun_packet os d b now e = (d', out) \<Longrightarrow> TunWrite pkt \<notin> set out"
  by (auto simp: tun_packet_def SendToPeer_def Let_def split: if_splits option.splits prod.splits dest: no_write)

lemma maintain_no_write: "maintain_loop os now es i n d = (d', out) \<Longrightarrow> TunWrite pkt \<notin> set out"
proof (induction n arbitrary: i d out)
  case (Suc n)
  obtain d1 q out1 where m: "maintain_peer os d (peers d ! i) now (es i) = (d1, q, out1)" by (metis prod_cases3)
  obtain d2 out2 where l: "maintain_loop os now es (Suc i) n (set_peer d1 i q) = (d2, out2)" by force
  have "TunWrite pkt \<notin> set out1" using m by (auto simp: maintain_peer_def Let_def split: if_splits prod.splits dest: no_write)
  moreover have "d' = d2" "out = out1 @ out2" using Suc.prems m l by simp_all
  ultimately show ?case using Suc.IH [of "Suc i" "set_peer d1 i q" out2] l by simp
qed simp

lemma HandleDisco_no_write: "HandleDiscoPacket os d buf a port now e = (d', out) \<Longrightarrow> TunWrite pkt \<notin> set out"
  by (auto simp: HandleDiscoPacket_def SockSend_def Let_def split: if_splits option.splits)

text \<open>\<open>authentic os d buf pkt\<close>: the message \<open>buf\<close> carries the packet \<open>pkt\<close> for a session of the node, and is fresh.\<close>

definition authentic :: "openssl \<Rightarrow> data_plane \<Rightarrow> bytes \<Rightarrow> bytes \<Rightarrow> bool" where
  "authentic os d buf pkt \<longleftrightarrow>
     (\<exists>i plain. i < length (peers d) \<and> fHasKeys (wg (peers d ! i)) \<and> fSenderIndex (wg (peers d ! i)) = load32_le (drop 4 buf)
        \<and> AeadDecrypt os (fRecvKey (wg (peers d ! i))) (load64_le (drop 8 buf)) (drop 16 buf) [] = Some plain
        \<and> pkt = take (ip_packet_length plain) plain \<and> pkt \<noteq> []
        \<and> snd (ReplayValidate (wg (peers d ! i)) (load64_le (drop 8 buf))))"

definition received :: "data_plane \<Rightarrow> dp_event \<Rightarrow> bytes \<Rightarrow> bool" where
  "received d ev buf \<longleftrightarrow> (\<exists>pkt src now e. ev = Ev_Sock pkt src now e \<and> buf = take 2048 pkt)
     \<or> (\<exists>stop now e src. ev = Ev_Derp stop now e \<and> fst (RecvPacket stop (dp_derp d) 2048) = Packet src buf)"

lemma HandleWireGuard_write:
  assumes "HandleWireGuardPacket os d buf now e = (d', out)" "TunWrite pkt \<in> set out"
  shows "authentic os d buf pkt"
proof -
  have "\<exists>i w. FindBySenderIndex (peers d) (load32_le (drop 4 buf)) = Some i \<and> Decapsulate os (wg (peers d ! i)) buf = (w, Some pkt) \<and> pkt \<noteq> []"
    using assms by (auto simp: HandleWireGuardPacket_def Let_def split: if_splits option.splits prod.splits dest: no_write)
  then obtain i w where i: "FindBySenderIndex (peers d) (load32_le (drop 4 buf)) = Some i"
    "Decapsulate os (wg (peers d ! i)) buf = (w, Some pkt)" "pkt \<noteq> []" by blast
  have hit: "i < length (peers d)" "fSenderIndex (wg (peers d ! i)) = load32_le (drop 4 buf)"
    using i(1) index_where_hit [of "\<lambda>p. fSenderIndex (wg p) = load32_le (drop 4 buf)"] by (auto simp: FindBySenderIndex_def split: if_splits)
  have "fHasKeys (wg (peers d ! i))" using i(2) by (auto simp: Decapsulate_def split: if_splits)
  moreover have "\<exists>plain. AeadDecrypt os (fRecvKey (wg (peers d ! i))) (load64_le (drop 8 buf)) (drop 16 buf) [] = Some plain
      \<and> pkt = take (ip_packet_length plain) plain \<and> snd (ReplayValidate (wg (peers d ! i)) (load64_le (drop 8 buf)))"
    using i(2) by (auto simp: Decapsulate_def Let_def split: if_splits option.splits prod.splits)
  ultimately show ?thesis unfolding authentic_def using hit i(3) by blast
qed

text \<open>
  C11. Only authentic packets reach the tunnel: whatever event the data plane handles, a packet is
  written to the tunnel device only for a datagram or a relayed packet that names a session of this
  node, decrypts under the receiving key of that session to the packet (with padding), and whose
  counter the anti-replay window of the session accepts.
\<close>

theorem tun_writes_authentic:
  assumes "dp_step os d ev = Some (d', out)" "TunWrite pkt \<in> set out"
  shows "\<exists>buf. received d ev buf \<and> authentic os d buf pkt"
proof (cases ev)
  case (Ev_Tun b now e)
  then show ?thesis using assms tun_packet_no_write by (metis dp_step.simps(1) option.inject prod.collapse)
next
  case (Ev_Sock b src now e)
  have s: "sock_packet os d b src now e = (d', out)" using assms(1) Ev_Sock by simp
  then have "HandleWireGuardPacket os d (take 2048 b) now e = (d', out)" using assms(2) HandleDisco_no_write
    by (auto simp: sock_packet_def Let_def split: if_splits SockPacketKind.splits option.splits)
  then show ?thesis using HandleWireGuard_write [OF _ assms(2)] Ev_Sock unfolding received_def by blast
next
  case (Ev_Derp stop now e)
  obtain r c where r: "RecvPacket stop (dp_derp d) 2048 = (r, c)" by force
  obtain src buf d1 where h: "r = Packet src buf" "HandleWireGuardPacket os (d\<lparr> dp_derp := c \<rparr>) buf now e = (d1, out)"
    using assms Ev_Derp r by (auto simp: derp_round_def Let_def split: derp_recv.splits if_splits prod.splits)
  have "authentic os (d\<lparr> dp_derp := c \<rparr>) buf pkt" by (rule HandleWireGuard_write [OF h(2) assms(2)])
  then have "authentic os d buf pkt" by (simp add: authentic_def peers_def)
  then show ?thesis using Ev_Derp r h(1) unfolding received_def by auto
next
  case (Ev_Tick now es)
  then show ?thesis using assms maintain_no_write by (auto simp: MaintainPeers_def split: prod.splits)
qed (use assms in \<open>auto split: option.splits\<close>)

text \<open>The two ends of a session, and a node with the first of them.\<close>

definition end_a :: wgpeer where
  "end_a = SetTransport (SetNodeKey (WGPeer\<lparr> fSenderIndex := 11 \<rparr>) (replicate 32 2)) (replicate 32 5) (replicate 32 6) 22 1"

definition end_b :: wgpeer where
  "end_b = SetTransport (WGPeer\<lparr> fSenderIndex := 22 \<rparr>) (replicate 32 6) (replicate 32 5) 11 1"

definition live_node :: data_plane where
  "live_node = set_peer lone_node 0 ((new_peer lone_peer)\<lparr> wg := end_a \<rparr>)"

lemma live_peers: "peers live_node = [(new_peer lone_peer)\<lparr> wg := end_a \<rparr>]" "fTunFd live_node = 7"
  by (simp_all add: live_node_def lone_node_def lone_session_def peers_def Let_def set_peer_def sample_node_def)

lemma session_ends: "session end_b end_a"
  by (simp add: session_def end_a_def end_b_def SetNodeKey_def)

lemma live_message:
  obtains m rest w where "m = [4, 0, 0, 0] @ store32_le 11 @ rest" "32 \<le> length m" "length m \<le> 2048"
    "Decapsulate toy_openssl end_a m = (w, Some sample_packet)"
proof -
  have p: "ip_packet sample_packet" "length sample_packet \<le> 2016" by (simp_all add: ip_packet_def sample_packet_def)
  obtain w m rest w' where "Encapsulate toy_openssl end_b sample_packet 1 = (w, m)" "m = [4, 0, 0, 0] @ store32_le (fReceiverIndex end_b) @ rest"
    "32 \<le> length m" "length m \<le> 2048" "Decapsulate toy_openssl end_a m = (w', Some sample_packet)"
    using session_one [OF toy_aead_laws session_ends p, of 1] .
  then show thesis using that [of m rest w'] by (simp add: end_b_def)
qed

lemma live_index: "FindBySenderIndex (peers live_node) 11 = Some 0" "11 \<noteq> kCookieIndex"
proof -
  show "FindBySenderIndex (peers live_node) 11 = Some 0" by (simp add: live_peers FindBySenderIndex_def end_a_def SetNodeKey_def)
  show "11 \<noteq> kCookieIndex" by code_simp
qed

theorem tun_writes_authentic_witness:
  "\<exists>m d. dp_step toy_openssl live_node (Ev_Sock m None 5 (sample_entropy 0 0)) = Some (d, [TunWrite sample_packet])
     \<and> (\<exists>buf. received live_node (Ev_Sock m None 5 (sample_entropy 0 0)) buf \<and> authentic toy_openssl live_node buf sample_packet)"
proof -
  obtain m rest w where m: "m = [4, 0, 0, 0] @ store32_le 11 @ rest" "32 \<le> length m" "length m \<le> 2048"
    "Decapsulate toy_openssl end_a m = (w, Some sample_packet)" using live_message .
  have "sample_packet \<noteq> []" by (simp add: sample_packet_def)
  then have s: "sock_packet toy_openssl live_node m None 5 (sample_entropy 0 0)
      = (set_peer live_node 0 ((peers live_node ! 0)\<lparr> wg := w \<rparr>), [TunWrite sample_packet])"
    using accept_data [OF live_index(1) m(1) live_index(2) m(2,3), of toy_openssl w sample_packet None 5 "sample_entropy 0 0"] m(4)
    by (simp add: live_peers)
  let ?ev = "Ev_Sock m None 5 (sample_entropy 0 0)" and ?d = "set_peer live_node 0 ((peers live_node ! 0)\<lparr> wg := w \<rparr>)"
  have st: "dp_step toy_openssl live_node ?ev = Some (?d, [TunWrite sample_packet])" using s by simp
  have "\<exists>buf. received live_node ?ev buf \<and> authentic toy_openssl live_node buf sample_packet"
    using tun_writes_authentic [OF st, of sample_packet] by simp
  then show ?thesis using st by blast
qed

text \<open>
  A rekey interrupts the session it renews: a keyed peer whose session is due for a rekey gets a
  new initiation on the next tick, which replaces the index that the other side still addresses.  A
  message that would have been decrypted and written to the tunnel before the tick is then dropped,
  although the keys that open it are still in place.
\<close>

theorem rekey_drops_inbound:
  assumes "i < length (peers d)" "p = peers d ! i" "index_free d i (fSenderIndex (wg p))" "fHasKeys (wg p)"
    and "ShouldInitiateRekey (wg p) now" "now - fEstablished (wg p) \<le> kRejectAfterTime"
    and "BuildInitiation os (wg p) (NodePrivate d) (fNodeKey (wg p)) (e_keygen e) (e_unix e) (Some idx) now = (w, Some init)"
    and "length init = 148" "e_index e = Some idx" "idx \<noteq> fSenderIndex (wg p)"
    and "m = [4, 0, 0, 0] @ store32_le (fSenderIndex (wg p)) @ rest" "32 \<le> length m"
    and "Decapsulate os (wg p) m = (w', Some pkt)" "pkt \<noteq> []" "fTunFd d \<ge> 0"
  shows "snd (HandleWireGuardPacket os d m now e') = [TunWrite pkt]
     \<and> (\<exists>d1 q out. maintain_peer os d p now e = (d1, q, out) \<and> fHasKeys (wg q) \<and> fRecvKey (wg q) = fRecvKey (wg p)
          \<and> HandleWireGuardPacket os (set_peer d1 i q) m now e' = (set_peer d1 i q, []))"
proof -
  have msg: "m ! 0 = 4" "load32_le (drop 4 m) = fSenderIndex (wg p)" "\<not> length m < 4" using assms(11,12) by auto
  have "FindBySenderIndex (peers d) (fSenderIndex (wg p)) = Some i"
    using FindBySenderIndex_own [OF assms(3,1), of p] assms(2) by simp
  then have before: "snd (HandleWireGuardPacket os d m now e') = [TunWrite pkt]"
    using msg assms(2,12-15) by (simp add: HandleWireGuardPacket_def Let_def)
  have sh: "fSenderIndex w = idx" "fHasKeys w" "fRecvKey w = fRecvKey (wg p)"
    using BuildInitiation_shape [OF assms(7)] assms(4) by auto
  let ?q = "p\<lparr> wg := w, lastHandshake := now \<rparr>"
  obtain d1 out where s: "SendPeerBytes d ?q init = (d1, out)" by force
  have x: "ExpireIfStale (wg p) now = (wg p, False)" using assms(6) by (simp add: ExpireIfStale_def)
  have mt: "maintain_peer os d p now e = (d1, ?q, out)"
    using assms(4,5,7-9) x s by (simp add: maintain_peer_def start_handshake_def Let_def)
  have "peers d1 = peers d" using SendPeerBytes_framed [OF s] by simp
  moreover have "FindBySenderIndex ((peers d)[i := ?q]) (fSenderIndex (wg p)) = None"
  proof -
    have "\<forall>k < length ((peers d)[i := ?q]). fSenderIndex (wg ((peers d)[i := ?q] ! k)) \<noteq> fSenderIndex (wg p)"
    proof (intro allI impI)
      fix k assume "k < length ((peers d)[i := ?q])"
      then show "fSenderIndex (wg ((peers d)[i := ?q] ! k)) \<noteq> fSenderIndex (wg p)"
        using assms(1,3,10) sh(1) by (cases "k = i") (auto simp: index_free_def)
    qed
    then have "index_where (\<lambda>r. fSenderIndex (wg r) = fSenderIndex (wg p)) ((peers d)[i := ?q]) = None" by (rule index_where_miss)
    then show ?thesis by (simp add: FindBySenderIndex_def)
  qed
  ultimately have "HandleWireGuardPacket os (set_peer d1 i ?q) m now e' = (set_peer d1 i ?q, [])"
    using msg assms(12) by (simp add: HandleWireGuardPacket_def)
  then show ?thesis using before mt sh by auto
qed

theorem rekey_drops_inbound_witness:
  "\<exists>m. snd (HandleWireGuardPacket toy_openssl live_node m 125000000 (sample_entropy 0 0)) = [TunWrite sample_packet]
     \<and> (\<exists>d1 q out. maintain_peer toy_openssl live_node (peers live_node ! 0) 125000000 (sample_entropy 3 33) = (d1, q, out) \<and> fHasKeys (wg q)
          \<and> HandleWireGuardPacket toy_openssl (set_peer d1 0 q) m 125000000 (sample_entropy 0 0) = (set_peer d1 0 q, []))"
proof -
  let ?p = "peers live_node ! 0" and ?e = "sample_entropy 3 33"
  obtain m rest w where m: "m = [4, 0, 0, 0] @ store32_le 11 @ rest" "32 \<le> length m" "length m \<le> 2048"
    "Decapsulate toy_openssl end_a m = (w, Some sample_packet)" using live_message .
  have p: "wg ?p = end_a" "fSenderIndex end_a = 11" "fNodeKey end_a = replicate 32 2" "fHasKeys end_a" "fEstablished end_a = 1"
      "fLastInitiation end_a = 0"
    by (simp_all add: live_peers end_a_def SetNodeKey_def WGPeer_def SetTransport_def Let_def ResetReplay_def Now_def)
  have k: "NodePrivate live_node = replicate 32 0"
    by (simp add: live_node_def lone_node_def NodePrivate_def zero_key_def)
  obtain w2 init where b: "BuildInitiation toy_openssl end_a (replicate 32 0) (replicate 32 2) (Some (replicate 32 3, replicate 32 3)) 0 (Some 33) 125000000
      = (w2, Some init)" "length init = 148"
    using initiation_agree [OF toy_aead_laws toy_dh_laws toy_keypair [of "replicate 32 0"] toy_keypair [of "replicate 32 2"]
        toy_keypair [of "replicate 32 3"], of end_a 0 33 125000000] by auto
  show ?thesis
    by (rule exI [of _ m])
      (use rekey_drops_inbound [where d = live_node and i = 0 and p = ?p and now = 125000000 and os = toy_openssl and e = ?e and idx = 33
          and w = w2 and init = init and m = m and rest = rest and w' = w and pkt = sample_packet and e' = "sample_entropy 0 0"]
        p k b m in \<open>auto simp: live_peers index_free_def ShouldInitiateRekey_def kRekeyAfterTime_def kRejectAfterTime_def kRekeyTimeout_def
          sample_entropy_def sample_packet_def\<close>)
qed

end
