(* ===== verification/WGEngine.thy ===== *)
theory WGEngine
  imports Handshake
begin

text \<open>
  The protocol engine of \<open>src/src/backend/WireGuardBackend.cpp\<close>: the handshake as initiator
  (\<open>_PerformHandshake\<close>) and the transport messages (\<open>_Encapsulate\<close>, \<open>_Decapsulate\<close>).  The file has
  its own copies of the little-endian helpers, of \<open>mix_hash\<close> and of the replay window, with the code
  of \<open>WGPeer.cpp\<close>; those definitions are shared.  Its \<open>ip_packet_length\<close> differs.

  This is the repository's second implementation of WireGuard.  The results relate it to the first:
  a simulation with \<open>ts::WGPeer\<close>, step by step, and with it the agreement and delivery theorems for
  a connection between the two.
\<close>

subsection \<open>State\<close>

record wg_engine = replay +
  wePrivateKey :: bytes
  wePeerPublicKey :: bytes
  wePresharedKey :: bytes
  weHavePresharedKey :: bool
  weEphemeralPrivate :: bytes
  weEphemeralPublic :: bytes
  weChainingKey :: bytes
  weHash :: bytes
  weSenderIndex :: u32
  weReceiverIndex :: u32
  weSendKey :: bytes
  weRecvKey :: bytes
  weSendCounter :: u64

definition wg_engine_init :: wg_engine where
  "wg_engine_init = \<lparr> fReplayCounter = 0, fReplayBitmap = replicate 128 0,
     wePrivateKey = zero32, wePeerPublicKey = zero32, wePresharedKey = zero32, weHavePresharedKey = False,
     weEphemeralPrivate = zero32, weEphemeralPublic = zero32, weChainingKey = zero32, weHash = zero32,
     weSenderIndex = 0, weReceiverIndex = 0, weSendKey = zero32, weRecvKey = zero32, weSendCounter = 0 \<rparr>"

text \<open>\<open>ip_packet_length\<close>: anything that is not an IP header keeps its padded length.\<close>

definition wg_packet_length :: "bytes \<Rightarrow> nat" where
  "wg_packet_length p =
     (let maxLen = length p in
      if maxLen = 0 then 0
      else let version = drop_bit 4 (p ! 0) in
        if version = 4 \<and> maxLen \<ge> 20
        then (let total = 256 * unat (p ! 2) + unat (p ! 3) in if total \<le> maxLen then total else maxLen)
        else if version = 6 \<and> maxLen \<ge> 40
        then (let total = 40 + (256 * unat (p ! 4) + unat (p ! 5)) in if total \<le> maxLen then total else maxLen)
        else maxLen)"

subsection \<open>Handshake\<close>

text \<open>The initiation, up to the assembled message; \<open>None\<close> where the code returns false.\<close>

definition wg_initiation ::
  "openssl \<Rightarrow> 'a wg_engine_scheme \<Rightarrow> (bytes \<times> bytes) option \<Rightarrow> u64 \<Rightarrow> u32 option \<Rightarrow> 'a wg_engine_scheme \<times> bytes option" where
  "wg_initiation os s keygen unixTime random =
     (case DhPublic os (wePrivateKey s) of None \<Rightarrow> (s, None) | Some staticPub \<Rightarrow>
      let s = s\<lparr> weChainingKey := Hash kConstruction \<rparr>;
          s = s\<lparr> weHash := hash2 (weChainingKey s) kIdentifier \<rparr>;
          s = s\<lparr> weHash := hash2 (weHash s) (wePeerPublicKey s) \<rparr> in
      case DhGenerate keygen of None \<Rightarrow> (s, None) | Some (ePriv, ePub) \<Rightarrow>
      let s = s\<lparr> weEphemeralPrivate := ePriv, weEphemeralPublic := ePub \<rparr>;
          s = s\<lparr> weChainingKey := Kdf1 (weChainingKey s) (weEphemeralPublic s) \<rparr>;
          s = s\<lparr> weHash := hash2 (weHash s) (weEphemeralPublic s) \<rparr> in
      case Dh os (weEphemeralPrivate s) (wePeerPublicKey s) of None \<Rightarrow> (s, None) | Some dh \<Rightarrow>
      let (ck, key) = Kdf2 (weChainingKey s) dh; s = s\<lparr> weChainingKey := ck \<rparr> in
      case AeadEncrypt os key 0 staticPub (weHash s) of None \<Rightarrow> (s, None) | Some encStatic \<Rightarrow>
      let s = s\<lparr> weHash := hash2 (weHash s) encStatic \<rparr> in
      case Dh os (wePrivateKey s) (wePeerPublicKey s) of None \<Rightarrow> (s, None) | Some dh \<Rightarrow>
      let (ck, key) = Kdf2 (weChainingKey s) dh; s = s\<lparr> weChainingKey := ck \<rparr> in
      case AeadEncrypt os key 0 (Tai64n unixTime) (weHash s) of None \<Rightarrow> (s, None) | Some encTs \<Rightarrow>
      let s = s\<lparr> weHash := hash2 (weHash s) encTs \<rparr> in
      case random of None \<Rightarrow> (s, None) | Some idx \<Rightarrow>
      let s = s\<lparr> weSenderIndex := idx \<rparr>;
          msg = [1, 0, 0, 0] @ store32_le (weSenderIndex s) @ weEphemeralPublic s @ encStatic @ encTs;
          mac1Key = hash2 kLabelMac1 (wePeerPublicKey s)
      in (s, Some (msg @ Mac16 mac1Key msg @ replicate 16 0)))"

text \<open>
  What the socket delivers: \<open>None\<close> is a timeout or an error.  The wait for the response takes up to
  64 datagrams of at most 256 bytes.
\<close>

fun wait_response :: "nat \<Rightarrow> bytes option list \<Rightarrow> bytes option \<times> bytes option list" where
  "wait_response 0 net = (None, net)"
| "wait_response (Suc tries) [] = (None, [])"
| "wait_response (Suc tries) (None # net) = (None, net)"
| "wait_response (Suc tries) (Some d # net) =
     (let resp = take 256 d in
      if resp = [] then (None, net)
      else if length resp = 92 \<and> resp ! 0 = 2 then (Some resp, net)
      else wait_response tries net)"

definition wg_response :: "openssl \<Rightarrow> 'a wg_engine_scheme \<Rightarrow> bytes \<Rightarrow> 'a wg_engine_scheme \<times> bool" where
  "wg_response os s resp =
     (if load32_le (drop 8 resp) \<noteq> weSenderIndex s then (s, False)
      else
      let s = s\<lparr> weReceiverIndex := load32_le (drop 4 resp) \<rparr>;
          peerEphemeral = slice 12 32 resp;
          encNothing = slice 44 16 resp;
          s = s\<lparr> weChainingKey := Kdf1 (weChainingKey s) peerEphemeral \<rparr>;
          s = s\<lparr> weHash := hash2 (weHash s) peerEphemeral \<rparr> in
      case Dh os (weEphemeralPrivate s) peerEphemeral of None \<Rightarrow> (s, False) | Some dh \<Rightarrow>
      let s = s\<lparr> weChainingKey := Kdf1 (weChainingKey s) dh \<rparr> in
      case Dh os (wePrivateKey s) peerEphemeral of None \<Rightarrow> (s, False) | Some dh \<Rightarrow>
      let s = s\<lparr> weChainingKey := Kdf1 (weChainingKey s) dh \<rparr>;
          psk = (if weHavePresharedKey s then wePresharedKey s else zero32);
          (ck, tau, key) = Kdf3 (weChainingKey s) psk;
          s = s\<lparr> weChainingKey := ck \<rparr>;
          s = s\<lparr> weHash := hash2 (weHash s) tau \<rparr> in
      case AeadDecrypt os key 0 encNothing (weHash s) of None \<Rightarrow> (s, False) | Some _ \<Rightarrow>
      let s = s\<lparr> weHash := hash2 (weHash s) encNothing \<rparr>;
          (sendKey, recvKey) = Kdf2 (weChainingKey s) []
      in (s\<lparr> weSendKey := sendKey, weRecvKey := recvKey \<rparr>, True))"

text \<open>
  \<open>_PerformHandshake\<close>: \<open>send_ok\<close> is whether \<open>send\<close> takes the whole message, \<open>net\<close> what the socket
  delivers afterwards.  The result also carries what is left of \<open>net\<close>.
\<close>

definition PerformHandshake ::
  "openssl \<Rightarrow> 'a wg_engine_scheme \<Rightarrow> (bytes \<times> bytes) option \<Rightarrow> u64 \<Rightarrow> u32 option \<Rightarrow> bool \<Rightarrow> bytes option list
     \<Rightarrow> 'a wg_engine_scheme \<times> bool \<times> bytes option list" where
  "PerformHandshake os s keygen unixTime random send_ok net =
     (case wg_initiation os s keygen unixTime random of
        (s, None) \<Rightarrow> (s, False, net)
      | (s, Some msg) \<Rightarrow>
          if \<not> send_ok then (s, False, net)
          else case wait_response 64 net of
            (None, net) \<Rightarrow> (s, False, net)
          | (Some resp, net) \<Rightarrow> let (s, ok) = wg_response os s resp in (s, ok, net))"

subsection \<open>Transport\<close>

definition wg_Encapsulate :: "openssl \<Rightarrow> 'a wg_engine_scheme \<Rightarrow> bytes \<Rightarrow> 'a wg_engine_scheme \<times> bytes" where
  "wg_Encapsulate os s plain =
     (let padded = 16 * ((length plain + 15) div 16) in
      if padded > 2048 then (s, [])
      else let scratch = plain @ replicate (padded - length plain) 0 in
        case AeadEncrypt os (weSendKey s) (weSendCounter s) scratch [] of
          None \<Rightarrow> (s, [])
        | Some ct \<Rightarrow>
            (s\<lparr> weSendCounter := weSendCounter s + 1 \<rparr>,
             [4, 0, 0, 0] @ store32_le (weReceiverIndex s) @ store64_le (weSendCounter s) @ ct))"

text \<open>\<open>None\<close> is the result \<open>-1\<close>.\<close>

definition wg_Decapsulate :: "openssl \<Rightarrow> 'a wg_engine_scheme \<Rightarrow> bytes \<Rightarrow> 'a wg_engine_scheme \<times> bytes option" where
  "wg_Decapsulate os s packet =
     (if length packet < 32 \<or> packet ! 0 \<noteq> 4 then (s, None)
      else let counter = load64_le (drop 8 packet) in
        case AeadDecrypt os (weRecvKey s) counter (drop 16 packet) [] of
          None \<Rightarrow> (s, None)
        | Some out \<Rightarrow>
            (case ReplayValidate s counter of (s, ok) \<Rightarrow>
               if \<not> ok then (s, None) else (s, Some (take (wg_packet_length out) out))))"

text \<open>What the reader loop does after a successful handshake.\<close>

definition fresh_session :: "'a wg_engine_scheme \<Rightarrow> 'a wg_engine_scheme" where
  "fresh_session s = ResetReplay (s\<lparr> weSendCounter := 0 \<rparr>)"

subsection \<open>Simulation with the Tailscale peer\<close>

text \<open>The handshake state of the two implementations.\<close>

definition same_handshake :: "'a wg_engine_scheme \<Rightarrow> wgpeer \<Rightarrow> bool" where
  "same_handshake s p \<longleftrightarrow> wePrivateKey s = fOurPriv p \<and> wePeerPublicKey s = fPeerStatic p
     \<and> weEphemeralPrivate s = fEphemeralPriv p \<and> weEphemeralPublic s = fEphemeralPub p
     \<and> weChainingKey s = fChainingKey p \<and> weHash s = fHash p \<and> weSenderIndex s = fSenderIndex p"

definition same_transport :: "'a wg_engine_scheme \<Rightarrow> wgpeer \<Rightarrow> bool" where
  "same_transport s p \<longleftrightarrow> fHasKeys p \<and> weSendKey s = fSendKey p \<and> weRecvKey s = fRecvKey p
     \<and> weReceiverIndex s = fReceiverIndex p \<and> weSendCounter s = fSendCounter p
     \<and> fReplayCounter s = fReplayCounter p \<and> fReplayBitmap s = fReplayBitmap p"

lemma mix_hash_hash2: "data \<noteq> [] \<Longrightarrow> mix_hash h data = hash2 h data"
  by (simp add: mix_hash_def hash2_def)

lemma Aead_nonempty: "aead_laws os \<Longrightarrow> length k = 32 \<Longrightarrow> AeadEncrypt os k n p a = Some c \<Longrightarrow> c \<noteq> []"
  using AeadEncrypt_ok [of os k n p a] by auto

text \<open>Both build the same initiation from the same keys, and keep the same state.\<close>

lemma initiation_sim:
  assumes "aead_laws os" 
    "BuildInitiation os p (wePrivateKey s) (wePeerPublicKey s) keygen t rnd clk = (p', Some m)" "wePeerPublicKey s \<noteq> []"
  shows "\<exists>s'. wg_initiation os s keygen t rnd = (s', Some m) \<and> same_handshake s' p' \<and> weHavePresharedKey s' = weHavePresharedKey s"
proof -
  obtain S where S: "DhPublic os (wePrivateKey s) = Some S"
    using assms(2) by (auto simp: BuildInitiation_def Let_def split: option.splits)
  obtain e E where e: "DhGenerate keygen = Some (e, E)"
    using assms(2) by (auto simp: BuildInitiation_def S Let_def split: option.splits)
  have E: "mix_hash h E = hash2 h E" for h using e by (subst mix_hash_hash2) (auto simp: DhGenerate_def split: option.splits if_splits)
  obtain es where es: "Dh os e (wePeerPublicKey s) = Some es"
    using assms(2) by (auto simp: BuildInitiation_def S e Let_def split: option.splits)
  let ?h0 = "hash2 (hash2 (hash2 (Hash kConstruction) kIdentifier) (wePeerPublicKey s)) E"
  let ?k1 = "Kdf2 (Kdf1 (Hash kConstruction) E) es"
  note mh = mix_hash_hash2 [OF assms(3)] E
  obtain x where x: "AeadEncrypt os (snd ?k1) 0 S ?h0 = Some x"
    using assms(2) by (auto simp: BuildInitiation_def S e es mh Let_def split_beta split: option.splits)
  have xn: "mix_hash h x = hash2 h x" for h using Aead_nonempty [OF assms(1) _ x] by (subst mix_hash_hash2) auto
  obtain ss where ss: "Dh os (wePrivateKey s) (wePeerPublicKey s) = Some ss"
    using assms(2) by (auto simp: BuildInitiation_def S e es mh x Let_def split_beta split: option.splits)
  let ?k2 = "Kdf2 (fst ?k1) ss"
  obtain y where y: "AeadEncrypt os (snd ?k2) 0 (Tai64n t) (hash2 ?h0 x) = Some y"
    using assms(2) by (auto simp: BuildInitiation_def S e es mh x xn ss Let_def split_beta split: option.splits)
  obtain i where i: "rnd = Some i"
    using assms(2) by (auto simp: BuildInitiation_def S e es mh x xn ss y Let_def split_beta split: option.splits)
  have yn: "mix_hash h y = hash2 h y" for h using Aead_nonempty [OF assms(1) _ y] by (subst mix_hash_hash2) auto
  show ?thesis
    using assms(2)
    by (auto simp: wg_initiation_def BuildInitiation_def S e es mh x xn ss y yn i Let_def split_beta
        same_handshake_def)
qed

lemma ReplayValidate_sim2:
  assumes "fReplayCounter s = fReplayCounter p" "fReplayBitmap s = fReplayBitmap p"
  shows "snd (ReplayValidate s c) = snd (ReplayValidate p c)
     \<and> fReplayCounter (fst (ReplayValidate s c)) = fReplayCounter (fst (ReplayValidate p c))
     \<and> fReplayBitmap (fst (ReplayValidate s c)) = fReplayBitmap (fst (ReplayValidate p c))"
  using assms by (auto simp: ReplayValidate_def Let_def)

text \<open>Without a pre-shared key, both accept the same responses and derive the same session.\<close>

lemma response_sim:
  assumes "same_handshake s p" "\<not> weHavePresharedKey s" "length resp = 92" "resp ! 0 = 2"
    "ConsumeResponse os p resp clk = (p', True)"
  shows "\<exists>s'. wg_response os s resp = (s', True) \<and> same_transport (fresh_session s') p' \<and> weHash s' = fHash p'
     \<and> weSenderIndex s' = weSenderIndex s"
proof -
  have hd: "length (slice 12 32 resp) = 32" "length (slice 44 16 resp) = 16" using assms(3) by simp_all
  then have ne: "slice 12 32 resp \<noteq> []" "slice 44 16 resp \<noteq> []" by auto
  have tau: "fst (snd (Kdf3 ck x)) \<noteq> []" for ck x using length_Kdf3 [of ck x] by (metis list.size(3) zero_neq_numeral)
  note same = assms(1) [unfolded same_handshake_def]
  show ?thesis
    using assms(2-5) same
    by (auto simp: wg_response_def ConsumeResponse_def Let_def split_beta mix_hash_hash2 ne tau same_transport_def
        fresh_session_def SetTransport_def ResetReplay_def split: option.splits if_splits)
qed

lemma Encapsulate_sim:
  assumes "same_transport s p"
  shows "snd (wg_Encapsulate os s plain) = snd (Encapsulate os p plain clk)
     \<and> same_transport (fst (wg_Encapsulate os s plain)) (fst (Encapsulate os p plain clk))"
  using assms by (auto simp: wg_Encapsulate_def Encapsulate_def same_transport_def Let_def split: option.split)

lemma wg_packet_length_padded: "ip_packet p \<Longrightarrow> wg_packet_length (p @ pad) = length p"
proof -
  assume "ip_packet p"
  then consider "20 \<le> length p" "drop_bit 4 (p ! 0) = 4" "256 * unat (p ! 2) + unat (p ! 3) = length p"
    | "40 \<le> length p" "drop_bit 4 (p ! 0) = 6" "40 + (256 * unat (p ! 4) + unat (p ! 5)) = length p"
    unfolding ip_packet_def by blast
  then show ?thesis
  proof cases
    case 1
    then have "p \<noteq> []" "(p @ pad) ! 0 = p ! 0" "(p @ pad) ! 2 = p ! 2" "(p @ pad) ! 3 = p ! 3" by (auto simp: nth_append)
    then show ?thesis using 1 by (simp add: wg_packet_length_def)
  next
    case 2
    then have "p \<noteq> []" "(p @ pad) ! 0 = p ! 0" "(p @ pad) ! 4 = p ! 4" "(p @ pad) ! 5 = p ! 5" by (auto simp: nth_append)
    then show ?thesis using 2 by (simp add: wg_packet_length_def)
  qed
qed

text \<open>On a message with an IP packet, both deliver it or both refuse it as a replay.\<close>

lemma Decapsulate_sim:
  assumes "same_transport s p" "transport_msg os (weRecvKey s) n plain m" "ip_packet plain"
  shows "snd (wg_Decapsulate os s m) = snd (Decapsulate os p m)
     \<and> same_transport (fst (wg_Decapsulate os s m)) (fst (Decapsulate os p m))
     \<and> weRecvKey (fst (wg_Decapsulate os s m)) = weRecvKey s"
proof -
  obtain idx ct pad where m: "m = [4, 0, 0, 0] @ store32_le idx @ store64_le n @ ct" "16 \<le> length ct"
    and dec: "AeadDecrypt os (weRecvKey s) n ct [] = Some (plain @ pad)"
    using assms(2) by (auto simp: transport_msg_def)
  have drops: "drop 8 m = store64_le n @ ct" "drop 16 m = ct" "length m = 16 + length ct" "m ! 0 = 4"
    by (simp_all add: m)
  have len: "ip_packet_length (plain @ pad) = length plain" "wg_packet_length (plain @ pad) = length plain"
    using assms(3) by (simp_all add: ip_packet_length_padded wg_packet_length_padded)
  have st: "weRecvKey s = fRecvKey p" "fHasKeys p" "fReplayCounter s = fReplayCounter p" "fReplayBitmap s = fReplayBitmap p"
    using assms(1) by (simp_all add: same_transport_def)
  note v = ReplayValidate_sim2 [OF st(3,4), of n]
  have fr: "weRecvKey (fst (ReplayValidate s n)) = weRecvKey s" "weSendKey (fst (ReplayValidate s n)) = weSendKey s"
    "weReceiverIndex (fst (ReplayValidate s n)) = weReceiverIndex s" "weSendCounter (fst (ReplayValidate s n)) = weSendCounter s"
    "fRecvKey (fst (ReplayValidate p n)) = fRecvKey p" "fSendKey (fst (ReplayValidate p n)) = fSendKey p"
    "fReceiverIndex (fst (ReplayValidate p n)) = fReceiverIndex p" "fSendCounter (fst (ReplayValidate p n)) = fSendCounter p"
    "fHasKeys (fst (ReplayValidate p n)) = fHasKeys p"
    by (simp_all add: ReplayValidate_def Let_def)
  have "wg_Decapsulate os s m = (fst (ReplayValidate s n), if snd (ReplayValidate s n) then Some plain else None)"
    using m(2) len dec by (simp add: wg_Decapsulate_def drops split_beta)
  moreover have "snd (Decapsulate os p m) = (if snd (ReplayValidate p n) then Some plain else None)"
    "same_transport (fst (ReplayValidate s n)) (fst (Decapsulate os p m))"
    using m(2) len dec st v fr assms(1) by (simp_all add: Decapsulate_def drops split_beta same_transport_def)
  ultimately show ?thesis using v fr by simp
qed

subsection \<open>Interoperation\<close>

fun wg_encap_all :: "openssl \<Rightarrow> 'a wg_engine_scheme \<Rightarrow> bytes list \<Rightarrow> bytes list" where
  "wg_encap_all os s [] = []"
| "wg_encap_all os s (p # ps) = snd (wg_Encapsulate os s p) # wg_encap_all os (fst (wg_Encapsulate os s p)) ps"

fun wg_decap_all :: "openssl \<Rightarrow> 'a wg_engine_scheme \<Rightarrow> bytes list \<Rightarrow> bytes option list" where
  "wg_decap_all os s [] = []"
| "wg_decap_all os s (m # ms) = snd (wg_Decapsulate os s m) # wg_decap_all os (fst (wg_Decapsulate os s m)) ms"

lemma encap_all_sim: "same_transport s p \<Longrightarrow> wg_encap_all os s ps = encap_all os p ps clk"
  by (induction ps arbitrary: s p) (auto simp: Encapsulate_sim)

lemma decap_all_sim:
  assumes "same_transport s p" "\<And>m. m \<in> set ms \<Longrightarrow> \<exists>n plain. transport_msg os (weRecvKey s) n plain m \<and> ip_packet plain"
  shows "wg_decap_all os s ms = decap_all os p ms"
  using assms
proof (induction ms arbitrary: s p)
  case (Cons m ms)
  then obtain n plain where "transport_msg os (weRecvKey s) n plain m" "ip_packet plain"
    by (metis list.set_intros(1))
  from Decapsulate_sim [OF Cons.prems(1) this] Cons show ?case by simp
qed simp

lemma wait_response_skips:
  assumes "length noise < n" "\<And>d. d \<in> set noise \<Longrightarrow> d \<noteq> [] \<and> \<not> (length (take 256 d) = 92 \<and> d ! 0 = 2)"
    "length m = 92" "m ! 0 = 2"
  shows "wait_response n (map Some noise @ Some m # net) = (Some m, net)"
  using assms(1,2)
proof (induction noise arbitrary: n)
  case Nil
  then obtain k where "n = Suc k" by (cases n) auto
  then show ?case using assms(3,4) by auto
next
  case (Cons d noise)
  then obtain k where k: "n = Suc k" by (cases n) auto
  then have "wait_response k (map Some noise @ Some m # net) = (Some m, net)" using Cons by simp
  then show ?case using Cons.prems(2) [of d] k by (auto simp: Let_def)
qed

text \<open>The messages a peer with a session encapsulates are IP packets for the key of the other.\<close>

lemma encap_all_transport:
  assumes "aead_laws os" "fHasKeys a" "length (fSendKey a) = 32" "list_all sendable ps" "m \<in> set (encap_all os a ps clk)"
  shows "\<exists>n plain. transport_msg os (fSendKey a) n plain m \<and> ip_packet plain"
proof -
  obtain i where i: "i < length ps" "m = encap_all os a ps clk ! i" using assms(5) by (auto simp: in_set_conv_nth)
  then show ?thesis
    using encap_all_msgs [OF assms(1-4) i(1), of clk] assms(4) by (auto simp: list_all_length sendable_def)
qed

text \<open>The handshake of the backend with a Tailscale peer as responder.\<close>

lemma interop_handshake:
  assumes laws: "aead_laws os" "dh_laws os"
    and keys: "keypair os (wePrivateKey s) SI" "keypair os sr (wePeerPublicKey s)" "keypair os ei EI" "keypair os er ER"
    and psk: "\<not> weHavePresharedKey s"
  shows "\<exists>s1 m1 b1 b2 m2 s2. wg_initiation os s (Some (ei, EI)) t (Some i) = (s1, Some m1)
     \<and> ConsumeInitiation os b sr m1 = (b1, True) \<and> BuildResponse os b1 (Some (er, ER)) (Some r) clk = (b2, Some m2)
     \<and> length m2 = 92 \<and> m2 ! 0 = 2 \<and> wg_response os s1 m2 = (s2, True)
     \<and> fPeerStatic b2 = SI \<and> weHash s2 = fHash b2
     \<and> (\<exists>a2. same_transport (fresh_session s2) a2 \<and> session a2 b2)"
proof -
  let ?run = "run_handshake os WGPeer b (wePrivateKey s) sr (wePeerPublicKey s) (ei, EI) (er, ER) i r t clk"
  obtain a2 b2 m1 m2 where run: "?run = Some (a2, b2, m1, m2)" and l: "length m2 = 92" and se: "session a2 b2"
    "fHash a2 = fHash b2" "fPeerStatic b2 = SI"
    using run_handshake_ok [OF laws keys, of WGPeer b i r t clk] by blast
  obtain a1 where a1: "BuildInitiation os WGPeer (wePrivateKey s) (wePeerPublicKey s) (Some (ei, EI)) t (Some i) clk = (a1, Some m1)"
    and rest: "case ConsumeInitiation os b sr m1 of (_, False) \<Rightarrow> False
      | (b1, True) \<Rightarrow> BuildResponse os b1 (Some (er, ER)) (Some r) clk = (b2, Some m2) \<and> ConsumeResponse os a1 m2 clk = (a2, True)"
    using run by (auto simp: run_handshake_def split: prod.splits option.splits bool.splits)
  obtain b1 where b1: "ConsumeInitiation os b sr m1 = (b1, True)"
    "BuildResponse os b1 (Some (er, ER)) (Some r) clk = (b2, Some m2)" "ConsumeResponse os a1 m2 clk = (a2, True)"
    using rest by (auto split: prod.splits bool.splits)
  have "wePeerPublicKey s \<noteq> []" using keys(2) by (auto simp: keypair_def)
  from initiation_sim [OF laws(1) a1 this] obtain s1 where s1: "wg_initiation os s (Some (ei, EI)) t (Some i) = (s1, Some m1)"
    "same_handshake s1 a1" "\<not> weHavePresharedKey s1" using psk by auto
  have m2: "m2 ! 0 = 2" using b1(3) l by (auto simp: ConsumeResponse_def split: if_splits)
  from response_sim [OF s1(2,3) l m2 b1(3)] obtain s2 where "wg_response os s1 m2 = (s2, True)"
    "same_transport (fresh_session s2) a2" "weHash s2 = fHash a2" by blast
  then show ?thesis using s1 b1 l m2 se by metis
qed

text \<open>
  C4. The two WireGuard implementations of the repository interoperate: for any keys, the handshake
  of \<open>WireGuardBackend\<close> (without a pre-shared key) with a \<open>ts::WGPeer\<close> as responder succeeds, also
  when up to 63 other datagrams arrive before the response; the responder learns the backend's
  static key, and afterwards a burst of up to 8128 IP packets is delivered unchanged and exactly
  once in both directions under any reordering and duplication.
\<close>

theorem wireguard_interop:
  assumes "aead_laws os" "dh_laws os"
    and "keypair os (wePrivateKey s) SI" "keypair os sr (wePeerPublicKey s)" "keypair os ei EI" "keypair os er ER"
    and "\<not> weHavePresharedKey s"
    and "length noise \<le> 63" "\<And>d. d \<in> set noise \<Longrightarrow> d \<noteq> [] \<and> \<not> (length (take 256 d) = 92 \<and> d ! 0 = 2)"
    and "list_all sendable ps" "length ps \<le> 8128" "list_all (\<lambda>i. i < length ps) is" "j < length is"
  shows "\<exists>m1 b1 b2 m2 s2.
     snd (wg_initiation os s (Some (ei, EI)) t (Some i)) = Some m1
   \<and> ConsumeInitiation os b sr m1 = (b1, True) \<and> BuildResponse os b1 (Some (er, ER)) (Some r) clk = (b2, Some m2)
   \<and> PerformHandshake os s (Some (ei, EI)) t (Some i) True (map Some noise @ Some m2 # net) = (s2, True, net)
   \<and> fPeerStatic b2 = SI \<and> weHash s2 = fHash b2
   \<and> decap_all os b2 (map ((!) (wg_encap_all os (fresh_session s2) ps)) is) ! j =
       (if is ! j \<in> set (take j is) then None else Some (ps ! (is ! j)))
   \<and> wg_decap_all os (fresh_session s2) (map ((!) (encap_all os b2 ps c)) is) ! j =
       (if is ! j \<in> set (take j is) then None else Some (ps ! (is ! j)))"
proof -
  obtain s1 m1 b1 b2 m2 s2 a2 where h: "wg_initiation os s (Some (ei, EI)) t (Some i) = (s1, Some m1)"
    "ConsumeInitiation os b sr m1 = (b1, True)" "BuildResponse os b1 (Some (er, ER)) (Some r) clk = (b2, Some m2)"
    "length m2 = 92" "m2 ! 0 = 2" "wg_response os s1 m2 = (s2, True)" "fPeerStatic b2 = SI" "weHash s2 = fHash b2"
    "same_transport (fresh_session s2) a2" "session a2 b2"
    using interop_handshake [OF assms(1-7), of t i b r clk] by blast
  have "wait_response 64 (map Some noise @ Some m2 # net) = (Some m2, net)"
    by (rule wait_response_skips) (use assms(8,9) h(4,5) in auto)
  then have p: "PerformHandshake os s (Some (ei, EI)) t (Some i) True (map Some noise @ Some m2 # net) = (s2, True, net)"
    by (simp add: PerformHandshake_def h(1,6))
  have "wg_encap_all os (fresh_session s2) ps = encap_all os a2 ps c" by (rule encap_all_sim [OF h(9)])
  then have 1: "decap_all os b2 (map ((!) (wg_encap_all os (fresh_session s2) ps)) is) ! j =
      (if is ! j \<in> set (take j is) then None else Some (ps ! (is ! j)))"
    using session_delivery [OF assms(1) h(10) assms(10-13), of c] by simp
  have "\<exists>n plain. transport_msg os (weRecvKey (fresh_session s2)) n plain m \<and> ip_packet plain"
    if "m \<in> set (map ((!) (encap_all os b2 ps c)) is)" for m
  proof -
    have "m \<in> set (encap_all os b2 ps c)" using that assms(12) by (auto simp: list_all_iff)
    moreover have "weRecvKey (fresh_session s2) = fSendKey b2" "fHasKeys b2" "length (fSendKey b2) = 32"
      using h(9,10) by (auto simp: same_transport_def session_def)
    ultimately show ?thesis using encap_all_transport [OF assms(1) _ _ assms(10)] by metis
  qed
  then have "wg_decap_all os (fresh_session s2) (map ((!) (encap_all os b2 ps c)) is)
      = decap_all os a2 (map ((!) (encap_all os b2 ps c)) is)" by (rule decap_all_sim [OF h(9)])
  then have 2: "wg_decap_all os (fresh_session s2) (map ((!) (encap_all os b2 ps c)) is) ! j =
      (if is ! j \<in> set (take j is) then None else Some (ps ! (is ! j)))"
    using session_delivery [OF assms(1) h(10) [unfolded session_sym [of a2]] assms(10-13), of c] by simp
  show ?thesis using h(1-3,7,8) p 1 2 by auto
qed

text \<open>A backend and a peer with concrete keys; a data packet arrives before the response.\<close>

definition example_engine :: wg_engine where
  "example_engine = wg_engine_init\<lparr> wePrivateKey := replicate 32 1, wePeerPublicKey := replicate 32 2 \<rparr>"

theorem wireguard_interop_witness:
  "\<exists>b2 m2 s2. PerformHandshake toy_openssl example_engine (Some (replicate 32 3, replicate 32 3)) 13 (Some 11) True
       [Some [4, 0, 0, 0], Some m2] = (s2, True, [])
   \<and> fPeerStatic b2 = replicate 32 1
   \<and> decap_all toy_openssl b2 (map ((!) (wg_encap_all toy_openssl (fresh_session s2) [ipv4_20, ipv4_20])) [1, 0, 1]) ! 2 = None"
proof -
  have k: "keypair toy_openssl (wePrivateKey example_engine) (replicate 32 1)"
    "keypair toy_openssl (replicate 32 2) (wePeerPublicKey example_engine)"
    using toy_keypair [of "replicate 32 1"] toy_keypair [of "replicate 32 2"] by (simp_all add: example_engine_def)
  have "\<not> weHavePresharedKey example_engine" by (simp add: example_engine_def wg_engine_init_def)
  from wireguard_interop [OF toy_aead_laws toy_dh_laws k toy_keypair [of "replicate 32 3"] toy_keypair [of "replicate 32 4"]
      this, of "[[4, 0, 0, 0]]" "[ipv4_20, ipv4_20]" "[1, 0, 1]" 2 13 11 WGPeer 12 14 "[]" 9]
  show ?thesis using sendable_ipv4_20 by auto
qed

end
