(* ===== verification/WGConfig.thy ===== *)
theory WGConfig
  imports CLib
begin

text \<open>
  \<open>WireGuardConfigParser\<close> (\<open>src/src/common/WireGuardConfigParser.cpp\<close>): the \<open>wg-quick\<close> configuration
  file.  The loop over the lines is a fold over the text split at line feeds.  A configuration that
  is written out, with the optional lines left out where they have their default, in any order of
  letter case and with any white space around keys and values, is read back as it was, and further
  \<open>[Peer]\<close> blocks behind it change nothing.
\<close>

record WireGuardPeer =
  publicKey :: string
  presharedKey :: string
  endpointHost :: string
  endpointPort :: u16
  allowedIPs :: string
  persistentKeepalive :: int

record WireGuardConfig =
  privateKey :: string
  address :: string
  dns :: string
  listenPort :: u16
  mtu :: int
  peer :: WireGuardPeer

definition WireGuardPeer :: WireGuardPeer where
  "WireGuardPeer = \<lparr> publicKey = [], presharedKey = [], endpointHost = [], endpointPort = 0,
     allowedIPs = [], persistentKeepalive = 0 \<rparr>"

definition WireGuardConfig :: WireGuardConfig where
  "WireGuardConfig = \<lparr> privateKey = [], address = [], dns = [], listenPort = 0, mtu = 0, peer = WireGuardPeer \<rparr>"

definition IsComplete :: "WireGuardConfig \<Rightarrow> bool" where
  "IsComplete c \<longleftrightarrow> privateKey c \<noteq> [] \<and> publicKey (peer c) \<noteq> [] \<and> endpointHost (peer c) \<noteq> []
     \<and> endpointPort (peer c) \<noteq> 0"

definition wg_trim :: "string \<Rightarrow> string" where
  "wg_trim s = trim_ends isspace isspace s"

definition wg_to_lower :: "string \<Rightarrow> string" where
  "wg_to_lower s = map tolower s"

text \<open>The new host and port; both stay as they are when the shape is unexpected.\<close>

definition wg_split_endpoint :: "string \<Rightarrow> string \<times> u16 \<Rightarrow> string \<times> u16" where
  "wg_split_endpoint value hp =
     (let v = wg_trim value in
      if v = [] then hp
      else if hd v = CHR ''['' then
        (case find_first (CHR '']'') v of None \<Rightarrow> hp
         | Some close \<Rightarrow>
             (c_str (take (close - 1) (drop 1 v)),
              case find_first (CHR '':'') (drop close v) of
                Some i \<Rightarrow> word_of_int (atoi (drop (close + i + 1) v)) | None \<Rightarrow> snd hp))
      else case find_last (CHR '':'') v of
        None \<Rightarrow> (c_str v, snd hp)
      | Some colon \<Rightarrow> (c_str (take colon v), word_of_int (atoi (drop (colon + 1) v))))"

datatype wg_section = kNone | kInterface | kPeer

record wg_parse =
  wg_sect :: wg_section
  peerCount :: nat
  config :: WireGuardConfig

definition section_name :: "string \<Rightarrow> string" where
  "section_name line =
     (let inner = (case find_first (CHR '']'') line of None \<Rightarrow> length line | Some close \<Rightarrow> close) - 1
      in wg_to_lower (wg_trim (take inner (drop 1 line))))"

definition enter_section :: "string \<Rightarrow> wg_parse \<Rightarrow> wg_parse" where
  "enter_section name s =
     (if name = ''interface'' then s\<lparr> wg_sect := kInterface \<rparr>
      else if name = ''peer'' then s\<lparr> wg_sect := kPeer, peerCount := peerCount s + 1 \<rparr>
      else s\<lparr> wg_sect := kNone \<rparr>)"

definition set_interface :: "string \<Rightarrow> string \<Rightarrow> WireGuardConfig \<Rightarrow> WireGuardConfig" where
  "set_interface key value c =
     (if key = ''privatekey'' then c\<lparr> privateKey := c_str value \<rparr>
      else if key = ''address'' then c\<lparr> address := c_str value \<rparr>
      else if key = ''dns'' then c\<lparr> dns := c_str value \<rparr>
      else if key = ''listenport'' then c\<lparr> listenPort := word_of_int (atoi value) \<rparr>
      else if key = ''mtu'' then c\<lparr> mtu := atoi value \<rparr>
      else c)"

definition wg_set_peer :: "string \<Rightarrow> string \<Rightarrow> WireGuardPeer \<Rightarrow> WireGuardPeer" where
  "wg_set_peer key value p =
     (if key = ''publickey'' then p\<lparr> publicKey := c_str value \<rparr>
      else if key = ''presharedkey'' then p\<lparr> presharedKey := c_str value \<rparr>
      else if key = ''endpoint'' then
        (let (host, port) = wg_split_endpoint value (endpointHost p, endpointPort p)
         in p\<lparr> endpointHost := host, endpointPort := port \<rparr>)
      else if key = ''allowedips'' then p\<lparr> allowedIPs := c_str value \<rparr>
      else if key = ''persistentkeepalive'' then p\<lparr> persistentKeepalive := atoi value \<rparr>
      else p)"

definition set_key :: "string \<Rightarrow> string \<Rightarrow> wg_parse \<Rightarrow> wg_parse" where
  "set_key key value s =
     (if wg_sect s = kInterface then s\<lparr> config := set_interface key value (config s) \<rparr>
      else if wg_sect s = kPeer \<and> peerCount s = 1
        then s\<lparr> config := (config s)\<lparr> peer := wg_set_peer key value (peer (config s)) \<rparr> \<rparr>
      else s)"

definition parse_wg_line :: "string \<Rightarrow> wg_parse \<Rightarrow> wg_parse" where
  "parse_wg_line rawline s =
     (let line = wg_trim rawline in
      if line = [] \<or> hd line = CHR ''#'' \<or> hd line = CHR '';'' then s
      else if hd line = CHR ''['' then enter_section (section_name line) s
      else case find_first (CHR ''='') line of None \<Rightarrow> s
      | Some eq \<Rightarrow>
          let key = wg_to_lower (wg_trim (take eq line)); value = wg_trim (drop (eq + 1) line)
          in if key = [] then s else set_key key value s)"

definition ParseText :: "string \<Rightarrow> WireGuardConfig \<Rightarrow> WireGuardConfig" where
  "ParseText s c =
     config (fold parse_wg_line (split_on (CHR 0x0A) s) \<lparr> wg_sect = kNone, peerCount = 0, config = c \<rparr>)"

text \<open>\<open>read_file\<close> gives the contents of a file that can be opened; the empty path also stands for NULL.\<close>

definition ParseFile :: "(string \<Rightarrow> string option) \<Rightarrow> string \<Rightarrow> WireGuardConfig \<Rightarrow> WireGuardConfig option" where
  "ParseFile read_file path c =
     (if path = [] then None else map_option (\<lambda>s. ParseText s c) (read_file path))"

subsection \<open>Trimming\<close>

definition trimmed :: "string \<Rightarrow> bool" where
  "trimmed s \<longleftrightarrow> s = [] \<or> (\<not> isspace (hd s) \<and> \<not> isspace (last s))"

lemma trim_pad:
  assumes "list_all isspace a" "list_all isspace b" "trimmed s"
  shows "wg_trim (a @ s @ b) = s"
proof (cases "s = []")
  case True
  have "wg_trim u = []" if "list_all isspace u" for u
    using that by (metis dropWhile_eq_Nil_conv list_all_iff rev.simps(1) trim_ends_def dropWhile.simps(1) wg_trim_def)
  then show ?thesis using True assms by simp
next
  case False
  then have s: "dropWhile isspace s = s" "dropWhile isspace (rev s) = rev s"
    using assms(3) by (auto simp: trimmed_def dropWhile_eq_self_iff hd_rev)
  have "dropWhile isspace (a @ s @ b) = s @ b"
    using assms(1) s(1) False by (auto simp: list_all_iff dropWhile_append dropWhile_eq_self_iff)
  moreover have "dropWhile isspace (rev b @ rev s) = rev s"
    using assms(2) s(2) False by (auto simp: list_all_iff dropWhile_append dropWhile_eq_self_iff)
  ultimately show ?thesis by (simp add: wg_trim_def trim_ends_def)
qed

lemma trim_id: "trimmed s \<Longrightarrow> wg_trim s = s"
  using trim_pad [of "[]" "[]" s] by simp

subsection \<open>Lines\<close>

definition blank :: "string \<Rightarrow> bool" where
  "blank s \<longleftrightarrow> list_all isspace s \<and> CHR 0x0A \<notin> set s"

text \<open>A line that assigns \<open>value\<close> to \<open>key\<close>, in any letter case and with any white space.\<close>

definition assign_ok :: "string \<Rightarrow> string \<Rightarrow> string \<Rightarrow> string \<Rightarrow> string \<Rightarrow> string \<Rightarrow> bool" where
  "assign_ok a k b c v d \<longleftrightarrow>
     blank a \<and> blank b \<and> blank c \<and> blank d
     \<and> k \<noteq> [] \<and> trimmed k \<and> CHR ''='' \<notin> set k \<and> CHR 0x0A \<notin> set k
     \<and> hd k \<notin> {CHR ''['', CHR ''#'', CHR '';''} \<and> v \<noteq> [] \<and> trimmed v \<and> CHR 0x0A \<notin> set v"

definition assigns :: "string \<Rightarrow> string \<times> string \<Rightarrow> bool" where
  "assigns l kv \<longleftrightarrow>
     (\<exists>a k b c d. l = a @ k @ b @ CHR ''='' # c @ snd kv @ d \<and> assign_ok a k b c (snd kv) d \<and> wg_to_lower k = fst kv)"

text \<open>A line that opens_section the section with the given lower-case name.\<close>

definition opens_section :: "string \<Rightarrow> string \<Rightarrow> bool" where
  "opens_section l name \<longleftrightarrow>
     (\<exists>a b n c d. l = a @ CHR ''['' # b @ n @ c @ CHR '']'' # d
        \<and> blank a \<and> blank b \<and> blank c \<and> blank d
        \<and> trimmed n \<and> CHR '']'' \<notin> set n \<and> CHR 0x0A \<notin> set n \<and> wg_to_lower n = name)"

text \<open>A line that never opens_section an \<open>[Interface]\<close> section.\<close>

definition no_interface :: "string \<Rightarrow> bool" where
  "no_interface l \<longleftrightarrow> CHR 0x0A \<notin> set l
     \<and> (wg_trim l = [] \<or> hd (wg_trim l) \<noteq> CHR ''['' \<or> section_name (wg_trim l) \<noteq> ''interface'')"

lemma not_space [simp]:
  "\<not> isspace (CHR ''['')" "\<not> isspace (CHR '']'')" "\<not> isspace (CHR ''='')" "\<not> isspace (CHR '':'')"
  by (simp_all add: isspace_def)

lemma blank_notin: "blank s \<Longrightarrow> \<not> isspace c \<Longrightarrow> c \<notin> set s"
  by (auto simp: blank_def list_all_iff)

lemma trim_blank: "blank a \<Longrightarrow> blank b \<Longrightarrow> trimmed s \<Longrightarrow> wg_trim (a @ s @ b) = s"
  by (simp add: blank_def trim_pad)

lemma parse_assigns:
  assumes "assigns l (key, value)"
  shows "parse_wg_line l s = set_key key value s \<and> CHR 0x0A \<notin> set l"
proof -
  obtain a k b c d where l: "l = a @ (k @ b @ CHR ''='' # c @ value) @ d" "blank a" "blank b" "blank c" "blank d"
    "k \<noteq> []" "trimmed k" "CHR ''='' \<notin> set k" "CHR 0x0A \<notin> set k"
    "hd k \<notin> {CHR ''['', CHR ''#'', CHR '';''}" "wg_to_lower k = key"
    "value \<noteq> []" "trimmed value" "CHR 0x0A \<notin> set value"
    using assms by (auto simp: assigns_def assign_ok_def)
  let ?m = "k @ b @ CHR ''='' # c @ value"
  have t: "wg_trim l = ?m" using l by (simp only: l(1), intro trim_blank) (auto simp: trimmed_def)
  have "CHR ''='' \<notin> set (k @ b)" using l(3,8) blank_notin by auto
  then have f: "find_first (CHR ''='') ?m = Some (length (k @ b))"
    using find_first_append_notin [of "CHR ''=''" "k @ b" "c @ value"] by simp
  have "wg_trim (k @ b) = k" "wg_trim (c @ value) = value"
    using l trim_blank [of "[]" b k] trim_blank [of c "[]" "value"] by (auto simp: blank_def)
  moreover have "hd ?m = hd k" "key \<noteq> []" using l(6,11) by (auto simp: wg_to_lower_def)
  ultimately have "parse_wg_line l s = set_key key value s"
    unfolding parse_wg_line_def Let_def t f using l(6,10,11) by simp
  then show ?thesis using l by (auto simp: blank_def)
qed

lemma parse_opens:
  assumes "opens_section l name"
  shows "parse_wg_line l s = enter_section name s \<and> CHR 0x0A \<notin> set l"
proof -
  obtain a b n c d where l: "l = a @ (CHR ''['' # b @ n @ c @ [CHR '']'']) @ d" "blank a" "blank b" "blank c" "blank d"
    "trimmed n" "CHR '']'' \<notin> set n" "CHR 0x0A \<notin> set n" "wg_to_lower n = name"
    using assms by (auto simp: opens_section_def)
  let ?m = "CHR ''['' # b @ n @ c @ [CHR '']'']"
  have t: "wg_trim l = ?m" using l by (simp only: l(1), intro trim_blank) (auto simp: trimmed_def)
  have "CHR '']'' \<notin> set (CHR ''['' # b @ n @ c)" using l(3,4,7) blank_notin by auto
  then have f: "find_first (CHR '']'') ?m = Some (length (CHR ''['' # b @ n @ c))"
    using find_first_append_notin [of "CHR '']''" "CHR ''['' # b @ n @ c" "[]"] by simp
  then have "section_name ?m = name"
    using l trim_blank [of b c n] by (simp add: section_name_def)
  then have "parse_wg_line l s = enter_section name s"
    unfolding parse_wg_line_def Let_def t by simp
  then show ?thesis using l by (auto simp: blank_def)
qed

lemma fold_assigns:
  assumes "list_all2 assigns ls kvs"
  shows "fold parse_wg_line ls s = fold (\<lambda>kv. set_key (fst kv) (snd kv)) kvs s
       \<and> (\<forall>l \<in> set ls. CHR 0x0A \<notin> set l)"
  using assms
proof (induction ls kvs arbitrary: s rule: list_all2_induct)
  case (Cons l ls kv kvs)
  then show ?case using parse_assigns [of l "fst kv" "snd kv"] by auto
qed simp

lemma fold_set_interface:
  "wg_sect s = kInterface \<Longrightarrow>
   fold (\<lambda>kv. set_key (fst kv) (snd kv)) kvs s
     = s\<lparr> config := fold (\<lambda>kv. set_interface (fst kv) (snd kv)) kvs (config s) \<rparr>"
  by (induction kvs arbitrary: s) (auto simp: set_key_def)

lemma fold_wg_set_peer:
  "wg_sect s = kPeer \<Longrightarrow> peerCount s = 1 \<Longrightarrow>
   fold (\<lambda>kv. set_key (fst kv) (snd kv)) kvs s
     = s\<lparr> config := (config s)\<lparr> peer := fold (\<lambda>kv. wg_set_peer (fst kv) (snd kv)) kvs (peer (config s)) \<rparr> \<rparr>"
  by (induction kvs arbitrary: s) (auto simp: set_key_def)

text \<open>From the second \<open>[Peer]\<close> on, nothing but an \<open>[Interface]\<close> section counts.\<close>

lemma fold_ignored:
  "\<forall>l \<in> set ls. no_interface l \<Longrightarrow> wg_sect s \<noteq> kInterface \<Longrightarrow> peerCount s \<noteq> 1 \<Longrightarrow> peerCount s \<noteq> 0 \<Longrightarrow>
   config (fold parse_wg_line ls s) = config s"
proof (induction ls arbitrary: s)
  case (Cons l ls)
  have "config (parse_wg_line l s) = config s" "wg_sect (parse_wg_line l s) \<noteq> kInterface"
    "peerCount (parse_wg_line l s) \<noteq> 1" "peerCount (parse_wg_line l s) \<noteq> 0"
    using Cons.prems
    by (auto simp: parse_wg_line_def Let_def enter_section_def set_key_def no_interface_def split: option.split)
  then show ?case using Cons by simp
qed simp

subsection \<open>Reading a block\<close>

lemma WireGuardPeer_fields [simp]:
  "publicKey WireGuardPeer = []" "presharedKey WireGuardPeer = []" "endpointHost WireGuardPeer = []"
  "endpointPort WireGuardPeer = 0" "allowedIPs WireGuardPeer = []" "persistentKeepalive WireGuardPeer = 0"
  by (simp_all add: WireGuardPeer_def)

text \<open>The value given to a key, or the one it had.\<close>

definition pick :: "(string \<times> string) list \<Rightarrow> string \<Rightarrow> (string \<Rightarrow> 'a) \<Rightarrow> 'a \<Rightarrow> 'a" where
  "pick kvs k f d = (case map_of kvs k of Some v \<Rightarrow> f v | None \<Rightarrow> d)"

lemma pick_simps [simp]:
  "pick [] k f d = d"
  "pick (kv # kvs) k f d = (if fst kv = k then f (snd kv) else pick kvs k f d)"
  by (cases kv) (auto simp: pick_def)

lemma pick_absent [simp]: "k \<notin> fst ` set kvs \<Longrightarrow> pick kvs k f d = d"
  by (simp add: pick_def map_of_eq_None_iff [THEN iffD2])

lemma fold_interface_fields:
  "distinct (map fst kvs) \<Longrightarrow>
   fold (\<lambda>kv. set_interface (fst kv) (snd kv)) kvs c =
     c\<lparr> privateKey := pick kvs ''privatekey'' c_str (privateKey c), address := pick kvs ''address'' c_str (address c),
        dns := pick kvs ''dns'' c_str (dns c),
        listenPort := pick kvs ''listenport'' (\<lambda>v. word_of_int (atoi v)) (listenPort c),
        mtu := pick kvs ''mtu'' atoi (mtu c) \<rparr>"
  by (induction kvs arbitrary: c) (auto simp: set_interface_def)

lemma set_peer_fields:
  "publicKey (wg_set_peer k v p) = (if k = ''publickey'' then c_str v else publicKey p)"
  "presharedKey (wg_set_peer k v p) = (if k = ''presharedkey'' then c_str v else presharedKey p)"
  "(endpointHost (wg_set_peer k v p), endpointPort (wg_set_peer k v p))
     = (if k = ''endpoint'' then wg_split_endpoint v (endpointHost p, endpointPort p) else (endpointHost p, endpointPort p))"
  "allowedIPs (wg_set_peer k v p) = (if k = ''allowedips'' then c_str v else allowedIPs p)"
  "persistentKeepalive (wg_set_peer k v p) = (if k = ''persistentkeepalive'' then atoi v else persistentKeepalive p)"
  by (auto simp: wg_set_peer_def split_beta)

text \<open>A field that only one key sets, under assignments with distinct keys.\<close>

lemma fold_field:
  assumes "\<And>key v x. g (step key v x) = (if key = k then f v (g x) else g x)" "distinct (map fst kvs)"
  shows "g (fold (\<lambda>kv. step (fst kv) (snd kv)) kvs x) = pick kvs k (\<lambda>v. f v (g x)) (g x)"
  using assms(2)
proof (induction kvs arbitrary: x)
  case (Cons kv kvs)
  then show ?case
    by (cases "fst kv = k") (auto simp: assms(1) Cons.IH)
qed simp

lemmas fold_peer_fields =
  fold_field [where step = wg_set_peer, OF set_peer_fields(1)] fold_field [where step = wg_set_peer, OF set_peer_fields(2)]
  fold_field [where step = wg_set_peer and g = "\<lambda>p. (endpointHost p, endpointPort p)", OF set_peer_fields(3)]
  fold_field [where step = wg_set_peer, OF set_peer_fields(4)] fold_field [where step = wg_set_peer, OF set_peer_fields(5)]

subsection \<open>Endpoints\<close>

definition print_endpoint :: "string \<Rightarrow> u16 \<Rightarrow> string" where
  "print_endpoint host port =
     (if CHR '':'' \<in> set host then CHR ''['' # host @ '']:'' else host @ '':'') @ show_nat (unat port)"

definition wf_host :: "string \<Rightarrow> bool" where
  "wf_host h \<longleftrightarrow> h \<noteq> [] \<and> list_all (\<lambda>c. code c \<noteq> 0 \<and> \<not> isspace c \<and> c \<noteq> CHR ''['' \<and> c \<noteq> CHR '']'') h"

lemma port_atoi: "word_of_int (atoi (show_nat (unat (p :: u16)))) = p"
proof -
  have "unat p < 2 ^ 31" using unsigned_less [of p, where ?'a = nat] by simp
  then show ?thesis by (simp add: atoi_show_nat)
qed

lemma find_last_hit: "c \<notin> set ys \<Longrightarrow> find_last c (xs @ c # ys) = Some (length xs)"
  using find_first_append_notin [of c "rev ys" "rev xs"] by (simp add: find_last_def)

lemma digits_trimmed: "xs \<noteq> [] \<Longrightarrow> \<not> isspace (hd xs) \<Longrightarrow> trimmed (xs @ show_nat n)"
  using show_nat_digits [of n] isdigit_not_space by (auto simp: trimmed_def list_all_iff)

lemma split_print_endpoint:
  assumes "wf_host h"
  shows "wg_split_endpoint (print_endpoint h p) hp = (h, p)"
proof -
  have h: "h \<noteq> []" "c_str h = h" "CHR '']'' \<notin> set h" "hd h \<noteq> CHR ''[''" "\<not> isspace (hd h)"
    using assms by (auto simp: wf_host_def list_all_iff)
  have dg: "CHR '':'' \<notin> set (show_nat (unat p))" using show_nat_digits [of "unat p"] by (auto simp: list_all_iff isdigit_def)
  show ?thesis
  proof (cases "CHR '':'' \<in> set h")
    case True
    let ?v = "CHR ''['' # h @ CHR '']'' # CHR '':'' # show_nat (unat p)"
    have v: "print_endpoint h p = ?v" using True by (simp add: print_endpoint_def)
    have t: "wg_trim ?v = ?v" using digits_trimmed [of "CHR ''['' # h @ '']:''"] by (intro trim_id) simp
    have "find_first (CHR '']'') ?v = Some (Suc (length h))"
      using h(3) find_first_append_notin [of "CHR '']''" "CHR ''['' # h"] by simp
    then show ?thesis by (simp add: wg_split_endpoint_def v t h(2) port_atoi)
  next
    case False
    let ?v = "h @ CHR '':'' # show_nat (unat p)"
    have v: "print_endpoint h p = ?v" using False by (simp add: print_endpoint_def)
    have t: "wg_trim ?v = ?v" using digits_trimmed [of "h @ '':''"] h by (intro trim_id) simp
    show ?thesis using h by (simp add: wg_split_endpoint_def v t find_last_hit [OF dg] port_atoi)
  qed
qed

subsection \<open>A whole file\<close>

definition wf_value :: "string \<Rightarrow> bool" where
  "wf_value v \<longleftrightarrow> trimmed v \<and> list_all (\<lambda>c. code c \<noteq> 0 \<and> c \<noteq> CHR 0x0A) v"

definition wf_config :: "WireGuardConfig \<Rightarrow> bool" where
  "wf_config c \<longleftrightarrow>
     list_all wf_value [privateKey c, address c, dns c, publicKey (peer c), presharedKey (peer c), allowedIPs (peer c)]
     \<and> wf_host (endpointHost (peer c)) \<and> 0 \<le> mtu c \<and> mtu c < 2 ^ 31
     \<and> 0 \<le> persistentKeepalive (peer c) \<and> persistentKeepalive (peer c) < 2 ^ 31"

text \<open>The assignments that describe a configuration; a default value needs no line.\<close>

definition given :: "string \<Rightarrow> string \<Rightarrow> (string \<times> string) list" where
  "given k v = (if v = [] then [] else [(k, v)])"

definition given_num :: "string \<Rightarrow> nat \<Rightarrow> (string \<times> string) list" where
  "given_num k n = (if n = 0 then [] else [(k, show_nat n)])"

definition interface_items :: "WireGuardConfig \<Rightarrow> (string \<times> string) list" where
  "interface_items c = given ''privatekey'' (privateKey c) @ given ''address'' (address c) @ given ''dns'' (dns c)
     @ given_num ''listenport'' (unat (listenPort c)) @ given_num ''mtu'' (nat (mtu c))"

definition peer_items :: "WireGuardPeer \<Rightarrow> (string \<times> string) list" where
  "peer_items p = given ''publickey'' (publicKey p) @ given ''presharedkey'' (presharedKey p)
     @ [(''endpoint'', print_endpoint (endpointHost p) (endpointPort p))] @ given ''allowedips'' (allowedIPs p)
     @ given_num ''persistentkeepalive'' (nat (persistentKeepalive p))"

lemma items_distinct: "distinct (map fst (interface_items c))" "distinct (map fst (peer_items p))"
  by (auto simp: interface_items_def peer_items_def given_def given_num_def)

text \<open>The assignments \<open>kvs\<close> are the items \<open>xs\<close> in some order.\<close>

definition reordered :: "(string \<times> string) list \<Rightarrow> (string \<times> string) list \<Rightarrow> bool" where
  "reordered kvs xs \<longleftrightarrow> distinct (map fst kvs) \<and> set kvs = set xs"

lemma reordered_pick: "reordered kvs xs \<Longrightarrow> distinct (map fst xs) \<Longrightarrow> pick kvs k f d = pick xs k f d"
  by (metis map_of_inject_set pick_def reordered_def)

lemma pick_append: "pick (xs @ ys) k f d = pick xs k f (pick ys k f d)"
  by (induction xs) auto

lemma pick_given [simp]:
  "pick (given k' v) k f d = (if k' = k \<and> v \<noteq> [] then f v else d)"
  "pick (given_num k' n) k f d = (if k' = k \<and> n \<noteq> 0 then f (show_nat n) else d)"
  by (auto simp: given_def given_num_def)

lemma wf_value_c_str: "wf_value v \<Longrightarrow> c_str v = v"
  by (auto simp: wf_value_def list_all_iff)

lemma atoi_int: "0 \<le> i \<Longrightarrow> i < 2 ^ 31 \<Longrightarrow> atoi (show_nat (nat i)) = i"
  by (subst atoi_show_nat) (auto simp: nat_less_iff)

lemma interface_read:
  assumes "wf_config c" "reordered kvs (interface_items c)"
  shows "fold (\<lambda>kv. set_interface (fst kv) (snd kv)) kvs WireGuardConfig = c\<lparr> peer := WireGuardPeer \<rparr>"
proof -
  have "distinct (map fst kvs)" using assms(2) by (simp add: reordered_def)
  then show ?thesis
    using assms(1) items_distinct(1) [of c]
    by (simp add: fold_interface_fields reordered_pick [OF assms(2)])
      (auto simp: interface_items_def pick_append wf_config_def wf_value_c_str WireGuardConfig_def port_atoi atoi_int
        unat_eq_zero)
qed

lemma peer_read:
  assumes "wf_config c" "reordered kvs (peer_items (peer c))"
  shows "fold (\<lambda>kv. wg_set_peer (fst kv) (snd kv)) kvs WireGuardPeer = peer c"
proof -
  have "distinct (map fst kvs)" using assms(2) by (simp add: reordered_def)
  note f = fold_peer_fields [OF this, of WireGuardPeer, unfolded reordered_pick [OF assms(2) items_distinct(2)]]
  have "(endpointHost (fold (\<lambda>kv. wg_set_peer (fst kv) (snd kv)) kvs WireGuardPeer),
         endpointPort (fold (\<lambda>kv. wg_set_peer (fst kv) (snd kv)) kvs WireGuardPeer))
     = (endpointHost (peer c), endpointPort (peer c))"
    using assms(1) unfolding f(3) by (simp add: peer_items_def pick_append wf_config_def split_print_endpoint)
  then show ?thesis
    using assms(1)
    by (intro WireGuardPeer.equality)
      (auto simp: f(1,2,4,5) peer_items_def pick_append wf_config_def wf_value_c_str atoi_int)
qed

text \<open>Blank lines and comments.\<close>

definition skipped :: "string \<Rightarrow> bool" where
  "skipped l \<longleftrightarrow> (let t = dropWhile isspace l in t = [] \<or> hd t = CHR ''#'' \<or> hd t = CHR '';'')"

lemma hd_trim: "dropWhile isspace l \<noteq> [] \<Longrightarrow> wg_trim l \<noteq> [] \<and> hd (wg_trim l) = hd (dropWhile isspace l)"
proof -
  assume "dropWhile isspace l \<noteq> []"
  then obtain c cs where t: "dropWhile isspace l = c # cs" "\<not> isspace c" by (metis hd_dropWhile list.exhaust_sel)
  then have "wg_trim l = rev (dropWhile isspace (rev cs @ [c]))" by (simp add: wg_trim_def trim_ends_def)
  then show ?thesis using t by (simp add: dropWhile_append)
qed

lemma parse_skipped:
  assumes "skipped l" shows "parse_wg_line l s = s"
proof (cases "dropWhile isspace l = []")
  case True
  have "wg_trim l = []" unfolding wg_trim_def trim_ends_def True by simp
  then show ?thesis by (simp add: parse_wg_line_def)
next
  case False
  then show ?thesis using assms hd_trim [OF False] by (auto simp: parse_wg_line_def skipped_def Let_def)
qed

lemma fold_skipped: "fold parse_wg_line ls s = fold parse_wg_line (filter (\<lambda>l. \<not> skipped l) ls) s"
  by (induction ls arbitrary: s) (simp_all add: parse_skipped)

text \<open>
  The file: an interface block, the peer block, and whatever further blocks follow; with blank lines
  and comments anywhere.
\<close>

definition describes :: "string \<Rightarrow> WireGuardConfig \<Rightarrow> bool" where
  "describes s c \<longleftrightarrow>
     (\<exists>h ls kvs h' ls' kvs' rest.
        filter (\<lambda>l. \<not> skipped l) (split_on (CHR 0x0A) s) = h # ls @ h' # ls' @ rest
        \<and> opens_section h ''interface'' \<and> list_all2 assigns ls kvs \<and> reordered kvs (interface_items c)
        \<and> opens_section h' ''peer'' \<and> list_all2 assigns ls' kvs' \<and> reordered kvs' (peer_items (peer c))
        \<and> (rest = [] \<or> opens_section (hd rest) ''peer'' \<and> (\<forall>l \<in> set (tl rest). no_interface l)))"

text \<open>
  C22. A configuration file with an \<open>[Interface]\<close> and a \<open>[Peer]\<close> block, the keys in any order and
  letter case, with any white space around keys and values and with blank lines and comments
  (\<open>#\<close> or \<open>;\<close> first on a line) anywhere, is read as the configuration it describes; further
  \<open>[Peer]\<close> blocks behind the first change nothing.
\<close>

theorem wg_config_read:
  assumes "wf_config c" "describes s c"
  shows "ParseText s WireGuardConfig = c"
proof -
  obtain h ls kvs h' ls' kvs' rest where d:
    "filter (\<lambda>l. \<not> skipped l) (split_on (CHR 0x0A) s) = h # ls @ h' # ls' @ rest"
    "opens_section h ''interface''" "list_all2 assigns ls kvs" "reordered kvs (interface_items c)"
    "opens_section h' ''peer''" "list_all2 assigns ls' kvs'" "reordered kvs' (peer_items (peer c))"
    "rest = [] \<or> opens_section (hd rest) ''peer'' \<and> (\<forall>l \<in> set (tl rest). no_interface l)"
    using assms(2) unfolding describes_def by blast
  let ?s0 = "\<lparr> wg_sect = kNone, peerCount = 0, config = WireGuardConfig \<rparr>"
  let ?s1 = "\<lparr> wg_sect = kInterface, peerCount = 0, config = c\<lparr> peer := WireGuardPeer \<rparr> \<rparr>"
  let ?s2 = "\<lparr> wg_sect = kPeer, peerCount = 1, config = c \<rparr>"
  have "fold parse_wg_line (h # ls) ?s0 = ?s1"
    using parse_opens [OF d(2), of ?s0] fold_assigns [OF d(3)] interface_read [OF assms(1) d(4)]
    by (simp add: enter_section_def fold_set_interface)
  moreover have "fold parse_wg_line (h' # ls') ?s1 = ?s2"
    using parse_opens [OF d(5), of ?s1] fold_assigns [OF d(6)] peer_read [OF assms(1) d(7)]
    by (simp add: enter_section_def fold_wg_set_peer)
  moreover have "config (fold parse_wg_line rest ?s2) = c"
  proof (cases rest)
    case (Cons l ls)
    then have "opens_section l ''peer''" "\<forall>l \<in> set ls. no_interface l" using d(8) by auto
    then show ?thesis
      using Cons parse_opens [of l "''peer''" ?s2] fold_ignored [of ls "parse_wg_line l ?s2"]
      by (simp add: enter_section_def)
  qed simp
  ultimately show ?thesis by (simp add: ParseText_def fold_skipped [of "split_on (CHR 0x0A) s"] d(1))
qed

subsection \<open>An example\<close>

definition example_config :: WireGuardConfig where
  "example_config = \<lparr> privateKey = ''kA='', address = ''10.2.0.2/32'', dns = [], listenPort = 0, mtu = 1380,
     peer = \<lparr> publicKey = ''pB='', presharedKey = [], endpointHost = ''fd00::1'', endpointPort = 51820,
       allowedIPs = ''0.0.0.0/0'', persistentKeepalive = 25 \<rparr> \<rparr>"

definition example_lines :: "string list" where
  "example_lines = [''# laptop'', ''[Interface]'', '' MTU=1380'', ''  ; [Peer]'', ''PrivateKey = kA='', ''Address = 10.2.0.2/32'',
     [], ''[peer]'', ''PublicKey = pB='', ''Endpoint = [fd00::1]:51820'', ''ALLOWEDIPS=0.0.0.0/0 '',
     ''PersistentKeepalive = 25'', ''[Peer]'', ''PublicKey = other'']"

definition join_lines :: "string list \<Rightarrow> string" where
  "join_lines ls = concat (map (\<lambda>l. l @ [CHR 0x0A]) (butlast ls)) @ last ls"

lemma assigns_check:
  "l = a @ k @ b @ CHR ''='' # c @ v @ d \<Longrightarrow> assign_ok a k b c v d \<Longrightarrow> wg_to_lower k = key \<Longrightarrow> assigns l (key, v)"
  unfolding assigns_def fst_conv snd_conv by blast

lemma opens_check:
  "l = CHR ''['' # n @ '']'' \<Longrightarrow> trimmed n \<and> CHR '']'' \<notin> set n \<and> CHR 0x0A \<notin> set n \<and> wg_to_lower n = name \<Longrightarrow> opens_section l name"
  unfolding opens_section_def by (rule exI [of _ "[]"], rule exI [of _ "[]"], rule exI [of _ n], rule exI [of _ "[]"],
    rule exI [of _ "[]"]) (auto simp: blank_def)

lemma describesI:
  assumes "filter (\<lambda>l. \<not> skipped l) (split_on (CHR 0x0A) s) = h # ls @ h' # ls' @ rest"
    and "opens_section h ''interface''" "list_all2 assigns ls kvs" "reordered kvs (interface_items c)"
    and "opens_section h' ''peer''" "list_all2 assigns ls' kvs'" "reordered kvs' (peer_items (peer c))"
    and "rest = [] \<or> opens_section (hd rest) ''peer'' \<and> (\<forall>l \<in> set (tl rest). no_interface l)"
  shows "describes s c"
  unfolding describes_def using assms by blast

lemma example_describes: "describes (join_lines example_lines) example_config"
proof -
  let ?i = "[(''mtu'', ''1380''), (''privatekey'', ''kA=''), (''address'', ''10.2.0.2/32'')]"
  let ?p = "[(''publickey'', ''pB=''), (''endpoint'', ''[fd00::1]:51820''), (''allowedips'', ''0.0.0.0/0''),
             (''persistentkeepalive'', ''25'')]"
  have lines: "filter (\<lambda>l. \<not> skipped l) (split_on (CHR 0x0A) (join_lines example_lines))
      = ''[Interface]'' # ['' MTU=1380'', ''PrivateKey = kA='', ''Address = 10.2.0.2/32''] @ ''[peer]''
        # [''PublicKey = pB='', ''Endpoint = [fd00::1]:51820'', ''ALLOWEDIPS=0.0.0.0/0 '', ''PersistentKeepalive = 25'']
        @ [''[Peer]'', ''PublicKey = other'']" by code_simp
  have a1: "assigns '' MTU=1380'' (''mtu'', ''1380'')"
    by (rule assigns_check [of _ "'' ''" "''MTU''" "[]" "[]" "''1380''" "[]"]) code_simp+
  have a2: "assigns ''PrivateKey = kA='' (''privatekey'', ''kA='')"
    by (rule assigns_check [of _ "[]" "''PrivateKey''" "'' ''" "'' ''" "''kA=''" "[]"]) code_simp+
  have a3: "assigns ''Address = 10.2.0.2/32'' (''address'', ''10.2.0.2/32'')"
    by (rule assigns_check [of _ "[]" "''Address''" "'' ''" "'' ''" "''10.2.0.2/32''" "[]"]) code_simp+
  have b1: "assigns ''PublicKey = pB='' (''publickey'', ''pB='')"
    by (rule assigns_check [of _ "[]" "''PublicKey''" "'' ''" "'' ''" "''pB=''" "[]"]) code_simp+
  have b2: "assigns ''Endpoint = [fd00::1]:51820'' (''endpoint'', ''[fd00::1]:51820'')"
    by (rule assigns_check [of _ "[]" "''Endpoint''" "'' ''" "'' ''" "''[fd00::1]:51820''" "[]"]) code_simp+
  have b3: "assigns ''ALLOWEDIPS=0.0.0.0/0 '' (''allowedips'', ''0.0.0.0/0'')"
    by (rule assigns_check [of _ "[]" "''ALLOWEDIPS''" "[]" "[]" "''0.0.0.0/0''" "'' ''"]) code_simp+
  have b4: "assigns ''PersistentKeepalive = 25'' (''persistentkeepalive'', ''25'')"
    by (rule assigns_check [of _ "[]" "''PersistentKeepalive''" "'' ''" "'' ''" "''25''" "[]"]) code_simp+
  have o: "opens_section ''[Interface]'' ''interface''" "opens_section ''[peer]'' ''peer''" "opens_section ''[Peer]'' ''peer''"
    by (rule opens_check [of _ "''Interface''"], code_simp, code_simp, rule opens_check [of _ "''peer''"], code_simp,
        code_simp, rule opens_check [of _ "''Peer''"], code_simp, code_simp)
  have no: "no_interface ''PublicKey = other''" by code_simp
  have "show_nat 1380 = ''1380''" "show_nat 51820 = ''51820''" "show_nat 25 = ''25''"
    by (simp_all add: show_nat.simps char_of_def bit_0)
  then have r: "reordered ?i (interface_items example_config)" "reordered ?p (peer_items (peer example_config))"
    by (simp_all add: reordered_def interface_items_def peer_items_def example_config_def given_def given_num_def
        print_endpoint_def insert_commute)
  show ?thesis
    by (rule describesI [OF lines o(1) _ r(1) o(2) _ r(2)]) (simp_all add: a1 a2 a3 b1 b2 b3 b4 o no)
qed

theorem wg_config_read_witness:
  "wf_config example_config \<and> ParseText (join_lines example_lines) WireGuardConfig = example_config"
proof -
  have "wf_config example_config" by code_simp
  then show ?thesis using wg_config_read [OF _ example_describes] by simp
qed

end
