(* ===== verification/VPNTypes.thy ===== *)
theory VPNTypes
  imports CLib
begin

text \<open>
  What the daemon, its backends and its clients share: the states of a connection
  (\<open>src/src/common/VPNState.cpp\<close>), its counters (\<open>VPNStats.cpp\<close>) and profiles
  (\<open>VPNProfile.cpp\<close>), and the messages they travel in.  A \<open>BMessage\<close> of the Haiku kit is a
  \<open>what\<close> code with an ordered list of named values; the values of one name all have one type.
  Archiving and unarchiving are inverse to each other, for profiles up to the pre-auth key,
  which is never archived.
\<close>

subsection \<open>Messages\<close>

datatype fval =
    Int32V u32 | Int64V u64 | StringV string | BoolV bool | FloatV u32 | MessengerV nat
  | MessageV string "(string \<times> fval) list"

type_synonym fields = "(string \<times> fval) list"

record bmessage =
  what :: string
  msg_fields :: fields

definition BMessage :: "string \<Rightarrow> bmessage" where
  "BMessage w = \<lparr> what = w, msg_fields = [] \<rparr>"

fun same_type :: "fval \<Rightarrow> fval \<Rightarrow> bool" where
  "same_type (Int32V _) (Int32V _) = True"
| "same_type (Int64V _) (Int64V _) = True"
| "same_type (StringV _) (StringV _) = True"
| "same_type (BoolV _) (BoolV _) = True"
| "same_type (FloatV _) (FloatV _) = True"
| "same_type (MessengerV _) (MessengerV _) = True"
| "same_type (MessageV _ _) (MessageV _ _) = True"
| "same_type _ _ = False"

text \<open>\<open>AddInt32\<close>, \<open>AddString\<close>, \dots: a second value of a name must have the type of the first.\<close>

definition Add :: "string \<Rightarrow> fval \<Rightarrow> bmessage \<Rightarrow> status \<times> bmessage" where
  "Add n v m =
     (if list_ex (\<lambda>f. fst f = n \<and> \<not> same_type (snd f) v) (msg_fields m) then (B_BAD_TYPE, m)
      else (B_OK, m\<lparr> msg_fields := msg_fields m @ [(n, v)] \<rparr>))"

abbreviation add :: "string \<Rightarrow> fval \<Rightarrow> bmessage \<Rightarrow> bmessage" where
  "add n v m \<equiv> snd (Add n v m)"

text \<open>The values of a name in order; \<open>FindData\<dots>(name, &v)\<close> reads the first one.\<close>

definition values_of :: "string \<Rightarrow> bmessage \<Rightarrow> fval list" where
  "values_of n m = map snd (filter (\<lambda>f. fst f = n) (msg_fields m))"

definition FindData :: "string \<Rightarrow> bmessage \<Rightarrow> fval option" where
  "FindData n m = (case values_of n m of [] \<Rightarrow> None | v # _ \<Rightarrow> Some v)"

definition FindInt32 :: "string \<Rightarrow> bmessage \<Rightarrow> u32 option" where
  "FindInt32 n m = (case FindData n m of Some (Int32V v) \<Rightarrow> Some v | _ \<Rightarrow> None)"

definition FindInt64 :: "string \<Rightarrow> bmessage \<Rightarrow> u64 option" where
  "FindInt64 n m = (case FindData n m of Some (Int64V v) \<Rightarrow> Some v | _ \<Rightarrow> None)"

definition FindString :: "string \<Rightarrow> bmessage \<Rightarrow> string option" where
  "FindString n m = (case FindData n m of Some (StringV v) \<Rightarrow> Some v | _ \<Rightarrow> None)"

definition FindBool :: "string \<Rightarrow> bmessage \<Rightarrow> bool option" where
  "FindBool n m = (case FindData n m of Some (BoolV v) \<Rightarrow> Some v | _ \<Rightarrow> None)"

definition FindFloat :: "string \<Rightarrow> bmessage \<Rightarrow> u32 option" where
  "FindFloat n m = (case FindData n m of Some (FloatV v) \<Rightarrow> Some v | _ \<Rightarrow> None)"

definition FindMessenger :: "string \<Rightarrow> bmessage \<Rightarrow> nat option" where
  "FindMessenger n m = (case FindData n m of Some (MessengerV v) \<Rightarrow> Some v | _ \<Rightarrow> None)"

definition FindMessage :: "string \<Rightarrow> bmessage \<Rightarrow> bmessage option" where
  "FindMessage n m =
     (case FindData n m of Some (MessageV w fs) \<Rightarrow> Some \<lparr> what = w, msg_fields = fs \<rparr> | _ \<Rightarrow> None)"

definition message_val :: "bmessage \<Rightarrow> fval" where
  "message_val m = MessageV (what m) (msg_fields m)"

text \<open>The loop \<open>for (i = 0; FindMessage(name, i, &entry) == B_OK; i++)\<close>.\<close>

definition FindMessages :: "string \<Rightarrow> bmessage \<Rightarrow> bmessage list" where
  "FindMessages n m =
     concat (map (\<lambda>v. case v of MessageV w fs \<Rightarrow> [\<lparr> what = w, msg_fields = fs \<rparr>] | _ \<Rightarrow> [])
       (takeWhile (\<lambda>v. same_type v (MessageV [] [])) (values_of n m)))"

text \<open>\<open>ReplaceInt32\<close> and \<open>ReplaceString\<close> on the first value, or an error when there is none.\<close>

fun replace_first :: "string \<Rightarrow> fval \<Rightarrow> fields \<Rightarrow> fields option" where
  "replace_first n v [] = None"
| "replace_first n v (f # fs) =
     (if fst f = n then (if same_type (snd f) v then Some ((n, v) # fs) else None)
      else map_option ((#) f) (replace_first n v fs))"

definition replace_or_add :: "string \<Rightarrow> fval \<Rightarrow> bmessage \<Rightarrow> bmessage" where
  "replace_or_add n v m =
     (case replace_first n v (msg_fields m) of
        Some fs \<Rightarrow> m\<lparr> msg_fields := fs \<rparr> | None \<Rightarrow> add n v m)"

lemma what_BMessage [simp]: "what (BMessage w) = w" "msg_fields (BMessage w) = []"
  by (simp_all add: BMessage_def)

lemma what_Add [simp]: "what (add n v m) = what m"
  by (simp add: Add_def)

lemma same_type_refl [simp]: "same_type v v"
  by (cases v) auto

lemma values_of_BMessage [simp]: "values_of n (BMessage w) = []"
  by (simp add: values_of_def)

lemma Add_new [simp]: "values_of n m = [] \<Longrightarrow> Add n v m = (B_OK, m\<lparr> msg_fields := msg_fields m @ [(n, v)] \<rparr>)"
  by (auto simp: Add_def values_of_def filter_empty_conv list_ex_iff)

lemma values_of_snoc [simp]:
  "values_of n (m\<lparr> msg_fields := msg_fields m @ [(k, v)] \<rparr>) = values_of n m @ (if k = n then [v] else [])"
  by (simp add: values_of_def)

lemma values_of_other [simp]: "k \<noteq> n \<Longrightarrow> values_of n (add k v m) = values_of n m"
  by (simp add: Add_def values_of_def)

lemma Find_other [simp]: "k \<noteq> n \<Longrightarrow> FindData n (add k v m) = FindData n m"
  by (simp add: FindData_def)

lemma Find_values: "values_of n m = v # vs \<Longrightarrow> FindData n m = Some v"
  by (simp add: FindData_def)

lemma Find_none: "values_of n m = [] \<Longrightarrow> FindData n m = None"
  by (simp add: FindData_def)

lemmas find_defs = FindInt32_def FindInt64_def FindString_def FindBool_def FindFloat_def
  FindMessenger_def FindMessage_def

lemma replace_first_hit:
  "map snd (filter (\<lambda>f. fst f = n) gs) = u # us \<Longrightarrow> same_type u v \<Longrightarrow>
   \<exists>fs. replace_first n v gs = Some fs \<and> map snd (filter (\<lambda>f. fst f = n) fs) = v # us"
  by (induction gs) (auto split: if_splits)

lemma replace_first_miss: "values_of n m = [] \<Longrightarrow> replace_first n v (msg_fields m) = None"
proof -
  have "map snd (filter (\<lambda>f. fst f = n) gs) = [] \<Longrightarrow> replace_first n v gs = None" for gs
    by (induction gs) (auto split: if_splits)
  then show "values_of n m = [] \<Longrightarrow> ?thesis" by (simp add: values_of_def)
qed

lemma Find_replace_or_add:
  assumes "values_of n m = [] \<or> (\<exists>u us. values_of n m = u # us \<and> same_type u v)"
  shows "FindData n (replace_or_add n v m) = Some v"
  using assms
proof
  assume "values_of n m = []"
  then show ?thesis by (simp add: replace_or_add_def replace_first_miss FindData_def)
next
  assume "\<exists>u us. values_of n m = u # us \<and> same_type u v"
  then obtain u us where "values_of n m = u # us" "same_type u v" by blast
  then obtain fs where "replace_first n v (msg_fields m) = Some fs" "map snd (filter (\<lambda>f. fst f = n) fs) = v # us"
    using replace_first_hit [of n "msg_fields m" u us v] by (auto simp: values_of_def)
  then show ?thesis by (simp add: replace_or_add_def FindData_def values_of_def)
qed

subsection \<open>States\<close>

datatype VPNState =
    VPN_STATE_DISCONNECTED | VPN_STATE_CONNECTING | VPN_STATE_AUTHENTICATING
  | VPN_STATE_CONNECTED | VPN_STATE_RECONNECTING | VPN_STATE_ERROR
  | VPN_STATE_OTHER u32 \<comment> \<open>a cast of an integer above 5\<close>

fun state_int :: "VPNState \<Rightarrow> u32" where
  "state_int VPN_STATE_DISCONNECTED = 0"
| "state_int VPN_STATE_CONNECTING = 1"
| "state_int VPN_STATE_AUTHENTICATING = 2"
| "state_int VPN_STATE_CONNECTED = 3"
| "state_int VPN_STATE_RECONNECTING = 4"
| "state_int VPN_STATE_ERROR = 5"
| "state_int (VPN_STATE_OTHER n) = n"

definition int_state :: "u32 \<Rightarrow> VPNState" where
  "int_state n =
     (if n = 0 then VPN_STATE_DISCONNECTED else if n = 1 then VPN_STATE_CONNECTING
      else if n = 2 then VPN_STATE_AUTHENTICATING else if n = 3 then VPN_STATE_CONNECTED
      else if n = 4 then VPN_STATE_RECONNECTING else if n = 5 then VPN_STATE_ERROR
      else VPN_STATE_OTHER n)"

fun vpn_state_name :: "VPNState \<Rightarrow> string" where
  "vpn_state_name VPN_STATE_DISCONNECTED = ''Disconnected''"
| "vpn_state_name VPN_STATE_CONNECTING = ''Connecting''"
| "vpn_state_name VPN_STATE_AUTHENTICATING = ''Authenticating''"
| "vpn_state_name VPN_STATE_CONNECTED = ''Connected''"
| "vpn_state_name VPN_STATE_RECONNECTING = ''Reconnecting''"
| "vpn_state_name VPN_STATE_ERROR = ''Error''"
| "vpn_state_name (VPN_STATE_OTHER _) = ''Unknown''"

text \<open>Neither connected nor on the way: the states in which a backend accepts \<open>Connect\<close>.\<close>

definition idle_state :: "VPNState \<Rightarrow> bool" where
  "idle_state s \<longleftrightarrow> s = VPN_STATE_DISCONNECTED \<or> s = VPN_STATE_ERROR"

lemma int_state_int [simp]: "(\<And>n. s \<noteq> VPN_STATE_OTHER n) \<Longrightarrow> int_state (state_int s) = s"
  by (cases s) (auto simp: int_state_def)

lemma state_int_state [simp]: "state_int (int_state n) = n"
  by (simp add: int_state_def)


subsection \<open>Counters\<close>

definition kFieldBytesIn :: string where "kFieldBytesIn = ''soto:bytesIn''"
definition kFieldBytesOut :: string where "kFieldBytesOut = ''soto:bytesOut''"
definition kFieldConnectedSince :: string where "kFieldConnectedSince = ''soto:connectedSince''"

record VPNStats =
  fBytesIn :: u64
  fBytesOut :: u64
  fConnectedSince :: u64

definition ResetStats :: VPNStats where
  "ResetStats = \<lparr> fBytesIn = 0, fBytesOut = 0, fConnectedSince = 0 \<rparr>"

text \<open>A chain of additions that stops at the first failure, as every \<open>Archive\<close> does.\<close>

fun add_all :: "fields \<Rightarrow> bmessage \<Rightarrow> status \<times> bmessage" where
  "add_all [] m = (B_OK, m)"
| "add_all ((n, v) # fs) m = (let (r, m) = Add n v m in if r = B_OK then add_all fs m else (r, m))"

definition ArchiveStats :: "VPNStats \<Rightarrow> bmessage \<Rightarrow> status \<times> bmessage" where
  "ArchiveStats s into = add_all
     [(kFieldBytesIn, Int64V (fBytesIn s)), (kFieldBytesOut, Int64V (fBytesOut s)),
      (kFieldConnectedSince, Int64V (fConnectedSince s))] into"

definition UnarchiveStats :: "bmessage \<Rightarrow> VPNStats \<Rightarrow> VPNStats" where
  "UnarchiveStats m s =
     (let s = (case FindInt64 kFieldBytesIn m of Some v \<Rightarrow> s\<lparr> fBytesIn := v \<rparr> | None \<Rightarrow> s);
          s = (case FindInt64 kFieldBytesOut m of Some v \<Rightarrow> s\<lparr> fBytesOut := v \<rparr> | None \<Rightarrow> s)
      in case FindInt64 kFieldConnectedSince m of Some v \<Rightarrow> s\<lparr> fConnectedSince := v \<rparr> | None \<Rightarrow> s)"

subsection \<open>Profiles\<close>

datatype VPNBackendType =
    VPN_BACKEND_OPENVPN | VPN_BACKEND_WIREGUARD | VPN_BACKEND_IPSEC | VPN_BACKEND_TAILSCALE
  | VPN_BACKEND_OTHER u32 \<comment> \<open>a cast of an integer above 3\<close>

fun backend_int :: "VPNBackendType \<Rightarrow> u32" where
  "backend_int VPN_BACKEND_OPENVPN = 0"
| "backend_int VPN_BACKEND_WIREGUARD = 1"
| "backend_int VPN_BACKEND_IPSEC = 2"
| "backend_int VPN_BACKEND_TAILSCALE = 3"
| "backend_int (VPN_BACKEND_OTHER n) = n"

definition int_backend :: "u32 \<Rightarrow> VPNBackendType" where
  "int_backend n =
     (if n = 0 then VPN_BACKEND_OPENVPN else if n = 1 then VPN_BACKEND_WIREGUARD
      else if n = 2 then VPN_BACKEND_IPSEC else if n = 3 then VPN_BACKEND_TAILSCALE
      else VPN_BACKEND_OTHER n)"

record VPNProfile =
  fBackendType :: VPNBackendType
  fName :: string
  fServer :: string
  fPort :: u16
  fUsername :: string
  fProtocol :: string
  fConfigPath :: string
  fAuthKey :: string

definition VPNProfile :: VPNProfile where
  "VPNProfile = \<lparr> fBackendType = VPN_BACKEND_OPENVPN, fName = [], fServer = [], fPort = 1194,
     fUsername = [], fProtocol = ''udp'', fConfigPath = [], fAuthKey = [] \<rparr>"

definition kFieldProfileName :: string where "kFieldProfileName = ''soto:profile:name''"
definition kFieldProfileServer :: string where "kFieldProfileServer = ''soto:profile:server''"
definition kFieldProfilePort :: string where "kFieldProfilePort = ''soto:profile:port''"
definition kFieldProfileBackend :: string where "kFieldProfileBackend = ''soto:profile:backendType''"
definition kFieldProfileUsername :: string where "kFieldProfileUsername = ''soto:profile:username''"
definition kFieldProfileConfigPath :: string where "kFieldProfileConfigPath = ''soto:profile:configPath''"
definition kFieldProfileProtocol :: string where "kFieldProfileProtocol = ''soto:profile:protocol''"
definition kFieldProfileAuthKey :: string where "kFieldProfileAuthKey = ''soto:profile:authKey''"

definition Archive :: "VPNProfile \<Rightarrow> bmessage \<Rightarrow> status \<times> bmessage" where
  "Archive p into = add_all
     [(kFieldProfileBackend, Int32V (backend_int (fBackendType p))),
      (kFieldProfileName, StringV (fName p)),
      (kFieldProfileServer, StringV (fServer p)),
      (kFieldProfilePort, Int32V (ucast (fPort p))),
      (kFieldProfileUsername, StringV (fUsername p)),
      (kFieldProfileProtocol, StringV (fProtocol p)),
      (kFieldProfileConfigPath, StringV (fConfigPath p))] into"

definition Unarchive :: "bmessage \<Rightarrow> VPNProfile \<Rightarrow> VPNProfile" where
  "Unarchive m p =
     (let str = (\<lambda>n u p. case FindString n m of Some v \<Rightarrow> u v p | None \<Rightarrow> p);
          p = (case FindInt32 kFieldProfileBackend m of Some v \<Rightarrow> p\<lparr> fBackendType := int_backend v \<rparr> | None \<Rightarrow> p);
          p = str kFieldProfileName (\<lambda>v p. p\<lparr> fName := v \<rparr>) p;
          p = str kFieldProfileServer (\<lambda>v p. p\<lparr> fServer := v \<rparr>) p;
          p = (case FindInt32 kFieldProfilePort m of Some v \<Rightarrow> p\<lparr> fPort := ucast v \<rparr> | None \<Rightarrow> p);
          p = str kFieldProfileUsername (\<lambda>v p. p\<lparr> fUsername := v \<rparr>) p;
          p = str kFieldProfileProtocol (\<lambda>v p. p\<lparr> fProtocol := v \<rparr>) p;
          p = str kFieldProfileConfigPath (\<lambda>v p. p\<lparr> fConfigPath := v \<rparr>) p
      in str kFieldProfileAuthKey (\<lambda>v p. p\<lparr> fAuthKey := v \<rparr>) p)"

text \<open>A message without one of these fields gets them all, in order.\<close>

lemma add_all_fresh:
  "distinct (map fst fs) \<Longrightarrow> (\<And>n. n \<in> fst ` set fs \<Longrightarrow> values_of n m = []) \<Longrightarrow>
   add_all fs m = (B_OK, m\<lparr> msg_fields := msg_fields m @ fs \<rparr>)"
proof (induction fs arbitrary: m)
  case (Cons f fs)
  obtain n v where f: "f = (n, v)" by fastforce
  have "Add n v m = (B_OK, m\<lparr> msg_fields := msg_fields m @ [(n, v)] \<rparr>)" using Cons.prems(2) f by simp
  moreover have "add_all fs (m\<lparr> msg_fields := msg_fields m @ [(n, v)] \<rparr>)
      = (B_OK, m\<lparr> msg_fields := msg_fields m @ [(n, v)] @ fs \<rparr>)"
    using Cons.IH [of "m\<lparr> msg_fields := msg_fields m @ [(n, v)] \<rparr>"] Cons.prems f by force
  ultimately show ?case using f by simp
qed simp

text \<open>What the archive holds, on its own or inside a message.\<close>

definition profile_fields :: "VPNProfile \<Rightarrow> fields" where
  "profile_fields p =
     [(kFieldProfileBackend, Int32V (backend_int (fBackendType p))), (kFieldProfileName, StringV (fName p)),
      (kFieldProfileServer, StringV (fServer p)), (kFieldProfilePort, Int32V (ucast (fPort p))),
      (kFieldProfileUsername, StringV (fUsername p)), (kFieldProfileProtocol, StringV (fProtocol p)),
      (kFieldProfileConfigPath, StringV (fConfigPath p))]"

lemmas profile_names = kFieldProfileName_def kFieldProfileServer_def kFieldProfilePort_def kFieldProfileBackend_def
  kFieldProfileUsername_def kFieldProfileConfigPath_def kFieldProfileProtocol_def kFieldProfileAuthKey_def

lemma Archive_fresh: "Archive p (BMessage w) = (B_OK, \<lparr> what = w, msg_fields = profile_fields p \<rparr>)"
  unfolding Archive_def by (subst add_all_fresh) (auto simp: profile_names profile_fields_def BMessage_def values_of_def)

definition known_backend :: "VPNBackendType \<Rightarrow> bool" where
  "known_backend b \<longleftrightarrow> int_backend (backend_int b) = b"

lemma int_backend_known [simp]: "known_backend (int_backend n)"
  by (simp add: known_backend_def int_backend_def)

lemma ucast_port [simp]: "ucast (ucast (p :: u16) :: u32) = p"
  by (rule bit_word_eqI) (auto simp: bit_simps)

text \<open>
  Unarchiving the archive of a profile gives the profile, without its pre-auth key.
\<close>

lemma profile_roundtrip:
  "known_backend (fBackendType p) \<Longrightarrow>
   Unarchive (snd (Archive p (BMessage w))) q = p\<lparr> fAuthKey := fAuthKey q \<rparr>"
  by (simp add: Archive_fresh Unarchive_def profile_fields_def FindString_def FindInt32_def FindData_def values_of_def
      profile_names known_backend_def Let_def)

lemma Unarchive_known: "known_backend (fBackendType p) \<Longrightarrow> known_backend (fBackendType (Unarchive m p))"
  by (simp add: Unarchive_def Let_def split: option.split)

lemma stats_roundtrip: "UnarchiveStats (snd (ArchiveStats s (BMessage w))) t = s"
proof -
  have "snd (ArchiveStats s (BMessage w)) = \<lparr> what = w, msg_fields =
     [(kFieldBytesIn, Int64V (fBytesIn s)), (kFieldBytesOut, Int64V (fBytesOut s)),
      (kFieldConnectedSince, Int64V (fConnectedSince s))] \<rparr>"
    unfolding ArchiveStats_def
    by (subst add_all_fresh) (auto simp: kFieldBytesIn_def kFieldBytesOut_def kFieldConnectedSince_def BMessage_def values_of_def)
  then show ?thesis
    by (simp add: UnarchiveStats_def FindInt64_def FindData_def values_of_def kFieldBytesIn_def kFieldBytesOut_def
        kFieldConnectedSince_def Let_def)
qed

subsection \<open>Events of a backend\<close>

definition kMsgStatusUpdate :: string where "kMsgStatusUpdate = ''sUpd''"
definition kMsgStatsUpdate :: string where "kMsgStatsUpdate = ''sStt''"
definition kFieldState :: string where "kFieldState = ''soto:state''"
definition kFieldDetail :: string where "kFieldDetail = ''soto:detail''"
definition kFieldBackend :: string where "kFieldBackend = ''soto:backend''"
definition kFieldLocalIP :: string where "kFieldLocalIP = ''soto:localIP''"
definition kFieldRemoteIP :: string where "kFieldRemoteIP = ''soto:remoteIP''"

text \<open>
  \<open>VPNBackend::NotifyStateChanged\<close> and \<open>NotifyStats\<close>: the messages for the observer, with the
  results of the virtual methods \<open>BackendName\<close>, \<open>Stats\<close>, \<open>LocalIP\<close> and \<open>RemoteIP\<close> as arguments.
  Without a valid observer nothing is sent.
\<close>

definition NotifyStateChanged ::
  "bool \<Rightarrow> string \<Rightarrow> VPNStats \<Rightarrow> string \<Rightarrow> string \<Rightarrow> VPNState \<Rightarrow> string option \<Rightarrow> bmessage list" where
  "NotifyStateChanged observer name stats localIP remoteIP state detail =
     (if \<not> observer then []
      else let m = add kFieldState (Int32V (state_int state)) (BMessage kMsgStatusUpdate);
               m = add kFieldBackend (StringV name) m;
               m = (case detail of Some d \<Rightarrow> add kFieldDetail (StringV d) m | None \<Rightarrow> m);
               m = snd (ArchiveStats stats m);
               m = (if localIP \<noteq> [] then add kFieldLocalIP (StringV localIP) m else m);
               m = (if remoteIP \<noteq> [] then add kFieldRemoteIP (StringV remoteIP) m else m)
           in [m])"

definition NotifyStats :: "bool \<Rightarrow> VPNStats \<Rightarrow> bmessage list" where
  "NotifyStats observer stats =
     (if \<not> observer then [] else [snd (ArchiveStats stats (BMessage kMsgStatsUpdate))])"

text \<open>The state that a status message announces; without the field it is read as disconnected.\<close>

definition announced :: "bmessage \<Rightarrow> VPNState" where
  "announced m = int_state (case FindInt32 kFieldState m of Some v \<Rightarrow> v | None \<Rightarrow> state_int VPN_STATE_DISCONNECTED)"

lemma Find_add_all_other: "n \<notin> fst ` set fs \<Longrightarrow> FindData n (snd (add_all fs m)) = FindData n m"
proof (induction fs arbitrary: m)
  case (Cons f fs)
  obtain k v where f: "f = (k, v)" by fastforce
  have "FindData n (snd (Add k v m)) = FindData n m" using Cons.prems f by (intro Find_other) auto
  then show ?case using Cons f by (simp add: split_beta Let_def)
qed simp

lemmas event_names = kFieldState_def kFieldDetail_def kFieldBackend_def kFieldLocalIP_def kFieldRemoteIP_def
  kFieldBytesIn_def kFieldBytesOut_def kFieldConnectedSince_def

lemma Find_add_eq: "values_of n m = [] \<Longrightarrow> FindData n (add n v m) = Some v"
  by (simp add: FindData_def)

lemma event_names_distinct [simp]:
  "kFieldBackend \<noteq> kFieldState" "kFieldDetail \<noteq> kFieldState" "kFieldLocalIP \<noteq> kFieldState" "kFieldRemoteIP \<noteq> kFieldState"
  by (simp_all add: event_names)

lemma what_add_all [simp]: "what (snd (add_all fs k)) = what k"
  by (induction fs arbitrary: k) (auto simp: split_beta Let_def)

lemma ArchiveStats_keeps [simp]:
  "what (snd (ArchiveStats s m)) = what m" "FindData kFieldState (snd (ArchiveStats s m)) = FindData kFieldState m"
  unfolding ArchiveStats_def by (rule what_add_all, rule Find_add_all_other, simp add: event_names)

lemma announced_NotifyStateChanged:
  assumes "m \<in> set (NotifyStateChanged obs name stats l r state detail)" "\<And>n. state \<noteq> VPN_STATE_OTHER n"
  shows "announced m = state" "what m = kMsgStatusUpdate"
proof -
  have e: "FindData kFieldState (add kFieldState (Int32V (state_int state)) (BMessage kMsgStatusUpdate)) = Some (Int32V (state_int state))"
    by (rule Find_add_eq) simp
  have "FindData kFieldState m = Some (Int32V (state_int state)) \<and> what m = kMsgStatusUpdate"
    using assms(1) e by (auto simp: NotifyStateChanged_def Let_def simp del: Add_new split: option.splits if_splits)
  then show "announced m = state" "what m = kMsgStatusUpdate"
    using assms(2) by (simp_all add: announced_def FindInt32_def)
qed

end
