(* ===== verification/Base64.thy ===== *)
theory Base64
  imports ControlChannel
begin

text \<open>
  The two base64 decoders of the repository, \<open>base64_decode\<close> of
  \<open>src/src/backend/WireGuardBackend.cpp\<close> (into a buffer of fixed capacity) and \<open>decode_base64\<close> of
  \<open>src/src/server/SotoportegoServer.cpp\<close> (into a growing string), against the encoder of
  \<open>TSControlClient.cpp\<close> (theory \<open>ControlChannel\<close>).  The accumulator is a 32-bit word from which only
  the low 14 bits are ever read, so it does not matter what is shifted out of it.
\<close>

subsection \<open>The decoders\<close>

definition b64_rev :: "char \<Rightarrow> nat option" where
  "b64_rev c = find_first c kAlphabet"

definition b64_skip :: "char \<Rightarrow> bool" where
  "b64_skip c \<longleftrightarrow> c = CHR '' '' \<or> c = CHR 0x09 \<or> c = CHR 0x0D \<or> c = CHR 0x0A"

text \<open>The verdict, and the bytes written to the buffer by then.\<close>

fun base64_loop :: "nat \<Rightarrow> string \<Rightarrow> u32 \<Rightarrow> nat \<Rightarrow> bytes \<Rightarrow> bool \<times> bytes" where
  "base64_loop outCap [] buffer bits out = (True, out)"
| "base64_loop outCap (c # p) buffer bits out =
     (if c = CHR ''='' then (True, out)
      else if b64_skip c then base64_loop outCap p buffer bits out
      else case b64_rev c of None \<Rightarrow> (False, out)
      | Some v \<Rightarrow>
          let buffer = push_bit 6 buffer OR of_nat v; bits = bits + 6 in
          if bits \<ge> 8 then
            (if length out \<ge> outCap then (False, out)
             else base64_loop outCap p buffer (bits - 8) (out @ [ucast (drop_bit (bits - 8) buffer AND 0xFF)]))
          else base64_loop outCap p buffer bits out)"

definition base64_decode :: "nat \<Rightarrow> string \<Rightarrow> bool \<times> bytes" where
  "base64_decode outCap s = base64_loop outCap (c_str s) 0 0 []"

text \<open>The daemon's decoder also rejects a text that ends with a lone group of six bits.\<close>

fun decode_loop :: "string \<Rightarrow> u32 \<Rightarrow> nat \<Rightarrow> bytes \<Rightarrow> bytes option" where
  "decode_loop [] buffer bits out = (if bits \<ge> 6 then None else Some out)"
| "decode_loop (c # p) buffer bits out =
     (if b64_skip c then decode_loop p buffer bits out
      else if c = CHR ''='' then (if bits \<ge> 6 then None else Some out)
      else case b64_rev c of None \<Rightarrow> None
      | Some v \<Rightarrow>
          let buffer = push_bit 6 buffer OR of_nat v; bits = bits + 6 in
          if bits \<ge> 8
          then decode_loop p buffer (bits - 8) (out @ [ucast (drop_bit (bits - 8) buffer AND 0xFF)])
          else decode_loop p buffer bits out)"

definition decode_base64 :: "string \<Rightarrow> bytes option" where
  "decode_base64 s = decode_loop (c_str s) 0 0 []"

subsection \<open>One character\<close>

text \<open>The character of six bits of a group of 24.\<close>

definition sextet :: "nat \<Rightarrow> u32 \<Rightarrow> u32" where
  "sextet k n = drop_bit k n AND 0x3F"

definition letter :: "nat \<Rightarrow> u32 \<Rightarrow> char" where
  "letter k n = kAlphabet ! unat (sextet k n)"

definition quad :: "u8 \<Rightarrow> u8 \<Rightarrow> u8 \<Rightarrow> u32" where
  "quad a b c = (push_bit 16 (ucast a) OR push_bit 8 (ucast b)) OR ucast c"

lemma encode_letters:
  "base64_encode (a # b # c # rest) =
     letter 18 (quad a b c) # letter 12 (quad a b c) # letter 6 (quad a b c) # letter 0 (quad a b c) # base64_encode rest"
  "base64_encode [a] = letter 18 (quad a 0 0) # letter 12 (quad a 0 0) # ''==''"
  "base64_encode [a, b] = letter 18 (quad a b 0) # letter 12 (quad a b 0) # letter 6 (quad a b 0) # ''=''"
  by (simp_all add: letter_def sextet_def quad_def Let_def)

lemma alphabet_facts:
  "list_all (\<lambda>i. b64_rev (kAlphabet ! i) = Some i \<and> kAlphabet ! i \<noteq> CHR ''='' \<and> \<not> b64_skip (kAlphabet ! i)
     \<and> code (kAlphabet ! i) \<noteq> 0) [0..<64]"
  by code_simp

lemma masks: "(0x3F :: u32) = Bit_Operations.mask 6" "(0xFF :: u32) = Bit_Operations.mask 8"
  by (simp_all add: mask_eq_exp_minus_1)

lemma sextet_less: "unat (sextet k n) < 64"
proof -
  have "sextet k n = take_bit 6 (drop_bit k n)" by (simp add: sextet_def masks take_bit_eq_mask)
  then show ?thesis by (simp add: unat_take_bit_mod)
qed

lemma letter_facts: "b64_rev (letter k n) = Some (unat (sextet k n))" "letter k n \<noteq> CHR ''=''" "\<not> b64_skip (letter k n)"
  "code (letter k n) \<noteq> 0"
proof -
  have "unat (sextet k n) \<in> set [0..<64]" using sextet_less [of k n] by simp
  then show "b64_rev (letter k n) = Some (unat (sextet k n))" "letter k n \<noteq> CHR ''=''" "\<not> b64_skip (letter k n)"
    "code (letter k n) \<noteq> 0"
    using alphabet_facts unfolding letter_def list_all_iff by blast+
qed

definition shift_in :: "u32 \<Rightarrow> nat \<Rightarrow> u32 \<Rightarrow> u32" where
  "shift_in x k n = push_bit 6 x OR sextet k n"

lemma base64_loop_char:
  "base64_loop cap (letter k n # p) buffer bits out =
     (let buffer = shift_in buffer k n; bits = bits + 6 in
      if bits \<ge> 8 then
        (if length out \<ge> cap then (False, out)
         else base64_loop cap p buffer (bits - 8) (out @ [ucast (drop_bit (bits - 8) buffer AND 0xFF)]))
      else base64_loop cap p buffer bits out)"
  using letter_facts [of k n] by (simp add: Let_def shift_in_def)

lemma decode_loop_char:
  "decode_loop (letter k n # p) buffer bits out =
     (let buffer = shift_in buffer k n; bits = bits + 6 in
      if bits \<ge> 8 then decode_loop p buffer (bits - 8) (out @ [ucast (drop_bit (bits - 8) buffer AND 0xFF)])
      else decode_loop p buffer bits out)"
  using letter_facts [of k n] by (simp add: Let_def shift_in_def)

declare base64_loop.simps(2) [simp del] decode_loop.simps(2) [simp del]

subsection \<open>One group\<close>

lemma bit_sextet: "bit (sextet k n) i \<longleftrightarrow> i < 6 \<and> bit n (k + i)"
  by (auto simp: sextet_def masks bit_simps add.commute)

lemma bit_shift_in: "i < 32 \<Longrightarrow> bit (shift_in x k n) i = (if i < 6 then bit n (k + i) else bit x (i - 6))"
  by (auto simp: shift_in_def bit_simps bit_sextet)

lemma octet: "i < 8 \<Longrightarrow> i = 0 \<or> i = 1 \<or> i = 2 \<or> i = 3 \<or> i = 4 \<or> i = 5 \<or> i = 6 \<or> i = (7 :: nat)"
  by auto

text \<open>The accumulator after two, three and four letters, whatever was in it before.\<close>

lemma bit_acc:
  "i < 8 \<Longrightarrow> bit (shift_in (shift_in x 18 n) 12 n) (i + 4) = bit n (i + 16)"
  "i < 8 \<Longrightarrow> bit (shift_in (shift_in x 12 n) 6 n) (i + 2) = bit n (i + 8)"
  "i < 8 \<Longrightarrow> bit (shift_in (shift_in x 6 n) 0 n) i = bit n i"
  by (drule octet, elim disjE, simp_all add: bit_shift_in)+

lemma bit_quad:
  "i < 8 \<Longrightarrow> bit (quad a b c) (i + 16) = bit a i"
  "i < 8 \<Longrightarrow> bit (quad a b c) (i + 8) = bit b i"
  "i < 8 \<Longrightarrow> bit (quad a b c) i = bit c i"
  by (auto simp: quad_def bit_simps dest: bit_imp_le_length)

lemma byte_of: "(\<And>i. i < 8 \<Longrightarrow> bit (w :: u32) (i + k) = bit a i) \<Longrightarrow> (ucast (drop_bit k w AND 0xFF) :: u8) = a"
  by (rule bit_word_eqI) (auto simp: masks bit_simps add.commute)

lemma group_bytes:
  "(ucast (drop_bit 4 (shift_in (shift_in x 18 (quad a b c)) 12 (quad a b c)) AND 0xFF) :: u8) = a"
  "(ucast (drop_bit 2 (shift_in (shift_in x 12 (quad a b c)) 6 (quad a b c)) AND 0xFF) :: u8) = b"
  "(ucast (shift_in (shift_in x 6 (quad a b c)) 0 (quad a b c) AND 0xFF) :: u8) = c"
  using byte_of [of "shift_in (shift_in x 6 (quad a b c)) 0 (quad a b c)" 0 c]
  by (auto intro!: byte_of simp: bit_acc(1,3) bit_acc(2) [simplified] bit_quad)

subsection \<open>Round trips\<close>

lemma loop_padding: "base64_loop cap (CHR ''='' # p) x k out = (True, out)"
  "decode_loop (CHR ''='' # p) x k out = (if k \<ge> 6 then None else Some out)"
  by (simp_all add: base64_loop.simps(2) decode_loop.simps(2) b64_skip_def)

lemma base64_loop_encode:
  "length out \<le> cap \<Longrightarrow>
   base64_loop cap (base64_encode bs) x 0 out = (length out + length bs \<le> cap, take cap (out @ bs))"
proof (induction bs arbitrary: x out rule: base64_encode.induct)
  case (1 a b c rest)
  then show ?case
    unfolding encode_letters
    by (simp add: Let_def base64_loop_char loop_padding group_bytes take_Cons')
next
  case (2 a)
  then show ?case
    unfolding encode_letters by (simp add: Let_def base64_loop_char loop_padding group_bytes take_Cons')
next
  case (3 a b)
  then show ?case
    unfolding encode_letters
    by (simp add: Let_def base64_loop_char loop_padding group_bytes take_Cons')
qed simp

lemma decode_loop_encode: "decode_loop (base64_encode bs) x 0 out = Some (out @ bs)"
proof (induction bs arbitrary: x out rule: base64_encode.induct)
  case (1 a b c rest)
  then show ?case
    unfolding encode_letters
    by (simp add: Let_def decode_loop_char loop_padding group_bytes)
next
  case (2 a)
  then show ?case
    unfolding encode_letters
    by (simp add: Let_def decode_loop_char loop_padding group_bytes)
next
  case (3 a b)
  then show ?case
    unfolding encode_letters
    by (simp add: Let_def decode_loop_char loop_padding group_bytes)
qed simp

lemma base64_encode_no_nul: "list_all (\<lambda>c. code c \<noteq> 0) (base64_encode bs)"
  by (induction bs rule: base64_encode.induct)
    (unfold encode_letters, use letter_facts(4) in \<open>auto simp del: base64_encode.simps(1-3)\<close>)

text \<open>
  Both decoders invert the encoder: the fixed-size one whenever the bytes fit its buffer (it
  refuses them otherwise), the daemon's always.
\<close>

theorem base64_roundtrip:
  "base64_decode cap (base64_encode bs) = (length bs \<le> cap, take cap bs)
   \<and> decode_base64 (base64_encode bs) = Some bs"
  using base64_loop_encode [of "[]" cap bs 0] decode_loop_encode [of bs 0 "[]"] base64_encode_no_nul [of bs]
  by (simp add: base64_decode_def decode_base64_def)

end
