(* ===== verification/WGBackend.thy ===== *)
theory WGBackend
  imports WGEngine WGConfig VPNTypes RouteSync Base64
begin

text \<open>
  \<open>WireGuardBackend\<close> (\<open>src/src/backend/WireGuardBackend.cpp\<close>) around its protocol engine: the
  connection life cycle on the daemon's looper (\<open>Connect\<close>, \<open>Disconnect\<close>, \<open>MessageReceived\<close>,
  \<open>_Cleanup\<close>), the tunnel slot and the UDP socket, the routes for \<open>AllowedIPs\<close> and the resolver file,
  and the reader thread (\<open>_RunReaderLoop\<close>).  Descriptors and the thread are flags.  What the system
  answers to one \<open>Connect\<close> (files, name lookup, sockets, the thread) is the record \<open>conn_env\<close>; \<open>exec\<close>
  and \<open>listing\<close> are \<open>ifconfig\<close> and \<open>route\<close> as in theory \<open>TunDevice\<close>.  Messages for the observer
  collect in \<open>wbOutbox\<close>.
\<close>

subsection \<open>State\<close>

record wg_backend = wg_engine +
  wbState :: VPNState
  wbStats :: VPNStats
  wbConfig :: WireGuardConfig
  wbLocalIP :: string
  wbRemoteIP :: string
  wbTunInterface :: string
  wbTunNode :: string
  wbEndpointIP :: string
  wbTunSelfIP :: string
  wbRoutesInstalled :: bool
  wbReplacedDefault :: bool
  wbOrigGateway :: string
  wbOrigGatewayIface :: string
  wbUdpSocket :: bool
  wbTunFd :: bool
  wbReader :: bool
  wbStopRequested :: bool
  wbObserver :: bool
  wbOutbox :: "bmessage list"

definition WireGuardBackend :: wg_backend where
  "WireGuardBackend = wg_engine.extend wg_engine_init
     \<lparr> wbState = VPN_STATE_DISCONNECTED, wbStats = ResetStats, wbConfig = WireGuardConfig,
        wbLocalIP = [], wbRemoteIP = [], wbTunInterface = [], wbTunNode = [], wbEndpointIP = [], wbTunSelfIP = [],
        wbRoutesInstalled = False, wbReplacedDefault = False, wbOrigGateway = [], wbOrigGatewayIface = [],
        wbUdpSocket = False, wbTunFd = False, wbReader = False, wbStopRequested = False,
        wbObserver = False, wbOutbox = [] \<rparr>"

record conn_env =
  looper_attached :: bool
  read_file :: "string \<Rightarrow> string option"
  host_ipv4 :: "string \<Rightarrow> u32 option" \<comment> \<open>\<open>gethostbyname\<close>: the first address, when it is IPv4\<close>
  socket_ok :: bool
  connect_ok :: bool
  tun_open_ok :: bool
  spawn_ok :: bool

definition wg_SetState :: "VPNState \<Rightarrow> string option \<Rightarrow> wg_backend \<Rightarrow> wg_backend" where
  "wg_SetState st detail s =
     s\<lparr> wbState := st,
        wbOutbox := wbOutbox s @ NotifyStateChanged (wbObserver s) ''WireGuard'' (wbStats s) (wbLocalIP s) (wbRemoteIP s) st detail \<rparr>"

subsection \<open>Keys\<close>

text \<open>A 32-byte buffer after the decoder wrote its first bytes.\<close>

definition write_key :: "bytes \<Rightarrow> bytes \<Rightarrow> bytes" where
  "write_key old out = out @ drop (length out) old"

definition DecodeKeys :: "wg_backend \<Rightarrow> wg_backend \<times> bool" where
  "DecodeKeys s =
     (let (ok, n) = base64_decode 32 (privateKey (wbConfig s));
          s = s\<lparr> wePrivateKey := write_key (wePrivateKey s) n \<rparr> in
      if \<not> ok \<or> length n \<noteq> 32 then (s, False)
      else
      let (ok, n) = base64_decode 32 (publicKey (peer (wbConfig s)));
          s = s\<lparr> wePeerPublicKey := write_key (wePeerPublicKey s) n \<rparr> in
      if \<not> ok \<or> length n \<noteq> 32 then (s, False)
      else
      let s = s\<lparr> weHavePresharedKey := False \<rparr> in
      if presharedKey (peer (wbConfig s)) \<noteq> [] then
        (let (ok, n) = base64_decode 32 (presharedKey (peer (wbConfig s)));
             s = s\<lparr> wePresharedKey := write_key (wePresharedKey s) n \<rparr> in
         if \<not> ok \<or> length n \<noteq> 32 then (s, False)
         else (s\<lparr> weHavePresharedKey := True \<rparr>, True))
      else (s, True))"

subsection \<open>Tunnel slot and sockets\<close>

definition tun_address :: "WireGuardConfig \<Rightarrow> string" where
  "tun_address c = wg_trim (case find_first (CHR ''/'') (address c) of Some i \<Rightarrow> take i (address c) | None \<Rightarrow> address c)"

definition wg_BringUpTun :: "'w exec \<Rightarrow> wg_backend \<Rightarrow> 'w \<Rightarrow> wg_backend \<times> bool \<times> 'w" where
  "wg_BringUpTun exec s w =
     (case ProbeFreeSlot exec w of (None, w) \<Rightarrow> (s, False, w)
      | (Some (iface, node), w) \<Rightarrow>
          let ip = tun_address (wbConfig s);
              s = s\<lparr> wbTunInterface := iface, wbTunNode := node, wbTunSelfIP := ip \<rparr> in
          if ip = [] then (s, True, w)
          else let mtus = show_nat (if mtu (wbConfig s) > 0 then nat (mtu (wbConfig s)) else 1420);
                   (ok, w) = RunIfconfig exec [''ifconfig'', iface, ''inet'', ip, ip, ''mtu'', mtus, ''up''] w
               in (s, ok, w))"

definition wg_OpenUdpSocket :: "conn_env \<Rightarrow> wg_backend \<Rightarrow> wg_backend \<times> bool" where
  "wg_OpenUdpSocket env s =
     (case host_ipv4 env (endpointHost (peer (wbConfig s))) of None \<Rightarrow> (s, False)
      | Some ip \<Rightarrow>
          if \<not> socket_ok env then (s, False)
          else let s = s\<lparr> wbEndpointIP := dotted ip \<rparr> in
            if \<not> connect_ok env then (s, False) else (s\<lparr> wbUdpSocket := True \<rparr>, True))"

definition wg_OpenTunFd :: "conn_env \<Rightarrow> wg_backend \<Rightarrow> wg_backend \<times> bool" where
  "wg_OpenTunFd env s = (if tun_open_ok env then (s\<lparr> wbTunFd := True \<rparr>, True) else (s\<lparr> wbTunFd := False \<rparr>, False))"

definition wg_StartReader :: "conn_env \<Rightarrow> wg_backend \<Rightarrow> wg_backend" where
  "wg_StartReader env s = s\<lparr> wbReader := spawn_ok env \<rparr>"

subsection \<open>The resolver file\<close>

type_synonym conf_files = "string \<rightharpoonup> string"

definition kResolvConf :: string where "kResolvConf = ''/boot/system/settings/network/resolv.conf''"
definition kResolvBackup :: string where "kResolvBackup = ''/boot/system/settings/network/resolv.conf.sotoportego''"

text \<open>\<open>rename\<close>: fails when the source is missing, replaces the target otherwise.\<close>

definition rename :: "string \<Rightarrow> string \<Rightarrow> conf_files \<Rightarrow> conf_files" where
  "rename a b fs = (case fs a of None \<Rightarrow> fs | Some c \<Rightarrow> fs(b \<mapsto> c, a := None))"

text \<open>The first IPv4 server of the comma-separated list.\<close>

definition nameserver :: "string \<Rightarrow> string" where
  "nameserver d =
     (case find (\<lambda>t. t \<noteq> [] \<and> CHR '':'' \<notin> set t) (map wg_trim (split_on (CHR '','') d)) of Some t \<Rightarrow> t | None \<Rightarrow> [])"

definition dns_content :: "string \<Rightarrow> string" where
  "dns_content ns = ''# Set by Sotoportego for the WireGuard tunnel'' @ [CHR 0x0A] @ ''nameserver '' @ ns @ [CHR 0x0A]"

text \<open>
  What the system answers: whether the two renames and the opening of the file work, and how many
  characters \<open>Write\<close> stores.  The code looks at the result of the opening only.
\<close>

record resolv_io =
  rs_rename_ok :: bool
  rs_open_ok :: bool
  rs_written :: nat
  rs_restore_ok :: bool

text \<open>The system calls of \<open>_ApplyDns\<close> that change files, in order; a crash may fall between them.\<close>

datatype file_op = SaveOriginal | EraseConf | WriteConf string

definition apply_dns_ops :: "resolv_io \<Rightarrow> string \<Rightarrow> conf_files \<Rightarrow> file_op list" where
  "apply_dns_ops io d fs =
     (let ns = nameserver d in
      if ns = [] then []
      else (if fs kResolvBackup = None \<and> rs_rename_ok io then [SaveOriginal] else [])
        @ (if rs_open_ok io then [EraseConf, WriteConf (take (rs_written io) (dns_content ns))] else []))"

fun run_file_op :: "file_op \<Rightarrow> conf_files \<Rightarrow> conf_files" where
  "run_file_op SaveOriginal fs = rename kResolvConf kResolvBackup fs"
| "run_file_op EraseConf fs = fs(kResolvConf \<mapsto> [])"
| "run_file_op (WriteConf s) fs = fs(kResolvConf \<mapsto> s)"

definition ApplyDns :: "resolv_io \<Rightarrow> string \<Rightarrow> conf_files \<Rightarrow> conf_files" where
  "ApplyDns io d fs = fold run_file_op (apply_dns_ops io d fs) fs"

definition RestoreDns :: "resolv_io \<Rightarrow> conf_files \<Rightarrow> conf_files" where
  "RestoreDns io fs = (if fs kResolvBackup \<noteq> None \<and> rs_restore_ok io then rename kResolvBackup kResolvConf fs else fs)"

subsection \<open>Routes\<close>

definition allowed_cmd :: "string \<Rightarrow> wg_backend \<Rightarrow> allowed_route \<Rightarrow> string list" where
  "allowed_cmd verb s r = route_cmd verb (wbTunInterface s) (ar_net r) (wbTunSelfIP s) (ar_mask r)"

definition cidrs :: "wg_backend \<Rightarrow> allowed_route list" where
  "cidrs s = fst (ParseAllowedIPs (allowedIPs (peer (wbConfig s))))"

definition any_default :: "wg_backend \<Rightarrow> bool" where
  "any_default s \<longleftrightarrow> list_ex isDefault (cidrs s)"

text \<open>The commands of \<open>_InstallRoutes\<close> once the carrier's gateway is known or not needed.\<close>

definition install_cmds :: "wg_backend \<Rightarrow> string list list" where
  "install_cmds s =
     (if wbEndpointIP s \<noteq> [] \<and> wbOrigGateway s \<noteq> []
      then [pin_cmd ''add'' (wbOrigGatewayIface s) (wbOrigGateway s) (wbEndpointIP s)] else [])
     @ (if any_default s \<and> wbOrigGateway s \<noteq> []
        then [default_cmd ''delete'' (wbOrigGatewayIface s) (wbOrigGateway s)] else [])
     @ map (allowed_cmd ''add'' s) (cidrs s)"

definition wg_InstallRoutes ::
  "'w exec \<Rightarrow> ('w \<Rightarrow> string option) \<Rightarrow> resolv_io \<Rightarrow> wg_backend \<Rightarrow> 'w \<Rightarrow> conf_files \<Rightarrow> wg_backend \<times> 'w \<times> conf_files" where
  "wg_InstallRoutes exec listing io s w fs =
     (if wbRoutesInstalled s then (s, w, fs)
      else if cidrs s = [] then (s, w, fs)
      else
      let s = s\<lparr> wbOrigGateway := [], wbOrigGatewayIface := [], wbReplacedDefault := False \<rparr>;
          gw = DefaultGateway listing w;
          s = (case gw of Some (g, i) \<Rightarrow> s\<lparr> wbOrigGateway := g, wbOrigGatewayIface := i \<rparr> | None \<Rightarrow> s) in
      if gw = None \<and> any_default s then (s, w, fs)
      else
      let w = run_routes exec (install_cmds s) w;
          s = s\<lparr> wbReplacedDefault := (any_default s \<and> wbOrigGateway s \<noteq> []) \<rparr>;
          fs = (if wbReplacedDefault s then ApplyDns io (dns (wbConfig s)) fs else fs)
      in (s\<lparr> wbRoutesInstalled := True \<rparr>, w, fs))"

definition remove_cmds :: "wg_backend \<Rightarrow> string list list" where
  "remove_cmds s =
     map (allowed_cmd ''delete'' s) (cidrs s)
     @ (if wbReplacedDefault s \<and> wbOrigGateway s \<noteq> []
        then [default_cmd ''add'' (wbOrigGatewayIface s) (wbOrigGateway s)] else [])
     @ (if wbEndpointIP s \<noteq> [] \<and> wbOrigGateway s \<noteq> []
        then [pin_cmd ''delete'' (wbOrigGatewayIface s) (wbOrigGateway s) (wbEndpointIP s)] else [])"

definition wg_RemoveRoutes :: "'w exec \<Rightarrow> resolv_io \<Rightarrow> wg_backend \<Rightarrow> 'w \<Rightarrow> conf_files \<Rightarrow> wg_backend \<times> 'w \<times> conf_files" where
  "wg_RemoveRoutes exec io s w fs =
     (if \<not> wbRoutesInstalled s then (s, w, fs)
      else (s\<lparr> wbRoutesInstalled := False, wbReplacedDefault := False \<rparr>, run_routes exec (remove_cmds s) w, RestoreDns io fs))"

subsection \<open>Life cycle\<close>

text \<open>Joining the reader waits until it has returned; the flag \<open>wbStopRequested\<close> makes it return.\<close>

definition wg_Cleanup :: "'w exec \<Rightarrow> resolv_io \<Rightarrow> wg_backend \<Rightarrow> 'w \<Rightarrow> conf_files \<Rightarrow> wg_backend \<times> 'w \<times> conf_files" where
  "wg_Cleanup exec io s w fs =
     (let s = s\<lparr> wbStopRequested := True, wbReader := False \<rparr>;
          (s, w, fs) = wg_RemoveRoutes exec io s w fs;
          s = s\<lparr> wbTunFd := False, wbUdpSocket := False \<rparr>
      in if wbTunInterface s \<noteq> [] then
           (let (_, w) = RunIfconfig exec [''ifconfig'', ''--delete'', wbTunInterface s] w
            in (s\<lparr> wbTunInterface := [], wbTunNode := [] \<rparr>, w, fs))
         else (s, w, fs))"

definition wg_Fail :: "'w exec \<Rightarrow> resolv_io \<Rightarrow> string \<Rightarrow> wg_backend \<Rightarrow> 'w \<Rightarrow> conf_files \<Rightarrow> status \<times> wg_backend \<times> 'w \<times> conf_files" where
  "wg_Fail exec io detail s w fs =
     (let (s, w, fs) = wg_Cleanup exec io s w fs in (B_ERROR, wg_SetState VPN_STATE_ERROR (Some detail) s, w, fs))"

definition wg_Connect ::
  "'w exec \<Rightarrow> resolv_io \<Rightarrow> conn_env \<Rightarrow> VPNProfile \<Rightarrow> wg_backend \<Rightarrow> 'w \<Rightarrow> conf_files \<Rightarrow> status \<times> wg_backend \<times> 'w \<times> conf_files" where
  "wg_Connect exec io env profile s w fs =
     (if wbState s \<noteq> VPN_STATE_DISCONNECTED \<and> wbState s \<noteq> VPN_STATE_ERROR then (B_NOT_ALLOWED, s, w, fs)
      else if \<not> looper_attached env then (B_NO_INIT, s, w, fs)
      else if fConfigPath profile = []
        then (B_BAD_VALUE, wg_SetState VPN_STATE_ERROR (Some ''profile has no WireGuard config path'') s, w, fs)
      else case ParseFile (read_file env) (fConfigPath profile) WireGuardConfig of
        None \<Rightarrow> (B_ERROR, wg_SetState VPN_STATE_ERROR (Some ''cannot read WireGuard config'') (s\<lparr> wbConfig := WireGuardConfig \<rparr>), w, fs)
      | Some c \<Rightarrow>
      let s = s\<lparr> wbConfig := c \<rparr> in
      if \<not> IsComplete c
        then (B_BAD_VALUE, wg_SetState VPN_STATE_ERROR (Some ''WireGuard config is missing a key or endpoint'') s, w, fs)
      else
      let s = s\<lparr> wbRemoteIP := endpointHost (peer c), wbLocalIP := address c, wbStopRequested := False, wbStats := ResetStats \<rparr>;
          (s, ok) = DecodeKeys s in
      if \<not> ok then (B_BAD_VALUE, wg_SetState VPN_STATE_ERROR (Some ''WireGuard config has an invalid key'') s, w, fs)
      else
      let s = wg_SetState VPN_STATE_CONNECTING None s;
          (s, ok, w) = wg_BringUpTun exec s w in
      if \<not> ok then wg_Fail exec io ''could not bring up a tun slot'' s w fs
      else
      let (s, ok) = wg_OpenUdpSocket env s in
      if \<not> ok then wg_Fail exec io ''could not reach the WireGuard endpoint'' s w fs
      else
      let (s, ok) = wg_OpenTunFd env s in
      if \<not> ok then wg_Fail exec io ''could not open the tun device'' s w fs
      else
      let s = wg_StartReader env s in
      if \<not> wbReader s then wg_Fail exec io ''could not start the WireGuard worker'' s w fs
      else (B_OK, s, w, fs))"

definition wg_Disconnect :: "'w exec \<Rightarrow> resolv_io \<Rightarrow> wg_backend \<Rightarrow> 'w \<Rightarrow> conf_files \<Rightarrow> status \<times> wg_backend \<times> 'w \<times> conf_files" where
  "wg_Disconnect exec io s w fs =
     (if wbState s = VPN_STATE_DISCONNECTED then (B_OK, s, w, fs)
      else let s = s\<lparr> wbStopRequested := True \<rparr> in
        if \<not> wbReader s then
          (let (s, w, fs) = wg_Cleanup exec io s w fs in (B_OK, wg_SetState VPN_STATE_DISCONNECTED None s, w, fs))
        else (B_OK, s, w, fs))"

datatype wg_msg = WgConnected | WgStats u64 u64 | WgReaderExited string

fun wg_MessageReceived ::
  "'w exec \<Rightarrow> ('w \<Rightarrow> string option) \<Rightarrow> resolv_io \<Rightarrow> wg_msg \<Rightarrow> wg_backend \<Rightarrow> 'w \<Rightarrow> conf_files \<Rightarrow> wg_backend \<times> 'w \<times> conf_files" where
  "wg_MessageReceived exec listing io WgConnected s w fs =
     (let (s, w, fs) = wg_InstallRoutes exec listing io s w fs in (wg_SetState VPN_STATE_CONNECTED None s, w, fs))"
| "wg_MessageReceived exec listing io (WgStats i out) s w fs =
     (let s = s\<lparr> wbStats := (wbStats s)\<lparr> fBytesIn := i, fBytesOut := out \<rparr> \<rparr>
      in (s\<lparr> wbOutbox := wbOutbox s @ NotifyStats (wbObserver s) (wbStats s) \<rparr>, w, fs))"
| "wg_MessageReceived exec listing io (WgReaderExited detail) s w fs =
     (let (s, w, fs) = wg_Cleanup exec io s w fs
      in (if detail \<noteq> [] then wg_SetState VPN_STATE_ERROR (Some detail) s else wg_SetState VPN_STATE_DISCONNECTED None s, w, fs))"

definition wg_RecoverIfCrashed :: "resolv_io \<Rightarrow> conf_files \<Rightarrow> conf_files" where
  "wg_RecoverIfCrashed io fs = RestoreDns io fs"

subsection \<open>The reader thread\<close>

text \<open>
  The local variables of the transport loop.  Times are microseconds of \<open>system_time\<close>.
\<close>

record wg_loop =
  lv_lastSend :: int
  lv_lastStats :: int
  lv_handshakeTime :: int
  lv_bytesIn :: u64
  lv_bytesOut :: u64

definition wg_loop_init :: "int \<Rightarrow> wg_loop" where
  "wg_loop_init now = \<lparr> lv_lastSend = now, lv_lastStats = now, lv_handshakeTime = now, lv_bytesIn = 0, lv_bytesOut = 0 \<rparr>"

definition kHandshakeAttempts :: nat where "kHandshakeAttempts = 3"

text \<open>
  What one iteration meets: the outcome of \<open>select\<close> (an interruption, an error, or the two
  descriptors with what \<open>read\<close> and \<open>recv\<close> return, \<open>None\<close> when not readable or empty), whether the
  sends succeed, the clock after the send, in the middle and after a rekey, and what a rekey draws.
\<close>

datatype selected = SelectInterrupted | SelectFailed | Selected "bytes option" "bytes option"

record hs_input =
  hi_keygen :: "(bytes \<times> bytes) option"
  hi_time :: u64
  hi_random :: "u32 option"
  hi_send_ok :: bool
  hi_net :: "bytes option list"

record loop_input =
  li_select :: selected
  li_send_ok :: bool
  li_sent_at :: int
  li_now :: int
  li_rekeyed_at :: int
  li_hs :: hs_input

definition handshake_of :: "openssl \<Rightarrow> hs_input \<Rightarrow> 'a wg_engine_scheme \<Rightarrow> 'a wg_engine_scheme \<times> bool" where
  "handshake_of os h s =
     (let (s, ok, _) = PerformHandshake os s (hi_keygen h) (hi_time h) (hi_random h) (hi_send_ok h) (hi_net h) in (s, ok))"

text \<open>What an iteration does: datagrams sent, packets written to the tunnel, messages posted.\<close>

record loop_effects =
  fx_udp :: "bytes list"
  fx_tun :: "bytes list"
  fx_msgs :: "wg_msg list"

definition loop_outbound :: "openssl \<Rightarrow> loop_input \<Rightarrow> bytes option \<Rightarrow> wg_backend \<times> wg_loop \<times> loop_effects \<Rightarrow> wg_backend \<times> wg_loop \<times> loop_effects" where
  "loop_outbound os inp tun = (\<lambda>(s, v, fx).
     case tun of None \<Rightarrow> (s, v, fx)
     | Some plain \<Rightarrow>
         let plain = take 1500 plain in
         if plain = [] then (s, v, fx)
         else let (s, wire) = wg_Encapsulate os s plain in
           if wire = [] then (s, v, fx)
           else if \<not> li_send_ok inp then (s, v, fx)
           else (s, v\<lparr> lv_bytesOut := lv_bytesOut v + of_nat (length plain), lv_lastSend := li_sent_at inp \<rparr>,
                 fx\<lparr> fx_udp := fx_udp fx @ [wire] \<rparr>))"

definition loop_inbound :: "openssl \<Rightarrow> bytes option \<Rightarrow> wg_backend \<times> wg_loop \<times> loop_effects \<Rightarrow> wg_backend \<times> wg_loop \<times> loop_effects" where
  "loop_inbound os udp = (\<lambda>(s, v, fx).
     case udp of None \<Rightarrow> (s, v, fx)
     | Some wire \<Rightarrow>
         let wire = take 2048 wire in
         if wire = [] then (s, v, fx)
         else case wg_Decapsulate os s wire of
           (s, None) \<Rightarrow> (s, v, fx)
         | (s, Some plain) \<Rightarrow>
             if plain = [] then (s, v, fx)
             else (s, v\<lparr> lv_bytesIn := lv_bytesIn v + of_nat (length plain) \<rparr>, fx\<lparr> fx_tun := fx_tun fx @ [plain] \<rparr>))"

definition keepalive_interval :: "wg_backend \<Rightarrow> int" where
  "keepalive_interval s =
     (let k = persistentKeepalive (peer (wbConfig s)) in if k > 0 then k * 1000000 else 0)"

definition loop_timers :: "openssl \<Rightarrow> loop_input \<Rightarrow> wg_backend \<times> wg_loop \<times> loop_effects \<Rightarrow> wg_backend \<times> wg_loop \<times> loop_effects" where
  "loop_timers os inp = (\<lambda>(s, v, fx).
     let now = li_now inp;
         (s, v, fx) =
           (if keepalive_interval s > 0 \<and> now - lv_lastSend v \<ge> keepalive_interval s then
              (let (s, wire) = wg_Encapsulate os s []
               in (s, v\<lparr> lv_lastSend := now \<rparr>, if wire \<noteq> [] then fx\<lparr> fx_udp := fx_udp fx @ [wire] \<rparr> else fx))
            else (s, v, fx))
     in if now - lv_lastStats v \<ge> 1000000
        then (s, v\<lparr> lv_lastStats := now \<rparr>, fx\<lparr> fx_msgs := fx_msgs fx @ [WgStats (lv_bytesIn v) (lv_bytesOut v)] \<rparr>)
        else (s, v, fx))"

text \<open>The rekey at the end of an iteration; the last component says whether the loop goes on.\<close>

definition loop_rekey :: "openssl \<Rightarrow> loop_input \<Rightarrow> wg_backend \<times> wg_loop \<times> loop_effects \<Rightarrow> wg_backend \<times> wg_loop \<times> loop_effects \<times> bool" where
  "loop_rekey os inp = (\<lambda>(s, v, fx).
     if li_now inp - lv_handshakeTime v \<ge> kRekeyAfterTime \<and> \<not> wbStopRequested s then
       (case handshake_of os (li_hs inp) s of
          (s, True) \<Rightarrow> (fresh_session s, v\<lparr> lv_handshakeTime := li_rekeyed_at inp, lv_lastSend := li_rekeyed_at inp \<rparr>, fx, True)
        | (s, False) \<Rightarrow> (s, v, fx, \<not> (li_now inp - lv_handshakeTime v \<ge> kRejectAfterTime)))
     else (s, v, fx, True))"

definition reader_iteration :: "openssl \<Rightarrow> loop_input \<Rightarrow> wg_backend \<Rightarrow> wg_loop \<Rightarrow> wg_backend \<times> wg_loop \<times> loop_effects \<times> bool" where
  "reader_iteration os inp s v =
     (let fx = \<lparr> fx_udp = [], fx_tun = [], fx_msgs = [] \<rparr> in
      case li_select inp of
        SelectInterrupted \<Rightarrow> (s, v, fx, True)
      | SelectFailed \<Rightarrow> (s, v, fx, False)
      | Selected tun udp \<Rightarrow>
          loop_rekey os inp (loop_timers os inp (loop_inbound os udp (loop_outbound os inp tun (s, v, fx)))))"

subsection \<open>The backend as a concurrent system\<close>

text \<open>
  Looper and reader thread share the backend; the reader's messages wait in the looper's queue.
  \<open>Handshaking i\<close> is the reader before attempt \<open>i\<close>, \<open>Exited\<close> one that posted its exit message.
\<close>

datatype wg_phase = Handshaking nat | Forwarding wg_loop | ReaderDone

record 'w wg_sys =
  sys_s :: wg_backend
  sys_w :: 'w
  sys_fs :: conf_files
  sys_rd :: "wg_phase option"
  sys_q :: "wg_msg list"

inductive wg_step :: "openssl \<Rightarrow> 'w exec \<Rightarrow> ('w \<Rightarrow> string option) \<Rightarrow> resolv_io set \<Rightarrow> 'w wg_sys \<Rightarrow> 'w wg_sys \<Rightarrow> bool"
  for os exec listing ios where
  step_Connect: "wg_Connect exec io env p (sys_s z) (sys_w z) (sys_fs z) = (r, s, w, fs) \<Longrightarrow> io \<in> ios \<Longrightarrow>
     wg_step os exec listing ios z
       (z\<lparr> sys_s := s, sys_w := w, sys_fs := fs, sys_rd := (if r = B_OK then Some (Handshaking 0) else sys_rd z) \<rparr>)"
| step_Disconnect: "wg_Disconnect exec io (sys_s z) (sys_w z) (sys_fs z) = (r, s, w, fs) \<Longrightarrow> io \<in> ios \<Longrightarrow>
     wg_step os exec listing ios z (z\<lparr> sys_s := s, sys_w := w, sys_fs := fs \<rparr>)"
| step_Dispatch: "sys_q z = m # q \<Longrightarrow>
     wg_MessageReceived exec listing io m (sys_s z) (sys_w z) (sys_fs z) = (s, w, fs) \<Longrightarrow> io \<in> ios \<Longrightarrow>
     wg_step os exec listing ios z
       (z\<lparr> sys_s := s, sys_w := w, sys_fs := fs, sys_q := q,
          sys_rd := (case m of WgReaderExited _ \<Rightarrow> None | _ \<Rightarrow> sys_rd z) \<rparr>)"
| step_HsFail: "sys_rd z = Some (Handshaking i) \<Longrightarrow> i < kHandshakeAttempts \<Longrightarrow> \<not> wbStopRequested (sys_s z) \<Longrightarrow>
     handshake_of os h (sys_s z) = (s, False) \<Longrightarrow>
     wg_step os exec listing ios z (z\<lparr> sys_s := s, sys_rd := Some (Handshaking (Suc i)) \<rparr>)"
| step_HsOk: "sys_rd z = Some (Handshaking i) \<Longrightarrow> i < kHandshakeAttempts \<Longrightarrow> \<not> wbStopRequested (sys_s z) \<Longrightarrow>
     handshake_of os h (sys_s z) = (s, True) \<Longrightarrow>
     wg_step os exec listing ios z
       (z\<lparr> sys_s := fresh_session s, sys_rd := Some (Forwarding (wg_loop_init now)), sys_q := sys_q z @ [WgConnected] \<rparr>)"
| step_GiveUp: "sys_rd z = Some (Handshaking i) \<Longrightarrow> i \<ge> kHandshakeAttempts \<or> wbStopRequested (sys_s z) \<Longrightarrow>
     wg_step os exec listing ios z
       (z\<lparr> sys_rd := Some ReaderDone,
          sys_q := sys_q z @ [WgReaderExited (if wbStopRequested (sys_s z) then [] else ''handshake failed'')] \<rparr>)"
| step_Iterate: "sys_rd z = Some (Forwarding v) \<Longrightarrow> \<not> wbStopRequested (sys_s z) \<Longrightarrow>
     reader_iteration os inp (sys_s z) v = (s, v', fx, True) \<Longrightarrow>
     wg_step os exec listing ios z (z\<lparr> sys_s := s, sys_rd := Some (Forwarding v'), sys_q := sys_q z @ fx_msgs fx \<rparr>)"
| step_LoopEnds: "sys_rd z = Some (Forwarding v) \<Longrightarrow> \<not> wbStopRequested (sys_s z) \<Longrightarrow>
     reader_iteration os inp (sys_s z) v = (s, v', fx, False) \<Longrightarrow>
     wg_step os exec listing ios z
       (z\<lparr> sys_s := s, sys_rd := Some ReaderDone, sys_q := sys_q z @ fx_msgs fx @ [WgReaderExited []] \<rparr>)"
| step_Stopped: "sys_rd z = Some (Forwarding v) \<Longrightarrow> wbStopRequested (sys_s z) \<Longrightarrow>
     wg_step os exec listing ios z (z\<lparr> sys_rd := Some ReaderDone, sys_q := sys_q z @ [WgReaderExited []] \<rparr>)"

inductive wg_reach :: "openssl \<Rightarrow> 'w exec \<Rightarrow> ('w \<Rightarrow> string option) \<Rightarrow> resolv_io set \<Rightarrow> 'w wg_sys \<Rightarrow> 'w wg_sys \<Rightarrow> bool"
  for os exec listing ios z0 where
  reach_init: "wg_reach os exec listing ios z0 z0"
| reach_step: "wg_reach os exec listing ios z0 z \<Longrightarrow> wg_step os exec listing ios z z' \<Longrightarrow> wg_reach os exec listing ios z0 z'"

definition wg_start :: "bool \<Rightarrow> 'w \<Rightarrow> conf_files \<Rightarrow> 'w wg_sys" where
  "wg_start observer w fs = \<lparr> sys_s = WireGuardBackend\<lparr> wbObserver := observer \<rparr>, sys_w = w, sys_fs = fs, sys_rd = None, sys_q = [] \<rparr>"

end
