(* ===== verification/WGLifecycle.thy ===== *)
theory WGLifecycle
  imports WGBackend
begin

text \<open>
  What holds in every reachable state of \<open>WireGuardBackend\<close>, whatever the interleaving of looper and
  reader thread: the published state and the resources in use agree (\<open>wg_lifecycle\<close>), the routing
  table is as it was whenever no session routes are installed (\<open>wg_routes_restored\<close>), keys are not
  used beyond their lifetime, and the resolver file survives a crash at any point.
\<close>

subsection \<open>The reader touches the engine only\<close>

definition same_shell :: "wg_backend \<Rightarrow> wg_backend \<Rightarrow> bool" where
  "same_shell s s' \<longleftrightarrow> wg_engine.more s = wg_engine.more s'"

lemma same_shell_refl [simp]: "same_shell s s"
  by (simp add: same_shell_def)

lemma same_shell_trans: "same_shell s t \<Longrightarrow> same_shell t u \<Longrightarrow> same_shell s u"
  by (simp add: same_shell_def)

lemma same_shell_fields:
  assumes "same_shell s s'"
  shows "wbState s' = wbState s" "wbConfig s' = wbConfig s" "wbTunInterface s' = wbTunInterface s"
    "wbTunNode s' = wbTunNode s" "wbEndpointIP s' = wbEndpointIP s" "wbTunSelfIP s' = wbTunSelfIP s"
    "wbRoutesInstalled s' = wbRoutesInstalled s" "wbReplacedDefault s' = wbReplacedDefault s"
    "wbOrigGateway s' = wbOrigGateway s" "wbOrigGatewayIface s' = wbOrigGatewayIface s"
    "wbUdpSocket s' = wbUdpSocket s" "wbTunFd s' = wbTunFd s" "wbReader s' = wbReader s"
    "wbStopRequested s' = wbStopRequested s" "wbOutbox s' = wbOutbox s"
  using assms by (cases s; cases s'; simp add: same_shell_def)+

lemma engine_shell:
  "same_shell s (fst (wg_Encapsulate os s p))"
  "same_shell s (fst (wg_Decapsulate os s p))"
  "same_shell s (fresh_session s)"
  by (auto simp: same_shell_def wg_Encapsulate_def wg_Decapsulate_def fresh_session_def ResetReplay_def ReplayValidate_def
      Let_def split: option.split)

lemma initiation_shell: "same_shell s (fst (wg_initiation os s kg t r))"
  by (auto simp: same_shell_def wg_initiation_def Let_def split_beta split: option.split)

lemma response_shell: "same_shell s (fst (wg_response os s m))"
  by (auto simp: same_shell_def wg_response_def Let_def split_beta split: option.split)

lemma handshake_shell: "same_shell s (fst (handshake_of os h s))"
proof -
  let ?i = "wg_initiation os s (hi_keygen h) (hi_time h) (hi_random h)"
  have i: "same_shell s (fst ?i)" by (rule initiation_shell)
  have "same_shell s (fst (wg_response os (fst ?i) m))" for m using same_shell_trans [OF i response_shell] .
  then show ?thesis using i
    by (cases ?i; cases "snd ?i") (auto simp: handshake_of_def PerformHandshake_def split_beta Let_def split: option.split)
qed

lemma loop_parts_shell:
  "same_shell (fst x) (fst (loop_outbound os inp tun x))"
  "same_shell (fst x) (fst (loop_inbound os udp x))"
  "same_shell (fst x) (fst (loop_timers os inp x))"
  "same_shell (fst x) (fst (loop_rekey os inp x))"
proof -
  obtain s v fx where x: "x = (s, v, fx)" by (cases x)
  show "same_shell (fst x) (fst (loop_outbound os inp tun x))"
    using engine_shell(1) [of s os] by (auto simp: x loop_outbound_def Let_def split_beta split: option.split)
  show "same_shell (fst x) (fst (loop_inbound os udp x))"
    using engine_shell(2) [of s os] by (auto simp: x loop_inbound_def Let_def split_beta split: option.split)
  show "same_shell (fst x) (fst (loop_timers os inp x))"
    using engine_shell(1) [of s os "[]"] by (auto simp: x loop_timers_def Let_def split_beta)
  show "same_shell (fst x) (fst (loop_rekey os inp x))"
    using handshake_shell [of s os "li_hs inp"] same_shell_trans [OF handshake_shell engine_shell(3)]
    by (auto simp: x loop_rekey_def split_beta split: bool.split)
qed

lemma iteration_shell: "same_shell s (fst (reader_iteration os inp s v))"
proof -
  have "same_shell (fst x) (fst (loop_rekey os inp (loop_timers os inp (loop_inbound os udp (loop_outbound os inp tun x)))))"
    for x tun udp
    by (rule same_shell_trans [OF same_shell_trans [OF same_shell_trans [OF loop_parts_shell(1) loop_parts_shell(2)]
          loop_parts_shell(3)] loop_parts_shell(4)])
  from this [of "(s, v, fx)" for fx] show ?thesis by (auto simp: reader_iteration_def Let_def split: selected.split)
qed

subsection \<open>Resources and published state\<close>

fun exit_msg :: "wg_msg \<Rightarrow> bool" where
  "exit_msg (WgReaderExited d) = True"
| "exit_msg _ = False"

lemma exit_msg_def: "exit_msg m \<longleftrightarrow> (\<exists>d. m = WgReaderExited d)"
  by (cases m) simp_all

text \<open>The exit message is posted once, as the reader's last act.\<close>

definition queue_inv :: "wg_phase option \<Rightarrow> wg_msg list \<Rightarrow> bool" where
  "queue_inv rd q \<longleftrightarrow>
     (case rd of None \<Rightarrow> q = []
      | Some ReaderDone \<Rightarrow> (\<exists>q' d. q = q' @ [WgReaderExited d] \<and> (\<forall>m \<in> set q'. \<not> exit_msg m))
      | Some _ \<Rightarrow> \<forall>m \<in> set q. \<not> exit_msg m)"

lemma queue_inv_simps:
  "queue_inv None q \<longleftrightarrow> q = []"
  "queue_inv (Some ReaderDone) q \<longleftrightarrow> (\<exists>q' d. q = q' @ [WgReaderExited d] \<and> (\<forall>m \<in> set q'. \<not> exit_msg m))"
  "ph \<noteq> ReaderDone \<Longrightarrow> queue_inv (Some ph) q \<longleftrightarrow> (\<forall>m \<in> set q. \<not> exit_msg m)"
  by (auto simp: queue_inv_def split: wg_phase.splits)

lemma queue_exits:
  assumes "queue_inv rd q"
  shows "length (filter exit_msg q) = (if rd = Some ReaderDone then 1 else 0)"
proof (cases "rd = Some ReaderDone")
  case True
  then obtain q' d where "q = q' @ [WgReaderExited d]" "\<forall>m \<in> set q'. \<not> exit_msg m"
    using assms by (auto simp: queue_inv_simps)
  then show ?thesis using True by (simp add: filter_False)
next
  case False
  then have "\<forall>m \<in> set q. \<not> exit_msg m"
    using assms queue_inv_simps(3) by (cases rd) (auto simp: queue_inv_simps)
  then show ?thesis using False by (simp add: filter_False)
qed

definition no_resources :: "wg_backend \<Rightarrow> bool" where
  "no_resources s \<longleftrightarrow> \<not> wbReader s \<and> \<not> wbUdpSocket s \<and> \<not> wbTunFd s \<and> \<not> wbRoutesInstalled s
     \<and> wbTunInterface s = [] \<and> wbTunNode s = []"

definition in_session :: "wg_backend \<Rightarrow> bool" where
  "in_session s \<longleftrightarrow> wbReader s \<and> wbUdpSocket s \<and> wbTunFd s \<and> wbTunInterface s \<noteq> []
     \<and> wbState s \<in> {VPN_STATE_CONNECTING, VPN_STATE_CONNECTED}
     \<and> (wbRoutesInstalled s \<longrightarrow> wbState s = VPN_STATE_CONNECTED)"

definition wg_inv :: "'w wg_sys \<Rightarrow> bool" where
  "wg_inv z \<longleftrightarrow> queue_inv (sys_rd z) (sys_q z)
     \<and> (if idle_state (wbState (sys_s z)) then no_resources (sys_s z) \<and> sys_rd z = None
        else in_session (sys_s z) \<and> sys_rd z \<noteq> None)"

lemma SetState_fields [simp]:
  "wbState (wg_SetState st d s) = st" "wbReader (wg_SetState st d s) = wbReader s" "wbUdpSocket (wg_SetState st d s) = wbUdpSocket s"
  "wbTunFd (wg_SetState st d s) = wbTunFd s" "wbRoutesInstalled (wg_SetState st d s) = wbRoutesInstalled s"
  "wbTunInterface (wg_SetState st d s) = wbTunInterface s" "wbTunNode (wg_SetState st d s) = wbTunNode s"
  "wbConfig (wg_SetState st d s) = wbConfig s" "wbEndpointIP (wg_SetState st d s) = wbEndpointIP s"
  "wbTunSelfIP (wg_SetState st d s) = wbTunSelfIP s" "wbReplacedDefault (wg_SetState st d s) = wbReplacedDefault s"
  "wbOrigGateway (wg_SetState st d s) = wbOrigGateway s" "wbOrigGatewayIface (wg_SetState st d s) = wbOrigGatewayIface s"
  "wbStopRequested (wg_SetState st d s) = wbStopRequested s"
  by (simp_all add: wg_SetState_def)

lemma no_resources_SetState [simp]: "no_resources (wg_SetState st d s) = no_resources s"
  by (simp add: no_resources_def)

lemma Cleanup_no_resources:
  assumes "wg_Cleanup exec io s w fs = (s', w', fs')" "wbTunInterface s = [] \<Longrightarrow> wbTunNode s = []"
  shows "no_resources s' \<and> wbState s' = wbState s \<and> wbStopRequested s'"
  using assms
  by (auto simp: wg_Cleanup_def wg_RemoveRoutes_def Let_def split_beta no_resources_def split: if_splits)

lemma DecodeKeys_shell: "DecodeKeys s = (s', ok) \<Longrightarrow> same_shell s s'"
  by (auto simp: DecodeKeys_def same_shell_def Let_def split_beta split: if_splits)

lemma probe_loop_names:
  "probe_loop exec slots w = (Some (iface, node), w') \<Longrightarrow> iface \<noteq> [] \<and> node \<noteq> []"
  by (induction slots arbitrary: w) (auto simp: split_beta Let_def split: if_splits)

lemma Fail_result:
  assumes "wg_Fail exec io d s w fs = (r, s', w', fs')" "wbTunInterface s = [] \<Longrightarrow> wbTunNode s = []"
  shows "r = B_ERROR \<and> no_resources s' \<and> wbState s' = VPN_STATE_ERROR"
proof -
  obtain s1 w1 fs1 where c: "wg_Cleanup exec io s w fs = (s1, w1, fs1)" by (metis prod.exhaust)
  then show ?thesis
    using assms(1) Cleanup_no_resources [OF c assms(2)] by (auto simp: wg_Fail_def)
qed

lemma BringUpTun_fields:
  assumes "wg_BringUpTun exec s w = (s', ok, w')" "no_resources s"
  shows "same_shell (s\<lparr> wbTunInterface := wbTunInterface s', wbTunNode := wbTunNode s', wbTunSelfIP := wbTunSelfIP s' \<rparr>) s'
     \<and> (wbTunInterface s' = [] \<longrightarrow> wbTunNode s' = []) \<and> (ok \<longrightarrow> wbTunInterface s' \<noteq> [])"
proof -
  obtain r w1 where p: "ProbeFreeSlot exec w = (r, w1)" by fastforce
  show ?thesis
  proof (cases r)
    case None
    then show ?thesis using assms p by (cases s') (auto simp: wg_BringUpTun_def same_shell_def no_resources_def)
  next
    case (Some x)
    obtain iface node where x: "x = (iface, node)" by fastforce
    have n: "iface \<noteq> [] \<and> node \<noteq> []"
      using p unfolding Some x ProbeFreeSlot_def by (rule probe_loop_names)
    have "s' = s\<lparr> wbTunInterface := iface, wbTunNode := node, wbTunSelfIP := tun_address (wbConfig s) \<rparr>"
      using assms(1) p by (auto simp: Some x wg_BringUpTun_def Let_def split_beta split: if_splits)
    then show ?thesis using n by (simp add: same_shell_def)
  qed
qed

text \<open>
  What the observer was told last.  Every change of state is announced, so it agrees with the
  backend's own state.
\<close>

definition latest_state :: "bmessage list \<Rightarrow> VPNState" where
  "latest_state = foldl (\<lambda>st m. if what m = kMsgStatusUpdate then announced m else st) VPN_STATE_DISCONNECTED"

definition told :: "wg_backend \<Rightarrow> bool" where
  "told s \<longleftrightarrow> (wbObserver s \<longrightarrow> latest_state (wbOutbox s) = wbState s)"

lemma told_SetState [simp]: "(\<And>n. st \<noteq> VPN_STATE_OTHER n) \<Longrightarrow> told (wg_SetState st d s)"
proof -
  assume st: "\<And>n. st \<noteq> VPN_STATE_OTHER n"
  show ?thesis
  proof (cases "wbObserver s")
    case True
    let ?ms = "NotifyStateChanged True ''WireGuard'' (wbStats s) (wbLocalIP s) (wbRemoteIP s) st d"
    obtain m where m: "?ms = [m]" by (simp add: NotifyStateChanged_def Let_def)
    then have "announced m = st" "what m = kMsgStatusUpdate"
      using announced_NotifyStateChanged [of m True "''WireGuard''" "wbStats s" "wbLocalIP s" "wbRemoteIP s" st d] st by auto
    then show ?thesis using True m by (simp add: told_def wg_SetState_def latest_state_def)
  qed (simp add: told_def wg_SetState_def)
qed

definition quiet :: "wg_backend \<Rightarrow> wg_backend \<Rightarrow> bool" where
  "quiet s s' \<longleftrightarrow> wbState s' = wbState s \<and> wbOutbox s' = wbOutbox s \<and> wbObserver s' = wbObserver s"

lemma told_quiet: "quiet s s' \<Longrightarrow> told s \<Longrightarrow> told s'"
  by (simp add: quiet_def told_def)

lemma quiet_shell: "same_shell s s' \<Longrightarrow> quiet s s'"
  by (cases s; cases s'; simp add: same_shell_def quiet_def)

lemma quiet_BringUpTun: "wg_BringUpTun exec s w = (s', ok, w') \<Longrightarrow> quiet s s'"
  by (auto simp: wg_BringUpTun_def quiet_def Let_def split_beta split: option.splits prod.splits if_splits)

text \<open>A \<open>Connect\<close> is refused before it touches the system, or it went through the tunnel slot.\<close>

lemma Connect_cases:
  assumes c: "wg_Connect exec io env p s w fs = (r, s', w', fs')" and idle: "idle_state (wbState s)" "no_resources s"
  obtains (refused) "r \<noteq> B_OK" "w' = w" "fs' = fs" "no_resources s'" "idle_state (wbState s')" "told s \<longrightarrow> told s'"
  | (tried) s2 s3 ok w3 s4 d where "no_resources s2" "wg_BringUpTun exec s2 w = (s3, ok, w3)"
      "wbTunInterface s4 = wbTunInterface s3" "wbTunNode s4 = wbTunNode s3" "\<not> wbRoutesInstalled s4"
      "wbTunInterface s4 = [] \<longrightarrow> wbTunNode s4 = []" "told s4"
      "wg_Fail exec io d s4 w3 fs = (r, s', w', fs')
       \<or> r = B_OK \<and> s' = s4 \<and> in_session s4 \<and> wbState s4 = VPN_STATE_CONNECTING \<and> w' = w3 \<and> fs' = fs"
proof -
  have st: "(wbState s \<noteq> VPN_STATE_DISCONNECTED \<and> wbState s \<noteq> VPN_STATE_ERROR) = False"
    using idle(1) by (simp add: idle_state_def)
  define conf where "conf = ParseFile (read_file env) (fConfigPath p) WireGuardConfig"
  consider (early) "\<not> looper_attached env \<or> fConfigPath p = [] \<or> conf = None \<or> (\<exists>cf. conf = Some cf \<and> \<not> IsComplete cf)"
    | (go) cf where "looper_attached env" "fConfigPath p \<noteq> []" "conf = Some cf" "IsComplete cf" by (cases conf) auto
  then show ?thesis
  proof cases
    case early
    then have "r \<noteq> B_OK \<and> w' = w \<and> fs' = fs \<and> no_resources s' \<and> idle_state (wbState s') \<and> (told s \<longrightarrow> told s')"
      using c idle
      by (auto simp: wg_Connect_def idle_state_def no_resources_def conf_def [symmetric] split: if_splits)
    then show ?thesis by (intro refused) auto
  next
    case go
    let ?s0 = "s\<lparr> wbConfig := cf, wbRemoteIP := endpointHost (peer cf), wbLocalIP := address cf,
                 wbStopRequested := False, wbStats := ResetStats \<rparr>"
    obtain s1 ok1 where k: "DecodeKeys ?s0 = (s1, ok1)" by fastforce
    have nr1: "no_resources s1"
      using idle(2) same_shell_fields [OF DecodeKeys_shell [OF k], simplified] by (simp add: no_resources_def)
    show ?thesis
    proof (cases ok1)
      case False
      then have "r \<noteq> B_OK \<and> w' = w \<and> fs' = fs \<and> no_resources s' \<and> idle_state (wbState s') \<and> told s'"
        using c go k idle nr1 by (auto simp: wg_Connect_def conf_def [symmetric] idle_state_def Let_def split: if_splits)
      then show ?thesis by (intro refused) auto
    next
      case ok1: True
      let ?s2 = "wg_SetState VPN_STATE_CONNECTING None s1"
      obtain s3 ok3 w3 where b: "wg_BringUpTun exec ?s2 w = (s3, ok3, w3)" by (metis prod.exhaust)
      obtain s4 ok4 where u: "wg_OpenUdpSocket env s3 = (s4, ok4)" by fastforce
      obtain s5 ok5 where t: "wg_OpenTunFd env s4 = (s5, ok5)" by fastforce
      let ?s6 = "wg_StartReader env s5"
      have cc: "wg_Connect exec io env p s w fs =
          (if \<not> ok3 then wg_Fail exec io ''could not bring up a tun slot'' s3 w3 fs
           else if \<not> ok4 then wg_Fail exec io ''could not reach the WireGuard endpoint'' s4 w3 fs
           else if \<not> ok5 then wg_Fail exec io ''could not open the tun device'' s5 w3 fs
           else if \<not> wbReader ?s6 then wg_Fail exec io ''could not start the WireGuard worker'' ?s6 w3 fs
           else (B_OK, ?s6, w3, fs))"
        using go k b u t ok1 unfolding wg_Connect_def st by (simp add: conf_def [symmetric] Let_def)
      have nr2: "no_resources ?s2" using nr1 by simp
      then have f3: "wbTunInterface s3 = [] \<longrightarrow> wbTunNode s3 = []" "ok3 \<longrightarrow> wbTunInterface s3 \<noteq> []"
        "wbState s3 = VPN_STATE_CONNECTING" "\<not> wbRoutesInstalled s3"
        using BringUpTun_fields [OF b] same_shell_fields [of "?s2\<lparr> wbTunInterface := wbTunInterface s3, wbTunNode := wbTunNode s3, wbTunSelfIP := wbTunSelfIP s3 \<rparr>" s3]
        by (auto simp: no_resources_def)
      have t3: "told s3" using told_quiet [OF quiet_BringUpTun [OF b]] by simp
      have f4: "wbTunInterface s4 = wbTunInterface s3" "wbTunNode s4 = wbTunNode s3" "quiet s3 s4"
        "wbRoutesInstalled s4 = wbRoutesInstalled s3" "ok4 \<longrightarrow> wbUdpSocket s4"
        using u by (auto simp: wg_OpenUdpSocket_def quiet_def Let_def split: option.splits if_splits)
      have f5: "wbTunInterface s5 = wbTunInterface s3" "wbTunNode s5 = wbTunNode s3" "quiet s3 s5"
        "wbRoutesInstalled s5 = wbRoutesInstalled s3" "wbUdpSocket s5 = wbUdpSocket s4" "ok5 \<longrightarrow> wbTunFd s5"
        using t f4 by (auto simp: wg_OpenTunFd_def quiet_def split: if_splits)
      have f6: "wbTunInterface ?s6 = wbTunInterface s3" "wbTunNode ?s6 = wbTunNode s3" "quiet s3 ?s6"
        "wbRoutesInstalled ?s6 = wbRoutesInstalled s3" "wbUdpSocket ?s6 = wbUdpSocket s4" "wbTunFd ?s6 = wbTunFd s5"
        using f5 by (simp_all add: wg_StartReader_def quiet_def)
      note q = told_quiet [OF f4(3) t3] told_quiet [OF f5(3) t3] told_quiet [OF f6(3) t3]
      have last: "wbReader ?s6 \<Longrightarrow> ok3 \<Longrightarrow> ok4 \<Longrightarrow> ok5 \<Longrightarrow> in_session ?s6 \<and> wbState ?s6 = VPN_STATE_CONNECTING"
        using f3 f4 f5 f6 by (simp add: in_session_def quiet_def)
      have nr3: "wbTunInterface x = [] \<longrightarrow> wbTunNode x = []" "\<not> wbRoutesInstalled x"
        if "wbTunInterface x = wbTunInterface s3" "wbTunNode x = wbTunNode s3" "wbRoutesInstalled x = wbRoutesInstalled s3" for x
        using that f3 by simp_all
      consider (a) d x where "x = s3 \<or> x = s4 \<or> x = s5 \<or> x = ?s6" "wg_Fail exec io d x w3 fs = (r, s', w', fs')"
        | (z) "ok3" "ok4" "ok5" "wbReader ?s6" "r = B_OK" "s' = ?s6" "w' = w3" "fs' = fs"
        using c [unfolded cc] by (simp split: if_splits) metis+
      then show ?thesis
      proof cases
        case a
        then have "wbTunInterface x = wbTunInterface s3 \<and> wbTunNode x = wbTunNode s3 \<and> wbRoutesInstalled x = wbRoutesInstalled s3 \<and> told x"
          using f4 f5 f6 q t3 by blast
        then show ?thesis using nr3 [of x] a(2) by (intro tried [OF nr2 b, of x d]) simp_all
      next
        case z
        then show ?thesis using nr3 [of ?s6] f6 q last by (intro tried [OF nr2 b, of ?s6]) simp_all
      qed
    qed
  qed
qed

text \<open>An accepted \<open>Connect\<close> starts a session; a refused one leaves nothing behind.\<close>

lemma Connect_result:
  assumes "wg_Connect exec io env p s w fs = (r, s', w', fs')" "idle_state (wbState s)" "no_resources s"
  shows "if r = B_OK then in_session s' \<and> wbState s' = VPN_STATE_CONNECTING else no_resources s' \<and> idle_state (wbState s')"
  using assms
proof (cases rule: Connect_cases)
  case (tried s2 s3 ok w3 s4 d)
  then show ?thesis using Fail_result [of exec io d s4 w3 fs r s' w' fs'] by (auto simp: idle_state_def)
qed simp

subsection \<open>The invariant of the life cycle\<close>

lemma InstallRoutes_fields:
  assumes "wg_InstallRoutes exec listing io s w fs = (s', w', fs')"
  shows "wbReader s' = wbReader s" "wbUdpSocket s' = wbUdpSocket s" "wbTunFd s' = wbTunFd s"
    "wbTunInterface s' = wbTunInterface s" "wbTunNode s' = wbTunNode s" "wbStopRequested s' = wbStopRequested s"
    "wbState s' = wbState s"
  using assms by (auto simp: wg_InstallRoutes_def Let_def split: if_splits option.splits)

lemma Disconnect_result:
  assumes d: "wg_Disconnect exec io s w fs = (r, s', w', fs')"
  shows "no_resources s \<Longrightarrow> no_resources s' \<and> (idle_state (wbState s) \<longrightarrow> idle_state (wbState s'))"
    "in_session s \<Longrightarrow> s' = s\<lparr> wbStopRequested := True \<rparr> \<and> w' = w \<and> fs' = fs"
proof -
  assume nr: "no_resources s"
  obtain s1 w1 fs1 where c: "wg_Cleanup exec io (s\<lparr> wbStopRequested := True \<rparr>) w fs = (s1, w1, fs1)" by (metis prod.exhaust)
  have "no_resources s1" using Cleanup_no_resources [OF c] nr by (simp add: no_resources_def)
  then show "no_resources s' \<and> (idle_state (wbState s) \<longrightarrow> idle_state (wbState s'))"
    using d nr c by (auto simp: wg_Disconnect_def no_resources_def idle_state_def split: if_splits)
next
  assume "in_session s"
  then show "s' = s\<lparr> wbStopRequested := True \<rparr> \<and> w' = w \<and> fs' = fs"
    using d by (auto simp: wg_Disconnect_def in_session_def)
qed

lemma queue_inv_tail:
  assumes "queue_inv rd (m # q)"
  shows "rd \<noteq> None" "exit_msg m \<Longrightarrow> rd = Some ReaderDone \<and> q = []" "\<not> exit_msg m \<Longrightarrow> queue_inv rd q"
proof -
  show rd: "rd \<noteq> None" using assms by (cases rd) (auto simp: queue_inv_def)
  show "rd = Some ReaderDone \<and> q = []" if e: "exit_msg m"
  proof -
    obtain ph where ph: "rd = Some ph" using rd by auto
    then have d: "rd = Some ReaderDone" using assms e queue_inv_simps(3) [of ph "m # q"] by auto
    then obtain q' d where "m # q = q' @ [WgReaderExited d]" "\<forall>x \<in> set q'. \<not> exit_msg x"
      using assms by (auto simp: queue_inv_def)
    then show ?thesis using d e by (cases q') auto
  qed
  show "queue_inv rd q" if "\<not> exit_msg m"
  proof (cases "rd = Some ReaderDone")
    case True
    then obtain q' d where q: "m # q = q' @ [WgReaderExited d]" "\<forall>x \<in> set q'. \<not> exit_msg x"
      using assms by (auto simp: queue_inv_def)
    then have "q' \<noteq> []" using that by (auto simp: exit_msg_def)
    then obtain q'' where "q = q'' @ [WgReaderExited d]" "\<forall>x \<in> set q''. \<not> exit_msg x"
      using q by (cases q') auto
    then show ?thesis using True by (auto simp: queue_inv_def)
  next
    case False
    then obtain ph where "rd = Some ph" "ph \<noteq> ReaderDone" using rd by auto
    then show ?thesis using assms queue_inv_simps(3) [of ph] by simp
  qed
qed

lemma iteration_msgs:
  assumes "reader_iteration os inp s v = (s', v', fx, go)"
  shows "\<forall>m \<in> set (fx_msgs fx). \<not> exit_msg m"
proof -
  have o1: "fx_msgs (snd (snd (loop_outbound os inp tun x))) = fx_msgs (snd (snd x))" for tun x
    by (cases x) (auto simp: loop_outbound_def Let_def split_beta split: option.split)
  have o2: "fx_msgs (snd (snd (loop_inbound os udp x))) = fx_msgs (snd (snd x))" for udp x
    by (cases x) (auto simp: loop_inbound_def Let_def split_beta split: option.split)
  have o3: "set (fx_msgs (snd (snd (loop_timers os inp x)))) \<subseteq> set (fx_msgs (snd (snd x))) \<union> {m. \<not> exit_msg m}" for x
    by (cases x) (auto simp: loop_timers_def Let_def split_beta exit_msg_def)
  have o4: "fst (snd (snd (loop_rekey os inp x))) = snd (snd x)" for x
    by (cases x) (auto simp: loop_rekey_def split_beta split: bool.split)
  show ?thesis
  proof (cases "li_select inp")
    case (Selected tun udp)
    let ?x = "loop_inbound os udp (loop_outbound os inp tun (s, v, \<lparr> fx_udp = [], fx_tun = [], fx_msgs = [] \<rparr>))"
    have "fx = snd (snd (loop_timers os inp ?x))"
      using assms o4 [of "loop_timers os inp ?x"] by (simp add: reader_iteration_def Let_def Selected)
    then show ?thesis using o3 [of ?x] by (auto simp: o1 o2)
  qed (use assms in \<open>auto simp: reader_iteration_def\<close>)
qed


lemma MessageReceived_result:
  assumes d: "wg_MessageReceived exec listing io m s w fs = (s', w', fs')" and s: "in_session s"
  shows "if exit_msg m then no_resources s' \<and> idle_state (wbState s') else in_session s'"
proof (cases m)
  case WgConnected
  obtain s1 w1 fs1 where i: "wg_InstallRoutes exec listing io s w fs = (s1, w1, fs1)" by (metis prod.exhaust)
  show ?thesis using d s InstallRoutes_fields [OF i] by (auto simp: WgConnected i exit_msg_def in_session_def)
next
  case (WgStats a b)
  then show ?thesis using d s by (auto simp: exit_msg_def in_session_def)
next
  case (WgReaderExited detail)
  obtain s1 w1 fs1 where c: "wg_Cleanup exec io s w fs = (s1, w1, fs1)" by (metis prod.exhaust)
  have "no_resources s1" using Cleanup_no_resources [OF c] s by (simp add: in_session_def)
  then show ?thesis using d c by (auto simp: WgReaderExited exit_msg_def idle_state_def split: if_splits)
qed

lemma in_session_shell: "same_shell s s' \<Longrightarrow> in_session s \<Longrightarrow> in_session s'"
  by (simp add: in_session_def same_shell_fields)

lemma session_not_idle: "in_session s \<Longrightarrow> \<not> idle_state (wbState s)"
  by (auto simp: in_session_def idle_state_def)

text \<open>A step of the reader: the engine changes, the phase advances, messages join the queue.\<close>

lemma wg_inv_reader:
  assumes "wg_inv z" "sys_rd z = Some ph" "same_shell (sys_s z) s" "queue_inv (Some ph') (sys_q z @ q)"
  shows "wg_inv (z\<lparr> sys_s := s, sys_rd := Some ph', sys_q := sys_q z @ q \<rparr>)"
proof -
  have "in_session (sys_s z)" using assms(1,2) by (auto simp: wg_inv_def split: if_splits)
  then show ?thesis
    using assms(4) in_session_shell [OF assms(3)] session_not_idle [of s] by (simp add: wg_inv_def)
qed

lemma wg_inv_reader_on:
  assumes "wg_inv z" "sys_rd z = Some ph" "ph \<noteq> ReaderDone" "same_shell (sys_s z) s" "\<forall>m \<in> set ms. \<not> exit_msg m"
    and "ph' \<noteq> ReaderDone"
  shows "wg_inv (z\<lparr> sys_s := s, sys_rd := Some ph', sys_q := sys_q z @ ms \<rparr>)"
proof (rule wg_inv_reader [OF assms(1,2,4)])
  have "queue_inv (Some ph) (sys_q z)" using assms(1,2) by (simp add: wg_inv_def)
  then show "queue_inv (Some ph') (sys_q z @ ms)" using queue_inv_simps(3) assms(3,5,6) by auto
qed

lemma wg_inv_reader_exit:
  assumes "wg_inv z" "sys_rd z = Some ph" "ph \<noteq> ReaderDone" "same_shell (sys_s z) s" "\<forall>m \<in> set ms. \<not> exit_msg m"
  shows "wg_inv (z\<lparr> sys_s := s, sys_rd := Some ReaderDone, sys_q := sys_q z @ ms @ [WgReaderExited d] \<rparr>)"
proof -
  have "queue_inv (Some ph) (sys_q z)" using assms(1,2) by (simp add: wg_inv_def)
  then have "\<forall>m \<in> set (sys_q z @ ms). \<not> exit_msg m" using queue_inv_simps(3) [OF assms(3)] assms(5) by auto
  then have "queue_inv (Some ReaderDone) (sys_q z @ ms @ [WgReaderExited d])"
    unfolding queue_inv_simps(2) by (intro exI [of _ "sys_q z @ ms"] exI [of _ d]) auto
  then show ?thesis by (rule wg_inv_reader [OF assms(1,2,4)])
qed

lemma wg_inv_step: "wg_step os exec listing ios z z' \<Longrightarrow> wg_inv z \<Longrightarrow> wg_inv z'"
proof (induction rule: wg_step.induct)
  case (step_Connect io env p z r s w fs)
  show ?case
  proof (cases "idle_state (wbState (sys_s z))")
    case True
    then have nr: "no_resources (sys_s z)" "sys_rd z = None" "sys_q z = []"
      using step_Connect.prems by (auto simp: wg_inv_def queue_inv_def)
    show ?thesis using Connect_result [OF step_Connect.hyps(1) True nr(1)] nr
      by (auto simp: wg_inv_def queue_inv_def idle_state_def split: if_splits)
  next
    case False
    then have "r = B_NOT_ALLOWED" "s = sys_s z" using step_Connect.hyps(1) by (auto simp: wg_Connect_def idle_state_def)
    then show ?thesis using step_Connect.prems by (simp add: wg_inv_def)
  qed
next
  case (step_Disconnect io z r s w fs)
  show ?case
  proof (cases "idle_state (wbState (sys_s z))")
    case True
    then show ?thesis using step_Disconnect.prems Disconnect_result(1) [OF step_Disconnect.hyps(1)] by (auto simp: wg_inv_def)
  next
    case False
    then have i: "in_session (sys_s z)" using step_Disconnect.prems by (simp add: wg_inv_def)
    show ?thesis using step_Disconnect.prems False i Disconnect_result(2) [OF step_Disconnect.hyps(1) i]
      by (auto simp: wg_inv_def in_session_def)
  qed
next
  case (step_Dispatch z m q io s w fs)
  have qi: "queue_inv (sys_rd z) (m # q)" using step_Dispatch by (simp add: wg_inv_def)
  note t = queue_inv_tail [OF qi]
  have "in_session (sys_s z)" using step_Dispatch.prems t(1) by (auto simp: wg_inv_def split: if_splits)
  note r = MessageReceived_result [OF step_Dispatch.hyps(2) this]
  show ?case
  proof (cases "exit_msg m")
    case True
    then show ?thesis using r t(2) by (auto simp: wg_inv_def queue_inv_def exit_msg_def)
  next
    case False
    then have "in_session s" using r by simp
    then show ?thesis using session_not_idle [of s] False t(1,3)
      by (auto simp: wg_inv_def exit_msg_def split: wg_msg.split)
  qed
next
  case (step_HsFail z i h s)
  have "same_shell (sys_s z) s" using handshake_shell [of "sys_s z" os h] step_HsFail by simp
  from wg_inv_reader_on [OF step_HsFail.prems step_HsFail.hyps(1) _ this, of "[]" "Handshaking (Suc i)"]
  show ?case by (cases z) simp
next
  case (step_HsOk z i h s now)
  have "same_shell (sys_s z) (fresh_session s)"
    using same_shell_trans [OF handshake_shell [of "sys_s z" os h] engine_shell(3)] step_HsOk by simp
  from wg_inv_reader_on [OF step_HsOk.prems step_HsOk.hyps(1) _ this] show ?case by (simp add: exit_msg_def)
next
  case (step_GiveUp z i)
  from wg_inv_reader_exit [OF step_GiveUp.prems step_GiveUp.hyps(1) _ same_shell_refl, of "[]"]
  show ?case by (cases z) simp
next
  case (step_Iterate z v inp s v' fx)
  have "same_shell (sys_s z) s" using iteration_shell [of "sys_s z" os inp v] step_Iterate by simp
  from wg_inv_reader_on [OF step_Iterate.prems step_Iterate.hyps(1) _ this iteration_msgs [OF step_Iterate.hyps(3)]]
  show ?case by simp
next
  case (step_LoopEnds z v inp s v' fx)
  have "same_shell (sys_s z) s" using iteration_shell [of "sys_s z" os inp v] step_LoopEnds by simp
  from wg_inv_reader_exit [OF step_LoopEnds.prems step_LoopEnds.hyps(1) _ this iteration_msgs [OF step_LoopEnds.hyps(3)]]
  show ?case by simp
next
  case (step_Stopped z v)
  from wg_inv_reader_exit [OF step_Stopped.prems step_Stopped.hyps(1) _ same_shell_refl, of "[]"]
  show ?case by (cases z) simp
qed

lemma wg_inv_start: "wg_inv (wg_start observer w fs)"
  by (simp add: wg_inv_def wg_start_def queue_inv_def idle_state_def no_resources_def WireGuardBackend_def
      wg_engine.defs)


subsection \<open>The routing table\<close>

definition wg_pin :: "wg_backend \<Rightarrow> route set" where
  "wg_pin s = (if wbEndpointIP s \<noteq> [] \<and> wbOrigGateway s \<noteq> []
     then {(wbOrigGatewayIface s, wbEndpointIP s, wbOrigGateway s, ''255.255.255.255'')} else {})"

definition wg_orig :: "wg_backend \<Rightarrow> route" where
  "wg_orig s = (wbOrigGatewayIface s, ''0.0.0.0'', wbOrigGateway s, ''0.0.0.0'')"

definition wg_allowed :: "wg_backend \<Rightarrow> route set" where
  "wg_allowed s = (\<lambda>r. (wbTunInterface s, ar_net r, wbTunSelfIP s, ar_mask r)) ` set (cidrs s)"

text \<open>The routes of a connected session, against the table before it.\<close>

definition wg_taken :: "route set \<Rightarrow> wg_backend \<Rightarrow> route set \<Rightarrow> bool" where
  "wg_taken t0 s t \<longleftrightarrow>
     wg_allowed s \<union> wg_pin s \<subseteq> t \<and> carrier t \<subseteq> t0 \<union> wg_pin s
   \<and> lasting t0 - (if wbReplacedDefault s then {wg_orig s} else {}) \<subseteq> t
   \<and> (wbReplacedDefault s \<longrightarrow> wbOrigGateway s \<noteq> [] \<and> wg_orig s \<notin> t \<and> (\<not> is_tun (wbOrigGatewayIface s) \<longrightarrow> wg_orig s \<in> t0))"

definition wg_route_inv :: "route set \<Rightarrow> wg_backend \<Rightarrow> route set \<Rightarrow> bool" where
  "wg_route_inv t0 s t \<longleftrightarrow>
     (if wbRoutesInstalled s then wg_taken t0 s t
      else restored t0 t \<and> (wbTunInterface s \<noteq> [] \<longrightarrow> gateway_routes (wbTunInterface s) t = {}))
   \<and> (wbTunInterface s \<noteq> [] \<longrightarrow> is_tun (wbTunInterface s))"

lemma run_routes_if: "run_routes exec (if b then [c] else []) w = (if b then snd (RunRoute exec c w) else w)"
  by simp

lemma table_pin:
  assumes "route_tool exec table"
  shows "table (snd (RunRoute exec (pin_cmd ''add'' i g ip) w)) = insert (i, ip, g, ''255.255.255.255'') (table w)"
    and "table (snd (RunRoute exec (pin_cmd ''delete'' i g ip) w)) = table w - {(i, ip, g, ''255.255.255.255'')}"
  using assms by (auto simp: RunRoute_def route_tool_def pin_cmd_def split_beta)

lemmas table_allowed =
  table_adds [of _ _ "allowed_cmd ''add'' s" "\<lambda>r. wbTunInterface s" ar_net "\<lambda>r. wbTunSelfIP s" ar_mask for s,
    OF _ allowed_cmd_def, folded wg_allowed_def]
  table_deletes [of _ _ "allowed_cmd ''delete'' s" "\<lambda>r. wbTunInterface s" ar_net "\<lambda>r. wbTunSelfIP s" ar_mask for s,
    OF _ allowed_cmd_def, folded wg_allowed_def]

lemma install_table:
  assumes "route_tool exec table"
  shows "table (run_routes exec (install_cmds s) w)
    = (table w \<union> wg_pin s) - (if any_default s \<and> wbOrigGateway s \<noteq> [] then {wg_orig s} else {}) \<union> wg_allowed s"
  using table_allowed(1) [OF assms, of s "cidrs s"]
  by (auto simp: install_cmds_def run_routes_append run_routes_if table_default [OF assms] table_pin [OF assms]
      wg_pin_def wg_orig_def wg_allowed_def)

lemma remove_table:
  assumes "route_tool exec table"
  shows "table (run_routes exec (remove_cmds s) w)
    = (table w - wg_allowed s \<union> (if wbReplacedDefault s \<and> wbOrigGateway s \<noteq> [] then {wg_orig s} else {})) - wg_pin s"
  using table_allowed(2) [OF assms, of s "cidrs s"]
  by (auto simp: remove_cmds_def run_routes_append run_routes_if table_default [OF assms] table_pin [OF assms]
      wg_pin_def wg_orig_def wg_allowed_def)

lemma wg_allowed_off: "is_tun (wbTunInterface s) \<Longrightarrow> carrier (t \<union> wg_allowed s) = carrier t \<and> carrier (t - wg_allowed s) = carrier t"
  by (auto simp: carrier_def wg_allowed_def)

lemma wg_pin_orig: "wg_orig s \<notin> wg_pin s"
  by (simp add: wg_pin_def wg_orig_def)

lemma removed_restored:
  assumes "wg_taken t0 s t" "is_tun (wbTunInterface s)"
    and t': "t' = (t - wg_allowed s \<union> (if wbReplacedDefault s \<and> wbOrigGateway s \<noteq> [] then {wg_orig s} else {})) - wg_pin s"
  shows "restored t0 t'"
proof -
  have "e \<notin> wg_allowed s \<and> e \<notin> wg_pin s" if "e \<in> lasting t0" for e
    using that assms(2) by (auto simp: lasting_def carrier_def wg_allowed_def wg_pin_def split: if_splits)
  then have "lasting t0 \<subseteq> t'" using assms(1) unfolding t' wg_taken_def by (auto split: if_splits)
  moreover have "carrier t' \<subseteq> t0"
    using assms(1) unfolding t' wg_taken_def by (auto simp: carrier_def wg_orig_def split: if_splits)
  ultimately show ?thesis by (simp add: restored_def)
qed


lemma BringUpTun_table:
  assumes tool: "ifconfig_tool exec table" and b: "wg_BringUpTun exec s w = (s', ok, w')" "wbTunInterface s = []"
  shows "carrier (table w') = carrier (table w)
     \<and> (wbTunInterface s' \<noteq> [] \<longrightarrow> is_tun (wbTunInterface s') \<and> gateway_routes (wbTunInterface s') (table w') = {})"
proof -
  obtain r w1 where p: "ProbeFreeSlot exec w = (r, w1)" by fastforce
  note q = probe_table [OF tool p [unfolded ProbeFreeSlot_def]]
  show ?thesis
  proof (cases r)
    case None
    then show ?thesis using b p q by (auto simp: wg_BringUpTun_def)
  next
    case (Some x)
    obtain iface node where x: "x = (iface, node)" by fastforce
    have t: "is_tun iface" "iface \<noteq> ''--delete''" "gateway_routes iface (table w1) = {}" using q by (auto simp: Some x)
    have off: "same_off iface (table w1) (table (snd (exec (''ifconfig'' # iface # args) w1)))"
      "gateway_routes iface (table (snd (exec (''ifconfig'' # iface # args) w1))) = {}" for args
      using run_ifconfig [OF tool t(2), where w = w1 and args = args] t(3) by auto
    have "wbTunInterface s' = iface \<and> (w' = w1 \<or> (\<exists>args. w' = snd (exec (''ifconfig'' # iface # args) w1)))"
      using b p by (auto simp: wg_BringUpTun_def Some x RunIfconfig_def Let_def split_beta split: if_splits)
    then consider "wbTunInterface s' = iface" "w' = w1"
      | args where "wbTunInterface s' = iface" "w' = snd (exec (''ifconfig'' # iface # args) w1)" by blast
    then show ?thesis
    proof cases
      case 2
      then show ?thesis using q t(1) off(2) [of args] same_off_carrier [OF off(1) [of args] t(1)] by simp
    qed (use q t in simp)
  qed
qed

lemma carrier_delete: "is_tun i \<Longrightarrow> carrier {e \<in> t. r_iface e \<noteq> i} = carrier t"
  unfolding carrier_def by (intro Collect_cong) (metis (mono_tags, lifting) mem_Collect_eq)

lemma Cleanup_table:
  assumes tool: "route_tool exec table" "ifconfig_tool exec table"
    and inv: "wg_route_inv t0 s (table w)" and c: "wg_Cleanup exec io s w fs = (s', w', fs')"
    and up: "wbRoutesInstalled s \<longrightarrow> wbTunInterface s \<noteq> []"
  shows "restored t0 (table w')"
proof -
  let ?s = "s\<lparr> wbStopRequested := True, wbReader := False \<rparr>"
  obtain s1 w1 fs1 where r: "wg_RemoveRoutes exec io ?s w fs = (s1, w1, fs1)" by (metis prod.exhaust)
  have i: "wbTunInterface s1 = wbTunInterface s" using r by (auto simp: wg_RemoveRoutes_def split: if_splits)
  have same: "wg_allowed ?s = wg_allowed s" "wg_orig ?s = wg_orig s" "wg_pin ?s = wg_pin s"
    by (simp_all add: wg_allowed_def cidrs_def wg_orig_def wg_pin_def)
  have r1: "restored t0 (table w1)"
  proof (cases "wbRoutesInstalled s")
    case True
    then have "w1 = run_routes exec (remove_cmds ?s) w" using r by (simp add: wg_RemoveRoutes_def)
    then have "table w1 = (table w - wg_allowed s \<union> (if wbReplacedDefault s \<and> wbOrigGateway s \<noteq> [] then {wg_orig s} else {})) - wg_pin s"
      using remove_table [OF tool(1), of ?s w] unfolding same by simp
    then show ?thesis using removed_restored inv True up by (simp add: wg_route_inv_def)
  next
    case False
    then show ?thesis using r inv by (auto simp: wg_RemoveRoutes_def wg_route_inv_def)
  qed
  show ?thesis
  proof (cases "wbTunInterface s = []")
    case True
    then show ?thesis using c r r1 i by (simp add: wg_Cleanup_def Let_def)
  next
    case False
    have "table w' = {e \<in> table w1. r_iface e \<noteq> wbTunInterface s}"
    proof -
      have "w' = snd (exec [''ifconfig'', ''--delete'', wbTunInterface s] w1)"
        using c unfolding wg_Cleanup_def Let_def r by (simp add: i False RunIfconfig_def split_beta)
      then show ?thesis using run_ifconfig_delete [OF tool(2), of "wbTunInterface s" w1] by simp
    qed
    moreover have "is_tun (wbTunInterface s)" using inv False by (simp add: wg_route_inv_def)
    ultimately have "carrier (table w') = carrier (table w1)" by (simp only: carrier_delete)
    then show ?thesis using r1 restored_cong [of "table w'" "table w1" t0] by simp
  qed
qed

lemma gateway_off:
  assumes "gateway_routes i t = {}" "(iface, n, g, m) \<in> t" "g \<noteq> []"
  shows "iface \<noteq> i"
  using assms by (auto simp: gateway_routes_def)

lemma taken_installed:
  assumes r: "restored t0 t" and o1: "orig \<longrightarrow> wbOrigGateway s \<noteq> [] \<and> wg_orig s \<in> t"
    and tun: "is_tun (wbTunInterface s)" "wbOrigGateway s \<noteq> [] \<longrightarrow> wbOrigGatewayIface s \<noteq> wbTunInterface s"
    and t': "t' = (t \<union> wg_pin s) - (if orig then {wg_orig s} else {}) \<union> wg_allowed s"
  shows "wg_taken t0 (s\<lparr> wbReplacedDefault := orig, wbRoutesInstalled := True \<rparr>) t'"
proof -
  let ?s = "s\<lparr> wbReplacedDefault := orig, wbRoutesInstalled := True \<rparr>"
  have same: "wg_allowed ?s = wg_allowed s" "wg_orig ?s = wg_orig s" "wg_pin ?s = wg_pin s"
    by (simp_all add: wg_allowed_def cidrs_def wg_orig_def wg_pin_def)
  have no: "orig \<Longrightarrow> wg_orig s \<notin> wg_allowed s" using o1 tun(2) by (auto simp: wg_orig_def wg_allowed_def)
  have "wg_orig s \<in> t0" if "orig" "\<not> is_tun (wbOrigGatewayIface s)"
    using r o1 that by (auto simp: restored_def carrier_def wg_orig_def)
  then have "orig \<longrightarrow> wbOrigGateway s \<noteq> [] \<and> wg_orig s \<notin> t' \<and> (\<not> is_tun (wbOrigGatewayIface s) \<longrightarrow> wg_orig s \<in> t0)"
    using o1 no wg_pin_orig by (auto simp: t')
  moreover have "carrier t' \<subseteq> t0 \<union> wg_pin s"
    using r tun(1) by (auto simp: t' restored_def carrier_def wg_allowed_def)
  moreover have "lasting t0 - (if orig then {wg_orig s} else {}) \<subseteq> t'" using r by (auto simp: t' restored_def)
  moreover have "wg_allowed s \<union> wg_pin s \<subseteq> t'" using wg_pin_orig by (auto simp: t')
  ultimately show ?thesis unfolding wg_taken_def same by simp
qed

lemma InstallRoutes_table:
  assumes tool: "tools exec listing table" and inv: "wg_route_inv t0 s (table w)" "wbTunInterface s \<noteq> []"
    and i: "wg_InstallRoutes exec listing io s w fs = (s', w', fs')"
  shows "wg_route_inv t0 s' (table w')"
proof (cases "wbRoutesInstalled s \<or> cidrs s = []")
  case True
  then have "wg_InstallRoutes exec listing io s w fs = (s, w, fs)" unfolding wg_InstallRoutes_def by (elim disjE) simp_all
  then show ?thesis using inv i by simp
next
  case False
  let ?c = "s\<lparr> wbOrigGateway := [], wbOrigGatewayIface := [], wbReplacedDefault := False \<rparr>"
  define s1 where "s1 = (case DefaultGateway listing w of Some (g, i) \<Rightarrow> ?c\<lparr> wbOrigGateway := g, wbOrigGatewayIface := i \<rparr> | None \<Rightarrow> ?c)"
  have f: "wbTunInterface s1 = wbTunInterface s" "wbRoutesInstalled s1 = wbRoutesInstalled s"
    by (auto simp: s1_def split: option.split)
  have rs: "restored t0 (table w)" "gateway_routes (wbTunInterface s) (table w) = {}" "is_tun (wbTunInterface s)"
    using inv False by (auto simp: wg_route_inv_def)
  let ?o = "any_default s1 \<and> wbOrigGateway s1 \<noteq> []"
  have eq: "wg_InstallRoutes exec listing io s w fs =
      (if DefaultGateway listing w = None \<and> any_default s1 then (s1, w, fs)
       else (s1\<lparr> wbReplacedDefault := ?o, wbRoutesInstalled := True \<rparr>, run_routes exec (install_cmds s1) w,
             if ?o then ApplyDns io (dns (wbConfig s1)) fs else fs))"
    using False unfolding wg_InstallRoutes_def Let_def s1_def [symmetric] by simp
  show ?thesis
  proof (cases "DefaultGateway listing w = None \<and> any_default s1")
    case True
    then have "s' = s1 \<and> w' = w" using i eq by simp
    then show ?thesis using rs f False by (simp add: wg_route_inv_def)
  next
    case go: False
    have s': "s' = s1\<lparr> wbReplacedDefault := ?o, wbRoutesInstalled := True \<rparr>" "w' = run_routes exec (install_cmds s1) w"
      using i eq go by auto
    have g: "wbOrigGateway s1 \<noteq> [] \<Longrightarrow> wg_orig s1 \<in> table w"
      using default_gateway_route [of listing table w] tool by (auto simp: s1_def tools_def wg_orig_def split: option.splits)
    then have "wbOrigGateway s1 \<noteq> [] \<longrightarrow> wbOrigGatewayIface s1 \<noteq> wbTunInterface s1"
      using gateway_off [OF rs(2)] f by (auto simp: wg_orig_def)
    then have "wg_taken t0 s' (table w')"
      unfolding s' using g rs f install_table [of exec table s1 w] tool
      by (intro taken_installed [where t = "table w"]) (auto simp: tools_def)
    then show ?thesis using s' f rs by (simp add: wg_route_inv_def)
  qed
qed


text \<open>The routes depend on a few fields only.\<close>

lemma route_inv_cong:
  assumes "wbTunInterface s' = wbTunInterface s" "wbTunSelfIP s' = wbTunSelfIP s" "wbEndpointIP s' = wbEndpointIP s"
    "wbConfig s' = wbConfig s" "wbRoutesInstalled s' = wbRoutesInstalled s" "wbReplacedDefault s' = wbReplacedDefault s"
    "wbOrigGateway s' = wbOrigGateway s" "wbOrigGatewayIface s' = wbOrigGatewayIface s"
  shows "wg_route_inv t0 s' t = wg_route_inv t0 s t"
  by (simp add: wg_route_inv_def wg_taken_def wg_allowed_def wg_pin_def wg_orig_def cidrs_def assms)

lemma route_inv_shell: "same_shell s s' \<Longrightarrow> wg_route_inv t0 s' t = wg_route_inv t0 s t"
  by (rule route_inv_cong) (simp_all add: same_shell_fields)

lemma route_inv_same [simp]:
  "wg_route_inv t0 (wg_SetState st d s) t = wg_route_inv t0 s t"
  "wg_route_inv t0 (s\<lparr> wbStopRequested := b \<rparr>) t = wg_route_inv t0 s t"
  "wg_route_inv t0 (s\<lparr> wbStats := x \<rparr>) t = wg_route_inv t0 s t"
  "wg_route_inv t0 (s\<lparr> wbOutbox := y \<rparr>) t = wg_route_inv t0 s t"
  by (rule route_inv_cong; simp)+

lemma route_inv_idle: "no_resources s \<Longrightarrow> wg_route_inv t0 s t = restored t0 t"
  by (simp add: no_resources_def wg_route_inv_def)

lemma Fail_table:
  assumes "route_tool exec table" "ifconfig_tool exec table" "wg_route_inv t0 s (table w)" "\<not> wbRoutesInstalled s"
    and "wg_Fail exec io d s w fs = (r, s', w', fs')"
  shows "restored t0 (table w')"
proof -
  obtain s1 w1 fs1 where c: "wg_Cleanup exec io s w fs = (s1, w1, fs1)" by (metis prod.exhaust)
  then have "w' = w1" using assms(5) by (simp add: wg_Fail_def)
  then show ?thesis using Cleanup_table [OF assms(1-3) c] assms(4) by simp
qed


lemma Connect_table:
  assumes tool: "route_tool exec table" "ifconfig_tool exec table" and r: "restored t0 (table w)"
    and c: "wg_Connect exec io env p s w fs = (r, s', w', fs')" "idle_state (wbState s)" "no_resources s"
  shows "wg_route_inv t0 s' (table w')"
  using c
proof (cases rule: Connect_cases)
  case refused
  then show ?thesis using r route_inv_idle by simp
next
  case (tried s2 s3 ok w3 s4 d)
  have "wbTunInterface s2 = []" using tried(1) by (simp add: no_resources_def)
  note b = BringUpTun_table [OF tool(2) tried(2) this]
  have "restored t0 (table w3)" using r b restored_cong [of "table w3" "table w" t0] by simp
  then have i4: "wg_route_inv t0 s4 (table w3)" using b tried(3,5) by (simp add: wg_route_inv_def)
  from tried(8) show ?thesis
  proof
    assume f: "wg_Fail exec io d s4 w3 fs = (r, s', w', fs')"
    then show ?thesis
      using Fail_table [OF tool i4 tried(5) f] Fail_result [OF f] tried(6) route_inv_idle by simp
  qed (use i4 in simp)
qed

lemma Disconnect_table:
  assumes tool: "route_tool exec table" "ifconfig_tool exec table" and r: "restored t0 (table w)"
    and d: "wg_Disconnect exec io s w fs = (r, s', w', fs')" and nr: "no_resources s"
  shows "wg_route_inv t0 s' (table w')"
proof -
  let ?s = "s\<lparr> wbStopRequested := True \<rparr>"
  obtain s1 w1 fs1 where c: "wg_Cleanup exec io ?s w fs = (s1, w1, fs1)" by (metis prod.exhaust)
  have "no_resources ?s" using nr by (simp add: no_resources_def)
  then have "restored t0 (table w1)"
    using Cleanup_table [OF tool _ c] r route_inv_idle nr by (simp add: no_resources_def)
  moreover have "w' = w1 \<or> w' = w" using d c nr by (auto simp: wg_Disconnect_def no_resources_def split: if_splits)
  ultimately show ?thesis using r Disconnect_result(1) [OF d nr] route_inv_idle by auto
qed

lemma MessageReceived_table:
  assumes tool: "tools exec listing table" and inv: "wg_route_inv t0 s (table w)" and ses: "in_session s"
    and m: "wg_MessageReceived exec listing io m s w fs = (s', w', fs')"
  shows "wg_route_inv t0 s' (table w')"
proof (cases m)
  case WgConnected
  obtain s1 w1 fs1 where i: "wg_InstallRoutes exec listing io s w fs = (s1, w1, fs1)" by (metis prod.exhaust)
  have "wg_route_inv t0 s1 (table w1)" using InstallRoutes_table [OF tool inv _ i] ses by (simp add: in_session_def)
  then show ?thesis using m i WgConnected by auto
next
  case (WgStats a b)
  then show ?thesis using m inv by auto
next
  case (WgReaderExited detail)
  obtain s1 w1 fs1 where c: "wg_Cleanup exec io s w fs = (s1, w1, fs1)" by (metis prod.exhaust)
  have tl: "route_tool exec table" "ifconfig_tool exec table" using tool by (simp_all add: tools_def)
  have "restored t0 (table w1)" "no_resources s'"
    using Cleanup_table [OF tl inv c] MessageReceived_result [OF m ses] ses WgReaderExited
    by (auto simp: in_session_def exit_msg_def)
  moreover have "w' = w1" using m c WgReaderExited by auto
  ultimately show ?thesis using route_inv_idle by simp
qed

lemma route_inv_step:
  assumes tool: "tools exec listing table" and st: "wg_step os exec listing ios z z'"
    and inv: "wg_inv z" "wg_route_inv t0 (sys_s z) (table (sys_w z))"
  shows "wg_route_inv t0 (sys_s z') (table (sys_w z'))"
  using st inv
proof cases
  case (step_Connect io env p r s w fs)
  show ?thesis
  proof (cases "idle_state (wbState (sys_s z))")
    case True
    then have "no_resources (sys_s z)" using inv(1) by (simp add: wg_inv_def)
    then show ?thesis
      using Connect_table [OF _ _ _ step_Connect(2) True] tool inv(2) route_inv_idle step_Connect(1) by (simp add: tools_def)
  next
    case False
    then have "s = sys_s z" "w = sys_w z" using step_Connect(2) by (auto simp: wg_Connect_def idle_state_def)
    then show ?thesis using step_Connect(1) inv(2) by simp
  qed
next
  case (step_Disconnect io r s w fs)
  show ?thesis
  proof (cases "idle_state (wbState (sys_s z))")
    case False
    then have "in_session (sys_s z)" using inv(1) by (simp add: wg_inv_def)
    from Disconnect_result(2) [OF step_Disconnect(2) this] show ?thesis using step_Disconnect(1) inv(2) by simp
  next
    case True
    then have "no_resources (sys_s z)" using inv(1) by (simp add: wg_inv_def)
    then show ?thesis
      using Disconnect_table [OF _ _ _ step_Disconnect(2)] tool inv(2) route_inv_idle step_Disconnect(1) by (simp add: tools_def)
  qed
next
  case (step_Dispatch m q io s w fs)
  have "queue_inv (sys_rd z) (m # q)" using inv(1) step_Dispatch by (simp add: wg_inv_def)
  then have "in_session (sys_s z)" using queue_inv_tail(1) inv(1) by (auto simp: wg_inv_def split: if_splits)
  from MessageReceived_table [OF tool inv(2) this step_Dispatch(3)] show ?thesis using step_Dispatch(1) by simp
next
  case (step_HsFail i h s)
  then show ?thesis using route_inv_shell [of "sys_s z" s] handshake_shell [of "sys_s z" os h] inv(2) by simp
next
  case (step_HsOk i h s now)
  then show ?thesis using route_inv_shell [OF same_shell_trans [OF handshake_shell [of "sys_s z" os h] engine_shell(3)]] inv(2) by simp
next
  case (step_Iterate v inp s v' fx)
  then show ?thesis using route_inv_shell [of "sys_s z" s] iteration_shell [of "sys_s z" os inp v] inv(2) by simp
next
  case (step_LoopEnds v inp s v' fx)
  then show ?thesis using route_inv_shell [of "sys_s z" s] iteration_shell [of "sys_s z" os inp v] inv(2) by simp
qed (use inv in simp_all)


subsection \<open>Every reachable state\<close>

lemma quiet_Cleanup: "wg_Cleanup exec io s w fs = (s', w', fs') \<Longrightarrow> quiet s s'"
  by (auto simp: wg_Cleanup_def wg_RemoveRoutes_def quiet_def Let_def split_beta split: if_splits)

lemma quiet_InstallRoutes: "wg_InstallRoutes exec listing io s w fs = (s', w', fs') \<Longrightarrow> quiet s s'"
  by (auto simp: wg_InstallRoutes_def quiet_def Let_def split: if_splits option.splits)

lemma told_Fail: "wg_Fail exec io d s w fs = (r, s', w', fs') \<Longrightarrow> told s'"
  by (cases "wg_Cleanup exec io s w fs") (auto simp: wg_Fail_def)

lemma told_MessageReceived:
  assumes "wg_MessageReceived exec listing io m s w fs = (s', w', fs')" "told s"
  shows "told s'"
proof (cases m)
  case (WgStats a b)
  have "what (snd (ArchiveStats x (BMessage kMsgStatsUpdate))) \<noteq> kMsgStatusUpdate" for x
    by (simp add: kMsgStatsUpdate_def kMsgStatusUpdate_def)
  then show ?thesis using assms WgStats by (auto simp: told_def latest_state_def NotifyStats_def Let_def)
next
  case WgConnected
  then show ?thesis using assms by (cases "wg_InstallRoutes exec listing io s w fs") auto
next
  case (WgReaderExited d)
  then show ?thesis using assms by (cases "wg_Cleanup exec io s w fs") (auto split: if_splits)
qed

lemma told_step:
  assumes st: "wg_step os exec listing ios z z'" and inv: "wg_inv z" "told (sys_s z)"
  shows "told (sys_s z')"
  using st
proof cases
  case (step_Connect io env p r s w fs)
  show ?thesis
  proof (cases "idle_state (wbState (sys_s z))")
    case True
    then have "no_resources (sys_s z)" using inv(1) by (simp add: wg_inv_def)
    with step_Connect(2) True have "told s"
    proof (cases rule: Connect_cases)
      case (tried s2 s3 ok w3 s4 d)
      then show ?thesis using told_Fail by metis
    qed (use inv in simp)
    then show ?thesis using step_Connect(1) by simp
  next
    case False
    then have "s = sys_s z" using step_Connect(2) by (auto simp: wg_Connect_def idle_state_def)
    then show ?thesis using step_Connect(1) inv(2) by simp
  qed
next
  case (step_Disconnect io r s w fs)
  obtain s1 w1 fs1 where c: "wg_Cleanup exec io ((sys_s z)\<lparr> wbStopRequested := True \<rparr>) (sys_w z) (sys_fs z) = (s1, w1, fs1)"
    by (metis prod.exhaust)
  have "told ((sys_s z)\<lparr> wbStopRequested := True \<rparr>)" using inv(2) by (simp add: told_def)
  then have "told s" using step_Disconnect(2) inv(2) c by (auto simp: wg_Disconnect_def Let_def split: if_splits)
  then show ?thesis using step_Disconnect(1) by simp
next
  case (step_Dispatch m q io s w fs)
  then show ?thesis using told_MessageReceived inv(2) by simp
next
  case (step_HsFail i h s)
  then show ?thesis using told_quiet [OF quiet_shell [OF handshake_shell [of "sys_s z" os h]]] inv(2) by simp
next
  case (step_HsOk i h s now)
  then show ?thesis
    using told_quiet [OF quiet_shell [OF same_shell_trans [OF handshake_shell [of "sys_s z" os h] engine_shell(3)]]] inv(2) by simp
next
  case (step_Iterate v inp s v' fx)
  then show ?thesis using told_quiet [OF quiet_shell [OF iteration_shell [of "sys_s z" os inp v]]] inv(2) by simp
next
  case (step_LoopEnds v inp s v' fx)
  then show ?thesis using told_quiet [OF quiet_shell [OF iteration_shell [of "sys_s z" os inp v]]] inv(2) by simp
qed (use inv in simp_all)

lemma wg_reach_inv: "wg_reach os exec listing ios (wg_start observer w fs) z \<Longrightarrow> wg_inv z \<and> told (sys_s z)"
proof (induction rule: wg_reach.induct)
  case reach_init
  then show ?case using wg_inv_start
    by (simp add: told_def wg_start_def WireGuardBackend_def wg_engine.defs latest_state_def)
qed (use wg_inv_step told_step in blast)

lemma wg_reach_routes:
  assumes "tools exec listing table" "wg_reach os exec listing ios (wg_start observer w fs) z"
  shows "wg_route_inv (table w) (sys_s z) (table (sys_w z))"
  using assms(2)
proof (induction rule: wg_reach.induct)
  case reach_init
  show ?case by (simp add: wg_route_inv_def wg_start_def WireGuardBackend_def wg_engine.defs restored_def carrier_def lasting_def)
next
  case (reach_step z z')
  have "wg_inv z" using wg_reach_inv [OF reach_step.hyps(1)] by simp
  from route_inv_step [OF assms(1) reach_step.hyps(2) this reach_step.IH] show ?case .
qed


text \<open>An example: a full tunnel to one peer.\<close>

definition session_config :: WireGuardConfig where
  "session_config = \<lparr> privateKey = replicate 43 CHR ''A'' @ ''='', address = ''10.2.0.2/32'', dns = ''10.2.0.1'', listenPort = 0,
     mtu = 0, peer = \<lparr> publicKey = replicate 43 CHR ''A'' @ ''='', presharedKey = [], endpointHost = ''h'', endpointPort = 1,
       allowedIPs = ''0.0.0.0/0'', persistentKeepalive = 0 \<rparr> \<rparr>"

definition session_text :: string where
  "session_text = join_lines [''[Interface]'', ''PrivateKey='' @ replicate 43 CHR ''A'' @ ''='', ''Address=10.2.0.2/32'', ''DNS=10.2.0.1'',
     ''[Peer]'', ''PublicKey='' @ replicate 43 CHR ''A'' @ ''='', ''Endpoint=h:1'', ''AllowedIPs=0.0.0.0/0'']"

lemma session_parsed: "ParseText session_text WireGuardConfig = session_config"
  by code_simp

lemma session_key: "base64_decode 32 (replicate 43 CHR ''A'' @ ''='') = (True, replicate 32 0)"
  by code_simp


definition session_env :: conn_env where
  "session_env = \<lparr> looper_attached = True, read_file = (\<lambda>p. Some session_text), host_ipv4 = (\<lambda>h. Some 0x01020304),
     socket_ok = True, connect_ok = True, tun_open_ok = True, spawn_ok = True \<rparr>"

definition session_profile :: VPNProfile where
  "session_profile = VPNProfile\<lparr> fConfigPath := ''wg0'' \<rparr>"

definition session_start :: "route set wg_sys" where
  "session_start = wg_start True {eth_default} [kResolvConf \<mapsto> ''nameserver 10.0.0.1'']"

lemma session_probe: "ProbeFreeSlot sim_exec {eth_default} = (Some (''tun/0'', ''/dev/tun/0''), {eth_default})"
  by (simp add: ProbeFreeSlot_def upt_conv_Cons sim_show_0 RunIfconfig_def sim_exec_def eth_default_def Let_def Collect_conv_if)

lemma session_cidrs: "fst (ParseAllowedIPs ''0.0.0.0/0'') = [\<lparr> ar_net = ''0.0.0.0'', ar_mask = ''0.0.0.0'', isDefault = True \<rparr>]"
  by code_simp

lemma session_connect:
  "\<exists>s. wg_Connect sim_exec io session_env session_profile (sys_s session_start) {eth_default} (sys_fs session_start)
         = (B_OK, s, {eth_default}, sys_fs session_start)
     \<and> wbConfig s = session_config \<and> wbTunInterface s = ''tun/0'' \<and> \<not> wbRoutesInstalled s \<and> \<not> wbStopRequested s
     \<and> wePrivateKey s = replicate 32 0 \<and> wePeerPublicKey s = replicate 32 0 \<and> \<not> weHavePresharedKey s"
proof -
  have idle: "idle_state (wbState (sys_s session_start))"
    by (simp add: session_start_def wg_start_def WireGuardBackend_def wg_engine.defs idle_state_def)
  have conf: "ParseFile (read_file session_env) (fConfigPath session_profile) WireGuardConfig = Some session_config"
    by (simp add: ParseFile_def session_env_def session_profile_def session_parsed)
  have full: "IsComplete session_config" by (simp add: IsComplete_def session_config_def)
  have key: "DecodeKeys s = (s\<lparr> wePrivateKey := replicate 32 0, wePeerPublicKey := replicate 32 0, weHavePresharedKey := False \<rparr>, True)"
    if "wbConfig s = session_config" "length (wePrivateKey s) = 32" "length (wePeerPublicKey s) = 32" for s :: wg_backend
    using that by (simp add: DecodeKeys_def session_config_def session_key write_key_def)
  have tun: "tun_address session_config = ''10.2.0.2''" by code_simp
  have bring: "wg_BringUpTun sim_exec s {eth_default}
      = (s\<lparr> wbTunInterface := ''tun/0'', wbTunNode := ''/dev/tun/0'', wbTunSelfIP := ''10.2.0.2'' \<rparr>, True, {eth_default})"
    if "wbConfig s = session_config" for s
    using that by (simp add: wg_BringUpTun_def session_probe tun RunIfconfig_def sim_exec_def Let_def)
  have env: "fConfigPath session_profile \<noteq> []" "looper_attached session_env" "spawn_ok session_env"
    "wg_OpenUdpSocket session_env s = (s\<lparr> wbEndpointIP := dotted 0x01020304, wbUdpSocket := True \<rparr>, True)"
    "wg_OpenTunFd session_env s = (s\<lparr> wbTunFd := True \<rparr>, True)" for s
    by (simp_all add: session_profile_def session_env_def wg_OpenUdpSocket_def wg_OpenTunFd_def)
  have init: "length (wePrivateKey (sys_s session_start)) = 32" "length (wePeerPublicKey (sys_s session_start)) = 32"
    "\<not> wbRoutesInstalled (sys_s session_start)"
    by (simp_all add: session_start_def wg_start_def WireGuardBackend_def wg_engine.defs wg_engine_init_def)
  show ?thesis
    by (simp add: wg_Connect_def idle [unfolded idle_state_def] conf full key bring env init wg_StartReader_def wg_SetState_def)
qed


definition session_hs :: "bytes \<Rightarrow> hs_input" where
  "session_hs m = \<lparr> hi_keygen = Some (replicate 32 3, replicate 32 3), hi_time = 13, hi_random = Some 11, hi_send_ok = True,
     hi_net = [Some m] \<rparr>"

lemma session_handshake:
  assumes "wePrivateKey s = replicate 32 0" "wePeerPublicKey s = replicate 32 0" "\<not> weHavePresharedKey s"
  shows "\<exists>m s'. handshake_of toy_openssl (session_hs m) s = (s', True)"
proof -
  note k = toy_keypair [of "replicate 32 0"] toy_keypair [of "replicate 32 3"] toy_keypair [of "replicate 32 4"]
  obtain s1 m1 m2 s2 where h: "wg_initiation toy_openssl s (Some (replicate 32 3, replicate 32 3)) 13 (Some 11) = (s1, Some m1)"
    "length m2 = 92" "m2 ! 0 = 2" "wg_response toy_openssl s1 m2 = (s2, True)"
    using interop_handshake [of toy_openssl s "replicate 32 0" "replicate 32 0" "replicate 32 3" "replicate 32 3"
        "replicate 32 4" "replicate 32 4" 13 11 WGPeer 12 14] toy_aead_laws toy_dh_laws k assms by auto
  have "wait_response 64 (map Some [] @ Some m2 # []) = (Some m2, [])" by (rule wait_response_skips) (use h in auto)
  then have "handshake_of toy_openssl (session_hs m2) s = (s2, True)"
    by (simp add: handshake_of_def session_hs_def PerformHandshake_def h(1,4))
  then show ?thesis by blast
qed

lemma session_connected:
  assumes io: "io \<in> ios"
  shows "\<exists>z. wg_reach toy_openssl sim_exec sim_listing ios session_start z \<and> wbState (sys_s z) = VPN_STATE_CONNECTED
     \<and> wbRoutesInstalled (sys_s z) \<and> wbReplacedDefault (sys_s z)"
proof -
  let ?fs = "sys_fs session_start"
  obtain s where c: "wg_Connect sim_exec io session_env session_profile (sys_s session_start) {eth_default} ?fs = (B_OK, s, {eth_default}, ?fs)"
    and s: "wbConfig s = session_config" "wbTunInterface s = ''tun/0''" "\<not> wbRoutesInstalled s" "\<not> wbStopRequested s"
    and k: "wePrivateKey s = replicate 32 0" "wePeerPublicKey s = replicate 32 0" "\<not> weHavePresharedKey s"
    using session_connect [of io] by metis
  have w0: "sys_w session_start = {eth_default}" "sys_q session_start = []" by (simp_all add: session_start_def wg_start_def)
  define z1 where "z1 = session_start\<lparr> sys_s := s, sys_w := {eth_default}, sys_fs := ?fs, sys_rd := Some (Handshaking 0) \<rparr>"
  have r1: "wg_reach toy_openssl sim_exec sim_listing ios session_start z1"
    using reach_step [OF reach_init step_Connect [where z = session_start], of sim_exec io session_env session_profile B_OK s "{eth_default}" ?fs ios] c w0 io
    by (simp add: z1_def)
  obtain m s' where h: "handshake_of toy_openssl (session_hs m) s = (s', True)" using session_handshake [OF k] by blast
  let ?f = "fresh_session s'"
  have sh: "same_shell s ?f" using same_shell_trans [OF handshake_shell [of s toy_openssl "session_hs m"] engine_shell(3)] h by simp
  define z2 where "z2 = z1\<lparr> sys_s := ?f, sys_rd := Some (Forwarding (wg_loop_init 0)), sys_q := sys_q z1 @ [WgConnected] \<rparr>"
  have r2: "wg_reach toy_openssl sim_exec sim_listing ios session_start z2"
    using reach_step [OF r1 step_HsOk [of z1 0 toy_openssl "session_hs m" s']] h s(4)
    by (simp add: z1_def z2_def kHandshakeAttempts_def)
  let ?s = "?f\<lparr> wbOrigGateway := ''10.0.0.1'', wbOrigGatewayIface := ''eth0'', wbReplacedDefault := True \<rparr>"
  obtain w3 fs3 where i: "wg_InstallRoutes sim_exec sim_listing io ?f {eth_default} ?fs = (?s\<lparr> wbRoutesInstalled := True \<rparr>, w3, fs3)"
    using s by (simp add: wg_InstallRoutes_def cidrs_def any_default_def same_shell_fields [OF sh] session_config_def session_cidrs
        sim_gateway Let_def)
  have q2: "sys_q z2 = [WgConnected]" "sys_s z2 = ?f" "sys_w z2 = {eth_default}" "sys_fs z2 = ?fs" by (simp_all add: z2_def z1_def w0)
  from reach_step [OF r2 step_Dispatch [OF q2(1) _ io]] show ?thesis using i q2(2-4) by fastforce
qed


subsection \<open>The resolver file\<close>

text \<open>The original file, in its place or in the backup.\<close>

definition dns_kept :: "conf_files \<Rightarrow> conf_files \<Rightarrow> bool" where
  "dns_kept fs0 fs \<longleftrightarrow> fs = fs0 \<or> (\<exists>x. fs = fs0(kResolvBackup := fs0 kResolvConf, kResolvConf := x))"

definition dns_inv :: "conf_files \<Rightarrow> wg_backend \<Rightarrow> conf_files \<Rightarrow> bool" where
  "dns_inv fs0 s fs \<longleftrightarrow> (if wbRoutesInstalled s \<and> wbReplacedDefault s then dns_kept fs0 fs else fs = fs0)"

lemma resolv_names [simp]: "kResolvConf \<noteq> kResolvBackup" "kResolvBackup \<noteq> kResolvConf"
  by (simp_all add: kResolvConf_def kResolvBackup_def)

lemma dns_kept_op:
  assumes "fs0 kResolvConf = Some c" "dns_kept fs0 fs" "oper \<noteq> SaveOriginal \<and> fs kResolvBackup \<noteq> None \<or> oper = SaveOriginal \<and> fs = fs0"
    and "fs0 kResolvBackup = None"
  shows "dns_kept fs0 (run_file_op oper fs) \<and> run_file_op oper fs kResolvBackup \<noteq> None"
proof (cases oper)
  case SaveOriginal
  then have "run_file_op oper fs = fs0(kResolvBackup := fs0 kResolvConf, kResolvConf := None)"
    using assms by (simp add: rename_def)
  then show ?thesis using assms(1) unfolding dns_kept_def by auto
next
  case EraseConf
  then show ?thesis using assms by (auto simp: dns_kept_def fun_upd_idem_iff)
next
  case (WriteConf x)
  then show ?thesis using assms by (auto simp: dns_kept_def fun_upd_idem_iff)
qed

lemma dns_kept_ops:
  assumes "fs0 kResolvConf = Some c" "fs0 kResolvBackup = None" "dns_kept fs0 fs" "fs kResolvBackup \<noteq> None" "SaveOriginal \<notin> set ops"
  shows "dns_kept fs0 (fold run_file_op ops fs)"
  using assms(3-5)
proof (induction ops arbitrary: fs)
  case (Cons oper ops)
  then show ?case using dns_kept_op [OF assms(1) Cons.prems(1) _ assms(2), of oper] by auto
qed simp

lemma dns_kept_apply:
  assumes "fs0 kResolvConf = Some c" "fs0 kResolvBackup = None" "dns_kept fs0 fs" and io: "rs_rename_ok io"
  shows "dns_kept fs0 (fold run_file_op (take k (apply_dns_ops io d fs)) fs)"
proof (cases "fs kResolvBackup = None")
  case False
  then have "SaveOriginal \<notin> set (apply_dns_ops io d fs)" by (simp add: apply_dns_ops_def Let_def)
  then have "SaveOriginal \<notin> set (take k (apply_dns_ops io d fs))" by (meson in_set_takeD)
  then show ?thesis by (rule dns_kept_ops [OF assms(1-3) False])
next
  case True
  then have fs: "fs = fs0" using assms by (auto simp: dns_kept_def)
  let ?w = "if rs_open_ok io then [EraseConf, WriteConf (take (rs_written io) (dns_content (nameserver d)))] else []"
  show ?thesis
  proof (cases "k = 0 \<or> nameserver d = []")
    case True
    then show ?thesis using assms(3) by (auto simp: apply_dns_ops_def Let_def)
  next
    case go: False
    then obtain k' where "k = Suc k'" by (cases k) auto
    then have "fold run_file_op (take k (apply_dns_ops io d fs)) fs = fold run_file_op (take k' ?w) (run_file_op SaveOriginal fs)"
      using True go io by (simp add: apply_dns_ops_def Let_def)
    moreover have "SaveOriginal \<notin> set (take k' ?w)" using set_take_subset [of k' ?w] by auto
    moreover have "dns_kept fs0 (run_file_op SaveOriginal fs) \<and> run_file_op SaveOriginal fs kResolvBackup \<noteq> None"
      using dns_kept_op [OF assms(1,3) _ assms(2), of SaveOriginal] fs by simp
    ultimately show ?thesis using dns_kept_ops [OF assms(1,2)] by simp
  qed
qed

lemma dns_kept_restore:
  assumes "fs0 kResolvConf = Some c" "fs0 kResolvBackup = None" "dns_kept fs0 fs" "rs_restore_ok io"
  shows "RestoreDns io fs = fs0"
  using assms by (auto simp: dns_kept_def RestoreDns_def rename_def fun_eq_iff)

lemma ApplyDns_take: "ApplyDns io d fs = fold run_file_op (take (length (apply_dns_ops io d fs)) (apply_dns_ops io d fs)) fs"
  by (simp add: ApplyDns_def)

text \<open>The two renames of the resolver file work.\<close>

definition renames_ok :: "resolv_io \<Rightarrow> bool" where
  "renames_ok io \<longleftrightarrow> rs_rename_ok io \<and> rs_restore_ok io"

lemma RemoveRoutes_dns:
  assumes "fs0 kResolvConf = Some c" "fs0 kResolvBackup = None" "renames_ok io" "dns_inv fs0 s fs" "wg_Cleanup exec io s w fs = (s', w', fs')"
  shows "fs' = fs0"
proof -
  have "RestoreDns io fs0 = fs0" using assms(2) by (simp add: RestoreDns_def)
  moreover have "fs' = (if wbRoutesInstalled s then RestoreDns io fs else fs)"
    using assms(5) by (auto simp: wg_Cleanup_def wg_RemoveRoutes_def Let_def split_beta split: if_splits)
  ultimately show ?thesis
    using assms(3,4) dns_kept_restore [OF assms(1,2)] by (auto simp: dns_inv_def renames_ok_def split: if_splits)
qed

lemma dns_inv_idle: "no_resources s \<Longrightarrow> dns_inv fs0 s fs \<longleftrightarrow> fs = fs0"
  by (simp add: no_resources_def dns_inv_def)

lemma InstallRoutes_dns:
  assumes fs0: "fs0 kResolvConf = Some c" "fs0 kResolvBackup = None" "renames_ok io" and inv: "dns_inv fs0 s fs"
    and i: "wg_InstallRoutes exec listing io s w fs = (s', w', fs')"
  shows "dns_inv fs0 s' fs'"
proof (cases "wbRoutesInstalled s \<or> cidrs s = []")
  case True
  then have "wg_InstallRoutes exec listing io s w fs = (s, w, fs)" unfolding wg_InstallRoutes_def by (elim disjE) simp_all
  then show ?thesis using inv i by simp
next
  case False
  then have fs: "fs = fs0" using inv by (simp add: dns_inv_def)
  have "dns_kept fs0 fs0" by (simp add: dns_kept_def)
  then have kept: "dns_kept fs0 (ApplyDns io d fs0)" for d unfolding ApplyDns_take using fs0 by (intro dns_kept_apply) (simp_all add: renames_ok_def)
  have "wbRoutesInstalled s' \<and> (if wbReplacedDefault s' then \<exists>d. fs' = ApplyDns io d fs else fs' = fs) \<or> \<not> wbRoutesInstalled s' \<and> fs' = fs"
    using i False unfolding wg_InstallRoutes_def Let_def by (auto split: if_splits option.splits)
  then show ?thesis using kept fs by (auto simp: dns_inv_def split: if_splits)
qed

lemma dns_inv_shell: "same_shell s s' \<Longrightarrow> dns_inv fs0 s' fs = dns_inv fs0 s fs"
  by (simp add: dns_inv_def same_shell_fields)

lemma MessageReceived_dns:
  assumes fs0: "fs0 kResolvConf = Some c" "fs0 kResolvBackup = None" "renames_ok io" and inv: "dns_inv fs0 s fs" and ses: "in_session s"
    and m: "wg_MessageReceived exec listing io m s w fs = (s', w', fs')"
  shows "dns_inv fs0 s' fs'"
proof (cases m)
  case WgConnected
  obtain s1 w1 fs1 where i: "wg_InstallRoutes exec listing io s w fs = (s1, w1, fs1)" by (metis prod.exhaust)
  show ?thesis using m i WgConnected InstallRoutes_dns [OF fs0 inv i] by (auto simp: dns_inv_def)
next
  case (WgStats a b)
  then show ?thesis using m inv by (auto simp: dns_inv_def Let_def)
next
  case (WgReaderExited detail)
  obtain s1 w1 fs1 where c: "wg_Cleanup exec io s w fs = (s1, w1, fs1)" by (metis prod.exhaust)
  have "no_resources s'" using MessageReceived_result [OF m ses] WgReaderExited by (simp add: exit_msg_def)
  moreover have "fs' = fs1" using m c WgReaderExited by auto
  ultimately show ?thesis using RemoveRoutes_dns [OF fs0 inv c] dns_inv_idle by simp
qed

lemma Fail_dns:
  "fs0 kResolvConf = Some c \<Longrightarrow> fs0 kResolvBackup = None \<Longrightarrow> renames_ok io \<Longrightarrow> \<not> wbRoutesInstalled s \<Longrightarrow>
   wg_Fail exec io d s w fs0 = (r, s', w', fs') \<Longrightarrow> fs' = fs0"
  using RemoveRoutes_dns [of fs0 c io s fs0 exec w] by (cases "wg_Cleanup exec io s w fs0") (auto simp: wg_Fail_def dns_inv_def)

lemma idle_dns:
  assumes fs0: "fs0 kResolvConf = Some c" "fs0 kResolvBackup = None" "renames_ok io" and s: "no_resources s" "idle_state (wbState s)"
  shows "wg_Connect exec io env p s w fs0 = (r, s', w', fs') \<Longrightarrow> dns_inv fs0 s' fs'"
    "wg_Disconnect exec io s w fs0 = (r, s', w', fs') \<Longrightarrow> dns_inv fs0 s' fs'"
proof -
  assume "wg_Connect exec io env p s w fs0 = (r, s', w', fs')"
  then show "dns_inv fs0 s' fs'" using s(2,1)
  proof (cases rule: Connect_cases)
    case (tried s2 s3 ok w3 s4 d)
    from tried(8) show ?thesis
    proof
      assume f: "wg_Fail exec io d s4 w3 fs0 = (r, s', w', fs')"
      then show ?thesis using Fail_dns [OF fs0 tried(5) f] Fail_result [OF f] tried(6) dns_inv_idle by simp
    qed (use tried(5) in \<open>simp add: dns_inv_def\<close>)
  qed (simp add: dns_inv_idle)
next
  assume d: "wg_Disconnect exec io s w fs0 = (r, s', w', fs')"
  obtain s1 w1 fs1 where c: "wg_Cleanup exec io (s\<lparr> wbStopRequested := True \<rparr>) w fs0 = (s1, w1, fs1)" by (metis prod.exhaust)
  have "fs1 = fs0" using RemoveRoutes_dns [OF fs0 _ c] s(1) by (simp add: dns_inv_def no_resources_def)
  then have "fs' = fs0" using d c s(1) by (auto simp: wg_Disconnect_def no_resources_def split: if_splits)
  then show "dns_inv fs0 s' fs'" using Disconnect_result(1) [OF d s(1)] dns_inv_idle by simp
qed

lemma dns_step:
  assumes fs0: "fs0 kResolvConf = Some c" "fs0 kResolvBackup = None" and ok: "\<forall>io \<in> ios. renames_ok io"
    and st: "wg_step os exec listing ios z z'" and inv: "wg_inv z" "dns_inv fs0 (sys_s z) (sys_fs z)"
  shows "dns_inv fs0 (sys_s z') (sys_fs z')"
proof (cases "idle_state (wbState (sys_s z))")
  case True
  then have nr: "no_resources (sys_s z)" "sys_rd z = None" "sys_q z = []" using inv(1) by (auto simp: wg_inv_def queue_inv_def)
  have "sys_fs z = fs0" using inv(2) nr(1) dns_inv_idle by blast
  note i = idle_dns [OF fs0 _ nr(1) True]
  from st show ?thesis
  proof cases
    case (step_Connect io env p r s w fs)
    then show ?thesis using i(1) [of io exec env p "sys_w z" r s w fs] ok \<open>sys_fs z = fs0\<close> by simp
  next
    case (step_Disconnect io r s w fs)
    then show ?thesis using i(2) [of io exec "sys_w z" r s w fs] ok \<open>sys_fs z = fs0\<close> by simp
  qed (use nr in simp_all)
next
  case False
  then have ses: "in_session (sys_s z)" using inv(1) by (simp add: wg_inv_def)
  from st show ?thesis
  proof cases
    case (step_Connect io env p r s w fs)
    then show ?thesis using False inv(2) by (auto simp: wg_Connect_def idle_state_def)
  next
    case (step_Disconnect io r s w fs)
    then show ?thesis using Disconnect_result(2) [OF step_Disconnect(2) ses] inv(2) by (simp add: dns_inv_def)
  next
    case (step_Dispatch m q io s w fs)
    then show ?thesis using MessageReceived_dns [OF fs0 _ inv(2) ses step_Dispatch(3)] ok by simp
  next
    case (step_HsFail i h s)
    then show ?thesis using dns_inv_shell [of "sys_s z" s] handshake_shell [of "sys_s z" os h] inv(2) by simp
  next
    case (step_HsOk i h s now)
    then show ?thesis using dns_inv_shell [OF same_shell_trans [OF handshake_shell [of "sys_s z" os h] engine_shell(3)]] inv(2) by simp
  next
    case (step_Iterate v inp s v' fx)
    then show ?thesis using dns_inv_shell [of "sys_s z" s] iteration_shell [of "sys_s z" os inp v] inv(2) by simp
  next
    case (step_LoopEnds v inp s v' fx)
    then show ?thesis using dns_inv_shell [of "sys_s z" s] iteration_shell [of "sys_s z" os inp v] inv(2) by simp
  qed (use inv in simp_all)
qed

lemma wg_reach_dns:
  assumes "fs kResolvConf = Some c" "fs kResolvBackup = None" "\<forall>io \<in> ios. renames_ok io"
    "wg_reach os exec listing ios (wg_start observer w fs) z"
  shows "dns_inv fs (sys_s z) (sys_fs z)"
  using assms(4)
proof (induction rule: wg_reach.induct)
  case reach_init
  then show ?case by (simp add: dns_inv_def wg_start_def WireGuardBackend_def wg_engine.defs)
next
  case (reach_step z z')
  have "wg_inv z" using wg_reach_inv [OF reach_step.hyps(1)] by simp
  from dns_step [OF assms(1-3) reach_step.hyps(2) this reach_step.IH] show ?case .
qed


subsection \<open>Properties\<close>

text \<open>
  C6. In every state the backend can reach, whatever the interleaving of the daemon's looper and the
  reader thread, the published state and the resources agree: while \<open>Disconnected\<close> or \<open>Error\<close> there is
  no reader thread, no socket, no open tunnel, no interface, no installed route and no pending message;
  otherwise a session holds reader, socket, descriptor and interface, in state \<open>Connecting\<close> or
  \<open>Connected\<close>, with routes installed only when \<open>Connected\<close>.  The reader's exit message is pending
  exactly once from its last act until the looper handles it, and never otherwise.  The last status
  message the observer got announces the current state.
\<close>

theorem wg_lifecycle:
  assumes "wg_reach os exec listing ios (wg_start observer w fs) z"
  shows "(if idle_state (wbState (sys_s z)) then no_resources (sys_s z) \<and> sys_rd z = None \<and> sys_q z = []
      else in_session (sys_s z) \<and> sys_rd z \<noteq> None)
    \<and> length (filter exit_msg (sys_q z)) = (if sys_rd z = Some ReaderDone then 1 else 0)
    \<and> (wbObserver (sys_s z) \<longrightarrow> latest_state (wbOutbox (sys_s z)) = wbState (sys_s z))"
  using wg_reach_inv [OF assms] queue_exits [of "sys_rd z" "sys_q z"]
  by (auto simp: wg_inv_def told_def queue_inv_def)

theorem wg_lifecycle_witness:
  "\<exists>z. wg_reach toy_openssl sim_exec sim_listing UNIV session_start z \<and> wbState (sys_s z) = VPN_STATE_CONNECTED \<and> in_session (sys_s z)"
proof -
  obtain z where z: "wg_reach toy_openssl sim_exec sim_listing UNIV session_start z" "wbState (sys_s z) = VPN_STATE_CONNECTED"
    using session_connected [OF UNIV_I] by blast
  from wg_lifecycle [OF z(1) [unfolded session_start_def]] show ?thesis using z by (auto simp: idle_state_def)
qed

text \<open>
  C14. The routes of a WireGuard session come and go as one.  While they are installed, every IPv4
  route of \<open>AllowedIPs\<close> goes into the tunnel (the code skips IPv6 entries), the endpoint is pinned to the
  old gateway when its address and a gateway are known, and a replaced default route is gone; whenever
  they are not installed, in particular after every disconnect, failure or exit of the reader, the
  routes of the interfaces other than \<open>tun/*\<close> are those from before, host routes excepted: none was
  added, and none but a host route was lost.  Host routes (mask \<open>255.255.255.255\<close>) are not covered
  because the pin may coincide with one and takes it along; neither are other \<open>tun/*\<close> interfaces.  The
  tools are assumed to do what they are asked; the code does not look at their results.
\<close>

theorem wg_routes_restored:
  assumes "tools exec listing table" "wg_reach os exec listing ios (wg_start observer w fs) z"
  shows "(wbRoutesInstalled (sys_s z) \<longrightarrow> wbState (sys_s z) = VPN_STATE_CONNECTED \<and> wg_taken (table w) (sys_s z) (table (sys_w z)))
    \<and> (\<not> wbRoutesInstalled (sys_s z) \<longrightarrow> restored (table w) (table (sys_w z)))
    \<and> (idle_state (wbState (sys_s z)) \<longrightarrow> \<not> wbRoutesInstalled (sys_s z))"
  using wg_reach_routes [OF assms] wg_reach_inv [OF assms(2)]
  by (auto simp: wg_route_inv_def wg_inv_def no_resources_def in_session_def split: if_splits)

theorem wg_routes_restored_witness:
  "\<exists>z. wg_reach toy_openssl sim_exec sim_listing UNIV session_start z \<and> wbReplacedDefault (sys_s z)
     \<and> wg_taken {eth_default} (sys_s z) (sys_w z) \<and> wg_orig (sys_s z) \<notin> sys_w z"
proof -
  obtain z where z: "wg_reach toy_openssl sim_exec sim_listing UNIV session_start z" "wbRoutesInstalled (sys_s z)" "wbReplacedDefault (sys_s z)"
    using session_connected [OF UNIV_I] by blast
  from wg_routes_restored [OF sim_tools z(1) [unfolded session_start_def]] have "wg_taken {eth_default} (sys_s z) (sys_w z)"
    using z(2) by blast
  then show ?thesis using z by (auto simp: wg_taken_def)
qed

text \<open>
  C15. The resolver file survives.  If \<open>resolv.conf\<close> exists and no backup is left over when the daemon
  starts, and the renames of the file work, then in every reachable state, and also when the process
  dies after any number of the file operations of \<open>_ApplyDns\<close> there, \<open>RecoverIfCrashed\<close> of the next
  start brings back exactly the files from before; and in an idle state they are already back.  Opening
  the new file may fail, and writing it may fail or stop anywhere.  (Lemma \<open>failed_rename_destroys\<close>: a
  failing first rename is not noticed, and the original is lost.)
\<close>

theorem wg_dns_survives:
  assumes "fs kResolvConf = Some c" "fs kResolvBackup = None" "\<forall>io \<in> ios. renames_ok io"
    and "wg_reach os exec listing ios (wg_start observer w fs) z" "io \<in> ios" "io' \<in> ios"
  shows "wg_RecoverIfCrashed io' (fold run_file_op (take k (apply_dns_ops io d (sys_fs z))) (sys_fs z)) = fs
    \<and> (idle_state (wbState (sys_s z)) \<longrightarrow> sys_fs z = fs)"
proof -
  have ok: "rs_rename_ok io" "rs_restore_ok io'" using assms(3,5,6) by (simp_all add: renames_ok_def)
  have "dns_inv fs (sys_s z) (sys_fs z)" by (rule wg_reach_dns [OF assms(1-4)])
  moreover from this have "dns_kept fs (sys_fs z)" by (auto simp: dns_inv_def dns_kept_def split: if_splits)
  ultimately show ?thesis
    using dns_kept_restore [OF assms(1,2) dns_kept_apply [OF assms(1,2) _ ok(1)] ok(2)] wg_reach_inv [OF assms(4)]
    by (auto simp: wg_RecoverIfCrashed_def wg_inv_def dns_inv_idle)
qed

text \<open>The renames work; opening fails or not, and a write stores anything from nothing to everything.\<close>

definition session_ios :: "resolv_io set" where
  "session_ios = {io. renames_ok io}"

definition session_io :: resolv_io where
  "session_io = \<lparr> rs_rename_ok = True, rs_open_ok = True, rs_written = 7, rs_restore_ok = True \<rparr>"

lemma session_io_ok: "session_io \<in> session_ios" "\<forall>io \<in> session_ios. renames_ok io"
  by (simp_all add: session_io_def session_ios_def renames_ok_def)

theorem wg_dns_survives_witness:
  "\<exists>z. wg_reach toy_openssl sim_exec sim_listing session_ios session_start z \<and> wbReplacedDefault (sys_s z)
     \<and> wg_RecoverIfCrashed session_io (fold run_file_op (take 1 (apply_dns_ops session_io ''9.9.9.9'' (sys_fs z))) (sys_fs z)) kResolvConf
         = Some ''nameserver 10.0.0.1''"
proof -
  obtain z where z: "wg_reach toy_openssl sim_exec sim_listing session_ios session_start z" "wbReplacedDefault (sys_s z)"
    using session_connected [OF session_io_ok(1)] by blast
  from wg_dns_survives [OF _ _ session_io_ok(2) z(1) [unfolded session_start_def] session_io_ok(1) session_io_ok(1),
      where c = "''nameserver 10.0.0.1''" and k = 1 and d = "''9.9.9.9''"]
  show ?thesis using z by auto
qed

text \<open>
  When the first rename fails, as on a full volume or a read-only directory entry, and the file can
  still be opened, the code writes over the original, and nothing is left to restore it from.
\<close>

lemma failed_rename_destroys:
  assumes "fs kResolvBackup = None" "\<not> rs_rename_ok io" "rs_open_ok io" "nameserver d \<noteq> []"
  shows "ApplyDns io d fs = fs(kResolvConf \<mapsto> take (rs_written io) (dns_content (nameserver d)))"
    "RestoreDns io' (ApplyDns io d fs) = ApplyDns io d fs"
  using assms by (simp_all add: ApplyDns_def apply_dns_ops_def RestoreDns_def Let_def)

text \<open>
  A handshake response with the right index that fails authentication, as anyone who sees the
  initiation can send during a rekey, leaves the old transport key in use and its own sender index as
  the receiver of every later packet.
\<close>

lemma forged_response_redirects:
  assumes "load32_le (drop 8 m) = weSenderIndex s" "wg_response os s m = (s', False)"
    and "wg_Encapsulate os s' p = (s'', wire)" "wire \<noteq> []"
  shows "weSendKey s' = weSendKey s" "slice 4 4 wire = store32_le (load32_le (drop 4 m))"
proof -
  have r: "weReceiverIndex s' = load32_le (drop 4 m) \<and> weSendKey s' = weSendKey s"
    using assms(1,2) by (auto simp: wg_response_def Let_def split_beta split: option.splits)
  then show "weSendKey s' = weSendKey s" by simp
  show "slice 4 4 wire = store32_le (load32_le (drop 4 m))"
    using assms(3,4) r by (auto simp: wg_Encapsulate_def slice_def Let_def split: if_splits option.splits)
qed

end
