(* ===== verification/ProfileStore.thy ===== *)
theory ProfileStore
  imports VPNTypes
begin

text \<open>
  \<open>src/src/server/ProfileStore.cpp\<close>: the daemon's list of profiles and its file.  The file system is
  reduced to the two files the store touches, \<open>profiles\<close> and its sibling \<open>profiles.tmp\<close>; the results
  of the system calls of one write are the record \<open>write_env\<close>.  \<open>BMessage::Flatten\<close> and \<open>Unflatten\<close> of
  the Haiku kit are the parameters \<open>flatten\<close> and \<open>unflatten\<close>, with the law \<open>flatten_law\<close> that one undoes
  the other.  Profiles can be saved, deleted, reloaded, and the daemon can die in the middle of a
  write: the file always holds the list of the last completed write.
\<close>

subsection \<open>The store\<close>

definition kFieldProfile :: string where "kFieldProfile = ''soto:profile''"

record 'c disk =
  d_main :: "'c option"
  d_tmp :: "'c option"

record write_env =
  we_settings :: status \<comment> \<open>\<open>_SettingsPath(&path, true)\<close>\<close>
  we_open :: status
  we_flatten :: status
  we_rename :: status

definition flatten_law :: "(bmessage \<Rightarrow> 'c) \<Rightarrow> ('c \<Rightarrow> bmessage option) \<Rightarrow> bool" where
  "flatten_law flatten unflatten \<longleftrightarrow> (\<forall>m. unflatten (flatten m) = Some m)"

fun ArchiveAll :: "VPNProfile list \<Rightarrow> bmessage \<Rightarrow> status \<times> bmessage" where
  "ArchiveAll [] into = (B_OK, into)"
| "ArchiveAll (p # ps) into =
     (let (r, a) = Archive p (BMessage []) in
      if r \<noteq> B_OK then (r, into)
      else let (r, into) = Add kFieldProfile (message_val a) into in
        if r \<noteq> B_OK then (r, into) else ArchiveAll ps into)"

text \<open>A failed \<open>Flatten\<close> or \<open>rename\<close> unlinks the temporary file.\<close>

definition WriteToDisk :: "(bmessage \<Rightarrow> 'c) \<Rightarrow> write_env \<Rightarrow> VPNProfile list \<Rightarrow> 'c disk \<Rightarrow> status \<times> 'c disk" where
  "WriteToDisk flatten env ps d =
     (if we_settings env \<noteq> B_OK then (we_settings env, d)
      else let (r, stored) = ArchiveAll ps (BMessage []) in
      if r \<noteq> B_OK then (r, d)
      else if we_open env \<noteq> B_OK then (we_open env, d)
      else if we_flatten env \<noteq> B_OK then (we_flatten env, d\<lparr> d_tmp := None \<rparr>)
      else if we_rename env \<noteq> B_OK then (we_rename env, d\<lparr> d_tmp := None \<rparr>)
      else (B_OK, d\<lparr> d_main := Some (flatten stored), d_tmp := None \<rparr>))"

text \<open>The files when the process dies during that write: before it, with any part of the new file in
  the temporary one, or after it.\<close>

inductive crashed_write :: "(bmessage \<Rightarrow> 'c) \<Rightarrow> VPNProfile list \<Rightarrow> 'c disk \<Rightarrow> 'c disk \<Rightarrow> bool" for flatten ps d where
  crash_before: "crashed_write flatten ps d d"
| crash_inside: "crashed_write flatten ps d (d\<lparr> d_tmp := Some part \<rparr>)"
| crash_after: "WriteToDisk flatten env ps d = (r, d') \<Longrightarrow> crashed_write flatten ps d d'"

fun upsert :: "VPNProfile \<Rightarrow> VPNProfile list \<Rightarrow> VPNProfile list" where
  "upsert p [] = [p]"
| "upsert p (q # qs) = (if fName q = fName p then p # qs else q # upsert p qs)"

fun erase_name :: "string \<Rightarrow> VPNProfile list \<Rightarrow> VPNProfile list" where
  "erase_name n [] = []"
| "erase_name n (q # qs) = (if fName q = n then qs else q # erase_name n qs)"

definition SaveProfile :: "(bmessage \<Rightarrow> 'c) \<Rightarrow> write_env \<Rightarrow> VPNProfile \<Rightarrow> VPNProfile list \<times> 'c disk \<Rightarrow> status \<times> VPNProfile list \<times> 'c disk" where
  "SaveProfile flatten env p = (\<lambda>(ps, d).
     if fName p = [] then (B_BAD_VALUE, ps, d)
     else let ps = upsert p ps; (r, d) = WriteToDisk flatten env ps d in (r, ps, d))"

definition DeleteProfile :: "(bmessage \<Rightarrow> 'c) \<Rightarrow> write_env \<Rightarrow> string \<Rightarrow> VPNProfile list \<times> 'c disk \<Rightarrow> status \<times> VPNProfile list \<times> 'c disk" where
  "DeleteProfile flatten env name = (\<lambda>(ps, d).
     if list_ex (\<lambda>p. fName p = name) ps
     then let ps = erase_name name ps; (r, d) = WriteToDisk flatten env ps d in (r, ps, d)
     else (B_OK, ps, d))"

text \<open>\<open>settings\<close> and \<open>open_error\<close> are the results of \<open>_SettingsPath\<close> and of an open that fails for another
  reason than a missing file; an unreadable file gives \<open>B_ERROR\<close>.\<close>

definition LoadProfiles :: "('c \<Rightarrow> bmessage option) \<Rightarrow> status \<Rightarrow> status \<Rightarrow> 'c disk \<Rightarrow> VPNProfile list \<Rightarrow> status \<times> VPNProfile list" where
  "LoadProfiles unflatten settings open_error d ps =
     (if settings \<noteq> B_OK then (settings, ps)
      else case d_main d of None \<Rightarrow> (B_OK, ps)
      | Some c \<Rightarrow>
          if open_error \<noteq> B_OK then (open_error, ps)
          else case unflatten c of None \<Rightarrow> (B_ERROR, ps)
          | Some stored \<Rightarrow>
              (B_OK, filter (\<lambda>p. fName p \<noteq> []) (map (\<lambda>a. Unarchive a VPNProfile) (FindMessages kFieldProfile stored))))"

subsection \<open>The archive of a list\<close>

definition strip :: "VPNProfile \<Rightarrow> VPNProfile" where
  "strip p = p\<lparr> fAuthKey := [] \<rparr>"

definition wf_profiles :: "VPNProfile list \<Rightarrow> bool" where
  "wf_profiles ps \<longleftrightarrow> distinct (map fName ps) \<and> (\<forall>p \<in> set ps. fName p \<noteq> [] \<and> known_backend (fBackendType p))"

lemma ArchiveAll_fields:
  assumes "\<forall>v \<in> set (values_of kFieldProfile m). same_type v (MessageV [] [])"
  shows "ArchiveAll ps m = (B_OK, m\<lparr> msg_fields := msg_fields m @ map (\<lambda>p. (kFieldProfile, MessageV [] (profile_fields p))) ps \<rparr>)"
  using assms
proof (induction ps arbitrary: m)
  case (Cons p ps)
  let ?v = "MessageV [] (profile_fields p)"
  have st: "same_type v ?v" if "(kFieldProfile, v) \<in> set (msg_fields m)" for v
  proof -
    have "v \<in> set (values_of kFieldProfile m)" using that by (force simp: values_of_def)
    then have "same_type v (MessageV [] [])" using Cons.prems by blast
    then show ?thesis by (cases v) auto
  qed
  have a: "Add kFieldProfile ?v m = (B_OK, m\<lparr> msg_fields := msg_fields m @ [(kFieldProfile, ?v)] \<rparr>)"
    using st by (auto simp: Add_def list_ex_iff)
  have "\<forall>v \<in> set (values_of kFieldProfile (m\<lparr> msg_fields := msg_fields m @ [(kFieldProfile, ?v)] \<rparr>)). same_type v (MessageV [] [])"
    using Cons.prems by auto
  from Cons.IH [OF this] show ?case by (simp add: Archive_fresh message_val_def a)
qed simp

lemma ArchiveAll_stored: "ArchiveAll ps (BMessage []) = (B_OK, \<lparr> what = [], msg_fields = map (\<lambda>p. (kFieldProfile, MessageV [] (profile_fields p))) ps \<rparr>)"
  using ArchiveAll_fields [of "BMessage []" ps] by (simp add: BMessage_def values_of_def)

lemma FindMessages_stored:
  "FindMessages n \<lparr> what = w, msg_fields = map (\<lambda>p. (n, MessageV [] (g p))) ps \<rparr> = map (\<lambda>p. \<lparr> what = [], msg_fields = g p \<rparr>) ps"
proof -
  have "values_of n \<lparr> what = w, msg_fields = map (\<lambda>p. (n, MessageV [] (g p))) ps \<rparr> = map (\<lambda>p. MessageV [] (g p)) ps"
    by (simp add: values_of_def comp_def)
  moreover have "takeWhile (\<lambda>v. same_type v (MessageV [] [])) (map (\<lambda>p. MessageV [] (g p)) ps) = map (\<lambda>p. MessageV [] (g p)) ps"
    by (induction ps) auto
  moreover have "concat (map (\<lambda>v. case v of MessageV w fs \<Rightarrow> [\<lparr> what = w, msg_fields = fs \<rparr>] | _ \<Rightarrow> []) (map (\<lambda>p. MessageV [] (g p)) ps))
      = map (\<lambda>p. \<lparr> what = [], msg_fields = g p \<rparr>) ps"
    by (induction ps) auto
  ultimately show ?thesis unfolding FindMessages_def by (simp only:)
qed

lemma stored_profile: "known_backend (fBackendType p) \<Longrightarrow> Unarchive \<lparr> what = [], msg_fields = profile_fields p \<rparr> VPNProfile = strip p"
  using profile_roundtrip [of p "[]" VPNProfile] by (simp add: Archive_fresh strip_def VPNProfile_def)

lemma Load_stored:
  assumes "flatten_law flatten unflatten" "wf_profiles ps" "d_main d = Some (flatten (snd (ArchiveAll ps (BMessage []))))"
  shows "LoadProfiles unflatten B_OK B_OK d qs = (B_OK, map strip ps)"
proof -
  have "map (\<lambda>p. Unarchive \<lparr> what = [], msg_fields = profile_fields p \<rparr> VPNProfile) ps = map strip ps"
    using assms(2) by (auto simp: wf_profiles_def stored_profile)
  moreover have "filter (\<lambda>p. fName p \<noteq> []) (map strip ps) = map strip ps"
    using assms(2) by (auto simp: wf_profiles_def strip_def filter_id_conv)
  ultimately show ?thesis
    using assms(1,3)
    by (simp add: LoadProfiles_def flatten_law_def ArchiveAll_stored FindMessages_stored comp_def del: map_eq_conv)
qed

lemma WriteToDisk_result:
  assumes "WriteToDisk flatten env ps d = (r, d')"
  shows "d_main d' = (if r = B_OK then Some (flatten (snd (ArchiveAll ps (BMessage [])))) else d_main d)"
  using assms by (auto simp: WriteToDisk_def ArchiveAll_stored split: if_splits)

subsection \<open>The list as a map from names\<close>

definition profile_map :: "VPNProfile list \<Rightarrow> string \<rightharpoonup> VPNProfile" where
  "profile_map ps n = find (\<lambda>p. fName p = n) ps"

lemma upsert_names: "set (map fName (upsert p ps)) = insert (fName p) (set (map fName ps))"
  by (induction ps) auto

lemma upsert_wf: "wf_profiles ps \<Longrightarrow> fName p \<noteq> [] \<Longrightarrow> known_backend (fBackendType p) \<Longrightarrow> wf_profiles (upsert p ps)"
proof (induction ps)
  case (Cons q ps)
  have "wf_profiles ps" using Cons.prems(1) by (simp add: wf_profiles_def)
  then have w: "wf_profiles (upsert p ps)" using Cons by blast
  show ?case
  proof (cases "fName q = fName p")
    case True
    then show ?thesis using Cons.prems by (auto simp: wf_profiles_def)
  next
    case False
    then have "fName q \<notin> set (map fName (upsert p ps))" using Cons.prems unfolding upsert_names by (auto simp: wf_profiles_def)
    then show ?thesis using False w Cons.prems by (auto simp: wf_profiles_def)
  qed
qed (simp add: wf_profiles_def)

lemma erase_subset: "set (erase_name n ps) \<subseteq> set ps"
  by (induction ps) auto

lemma erase_wf: "wf_profiles ps \<Longrightarrow> wf_profiles (erase_name n ps)"
proof (induction ps)
  case (Cons q ps)
  have "wf_profiles ps" using Cons.prems by (simp add: wf_profiles_def)
  then have w: "wf_profiles (erase_name n ps)" by (rule Cons.IH)
  then show ?case using Cons.prems erase_subset [of n ps] by (auto simp: wf_profiles_def)
qed (simp add: wf_profiles_def)

text \<open>The names are distinct and none is empty.\<close>

definition names_ok :: "VPNProfile list \<Rightarrow> bool" where
  "names_ok ps \<longleftrightarrow> distinct (map fName ps) \<and> [] \<notin> set (map fName ps)"

lemma upsert_names_ok: "names_ok ps \<Longrightarrow> fName p \<noteq> [] \<Longrightarrow> names_ok (upsert p ps)"
proof (induction ps)
  case (Cons q ps)
  then have w: "names_ok (upsert p ps)" by (simp add: names_ok_def)
  then show ?case using Cons.prems upsert_names [of p ps] unfolding names_ok_def
    by (cases "fName q = fName p") (auto simp: image_iff)
qed (simp add: names_ok_def)

lemma erase_names_ok: "names_ok ps \<Longrightarrow> names_ok (erase_name n ps)"
proof (induction ps)
  case (Cons q ps)
  then have "names_ok (erase_name n ps)" by (simp add: names_ok_def)
  then show ?case using Cons.prems erase_subset [of n ps] unfolding names_ok_def by auto
qed (simp add: names_ok_def)

lemma upsert_map: "profile_map (upsert p ps) = (profile_map ps)(fName p \<mapsto> p)"
  by (induction ps) (auto simp: profile_map_def fun_eq_iff)

lemma erase_map:
  "names_ok ps \<Longrightarrow> profile_map (erase_name n ps) = (profile_map ps)(n := None)"
proof (induction ps)
  case (Cons q ps)
  then have w: "names_ok ps" and q: "fName q \<notin> fName ` set ps" by (auto simp: names_ok_def)
  have "profile_map ps (fName q) = None" using q unfolding profile_map_def find_None_iff by (metis imageI)
  then show ?case using Cons.IH [OF w] by (auto simp: profile_map_def fun_eq_iff)
qed (simp add: profile_map_def fun_eq_iff)


subsection \<open>Histories of the store\<close>

text \<open>
  The list in memory, the files, and the list of the last completed write: saves and deletions with
  any outcome of the system calls, restarts, and deaths in the middle of a write with the restart
  that follows.
\<close>

definition fresh_disk :: "'c disk" where "fresh_disk = \<lparr> d_main = None, d_tmp = None \<rparr>"

definition mutated :: "VPNProfile list \<Rightarrow> VPNProfile list \<Rightarrow> bool" where
  "mutated ps ps' \<longleftrightarrow> (\<exists>p. ps' = upsert p ps \<and> fName p \<noteq> [] \<and> known_backend (fBackendType p)) \<or> (\<exists>n. ps' = erase_name n ps)"

inductive store_reach :: "(bmessage \<Rightarrow> 'c) \<Rightarrow> ('c \<Rightarrow> bmessage option) \<Rightarrow> VPNProfile list \<Rightarrow> 'c disk \<Rightarrow> VPNProfile list \<Rightarrow> bool"
  for flatten unflatten where
  store_init: "store_reach flatten unflatten [] fresh_disk []"
| store_save: "store_reach flatten unflatten ps d saved \<Longrightarrow> known_backend (fBackendType p) \<Longrightarrow>
    SaveProfile flatten env p (ps, d) = (r, ps', d') \<Longrightarrow>
    store_reach flatten unflatten ps' d' (if r = B_OK then ps' else saved)"
| store_delete: "store_reach flatten unflatten ps d saved \<Longrightarrow> DeleteProfile flatten env n (ps, d) = (r, ps', d') \<Longrightarrow>
    store_reach flatten unflatten ps' d' (if r = B_OK \<and> profile_map ps n \<noteq> None then ps' else saved)"
| store_restart: "store_reach flatten unflatten ps d saved \<Longrightarrow> LoadProfiles unflatten B_OK B_OK d [] = (r, ps') \<Longrightarrow>
    store_reach flatten unflatten ps' d saved"
| store_crash: "store_reach flatten unflatten ps d saved \<Longrightarrow> mutated ps qs \<Longrightarrow> crashed_write flatten qs d d' \<Longrightarrow>
    LoadProfiles unflatten B_OK B_OK d' [] = (r, ps') \<Longrightarrow>
    store_reach flatten unflatten ps' d' (if d_main d' = d_main d then saved else qs)"

definition store_inv :: "(bmessage \<Rightarrow> 'c) \<Rightarrow> VPNProfile list \<Rightarrow> 'c disk \<Rightarrow> VPNProfile list \<Rightarrow> bool" where
  "store_inv flatten ps d saved \<longleftrightarrow> wf_profiles ps \<and> wf_profiles saved
     \<and> (d_main d = None \<and> saved = [] \<or> d_main d = Some (flatten (snd (ArchiveAll saved (BMessage [])))))"

lemma wf_strip: "wf_profiles ps \<Longrightarrow> wf_profiles (map strip ps)"
  by (auto simp: wf_profiles_def strip_def comp_def)

lemma store_inv_Load:
  assumes "flatten_law flatten unflatten" "store_inv flatten ps d saved"
  shows "LoadProfiles unflatten B_OK B_OK d [] = (B_OK, map strip saved)"
proof (cases "d_main d")
  case None
  then show ?thesis using assms(2) by (simp add: store_inv_def LoadProfiles_def)
next
  case (Some c)
  then show ?thesis using assms Load_stored by (auto simp: store_inv_def)
qed

lemma mutated_wf: "mutated ps qs \<Longrightarrow> wf_profiles ps \<Longrightarrow> wf_profiles qs"
  using upsert_wf erase_wf by (auto simp: mutated_def)

lemma store_inv_write:
  assumes "store_inv flatten ps d saved" "mutated ps qs" "WriteToDisk flatten env qs d = (r, d')"
  shows "store_inv flatten qs d' (if r = B_OK then qs else saved)"
  using assms(1) mutated_wf [OF assms(2)] WriteToDisk_result [OF assms(3)] by (auto simp: store_inv_def)

lemma erase_none: "profile_map ps n = None \<Longrightarrow> \<not> list_ex (\<lambda>p. fName p = n) ps"
  by (auto simp: profile_map_def find_None_iff list_ex_iff)

lemma store_reach_inv:
  assumes "flatten_law flatten unflatten" "store_reach flatten unflatten ps d saved"
  shows "store_inv flatten ps d saved"
  using assms(2)
proof (induction rule: store_reach.induct)
  case store_init
  show ?case by (simp add: store_inv_def wf_profiles_def fresh_disk_def)
next
  case (store_save ps d saved p env r ps' d')
  show ?case
  proof (cases "fName p = []")
    case True
    then show ?thesis using store_save by (simp add: SaveProfile_def)
  next
    case False
    then have "mutated ps (upsert p ps)" using store_save.hyps(2) by (auto simp: mutated_def)
    moreover have "WriteToDisk flatten env (upsert p ps) d = (r, d')" "ps' = upsert p ps"
      using store_save.hyps(3) False by (auto simp: SaveProfile_def Let_def split: prod.splits)
    ultimately show ?thesis using store_inv_write [OF store_save.IH, of "upsert p ps" env r d'] by (simp split: if_splits)
  qed
next
  case (store_delete ps d saved env n r ps' d')
  show ?case
  proof (cases "profile_map ps n = None")
    case True
    then show ?thesis using store_delete erase_none [OF True] by (simp add: DeleteProfile_def)
  next
    case False
    then have "list_ex (\<lambda>p. fName p = n) ps" by (auto simp: profile_map_def find_Some_iff list_ex_iff)
    then have "WriteToDisk flatten env (erase_name n ps) d = (r, d')" "ps' = erase_name n ps"
      using store_delete.hyps(2) by (auto simp: DeleteProfile_def Let_def split: prod.splits)
    moreover have "mutated ps (erase_name n ps)" by (auto simp: mutated_def)
    ultimately show ?thesis using store_inv_write [OF store_delete.IH, of "erase_name n ps" env r d'] False by (simp split: if_splits)
  qed
next
  case (store_restart ps d saved r ps')
  then have "ps' = map strip saved" using store_inv_Load [OF assms(1)] by fastforce
  then show ?case using store_restart.IH wf_strip by (simp add: store_inv_def)
next
  case (store_crash ps d saved qs d' r ps')
  let ?saved = "if d_main d' = d_main d then saved else qs"
  have "store_inv flatten ps d' ?saved"
    using store_crash.hyps(3)
  proof cases
    case (crash_after env r)
    then show ?thesis using store_inv_write [OF store_crash.IH store_crash.hyps(2) crash_after] WriteToDisk_result [OF crash_after] store_crash.IH
      by (auto simp: store_inv_def split: if_splits)
  qed (use store_crash.IH in \<open>auto simp: store_inv_def\<close>)
  moreover from this have "ps' = map strip ?saved" using store_inv_Load [OF assms(1)] store_crash.hyps(4) by fastforce
  ultimately show ?case using wf_strip by (simp add: store_inv_def)
qed


subsection \<open>Properties\<close>

text \<open>
  C20. Profiles are durable.  After any history of saves and deletions, with any failures of the file
  system, restarts and deaths of the daemon, loading the file gives exactly the list of the last
  completed write (without pre-auth keys, which are never stored), the names in the store are
  distinct and not empty, and a death in the middle of the next write leaves either that list or
  the new one.
\<close>

theorem profiles_durable:
  assumes "flatten_law flatten unflatten" "store_reach flatten unflatten ps d saved"
  shows "LoadProfiles unflatten B_OK B_OK d [] = (B_OK, map strip saved) \<and> wf_profiles ps
    \<and> (mutated ps qs \<and> crashed_write flatten qs d d' \<longrightarrow>
         LoadProfiles unflatten B_OK B_OK d' [] \<in> {(B_OK, map strip saved), (B_OK, map strip qs)})"
proof -
  have inv: "store_inv flatten ps d saved" by (rule store_reach_inv [OF assms])
  have "LoadProfiles unflatten B_OK B_OK d' [] \<in> {(B_OK, map strip saved), (B_OK, map strip qs)}"
    if m: "mutated ps qs" "crashed_write flatten qs d d'"
  proof -
    obtain r ps' where l: "LoadProfiles unflatten B_OK B_OK d' [] = (r, ps')" by fastforce
    have "store_inv flatten ps' d' (if d_main d' = d_main d then saved else qs)"
      by (rule store_reach_inv [OF assms(1) store_crash [OF assms(2) m l]])
    from store_inv_Load [OF assms(1) this] show ?thesis by simp
  qed
  then show ?thesis using store_inv_Load [OF assms(1) inv] inv by (simp add: store_inv_def)
qed

definition office :: VPNProfile where "office = VPNProfile\<lparr> fName := ''office'', fAuthKey := ''tskey'' \<rparr>"

definition good_env :: write_env where
  "good_env = \<lparr> we_settings = B_OK, we_open = B_OK, we_flatten = B_OK, we_rename = B_OK \<rparr>"

theorem profiles_durable_witness:
  "\<exists>d. store_reach (\<lambda>m. m) Some [office] d [office] \<and> LoadProfiles Some B_OK B_OK d [] = (B_OK, [office\<lparr> fAuthKey := [] \<rparr>])"
proof -
  have law: "flatten_law (\<lambda>m. m) Some" by (simp add: flatten_law_def)
  obtain r ps d where s: "SaveProfile (\<lambda>m. m) good_env office ([], fresh_disk) = (r, ps, d)" by (metis prod.exhaust)
  then have r: "r = B_OK" "ps = [office]"
    by (auto simp: SaveProfile_def WriteToDisk_def good_env_def ArchiveAll_stored office_def VPNProfile_def Let_def simp del: ArchiveAll.simps)
  have "known_backend (fBackendType office)" by (simp add: office_def VPNProfile_def known_backend_def int_backend_def)
  from store_save [OF store_init this s] have "store_reach (\<lambda>m. m) Some [office] d [office]" using r by simp
  from this profiles_durable [OF law this] show ?thesis by (auto simp: strip_def)
qed

text \<open>
  C37. To its clients the store is a finite map from names to profiles: a save, whether or not it
  reaches the disk, overwrites exactly the profile of its name, a deletion removes exactly it, a
  profile without a name is refused, and deleting an absent name succeeds; and the names in the list
  stay distinct and not empty.
\<close>

theorem profile_store_map:
  assumes "names_ok ps"
  shows "(case SaveProfile flatten env p (ps, d) of (r, ps', d') \<Rightarrow>
       names_ok ps'
       \<and> (if fName p = [] then r = B_BAD_VALUE \<and> ps' = ps \<and> d' = d else profile_map ps' = (profile_map ps)(fName p \<mapsto> p)))
    \<and> (case DeleteProfile flatten env n (ps, d) of (r, ps', d') \<Rightarrow>
       names_ok ps'
       \<and> profile_map ps' = (profile_map ps)(n := None) \<and> (profile_map ps n = None \<longrightarrow> r = B_OK \<and> d' = d))"
proof
  show "case SaveProfile flatten env p (ps, d) of (r, ps', d') \<Rightarrow>
       names_ok ps'
       \<and> (if fName p = [] then r = B_BAD_VALUE \<and> ps' = ps \<and> d' = d else profile_map ps' = (profile_map ps)(fName p \<mapsto> p))"
    using assms by (simp add: SaveProfile_def upsert_map upsert_names_ok Let_def split: prod.split)
  show "case DeleteProfile flatten env n (ps, d) of (r, ps', d') \<Rightarrow>
       names_ok ps'
       \<and> profile_map ps' = (profile_map ps)(n := None) \<and> (profile_map ps n = None \<longrightarrow> r = B_OK \<and> d' = d)"
  proof (cases "profile_map ps n = None")
    case True
    then show ?thesis using erase_none [OF True] assms by (simp add: DeleteProfile_def fun_upd_idem)
  next
    case False
    then have "list_ex (\<lambda>p. fName p = n) ps" by (auto simp: profile_map_def find_Some_iff list_ex_iff)
    then show ?thesis using False erase_map [OF assms] erase_names_ok [OF assms]
      by (auto simp: DeleteProfile_def Let_def split: prod.split)
  qed
qed

theorem profile_store_map_witness:
  "profile_map (fst (snd (DeleteProfile (\<lambda>m. m) good_env ''office'' ([office], fresh_disk)))) ''office'' = None
   \<and> names_ok (fst (snd (SaveProfile (\<lambda>m. m) good_env (office\<lparr> fName := ''home'' \<rparr>) ([office], fresh_disk))))"
proof -
  have "names_ok [office]" by (simp add: names_ok_def office_def VPNProfile_def)
  note m = profile_store_map [OF this, where n = "''office''" and d = fresh_disk and flatten = "\<lambda>m. m" and env = good_env
      and p = "office\<lparr> fName := ''home'' \<rparr>"]
  obtain r ps d where e: "DeleteProfile (\<lambda>m. m) good_env ''office'' ([office], fresh_disk) = (r, ps, d)" by (metis prod.exhaust)
  obtain r' ps' d' where e': "SaveProfile (\<lambda>m. m) good_env (office\<lparr> fName := ''home'' \<rparr>) ([office], fresh_disk) = (r', ps', d')"
    by (metis prod.exhaust)
  from m show ?thesis unfolding e e' by simp
qed

end
