(* ===== verification/Server.thy ===== *)
theory Server
  imports ProfileStore Base64
begin

text \<open>
  The daemon, \<open>src/src/server/SotoportegoServer.cpp\<close>: one looper that takes the clients' requests, the
  events of the backends, the reconnect timer and the results of background lookups, one message at
  a time.  The state is the record of its fields; what leaves the daemon collects in three ghost
  fields: messages delivered to clients, notifications, and background jobs started.  \<open>sv_connects\<close>
  records the calls of \<open>Connect\<close> on a backend.  The backends are reached through the virtual methods
  of \<open>VPNBackend\<close>, here the operations of the record \<open>vpn_ops\<close> on a state \<open>'w\<close> that holds all three of
  them, without any assumption; \<open>daemon_env\<close> is what the system answers while one message is handled.
  The model starts after \<open>ReadyToRun\<close>, so the active backend is never \<open>NULL\<close>.
\<close>

subsection \<open>Protocol\<close>

definition kMsgConnect :: string where "kMsgConnect = ''sCon''"
definition kMsgDisconnect :: string where "kMsgDisconnect = ''sDis''"
definition kMsgGetStatus :: string where "kMsgGetStatus = ''sGst''"
definition kMsgSubscribe :: string where "kMsgSubscribe = ''sSub''"
definition kMsgUnsubscribe :: string where "kMsgUnsubscribe = ''sUns''"
definition kMsgSaveProfile :: string where "kMsgSaveProfile = ''sSav''"
definition kMsgDeleteProfile :: string where "kMsgDeleteProfile = ''sDel''"
definition kMsgListProfiles :: string where "kMsgListProfiles = ''sLst''"
definition kMsgRequestVPNGate :: string where "kMsgRequestVPNGate = ''sRVG''"
definition kMsgVPNGateList :: string where "kMsgVPNGateList = ''sLVG''"
definition kMsgConnectVPNGate :: string where "kMsgConnectVPNGate = ''sCVG''"
definition kMsgSetExitNode :: string where "kMsgSetExitNode = ''sExN''"
definition kMsgCountryResult :: string where "kMsgCountryResult = ''sCty''"
definition kMsgHomeGeoResult :: string where "kMsgHomeGeoResult = ''sHom''"
definition kMsgVPNGateFetched :: string where "kMsgVPNGateFetched = ''sVGr''"
definition kMsgReconnectTick :: string where "kMsgReconnectTick = ''sRcT''"

definition kFieldConnectedProfile :: string where "kFieldConnectedProfile = ''soto:connectedProfile''"
definition kFieldClient :: string where "kFieldClient = ''soto:client''"
definition kFieldCountry :: string where "kFieldCountry = ''soto:country''"
definition kFieldExternalIP :: string where "kFieldExternalIP = ''soto:externalIP''"
definition kFieldHomeIP :: string where "kFieldHomeIP = ''soto:home:ip''"
definition kFieldHomeCountry :: string where "kFieldHomeCountry = ''soto:home:country''"
definition kFieldHomeLat :: string where "kFieldHomeLat = ''soto:home:lat''"
definition kFieldHomeLon :: string where "kFieldHomeLon = ''soto:home:lon''"
definition kFieldConnectedHost :: string where "kFieldConnectedHost = ''soto:connected:host''"
definition kFieldUsername :: string where "kFieldUsername = ''soto:auth:username''"
definition kFieldPassword :: string where "kFieldPassword = ''soto:auth:password''"
definition kFieldAuthKey :: string where "kFieldAuthKey = ''soto:auth:authkey''"
definition kFieldPeer :: string where "kFieldPeer = ''soto:peer''"
definition kFieldExitNodeKey :: string where "kFieldExitNodeKey = ''soto:exitNodeKey''"
definition kFieldVPNGateServer :: string where "kFieldVPNGateServer = ''soto:vg:server''"
definition kFieldVPNGateHost :: string where "kFieldVPNGateHost = ''soto:vg:host''"
definition kFieldVPNGateCountryLong :: string where "kFieldVPNGateCountryLong = ''soto:vg:country''"
definition kFieldVPNGateConfigBase64 :: string where "kFieldVPNGateConfigBase64 = ''soto:vg:ovpn''"
definition kFieldError :: string where "kFieldError = ''soto:error''"
definition kGeoCountry :: string where "kGeoCountry = ''soto:geo:country''"
definition kGeoQueryIP :: string where "kGeoQueryIP = ''soto:geo:queryIP''"
definition kGeoLatitude :: string where "kGeoLatitude = ''soto:geo:lat''"
definition kGeoLongitude :: string where "kGeoLongitude = ''soto:geo:lon''"

subsection \<open>State\<close>

datatype backend_slot = OpenVPN | WireGuard | Tailscale

record 'w vpn_ops =
  be_State :: "backend_slot \<Rightarrow> 'w \<Rightarrow> VPNState"
  be_Name :: "backend_slot \<Rightarrow> string"
  be_Stats :: "backend_slot \<Rightarrow> 'w \<Rightarrow> VPNStats"
  be_LocalIP :: "backend_slot \<Rightarrow> 'w \<Rightarrow> string"
  be_RemoteIP :: "backend_slot \<Rightarrow> 'w \<Rightarrow> string"
  be_FillPeers :: "backend_slot \<Rightarrow> 'w \<Rightarrow> bmessage \<Rightarrow> bmessage"
  be_Connect :: "backend_slot \<Rightarrow> VPNProfile \<Rightarrow> 'w \<Rightarrow> status \<times> 'w"
  be_Disconnect :: "backend_slot \<Rightarrow> 'w \<Rightarrow> 'w"
  be_SetCredentials :: "backend_slot \<Rightarrow> string \<Rightarrow> string \<Rightarrow> 'w \<Rightarrow> 'w"
  be_SetExitNode :: "backend_slot \<Rightarrow> string \<Rightarrow> 'w \<Rightarrow> status \<times> 'w"

text \<open>A client is the number of its messenger; floats are their 32 bits.\<close>

record daemon_env =
  e_valid :: "nat \<Rightarrow> bool" \<comment> \<open>\<open>BMessenger::IsValid\<close>\<close>
  e_alive :: "nat \<Rightarrow> bool" \<comment> \<open>\<open>SendMessage\<close> succeeds\<close>
  e_strerror :: "status \<Rightarrow> string"
  e_now :: int
  e_timer_ok :: bool
  e_settings :: "string option" \<comment> \<open>\<open>B_USER_SETTINGS_DIRECTORY\<close>\<close>
  e_cache :: "string option"
  e_mkdir_ok :: bool
  e_create_ok :: bool
  e_copy_ok :: bool \<comment> \<open>no error while the content is read and written\<close>
  e_partial :: string \<comment> \<open>what a failing write leaves in the file\<close>
  e_store :: write_env

record ('w, 'c) server =
  sv_world :: 'w
  sv_files :: "string \<rightharpoonup> string"
  sv_disk :: "'c disk"
  fBackend :: backend_slot
  fProfiles :: "VPNProfile list"
  fClients :: "nat list"
  fLastState :: VPNState
  fLastServerSummary :: string
  fConnectedHost :: string
  fHomeCountry :: string
  fHomeIP :: string
  fHomeLat :: u32
  fHomeLon :: u32
  fHomeLookupInFlight :: bool
  fCatalogueCache :: bmessage
  fCatalogueFetchedAt :: int
  fCatalogueFetchInFlight :: bool
  fCataloguePending :: "nat list"
  fReconnectProfile :: bmessage
  fReconnectUser :: string
  fReconnectPass :: string
  fUserInitiatedDisconnect :: bool
  fReconnectArmed :: bool
  fReconnectAttempt :: int
  fReconnectSecondsLeft :: int
  fReconnectTimer :: bool
  sv_sent :: "(nat \<times> bmessage) list"
  sv_notes :: "(string \<times> bool) list" \<comment> \<open>text of a notification, and whether it is an error\<close>
  sv_jobs :: "string list" \<comment> \<open>answer codes of the lookups and fetches started\<close>
  sv_connects :: "(backend_slot \<times> VPNProfile) list"

text \<open>After the constructor, with the profiles that \<open>Load\<close> found, and \<open>ReadyToRun\<close>.\<close>

definition SotoportegoServer :: "'w \<Rightarrow> (string \<rightharpoonup> string) \<Rightarrow> 'c disk \<Rightarrow> VPNProfile list \<Rightarrow> ('w, 'c) server" where
  "SotoportegoServer w files d profiles =
     \<lparr> sv_world = w, sv_files = files, sv_disk = d, fBackend = OpenVPN, fProfiles = profiles, fClients = [],
        fLastState = VPN_STATE_DISCONNECTED, fLastServerSummary = [], fConnectedHost = [], fHomeCountry = [], fHomeIP = [],
        fHomeLat = 0, fHomeLon = 0, fHomeLookupInFlight = False, fCatalogueCache = BMessage [], fCatalogueFetchedAt = 0,
        fCatalogueFetchInFlight = False, fCataloguePending = [], fReconnectProfile = BMessage [], fReconnectUser = [],
        fReconnectPass = [], fUserInitiatedDisconnect = False, fReconnectArmed = False, fReconnectAttempt = 0,
        fReconnectSecondsLeft = 0, fReconnectTimer = False, sv_sent = [], sv_notes = [], sv_jobs = [], sv_connects = [] \<rparr>"

subsection \<open>Clients\<close>

definition ClientFrom :: "daemon_env \<Rightarrow> nat \<Rightarrow> bmessage \<Rightarrow> nat" where
  "ClientFrom e ret m =
     (case FindMessenger kFieldClient m of Some c \<Rightarrow> if e_valid e c then c else ret | None \<Rightarrow> ret)"

definition send_to :: "daemon_env \<Rightarrow> nat \<Rightarrow> bmessage \<Rightarrow> ('w, 'c) server \<Rightarrow> ('w, 'c) server" where
  "send_to e c m s = (if e_alive e c then s\<lparr> sv_sent := sv_sent s @ [(c, m)] \<rparr> else s)"

definition reply_to :: "daemon_env \<Rightarrow> nat \<Rightarrow> bmessage \<Rightarrow> bmessage \<Rightarrow> ('w, 'c) server \<Rightarrow> ('w, 'c) server" where
  "reply_to e ret m reply s = (let c = ClientFrom e ret m in if e_valid e c then send_to e c reply s else s)"

text \<open>Every client gets the message; the dead ones are dropped.\<close>

definition Broadcast :: "daemon_env \<Rightarrow> bmessage \<Rightarrow> ('w, 'c) server \<Rightarrow> ('w, 'c) server" where
  "Broadcast e m s =
     s\<lparr> fClients := filter (e_alive e) (fClients s),
        sv_sent := sv_sent s @ map (\<lambda>c. (c, m)) (filter (e_alive e) (fClients s)) \<rparr>"

definition SendProfileList :: "daemon_env \<Rightarrow> nat \<Rightarrow> ('w, 'c) server \<Rightarrow> ('w, 'c) server" where
  "SendProfileList e c s =
     (if \<not> e_valid e c then s else send_to e c (snd (ArchiveAll (fProfiles s) (BMessage kMsgListProfiles))) s)"

definition BroadcastProfileList :: "daemon_env \<Rightarrow> ('w, 'c) server \<Rightarrow> ('w, 'c) server" where
  "BroadcastProfileList e s = Broadcast e (snd (ArchiveAll (fProfiles s) (BMessage kMsgListProfiles))) s"

definition HandleSubscribe :: "daemon_env \<Rightarrow> nat \<Rightarrow> bmessage \<Rightarrow> ('w, 'c) server \<Rightarrow> ('w, 'c) server" where
  "HandleSubscribe e ret m s =
     (let c = ClientFrom e ret m in
      if \<not> e_valid e c then s
      else if c \<in> set (fClients s) then s
      else SendProfileList e c (s\<lparr> fClients := fClients s @ [c] \<rparr>))"

definition HandleUnsubscribe :: "daemon_env \<Rightarrow> nat \<Rightarrow> bmessage \<Rightarrow> ('w, 'c) server \<Rightarrow> ('w, 'c) server" where
  "HandleUnsubscribe e ret m s = s\<lparr> fClients := remove1 (ClientFrom e ret m) (fClients s) \<rparr>"

subsection \<open>Status messages\<close>

text \<open>The tests \<open>x != 0.0f\<close> and \<open>x != y\<close> on IEEE single floats.\<close>

definition float_zero :: "u32 \<Rightarrow> bool" where "float_zero x \<longleftrightarrow> x AND 0x7FFFFFFF = 0"
definition float_nan :: "u32 \<Rightarrow> bool" where "float_nan x \<longleftrightarrow> x AND 0x7FFFFFFF > 0x7F800000"
definition float_eq :: "u32 \<Rightarrow> u32 \<Rightarrow> bool" where
  "float_eq x y \<longleftrightarrow> \<not> float_nan x \<and> \<not> float_nan y \<and> (x = y \<or> float_zero x \<and> float_zero y)"

definition add_if :: "bool \<Rightarrow> string \<Rightarrow> fval \<Rightarrow> bmessage \<Rightarrow> bmessage" where
  "add_if b n v m = (if b then add n v m else m)"

definition FillStatus :: "'w vpn_ops \<Rightarrow> ('w, 'c) server \<Rightarrow> bmessage \<Rightarrow> bmessage" where
  "FillStatus ops s m =
     (let b = fBackend s; w = sv_world s; st = be_State ops b w;
          m = add kFieldState (Int32V (state_int st)) m;
          m = add kFieldBackend (StringV (be_Name ops b)) m;
          m = snd (ArchiveStats (be_Stats ops b w) m);
          m = add_if (\<not> idle_state st \<and> msg_fields (fReconnectProfile s) \<noteq> []) kFieldConnectedProfile (message_val (fReconnectProfile s)) m;
          m = add_if (be_LocalIP ops b w \<noteq> []) kFieldLocalIP (StringV (be_LocalIP ops b w)) m;
          m = add_if (be_RemoteIP ops b w \<noteq> []) kFieldRemoteIP (StringV (be_RemoteIP ops b w)) m;
          m = be_FillPeers ops b w m;
          m = add_if (fHomeCountry s \<noteq> []) kFieldHomeCountry (StringV (fHomeCountry s)) m;
          m = add_if (fHomeIP s \<noteq> []) kFieldHomeIP (StringV (fHomeIP s)) m;
          geo = (\<not> float_zero (fHomeLat s) \<or> \<not> float_zero (fHomeLon s));
          m = add_if geo kFieldHomeLat (FloatV (fHomeLat s)) m;
          m = add_if geo kFieldHomeLon (FloatV (fHomeLon s)) m
      in add_if (fConnectedHost s \<noteq> []) kFieldConnectedHost (StringV (fConnectedHost s)) m)"

definition EnrichForBroadcast :: "'w vpn_ops \<Rightarrow> ('w, 'c) server \<Rightarrow> bmessage \<Rightarrow> bmessage" where
  "EnrichForBroadcast ops s m =
     (let m = add_if (FindString kFieldHomeCountry m = None \<and> fHomeCountry s \<noteq> []) kFieldHomeCountry (StringV (fHomeCountry s)) m;
          m = add_if (FindString kFieldHomeIP m = None \<and> fHomeIP s \<noteq> []) kFieldHomeIP (StringV (fHomeIP s)) m;
          geo = (FindFloat kFieldHomeLat m = None \<and> (\<not> float_zero (fHomeLat s) \<or> \<not> float_zero (fHomeLon s)));
          m = add_if geo kFieldHomeLat (FloatV (fHomeLat s)) m;
          m = add_if geo kFieldHomeLon (FloatV (fHomeLon s)) m;
          m = add_if (FindString kFieldConnectedHost m = None \<and> fConnectedHost s \<noteq> []) kFieldConnectedHost (StringV (fConnectedHost s)) m
      in if FindMessage kFieldPeer m = None then be_FillPeers ops (fBackend s) (sv_world s) m else m)"

definition HandleGetStatus :: "'w vpn_ops \<Rightarrow> daemon_env \<Rightarrow> nat \<Rightarrow> bmessage \<Rightarrow> ('w, 'c) server \<Rightarrow> ('w, 'c) server" where
  "HandleGetStatus ops e ret m s = reply_to e ret m (FillStatus ops s (BMessage kMsgStatusUpdate)) s"

text \<open>A status reply with a reason.\<close>

definition status_reply :: "'w vpn_ops \<Rightarrow> string \<Rightarrow> ('w, 'c) server \<Rightarrow> bmessage" where
  "status_reply ops detail s = add kFieldDetail (StringV detail) (FillStatus ops s (BMessage kMsgStatusUpdate))"

subsection \<open>Geographic position\<close>

definition KickHomeGeoLookup :: "'w vpn_ops \<Rightarrow> ('w, 'c) server \<Rightarrow> ('w, 'c) server" where
  "KickHomeGeoLookup ops s =
     (if fHomeLookupInFlight s then s
      else if \<not> idle_state (be_State ops (fBackend s) (sv_world s)) then s
      else s\<lparr> fHomeLookupInFlight := True, sv_jobs := sv_jobs s @ [kMsgHomeGeoResult] \<rparr>)"

definition HandleHomeGeoResult :: "'w vpn_ops \<Rightarrow> daemon_env \<Rightarrow> bmessage \<Rightarrow> ('w, 'c) server \<Rightarrow> ('w, 'c) server" where
  "HandleHomeGeoResult ops e m s =
     (let s = s\<lparr> fHomeLookupInFlight := False \<rparr>;
          (s, c1) = (case FindString kGeoCountry m of
             Some v \<Rightarrow> if fHomeCountry s \<noteq> v then (s\<lparr> fHomeCountry := v \<rparr>, True) else (s, False) | None \<Rightarrow> (s, False));
          (s, c2) = (case FindString kGeoQueryIP m of
             Some v \<Rightarrow> if fHomeIP s \<noteq> v then (s\<lparr> fHomeIP := v \<rparr>, True) else (s, False) | None \<Rightarrow> (s, False));
          (s, c3) = (case (FindFloat kGeoLatitude m, FindFloat kGeoLongitude m) of
             (Some lat, Some lon) \<Rightarrow>
               if \<not> float_eq lat (fHomeLat s) \<or> \<not> float_eq lon (fHomeLon s)
               then (s\<lparr> fHomeLat := lat, fHomeLon := lon \<rparr>, True) else (s, False)
           | _ \<Rightarrow> (s, False))
      in if \<not> (c1 \<or> c2 \<or> c3) then s
         else Broadcast e (FillStatus ops s (BMessage kMsgStatusUpdate)) s)"

definition PostNotification :: "string \<Rightarrow> bool \<Rightarrow> ('w, 'c) server \<Rightarrow> ('w, 'c) server" where
  "PostNotification content is_error s = s\<lparr> sv_notes := sv_notes s @ [(content, is_error)] \<rparr>"

definition HandleCountryResult :: "'w vpn_ops \<Rightarrow> daemon_env \<Rightarrow> bmessage \<Rightarrow> ('w, 'c) server \<Rightarrow> ('w, 'c) server" where
  "HandleCountryResult ops e m s =
     (if fLastState s \<noteq> VPN_STATE_CONNECTED then s
      else let country = (case FindString kGeoCountry m of Some v \<Rightarrow> v | None \<Rightarrow> []);
               ext = (case FindString kGeoQueryIP m of Some v \<Rightarrow> v | None \<Rightarrow> []) in
      if country = [] \<and> ext = [] then s
      else let s = PostNotification (''Connected to '' @ (if fLastServerSummary s \<noteq> [] then fLastServerSummary s else ''VPN'')
                      @ (if country \<noteq> [] then CHR 0x0A # country else [])) False s;
               u = FillStatus ops s (BMessage kMsgStatusUpdate);
               u = add_if (country \<noteq> []) kFieldCountry (StringV country) u;
               u = add_if (ext \<noteq> []) kFieldExternalIP (StringV ext) u
           in Broadcast e u s)"

subsection \<open>Reconnecting\<close>

definition kReconnectMaxAttempts :: int where "kReconnectMaxAttempts = 5"

fun delay_loop :: "nat \<Rightarrow> int \<Rightarrow> int" where
  "delay_loop 0 d = d"
| "delay_loop (Suc n) d = (if d < 60 then delay_loop n (d * 2) else d)"

definition reconnect_delay_seconds :: "int \<Rightarrow> int" where
  "reconnect_delay_seconds attempt = (let d = delay_loop (nat (attempt - 1)) 5 in if d > 60 then 60 else d)"

definition CancelReconnect :: "('w, 'c) server \<Rightarrow> ('w, 'c) server" where
  "CancelReconnect s = s\<lparr> fReconnectTimer := False, fReconnectSecondsLeft := 0 \<rparr>"

definition ArmReconnect :: "bmessage \<Rightarrow> string \<Rightarrow> string \<Rightarrow> ('w, 'c) server \<Rightarrow> ('w, 'c) server" where
  "ArmReconnect m user pass s =
     (CancelReconnect s)\<lparr> fReconnectProfile := (case FindMessage kFieldProfile m of Some a \<Rightarrow> a | None \<Rightarrow> BMessage []),
        fReconnectUser := user, fReconnectPass := pass, fUserInitiatedDisconnect := False,
        fReconnectArmed := True, fReconnectAttempt := 0 \<rparr>"

definition ReconnectDetail :: "('w, 'c) server \<Rightarrow> string" where
  "ReconnectDetail s = ''retry in '' @ show_nat (nat (fReconnectSecondsLeft s)) @ ''s (attempt ''
     @ show_nat (nat (fReconnectAttempt s)) @ ''/'' @ show_nat (nat kReconnectMaxAttempts) @ '')''"

definition StartReconnectCountdown :: "daemon_env \<Rightarrow> ('w, 'c) server \<Rightarrow> ('w, 'c) server \<times> bool" where
  "StartReconnectCountdown e s =
     (if fUserInitiatedDisconnect s \<or> \<not> fReconnectArmed s \<or> fReconnectAttempt s \<ge> kReconnectMaxAttempts then (s, False)
      else let s = CancelReconnect s;
               s = s\<lparr> fReconnectAttempt := fReconnectAttempt s + 1 \<rparr>;
               s = s\<lparr> fReconnectSecondsLeft := reconnect_delay_seconds (fReconnectAttempt s), fReconnectTimer := True \<rparr>
           in if \<not> e_timer_ok e then (CancelReconnect s, False) else (s, True))"

definition BroadcastReconnecting :: "'w vpn_ops \<Rightarrow> daemon_env \<Rightarrow> ('w, 'c) server \<Rightarrow> ('w, 'c) server" where
  "BroadcastReconnecting ops e s =
     Broadcast e (EnrichForBroadcast ops s
       (add kFieldDetail (StringV (ReconnectDetail s))
         (add kFieldState (Int32V (state_int VPN_STATE_RECONNECTING)) (BMessage kMsgStatusUpdate)))) s"

text \<open>Unknown types use OpenVPN.\<close>

definition SelectBackend :: "VPNBackendType \<Rightarrow> ('w, 'c) server \<Rightarrow> ('w, 'c) server" where
  "SelectBackend t s =
     s\<lparr> fBackend := (case t of VPN_BACKEND_WIREGUARD \<Rightarrow> WireGuard | VPN_BACKEND_TAILSCALE \<Rightarrow> Tailscale | _ \<Rightarrow> OpenVPN) \<rparr>"

definition set_credentials :: "'w vpn_ops \<Rightarrow> string \<Rightarrow> string \<Rightarrow> ('w, 'c) server \<Rightarrow> ('w, 'c) server" where
  "set_credentials ops user pass s =
     (if user \<noteq> [] \<or> pass \<noteq> [] then s\<lparr> sv_world := be_SetCredentials ops (fBackend s) user pass (sv_world s) \<rparr> else s)"

definition backend_connect :: "'w vpn_ops \<Rightarrow> VPNProfile \<Rightarrow> ('w, 'c) server \<Rightarrow> status \<times> ('w, 'c) server" where
  "backend_connect ops p s =
     (let (r, w) = be_Connect ops (fBackend s) p (sv_world s)
      in (r, s\<lparr> sv_world := w, sv_connects := sv_connects s @ [(fBackend s, p)] \<rparr>))"

definition AttemptReconnect :: "'w vpn_ops \<Rightarrow> daemon_env \<Rightarrow> ('w, 'c) server \<Rightarrow> ('w, 'c) server" where
  "AttemptReconnect ops e s =
     (let p = Unarchive (fReconnectProfile s) VPNProfile;
          s = SelectBackend (fBackendType p) s;
          s = set_credentials ops (fReconnectUser s) (fReconnectPass s) s;
          (r, s) = backend_connect ops p s
      in if r \<noteq> B_OK then
           (let (s, ok) = StartReconnectCountdown e s in if ok then BroadcastReconnecting ops e s else s)
         else s)"

definition HandleReconnectTick :: "'w vpn_ops \<Rightarrow> daemon_env \<Rightarrow> ('w, 'c) server \<Rightarrow> ('w, 'c) server" where
  "HandleReconnectTick ops e s =
     (if \<not> fReconnectTimer s \<or> fUserInitiatedDisconnect s then s
      else if fReconnectSecondsLeft s > 1
        then BroadcastReconnecting ops e (s\<lparr> fReconnectSecondsLeft := fReconnectSecondsLeft s - 1 \<rparr>)
      else AttemptReconnect ops e (CancelReconnect s))"

subsection \<open>Events of the backends\<close>

text \<open>The changed message and the new state; the transition part comes second.\<close>

definition was_active :: "VPNState \<Rightarrow> bool" where
  "was_active st \<longleftrightarrow> st = VPN_STATE_CONNECTED \<or> st = VPN_STATE_RECONNECTING \<or> st = VPN_STATE_AUTHENTICATING \<or> st = VPN_STATE_CONNECTING"

definition state_notification :: "'w vpn_ops \<Rightarrow> VPNState \<Rightarrow> VPNState \<Rightarrow> bmessage \<Rightarrow> ('w, 'c) server \<Rightarrow> ('w, 'c) server" where
  "state_notification ops prev st m s =
     (if st = VPN_STATE_CONNECTED then
        (let s = s\<lparr> fReconnectAttempt := 0,
                    fLastServerSummary := (case FindString kFieldRemoteIP m of Some r \<Rightarrow> if r \<noteq> [] then r else ''VPN'' | None \<Rightarrow> ''VPN'') \<rparr>;
             s = PostNotification (''Connected to '' @ fLastServerSummary s) False s
         in s\<lparr> sv_jobs := sv_jobs s @ [kMsgCountryResult] \<rparr>)
      else if st = VPN_STATE_DISCONNECTED then
        (if \<not> was_active prev then s
         else let s = PostNotification ''VPN disconnected.'' False s
              in KickHomeGeoLookup ops (s\<lparr> fLastServerSummary := [], fConnectedHost := [] \<rparr>))
      else if st = VPN_STATE_ERROR then
        (let detail = (case FindString kFieldDetail m of Some d \<Rightarrow> d | None \<Rightarrow> []);
             s = PostNotification (''VPN error'' @ (if detail \<noteq> [] then '': '' @ detail else []) @ ''.'') True s
         in KickHomeGeoLookup ops (s\<lparr> fLastServerSummary := [], fConnectedHost := [] \<rparr>))
      else s)"

definition HandleStatusForNotification ::
  "'w vpn_ops \<Rightarrow> daemon_env \<Rightarrow> bmessage \<Rightarrow> ('w, 'c) server \<Rightarrow> bmessage \<times> ('w, 'c) server" where
  "HandleStatusForNotification ops e m s =
     (let st = announced m;
          (s, retry) = (if st = VPN_STATE_DISCONNECTED then StartReconnectCountdown e s else (s, False));
          st = (if retry then VPN_STATE_RECONNECTING else st);
          m = (if retry then replace_or_add kFieldDetail (StringV (ReconnectDetail s))
                 (replace_or_add kFieldState (Int32V (state_int VPN_STATE_RECONNECTING)) m) else m);
          prev = fLastState s;
          s = s\<lparr> fLastState := st \<rparr>;
          s = (if idle_state st then s\<lparr> fConnectedHost := [], fLastServerSummary := [] \<rparr> else s)
      in (m, if st = prev then s else state_notification ops prev st m s))"

definition HandleStatusUpdate :: "'w vpn_ops \<Rightarrow> daemon_env \<Rightarrow> bmessage \<Rightarrow> ('w, 'c) server \<Rightarrow> ('w, 'c) server" where
  "HandleStatusUpdate ops e m s =
     (let (m, s) = HandleStatusForNotification ops e m s in Broadcast e (EnrichForBroadcast ops s m) s)"

subsection \<open>Connect and disconnect\<close>

definition ends_with :: "string \<Rightarrow> string \<Rightarrow> bool" where
  "ends_with s suf \<longleftrightarrow> length suf \<le> length s \<and> drop (length s - length suf) s = suf"

definition starts_with :: "string \<Rightarrow> string \<Rightarrow> bool" where
  "starts_with s pre \<longleftrightarrow> take (length pre) s = pre"

definition config_path_ok :: "(string \<rightharpoonup> string) \<Rightarrow> string \<Rightarrow> bool" where
  "config_path_ok files path \<longleftrightarrow>
     path \<noteq> [] \<and> hd path = CHR ''/''
     \<and> \<not> (find_sub ''/../'' path \<noteq> None \<or> ends_with path ''/..'')
     \<and> files path \<noteq> None"

definition needs_config_file :: "VPNProfile \<Rightarrow> bool" where
  "needs_config_file p \<longleftrightarrow> fBackendType p = VPN_BACKEND_OPENVPN \<or> fBackendType p = VPN_BACKEND_WIREGUARD"

definition field_or_empty :: "string \<Rightarrow> bmessage \<Rightarrow> string" where
  "field_or_empty n m = (case FindString n m of Some v \<Rightarrow> v | None \<Rightarrow> [])"

definition HandleConnect :: "'w vpn_ops \<Rightarrow> daemon_env \<Rightarrow> nat \<Rightarrow> bmessage \<Rightarrow> ('w, 'c) server \<Rightarrow> ('w, 'c) server" where
  "HandleConnect ops e ret m s =
     (let p = (case FindMessage kFieldProfile m of Some a \<Rightarrow> Unarchive a VPNProfile | None \<Rightarrow> VPNProfile) in
      if \<not> idle_state (be_State ops (fBackend s) (sv_world s))
      then reply_to e ret m (status_reply ops ''already connected; disconnect first'' s) s
      else
      let s = SelectBackend (fBackendType p) s in
      if needs_config_file p \<and> \<not> config_path_ok (sv_files s) (fConfigPath p)
      then (let s = s\<lparr> fConnectedHost := [] \<rparr>
            in reply_to e ret m (status_reply ops ''profile config path is missing, not absolute, or unreadable'' s) s)
      else
      let user = field_or_empty kFieldUsername m; pass = field_or_empty kFieldPassword m;
          s = set_credentials ops user pass s;
          p = (case FindString kFieldAuthKey m of Some k \<Rightarrow> if k \<noteq> [] then p\<lparr> fAuthKey := k \<rparr> else p | None \<Rightarrow> p);
          s = HandleSubscribe e ret m s;
          s = ArmReconnect m user pass s;
          (r, s) = backend_connect ops p s in
      if r \<noteq> B_OK
      then (let s = s\<lparr> fConnectedHost := [] \<rparr> in reply_to e ret m (status_reply ops (e_strerror e r) s) s)
      else s)"

definition HandleDisconnect :: "'w vpn_ops \<Rightarrow> daemon_env \<Rightarrow> ('w, 'c) server \<Rightarrow> ('w, 'c) server" where
  "HandleDisconnect ops e s =
     (let s = s\<lparr> fUserInitiatedDisconnect := True \<rparr>;
          was = fReconnectTimer s;
          s = CancelReconnect s;
          s = s\<lparr> sv_world := be_Disconnect ops (fBackend s) (sv_world s) \<rparr>
      in if was then
           (let upd = add kFieldState (Int32V (state_int VPN_STATE_DISCONNECTED)) (BMessage kMsgStatusUpdate);
                s = Broadcast e (EnrichForBroadcast ops s upd) s
            in s\<lparr> fLastState := VPN_STATE_DISCONNECTED, fConnectedHost := [] \<rparr>)
         else s)"

definition HandleSetExitNode :: "'w vpn_ops \<Rightarrow> bmessage \<Rightarrow> ('w, 'c) server \<Rightarrow> ('w, 'c) server" where
  "HandleSetExitNode ops m s =
     s\<lparr> sv_world := snd (be_SetExitNode ops (fBackend s) (field_or_empty kFieldExitNodeKey m) (sv_world s)) \<rparr>"

subsection \<open>Config files\<close>

definition filename_char :: "char \<Rightarrow> bool" where
  "filename_char c \<longleftrightarrow> islower c \<or> isupper c \<or> isdigit c \<or> c = CHR ''.'' \<or> c = CHR ''-'' \<or> c = CHR ''_''"

definition sanitize_filename :: "string \<Rightarrow> string \<Rightarrow> string" where
  "sanitize_filename name fallback =
     (let safe = map (\<lambda>c. if filename_char c then c else CHR ''_'') (c_str name) in if safe = [] then fallback else safe)"

definition fnv_step :: "char \<Rightarrow> u32 \<Rightarrow> u32" where
  "fnv_step c h = (h XOR ucast (byte_of_chr c)) * 16777619"

definition name_hash :: "string \<Rightarrow> string" where
  "name_hash name =
     (let h = fold fnv_step (c_str name) 2166136261
      in ToHex [ucast (drop_bit 24 h), ucast (drop_bit 16 h), ucast (drop_bit 8 h), ucast h])"

definition imported_config_dir :: "daemon_env \<Rightarrow> string option" where
  "imported_config_dir e = map_option (\<lambda>d. d @ ''/Sotoportego/configs'') (e_settings e)"

definition StageImportedConfig :: "daemon_env \<Rightarrow> VPNProfile \<Rightarrow> (string \<rightharpoonup> string) \<Rightarrow> VPNProfile \<times> (string \<rightharpoonup> string)" where
  "StageImportedConfig e p files =
     (if fConfigPath p = [] then (p, files)
      else case imported_config_dir e of None \<Rightarrow> (p, files)
      | Some dir \<Rightarrow>
          if starts_with (fConfigPath p) (dir @ ''/'') then (p, files)
          else if \<not> e_mkdir_ok e then (p, files)
          else let safe = sanitize_filename (fName p) ''profile'' @ ''-'' @ name_hash (fName p) @ ''.ovpn'';
                   dest = dir @ ''/'' @ safe in
            case files (fConfigPath p) of None \<Rightarrow> (p, files)
            | Some content \<Rightarrow>
                if \<not> e_create_ok e then (p, files)
                else if \<not> e_copy_ok e then (p, files(dest := None))
                else (p\<lparr> fConfigPath := dest \<rparr>, files(dest \<mapsto> content)))"

definition RemoveStagedConfig :: "daemon_env \<Rightarrow> string \<Rightarrow> ('w, 'c) server \<Rightarrow> ('w, 'c) server" where
  "RemoveStagedConfig e path s =
     (if path = [] then s
      else case imported_config_dir e of None \<Rightarrow> s
      | Some dir \<Rightarrow>
          if \<not> starts_with path (dir @ ''/'') then s
          else if list_ex (\<lambda>p. fConfigPath p = path) (fProfiles s) then s
          else s\<lparr> sv_files := (sv_files s)(path := None) \<rparr>)"

definition HandleSaveProfile :: "(bmessage \<Rightarrow> 'c) \<Rightarrow> daemon_env \<Rightarrow> bmessage \<Rightarrow> ('w, 'c) server \<Rightarrow> ('w, 'c) server" where
  "HandleSaveProfile flatten e m s =
     (case FindMessage kFieldProfile m of None \<Rightarrow> s
      | Some a \<Rightarrow>
          let (p, files) = StageImportedConfig e (Unarchive a VPNProfile) (sv_files s);
              (r, ps, d) = SaveProfile flatten (e_store e) p (fProfiles s, sv_disk s);
              s = s\<lparr> sv_files := files, fProfiles := ps, sv_disk := d \<rparr>
          in if r \<noteq> B_OK then s else BroadcastProfileList e s)"

definition HandleDeleteProfile :: "(bmessage \<Rightarrow> 'c) \<Rightarrow> daemon_env \<Rightarrow> bmessage \<Rightarrow> ('w, 'c) server \<Rightarrow> ('w, 'c) server" where
  "HandleDeleteProfile flatten e m s =
     (case FindString kFieldProfileName m of None \<Rightarrow> s
      | Some name \<Rightarrow>
          let path = (case find (\<lambda>p. fName p = name) (fProfiles s) of Some p \<Rightarrow> fConfigPath p | None \<Rightarrow> []);
              (r, ps, d) = DeleteProfile flatten (e_store e) name (fProfiles s, sv_disk s);
              s = s\<lparr> fProfiles := ps, sv_disk := d \<rparr>
          in if r \<noteq> B_OK then s else BroadcastProfileList e (RemoveStagedConfig e path s))"

subsection \<open>VPNGate\<close>

definition kCatalogueTTL :: int where "kCatalogueTTL = 10 * 60 * 1000000"

definition KickVPNGateFetch :: "('w, 'c) server \<Rightarrow> ('w, 'c) server" where
  "KickVPNGateFetch s = s\<lparr> fCatalogueFetchInFlight := True, sv_jobs := sv_jobs s @ [kMsgVPNGateFetched] \<rparr>"

definition HandleRequestVPNGate :: "daemon_env \<Rightarrow> nat \<Rightarrow> bmessage \<Rightarrow> ('w, 'c) server \<Rightarrow> ('w, 'c) server" where
  "HandleRequestVPNGate e ret m s =
     (let c = ClientFrom e ret m in
      if \<not> e_valid e c then s
      else let force = (case FindBool ''force'' m of Some b \<Rightarrow> b | None \<Rightarrow> False) in
      if \<not> force \<and> fCatalogueFetchedAt s > 0 \<and> e_now e - fCatalogueFetchedAt s < kCatalogueTTL
         \<and> msg_fields (fCatalogueCache s) \<noteq> []
      then send_to e c (fCatalogueCache s) s
      else let s = s\<lparr> fCataloguePending := fCataloguePending s @ [c] \<rparr>
           in if fCatalogueFetchInFlight s then s else KickVPNGateFetch s)"

definition catalogue :: "bmessage \<Rightarrow> bmessage" where
  "catalogue m =
     (let c = fold (\<lambda>a c. add kFieldVPNGateServer (message_val a) c) (FindMessages kFieldVPNGateServer m) (BMessage kMsgVPNGateList)
      in case FindString kFieldError m of Some x \<Rightarrow> add kFieldError (StringV x) c | None \<Rightarrow> c)"

definition HandleVPNGateFetched :: "daemon_env \<Rightarrow> bmessage \<Rightarrow> ('w, 'c) server \<Rightarrow> ('w, 'c) server" where
  "HandleVPNGateFetched e m s =
     (let s = s\<lparr> fCatalogueFetchInFlight := False, fCatalogueCache := catalogue m, fCatalogueFetchedAt := e_now e \<rparr>
      in (fold (\<lambda>c s. send_to e c (fCatalogueCache s) s) (fCataloguePending s) s)\<lparr> fCataloguePending := [] \<rparr>)"

definition WriteVPNGateConfig :: "daemon_env \<Rightarrow> string \<Rightarrow> string \<Rightarrow> (string \<rightharpoonup> string) \<Rightarrow> string \<times> (string \<rightharpoonup> string)" where
  "WriteVPNGateConfig e host base64 files =
     (case e_cache e of None \<Rightarrow> ([], files)
      | Some dir \<Rightarrow>
          let out = dir @ ''/Sotoportego/vpngate/'' @ sanitize_filename host ''server'' @ ''.ovpn'' in
          case decode_base64 base64 of None \<Rightarrow> ([], files)
          | Some decoded \<Rightarrow>
              if decoded = [] then ([], files)
              else if \<not> e_create_ok e then ([], files)
              else if \<not> e_copy_ok e then ([], files(out \<mapsto> e_partial e))
              else (out, files(out \<mapsto> map chr_of_byte decoded)))"

definition vpngate_profile :: "string \<Rightarrow> string \<Rightarrow> string \<Rightarrow> VPNProfile" where
  "vpngate_profile host country path =
     VPNProfile\<lparr> fBackendType := VPN_BACKEND_OPENVPN,
       fName := ''VPNGate '' @ host @ (if country \<noteq> [] then '' ('' @ country @ '')'' else []),
       fServer := host, fPort := 443, fConfigPath := path \<rparr>"

definition vpngate_connect :: "daemon_env \<Rightarrow> nat \<Rightarrow> bmessage \<Rightarrow> VPNProfile \<Rightarrow> bmessage" where
  "vpngate_connect e ret m p =
     (let c = add kFieldProfile (message_val (snd (Archive p (BMessage [])))) (BMessage kMsgConnect);
          client = ClientFrom e ret m;
          c = add_if (e_valid e client) kFieldClient (MessengerV client) c;
          c = (case FindString kFieldUsername m of Some u \<Rightarrow> add kFieldUsername (StringV u) c | None \<Rightarrow> c)
      in case FindString kFieldPassword m of Some u \<Rightarrow> add kFieldPassword (StringV u) c | None \<Rightarrow> c)"

text \<open>The message made here has no reply address; \<open>0\<close> stands for the invalid messenger.\<close>

definition HandleConnectVPNGate :: "'w vpn_ops \<Rightarrow> daemon_env \<Rightarrow> nat \<Rightarrow> bmessage \<Rightarrow> ('w, 'c) server \<Rightarrow> ('w, 'c) server" where
  "HandleConnectVPNGate ops e ret m s =
     (case (FindString kFieldVPNGateHost m, FindString kFieldVPNGateConfigBase64 m) of
        (Some host, Some base64) \<Rightarrow>
          let s = s\<lparr> fConnectedHost := host \<rparr>;
              (path, files) = WriteVPNGateConfig e host base64 (sv_files s);
              s = s\<lparr> sv_files := files \<rparr>
          in if path = [] then
               (let s = s\<lparr> fConnectedHost := [] \<rparr>
                in reply_to e ret m (status_reply ops ''could not stage vpngate .ovpn'' s) s)
             else HandleConnect ops e 0 (vpngate_connect e ret m (vpngate_profile host (field_or_empty kFieldVPNGateCountryLong m) path)) s
      | _ \<Rightarrow> s)"

subsection \<open>The looper\<close>

definition MessageReceived ::
  "'w vpn_ops \<Rightarrow> (bmessage \<Rightarrow> 'c) \<Rightarrow> daemon_env \<Rightarrow> nat \<Rightarrow> bmessage \<Rightarrow> ('w, 'c) server \<Rightarrow> ('w, 'c) server" where
  "MessageReceived ops flatten e ret m s =
     (if what m = kMsgConnect then HandleConnect ops e ret m s
      else if what m = kMsgDisconnect then HandleDisconnect ops e s
      else if what m = kMsgSubscribe then HandleSubscribe e ret m s
      else if what m = kMsgUnsubscribe then HandleUnsubscribe e ret m s
      else if what m = kMsgGetStatus then HandleGetStatus ops e ret m s
      else if what m = kMsgSaveProfile then HandleSaveProfile flatten e m s
      else if what m = kMsgDeleteProfile then HandleDeleteProfile flatten e m s
      else if what m = kMsgRequestVPNGate then HandleRequestVPNGate e ret m s
      else if what m = kMsgConnectVPNGate then HandleConnectVPNGate ops e ret m s
      else if what m = kMsgSetExitNode then HandleSetExitNode ops m s
      else if what m = kMsgVPNGateFetched then HandleVPNGateFetched e m s
      else if what m = kMsgReconnectTick then HandleReconnectTick ops e s
      else if what m = kMsgStatusUpdate then HandleStatusUpdate ops e m s
      else if what m = kMsgStatsUpdate then Broadcast e (EnrichForBroadcast ops s m) s
      else if what m = kMsgCountryResult then HandleCountryResult ops e m s
      else if what m = kMsgHomeGeoResult then HandleHomeGeoResult ops e m s
      else s)"

text \<open>
  The daemon among its backends and clients: between two messages the backends' threads may change
  the backends in any way, and any message may arrive next.
\<close>

datatype 'w daemon_event = Backends "'w \<Rightarrow> 'w" | Message daemon_env nat bmessage

fun daemon_step :: "'w vpn_ops \<Rightarrow> (bmessage \<Rightarrow> 'c) \<Rightarrow> 'w daemon_event \<Rightarrow> ('w, 'c) server \<Rightarrow> ('w, 'c) server" where
  "daemon_step ops flatten (Backends f) s = s\<lparr> sv_world := f (sv_world s) \<rparr>"
| "daemon_step ops flatten (Message e ret m) s = MessageReceived ops flatten e ret m s"

definition daemon_run :: "'w vpn_ops \<Rightarrow> (bmessage \<Rightarrow> 'c) \<Rightarrow> 'w daemon_event list \<Rightarrow> ('w, 'c) server \<Rightarrow> ('w, 'c) server" where
  "daemon_run ops flatten evs s = fold (daemon_step ops flatten) evs s"

end
