(* ===== verification/ServerSafety.thy ===== *)
theory ServerSafety
  imports Server
begin

text \<open>
  What holds of the daemon in every history of messages, whatever the backends do in between:
  reconnecting stays within its budget and never follows a user's disconnect, an unexpected drop is
  announced as a countdown, catalogue requests are never stranded, and config files are staged inside
  the daemon's own directory.
\<close>

subsection \<open>What a handler leaves alone\<close>

text \<open>The fields that reconnecting depends on, and the calls of \<open>Connect\<close>.\<close>

definition rc :: "('w, 'c) server \<Rightarrow> bool \<times> bool \<times> int \<times> int \<times> bool \<times> (backend_slot \<times> VPNProfile) list" where
  "rc s = (fUserInitiatedDisconnect s, fReconnectArmed s, fReconnectAttempt s, fReconnectSecondsLeft s, fReconnectTimer s, sv_connects s)"

lemma rc_fields:
  assumes "rc s' = rc s"
  shows "fUserInitiatedDisconnect s' = fUserInitiatedDisconnect s" "fReconnectArmed s' = fReconnectArmed s"
    "fReconnectAttempt s' = fReconnectAttempt s" "fReconnectSecondsLeft s' = fReconnectSecondsLeft s"
    "fReconnectTimer s' = fReconnectTimer s" "sv_connects s' = sv_connects s"
  using assms by (simp_all add: rc_def)

lemma rc_simple [simp]:
  "rc (send_to e c m s) = rc s" "rc (reply_to e ret m r s) = rc s" "rc (Broadcast e m s) = rc s"
  "rc (SendProfileList e c s) = rc s" "rc (BroadcastProfileList e s) = rc s"
  "rc (HandleSubscribe e ret m s) = rc s" "rc (HandleUnsubscribe e ret m s) = rc s" "rc (HandleGetStatus ops e ret m s) = rc s"
  "rc (KickHomeGeoLookup ops s) = rc s" "rc (PostNotification t b s) = rc s" "rc (HandleSetExitNode ops m s) = rc s"
  "rc (RemoveStagedConfig e path s) = rc s" "rc (SelectBackend ty s) = rc s" "rc (set_credentials ops u p s) = rc s"
  "rc (KickVPNGateFetch s) = rc s"
  by (simp_all add: rc_def send_to_def reply_to_def Broadcast_def SendProfileList_def BroadcastProfileList_def HandleSubscribe_def
      HandleUnsubscribe_def HandleGetStatus_def KickHomeGeoLookup_def PostNotification_def HandleSetExitNode_def
      RemoveStagedConfig_def SelectBackend_def set_credentials_def KickVPNGateFetch_def Let_def split: option.split)

lemma rc_HandleCountryResult [simp]: "rc (HandleCountryResult ops e m s) = rc s"
  by (simp add: HandleCountryResult_def Let_def)

lemma rc_HandleHomeGeoResult [simp]: "rc (HandleHomeGeoResult ops e m s) = rc s"
  by (simp add: HandleHomeGeoResult_def Let_def split: option.split) (simp add: rc_def)

lemma rc_profiles [simp]: "rc (HandleSaveProfile flatten e m s) = rc s" "rc (HandleDeleteProfile flatten e m s) = rc s"
  by (simp_all add: HandleSaveProfile_def HandleDeleteProfile_def Let_def split: option.split prod.split) (simp_all add: rc_def)

lemma rc_fold_send: "rc (fold (\<lambda>c s. send_to e c (fCatalogueCache s) s) cs s) = rc s"
  by (induction cs arbitrary: s) auto

lemma rc_catalogue [simp]: "rc (HandleRequestVPNGate e ret m s) = rc s" "rc (HandleVPNGateFetched e m s) = rc s"
proof -
  show "rc (HandleRequestVPNGate e ret m s) = rc s"
    by (simp add: HandleRequestVPNGate_def Let_def) (simp add: rc_def)
  have "rc (t\<lparr> fCataloguePending := [] \<rparr>) = rc t" for t :: "('a, 'b) server" by (simp add: rc_def)
  then show "rc (HandleVPNGateFetched e m s) = rc s"
    by (simp add: HandleVPNGateFetched_def Let_def rc_fold_send) (simp add: rc_def)
qed

subsection \<open>The countdown\<close>

definition reconnect_inv :: "('w, 'c) server \<Rightarrow> bool" where
  "reconnect_inv s \<longleftrightarrow> 0 \<le> fReconnectAttempt s \<and> fReconnectAttempt s \<le> kReconnectMaxAttempts
     \<and> (if fReconnectTimer s
        then fReconnectArmed s \<and> \<not> fUserInitiatedDisconnect s \<and> 1 \<le> fReconnectSecondsLeft s \<and> fReconnectSecondsLeft s \<le> 60
        else fReconnectSecondsLeft s = 0)"

lemma reconnect_inv_rc: "rc s' = rc s \<Longrightarrow> reconnect_inv s' = reconnect_inv s"
  by (simp add: reconnect_inv_def rc_def)

lemma delay_loop_pos: "0 < d \<Longrightarrow> 0 < delay_loop n d"
  by (induction n d rule: delay_loop.induct) auto

lemma delay_bounds: "1 \<le> reconnect_delay_seconds a" "reconnect_delay_seconds a \<le> 60"
  using delay_loop_pos [of 5 "nat (a - 1)"] by (auto simp: reconnect_delay_seconds_def Let_def)

lemma delay_values: "map reconnect_delay_seconds [1, 2, 3, 4, 5] = [5, 10, 20, 40, 60]"
  by code_simp

lemma StartReconnectCountdown_cases:
  assumes "StartReconnectCountdown e s = (s', ok)"
  obtains (refused) "s' = s" "\<not> ok" "fUserInitiatedDisconnect s \<or> \<not> fReconnectArmed s \<or> fReconnectAttempt s \<ge> kReconnectMaxAttempts"
  | (notimer) "\<not> ok" "\<not> fReconnectTimer s'" "fReconnectSecondsLeft s' = 0" "fReconnectAttempt s' = fReconnectAttempt s + 1"
      "fReconnectAttempt s < kReconnectMaxAttempts" "fUserInitiatedDisconnect s' = fUserInitiatedDisconnect s"
      "fReconnectArmed s' = fReconnectArmed s" "sv_connects s' = sv_connects s" "\<not> fUserInitiatedDisconnect s"
  | (started) "ok" "fReconnectTimer s'" "fReconnectSecondsLeft s' = reconnect_delay_seconds (fReconnectAttempt s + 1)"
      "fReconnectAttempt s' = fReconnectAttempt s + 1" "fReconnectAttempt s < kReconnectMaxAttempts"
      "\<not> fUserInitiatedDisconnect s'" "fReconnectArmed s'" "sv_connects s' = sv_connects s" "\<not> fUserInitiatedDisconnect s"
proof (cases "fUserInitiatedDisconnect s \<or> \<not> fReconnectArmed s \<or> fReconnectAttempt s \<ge> kReconnectMaxAttempts")
  case True
  then show ?thesis using assms refused by (simp add: StartReconnectCountdown_def)
next
  case False
  then show ?thesis
    using assms by (cases "e_timer_ok e") (auto simp: StartReconnectCountdown_def CancelReconnect_def Let_def intro: started notimer)
qed

lemma StartReconnectCountdown_inv:
  assumes "StartReconnectCountdown e s = (s', ok)" "reconnect_inv s"
  shows "reconnect_inv s'"
  using assms(1) by (cases rule: StartReconnectCountdown_cases) (use assms(2) delay_bounds in \<open>auto simp: reconnect_inv_def\<close>)

lemma CancelReconnect_inv: "reconnect_inv s \<Longrightarrow> reconnect_inv (CancelReconnect s)"
  by (simp add: reconnect_inv_def CancelReconnect_def)

lemma rc_BroadcastReconnecting [simp]: "rc (BroadcastReconnecting ops e s) = rc s"
  by (simp add: BroadcastReconnecting_def)

lemma backend_connect_fields:
  assumes "backend_connect ops p s = (r, s')"
  shows "fUserInitiatedDisconnect s' = fUserInitiatedDisconnect s" "fReconnectArmed s' = fReconnectArmed s"
    "fReconnectAttempt s' = fReconnectAttempt s" "fReconnectSecondsLeft s' = fReconnectSecondsLeft s"
    "fReconnectTimer s' = fReconnectTimer s" "sv_connects s' = sv_connects s @ [(fBackend s, p)]"
  using assms by (auto simp: backend_connect_def split: prod.splits)

text \<open>An attempt: one call of \<open>Connect\<close>, then possibly the next countdown.\<close>

lemma AttemptReconnect_cases:
  fixes s :: "('w, 'c) server"
  obtains s1 s2 :: "('w, 'c) server" and ok where
    "fUserInitiatedDisconnect s1 = fUserInitiatedDisconnect s" "fReconnectArmed s1 = fReconnectArmed s"
    "fReconnectAttempt s1 = fReconnectAttempt s" "fReconnectSecondsLeft s1 = fReconnectSecondsLeft s"
    "fReconnectTimer s1 = fReconnectTimer s" "length (sv_connects s1) = Suc (length (sv_connects s))"
    "rc (AttemptReconnect ops e s) = rc s1 \<or> StartReconnectCountdown e s1 = (s2, ok) \<and> rc (AttemptReconnect ops e s) = rc s2"
proof -
  let ?p = "Unarchive (fReconnectProfile s) VPNProfile"
  let ?s0 = "set_credentials ops (fReconnectUser (SelectBackend (fBackendType ?p) s)) (fReconnectPass (SelectBackend (fBackendType ?p) s)) (SelectBackend (fBackendType ?p) s)"
  obtain r s1 where b: "backend_connect ops ?p ?s0 = (r, s1)" by fastforce
  have "rc ?s0 = rc s" by simp
  note f0 = rc_fields [OF this]
  obtain s2 ok where c: "StartReconnectCountdown e s1 = (s2, ok)" by fastforce
  have "AttemptReconnect ops e s = (if r \<noteq> B_OK then if ok then BroadcastReconnecting ops e s2 else s2 else s1)"
    using b c by (simp add: AttemptReconnect_def Let_def)
  then have "rc (AttemptReconnect ops e s) = rc s1 \<or> StartReconnectCountdown e s1 = (s2, ok) \<and> rc (AttemptReconnect ops e s) = rc s2"
    using c by simp
  then show ?thesis using that [of s1 s2 ok] backend_connect_fields [OF b] f0 by simp
qed

lemma AttemptReconnect_inv: "reconnect_inv s \<Longrightarrow> \<not> fReconnectTimer s \<Longrightarrow> reconnect_inv (AttemptReconnect ops e s)"
proof -
  assume s: "reconnect_inv s" "\<not> fReconnectTimer s"
  show ?thesis
  proof (rule AttemptReconnect_cases [of s ops e])
    fix s1 s2 ok
    assume f: "fUserInitiatedDisconnect s1 = fUserInitiatedDisconnect s" "fReconnectArmed s1 = fReconnectArmed s"
      "fReconnectAttempt s1 = fReconnectAttempt s" "fReconnectSecondsLeft s1 = fReconnectSecondsLeft s" "fReconnectTimer s1 = fReconnectTimer s"
      and o: "rc (AttemptReconnect ops e s) = rc s1 \<or> StartReconnectCountdown e s1 = (s2, ok) \<and> rc (AttemptReconnect ops e s) = rc s2"
    have i1: "reconnect_inv s1" using s f by (simp add: reconnect_inv_def)
    from o show ?thesis using i1 StartReconnectCountdown_inv [OF _ i1] reconnect_inv_rc by blast
  qed
qed

lemma HandleReconnectTick_inv:
  assumes "reconnect_inv s"
  shows "reconnect_inv (HandleReconnectTick ops e s)"
proof -
  have "reconnect_inv (s\<lparr> fReconnectSecondsLeft := fReconnectSecondsLeft s - 1 \<rparr>)" if "fReconnectTimer s" "fReconnectSecondsLeft s > 1"
    using assms that by (simp add: reconnect_inv_def)
  then have "reconnect_inv (BroadcastReconnecting ops e (s\<lparr> fReconnectSecondsLeft := fReconnectSecondsLeft s - 1 \<rparr>))"
    if "fReconnectTimer s" "fReconnectSecondsLeft s > 1" using that reconnect_inv_rc [OF rc_BroadcastReconnecting] by blast
  moreover have "reconnect_inv (AttemptReconnect ops e (CancelReconnect s))"
    by (rule AttemptReconnect_inv [OF CancelReconnect_inv [OF assms]]) (simp add: CancelReconnect_def)
  ultimately show ?thesis using assms by (simp add: HandleReconnectTick_def)
qed

lemma state_notification_rc:
  "fUserInitiatedDisconnect (state_notification ops prev st m s) = fUserInitiatedDisconnect s"
  "fReconnectArmed (state_notification ops prev st m s) = fReconnectArmed s"
  "fReconnectSecondsLeft (state_notification ops prev st m s) = fReconnectSecondsLeft s"
  "fReconnectTimer (state_notification ops prev st m s) = fReconnectTimer s"
  "sv_connects (state_notification ops prev st m s) = sv_connects s"
  "fReconnectAttempt (state_notification ops prev st m s) = (if st = VPN_STATE_CONNECTED then 0 else fReconnectAttempt s)"
proof -
  have k: "rc (KickHomeGeoLookup ops t) = rc t" "rc (PostNotification c b t) = rc t" for t :: "('a, 'b) server" and c b by simp_all
  note f = k [unfolded rc_def prod.inject]
  show "fUserInitiatedDisconnect (state_notification ops prev st m s) = fUserInitiatedDisconnect s"
    "fReconnectArmed (state_notification ops prev st m s) = fReconnectArmed s"
    "fReconnectSecondsLeft (state_notification ops prev st m s) = fReconnectSecondsLeft s"
    "fReconnectTimer (state_notification ops prev st m s) = fReconnectTimer s"
    "sv_connects (state_notification ops prev st m s) = sv_connects s"
    "fReconnectAttempt (state_notification ops prev st m s) = (if st = VPN_STATE_CONNECTED then 0 else fReconnectAttempt s)"
    by (simp_all add: state_notification_def f Let_def)
qed

text \<open>A status event: the countdown may start, and a new connection resets the budget.\<close>

lemma HandleStatusUpdate_cases:
  fixes s :: "('w, 'c) server"
  obtains s1 :: "('w, 'c) server" and ok where
    "announced m = VPN_STATE_DISCONNECTED \<and> StartReconnectCountdown e s = (s1, ok) \<or> announced m \<noteq> VPN_STATE_DISCONNECTED \<and> s1 = s"
    "fUserInitiatedDisconnect (HandleStatusUpdate ops e m s) = fUserInitiatedDisconnect s1"
    "fReconnectArmed (HandleStatusUpdate ops e m s) = fReconnectArmed s1"
    "fReconnectSecondsLeft (HandleStatusUpdate ops e m s) = fReconnectSecondsLeft s1"
    "fReconnectTimer (HandleStatusUpdate ops e m s) = fReconnectTimer s1"
    "sv_connects (HandleStatusUpdate ops e m s) = sv_connects s1"
    "fReconnectAttempt (HandleStatusUpdate ops e m s) = fReconnectAttempt s1
     \<or> fReconnectAttempt (HandleStatusUpdate ops e m s) = 0 \<and> announced m = VPN_STATE_CONNECTED"
proof -
  obtain s1 retry where c: "(if announced m = VPN_STATE_DISCONNECTED then StartReconnectCountdown e s else (s, False)) = (s1, retry)" by fastforce
  obtain m' s2 where h: "HandleStatusForNotification ops e m s = (m', s2)" by fastforce
  have b: "rc (HandleStatusUpdate ops e m s) = rc s2" by (simp add: HandleStatusUpdate_def h)
  let ?st = "if retry then VPN_STATE_RECONNECTING else announced m"
  let ?s = "(s1\<lparr> fLastState := ?st \<rparr>)" 
  let ?t = "if idle_state ?st then ?s\<lparr> fConnectedHost := [], fLastServerSummary := [] \<rparr> else ?s"
  have s2: "s2 = (if ?st = fLastState s1 then ?t else state_notification ops (fLastState s1) ?st m' ?t)"
    using h c unfolding HandleStatusForNotification_def Let_def by auto
  have t: "rc ?t = rc s1" by (simp add: rc_def)
  have "rc s2 = rc s1 \<or> rc s2 = (fUserInitiatedDisconnect s1, fReconnectArmed s1, 0, fReconnectSecondsLeft s1, fReconnectTimer s1, sv_connects s1)
      \<and> ?st = VPN_STATE_CONNECTED"
    using t unfolding s2 by (auto simp: rc_def state_notification_rc)
  moreover have "announced m = VPN_STATE_CONNECTED" if "?st = VPN_STATE_CONNECTED" using that by (auto split: if_splits)
  ultimately show ?thesis using that [of s1 retry] c b by (auto simp: rc_def split: if_splits)
qed

lemma HandleStatusUpdate_inv: "reconnect_inv s \<Longrightarrow> reconnect_inv (HandleStatusUpdate ops e m s)"
proof -
  assume s: "reconnect_inv s"
  show ?thesis
  proof (rule HandleStatusUpdate_cases [of m e s ops])
    fix s1 ok
    assume c: "announced m = VPN_STATE_DISCONNECTED \<and> StartReconnectCountdown e s = (s1, ok) \<or> announced m \<noteq> VPN_STATE_DISCONNECTED \<and> s1 = s"
      and f: "fUserInitiatedDisconnect (HandleStatusUpdate ops e m s) = fUserInitiatedDisconnect s1"
      "fReconnectArmed (HandleStatusUpdate ops e m s) = fReconnectArmed s1"
      "fReconnectSecondsLeft (HandleStatusUpdate ops e m s) = fReconnectSecondsLeft s1"
      "fReconnectTimer (HandleStatusUpdate ops e m s) = fReconnectTimer s1"
      "fReconnectAttempt (HandleStatusUpdate ops e m s) = fReconnectAttempt s1
       \<or> fReconnectAttempt (HandleStatusUpdate ops e m s) = 0 \<and> announced m = VPN_STATE_CONNECTED"
    have "reconnect_inv s1" using c s StartReconnectCountdown_inv by blast
    then show ?thesis using f by (auto simp: reconnect_inv_def kReconnectMaxAttempts_def)
  qed
qed

lemma HandleDisconnect_rc:
  "rc (HandleDisconnect ops e s) = (True, fReconnectArmed s, fReconnectAttempt s, 0, False, sv_connects s)"
proof -
  have b: "rc (t\<lparr> fLastState := x, fConnectedHost := y \<rparr>) = rc t" for t :: "('a, 'b) server" and x y by (simp add: rc_def)
  show ?thesis by (simp add: HandleDisconnect_def Let_def b) (simp add: rc_def CancelReconnect_def)
qed

lemma HandleConnect_rc:
  "rc (HandleConnect ops e ret m s) = rc s
   \<or> (\<exists>x. rc (HandleConnect ops e ret m s) = (False, True, 0, 0, False, sv_connects s @ [x]))"
proof -
  let ?p = "case FindMessage kFieldProfile m of Some a \<Rightarrow> Unarchive a VPNProfile | None \<Rightarrow> VPNProfile"
  let ?p2 = "case FindString kFieldAuthKey m of Some k \<Rightarrow> if k \<noteq> [] then ?p\<lparr> fAuthKey := k \<rparr> else ?p | None \<Rightarrow> ?p"
  let ?u = "field_or_empty kFieldUsername m" and ?w = "field_or_empty kFieldPassword m"
  let ?s1 = "SelectBackend (fBackendType ?p) s"
  let ?s2 = "ArmReconnect m ?u ?w (HandleSubscribe e ret m (set_credentials ops ?u ?w ?s1))"
  obtain r s3 where b: "backend_connect ops ?p2 ?s2 = (r, s3)" by fastforce
  have h: "rc (t\<lparr> fConnectedHost := x \<rparr>) = rc t" for t :: "('a, 'b) server" and x by (simp add: rc_def)
  have "rc (HandleSubscribe e ret m (set_credentials ops ?u ?w ?s1)) = rc s" by simp
  then have "rc ?s2 = (False, True, 0, 0, False, sv_connects s)" by (simp add: ArmReconnect_def CancelReconnect_def rc_def)
  then have s3: "rc s3 = (False, True, 0, 0, False, sv_connects s @ [(fBackend ?s2, ?p2)])"
    using backend_connect_fields [OF b] by (simp add: rc_def)
  have "HandleConnect ops e ret m s =
      (if \<not> idle_state (be_State ops (fBackend s) (sv_world s)) then reply_to e ret m (status_reply ops ''already connected; disconnect first'' s) s
       else if needs_config_file ?p \<and> \<not> config_path_ok (sv_files ?s1) (fConfigPath ?p)
       then reply_to e ret m (status_reply ops ''profile config path is missing, not absolute, or unreadable'' (?s1\<lparr> fConnectedHost := [] \<rparr>)) (?s1\<lparr> fConnectedHost := [] \<rparr>)
       else if r \<noteq> B_OK then reply_to e ret m (status_reply ops (e_strerror e r) (s3\<lparr> fConnectedHost := [] \<rparr>)) (s3\<lparr> fConnectedHost := [] \<rparr>)
       else s3)"
    unfolding HandleConnect_def Let_def b by simp
  then show ?thesis using s3 by (simp add: h)
qed

lemma HandleConnectVPNGate_rc:
  "rc (HandleConnectVPNGate ops e ret m s) = rc s
   \<or> (\<exists>x. rc (HandleConnectVPNGate ops e ret m s) = (False, True, 0, 0, False, sv_connects s @ [x]))"
proof (cases "(FindString kFieldVPNGateHost m, FindString kFieldVPNGateConfigBase64 m)")
  case (Pair a b)
  show ?thesis
  proof (cases "a = None \<or> b = None")
    case True
    then show ?thesis using Pair by (auto simp: HandleConnectVPNGate_def split: option.splits)
  next
    case False
    then obtain host body where hb: "a = Some host" "b = Some body" by auto
    obtain path files where w: "WriteVPNGateConfig e host body (sv_files s) = (path, files)" by fastforce
    let ?s = "s\<lparr> fConnectedHost := host, sv_files := files \<rparr>"
    let ?m = "vpngate_connect e ret m (vpngate_profile host (field_or_empty kFieldVPNGateCountryLong m) path)"
    have eq: "HandleConnectVPNGate ops e ret m s =
        (if path = [] then reply_to e ret m (status_reply ops ''could not stage vpngate .ovpn'' (?s\<lparr> fConnectedHost := [] \<rparr>)) (?s\<lparr> fConnectedHost := [] \<rparr>)
         else HandleConnect ops e 0 ?m ?s)"
      using Pair hb w by (simp add: HandleConnectVPNGate_def Let_def)
    have "rc ?s = rc s" "rc (?s\<lparr> fConnectedHost := [] \<rparr>) = rc s" by (simp_all add: rc_def)
    then show ?thesis using HandleConnect_rc [of ops e 0 ?m ?s] by (simp add: eq)
  qed
qed

definition connect_request :: "'w daemon_event \<Rightarrow> bool" where
  "connect_request ev \<longleftrightarrow> (case ev of Message e ret m \<Rightarrow> what m = kMsgConnect \<or> what m = kMsgConnectVPNGate | _ \<Rightarrow> False)"

definition connected_event :: "'w daemon_event \<Rightarrow> bool" where
  "connected_event ev \<longleftrightarrow> (case ev of Message e ret m \<Rightarrow> what m = kMsgStatusUpdate \<and> announced m = VPN_STATE_CONNECTED | _ \<Rightarrow> False)"

lemmas msg_codes = kMsgConnect_def kMsgDisconnect_def kMsgSubscribe_def kMsgUnsubscribe_def kMsgGetStatus_def kMsgSaveProfile_def
  kMsgDeleteProfile_def kMsgRequestVPNGate_def kMsgConnectVPNGate_def kMsgSetExitNode_def kMsgVPNGateFetched_def
  kMsgReconnectTick_def kMsgStatusUpdate_def kMsgStatsUpdate_def kMsgCountryResult_def kMsgHomeGeoResult_def

text \<open>Only five messages touch the reconnect state.\<close>

lemma MessageReceived_rc:
  obtains (same) "rc (MessageReceived ops flatten e ret m s) = rc s"
  | (connect) x where "what m = kMsgConnect \<or> what m = kMsgConnectVPNGate"
      "rc (MessageReceived ops flatten e ret m s) = (False, True, 0, 0, False, sv_connects s @ [x])"
  | (disconnect) "what m = kMsgDisconnect" "MessageReceived ops flatten e ret m s = HandleDisconnect ops e s"
  | (tick) "what m = kMsgReconnectTick" "MessageReceived ops flatten e ret m s = HandleReconnectTick ops e s"
  | (status) "what m = kMsgStatusUpdate" "MessageReceived ops flatten e ret m s = HandleStatusUpdate ops e m s"
proof -
  let ?r = "MessageReceived ops flatten e ret m s"
  consider "what m = kMsgConnect" | "what m = kMsgConnectVPNGate" | "what m = kMsgDisconnect" | "what m = kMsgReconnectTick"
    | "what m = kMsgStatusUpdate"
    | "what m \<noteq> kMsgConnect" "what m \<noteq> kMsgConnectVPNGate" "what m \<noteq> kMsgDisconnect" "what m \<noteq> kMsgReconnectTick" "what m \<noteq> kMsgStatusUpdate"
    by blast
  then show ?thesis
  proof cases
    case 1
    then have "?r = HandleConnect ops e ret m s" by (simp add: MessageReceived_def)
    then show ?thesis using 1 HandleConnect_rc [of ops e ret m s] same connect by metis
  next
    case 2
    then have "?r = HandleConnectVPNGate ops e ret m s" by (simp add: MessageReceived_def msg_codes)
    then show ?thesis using 2 HandleConnectVPNGate_rc [of ops e ret m s] same connect by metis
  next
    case 3
    then show ?thesis by (intro disconnect) (simp_all add: MessageReceived_def msg_codes)
  next
    case 4
    then show ?thesis by (intro tick) (simp_all add: MessageReceived_def msg_codes)
  next
    case 5
    then show ?thesis by (intro status) (simp_all add: MessageReceived_def msg_codes)
  next
    case 6
    then show ?thesis by (intro same) (simp add: MessageReceived_def)
  qed
qed

lemma daemon_step_reconnect: "reconnect_inv s \<Longrightarrow> reconnect_inv (daemon_step ops flatten ev s)"
proof (cases ev)
  case (Backends f)
  then show "reconnect_inv s \<Longrightarrow> ?thesis" by (simp add: reconnect_inv_def)
next
  case (Message e ret m)
  assume s: "reconnect_inv s"
  have "reconnect_inv (MessageReceived ops flatten e ret m s)"
  proof (cases rule: MessageReceived_rc [of ops flatten e ret m s])
    case same
    then show ?thesis using s reconnect_inv_rc by blast
  next
    case (connect x)
    then show ?thesis by (simp add: rc_def reconnect_inv_def kReconnectMaxAttempts_def)
  next
    case disconnect
    then show ?thesis using HandleDisconnect_rc [of ops e s] s by (simp add: rc_def reconnect_inv_def)
  next
    case tick
    then show ?thesis using HandleReconnectTick_inv [OF s] by simp
  next
    case status
    then show ?thesis using HandleStatusUpdate_inv [OF s] by simp
  qed
  then show ?thesis using Message by simp
qed

subsection \<open>After a user's disconnect\<close>

definition given_up :: "('w, 'c) server \<Rightarrow> bool" where
  "given_up s \<longleftrightarrow> fUserInitiatedDisconnect s \<and> \<not> fReconnectTimer s"

lemma given_up_countdown: "given_up s \<Longrightarrow> StartReconnectCountdown e s = (s, False)"
  by (simp add: given_up_def StartReconnectCountdown_def)

lemma given_up_step:
  assumes "given_up s" "\<not> connect_request ev"
  shows "given_up (daemon_step ops flatten ev s) \<and> sv_connects (daemon_step ops flatten ev s) = sv_connects s"
proof (cases ev)
  case (Backends f)
  then show ?thesis using assms by (simp add: given_up_def)
next
  case (Message e ret m)
  let ?r = "MessageReceived ops flatten e ret m s"
  have "given_up ?r \<and> sv_connects ?r = sv_connects s"
  proof (cases rule: MessageReceived_rc [of ops flatten e ret m s])
    case same
    then show ?thesis using assms by (simp add: given_up_def rc_def)
  next
    case (connect x)
    then show ?thesis using assms(2) by (simp add: Message connect_request_def)
  next
    case disconnect
    then show ?thesis using HandleDisconnect_rc [of ops e s] by (simp add: given_up_def rc_def)
  next
    case tick
    then show ?thesis using assms(1) by (simp add: given_up_def HandleReconnectTick_def)
  next
    case status
    show ?thesis
    proof (rule HandleStatusUpdate_cases [of m e s ops])
      fix s1 ok
      assume c: "announced m = VPN_STATE_DISCONNECTED \<and> StartReconnectCountdown e s = (s1, ok) \<or> announced m \<noteq> VPN_STATE_DISCONNECTED \<and> s1 = s"
        and f: "fUserInitiatedDisconnect (HandleStatusUpdate ops e m s) = fUserInitiatedDisconnect s1"
        "fReconnectTimer (HandleStatusUpdate ops e m s) = fReconnectTimer s1" "sv_connects (HandleStatusUpdate ops e m s) = sv_connects s1"
      have "s1 = s" using c given_up_countdown [OF assms(1)] by auto
      then show ?thesis using f assms(1) status by (simp add: given_up_def)
    qed
  qed
  then show ?thesis using Message by simp
qed

lemma daemon_run_Cons [simp]: "daemon_run ops flatten [] s = s"
  "daemon_run ops flatten (ev # evs) s = daemon_run ops flatten evs (daemon_step ops flatten ev s)"
  by (simp_all add: daemon_run_def)

lemma given_up_run:
  "given_up s \<Longrightarrow> \<forall>ev \<in> set evs. \<not> connect_request ev \<Longrightarrow>
   given_up (daemon_run ops flatten evs s) \<and> sv_connects (daemon_run ops flatten evs s) = sv_connects s"
proof (induction evs arbitrary: s)
  case (Cons ev evs)
  then have "given_up (daemon_step ops flatten ev s)" "sv_connects (daemon_step ops flatten ev s) = sv_connects s"
    using given_up_step by (metis list.set_intros(1))+
  then show ?case using Cons.IH [of "daemon_step ops flatten ev s"] Cons.prems by simp
qed simp

subsection \<open>The budget\<close>

definition budget :: "('w, 'c) server \<Rightarrow> nat" where
  "budget s = nat (kReconnectMaxAttempts - fReconnectAttempt s) + (if fReconnectTimer s then 1 else 0)"

lemma StartReconnectCountdown_budget:
  assumes "StartReconnectCountdown e s = (s', ok)" "reconnect_inv s"
  shows "length (sv_connects s') + budget s' \<le> length (sv_connects s) + budget s"
  using assms(1) by (cases rule: StartReconnectCountdown_cases) (use assms(2) in \<open>auto simp: budget_def reconnect_inv_def\<close>)

lemma budget_rc: "rc s' = rc s \<Longrightarrow> length (sv_connects s') + budget s' = length (sv_connects s) + budget s"
  by (simp add: rc_def budget_def)

lemma HandleReconnectTick_budget:
  assumes "reconnect_inv s"
  shows "length (sv_connects (HandleReconnectTick ops e s)) + budget (HandleReconnectTick ops e s) \<le> length (sv_connects s) + budget s"
proof -
  consider (idle) "\<not> fReconnectTimer s \<or> fUserInitiatedDisconnect s"
    | (down) "fReconnectTimer s" "\<not> fUserInitiatedDisconnect s" "fReconnectSecondsLeft s > 1"
    | (fire) "fReconnectTimer s" "\<not> fUserInitiatedDisconnect s" "\<not> fReconnectSecondsLeft s > 1" by blast
  then show ?thesis
  proof cases
    case idle
    then show ?thesis by (simp add: HandleReconnectTick_def)
  next
    case down
    let ?s = "s\<lparr> fReconnectSecondsLeft := fReconnectSecondsLeft s - 1 \<rparr>"
    have "rc (HandleReconnectTick ops e s) = rc ?s" using down by (simp add: HandleReconnectTick_def)
    then show ?thesis by (simp add: rc_def budget_def)
  next
    case fire
    let ?c = "CancelReconnect s"
    have c: "reconnect_inv ?c" by (rule CancelReconnect_inv [OF assms])
    have h: "HandleReconnectTick ops e s = AttemptReconnect ops e ?c" using fire by (simp add: HandleReconnectTick_def)
    have b: "length (sv_connects ?c) = length (sv_connects s)" "Suc (budget ?c) = budget s"
      using fire by (simp_all add: CancelReconnect_def budget_def)
    show ?thesis
    proof (rule AttemptReconnect_cases [of ?c ops e])
      fix s1 s2 ok
      assume f: "fUserInitiatedDisconnect s1 = fUserInitiatedDisconnect ?c" "fReconnectArmed s1 = fReconnectArmed ?c"
        "fReconnectAttempt s1 = fReconnectAttempt ?c" "fReconnectSecondsLeft s1 = fReconnectSecondsLeft ?c"
        "fReconnectTimer s1 = fReconnectTimer ?c" "length (sv_connects s1) = Suc (length (sv_connects ?c))"
        and o: "rc (AttemptReconnect ops e ?c) = rc s1 \<or> StartReconnectCountdown e s1 = (s2, ok) \<and> rc (AttemptReconnect ops e ?c) = rc s2"
      have i1: "reconnect_inv s1" using c f by (simp add: reconnect_inv_def)
      have "length (sv_connects s1) + budget s1 = length (sv_connects s) + budget s" using f b by (simp add: budget_def)
      moreover have "length (sv_connects s2) + budget s2 \<le> length (sv_connects s1) + budget s1" if "StartReconnectCountdown e s1 = (s2, ok)"
        by (rule StartReconnectCountdown_budget [OF that i1])
      ultimately show ?thesis using o budget_rc [of "AttemptReconnect ops e ?c"] unfolding h by fastforce
    qed
  qed
qed

lemma budget_step:
  assumes "reconnect_inv s" "\<not> connect_request ev" "\<not> connected_event ev"
  shows "length (sv_connects (daemon_step ops flatten ev s)) + budget (daemon_step ops flatten ev s) \<le> length (sv_connects s) + budget s"
proof (cases ev)
  case (Backends f)
  then show ?thesis by (simp add: budget_def)
next
  case (Message e ret m)
  let ?r = "MessageReceived ops flatten e ret m s"
  have "length (sv_connects ?r) + budget ?r \<le> length (sv_connects s) + budget s"
  proof (cases rule: MessageReceived_rc [of ops flatten e ret m s])
    case same
    then show ?thesis by (simp add: rc_def budget_def)
  next
    case (connect x)
    then show ?thesis using assms(2) by (simp add: Message connect_request_def)
  next
    case disconnect
    then show ?thesis using HandleDisconnect_rc [of ops e s] by (simp add: rc_def budget_def)
  next
    case tick
    then show ?thesis using HandleReconnectTick_budget [OF assms(1)] by simp
  next
    case status
    then have nc: "announced m \<noteq> VPN_STATE_CONNECTED" using assms(3) by (simp add: Message connected_event_def)
    show ?thesis
    proof (rule HandleStatusUpdate_cases [of m e s ops])
      fix s1 ok
      assume c: "announced m = VPN_STATE_DISCONNECTED \<and> StartReconnectCountdown e s = (s1, ok) \<or> announced m \<noteq> VPN_STATE_DISCONNECTED \<and> s1 = s"
        and f: "fReconnectTimer (HandleStatusUpdate ops e m s) = fReconnectTimer s1" "sv_connects (HandleStatusUpdate ops e m s) = sv_connects s1"
        "fReconnectAttempt (HandleStatusUpdate ops e m s) = fReconnectAttempt s1
         \<or> fReconnectAttempt (HandleStatusUpdate ops e m s) = 0 \<and> announced m = VPN_STATE_CONNECTED"
      have "length (sv_connects s1) + budget s1 \<le> length (sv_connects s) + budget s"
        using c StartReconnectCountdown_budget [OF _ assms(1)] by auto
      then show ?thesis using f nc status by (simp add: budget_def)
    qed
  qed
  then show ?thesis using Message by simp
qed

lemma daemon_run_reconnect: "reconnect_inv s \<Longrightarrow> reconnect_inv (daemon_run ops flatten evs s)"
  by (induction evs arbitrary: s) (simp_all add: daemon_step_reconnect)

lemma budget_run:
  "reconnect_inv s \<Longrightarrow> \<forall>ev \<in> set evs. \<not> connect_request ev \<and> \<not> connected_event ev \<Longrightarrow>
   length (sv_connects (daemon_run ops flatten evs s)) + budget (daemon_run ops flatten evs s) \<le> length (sv_connects s) + budget s"
proof (induction evs arbitrary: s)
  case (Cons ev evs)
  let ?s = "daemon_step ops flatten ev s"
  have "length (sv_connects ?s) + budget ?s \<le> length (sv_connects s) + budget s" using Cons.prems budget_step by auto
  moreover have "length (sv_connects (daemon_run ops flatten evs ?s)) + budget (daemon_run ops flatten evs ?s) \<le> length (sv_connects ?s) + budget ?s"
    using Cons.IH [of ?s] Cons.prems daemon_step_reconnect by auto
  ultimately show ?case by simp
qed simp

subsection \<open>Clients, profiles and catalogue requests\<close>

definition calm :: "('w, 'c) server \<Rightarrow> ('w, 'c) server \<Rightarrow> bool" where
  "calm s s' \<longleftrightarrow> (distinct (fClients s) \<longrightarrow> distinct (fClients s')) \<and> fProfiles s' = fProfiles s
     \<and> fCataloguePending s' = fCataloguePending s \<and> fCatalogueFetchInFlight s' = fCatalogueFetchInFlight s"

lemma calm_refl [simp]: "calm s s"
  by (simp add: calm_def)

lemma calm_trans: "calm s t \<Longrightarrow> calm t u \<Longrightarrow> calm s u"
  by (simp add: calm_def)

lemma calm_simple [simp]:
  "calm s (send_to e c m s)" "calm s (reply_to e ret m r s)" "calm s (Broadcast e m s)" "calm s (SendProfileList e c s)"
  "calm s (BroadcastProfileList e s)" "calm s (HandleSubscribe e ret m s)" "calm s (HandleUnsubscribe e ret m s)"
  "calm s (HandleGetStatus ops e ret m s)" "calm s (KickHomeGeoLookup ops s)" "calm s (PostNotification t b s)"
  "calm s (HandleSetExitNode ops m s)" "calm s (RemoveStagedConfig e path s)" "calm s (SelectBackend ty s)"
  "calm s (set_credentials ops u p s)" "calm s (CancelReconnect s)" "calm s (ArmReconnect m u p s)"
  "calm s (fst (StartReconnectCountdown e s))" "calm s (snd (backend_connect ops pr s))"
  by (simp_all add: calm_def send_to_def reply_to_def Broadcast_def SendProfileList_def BroadcastProfileList_def HandleSubscribe_def
      HandleUnsubscribe_def HandleGetStatus_def KickHomeGeoLookup_def PostNotification_def HandleSetExitNode_def
      RemoveStagedConfig_def SelectBackend_def set_credentials_def CancelReconnect_def ArmReconnect_def
      StartReconnectCountdown_def backend_connect_def Let_def split_beta split: option.split)

lemma calm_upd [simp]:
  "calm s (t\<lparr> fConnectedHost := x \<rparr>) = calm s t" "calm s (t\<lparr> fLastState := y \<rparr>) = calm s t"
  "calm s (t\<lparr> fLastServerSummary := x \<rparr>) = calm s t" "calm s (t\<lparr> sv_jobs := j \<rparr>) = calm s t"
  "calm s (t\<lparr> fReconnectAttempt := i \<rparr>) = calm s t" "calm s (t\<lparr> fReconnectSecondsLeft := i \<rparr>) = calm s t"
  "calm s (t\<lparr> sv_world := w \<rparr>) = calm s t" "calm s (t\<lparr> sv_files := f \<rparr>) = calm s t"
  "calm s (t\<lparr> fUserInitiatedDisconnect := b \<rparr>) = calm s t" "calm s (t\<lparr> fHomeLookupInFlight := b \<rparr>) = calm s t"
  by (simp_all add: calm_def)

lemma calm_chain [intro]:
  "calm s t \<Longrightarrow> calm s (send_to e c m t)" "calm s t \<Longrightarrow> calm s (reply_to e ret m r t)" "calm s t \<Longrightarrow> calm s (Broadcast e m t)"
  "calm s t \<Longrightarrow> calm s (HandleSubscribe e ret m t)" "calm s t \<Longrightarrow> calm s (KickHomeGeoLookup ops t)"
  "calm s t \<Longrightarrow> calm s (PostNotification c' b t)" "calm s t \<Longrightarrow> calm s (SelectBackend ty t)"
  "calm s t \<Longrightarrow> calm s (set_credentials ops u p t)" "calm s t \<Longrightarrow> calm s (CancelReconnect t)" "calm s t \<Longrightarrow> calm s (ArmReconnect m u p t)"
  by (rule calm_trans, assumption, simp)+

lemma calm_notification: "calm s (state_notification ops prev st m s)"
  by (simp add: state_notification_def calm_def PostNotification_def KickHomeGeoLookup_def Let_def)

lemma calm_status: "calm s (HandleStatusUpdate ops e m s)"
proof -
  obtain s1 retry where c: "(if announced m = VPN_STATE_DISCONNECTED then StartReconnectCountdown e s else (s, False)) = (s1, retry)" by fastforce
  have "calm s s1" using c calm_simple(17) [of s e] by (cases "announced m = VPN_STATE_DISCONNECTED") (auto simp del: calm_simple(17))
  then have n: "calm s (state_notification ops prev st m' (s1\<lparr> fLastState := x \<rparr>))"
    "calm s (state_notification ops prev st m' (s1\<lparr> fLastState := x, fConnectedHost := y, fLastServerSummary := y \<rparr>))" for prev st m' x y
    by (auto intro: calm_trans [OF _ calm_notification])
  obtain m' s2 where h: "HandleStatusForNotification ops e m s = (m', s2)" by fastforce
  then have "calm s s2" using c n \<open>calm s s1\<close> unfolding HandleStatusForNotification_def Let_def by auto
  then show ?thesis using calm_chain(3) by (simp add: HandleStatusUpdate_def h)
qed

lemma calm_AttemptReconnect: "calm s (AttemptReconnect ops e s)"
proof -
  let ?p = "Unarchive (fReconnectProfile s) VPNProfile"
  let ?s0 = "set_credentials ops (fReconnectUser (SelectBackend (fBackendType ?p) s)) (fReconnectPass (SelectBackend (fBackendType ?p) s)) (SelectBackend (fBackendType ?p) s)"
  obtain r s1 where b: "backend_connect ops ?p ?s0 = (r, s1)" by fastforce
  obtain s2 ok where c: "StartReconnectCountdown e s1 = (s2, ok)" by fastforce
  have "calm s ?s0" by (intro calm_chain) simp
  then have 1: "calm s s1" using calm_trans calm_simple(18) [of ?s0 ops ?p] b by (metis snd_conv)
  then have 2: "calm s s2" using calm_trans calm_simple(17) [of s1 e] c by (metis fst_conv)
  have "AttemptReconnect ops e s = (if r \<noteq> B_OK then if ok then BroadcastReconnecting ops e s2 else s2 else s1)"
    using b c by (simp add: AttemptReconnect_def Let_def)
  then show ?thesis using 1 2 calm_chain(3) [OF 2] by (simp add: BroadcastReconnecting_def)
qed

lemma calm_tick: "calm s (HandleReconnectTick ops e s)"
proof -
  have "calm s (AttemptReconnect ops e (CancelReconnect s))" by (rule calm_trans [OF calm_simple(15) calm_AttemptReconnect])
  then show ?thesis by (auto simp: HandleReconnectTick_def BroadcastReconnecting_def)
qed

lemma calm_connect: "calm s (HandleConnect ops e ret m s)"
proof -
  have b: "calm s (snd (backend_connect ops p t))" if "calm s t" for p t using calm_trans [OF that] by simp
  have "calm s (snd (backend_connect ops p (ArmReconnect m u w (HandleSubscribe e ret m (set_credentials ops u w (SelectBackend ty s))))))" for p u w ty
    by (intro b calm_chain calm_simple)
  then show ?thesis by (auto simp: HandleConnect_def Let_def split_beta)
qed

lemma calm_vpngate: "calm s (HandleConnectVPNGate ops e ret m s)"
proof -
  have "calm s (HandleConnect ops e 0 m' (s\<lparr> fConnectedHost := x, sv_files := f \<rparr>))" for m' x f
    by (rule calm_trans [OF _ calm_connect]) simp
  then show ?thesis by (auto simp: HandleConnectVPNGate_def Let_def split_beta split: option.split)
qed

lemma calm_geo: "calm s (HandleHomeGeoResult ops e m s)" "calm s (HandleCountryResult ops e m s)"
proof -
  have "calm s t" if "fClients t = fClients s \<and> fProfiles t = fProfiles s \<and> fCataloguePending t = fCataloguePending s
      \<and> fCatalogueFetchInFlight t = fCatalogueFetchInFlight s" for t using that by (simp add: calm_def)
  then show "calm s (HandleHomeGeoResult ops e m s)"
    by (auto simp: HandleHomeGeoResult_def Let_def split_beta split: option.split)
  show "calm s (HandleCountryResult ops e m s)" by (auto simp: HandleCountryResult_def Let_def)
qed

lemma calm_disconnect: "calm s (HandleDisconnect ops e s)"
proof -
  have "calm s (CancelReconnect (s\<lparr> fUserInitiatedDisconnect := True \<rparr>))" by (intro calm_chain) simp
  then show ?thesis by (auto simp: HandleDisconnect_def Let_def intro!: calm_chain(3))
qed

definition book_inv :: "('w, 'c) server \<Rightarrow> bool" where
  "book_inv s \<longleftrightarrow> distinct (fClients s) \<and> wf_profiles (fProfiles s) \<and> (fCataloguePending s \<noteq> [] \<longrightarrow> fCatalogueFetchInFlight s)"

definition daemon_inv :: "('w, 'c) server \<Rightarrow> bool" where
  "daemon_inv s \<longleftrightarrow> reconnect_inv s \<and> book_inv s"

lemma book_inv_calm: "calm s s' \<Longrightarrow> book_inv s \<Longrightarrow> book_inv s'"
  by (simp add: calm_def book_inv_def)

lemma Stage_keeps: "StageImportedConfig e p files = (p', files') \<Longrightarrow> fName p' = fName p \<and> fBackendType p' = fBackendType p"
  by (auto simp: StageImportedConfig_def Let_def split: option.splits if_splits)

lemma SaveProfile_wf:
  "SaveProfile flatten env p (ps, d) = (r, ps', d') \<Longrightarrow> wf_profiles ps \<Longrightarrow> known_backend (fBackendType p) \<Longrightarrow> wf_profiles ps'"
  using upsert_wf by (auto simp: SaveProfile_def Let_def split: if_splits prod.splits)

lemma DeleteProfile_wf: "DeleteProfile flatten env n (ps, d) = (r, ps', d') \<Longrightarrow> wf_profiles ps \<Longrightarrow> wf_profiles ps'"
  using erase_wf by (auto simp: DeleteProfile_def Let_def split: if_splits prod.splits)

lemma HandleSaveProfile_book:
  assumes "book_inv s"
  shows "book_inv (HandleSaveProfile flatten e m s)"
proof (cases "FindMessage kFieldProfile m")
  case None
  then show ?thesis using assms by (simp add: HandleSaveProfile_def)
next
  case (Some a)
  obtain p files where st: "StageImportedConfig e (Unarchive a VPNProfile) (sv_files s) = (p, files)" by fastforce
  obtain r ps d where sv: "SaveProfile flatten (e_store e) p (fProfiles s, sv_disk s) = (r, ps, d)" by (metis prod.exhaust)
  have "known_backend (fBackendType VPNProfile)" by (simp add: VPNProfile_def known_backend_def int_backend_def)
  then have "known_backend (fBackendType p)" using Stage_keeps [OF st] Unarchive_known by simp
  then have "wf_profiles ps" using SaveProfile_wf [OF sv] assms by (simp add: book_inv_def)
  then have "book_inv (s\<lparr> sv_files := files, fProfiles := ps, sv_disk := d \<rparr>)" using assms by (simp add: book_inv_def)
  then show ?thesis using book_inv_calm [OF calm_simple(5)] by (auto simp: HandleSaveProfile_def Some st sv Let_def)
qed

lemma HandleDeleteProfile_book:
  assumes "book_inv s"
  shows "book_inv (HandleDeleteProfile flatten e m s)"
proof (cases "FindString kFieldProfileName m")
  case None
  then show ?thesis using assms by (simp add: HandleDeleteProfile_def)
next
  case (Some name)
  obtain r ps d where dl: "DeleteProfile flatten (e_store e) name (fProfiles s, sv_disk s) = (r, ps, d)" by (metis prod.exhaust)
  have "book_inv (s\<lparr> fProfiles := ps, sv_disk := d \<rparr>)" using assms DeleteProfile_wf [OF dl] by (simp add: book_inv_def)
  then show ?thesis
    using book_inv_calm [OF calm_trans [OF calm_simple(12) calm_simple(5)]] by (auto simp: HandleDeleteProfile_def Some dl Let_def)
qed

lemma HandleRequestVPNGate_book: "book_inv s \<Longrightarrow> book_inv (HandleRequestVPNGate e ret m s)"
  using book_inv_calm [OF calm_simple(1)] by (auto simp: HandleRequestVPNGate_def KickVPNGateFetch_def book_inv_def Let_def)

lemma HandleVPNGateFetched_book: "book_inv s \<Longrightarrow> book_inv (HandleVPNGateFetched e m s)"
proof -
  have "calm t (fold (\<lambda>c s. send_to e c (fCatalogueCache s) s) cs t)" for cs and t :: "('a, 'b) server"
    by (induction cs arbitrary: t) (auto intro: calm_trans [OF calm_simple(1)])
  then show "book_inv s \<Longrightarrow> ?thesis" by (simp add: HandleVPNGateFetched_def book_inv_def calm_def Let_def)
qed

lemma MessageReceived_book: "book_inv s \<Longrightarrow> book_inv (MessageReceived ops flatten e ret m s)"
  unfolding MessageReceived_def
  using HandleSaveProfile_book [of s flatten e m] HandleDeleteProfile_book [of s flatten e m]
    HandleRequestVPNGate_book [of s e ret m] HandleVPNGateFetched_book [of s e m]
    book_inv_calm [OF calm_connect [of s ops e ret m]] book_inv_calm [OF calm_disconnect [of s ops e]] book_inv_calm [OF calm_simple(6) [of s e ret m]]
    book_inv_calm [OF calm_simple(7) [of s e ret m]] book_inv_calm [OF calm_simple(8) [of s ops e ret m]] book_inv_calm [OF calm_vpngate [of s ops e ret m]]
    book_inv_calm [OF calm_simple(11) [of s ops m]] book_inv_calm [OF calm_tick [of s ops e]] book_inv_calm [OF calm_status [of s ops e m]]
    book_inv_calm [OF calm_simple(3) [of s e]] book_inv_calm [OF calm_geo(1) [of s ops e m]] book_inv_calm [OF calm_geo(2) [of s ops e m]]
  by (simp split: if_split)

lemma daemon_step_book: "book_inv s \<Longrightarrow> book_inv (daemon_step ops flatten ev s)"
proof (cases ev)
  case (Backends f)
  then show "book_inv s \<Longrightarrow> ?thesis" by (simp add: book_inv_def)
next
  case (Message e ret m)
  then show "book_inv s \<Longrightarrow> ?thesis" using MessageReceived_book by simp
qed

lemma daemon_inv_run: "daemon_inv s \<Longrightarrow> daemon_inv (daemon_run ops flatten evs s)"
  by (induction evs arbitrary: s) (simp_all add: daemon_inv_def daemon_step_book daemon_step_reconnect)

lemma daemon_inv_start: "wf_profiles ps \<Longrightarrow> daemon_inv (SotoportegoServer w files d ps)"
  by (simp add: daemon_inv_def book_inv_def reconnect_inv_def SotoportegoServer_def kReconnectMaxAttempts_def)

subsection \<open>An example daemon\<close>

text \<open>Backends that are one state each, accept every \<open>Connect\<close> and are named after nobody.\<close>

definition demo_ops :: "VPNState vpn_ops" where
  "demo_ops = \<lparr> be_State = (\<lambda>b w. w), be_Name = (\<lambda>b. []), be_Stats = (\<lambda>b w. ResetStats), be_LocalIP = (\<lambda>b w. []),
     be_RemoteIP = (\<lambda>b w. []), be_FillPeers = (\<lambda>b w m. m), be_Connect = (\<lambda>b p w. (B_OK, VPN_STATE_CONNECTING)),
     be_Disconnect = (\<lambda>b w. VPN_STATE_DISCONNECTED), be_SetCredentials = (\<lambda>b u p w. w), be_SetExitNode = (\<lambda>b k w. (B_OK, w)) \<rparr>"

definition demo_env :: daemon_env where
  "demo_env = \<lparr> e_valid = (\<lambda>c. c \<noteq> 0), e_alive = (\<lambda>c. True), e_strerror = (\<lambda>r. ''error''), e_now = 1, e_timer_ok = True,
     e_settings = Some ''/s'', e_cache = Some ''/c'', e_mkdir_ok = True, e_create_ok = True, e_copy_ok = True, e_partial = [],
     e_store = good_env \<rparr>"

definition demo_connect :: bmessage where
  "demo_connect = \<lparr> what = kMsgConnect, msg_fields =
     [(kFieldProfile, MessageV [] [(kFieldProfileName, StringV ''tail''), (kFieldProfileBackend, Int32V 3)])] \<rparr>"

definition demo_dropped :: bmessage where
  "demo_dropped = \<lparr> what = kMsgStatusUpdate, msg_fields = [(kFieldState, Int32V 0)] \<rparr>"

definition demo_server :: "(VPNState, bmessage) server" where
  "demo_server = SotoportegoServer VPN_STATE_DISCONNECTED Map.empty fresh_disk []"

definition demo_up :: "(VPNState, bmessage) server" where
  "demo_up = daemon_run demo_ops (\<lambda>m. m) [Message demo_env 7 demo_connect] demo_server"

lemmas demo_defs = demo_ops_def demo_env_def demo_connect_def demo_dropped_def demo_server_def

lemma demo_up_fields:
  "fUserInitiatedDisconnect demo_up = False" "fReconnectArmed demo_up = True" "fReconnectAttempt demo_up = 0"
  "fReconnectTimer demo_up = False" "fClients demo_up = [7]" "length (sv_connects demo_up) = 1" "sv_world demo_up = VPN_STATE_CONNECTING"
  by (simp_all add: demo_up_def demo_defs MessageReceived_def HandleConnect_def idle_state_def SotoportegoServer_def FindMessage_def FindData_def
      values_of_def Unarchive_def find_defs kFieldProfile_def profile_names int_backend_def VPNProfile_def needs_config_file_def
      SelectBackend_def field_or_empty_def set_credentials_def kFieldUsername_def kFieldPassword_def kFieldAuthKey_def
      HandleSubscribe_def ClientFrom_def kFieldClient_def SendProfileList_def send_to_def ArmReconnect_def CancelReconnect_def
      backend_connect_def Let_def)

subsection \<open>Announcing a drop\<close>

lemma Find_add_if: "n \<noteq> k \<Longrightarrow> FindData n (add_if b k v m) = FindData n m"
  using Find_other [of k n v m] by (auto simp: add_if_def)

lemma values_replace_other: "k \<noteq> n \<Longrightarrow> values_of k (replace_or_add n v m) = values_of k m"
proof -
  assume k: "k \<noteq> n"
  have "replace_first n v fs = Some gs \<Longrightarrow> filter (\<lambda>f. fst f = k) gs = filter (\<lambda>f. fst f = k) fs" for fs gs
    using k by (induction fs arbitrary: gs) (auto split: if_splits)
  then show ?thesis using k by (auto simp: replace_or_add_def values_of_def split: option.split) (simp add: Add_def)
qed

definition typed_as :: "string \<Rightarrow> fval \<Rightarrow> bmessage \<Rightarrow> bool" where
  "typed_as n v m \<longleftrightarrow> values_of n m = [] \<or> (\<exists>u us. values_of n m = u # us \<and> same_type u v)"

lemma typed_replace: "typed_as n v m \<Longrightarrow> FindData n (replace_or_add n v m) = Some v"
  unfolding typed_as_def by (rule Find_replace_or_add)

lemma same_type_same: "same_type u (Int32V a) \<Longrightarrow> same_type u (Int32V b)" "same_type u (StringV p) \<Longrightarrow> same_type u (StringV q)"
  by (cases u; simp)+

lemma typed_as_same: "typed_as n (Int32V a) m \<Longrightarrow> typed_as n (Int32V b) m" "typed_as n (StringV p) m \<Longrightarrow> typed_as n (StringV q) m"
  unfolding typed_as_def using same_type_same by blast+

lemmas enrich_names = kFieldState_def kFieldDetail_def kFieldHomeCountry_def kFieldHomeIP_def kFieldHomeLat_def kFieldHomeLon_def
  kFieldConnectedHost_def kFieldPeer_def

lemma Find_Enrich:
  assumes "\<And>n m. n \<noteq> kFieldPeer \<Longrightarrow> FindData n (be_FillPeers ops (fBackend s) (sv_world s) m) = FindData n m"
  shows "FindData kFieldState (EnrichForBroadcast ops s m) = FindData kFieldState m"
    "FindData kFieldDetail (EnrichForBroadcast ops s m) = FindData kFieldDetail m"
proof -
  have "n \<noteq> kFieldPeer \<Longrightarrow> n \<noteq> kFieldHomeCountry \<Longrightarrow> n \<noteq> kFieldHomeIP \<Longrightarrow> n \<noteq> kFieldHomeLat \<Longrightarrow> n \<noteq> kFieldHomeLon \<Longrightarrow> n \<noteq> kFieldConnectedHost \<Longrightarrow>
      FindData n (EnrichForBroadcast ops s m) = FindData n m" for n
    by (simp add: EnrichForBroadcast_def Let_def assms Find_add_if)
  then show "FindData kFieldState (EnrichForBroadcast ops s m) = FindData kFieldState m"
    "FindData kFieldDetail (EnrichForBroadcast ops s m) = FindData kFieldDetail m" by (simp_all add: enrich_names)
qed

definition retry_detail :: "int \<Rightarrow> string" where
  "retry_detail attempt = ''retry in '' @ show_nat (nat (reconnect_delay_seconds attempt)) @ ''s (attempt '' @ show_nat (nat attempt) @ ''/5)''"

lemma show_5: "show_nat (nat kReconnectMaxAttempts) = ''5''"
  by (simp add: kReconnectMaxAttempts_def show_nat.simps char_of_def bit_0)

text \<open>A countdown that starts, as seen by the status handler.\<close>

lemma status_retry:
  assumes s: "fReconnectArmed s" "\<not> fUserInitiatedDisconnect s" "fReconnectAttempt s < kReconnectMaxAttempts" "e_timer_ok e"
    and m: "announced m = VPN_STATE_DISCONNECTED"
  obtains s' where
    "HandleStatusForNotification ops e m s = (replace_or_add kFieldDetail (StringV (retry_detail (fReconnectAttempt s + 1)))
        (replace_or_add kFieldState (Int32V (state_int VPN_STATE_RECONNECTING)) m), s')"
    "fReconnectTimer s'" "fReconnectSecondsLeft s' = reconnect_delay_seconds (fReconnectAttempt s + 1)"
    "fReconnectAttempt s' = fReconnectAttempt s + 1" "fClients s' = fClients s" "sv_sent s' = sv_sent s" "fBackend s' = fBackend s" "sv_world s' = sv_world s"
proof -
  let ?s1 = "s\<lparr> fReconnectTimer := True, fReconnectAttempt := fReconnectAttempt s + 1,
        fReconnectSecondsLeft := reconnect_delay_seconds (fReconnectAttempt s + 1) \<rparr>"
  have c: "StartReconnectCountdown e s = (?s1, True)"
    using s by (simp add: StartReconnectCountdown_def CancelReconnect_def Let_def)
  have d: "ReconnectDetail ?s1 = retry_detail (fReconnectAttempt s + 1)"
    by (simp add: ReconnectDetail_def retry_detail_def show_5)
  have n: "state_notification ops prev VPN_STATE_RECONNECTING x t = t" for prev x and t :: "('a, 'b) server"
    by (simp add: state_notification_def)
  show ?thesis
    by (rule that [of "?s1\<lparr> fLastState := VPN_STATE_RECONNECTING \<rparr>"])
       (simp_all add: HandleStatusForNotification_def m c d n idle_state_def Let_def del: state_int.simps)
qed

subsection \<open>Properties\<close>

text \<open>
  C7. In every history of messages, whatever the backends do in between: a countdown runs only after
  a connect that no user disconnect has followed, with 1 to 60 seconds left and at most five attempts
  spent; no client is subscribed twice; the profiles have distinct non-empty names; and a client
  waits for the server catalogue only while a fetch is under way, so no request is stranded.
\<close>

theorem daemon_invariant:
  assumes "wf_profiles ps"
  shows "daemon_inv (daemon_run ops flatten evs (SotoportegoServer w files d ps))"
  by (rule daemon_inv_run [OF daemon_inv_start [OF assms]])

theorem daemon_invariant_witness:
  "daemon_inv demo_up \<and> fReconnectArmed demo_up \<and> fClients demo_up = [7]"
  using daemon_invariant [of "[]" demo_ops "\<lambda>m. m" "[Message demo_env 7 demo_connect]" VPN_STATE_DISCONNECTED Map.empty fresh_disk]
  by (simp add: demo_up_fields wf_profiles_def) (simp add: demo_up_def demo_server_def)

text \<open>
  C8. A user's disconnect is final: from then on no backend is asked to connect, neither by a
  countdown that was running nor by a drop that is reported later, until a client asks for a
  connection again.
\<close>

theorem disconnect_is_final:
  assumes "what m = kMsgDisconnect" "\<forall>ev \<in> set evs. \<not> connect_request ev"
  shows "sv_connects (daemon_run ops flatten (Message e ret m # evs) s) = sv_connects s
    \<and> \<not> fReconnectTimer (daemon_run ops flatten (Message e ret m # evs) s)"
proof -
  have h: "MessageReceived ops flatten e ret m s = HandleDisconnect ops e s"
    using assms(1) by (simp add: MessageReceived_def msg_codes)
  have "given_up (HandleDisconnect ops e s)" "sv_connects (HandleDisconnect ops e s) = sv_connects s"
    using HandleDisconnect_rc [of ops e s] by (simp_all add: given_up_def rc_def)
  then show ?thesis using given_up_run [OF _ assms(2), of "HandleDisconnect ops e s"] h by (simp add: given_up_def)
qed

theorem disconnect_is_final_witness:
  "length (sv_connects (daemon_run demo_ops (\<lambda>m. m) [Message demo_env 7 (BMessage kMsgDisconnect), Message demo_env 0 demo_dropped] demo_up)) = 1"
proof -
  have "sv_connects (daemon_run demo_ops (\<lambda>m. m) (Message demo_env 7 (BMessage kMsgDisconnect) # [Message demo_env 0 demo_dropped]) demo_up) = sv_connects demo_up"
    by (rule conjunct1 [OF disconnect_is_final]) (simp_all add: connect_request_def demo_dropped_def msg_codes)
  then show ?thesis by (simp add: demo_up_fields)
qed

text \<open>
  C12. The retries are bounded: after a connect request that reached a backend, and until the next
  request or the next report that the tunnel is up, the daemon calls \<open>Connect\<close> at most five more
  times, in whatever order drops, ticks and other messages arrive.
\<close>

theorem reconnect_bounded:
  assumes "reconnect_inv s0" "s = daemon_step ops flatten (Message e ret m) s0" "what m = kMsgConnect \<or> what m = kMsgConnectVPNGate"
    and "sv_connects s \<noteq> sv_connects s0" "\<forall>ev \<in> set evs. \<not> connect_request ev \<and> \<not> connected_event ev"
  shows "length (sv_connects (daemon_run ops flatten evs s)) \<le> length (sv_connects s) + 5"
proof -
  have "reconnect_inv s" using assms(1,2) daemon_step_reconnect by blast
  from budget_run [OF this assms(5), of ops flatten] have "length (sv_connects (daemon_run ops flatten evs s)) \<le> length (sv_connects s) + budget s" by linarith
  moreover have "budget s \<le> 5"
  proof (cases rule: MessageReceived_rc [of ops flatten e ret m s0])
    case (connect x)
    then show ?thesis using assms(2) by (simp add: rc_def budget_def kReconnectMaxAttempts_def)
  qed (use assms(2-4) in \<open>auto simp: rc_def msg_codes\<close>)
  ultimately show ?thesis by linarith
qed

theorem reconnect_bounded_witness:
  "length (sv_connects (daemon_run demo_ops (\<lambda>m. m) (replicate 1000 (Message demo_env 0 demo_dropped)) demo_up)) \<le> 6"
proof -
  have i: "reconnect_inv demo_server" by (simp add: reconnect_inv_def demo_server_def SotoportegoServer_def kReconnectMaxAttempts_def)
  have u: "demo_up = daemon_step demo_ops (\<lambda>m. m) (Message demo_env 7 demo_connect) demo_server" by (simp add: demo_up_def)
  have w: "what demo_connect = kMsgConnect \<or> what demo_connect = kMsgConnectVPNGate" by (simp add: demo_connect_def)
  have "sv_connects demo_server = []" by (simp add: demo_server_def SotoportegoServer_def)
  then have n: "sv_connects demo_up \<noteq> sv_connects demo_server" using demo_up_fields(6) by auto
  have "announced demo_dropped = VPN_STATE_DISCONNECTED"
    by (simp add: announced_def demo_dropped_def FindInt32_def FindData_def values_of_def int_state_def)
  then have "\<forall>ev \<in> set (replicate 1000 (Message demo_env 0 demo_dropped)). \<not> connect_request ev \<and> \<not> connected_event ev"
    by (simp add: connect_request_def connected_event_def) (simp add: demo_dropped_def msg_codes)
  from reconnect_bounded [OF i u w n this] show ?thesis by (simp add: demo_up_fields)
qed

text \<open>
  C13. An unexpected drop is never shown as \<open>Disconnected\<close>: while a retry is due, the report of the drop
  starts the countdown of the next attempt and reaches every live subscriber exactly once, rewritten
  to \<open>Reconnecting\<close> with the seconds to wait (5, 10, 20, 40, 60) and the number of the attempt.
\<close>

theorem drop_becomes_countdown:
  assumes "fReconnectArmed s" "\<not> fUserInitiatedDisconnect s" "fReconnectAttempt s < kReconnectMaxAttempts" "e_timer_ok e"
    and "what m = kMsgStatusUpdate" "announced m = VPN_STATE_DISCONNECTED"
    and "typed_as kFieldState (Int32V 0) m" "typed_as kFieldDetail (StringV []) m"
    and "\<And>n m. n \<noteq> kFieldPeer \<Longrightarrow> FindData n (be_FillPeers ops (fBackend s) (sv_world s) m) = FindData n m"
  shows "\<exists>m'. sv_sent (MessageReceived ops flatten e ret m s) = sv_sent s @ map (\<lambda>c. (c, m')) (filter (e_alive e) (fClients s))
    \<and> announced m' = VPN_STATE_RECONNECTING \<and> FindString kFieldDetail m' = Some (retry_detail (fReconnectAttempt s + 1))
    \<and> fReconnectTimer (MessageReceived ops flatten e ret m s)
    \<and> fReconnectSecondsLeft (MessageReceived ops flatten e ret m s) = reconnect_delay_seconds (fReconnectAttempt s + 1)"
proof -
  let ?v = "Int32V (state_int VPN_STATE_RECONNECTING)" and ?d = "StringV (retry_detail (fReconnectAttempt s + 1))"
  let ?m1 = "replace_or_add kFieldState ?v m" let ?m2 = "replace_or_add kFieldDetail ?d ?m1"
  obtain s' where h: "HandleStatusForNotification ops e m s = (?m2, s')" and f: "fReconnectTimer s'"
    "fReconnectSecondsLeft s' = reconnect_delay_seconds (fReconnectAttempt s + 1)" "fClients s' = fClients s" "sv_sent s' = sv_sent s"
    "fBackend s' = fBackend s" "sv_world s' = sv_world s"
    using status_retry [OF assms(1-4,6), of ops] by metis
  have n: "kFieldState \<noteq> kFieldDetail" "kFieldDetail \<noteq> kFieldState" by (simp_all add: kFieldState_def kFieldDetail_def)
  have "typed_as kFieldState ?v m" using assms(7) by (rule typed_as_same(1))
  then have "FindData kFieldState ?m1 = Some ?v" by (rule typed_replace)
  then have st: "FindData kFieldState ?m2 = Some ?v" using values_replace_other [OF n(1)] by (simp add: FindData_def)
  have "typed_as kFieldDetail ?d ?m1" using typed_as_same(2) [OF assms(8)] values_replace_other [OF n(2)] by (simp add: typed_as_def)
  then have de: "FindData kFieldDetail ?m2 = Some ?d" by (rule typed_replace)
  let ?m' = "EnrichForBroadcast ops s' ?m2"
  have "MessageReceived ops flatten e ret m s = Broadcast e ?m' s'"
    using assms(5) h by (simp add: MessageReceived_def msg_codes HandleStatusUpdate_def)
  moreover have fp: "n \<noteq> kFieldPeer \<Longrightarrow> FindData n (be_FillPeers ops (fBackend s') (sv_world s') m) = FindData n m" for n m
    using assms(9) f(5,6) by simp
  have "announced ?m' = VPN_STATE_RECONNECTING" "FindString kFieldDetail ?m' = Some (retry_detail (fReconnectAttempt s + 1))"
    using Find_Enrich [of ops s', OF fp] st de by (simp_all add: announced_def FindInt32_def FindString_def int_state_def)
  ultimately show ?thesis using f by (auto simp: Broadcast_def)
qed

theorem drop_becomes_countdown_witness:
  "\<exists>m'. last (sv_sent (MessageReceived demo_ops (\<lambda>m. m) demo_env 0 demo_dropped demo_up)) = (7, m') \<and> announced m' = VPN_STATE_RECONNECTING"
proof -
  have a: "announced demo_dropped = VPN_STATE_DISCONNECTED"
    by (simp add: announced_def demo_dropped_def FindInt32_def FindData_def values_of_def int_state_def)
  have t: "typed_as kFieldState (Int32V 0) demo_dropped" "typed_as kFieldDetail (StringV []) demo_dropped"
    by (simp_all add: typed_as_def demo_dropped_def values_of_def kFieldState_def kFieldDetail_def)
  have "fReconnectArmed demo_up" "\<not> fUserInitiatedDisconnect demo_up" "fReconnectAttempt demo_up < kReconnectMaxAttempts"
    by (simp_all add: demo_up_fields kReconnectMaxAttempts_def)
  moreover have "e_timer_ok demo_env" "what demo_dropped = kMsgStatusUpdate" by (simp_all add: demo_env_def demo_dropped_def)
  moreover have "FindData n (be_FillPeers demo_ops b w m) = FindData n m" for n b w m by (simp add: demo_ops_def)
  ultimately obtain m' where "sv_sent (MessageReceived demo_ops (\<lambda>m. m) demo_env 0 demo_dropped demo_up)
      = sv_sent demo_up @ map (\<lambda>c. (c, m')) (filter (e_alive demo_env) (fClients demo_up))" "announced m' = VPN_STATE_RECONNECTING"
    using drop_becomes_countdown [of demo_up demo_env demo_dropped demo_ops "\<lambda>m. m" 0] a t by blast
  then show ?thesis by (simp add: demo_up_fields demo_env_def)
qed

subsection \<open>What the daemon does not guard against\<close>

text \<open>
  Saving a profile writes inside the config store only, whatever the profile is called: the name of
  the copy has no slash in it.
\<close>

lemma ToHex_no_slash: "CHR ''/'' \<notin> set (ToHex bs)"
proof (induction bs)
  case (Cons b bs)
  have "n < 16 \<Longrightarrow> kHex ! n \<noteq> CHR ''/''" for n
    using nth_mem [of n kHex] by (auto simp: kHex_def)
  moreover have "unat b div 16 < 16" "unat b mod 16 < 16" using unsigned_less [of b, where 'a = nat] by (auto simp: less_mult_imp_div_less)
  ultimately have "kHex ! (unat b div 16) \<noteq> CHR ''/''" "kHex ! (unat b mod 16) \<noteq> CHR ''/''" by blast+
  then show ?case using Cons by (simp add: ToHex_Cons)
qed (simp add: ToHex_def)

lemma sanitize_no_slash: "CHR ''/'' \<notin> set fallback \<Longrightarrow> CHR ''/'' \<notin> set (sanitize_filename name fallback)"
  by (auto simp: sanitize_filename_def Let_def filename_char_def islower_def isupper_def isdigit_def)

lemma save_stays_in_store:
  assumes "sv_files (HandleSaveProfile flatten e m s) path \<noteq> sv_files s path"
  shows "\<exists>dir f. imported_config_dir e = Some dir \<and> path = dir @ ''/'' @ f \<and> CHR ''/'' \<notin> set f"
proof -
  have "snd (StageImportedConfig e p files) q = files q \<or>
      (\<exists>dir. imported_config_dir e = Some dir \<and> q = dir @ ''/'' @ sanitize_filename (fName p) ''profile'' @ ''-'' @ name_hash (fName p) @ ''.ovpn'')"
    for p files q by (auto simp: StageImportedConfig_def Let_def split: option.splits)
  moreover obtain p where "sv_files (HandleSaveProfile flatten e m s) path = snd (StageImportedConfig e p (sv_files s)) path"
    using assms by (auto simp: HandleSaveProfile_def BroadcastProfileList_def Broadcast_def Let_def split: option.splits prod.splits if_splits)
      (metis snd_conv)+
  ultimately obtain dir where "imported_config_dir e = Some dir"
      "path = dir @ ''/'' @ sanitize_filename (fName p) ''profile'' @ ''-'' @ name_hash (fName p) @ ''.ovpn''"
    using assms by metis
  moreover have "CHR ''/'' \<notin> set (sanitize_filename (fName p) ''profile'' @ ''-'' @ name_hash (fName p) @ ''.ovpn'')"
    using sanitize_no_slash [of "''profile''"] by (auto simp: name_hash_def Let_def ToHex_no_slash)
  ultimately show ?thesis by blast
qed

text \<open>
  Deleting does not: a profile whose path starts with the store directory but leaves it again is
  kept as it is when saved, and its deletion removes the file it names.
\<close>

lemma delete_escapes_store:
  assumes "imported_config_dir e = Some dir"
    and "fConfigPath p = dir @ ''/../../victim''" "fProfiles s = [p]" "fName p = name" "FindString kFieldProfileName m = Some name"
    and "fst (DeleteProfile flatten (e_store e) name (fProfiles s, sv_disk s)) = B_OK"
  shows "StageImportedConfig e p files = (p, files)" "sv_files (HandleDeleteProfile flatten e m s) (dir @ ''/../../victim'') = None"
proof -
  show "StageImportedConfig e p files = (p, files)"
    using assms(1,2) by (simp add: StageImportedConfig_def starts_with_def)
  obtain d where "DeleteProfile flatten (e_store e) name (fProfiles s, sv_disk s) = (B_OK, [], d)"
    using assms(3,4,6) by (auto simp: DeleteProfile_def Let_def split: if_splits prod.splits)
  then show "sv_files (HandleDeleteProfile flatten e m s) (dir @ ''/../../victim'') = None"
    using assms by (simp add: HandleDeleteProfile_def RemoveStagedConfig_def starts_with_def BroadcastProfileList_def Broadcast_def)
qed

text \<open>A VPNGate request that is refused because a session is up still replaces the host that is shown for this session.\<close>

lemma vpngate_refused_keeps_host:
  assumes "\<not> idle_state (be_State ops (fBackend s) (sv_world s))"
    and "FindString kFieldVPNGateHost m = Some host" "FindString kFieldVPNGateConfigBase64 m = Some b"
    and "fst (WriteVPNGateConfig e host b (sv_files s)) \<noteq> []"
  shows "fConnectedHost (HandleConnectVPNGate ops e ret m s) = host" "sv_connects (HandleConnectVPNGate ops e ret m s) = sv_connects s"
  using assms by (auto simp: HandleConnectVPNGate_def HandleConnect_def reply_to_def send_to_def Let_def split: prod.splits)

text \<open>A failed fetch is kept like a successful one: the next requests get its error, and no fetch is started.\<close>

lemma failed_fetch_cached:
  assumes "FindMessages kFieldVPNGateServer m = []" "FindString kFieldError m = Some x"
    and "0 < e_now e" "e_now e' - e_now e < kCatalogueTTL" "FindBool ''force'' r = None" "e_valid e' (ClientFrom e' ret r)"
  shows "sv_jobs (HandleRequestVPNGate e' ret r (HandleVPNGateFetched e m s)) = sv_jobs s"
proof -
  have jobs: "sv_jobs (fold (\<lambda>c s. send_to e c (fCatalogueCache s) s) cs t) = sv_jobs t
      \<and> fCatalogueCache (fold (\<lambda>c s. send_to e c (fCatalogueCache s) s) cs t) = fCatalogueCache t
      \<and> fCatalogueFetchedAt (fold (\<lambda>c s. send_to e c (fCatalogueCache s) s) cs t) = fCatalogueFetchedAt t" for cs and t :: "('a, 'b) server"
    by (induction cs arbitrary: t) (simp_all add: send_to_def)
  have "msg_fields (catalogue m) \<noteq> []" using assms(1,2) by (simp add: catalogue_def Add_def)
  then show ?thesis using assms(3-6) jobs by (simp add: HandleVPNGateFetched_def HandleRequestVPNGate_def Let_def send_to_def)
qed

text \<open>
  A report \<open>Connected\<close> does not stop a countdown: one that a late \<open>Disconnected\<close> of the previous
  session started after a new connect goes on under the new session.
\<close>

lemma connected_keeps_countdown:
  assumes "what m = kMsgStatusUpdate" "announced m = VPN_STATE_CONNECTED"
  shows "fReconnectTimer (MessageReceived ops flatten e ret m s) = fReconnectTimer s"
    "fReconnectSecondsLeft (MessageReceived ops flatten e ret m s) = fReconnectSecondsLeft s"
proof -
  obtain m' s' where h: "HandleStatusForNotification ops e m s = (m', s')" by fastforce
  then have "fReconnectTimer s' = fReconnectTimer s \<and> fReconnectSecondsLeft s' = fReconnectSecondsLeft s"
    using assms(2) by (auto simp: HandleStatusForNotification_def state_notification_def PostNotification_def KickHomeGeoLookup_def
      Let_def split: if_splits)
  then show "fReconnectTimer (MessageReceived ops flatten e ret m s) = fReconnectTimer s"
    "fReconnectSecondsLeft (MessageReceived ops flatten e ret m s) = fReconnectSecondsLeft s"
    using assms(1) h by (simp_all add: MessageReceived_def msg_codes HandleStatusUpdate_def Broadcast_def)
qed

end
