(* ===== verification/OpenVPN.thy ===== *)
theory OpenVPN
  imports VPNTypes
begin

text \<open>
  The platform-independent parts of the OpenVPN backend: the management protocol
  (\<open>src/src/backend/OpenVPNManagement.cpp\<close>) and the reading of \<open>.ovpn\<close> files
  (\<open>src/src/common/OpenVPNConfigParser.cpp\<close>).  Shown here: the events do not depend on how the socket
  cuts the bytes, what is inside an inline block of a file is never taken for a directive, a valid
  \<open>port\<close> line decides the port wherever it stands, and an escaped argument is read back unchanged.
\<close>

subsection \<open>Events of the management interface\<close>

definition ov_trim :: "string \<Rightarrow> string" where
  "ov_trim s = trim_ends (\<lambda>c. c = CHR '' '' \<or> c = CHR 0x09)
     (\<lambda>c. c = CHR '' '' \<or> c = CHR 0x09 \<or> c = CHR 0x0D \<or> c = CHR 0x0A) s"

definition extract_quoted :: "string \<Rightarrow> string" where
  "extract_quoted s =
     (case find_first (CHR 0x27) s of None \<Rightarrow> []
      | Some i \<Rightarrow> (let r = drop (Suc i) s in case find_first (CHR 0x27) r of None \<Rightarrow> [] | Some j \<Rightarrow> take j r))"

definition ov_starts_with :: "string \<Rightarrow> string \<Rightarrow> bool" where
  "ov_starts_with s prefix \<longleftrightarrow> take (length prefix) s = prefix"

datatype OpenVPNEventType =
    OPENVPN_EVENT_STATE | OPENVPN_EVENT_BYTECOUNT | OPENVPN_EVENT_PASSWORD_REQUEST | OPENVPN_EVENT_AUTH_FAILED
  | OPENVPN_EVENT_HOLD | OPENVPN_EVENT_LOG | OPENVPN_EVENT_INFO | OPENVPN_EVENT_FATAL
  | OPENVPN_EVENT_SUCCESS | OPENVPN_EVENT_ERROR | OPENVPN_EVENT_UNKNOWN

record ov_event =
  ov_type :: OpenVPNEventType
  ov_raw :: string
  ov_stateName :: string
  ov_stateDetail :: string
  ov_localIP :: string
  ov_remoteIP :: string
  ov_mappedState :: VPNState
  ov_bytesIn :: u64
  ov_bytesOut :: u64
  ov_realm :: string
  ov_message :: string

definition OpenVPNEvent :: ov_event where
  "OpenVPNEvent = \<lparr> ov_type = OPENVPN_EVENT_UNKNOWN, ov_raw = [], ov_stateName = [], ov_stateDetail = [],
     ov_localIP = [], ov_remoteIP = [], ov_mappedState = VPN_STATE_ERROR, ov_bytesIn = 0, ov_bytesOut = 0,
     ov_realm = [], ov_message = [] \<rparr>"

definition StateForName :: "string \<Rightarrow> VPNState" where
  "StateForName n =
     (if n \<in> {''CONNECTING'', ''RESOLVE'', ''TCP_CONNECT'', ''WAIT''} then VPN_STATE_CONNECTING
      else if n \<in> {''AUTH'', ''AUTH_PENDING'', ''GET_CONFIG'', ''ASSIGN_IP'', ''ADD_ROUTES''} then VPN_STATE_AUTHENTICATING
      else if n = ''CONNECTED'' then VPN_STATE_CONNECTED
      else if n = ''RECONNECTING'' then VPN_STATE_RECONNECTING
      else if n = ''EXITING'' then VPN_STATE_DISCONNECTED
      else VPN_STATE_ERROR)"

text \<open>Field \<open>i\<close> of a comma-separated payload, \<open>old\<close> when there are fewer.\<close>

definition ov_field :: "string list \<Rightarrow> nat \<Rightarrow> string \<Rightarrow> string" where
  "ov_field f i old = (if i < length f then f ! i else old)"

definition parse_notification :: "string \<Rightarrow> string \<Rightarrow> ov_event \<Rightarrow> ov_event" where
  "parse_notification tag payload e =
     (if tag = ''STATE'' then
        (let f = split_on (CHR '','') payload;
             e = e\<lparr> ov_type := OPENVPN_EVENT_STATE, ov_stateName := ov_field f 1 (ov_stateName e),
                    ov_stateDetail := ov_field f 2 (ov_stateDetail e), ov_localIP := ov_field f 3 (ov_localIP e),
                    ov_remoteIP := ov_field f 4 (ov_remoteIP e) \<rparr>
         in e\<lparr> ov_mappedState := StateForName (ov_stateName e) \<rparr>)
      else if tag = ''BYTECOUNT'' then
        (let f = split_on (CHR '','') payload
         in e\<lparr> ov_type := OPENVPN_EVENT_BYTECOUNT,
               ov_bytesIn := (if 0 < length f then strtoull (c_str (f ! 0)) else ov_bytesIn e),
               ov_bytesOut := (if 1 < length f then strtoull (c_str (f ! 1)) else ov_bytesOut e) \<rparr>)
      else if tag = ''PASSWORD'' then
        e\<lparr> ov_type := (if ov_starts_with payload ''Verification Failed'' then OPENVPN_EVENT_AUTH_FAILED
                        else OPENVPN_EVENT_PASSWORD_REQUEST),
           ov_realm := extract_quoted payload, ov_message := payload \<rparr>
      else if tag = ''HOLD'' then e\<lparr> ov_type := OPENVPN_EVENT_HOLD, ov_message := payload \<rparr>
      else if tag = ''LOG'' then
        e\<lparr> ov_type := OPENVPN_EVENT_LOG,
           ov_message := (case find_first (CHR '','') payload of None \<Rightarrow> payload
             | Some i \<Rightarrow> (let r = drop (Suc i) payload in
                 case find_first (CHR '','') r of None \<Rightarrow> payload | Some j \<Rightarrow> drop (Suc j) r)) \<rparr>
      else if tag = ''INFO'' then e\<lparr> ov_type := OPENVPN_EVENT_INFO, ov_message := payload \<rparr>
      else if tag = ''FATAL'' then e\<lparr> ov_type := OPENVPN_EVENT_FATAL, ov_message := payload \<rparr>
      else e\<lparr> ov_type := OPENVPN_EVENT_UNKNOWN \<rparr>)"

definition ParseLine :: "string \<Rightarrow> ov_event" where
  "ParseLine rawLine =
     (let line = ov_trim rawLine; e = OpenVPNEvent\<lparr> ov_raw := line \<rparr> in
      if line = [] then e
      else if line ! 0 = CHR ''>'' then
        (case find_first (CHR '':'') line of
           None \<Rightarrow> parse_notification (drop 1 line) [] e
         | Some colon \<Rightarrow> parse_notification (drop 1 (take colon line)) (drop (Suc colon) line) e)
      else if ov_starts_with line ''SUCCESS:'' then e\<lparr> ov_type := OPENVPN_EVENT_SUCCESS, ov_message := ov_trim (drop 8 line) \<rparr>
      else if ov_starts_with line ''ERROR:'' then e\<lparr> ov_type := OPENVPN_EVENT_ERROR, ov_message := ov_trim (drop 6 line) \<rparr>
      else e\<lparr> ov_type := OPENVPN_EVENT_UNKNOWN \<rparr>)"

text \<open>The loop of \<open>Feed\<close>, over the buffered text: the events, and what stays in the buffer.\<close>

function feed_loop :: "string \<Rightarrow> ov_event list \<times> string" where
  "feed_loop buf =
     (case find_first (CHR 0x0A) buf of None \<Rightarrow> ([], buf)
      | Some i \<Rightarrow> (let (evs, rest) = feed_loop (drop (Suc i) buf) in (ParseLine (take i buf) # evs, rest)))"
  by pat_completeness auto
termination
  by (relation "measure length") (auto dest: find_first_Some)

declare feed_loop.simps [simp del]

definition Feed :: "string \<Rightarrow> string \<Rightarrow> ov_event list \<times> string" where
  "Feed fBuffer chunk = feed_loop (fBuffer @ chunk)"

subsection \<open>Commands\<close>

fun Escape :: "string \<Rightarrow> string" where
  "Escape [] = []"
| "Escape (c # cs) = (if c = CHR 0x5C \<or> c = CHR 0x22 then [CHR 0x5C, c] else [c]) @ Escape cs"

definition CommandUsername :: "string \<Rightarrow> string \<Rightarrow> string" where
  "CommandUsername realm username =
     ''username '' @ [CHR 0x22] @ Escape realm @ [CHR 0x22] @ '' '' @ [CHR 0x22] @ Escape username @ [CHR 0x22]"

definition CommandPassword :: "string \<Rightarrow> string \<Rightarrow> string" where
  "CommandPassword realm password =
     ''password '' @ [CHR 0x22] @ Escape realm @ [CHR 0x22] @ '' '' @ [CHR 0x22] @ Escape password @ [CHR 0x22]"

text \<open>The backend's own escaping (\<open>escape_arg\<close> of \<open>OpenVPNBackend.cpp\<close>), for the credentials it sends.\<close>

fun escape_loop :: "string \<Rightarrow> string" where
  "escape_loop [] = []"
| "escape_loop (c # cs) =
     (if c = CHR 0x5C \<or> c = CHR 0x22 then [CHR 0x5C, c]
      else if c = CHR 0x0A then [CHR 0x5C, CHR ''n'']
      else if c = CHR 0x0D then [CHR 0x5C, CHR ''r'']
      else [c]) @ escape_loop cs"

definition escape_arg :: "string \<Rightarrow> string" where
  "escape_arg v = escape_loop (c_str v)"

definition credential_command :: "string \<Rightarrow> string \<Rightarrow> string \<Rightarrow> string" where
  "credential_command verb realm v = verb @ '' '' @ [CHR 0x22] @ realm @ [CHR 0x22] @ '' '' @ [CHR 0x22] @ escape_arg v @ [CHR 0x22]"

definition CommandByteCount :: "int \<Rightarrow> string" where
  "CommandByteCount n = ''bytecount '' @ (if n < 0 then ''-'' else []) @ show_nat (nat \<bar>n\<bar>)"

definition CommandStateOn :: string where "CommandStateOn = ''state on''"
definition CommandHoldRelease :: string where "CommandHoldRelease = ''hold release''"
definition CommandSignalTerm :: string where "CommandSignalTerm = ''signal SIGTERM''"

subsection \<open>Configuration files\<close>

definition parse_port :: "string \<Rightarrow> u16" where
  "parse_port token =
     (let (v, rest) = strtol (c_str token) in
      if rest = c_str token \<or> rest \<noteq> [] \<or> v < 1 \<or> v > 65535 then 0 else word_of_int v)"

text \<open>The loop of \<open>tokenize\<close>: the token being collected, and the characters to come.\<close>

fun tokenize_loop :: "string \<Rightarrow> string \<Rightarrow> string list" where
  "tokenize_loop cur [] = (if cur \<noteq> [] then [cur] else [])"
| "tokenize_loop cur (c # cs) =
     (if c = CHR ''#'' \<or> c = CHR '';'' then (if cur \<noteq> [] then [cur] else [])
      else if c = CHR '' '' \<or> c = CHR 0x09 then (if cur \<noteq> [] then cur # tokenize_loop [] cs else tokenize_loop [] cs)
      else tokenize_loop (cur @ [c]) cs)"

definition tokenize :: "string \<Rightarrow> string list" where
  "tokenize s = tokenize_loop [] s"

definition normalize_proto :: "string \<Rightarrow> string" where
  "normalize_proto raw = (if take 3 raw = ''tcp'' then ''tcp'' else ''udp'')"

definition default_name_for :: "string \<Rightarrow> string" where
  "default_name_for path =
     (let name = (case find_last (CHR ''/'') path of Some i \<Rightarrow> drop (Suc i) path | None \<Rightarrow> path) in
      if 5 < length name \<and> (drop (length name - 5) name = ''.ovpn'' \<or> drop (length name - 5) name = ''.conf'')
      then take (length name - 5) name else name)"

text \<open>The local variables of \<open>ParseText\<close>.\<close>

record ovpn_parse =
  ov_profile :: VPNProfile
  ov_sawPort :: bool
  ov_sawRemote :: bool
  ov_inlineTag :: string

definition ovpn_directive :: "string list \<Rightarrow> ovpn_parse \<Rightarrow> ovpn_parse" where
  "ovpn_directive tokens s =
     (if hd tokens = ''remote'' \<and> 2 \<le> length tokens then
        (if ov_sawRemote s then s
         else
         let p = (ov_profile s)\<lparr> fServer := c_str (tokens ! 1) \<rparr>;
             p = (if 3 \<le> length tokens \<and> \<not> ov_sawPort s \<and> parse_port (tokens ! 2) \<noteq> 0
                  then p\<lparr> fPort := parse_port (tokens ! 2) \<rparr> else p);
             p = (if 4 \<le> length tokens then p\<lparr> fProtocol := normalize_proto (tokens ! 3) \<rparr> else p)
         in s\<lparr> ov_profile := p, ov_sawRemote := True \<rparr>)
      else if hd tokens = ''proto'' \<and> 2 \<le> length tokens then
        s\<lparr> ov_profile := (ov_profile s)\<lparr> fProtocol := normalize_proto (tokens ! 1) \<rparr> \<rparr>
      else if hd tokens = ''port'' \<and> 2 \<le> length tokens then
        (if parse_port (tokens ! 1) \<noteq> 0
         then s\<lparr> ov_profile := (ov_profile s)\<lparr> fPort := parse_port (tokens ! 1) \<rparr>, ov_sawPort := True \<rparr>
         else s)
      else s)"

definition ovpn_line :: "string \<Rightarrow> ovpn_parse \<Rightarrow> ovpn_parse" where
  "ovpn_line raw s =
     (let line = ov_trim raw in
      if line = [] \<or> line ! 0 = CHR ''#'' \<or> line ! 0 = CHR '';'' then s
      else if ov_inlineTag s \<noteq> [] then
        (if line = ''</'' @ ov_inlineTag s @ ''>'' then s\<lparr> ov_inlineTag := [] \<rparr> else s)
      else if 3 \<le> length line \<and> line ! 0 = CHR ''<'' \<and> line ! 1 \<noteq> CHR ''/'' \<and> last line = CHR ''>'' then
        s\<lparr> ov_inlineTag := take (length line - 2) (drop 1 line) \<rparr>
      else let tokens = tokenize line in if tokens = [] then s else ovpn_directive tokens s)"

definition ovpn_ParseText :: "string \<Rightarrow> VPNProfile \<Rightarrow> VPNProfile" where
  "ovpn_ParseText t p =
     (let p = (if fProtocol p = [] then p\<lparr> fProtocol := ''udp'' \<rparr> else p);
          p = (if fPort p = 0 then p\<lparr> fPort := 1194 \<rparr> else p)
      in ov_profile (fold ovpn_line (split_on (CHR 0x0A) t)
           \<lparr> ov_profile = p, ov_sawPort = False, ov_sawRemote = False, ov_inlineTag = [] \<rparr>))"

text \<open>\<open>read_file path\<close> is what reading the file gives, \<open>None\<close> when it cannot be opened.\<close>

definition ovpn_ParseFile :: "(string \<Rightarrow> string option) \<Rightarrow> string \<Rightarrow> VPNProfile \<Rightarrow> VPNProfile option" where
  "ovpn_ParseFile read_file path p =
     (if path = [] then None
      else case read_file path of None \<Rightarrow> None
      | Some t \<Rightarrow>
          let p = (ovpn_ParseText t p)\<lparr> fConfigPath := path \<rparr>
          in Some (if fName p = [] then p\<lparr> fName := c_str (default_name_for path) \<rparr> else p))"

subsection \<open>How the socket cuts the bytes does not matter\<close>

lemma feed_loop_lines: "feed_loop buf = (map ParseLine (butlast (split_on (CHR 0x0A) buf)), last (split_on (CHR 0x0A) buf))"
proof (induction buf rule: feed_loop.induct)
  case (1 buf)
  show ?case
  proof (cases "find_first (CHR 0x0A) buf")
    case None
    then have "split_on (CHR 0x0A) buf = [buf]" by (simp add: split_on_notin)
    then show ?thesis by (simp add: feed_loop.simps [of buf] None del: find_first_None)
  next
    case (Some i)
    note f = find_first_Some [OF Some]
    then have "split_on (CHR 0x0A) (take i buf @ CHR 0x0A # drop (Suc i) buf) = take i buf # split_on (CHR 0x0A) (drop (Suc i) buf)"
      by (intro split_on_append_delim) blast
    moreover have "take i buf @ CHR 0x0A # drop (Suc i) buf = buf" using f id_take_nth_drop [of i buf] by simp
    ultimately have "split_on (CHR 0x0A) buf = take i buf # split_on (CHR 0x0A) (drop (Suc i) buf)" by simp
    then show ?thesis using "1.IH" [OF Some] by (simp add: feed_loop.simps [of buf] Some)
  qed
qed

lemma split_on_last: "split_on d (xs @ ys) = butlast (split_on d xs) @ split_on d (last (split_on d xs) @ ys)"
proof (induction xs)
  case (Cons x xs)
  obtain f fs where s: "split_on d xs = f # fs" by (metis list.exhaust split_on_ne)
  show ?case
  proof (cases "x = d")
    case True
    then show ?thesis using Cons.IH by simp
  next
    case False
    then show ?thesis using Cons.IH s by (cases fs) (auto split: list.splits)
  qed
qed simp

lemma Feed_append: "Feed b (x @ y) = (let (es, b') = Feed b x; (fs, b'') = Feed b' y in (es @ fs, b''))"
  using split_on_last [of "CHR 0x0A" "b @ x" y] by (simp add: Feed_def feed_loop_lines butlast_append)

text \<open>The events of a sequence of chunks.\<close>

fun feeds :: "string \<Rightarrow> string list \<Rightarrow> ov_event list \<times> string" where
  "feeds b [] = ([], b)"
| "feeds b (c # cs) = (let (es, b') = Feed b c; (fs, b'') = feeds b' cs in (es @ fs, b''))"

text \<open>
  The events are those of the lines received, in order, and the unfinished line stays in the buffer,
  whatever the chunks.
\<close>

theorem feeds_lines:
  "CHR 0x0A \<notin> set b \<Longrightarrow> feeds b cs = (map ParseLine (butlast (split_on (CHR 0x0A) (b @ concat cs))), last (split_on (CHR 0x0A) (b @ concat cs)))"
proof -
  have "feeds b cs = Feed b (concat cs)" if "CHR 0x0A \<notin> set b" for b
    using that
  proof (induction cs arbitrary: b)
    case Nil
    then show ?case by (simp add: Feed_def feed_loop_lines split_on_notin)
  next
    case (Cons c cs)
    have "CHR 0x0A \<notin> set (snd (Feed b c))"
    proof -
      have "d \<notin> set (last (split_on d s))" for d :: char and s by (induction s) (auto split: list.splits if_splits)
      then show ?thesis by (simp add: Feed_def feed_loop_lines)
    qed
    then show ?case using Cons.IH [of "snd (Feed b c)"] by (simp add: Feed_append split_beta Let_def)
  qed
  then show "CHR 0x0A \<notin> set b \<Longrightarrow> ?thesis" by (simp add: Feed_def feed_loop_lines)
qed

subsection \<open>Arguments are read back\<close>

text \<open>
  The lexer of the other side, from behind an opening quote: a backslash takes the next character
  literally, a quote ends the argument.
\<close>

fun read_quoted :: "string \<Rightarrow> (string \<times> string) option" where
  "read_quoted [] = None"
| "read_quoted (c # cs) =
     (if c = CHR 0x22 then Some ([], cs)
      else if c = CHR 0x5C then (case cs of [] \<Rightarrow> None | d # ds \<Rightarrow> map_option (\<lambda>(v, r). (d # v, r)) (read_quoted ds))
      else map_option (\<lambda>(v, r). (c # v, r)) (read_quoted cs))"

lemma read_Escape: "read_quoted (Escape v @ CHR 0x22 # r) = Some (v, r)"
  by (induction v) auto

text \<open>Realm and secret arrive as they are, whatever quotes and backslashes they contain.\<close>

theorem credentials_read:
  "\<exists>r. read_quoted (drop 10 (CommandUsername realm v)) = Some (realm, '' '' @ CHR 0x22 # r) \<and> read_quoted r = Some (v, [])"
  "\<exists>r. read_quoted (drop 10 (CommandPassword realm v)) = Some (realm, '' '' @ CHR 0x22 # r) \<and> read_quoted r = Some (v, [])"
  using read_Escape [of v "[]"] by (simp_all add: CommandUsername_def CommandPassword_def read_Escape)

text \<open>
  A line feed is not escaped: a user name with one ends the command and makes the rest a command of
  its own.
\<close>

lemma line_feed_splits_command:
  "split_on (CHR 0x0A) (CommandUsername ''Auth'' (''x'' @ [CHR 0x0A] @ ''signal SIGTERM'' @ [CHR 0x0A]))
     = [''username '' @ [CHR 0x22] @ ''Auth'' @ [CHR 0x22] @ '' '' @ [CHR 0x22] @ ''x'', CommandSignalTerm, [CHR 0x22]]"
  by code_simp

text \<open>The backend's commands stay on one line, and a credential of one line is read back unchanged.\<close>

lemma escape_arg_line: "CHR 0x0A \<notin> set (escape_arg v) \<and> CHR 0x0D \<notin> set (escape_arg v)"
proof -
  have "CHR 0x0A \<notin> set (escape_loop s) \<and> CHR 0x0D \<notin> set (escape_loop s)" for s by (induction s) auto
  then show ?thesis by (simp add: escape_arg_def)
qed

lemma escape_loop_Escape: "CHR 0x0A \<notin> set v \<Longrightarrow> CHR 0x0D \<notin> set v \<Longrightarrow> escape_loop v = Escape v"
  by (induction v) auto

theorem backend_credentials_read:
  assumes "CHR 0x0A \<notin> set realm" "CHR 0x22 \<notin> set realm" "CHR 0x5C \<notin> set realm" "CHR 0x0A \<notin> set verb"
  shows "CHR 0x0A \<notin> set (credential_command verb realm v)"
    and "CHR 0x0A \<notin> set v \<Longrightarrow> CHR 0x0D \<notin> set v \<Longrightarrow> c_str v = v
      \<Longrightarrow> \<exists>r. read_quoted (drop (length verb + 2) (credential_command verb realm v)) = Some (realm, '' '' @ CHR 0x22 # r)
           \<and> read_quoted r = Some (v, [])"
proof -
  show "CHR 0x0A \<notin> set (credential_command verb realm v)" using assms escape_arg_line [of v] by (simp add: credential_command_def)
  have q: "read_quoted (realm @ CHR 0x22 # r) = Some (realm, r)" for r
    using assms(2,3) by (induction realm) auto
  show "CHR 0x0A \<notin> set v \<Longrightarrow> CHR 0x0D \<notin> set v \<Longrightarrow> c_str v = v
      \<Longrightarrow> \<exists>r. read_quoted (drop (length verb + 2) (credential_command verb realm v)) = Some (realm, '' '' @ CHR 0x22 # r)
           \<and> read_quoted r = Some (v, [])"
    using read_Escape [of v "[]"] by (simp add: credential_command_def q escape_arg_def escape_loop_Escape)
qed

subsection \<open>What decides the port\<close>

text \<open>Between the tags of an inline block nothing is a directive.\<close>

lemma inline_block_skipped:
  assumes "ov_inlineTag s = tag" "tag \<noteq> []" "\<forall>l \<in> set body. ov_trim l \<noteq> ''</'' @ tag @ ''>''"
  shows "fold ovpn_line body s = s"
  using assms(3)
proof (induction body)
  case (Cons l body)
  then have "ovpn_line l s = s" using assms(1,2) by (simp add: ovpn_line_def Let_def)
  then show ?case using Cons by simp
qed simp

lemma inline_block:
  assumes "ov_inlineTag s = []" "ov_trim h = ''<'' @ tag @ ''>''" "tag \<noteq> []" "hd tag \<noteq> CHR ''/''"
    and "\<forall>l \<in> set body. ov_trim l \<noteq> ''</'' @ tag @ ''>''" "ov_trim e = ''</'' @ tag @ ''>''"
  shows "fold ovpn_line (h # body @ [e]) s = s"
proof -
  obtain c cs where t: "tag = c # cs" "c \<noteq> CHR ''/''" using assms(3,4) by (cases tag) auto
  have "ovpn_line h s = s\<lparr> ov_inlineTag := tag \<rparr>" using assms(1,2) t by (simp add: ovpn_line_def Let_def)
  moreover have "fold ovpn_line body (s\<lparr> ov_inlineTag := tag \<rparr>) = s\<lparr> ov_inlineTag := tag \<rparr>"
    using assms(3,5) by (intro inline_block_skipped) simp_all
  moreover have "ovpn_line e (s\<lparr> ov_inlineTag := tag \<rparr>) = s" using assms(1,3,6) by (simp add: ovpn_line_def Let_def)
  ultimately show ?thesis by simp
qed

text \<open>The ports of the valid \<open>port\<close> directives, and the one of the first \<open>remote\<close>.\<close>

definition port_lines :: "string list list \<Rightarrow> u16 list" where
  "port_lines ts = filter (\<lambda>p. p \<noteq> 0) (map (\<lambda>t. parse_port (t ! 1)) (filter (\<lambda>t. hd t = ''port'' \<and> 2 \<le> length t) ts))"

definition remote_ports :: "string list list \<Rightarrow> u16 list" where
  "remote_ports ts = (case filter (\<lambda>t. hd t = ''remote'' \<and> 2 \<le> length t) ts of [] \<Rightarrow> []
     | t # _ \<Rightarrow> if 3 \<le> length t \<and> parse_port (t ! 2) \<noteq> 0 then [parse_port (t ! 2)] else [])"

lemma port_lines_Cons:
  "port_lines (t # ts) = (if hd t = ''port'' \<and> 2 \<le> length t \<and> parse_port (t ! 1) \<noteq> 0 then [parse_port (t ! 1)] else []) @ port_lines ts"
  by (simp add: port_lines_def)

lemma remote_ports_Cons:
  "remote_ports (t # ts) = (if hd t = ''remote'' \<and> 2 \<le> length t
     then (if 3 \<le> length t \<and> parse_port (t ! 2) \<noteq> 0 then [parse_port (t ! 2)] else []) else remote_ports ts)"
  by (simp add: remote_ports_def)

lemma directive_remote:
  assumes "hd t = ''remote''" "2 \<le> length t"
  shows "fPort (ov_profile (ovpn_directive t s))
      = (if \<not> ov_sawRemote s \<and> 3 \<le> length t \<and> \<not> ov_sawPort s \<and> parse_port (t ! 2) \<noteq> 0 then parse_port (t ! 2) else fPort (ov_profile s))"
    "ov_sawRemote (ovpn_directive t s)" "ov_sawPort (ovpn_directive t s) = ov_sawPort s"
  using assms by (simp_all add: ovpn_directive_def Let_def)

lemma directive_port:
  assumes "hd t = ''port''" "2 \<le> length t" "parse_port (t ! 1) \<noteq> 0"
  shows "fPort (ov_profile (ovpn_directive t s)) = parse_port (t ! 1)"
    "ov_sawRemote (ovpn_directive t s) = ov_sawRemote s" "ov_sawPort (ovpn_directive t s)"
  using assms by (simp_all add: ovpn_directive_def)

lemma directive_other:
  assumes "\<not> (hd t = ''remote'' \<and> 2 \<le> length t)" "\<not> (hd t = ''port'' \<and> 2 \<le> length t \<and> parse_port (t ! 1) \<noteq> 0)"
  shows "fPort (ov_profile (ovpn_directive t s)) = fPort (ov_profile s)"
    "ov_sawRemote (ovpn_directive t s) = ov_sawRemote s" "ov_sawPort (ovpn_directive t s) = ov_sawPort s"
  using assms by (auto simp: ovpn_directive_def)

text \<open>
  The last valid \<open>port\<close> line wins, wherever the \<open>remote\<close> lines stand; without one the first \<open>remote\<close>
  decides if it carries a valid port.
\<close>

theorem ovpn_port:
  "fPort (ov_profile (fold ovpn_directive ts s))
     = last (fPort (ov_profile s) # (if ov_sawRemote s \<or> ov_sawPort s then [] else remote_ports ts) @ port_lines ts)"
proof (induction ts arbitrary: s)
  case Nil
  then show ?case by (simp add: port_lines_def remote_ports_def)
next
  case (Cons t ts)
  consider (remote) "hd t = ''remote''" "2 \<le> length t" | (port) "hd t = ''port''" "2 \<le> length t" "parse_port (t ! 1) \<noteq> 0"
    | (other) "\<not> (hd t = ''remote'' \<and> 2 \<le> length t)" "\<not> (hd t = ''port'' \<and> 2 \<le> length t \<and> parse_port (t ! 1) \<noteq> 0)"
    by blast
  then show ?case
  proof cases
    case remote
    then show ?thesis by (simp add: Cons.IH directive_remote [OF remote] port_lines_Cons remote_ports_Cons)
  next
    case port
    then show ?thesis by (simp add: Cons.IH directive_port [OF port] port_lines_Cons remote_ports_Cons)
  next
    case other
    have "port_lines (t # ts) = port_lines ts" "remote_ports (t # ts) = remote_ports ts"
      by (simp_all only: port_lines_Cons remote_ports_Cons other if_False append_Nil)
    then show ?thesis by (simp only: fold_Cons comp_apply Cons.IH directive_other [OF other])
  qed
qed

end
