(* ===== verification/Spec2Isabelle.thy ===== *)
theory Spec2Isabelle
  imports Backoff PeerPath Handshake Config Http2 MagicSock Derp RouteSync ControlSession TunnelSafety WGLifecycle ServerSafety OpenVPN
begin

text \<open>
  \<^bold>\<open>Sotoportego\<close> is a VPN client for Haiku: a daemon that owns the connection, backends for
  OpenVPN, WireGuard and Tailscale, a GUI and a command line.  This development models the parts
  that carry its own protocol logic and states what makes them correct.  Paths are relative to
  \<open>src/src/\<close>; unless another directory is named they lie in \<open>backend/tailscale/\<close>.

  \<^bold>\<open>How the parts interact.\<close>  A Tailscale node first loads its three key pairs
  (\<open>TSIdentity\<close>) and its settings (\<open>common/TSConfig\<close>).  It fetches the key of the control server,
  runs a Noise IK handshake inside an HTTP upgrade (\<open>TSControlClient\<close>, \<open>TSNoise\<close>, \<open>TSTls\<close>) and
  gets an encrypted record stream (\<open>TSControlConn\<close>); HTTP/2 with HPACK runs on it (\<open>TSHttp2\<close>,
  \<open>TSHpack\<close>).  Over HTTP/2 it registers (\<open>TSRegister\<close>, \<open>TSControlSession\<close>) and keeps the long poll
  for network maps open (\<open>TSMap\<close>).  A map is JSON (\<open>TSJson\<close>) and is merged into the netmap
  (\<open>TSNetmap\<close>), from which the peers (\<open>TSPeerSet\<close>), the names (\<open>TSMagicDns\<close>) and the routes
  (\<open>TSRoutes\<close>, \<open>TunDevice\<close>) follow (\<open>TSSessionState\<close>, \<open>TailscaleBackend\<close>).  Packets pass between
  the tunnel device, one WireGuard session per peer (\<open>WGPeer\<close>, \<open>backend/WireGuardCrypto\<close>), a shared
  UDP socket with STUN and disco (\<open>MagicSock\<close>, \<open>TSStun\<close>, \<open>TSDisco\<close>, \<open>NaClBox\<close>) and the DERP relay
  (\<open>TSDerp\<close>); \<open>PeerPath\<close> chooses between the direct path and the relay.  The WireGuard backend
  (\<open>backend/WireGuardBackend\<close>) reads a configuration file (\<open>common/WireGuardConfigParser\<close>) and carries
  packets between a tunnel device and one peer.  The daemon (\<open>server/SotoportegoServer\<close>) keeps the
  profiles (\<open>server/ProfileStore\<close>), drives one backend at a time through the methods of
  \<open>backend/VPNBackend\<close>, tells its clients what happens and reconnects after a drop.

  \<^bold>\<open>The theories.\<close>
  \<^item> \<open>Soto_Prelude\<close>: the integer types, status codes, slices and memory copies of the sources, with
    their lemmas.  \<open>CLib\<close>: the C-locale character classes, \<open>strtoull\<close>, \<open>sscanf\<close> of dotted quads,
    \<open>inet_pton\<close>, \<open>BString\<close> searches that the parsers call.
  \<^item> Cryptography.  \<open>WGCrypto\<close> is \<open>WireGuardCrypto.cpp\<close>: BLAKE2s bit for bit, HMAC, HKDF; feeding the
    hash in pieces equals hashing the whole.  \<open>Poly1305\<close> and \<open>NaClBox\<close> are \<open>NaClBox.cpp\<close>: the limb
    arithmetic equals evaluation of the RFC 8439 polynomial modulo $2^{130}-5$ with no overflow, and
    opening accepts exactly what sealing produces.  X25519 and ChaCha20-Poly1305 come from OpenSSL
    and are the record parameter \<open>openssl\<close> with the documented laws \<open>dh_laws\<close> and \<open>aead_laws\<close>
    (commuting exchange, decryption inverts encryption, tag of 16 bytes, no second plaintext);
    every witness instantiates them with a concrete function.
  \<^item> WireGuard.  \<open>Replay\<close> is the RFC 6479 window on 64-bit words and its simulation of an abstract
    sliding window, stated once in the locale \<open>replay_filter\<close>; \<open>WGPeer\<close> all methods of \<open>WGPeer.cpp\<close>;
    \<open>Handshake\<close> that two peers agree and then deliver each packet exactly once.
  \<^item> Control plane.  \<open>Noise\<close>, \<open>TlsStream\<close>, \<open>ControlChannel\<close>, \<open>ControlConn\<close>, \<open>Huffman\<close>, \<open>Hpack\<close>,
    \<open>Http2\<close>, \<open>MapStream\<close>, \<open>ControlSession\<close> follow the files named above.  A received stream is a list
    of pieces cut arbitrarily by TLS, so every round trip holds for every cut.  HTTP/2 is proved over
    the locale \<open>record_link\<close> and interpreted on \<open>ControlConn\<close>; the map poll over \<open>body_source\<close>,
    interpreted on HTTP/2; together they give \<open>register_end_to_end\<close>.
  \<^item> Network map.  \<open>Json\<close> (parser, grammar, completeness, termination), \<open>Netmap\<close> (a full response
    restores the map, a delta acts as a finite map), \<open>PeerSet\<close>, \<open>MagicDns\<close>, \<open>Routes\<close> (planning, and
    the locale \<open>reconcile\<close> of the two diff functions), \<open>SessionState\<close> (all of them stay in step).
  \<^item> Machine state.  \<open>TunDevice\<close> and \<open>RouteSync\<close> issue \<open>ifconfig\<close> and \<open>route\<close> commands; what running a
    command does to the routing table is an argument.  After every history, tearing down restores
    the table.
  \<^item> Data plane.  \<open>MagicSock\<close>, \<open>Disco\<close>, \<open>Derp\<close>, \<open>PeerPath\<close>, \<open>DataPlane\<close> (the packet handlers of
    \<open>TailscaleBackend.cpp\<close>), \<open>Tunnel\<close> (the first packet brings the tunnel up), \<open>TunnelSafety\<close> (the
    handlers as a step relation, invariants of every reachable state).
  \<^item> \<open>Identity\<close>, \<open>Config\<close>, \<open>Backoff\<close>: keys, settings, reconnect delays.
  \<^item> WireGuard backend.  \<open>WGConfig\<close> is the file parser, with a specification of the texts that
    describe a configuration; \<open>Base64\<close> and \<open>WGEngine\<close> the key decoding and the protocol engine of
    \<open>WireGuardBackend.cpp\<close>, which interoperates with \<open>WGPeer\<close>; \<open>WGBackend\<close> its looper side, routes,
    resolver file and reader thread, and their interleaving as a step relation; \<open>WGLifecycle\<close> what
    holds in every reachable state: resources and published state agree, the routes and the resolver
    file come back.
  \<^item> Daemon.  \<open>VPNTypes\<close> holds the states, statistics and profiles with their messages; \<open>ProfileStore\<close>
    the stored profiles, durable over failing writes and crashes; \<open>Server\<close> every handler of the daemon
    over an interface of the backends; \<open>ServerSafety\<close> the invariant of all histories of messages and
    the bounds on reconnecting.
  \<^item> \<open>OpenVPN\<close>: the management protocol (\<open>backend/OpenVPNManagement\<close>) and the reader of \<open>.ovpn\<close> files
    (\<open>common/OpenVPNConfigParser\<close>).

  \<^bold>\<open>Conventions.\<close>  Fixed-width integers are words; microsecond times and sizes that cannot overflow
  are \<open>int\<close> and \<open>nat\<close>.  Buffers are byte lists.  Out parameters are results, failures are \<open>None\<close> or
  a status.  Random bytes, clocks, the key store, name resolution, and the answers of the network are
  arguments.  Pointers into a vector are indices; a write out of bounds is an undefined result.

  \<^bold>\<open>Bounds and fuel.\<close>  The JSON descent takes fuel twice the text length plus one, proved enough and
  irrelevant beyond; the response loop of HTTP/2 takes the 100000 frames the code itself allows;
  read loops recurse on the list of pieces still to come.  No other recursion needs fuel.

  \<^bold>\<open>Assumptions on the surroundings.\<close>  The laws for \<open>ifconfig\<close> and \<open>route\<close> (\<open>tools\<close> in theory
  \<open>RouteSync\<close>) say that a command does what it is asked; the code does not look at the result of
  \<open>route\<close>, so the properties that use them say nothing of a run in which one fails.  The renames of
  the resolver file are assumed to work where the property says so (theory \<open>WGLifecycle\<close> shows what
  happens otherwise).

  \<^bold>\<open>Not modelled.\<close>  The OpenVPN process and its backend (\<open>backend/OpenVPNBackend\<close>, apart from the
  escaping of credentials): spawning, polling and log scanning around a program that is not in the
  repository.  In \<open>TailscaleBackend\<close> the start and the joining of the threads, whose bodies are modelled.
  The catalogue and geolocation fetchers of the daemon (\<open>server/VPNGateFetcher\<close>, \<open>server/GeoLookup\<close>),
  which it sees as messages; the desktop application (\<open>gui/\<close>) and the command line (\<open>cli/\<close>), which
  are clients of the daemon; OpenSSL, the Haiku kits and the network.
\<close>

end
